(* ===== verification/Prelude.thy ===== *)
theory Prelude
  imports Main "HOL-Library.Sublist"
begin

text \<open>
  Shared ground of the development: the collections of rewrite rules the component proofs
  draw on, and the generic facts about lists, options and filters that several components use.
  Nothing here mentions the program.

  \<^item> \<open>js_norm\<close> collects the unfolding rules of the JavaScript library model (truthiness,
    property access, coercions);
  \<^item> \<open>js_wf\<close> collects the facts that an operation keeps a well-formedness invariant.

  \<open>uniq\<close> is the order-preserving removal of duplicates that the source spells
  \<^verbatim>\<open>Array.from(new Set(xs))\<close>: a JavaScript \<^verbatim>\<open>Set\<close> iterates in insertion order, so the first
  occurrence of each element stays. The locale \<open>first_occurrences\<close> states what its clients
  rely on, and is interpreted on \<open>uniq\<close> below.
\<close>

named_theorems js_norm
named_theorems js_wf

subsection \<open>Order-preserving removal of duplicates\<close>

fun uniq_from :: "'a list \<Rightarrow> 'a list \<Rightarrow> 'a list" where
  "uniq_from seen [] = []"
| "uniq_from seen (x # xs) =
     (if x \<in> set seen then uniq_from seen xs else x # uniq_from (x # seen) xs)"

definition uniq :: "'a list \<Rightarrow> 'a list" where
  "uniq xs = uniq_from [] xs"

lemma set_uniq_from: "set (uniq_from seen xs) = set xs - set seen"
  by (induction xs arbitrary: seen) auto

lemma distinct_uniq_from: "distinct (uniq_from seen xs)"
  by (induction xs arbitrary: seen) (auto simp: set_uniq_from)

lemma subseq_uniq_from: "subseq (uniq_from seen xs) xs"
  by (induction xs arbitrary: seen) auto

lemma uniq_from_id: "distinct xs \<Longrightarrow> set xs \<inter> set seen = {} \<Longrightarrow> uniq_from seen xs = xs"
  by (induction xs arbitrary: seen) auto

text \<open>What a caller of \<^verbatim>\<open>Array.from(new Set(xs))\<close> relies on.\<close>

locale first_occurrences =
  fixes dedup :: "'a list \<Rightarrow> 'a list"
  assumes dedup_set: "set (dedup xs) = set xs"
    and dedup_distinct: "distinct (dedup xs)"
    and dedup_subseq: "subseq (dedup xs) xs"
    and dedup_id: "distinct xs \<Longrightarrow> dedup xs = xs"
begin

lemma dedup_idem: "dedup (dedup xs) = dedup xs"
  by (simp add: dedup_id dedup_distinct)

lemma dedup_empty_iff: "dedup xs = [] \<longleftrightarrow> xs = []"
  using dedup_set by (metis set_empty)

lemma dedup_length: "length (dedup xs) \<le> length xs"
  using dedup_subseq by (rule list_emb_length)

lemma dedup_length_card: "length (dedup xs) = card (set xs)"
  by (metis dedup_distinct dedup_set distinct_card)

end

interpretation uq: first_occurrences uniq
proof
  fix xs :: "'a list"
  show "set (uniq xs) = set xs" by (simp add: uniq_def set_uniq_from)
  show "distinct (uniq xs)" by (simp add: uniq_def distinct_uniq_from)
  show "subseq (uniq xs) xs" by (simp add: uniq_def subseq_uniq_from)
  show "uniq xs = xs" if "distinct xs" using that by (simp add: uniq_def uniq_from_id)
qed

declare uq.dedup_set [simp] uq.dedup_distinct [simp] uq.dedup_empty_iff [simp]

subsection \<open>Lists\<close>

lemma set_eq_empty_filter: "filter P xs = [] \<longleftrightarrow> (\<forall>x\<in>set xs. \<not> P x)"
  by (induction xs) auto

lemma takeWhile_all: "\<forall>x\<in>set xs. P x \<Longrightarrow> takeWhile P (xs @ ys) = xs @ takeWhile P ys"
  by (induction xs) auto

lemma dropWhile_all: "\<forall>x\<in>set xs. P x \<Longrightarrow> dropWhile P (xs @ ys) = dropWhile P ys"
  by (induction xs) auto

lemma dropWhile_stop: "xs = [] \<or> \<not> P (hd xs) \<Longrightarrow> dropWhile P xs = xs"
  by (cases xs) auto

lemma subseq_set_subset: "subseq xs ys \<Longrightarrow> set xs \<subseteq> set ys"
  by (auto elim: list_emb_set)

lemma subseq_distinct: "subseq xs ys \<Longrightarrow> distinct ys \<Longrightarrow> distinct xs"
  by (induction rule: list_emb.induct) (auto dest: subseq_set_subset)

text \<open>A text is cut in one way at a unit that neither first half contains, and likewise from the
  right.\<close>

lemma append_sep_eq: "c \<notin> set w \<Longrightarrow> c \<notin> set w' \<Longrightarrow> w @ c # t = w' @ c # t' \<longleftrightarrow> w = w' \<and> t = t'"
proof (induction w arbitrary: w')
  case Nil
  then show ?case by (cases w') auto
next
  case (Cons x w)
  then show ?case by (cases w') auto
qed

lemma append_sep_eq_right:
  assumes "c \<notin> set n" "c \<notin> set n'"
  shows "t @ c # n = t' @ c # n' \<longleftrightarrow> t = t' \<and> n = n'"
proof -
  have "t @ c # n = t' @ c # n' \<longleftrightarrow> rev (t @ c # n) = rev (t' @ c # n')" by (rule rev_is_rev_conv [symmetric])
  also have "\<dots> \<longleftrightarrow> rev n @ c # rev t = rev n' @ c # rev t'" by simp
  also have "\<dots> \<longleftrightarrow> t = t' \<and> n = n'" using assms append_sep_eq [of c "rev n" "rev n'"] by auto
  finally show ?thesis .
qed

lemma last_update: "xs \<noteq> [] \<Longrightarrow> xs[length xs - 1 := y] = butlast xs @ [y]"
  by (induction xs rule: rev_induct) auto

lemma map_of_filter_val:
  "distinct (map fst p) \<Longrightarrow> map_of (filter (\<lambda>(k, v). P v) p) k = (case map_of p k of Some v \<Rightarrow> if P v then Some v else None | None \<Rightarrow> None)"
  by (induction p) (auto split: option.splits simp: map_of_eq_None_iff)

end
