(* ===== verification/JS_String.thy ===== *)
theory JS_String
  imports Prelude "HOL-Library.List_Lexorder"
begin

text \<open>
  JavaScript strings and the string operations of the standard library that the frontend uses.

  A string is the list of its UTF-16 code units. A code unit is an integer; the theorems hold
  for every list of integers, in particular for the units from 0 to 65535 that a JavaScript
  engine produces. \<open>js\<close> embeds an Isabelle literal, so \<open>js ''abc''\<close> is the
  source literal \<^verbatim>\<open>'abc'\<close>.
\<close>

type_synonym jsstring = "int list"

definition js :: "string \<Rightarrow> jsstring" where
  "js s = map of_char s"

lemma js_inject [simp]: "js s = js t \<longleftrightarrow> s = t"
  by (auto simp: js_def inj_map_eq_map inj_def)

lemma js_Nil [simp]: "js [] = []"
  by (simp add: js_def)

lemma js_eq_Nil [simp]: "js s = [] \<longleftrightarrow> s = []" "[] = js s \<longleftrightarrow> s = []"
  by (auto simp: js_def)

lemma js_append: "js (s @ t) = js s @ js t"
  by (simp add: js_def)

lemma length_js [simp]: "length (js s) = length s"
  by (simp add: js_def)

subsection \<open>White space and \<open>trim\<close>\<close>

text \<open>WhiteSpace and LineTerminator of ECMAScript; all of them are single code units.\<close>

definition is_ws :: "int \<Rightarrow> bool" where
  "is_ws c \<longleftrightarrow> 9 \<le> c \<and> c \<le> 13 \<or> c = 32 \<or> c = 160 \<or> c = 5760 \<or> 8192 \<le> c \<and> c \<le> 8202 \<or>
     c = 8232 \<or> c = 8233 \<or> c = 8239 \<or> c = 8287 \<or> c = 12288 \<or> c = 65279"

definition trim_start :: "jsstring \<Rightarrow> jsstring" where
  "trim_start s = dropWhile is_ws s"

definition trim_end :: "jsstring \<Rightarrow> jsstring" where
  "trim_end s = rev (dropWhile is_ws (rev s))"

definition trim :: "jsstring \<Rightarrow> jsstring" where
  "trim s = trim_end (trim_start s)"

text \<open>A string that \<open>trim\<close> leaves alone: it neither starts nor ends with white space.\<close>

definition trimmed :: "jsstring \<Rightarrow> bool" where
  "trimmed s \<longleftrightarrow> s = [] \<or> \<not> is_ws (hd s) \<and> \<not> is_ws (last s)"

lemma trim_end_app: "\<exists>w. s = trim_end s @ w \<and> (\<forall>c\<in>set w. is_ws c)"
proof -
  have "rev s = takeWhile is_ws (rev s) @ dropWhile is_ws (rev s)" by simp
  then have "s = rev (dropWhile is_ws (rev s)) @ rev (takeWhile is_ws (rev s))"
    by (metis rev_append rev_rev_ident)
  then show ?thesis by (metis set_rev set_takeWhileD trim_end_def)
qed

lemma trim_start_app: "\<exists>w. s = w @ trim_start s \<and> (\<forall>c\<in>set w. is_ws c)"
  by (metis set_takeWhileD takeWhile_dropWhile_id trim_start_def)

lemma trim_decomp: "\<exists>u v. s = u @ trim s @ v \<and> (\<forall>c\<in>set u. is_ws c) \<and> (\<forall>c\<in>set v. is_ws c)"
proof -
  obtain u where u: "s = u @ trim_start s" "\<forall>c\<in>set u. is_ws c"
    using trim_start_app by blast
  obtain v where v: "trim_start s = trim s @ v" "\<forall>c\<in>set v. is_ws c"
    using trim_end_app [of "trim_start s"] by (auto simp: trim_def)
  from u v show ?thesis by metis
qed

lemma trim_end_last: "trim_end s \<noteq> [] \<Longrightarrow> \<not> is_ws (last (trim_end s))"
  by (metis hd_dropWhile hd_rev rev_is_Nil_conv rev_rev_ident trim_end_def)

lemma trim_end_hd: "trim_end s \<noteq> [] \<Longrightarrow> hd (trim_end s) = hd s"
  by (metis hd_append2 trim_end_app)

lemma trimmed_trim [simp]: "trimmed (trim s)"
proof (cases "trim s = []")
  case False
  then have "trim_start s \<noteq> []"
    by (auto simp: trim_def trim_end_def)
  then have "\<not> is_ws (hd (trim_start s))"
    unfolding trim_start_def by (rule hd_dropWhile)
  with False show ?thesis
    by (auto simp: trimmed_def trim_def trim_end_hd trim_end_last)
qed (simp add: trimmed_def)

lemma trim_id: "trimmed s \<Longrightarrow> trim s = s"
  by (auto simp: trimmed_def trim_def trim_start_def trim_end_def dropWhile_stop hd_rev)

lemma trim_idem [simp]: "trim (trim s) = trim s"
  by (simp add: trim_id)

lemma trim_Nil [simp]: "trim [] = []"
  by (simp add: trim_def trim_start_def trim_end_def)

lemma trim_eq_Nil: "trim s = [] \<longleftrightarrow> (\<forall>c\<in>set s. is_ws c)"
proof
  assume "trim s = []"
  then show "\<forall>c\<in>set s. is_ws c" using trim_decomp [of s] by auto
next
  assume "\<forall>c\<in>set s. is_ws c"
  then have "trim_start s = []" by (simp add: trim_start_def dropWhile_eq_Nil_conv)
  then show "trim s = []" by (simp add: trim_def trim_end_def)
qed

lemma trim_snoc_ws: "is_ws c \<Longrightarrow> trim (s @ [c]) = trim s"
proof -
  assume c: "is_ws c"
  show ?thesis
  proof (cases "\<forall>x\<in>set s. is_ws x")
    case True
    then have "trim (s @ [c]) = []" "trim s = []" using c by (auto simp: trim_eq_Nil)
    then show ?thesis by simp
  next
    case False
    then have "dropWhile is_ws (s @ [c]) = dropWhile is_ws s @ [c]" by (induction s) auto
    then show ?thesis using c by (simp add: trim_def trim_start_def trim_end_def)
  qed
qed

lemma set_trim: "set (trim s) \<subseteq> set s"
  using trim_decomp [of s] by (metis Un_iff set_append subsetI)

lemma trimmed_no_ws: "\<forall>c\<in>set s. \<not> is_ws c \<Longrightarrow> trimmed s"
  by (cases s rule: rev_cases) (auto simp: trimmed_def hd_append)

subsection \<open>\<open>split\<close> and \<open>join\<close>\<close>

text \<open>\<^verbatim>\<open>s.split(sep)\<close> for a separator of one code unit; the empty string splits into one part.\<close>

fun split_on :: "int \<Rightarrow> jsstring \<Rightarrow> jsstring list" where
  "split_on c [] = [[]]"
| "split_on c (x # xs) =
     (if x = c then [] # split_on c xs
      else (case split_on c xs of [] \<Rightarrow> [[x]] | y # ys \<Rightarrow> (x # y) # ys))"

fun join :: "jsstring \<Rightarrow> jsstring list \<Rightarrow> jsstring" where
  "join sep [] = []"
| "join sep [x] = x"
| "join sep (x # y # ys) = x @ sep @ join sep (y # ys)"

lemma split_on_nonempty [simp]: "split_on c s \<noteq> []"
  by (induction s) (auto split: list.splits)

lemma split_on_no_sep: "p \<in> set (split_on c s) \<Longrightarrow> c \<notin> set p"
  by (induction s arbitrary: p) (auto split: list.splits if_splits)

lemma join_split_on: "join [c] (split_on c s) = s"
proof (induction s)
  case (Cons x xs)
  obtain y ys where "split_on c xs = y # ys"
    by (metis list.exhaust split_on_nonempty)
  with Cons show ?case by (cases ys) auto
qed simp

lemma split_on_part: "c \<notin> set x \<Longrightarrow> split_on c x = [x]"
  by (induction x) auto

lemma split_on_append: "c \<notin> set x \<Longrightarrow> split_on c (x @ c # s) = x # split_on c s"
  by (induction x) auto

lemma split_on_join:
  "xs \<noteq> [] \<Longrightarrow> \<forall>x\<in>set xs. c \<notin> set x \<Longrightarrow> split_on c (join [c] xs) = xs"
proof (induction xs)
  case (Cons x xs)
  then show ?case by (cases xs) (auto simp: split_on_part split_on_append)
qed simp

lemma set_join: "set (join sep xs) \<subseteq> set sep \<union> (\<Union>x\<in>set xs. set x)"
  by (induction sep xs rule: join.induct) auto

lemma set_join_member: "x \<in> set xs \<Longrightarrow> set x \<subseteq> set (join sep xs)"
proof (induction xs)
  case (Cons y ys)
  then show ?case by (cases ys) auto
qed simp

lemma join_trimmed:
  assumes "xs \<noteq> []" "\<forall>x\<in>set xs. trimmed x \<and> x \<noteq> []"
  shows "trimmed (join sep xs) \<and> join sep xs \<noteq> []"
proof -
  have "join sep xs \<noteq> [] \<and> hd (join sep xs) = hd (hd xs) \<and> last (join sep xs) = last (last xs)"
    using assms
  proof (induction xs)
    case (Cons x xs)
    then show ?case by (cases xs) auto
  qed simp
  moreover have "hd xs \<in> set xs" "last xs \<in> set xs" using assms(1) by simp_all
  ultimately show ?thesis using assms(2) by (auto simp: trimmed_def)
qed

lemma join_joins:
  "\<forall>ys\<in>set yss. ys \<noteq> [] \<Longrightarrow> join sep (concat yss) = join sep (map (join sep) yss)"
proof (induction yss)
  case (Cons ys yss)
  have app: "join sep (as @ bs) = join sep as @ sep @ join sep bs" if "as \<noteq> []" "bs \<noteq> []" for as bs
    using that
  proof (induction as)
    case (Cons a as)
    then show ?case by (cases as; cases bs) auto
  qed simp
  show ?case
  proof (cases yss)
    case (Cons zs zss)
    then show ?thesis using Cons.IH Cons.prems app [of ys "concat yss"] by simp
  qed simp
qed simp

lemma join_eq_Nil: "join [c] xs = [] \<longleftrightarrow> xs = [] \<or> xs = [[]]"
proof (cases xs)
  case (Cons x ys)
  then show ?thesis by (cases ys) auto
qed simp

text \<open>\<^verbatim>\<open>x || d\<close> for an optional string: the empty string is falsy too.\<close>

definition or_str :: "jsstring option \<Rightarrow> jsstring \<Rightarrow> jsstring" where
  "or_str x d = (case x of Some t \<Rightarrow> if t \<noteq> [] then t else d | None \<Rightarrow> d)"

text \<open>\<^verbatim>\<open>s || d\<close> on strings.\<close>

definition str_or :: "jsstring \<Rightarrow> jsstring \<Rightarrow> jsstring" where
  "str_or s d = (if s = [] then d else s)"

text \<open>Case conversion on the letters of ASCII; every use compares the result with such letters.\<close>

definition ascii_upper :: "jsstring \<Rightarrow> jsstring" where
  "ascii_upper s = map (\<lambda>c. if 97 \<le> c \<and> c \<le> 122 then c - 32 else c) s"

definition ascii_lower :: "jsstring \<Rightarrow> jsstring" where
  "ascii_lower s = map (\<lambda>c. if 65 \<le> c \<and> c \<le> 90 then c + 32 else c) s"

subsection \<open>Searching\<close>

fun find_sub :: "jsstring \<Rightarrow> jsstring \<Rightarrow> nat option" where
  "find_sub n [] = (if n = [] then Some 0 else None)"
| "find_sub n (x # xs) = (if prefix n (x # xs) then Some 0 else map_option Suc (find_sub n xs))"

text \<open>\<^verbatim>\<open>s.indexOf(n, from)\<close>, with \<open>None\<close> for \<^verbatim>\<open>-1\<close>.\<close>

definition index_of :: "jsstring \<Rightarrow> jsstring \<Rightarrow> nat \<Rightarrow> nat option" where
  "index_of s n from = map_option (\<lambda>i. from + i) (find_sub n (drop from s))"

definition str_includes :: "jsstring \<Rightarrow> jsstring \<Rightarrow> bool" where
  "str_includes s n \<longleftrightarrow> find_sub n s \<noteq> None"

definition starts_with :: "jsstring \<Rightarrow> jsstring \<Rightarrow> bool" where
  "starts_with s p \<longleftrightarrow> prefix p s"

definition ends_with :: "jsstring \<Rightarrow> jsstring \<Rightarrow> bool" where
  "ends_with s p \<longleftrightarrow> suffix p s"

text \<open>\<^verbatim>\<open>s.substring(a, b)\<close> and \<^verbatim>\<open>s.slice(a, b)\<close> for \<open>0 \<le> a \<le> b\<close>.\<close>

definition substring :: "jsstring \<Rightarrow> nat \<Rightarrow> nat \<Rightarrow> jsstring" where
  "substring s a b = take (b - a) (drop a s)"

lemma find_sub_Some:
  "find_sub n s = Some i \<Longrightarrow> s = take i s @ n @ drop (i + length n) s \<and> i + length n \<le> length s"
proof (induction s arbitrary: i)
  case (Cons x xs)
  show ?case
  proof (cases "prefix n (x # xs)")
    case True
    then obtain zs where "x # xs = n @ zs" by (auto simp: prefix_def)
    moreover from this have "length n \<le> length (x # xs)" by simp
    moreover from True Cons.prems have "i = 0" by simp
    ultimately show ?thesis by auto
  next
    case False
    with Cons.prems obtain j where "find_sub n xs = Some j" "i = Suc j" by auto
    with Cons.IH [of j] show ?thesis by simp
  qed
qed (auto split: if_splits)

lemma find_sub_None: "find_sub n s = None \<longleftrightarrow> \<not> sublist n s"
  by (induction s) (auto simp: sublist_Cons_right)

lemma str_includes_iff: "str_includes s n \<longleftrightarrow> sublist n s"
  by (simp add: str_includes_def find_sub_None)

lemma str_includes_unit: "str_includes s [c] \<longleftrightarrow> c \<in> set s"
  by (auto simp: str_includes_iff sublist_def in_set_conv_decomp)

lemma find_sub_first:
  "find_sub n s = Some i \<Longrightarrow> j < i \<Longrightarrow> \<not> prefix n (drop j s)"
proof (induction s arbitrary: i j)
  case (Cons x xs)
  show ?case
  proof (cases "prefix n (x # xs)")
    case False
    with Cons.prems obtain k where k: "find_sub n xs = Some k" "i = Suc k" by auto
    with Cons.IH [OF k(1)] Cons.prems False show ?thesis by (cases j) auto
  qed (use Cons.prems in simp)
qed (auto split: if_splits)

subsection \<open>Decimal numerals\<close>

definition is_digit :: "int \<Rightarrow> bool" where
  "is_digit c \<longleftrightarrow> 48 \<le> c \<and> c \<le> 57"

definition digits_val :: "jsstring \<Rightarrow> int" where
  "digits_val s = foldl (\<lambda>a c. 10 * a + (c - 48)) 0 s"

text \<open>The decimal digits of an integer; \<open>dec_str\<close> is for integers that are not negative.\<close>

function dec_str :: "int \<Rightarrow> jsstring" where
  "dec_str n = (if n < 10 then [48 + n] else dec_str (n div 10) @ [48 + n mod 10])"
  by pat_completeness auto
termination
  by (relation "measure nat") auto

declare dec_str.simps [simp del]

definition int_str :: "int \<Rightarrow> jsstring" where
  "int_str i = (if i < 0 then 45 # dec_str (- i) else dec_str i)"

lemma dec_str_digits: "0 \<le> n \<Longrightarrow> \<forall>c\<in>set (dec_str n). is_digit c"
proof (induction n rule: dec_str.induct)
  case (1 n)
  then show ?case by (auto simp: dec_str.simps [of n] is_digit_def)
qed

lemma dec_str_nonempty [simp]: "dec_str n \<noteq> []"
  by (simp add: dec_str.simps [of n])

lemma digits_val_snoc: "digits_val (s @ [c]) = 10 * digits_val s + (c - 48)"
  by (simp add: digits_val_def)

lemma digits_val_dec_str [simp]: "digits_val (dec_str n) = n"
proof (induction n rule: dec_str.induct)
  case (1 n)
  show ?case
  proof (cases "n < 10")
    case True
    then show ?thesis by (simp add: dec_str.simps [of n] digits_val_def)
  next
    case False
    then show ?thesis using "1" by (simp add: dec_str.simps [of n] digits_val_snoc)
  qed
qed

lemma digits_val_nonneg: "\<forall>c\<in>set s. is_digit c \<Longrightarrow> 0 \<le> digits_val s"
  by (induction s rule: rev_induct) (auto simp: digits_val_snoc digits_val_def is_digit_def)

lemma dec_str_inject [simp]: "dec_str m = dec_str n \<longleftrightarrow> m = n"
  by (metis digits_val_dec_str)

lemma is_digit_not_ws: "is_digit c \<Longrightarrow> \<not> is_ws c"
  by (auto simp: is_digit_def is_ws_def)

lemma trimmed_dec_str [simp]: "0 \<le> n \<Longrightarrow> trimmed (dec_str n)"
  using dec_str_digits is_digit_not_ws by (blast intro: trimmed_no_ws)

text \<open>
  \<^verbatim>\<open>Number.parseInt(s, 10)\<close>: leading white space and a sign are skipped, then the longest run
  of digits is read; \<open>None\<close> is \<^verbatim>\<open>NaN\<close>. The value is the exact integer. The engine rounds it
  to the nearest double, which is the identity below \<open>2 ^ 53\<close> and keeps the order with
  every smaller bound that the callers compare it with.
\<close>

definition parse_int10 :: "jsstring \<Rightarrow> int option" where
  "parse_int10 s =
     (let t = trim_start s;
          neg = (t \<noteq> [] \<and> hd t = 45);
          u = (if t \<noteq> [] \<and> (hd t = 45 \<or> hd t = 43) then tl t else t);
          ds = takeWhile is_digit u
      in if ds = [] then None
         else Some (if neg then - digits_val ds else digits_val ds))"

lemma parse_int10_digits:
  assumes "s \<noteq> []" "\<forall>c\<in>set s. is_digit c"
  shows "parse_int10 s = Some (digits_val s)"
proof -
  from assms have hd: "is_digit (hd s)" by (cases s) auto
  then have "trim_start s = s"
    using is_digit_not_ws by (auto simp: trim_start_def intro: dropWhile_stop)
  moreover have "takeWhile is_digit s = s"
    using assms(2) by (simp add: takeWhile_eq_all_conv)
  moreover have "hd s \<noteq> 45" "hd s \<noteq> 43"
    using hd by (auto simp: is_digit_def)
  ultimately show ?thesis using assms(1) by (simp add: parse_int10_def Let_def del: takeWhile_eq_all_conv)
qed

end
