(* ===== verification/JS_Number.thy ===== *)
theory JS_Number
  imports JS_String Complex_Main
begin

text \<open>
  JavaScript numbers: IEEE-754 double precision values.

  A finite double is the rational it denotes; \<open>+0\<close> and \<open>-0\<close> are one value, because nothing
  in the modelled code can tell them apart (they compare equal and print alike). \<open>round_double\<close>
  is rounding to nearest, ties to even, with 53 significant bits, gradual underflow at
  \<open>2 ^ -1074\<close> and overflow to an infinity, so each arithmetic operation is the exact result
  rounded once. \<open>str_to_num\<close> is \<^verbatim>\<open>Number(s)\<close> on a string and \<open>num_to_str\<close> is
  \<^verbatim>\<open>String(n)\<close>.
\<close>

datatype jsnum = NaN | PosInf | NegInf | Fin rat

definition pow2 :: "int \<Rightarrow> rat" where
  "pow2 e = (if 0 \<le> e then 2 ^ nat e else 1 / 2 ^ nat (- e))"

definition half_even :: "rat \<Rightarrow> int" where
  "half_even q =
     (let f = \<lfloor>q\<rfloor>; d = q - of_int f
      in if d < 1 / 2 then f else if 1 / 2 < d then f + 1 else if even f then f else f + 1)"

text \<open>The number of binary digits of a non-negative integer, and the exponent of the leading bit
  of a positive rational.\<close>

function bit_count :: "int \<Rightarrow> int" where
  "bit_count n = (if n \<le> 0 then 0 else 1 + bit_count (n div 2))"
  by pat_completeness auto
termination
  by (relation "measure nat") auto

declare bit_count.simps [simp del]

definition ilog2 :: "rat \<Rightarrow> int" where
  "ilog2 q =
     (let (a, b) = quotient_of q; e = bit_count a - bit_count b
      in if pow2 e \<le> q then e else e - 1)"

definition round_double :: "rat \<Rightarrow> jsnum" where
  "round_double q =
     (if q = 0 then Fin 0
      else let a = \<bar>q\<bar>;
               e = max (ilog2 a - 52) (- 1074);
               v = of_int (half_even (a / pow2 e)) * pow2 e
           in if 1024 \<le> ilog2 v then (if q < 0 then NegInf else PosInf)
              else Fin (if q < 0 then - v else v))"

definition num_is_integer :: "jsnum \<Rightarrow> bool" where
  "num_is_integer x \<longleftrightarrow> (case x of Fin q \<Rightarrow> of_int \<lfloor>q\<rfloor> = q | _ \<Rightarrow> False)"

definition num_is_finite :: "jsnum \<Rightarrow> bool" where
  "num_is_finite x \<longleftrightarrow> (case x of Fin q \<Rightarrow> True | _ \<Rightarrow> False)"

text \<open>The comparisons are false as soon as one side is \<^verbatim>\<open>NaN\<close>.\<close>

fun num_lt :: "jsnum \<Rightarrow> jsnum \<Rightarrow> bool" where
  "num_lt NaN y = False"
| "num_lt x NaN = False"
| "num_lt (Fin a) (Fin b) = (a < b)"
| "num_lt (Fin a) PosInf = True"
| "num_lt (Fin a) NegInf = False"
| "num_lt PosInf y = False"
| "num_lt NegInf NegInf = False"
| "num_lt NegInf y = True"

definition num_eq :: "jsnum \<Rightarrow> jsnum \<Rightarrow> bool" where
  "num_eq x y \<longleftrightarrow> x \<noteq> NaN \<and> x = y"

definition num_le :: "jsnum \<Rightarrow> jsnum \<Rightarrow> bool" where
  "num_le x y \<longleftrightarrow> num_lt x y \<or> num_eq x y"

text \<open>\<^verbatim>\<open>NaN\<close> and \<open>0\<close> are the falsy numbers.\<close>

definition num_truthy :: "jsnum \<Rightarrow> bool" where
  "num_truthy x \<longleftrightarrow> x \<noteq> NaN \<and> x \<noteq> Fin 0"

subsection \<open>Integers below \<open>2 ^ 53\<close> are exact\<close>

lemma pow2_pos [simp]: "0 < pow2 e"
  by (simp add: pow2_def)

lemma half_even_of_int [simp]: "half_even (of_int i) = i"
  by (simp add: half_even_def)

lemma bit_count_upper: "0 \<le> n \<Longrightarrow> n < 2 ^ k \<Longrightarrow> bit_count n \<le> int k"
proof (induction k arbitrary: n)
  case 0
  then show ?case by (simp add: bit_count.simps [of n])
next
  case (Suc k)
  then have "n div 2 < 2 ^ k" "0 \<le> n div 2" by auto
  with Suc.IH [of "n div 2"] show ?case by (simp add: bit_count.simps [of n])
qed

lemma bit_count_1: "bit_count 1 = 1"
  by (simp add: bit_count.simps)

lemma ilog2_upper:
  assumes "0 < n" "n < 2 ^ k"
  shows "ilog2 (of_int n) < int k"
  using bit_count_upper [of n k] assms
  by (auto simp: ilog2_def quotient_of_int bit_count_1 Let_def)

lemma round_double_safe_pos:
  assumes "0 < n" "n < 2 ^ 53"
  shows "round_double (of_int n) = Fin (of_int n)"
proof -
  define e where "e = max (ilog2 (of_int n) - 52) (- 1074)"
  have up: "ilog2 (of_int n) < 53" using ilog2_upper [of n 53] assms by simp
  then have e: "e \<le> 0" by (simp add: e_def)
  have scaled: "of_int n / pow2 e = of_int (n * 2 ^ nat (- e))"
    using e by (cases "e = 0") (auto simp: pow2_def)
  have unscaled: "of_int (n * 2 ^ nat (- e)) * pow2 e = (of_int n :: rat)"
    using scaled pow2_pos [of e] by (metis less_numeral_extra(3) nonzero_eq_divide_eq)
  show ?thesis
    using assms up by (simp add: round_double_def Let_def e_def [symmetric] scaled unscaled
        del: of_int_mult of_int_power)
qed

lemma round_double_neg:
  "round_double (- q) =
     (case round_double q of PosInf \<Rightarrow> NegInf | NegInf \<Rightarrow> PosInf | Fin v \<Rightarrow> Fin (- v) | NaN \<Rightarrow> NaN)"
  by (auto simp: round_double_def Let_def)

lemma round_double_safe:
  assumes "\<bar>n\<bar> < 2 ^ 53"
  shows "round_double (of_int n) = Fin (of_int n)"
proof -
  consider "n = 0" | "0 < n" | "n < 0" by linarith
  then show ?thesis
  proof cases
    case 1
    then show ?thesis by (simp add: round_double_def)
  next
    case 2
    with assms show ?thesis by (simp add: round_double_safe_pos)
  next
    case 3
    then show ?thesis
      using assms round_double_safe_pos [of "- n"] round_double_neg [of "of_int (- n)"] by simp
  qed
qed

subsection \<open>Reading a number from a string\<close>

text \<open>
  The decimal literals of \<^verbatim>\<open>StringNumericLiteral\<close>: \<open>mant\<close> splits digits, an optional
  fraction and an optional exponent; \<open>None\<close> where the grammar does not match.
\<close>

definition exp_part :: "jsstring \<Rightarrow> int option" where
  "exp_part s =
     (case s of
        [] \<Rightarrow> Some 0
      | c # r \<Rightarrow>
          if c = 101 \<or> c = 69 then
            (let neg = (r \<noteq> [] \<and> hd r = 45);
                 u = (if r \<noteq> [] \<and> (hd r = 45 \<or> hd r = 43) then tl r else r)
             in if u \<noteq> [] \<and> list_all is_digit u
                then Some (if neg then - digits_val u else digits_val u)
                else None)
          else None)"

definition pow10 :: "int \<Rightarrow> rat" where
  "pow10 e = (if 0 \<le> e then 10 ^ nat e else 1 / 10 ^ nat (- e))"

definition unsigned_decimal :: "jsstring \<Rightarrow> rat option" where
  "unsigned_decimal s =
     (let ip = takeWhile is_digit s;
          r = dropWhile is_digit s;
          dot = (r \<noteq> [] \<and> hd r = 46);
          fp = (if dot then takeWhile is_digit (tl r) else []);
          r' = (if dot then dropWhile is_digit (tl r) else r)
      in if ip = [] \<and> fp = [] then None
         else map_option
                (\<lambda>e. of_int (digits_val (ip @ fp)) * pow10 (e - int (length fp)))
                (exp_part r'))"

definition radix_digit :: "int \<Rightarrow> int option" where
  "radix_digit c =
     (if is_digit c then Some (c - 48)
      else if 97 \<le> c \<and> c \<le> 102 then Some (c - 87)
      else if 65 \<le> c \<and> c \<le> 70 then Some (c - 55) else None)"

definition radix_val :: "int \<Rightarrow> jsstring \<Rightarrow> rat option" where
  "radix_val b s =
     (if s \<noteq> [] \<and> list_all (\<lambda>c. case radix_digit c of Some d \<Rightarrow> d < b | None \<Rightarrow> False) s
      then Some (of_int (foldl (\<lambda>a c. b * a + the (radix_digit c)) 0 s)) else None)"

definition str_to_num :: "jsstring \<Rightarrow> jsnum" where
  "str_to_num s =
     (let t = trim s;
          neg = (t \<noteq> [] \<and> hd t = 45);
          u = (if t \<noteq> [] \<and> (hd t = 45 \<or> hd t = 43) then tl t else t);
          tag = (if 2 \<le> length t \<and> hd t = 48 then t ! 1 else 0);
          exact = (\<lambda>r. case r of None \<Rightarrow> NaN | Some q \<Rightarrow> round_double q)
      in if t = [] then Fin 0
         else if tag = 120 \<or> tag = 88 then exact (radix_val 16 (drop 2 t))
         else if tag = 111 \<or> tag = 79 then exact (radix_val 8 (drop 2 t))
         else if tag = 98 \<or> tag = 66 then exact (radix_val 2 (drop 2 t))
         else if u = js ''Infinity'' then (if neg then NegInf else PosInf)
         else exact (map_option (\<lambda>q. if neg then - q else q) (unsigned_decimal u)))"

lemma unsigned_decimal_digits:
  assumes "s \<noteq> []" "\<forall>c\<in>set s. is_digit c"
  shows "unsigned_decimal s = Some (of_int (digits_val s))"
proof -
  have "takeWhile is_digit s = s" "dropWhile is_digit s = []"
    using assms(2) by (auto simp: takeWhile_eq_all_conv dropWhile_eq_Nil_conv)
  then show ?thesis
    using assms(1)
    by (simp add: unsigned_decimal_def Let_def exp_part_def pow10_def
        del: takeWhile_eq_all_conv dropWhile_eq_Nil_conv)
qed

lemma str_to_num_dec_str:
  assumes "0 \<le> n" "n < 2 ^ 53"
  shows "str_to_num (dec_str n) = Fin (of_int n)"
proof -
  have d: "\<forall>c\<in>set (dec_str n). is_digit c" using assms(1) by (rule dec_str_digits)
  then have hd: "is_digit (hd (dec_str n))" by (simp add: hd_in_set)
  have tag: "is_digit (dec_str n ! 1)" if "2 \<le> length (dec_str n)"
    using d that by simp
  have inf: "dec_str n \<noteq> js ''Infinity''"
    using d by (auto simp: js_def is_digit_def)
  have "round_double (of_int n) = Fin (of_int n)"
    using round_double_safe [of n] assms by simp
  then show ?thesis
    using hd tag inf assms(1) unsigned_decimal_digits [OF _ d]
    by (auto simp: str_to_num_def Let_def trim_id is_digit_def)
qed

subsection \<open>Printing a number\<close>

text \<open>
  \<^verbatim>\<open>Number::toString\<close> with radix 10. An integer below \<open>2 ^ 53\<close> prints as its decimal
  digits. Otherwise the shortest digit string that rounds back to the value is searched for,
  with at most 17 digits, and laid out as the standard says.
\<close>

definition ilog10 :: "rat \<Rightarrow> int" where
  "ilog10 q =
     (let (a, b) = quotient_of q;
          e = int (length (dec_str a)) - int (length (dec_str b))
      in if pow10 e \<le> q then e else e - 1)"

definition shortest_with :: "rat \<Rightarrow> int \<Rightarrow> int \<Rightarrow> int option" where
  "shortest_with v n k =
     (let u = pow10 (n - k); lo = \<lfloor>v / u\<rfloor>;
          ok = (\<lambda>d. round_double (of_int d * u) = Fin v)
      in if ok lo \<and> ok (lo + 1)
         then Some (let d = v / u - of_int lo
                    in if d < 1 / 2 then lo else if 1 / 2 < d then lo + 1
                       else if even lo then lo else lo + 1)
         else if ok lo then Some lo else if ok (lo + 1) then Some (lo + 1) else None)"

fun shortest_from :: "rat \<Rightarrow> int \<Rightarrow> int list \<Rightarrow> int \<times> int" where
  "shortest_from v n [] = (\<lfloor>v / pow10 (n - 17)\<rfloor>, 17)"
| "shortest_from v n (k # ks) =
     (case shortest_with v n k of Some d \<Rightarrow> (d, k) | None \<Rightarrow> shortest_from v n ks)"

definition layout_digits :: "jsstring \<Rightarrow> int \<Rightarrow> jsstring" where
  "layout_digits ds n =
     (let k = int (length ds) in
      if k \<le> n \<and> n \<le> 21 then ds @ replicate (nat (n - k)) 48
      else if 0 < n \<and> n \<le> 21 then take (nat n) ds @ [46] @ drop (nat n) ds
      else if - 6 < n \<and> n \<le> 0 then [48, 46] @ replicate (nat (- n)) 48 @ ds
      else let e = n - 1;
               ex = [101] @ (if e < 0 then [45] else [43]) @ dec_str \<bar>e\<bar>
           in if k = 1 then ds @ ex else [hd ds, 46] @ tl ds @ ex)"

definition pos_num_str :: "rat \<Rightarrow> jsstring" where
  "pos_num_str v =
     (let n = ilog10 v + 1;
          (d, k) = shortest_from v n [1..17]
      in if d = 10 ^ nat k then layout_digits [49] (n + 1) else layout_digits (dec_str d) n)"

definition num_to_str :: "jsnum \<Rightarrow> jsstring" where
  "num_to_str x =
     (case x of
        NaN \<Rightarrow> js ''NaN''
      | PosInf \<Rightarrow> js ''Infinity''
      | NegInf \<Rightarrow> js ''-Infinity''
      | Fin q \<Rightarrow>
          if of_int \<lfloor>q\<rfloor> = q \<and> \<bar>q\<bar> < 2 ^ 53 then int_str \<lfloor>q\<rfloor>
          else if q < 0 then 45 # pos_num_str (- q) else pos_num_str q)"

lemma num_to_str_safe: "\<bar>n\<bar> < 2 ^ 53 \<Longrightarrow> num_to_str (Fin (of_int n)) = int_str n"
proof -
  assume "\<bar>n\<bar> < 2 ^ 53"
  then have "\<bar>of_int n :: rat\<bar> < 2 ^ 53"
    by (metis of_int_abs of_int_less_iff of_int_numeral of_int_power)
  then show ?thesis by (simp add: num_to_str_def)
qed

subsection \<open>Addition\<close>

fun num_add :: "jsnum \<Rightarrow> jsnum \<Rightarrow> jsnum" where
  "num_add (Fin a) (Fin b) = round_double (a + b)"
| "num_add NaN _ = NaN"
| "num_add _ NaN = NaN"
| "num_add PosInf NegInf = NaN"
| "num_add NegInf PosInf = NaN"
| "num_add PosInf _ = PosInf"
| "num_add _ PosInf = PosInf"
| "num_add NegInf _ = NegInf"
| "num_add _ NegInf = NegInf"

lemma num_add_safe:
  "\<bar>a\<bar> < 2 ^ 53 \<Longrightarrow> \<bar>b\<bar> < 2 ^ 53 \<Longrightarrow> \<bar>a + b\<bar> < 2 ^ 53 \<Longrightarrow>
    num_add (Fin (of_int a)) (Fin (of_int b)) = Fin (of_int (a + b))"
  using round_double_safe [of "a + b"] by simp

subsection \<open>Subtraction, multiplication and division\<close>

text \<open>Without a negative zero a quotient by zero has the sign of the dividend.\<close>

fun num_neg :: "jsnum \<Rightarrow> jsnum" where
  "num_neg (Fin a) = Fin (- a)"
| "num_neg NaN = NaN"
| "num_neg PosInf = NegInf"
| "num_neg NegInf = PosInf"

definition num_sub :: "jsnum \<Rightarrow> jsnum \<Rightarrow> jsnum" where
  "num_sub x y = num_add x (num_neg y)"

definition inf_times :: "bool \<Rightarrow> rat \<Rightarrow> jsnum" where
  "inf_times positive q = (if q = 0 then NaN else if positive = (0 < q) then PosInf else NegInf)"

fun num_mul :: "jsnum \<Rightarrow> jsnum \<Rightarrow> jsnum" where
  "num_mul (Fin a) (Fin b) = round_double (a * b)"
| "num_mul NaN _ = NaN"
| "num_mul _ NaN = NaN"
| "num_mul (Fin a) PosInf = inf_times True a"
| "num_mul (Fin a) NegInf = inf_times False a"
| "num_mul PosInf (Fin b) = inf_times True b"
| "num_mul NegInf (Fin b) = inf_times False b"
| "num_mul PosInf PosInf = PosInf"
| "num_mul NegInf NegInf = PosInf"
| "num_mul PosInf NegInf = NegInf"
| "num_mul NegInf PosInf = NegInf"

fun num_div :: "jsnum \<Rightarrow> jsnum \<Rightarrow> jsnum" where
  "num_div (Fin a) (Fin b) =
     (if b = 0 then (if a = 0 then NaN else if 0 < a then PosInf else NegInf) else round_double (a / b))"
| "num_div NaN _ = NaN"
| "num_div _ NaN = NaN"
| "num_div (Fin a) _ = Fin 0"
| "num_div PosInf (Fin b) = (if b < 0 then NegInf else PosInf)"
| "num_div NegInf (Fin b) = (if b < 0 then PosInf else NegInf)"
| "num_div _ _ = NaN"

text \<open>\<^verbatim>\<open>Math.max\<close> of two numbers.\<close>

definition num_max :: "jsnum \<Rightarrow> jsnum \<Rightarrow> jsnum" where
  "num_max a b = (if a = NaN \<or> b = NaN then NaN else if num_lt a b then b else a)"

subsection \<open>Whole numbers\<close>

text \<open>Sums of whole numbers that stay below \<open>2 ^ 53\<close> are exact.\<close>

definition num_int :: "jsnum \<Rightarrow> int" where
  "num_int x = (case x of Fin q \<Rightarrow> \<lfloor>q\<rfloor> | _ \<Rightarrow> 0)"

definition whole :: "jsnum \<Rightarrow> bool" where
  "whole x \<longleftrightarrow> (case x of Fin q \<Rightarrow> of_int \<lfloor>q\<rfloor> = q \<and> 0 \<le> q | _ \<Rightarrow> False)"

lemma num_int_of_int [simp]: "num_int (Fin (of_int n)) = n"
  by (simp add: num_int_def)

lemma whole_of_int [simp]: "whole (Fin (of_int n)) \<longleftrightarrow> 0 \<le> n"
  by (simp add: whole_def)

lemma whole_eq: "whole x \<Longrightarrow> x = Fin (of_int (num_int x)) \<and> 0 \<le> num_int x"
  by (cases x) (auto simp: whole_def num_int_def)

definition num_sum :: "jsnum list \<Rightarrow> jsnum" where
  "num_sum xs = foldl num_add (Fin 0) xs"

lemma fold_whole:
  assumes "list_all whole xs" "0 \<le> s" "s + sum_list (map num_int xs) < 2 ^ 53"
  shows "foldl num_add (Fin (of_int s)) xs = Fin (of_int (s + sum_list (map num_int xs)))"
  using assms
proof (induction xs arbitrary: s)
  case (Cons x xs)
  obtain n where x: "x = Fin (of_int n)" "0 \<le> n" using Cons.prems(1) whole_eq [of x] by auto
  have rest: "0 \<le> sum_list (map num_int xs)"
    using Cons.prems(1) whole_eq by (intro sum_list_nonneg) (auto simp: list_all_iff)
  have "num_add (Fin (of_int s)) x = Fin (of_int (s + n))"
    unfolding x(1) by (rule num_add_safe) (use Cons.prems x rest in auto)
  then show ?case using Cons.IH [of "s + n"] Cons.prems x by (simp add: add.assoc)
qed simp

lemma num_sum_whole:
  "list_all whole xs \<Longrightarrow> sum_list (map num_int xs) < 2 ^ 53 \<Longrightarrow> num_sum xs = Fin (of_int (sum_list (map num_int xs)))"
  using fold_whole [of xs 0] by (simp add: num_sum_def)

subsection \<open>Fixed notation\<close>

text \<open>\<^verbatim>\<open>x.toFixed(f)\<close>: the nearest decimal with \<open>f\<close> digits, the larger one when two are equally near.\<close>

definition fixed_digits :: "nat \<Rightarrow> rat \<Rightarrow> jsstring" where
  "fixed_digits f q =
     (let s = dec_str \<lfloor>q * 10 ^ f + 1 / 2\<rfloor>;
          padded = replicate (f + 1 - length s) 48 @ s;
          cut = length padded - f
      in if f = 0 then s else take cut padded @ 46 # drop cut padded)"

definition num_to_fixed :: "nat \<Rightarrow> jsnum \<Rightarrow> jsstring" where
  "num_to_fixed f x =
     (case x of
        Fin q \<Rightarrow> if 10 ^ 21 \<le> \<bar>q\<bar> then num_to_str x
                 else if q < 0 then 45 # fixed_digits f (- q) else fixed_digits f q
      | _ \<Rightarrow> num_to_str x)"

end
