(* ===== verification/JS_Value.thy ===== *)
theory JS_Value
  imports JS_Number
begin

text \<open>
  JavaScript values as the frontend sees them after \<^verbatim>\<open>JSON.parse\<close>, and plain objects as
  property lists in the order the engine enumerates them.

  \<open>props_set\<close> follows \<^verbatim>\<open>OrdinaryOwnPropertyKeys\<close>: assigning an existing key keeps its
  place, a new array-index key goes before the string keys in ascending numeric order, any
  other new key goes last. Property reads are reads of own properties: the inherited members of
  \<^verbatim>\<open>Object.prototype\<close> are not modelled, so a key that names one of them reads as undefined.

  The locale \<open>property_store\<close> is the contract the components rely on when they treat an object
  as a map; it is interpreted on property lists with distinct keys.
\<close>

type_synonym 'v props = "(jsstring \<times> 'v) list"

datatype jsval =
    JUndef
  | JNull
  | JBool bool
  | JNum jsnum
  | JStr jsstring
  | JArr "jsval list"
  | JObj "(jsstring \<times> jsval) list"

subsection \<open>Property lists\<close>

text \<open>An array index: the canonical numeral of an integer below \<open>2 ^ 32 - 1\<close>.\<close>

definition is_index_key :: "jsstring \<Rightarrow> bool" where
  "is_index_key k \<longleftrightarrow>
     k \<noteq> [] \<and> list_all is_digit k \<and> (hd k \<noteq> 48 \<or> tl k = []) \<and> digits_val k < 4294967295"

definition props_get :: "'v props \<Rightarrow> jsstring \<Rightarrow> 'v option" where
  "props_get p = map_of p"

definition props_keys :: "'v props \<Rightarrow> jsstring list" where
  "props_keys p = map fst p"

fun props_replace :: "'v props \<Rightarrow> jsstring \<Rightarrow> 'v \<Rightarrow> 'v props" where
  "props_replace [] k v = []"
| "props_replace ((k', v') # p) k v =
     (if k' = k then (k, v) # p else (k', v') # props_replace p k v)"

fun insert_index :: "jsstring \<Rightarrow> 'v \<Rightarrow> 'v props \<Rightarrow> 'v props" where
  "insert_index k v [] = [(k, v)]"
| "insert_index k v ((k', v') # p) =
     (if is_index_key k' \<and> digits_val k' < digits_val k then (k', v') # insert_index k v p
      else (k, v) # (k', v') # p)"

definition props_set :: "'v props \<Rightarrow> jsstring \<Rightarrow> 'v \<Rightarrow> 'v props" where
  "props_set p k v =
     (if k \<in> set (props_keys p) then props_replace p k v
      else if is_index_key k then insert_index k v p
      else p @ [(k, v)])"

definition props_del :: "'v props \<Rightarrow> jsstring \<Rightarrow> 'v props" where
  "props_del p k = filter (\<lambda>kv. fst kv \<noteq> k) p"

text \<open>\<^verbatim>\<open>{...p, ...q}\<close>: the properties of \<open>q\<close> assigned one by one onto a copy of \<open>p\<close>.\<close>

definition props_assign :: "'v props \<Rightarrow> 'v props \<Rightarrow> 'v props" where
  "props_assign p q = foldl (\<lambda>acc kv. props_set acc (fst kv) (snd kv)) p q"

definition props_ok :: "'v props \<Rightarrow> bool" where
  "props_ok p \<longleftrightarrow> distinct (props_keys p)"

text \<open>The order in which an engine enumerates: index keys first, ascending.\<close>

fun props_ordered :: "'v props \<Rightarrow> bool" where
  "props_ordered [] = True"
| "props_ordered ((k, v) # p) =
     ((if is_index_key k
       then list_all (\<lambda>(k', _). is_index_key k' \<longrightarrow> digits_val k < digits_val k') p
       else list_all (\<lambda>(k', _). \<not> is_index_key k') p) \<and> props_ordered p)"

text \<open>What a client that uses an object as a map relies on.\<close>

locale property_store =
  fixes empty :: "'m"
    and get :: "'m \<Rightarrow> 'k \<Rightarrow> 'v option"
    and put :: "'m \<Rightarrow> 'k \<Rightarrow> 'v \<Rightarrow> 'm"
    and del :: "'m \<Rightarrow> 'k \<Rightarrow> 'm"
    and keys :: "'m \<Rightarrow> 'k list"
    and ok :: "'m \<Rightarrow> bool"
  assumes ok_empty: "ok empty"
    and get_empty: "get empty k = None"
    and ok_put: "ok p \<Longrightarrow> ok (put p k v)"
    and get_put: "ok p \<Longrightarrow> get (put p k v) = (get p)(k \<mapsto> v)"
    and ok_del: "ok p \<Longrightarrow> ok (del p k)"
    and get_del: "ok p \<Longrightarrow> get (del p k) = (get p)(k := None)"
    and keys_get: "ok p \<Longrightarrow> set (keys p) = dom (get p)"
begin

lemma ok_foldl_put: "ok p \<Longrightarrow> ok (foldl (\<lambda>acc kv. put acc (fst kv) (snd kv)) p q)"
  by (induction q arbitrary: p) (auto simp: ok_put)

lemma get_foldl_put:
  "ok p \<Longrightarrow> get (foldl (\<lambda>acc kv. put acc (fst kv) (snd kv)) p q) = get p ++ map_of (rev q)"
proof (induction q arbitrary: p)
  case (Cons kv q)
  then show ?case
    by (auto simp: ok_put get_put map_add_def fun_eq_iff split: option.splits)
qed simp

lemma ok_foldl_del: "ok p \<Longrightarrow> ok (foldl del p ks)"
  by (induction ks arbitrary: p) (auto simp: ok_del)

lemma get_foldl_del: "ok p \<Longrightarrow> get (foldl del p ks) k = (if k \<in> set ks then None else get p k)"
  by (induction ks arbitrary: p) (auto simp: ok_del get_del)

lemma keys_foldl_del: "ok p \<Longrightarrow> set (keys (foldl del p ks)) = set (keys p) - set ks"
  by (auto simp: keys_get ok_foldl_del get_foldl_del dom_def split: if_splits)

lemma keys_empty_iff: "ok p \<Longrightarrow> keys p = [] \<longleftrightarrow> get p = Map.empty"
  by (metis dom_eq_empty_conv keys_get set_empty)

end

text \<open>A canonical numeral is determined by its value.\<close>

lemma digits_val_lower: "\<forall>c\<in>set s. is_digit c \<Longrightarrow> s \<noteq> [] \<Longrightarrow> hd s \<noteq> 48 \<Longrightarrow> 10 ^ (length s - 1) \<le> digits_val s"
proof (induction s rule: rev_induct)
  case (snoc c s)
  show ?case
  proof (cases "s = []")
    case True
    with snoc.prems show ?thesis by (auto simp: digits_val_def is_digit_def)
  next
    case False
    with snoc have "10 ^ (length s - 1) \<le> digits_val s" by simp
    moreover have "(10::int) ^ length s = 10 * 10 ^ (length s - 1)"
      using False by (cases s) auto
    ultimately show ?thesis using snoc.prems by (simp add: digits_val_snoc is_digit_def)
  qed
qed simp

lemma dec_str_digits_val:
  "\<forall>c\<in>set s. is_digit c \<Longrightarrow> s \<noteq> [] \<Longrightarrow> hd s \<noteq> 48 \<or> tl s = [] \<Longrightarrow> dec_str (digits_val s) = s"
proof (induction s rule: rev_induct)
  case (snoc c s)
  have c: "48 \<le> c" "c \<le> 57" using snoc.prems(1) by (auto simp: is_digit_def)
  show ?case
  proof (cases "s = []")
    case True
    then show ?thesis using c by (simp add: digits_val_def dec_str.simps [of "c - 48"])
  next
    case False
    with snoc.prems have hd: "hd s \<noteq> 48" by (cases s) auto
    with False snoc have ih: "dec_str (digits_val s) = s" by (cases s) auto
    have "1 \<le> digits_val s"
      using digits_val_lower [of s] snoc.prems(1) False hd one_le_power [of "10::int" "length s - 1"]
      by (auto simp del: one_le_power)
    then show ?thesis
      using ih c dec_str.simps [of "10 * digits_val s + (c - 48)"] by (simp add: digits_val_snoc)
  qed
qed simp

lemma digits_val_canonical:
  assumes "list_all is_digit s" "s \<noteq> []" "hd s \<noteq> 48 \<or> tl s = []"
    and "list_all is_digit t" "t \<noteq> []" "hd t \<noteq> 48 \<or> tl t = []" "digits_val s = digits_val t"
  shows "s = t"
proof -
  have "\<forall>c\<in>set s. is_digit c" "\<forall>c\<in>set t. is_digit c"
    using assms(1,4) by (auto simp: list_all_iff)
  then show ?thesis
    using dec_str_digits_val [of s] dec_str_digits_val [of t] assms by metis
qed

lemma keys_replace: "map fst (props_replace p k v) = map fst p"
  by (induction p) auto

lemma map_of_replace: "k \<in> set (map fst p) \<Longrightarrow> map_of (props_replace p k v) = (map_of p)(k \<mapsto> v)"
proof (induction p)
  case (Cons kv p)
  then show ?case by (cases kv) (force simp: fun_eq_iff)
qed simp

lemma set_insert_index: "set (insert_index k v p) = insert (k, v) (set p)"
  by (induction p) (auto split: if_splits)

lemma distinct_insert_index:
  "k \<notin> set (map fst p) \<Longrightarrow> distinct (map fst p) \<Longrightarrow> distinct (map fst (insert_index k v p))"
  by (induction p) (auto simp: set_insert_index)

lemma map_of_insert_index:
  "k \<notin> set (map fst p) \<Longrightarrow> map_of (insert_index k v p) = (map_of p)(k \<mapsto> v)"
  by (induction p) auto

lemma map_of_snoc_new: "k \<notin> set (map fst p) \<Longrightarrow> map_of (p @ [(k, v)]) = (map_of p)(k \<mapsto> v)"
  by (induction p) auto

lemma map_of_filter_neq: "map_of (filter (\<lambda>kv. fst kv \<noteq> k) p) = (map_of p)(k := None)"
  by (induction p) auto

interpretation ps: property_store "[]" props_get props_set props_del props_keys props_ok
proof
  fix p :: "'v props" and k :: jsstring and v :: 'v
  show "props_ok ([] :: 'v props)" by (simp add: props_ok_def props_keys_def)
  show "props_get ([] :: 'v props) k = None" by (simp add: props_get_def)
  show "props_ok (props_set p k v)" if "props_ok p"
    using that distinct_insert_index [of k p v]
    by (auto simp: props_ok_def props_set_def props_keys_def keys_replace)
  show "props_get (props_set p k v) = (props_get p)(k \<mapsto> v)" if "props_ok p"
    using map_of_replace [of k p v] map_of_insert_index [of k p v] map_of_snoc_new [of k p v]
    by (simp add: props_set_def props_keys_def props_get_def)
  show "props_ok (props_del p k)" if "props_ok p"
    using that by (auto simp: props_ok_def props_keys_def props_del_def distinct_map_filter)
  show "props_get (props_del p k) = (props_get p)(k := None)" if "props_ok p"
    by (simp add: props_get_def props_del_def map_of_filter_neq)
  show "set (props_keys p) = dom (props_get p)" if "props_ok p"
    by (simp add: props_keys_def props_get_def dom_map_of_conv_image_fst)
qed

lemma props_ok_Nil [simp, js_wf]: "props_ok []"
  by (rule ps.ok_empty)

declare ps.ok_put [js_wf] ps.ok_del [js_wf]

lemma props_assign_ok [js_wf]: "props_ok p \<Longrightarrow> props_ok (props_assign p q)"
  unfolding props_assign_def by (rule ps.ok_foldl_put)

lemma props_get_assign_Nil: "props_get (props_assign [] q) = map_of (rev q)"
  using ps.get_foldl_put [of "[]" q] by (simp add: props_assign_def ps.get_empty [abs_def])

lemma map_of_rev_distinct: "distinct (map fst q) \<Longrightarrow> map_of (rev q) = map_of q"
  by (metis distinct_rev map_of_inject_set rev_map set_rev)

lemma props_get_assign:
  "props_ok p \<Longrightarrow> props_ok q \<Longrightarrow> props_get (props_assign p q) = props_get p ++ props_get q"
  using ps.get_foldl_put [of p q] map_of_rev_distinct [of q]
  by (simp add: props_assign_def props_ok_def props_keys_def props_get_def)

text \<open>Rebuilding an ordered property list key by key gives it back.\<close>

lemma insert_index_last:
  "list_all (\<lambda>(k', _). is_index_key k' \<and> digits_val k' < digits_val k) p \<Longrightarrow>
   insert_index k v p = p @ [(k, v)]"
  by (induction p) auto

lemma props_set_new_last:
  assumes "k \<notin> set (props_keys p)"
    and "is_index_key k \<Longrightarrow> list_all (\<lambda>(k', _). is_index_key k' \<and> digits_val k' < digits_val k) p"
  shows "props_set p k v = p @ [(k, v)]"
  using assms insert_index_last [of k p v] by (auto simp: props_set_def)

lemma props_rebuild_aux:
  "props_ok (p @ q) \<Longrightarrow> props_ordered (p @ q) \<Longrightarrow>
   foldl (\<lambda>acc kv. props_set acc (fst kv) (snd kv)) p q = p @ q"
proof (induction q arbitrary: p)
  case (Cons kv q)
  obtain k v where kv: "kv = (k, v)" by (cases kv)
  have "list_all (\<lambda>(k', _). is_index_key k' \<and> digits_val k' < digits_val k) p" if "is_index_key k"
    using Cons.prems(2) that unfolding kv
    by (induction p) (auto split: if_splits)
  moreover have "k \<notin> set (props_keys p)"
    using Cons.prems(1) by (auto simp: kv props_ok_def props_keys_def)
  ultimately have "props_set p k v = p @ [(k, v)]" by (simp add: props_set_new_last)
  moreover have "foldl (\<lambda>acc kv. props_set acc (fst kv) (snd kv)) (p @ [(k, v)]) q =
      (p @ [(k, v)]) @ q"
    using Cons.prems by (intro Cons.IH) (simp_all add: kv)
  ultimately show ?case by (simp add: kv)
qed simp

lemma props_rebuild: "props_ok q \<Longrightarrow> props_ordered q \<Longrightarrow> props_assign [] q = q"
  using props_rebuild_aux [of "[]" q] by (simp add: props_assign_def)

text \<open>Assignment keeps the enumeration order, and only adds the value it is given.\<close>

lemma props_ordered_keys:
  "map fst p = map fst q \<Longrightarrow> props_ordered p = props_ordered q"
proof (induction p arbitrary: q)
  case (Cons kv p)
  obtain k v where kv: "kv = (k, v)" by (cases kv)
  from Cons.prems obtain w q' where q: "q = (k, w) # q'" "map fst p = map fst q'"
    by (cases q) (auto simp: kv)
  have "list_all (\<lambda>(k', _). P k') p = list_all P (map fst p)"
    "list_all (\<lambda>(k', _). P k') q' = list_all P (map fst q')" for P
    by (auto simp: list_all_iff)
  then show ?case using Cons.IH [OF q(2)] q by (simp add: kv)
qed simp

lemma insert_index_ordered:
  "props_ordered p \<Longrightarrow> k \<notin> set (map fst p) \<Longrightarrow> is_index_key k \<Longrightarrow> props_ordered (insert_index k v p)"
proof (induction p)
  case (Cons kv p)
  obtain k' v' where kv: "kv = (k', v')" by (cases kv)
  have neq: "digits_val k \<noteq> digits_val k'" if "is_index_key k'"
    using that Cons.prems(2,3) digits_val_canonical [of k k'] by (auto simp: is_index_key_def kv)
  have "list_all (\<lambda>(k', _). is_index_key k' \<longrightarrow> digits_val k < digits_val k') p"
    if "is_index_key k'" "digits_val k < digits_val k'"
    using Cons.prems(1) that by (auto simp: kv list_all_iff)
  moreover have "list_all (\<lambda>(k', _). is_index_key k' \<longrightarrow> digits_val k < digits_val k') p"
    if "\<not> is_index_key k'"
    using Cons.prems(1) that by (auto simp: kv list_all_iff)
  ultimately show ?case
    using Cons neq by (auto simp: kv list_all_iff set_insert_index)
qed simp

lemma props_set_ordered:
  assumes "props_ordered p"
  shows "props_ordered (props_set p k v)"
proof -
  have "props_ordered (p @ [(k, v)])" if "\<not> is_index_key k"
    using assms that by (induction p rule: props_ordered.induct) auto
  then show ?thesis
    using assms insert_index_ordered [of p k v] props_ordered_keys [OF keys_replace [of p k v]]
    by (auto simp: props_set_def props_keys_def)
qed

lemma props_assign_ordered: "props_ordered p \<Longrightarrow> props_ordered (props_assign p q)"
  unfolding props_assign_def by (induction q arbitrary: p) (auto simp: props_set_ordered)

lemma set_replace: "set (props_replace p k v) \<subseteq> insert (k, v) (set p)"
  by (induction p) (auto split: if_splits)

lemma set_props_set: "set (props_set p k v) \<subseteq> insert (k, v) (set p)"
  using set_replace [of p k v] by (auto simp: props_set_def set_insert_index)

lemma set_props_assign: "set (props_assign p q) \<subseteq> set p \<union> set q"
  unfolding props_assign_def
proof (induction q arbitrary: p)
  case (Cons kv q)
  then show ?case using set_props_set [of p "fst kv" "snd kv"] by fastforce
qed simp

subsection \<open>Truthiness, types and string conversion\<close>

fun truthy :: "jsval \<Rightarrow> bool" where
  "truthy JUndef = False"
| "truthy JNull = False"
| "truthy (JBool b) = b"
| "truthy (JNum x) = num_truthy x"
| "truthy (JStr s) = (s \<noteq> [])"
| "truthy (JArr xs) = True"
| "truthy (JObj ps) = True"

text \<open>\<^verbatim>\<open>v && typeof v === 'object' && !Array.isArray(v)\<close>, the guard the source writes after
  every \<^verbatim>\<open>JSON.parse\<close>.\<close>

fun as_plain_object :: "jsval \<Rightarrow> jsval props option" where
  "as_plain_object (JObj ps) = Some ps"
| "as_plain_object _ = None"

text \<open>The own enumerable properties that \<^verbatim>\<open>{...v}\<close> copies: arrays and strings contribute their
  elements and code units under index keys, the other primitives nothing.\<close>

fun own_props :: "jsval \<Rightarrow> jsval props" where
  "own_props (JObj ps) = ps"
| "own_props (JArr xs) = zip (map (\<lambda>i. dec_str (int i)) [0..<length xs]) xs"
| "own_props (JStr s) = zip (map (\<lambda>i. dec_str (int i)) [0..<length s]) (map (\<lambda>c. JStr [c]) s)"
| "own_props _ = []"

text \<open>\<^verbatim>\<open>v[k]\<close> on a value that is neither null nor undefined; only objects have named properties
  here.\<close>

definition prop_of :: "jsval \<Rightarrow> jsstring \<Rightarrow> jsval" where
  "prop_of v k =
     (case v of JObj ps \<Rightarrow> (case props_get ps k of Some w \<Rightarrow> w | None \<Rightarrow> JUndef) | _ \<Rightarrow> JUndef)"

lemma props_set_same: "props_get p k = Some v \<Longrightarrow> props_set p k v = p"
proof -
  assume a: "props_get p k = Some v"
  then have "props_replace p k v = p"
    by (induction p) (auto simp: props_get_def split: if_splits)
  moreover have "k \<in> set (props_keys p)"
    using a by (force simp: props_get_def props_keys_def dest: map_of_SomeD)
  ultimately show ?thesis by (simp add: props_set_def)
qed

lemma props_get_set [simp]: "props_get (props_set p k v) = (props_get p)(k \<mapsto> v)"
  using map_of_replace [of k p v] map_of_insert_index [of k p v] map_of_snoc_new [of k p v]
  by (simp add: props_set_def props_keys_def props_get_def)

text \<open>Reading a property of an object, undefined when it is absent.\<close>

definition val_at :: "jsval props \<Rightarrow> jsstring \<Rightarrow> jsval" where
  "val_at p k = (case props_get p k of Some w \<Rightarrow> w | None \<Rightarrow> JUndef)"

lemma prop_of_JObj: "prop_of (JObj p) k = val_at p k"
  by (simp add: prop_of_def val_at_def)

lemma val_at_set [simp]: "val_at (props_set p k v) k' = (if k' = k then v else val_at p k')"
  by (simp add: val_at_def)

fun to_str :: "jsval \<Rightarrow> jsstring" where
  "to_str JUndef = js ''undefined''"
| "to_str JNull = js ''null''"
| "to_str (JBool b) = (if b then js ''true'' else js ''false'')"
| "to_str (JNum x) = num_to_str x"
| "to_str (JStr s) = s"
| "to_str (JArr xs) =
     join [44] (map (\<lambda>x. if x = JUndef \<or> x = JNull then [] else to_str x) xs)"
| "to_str (JObj ps) = js ''[object Object]''"

text \<open>A value that \<^verbatim>\<open>JSON.parse\<close> made holds no function. An object with an own property \<^verbatim>\<open>toString\<close>
  has no way to become a text, so \<^verbatim>\<open>String(v)\<close> and \<^verbatim>\<open>Number(v)\<close> throw a \<^verbatim>\<open>TypeError\<close> on it and on an
  array that holds it; \<open>to_str\<close> and \<open>to_number\<close> are their results on the other values.\<close>

fun str_throws :: "jsval \<Rightarrow> bool" where
  "str_throws (JObj ps) = (props_get ps (js ''toString'') \<noteq> None)"
| "str_throws (JArr xs) = list_ex str_throws xs"
| "str_throws _ = False"

text \<open>\<^verbatim>\<open>v || d\<close> on values, \<^verbatim>\<open>v ?? ''\<close>, and \<^verbatim>\<open>Number(v)\<close>.\<close>

definition val_or :: "jsval \<Rightarrow> jsval \<Rightarrow> jsval" where
  "val_or v d = (if truthy v then v else d)"

definition or_empty_str :: "jsval \<Rightarrow> jsval" where
  "or_empty_str v = (if v = JUndef \<or> v = JNull then JStr [] else v)"

fun to_number :: "jsval \<Rightarrow> jsnum" where
  "to_number JUndef = NaN"
| "to_number JNull = Fin 0"
| "to_number (JBool b) = (if b then Fin 1 else Fin 0)"
| "to_number (JNum x) = x"
| "to_number (JStr s) = str_to_num s"
| "to_number v = str_to_num (to_str v)"

lemma props_get_del: "props_get (props_del p k) = (props_get p)(k := None)"
  by (simp add: props_del_def props_get_def map_of_filter_neq)

subsection \<open>Browser storage\<close>

text \<open>\<^verbatim>\<open>localStorage\<close> is a map from keys to strings; \<^verbatim>\<open>setItem\<close> throws when the browser's quota is
  exceeded, which the predicate \<open>fits\<close> on the resulting storage decides.\<close>

type_synonym storage = "jsstring \<rightharpoonup> jsstring"

definition setItem :: "(storage \<Rightarrow> bool) \<Rightarrow> jsstring \<Rightarrow> jsstring \<Rightarrow> storage \<Rightarrow> storage option" where
  "setItem fits k v st = (if fits (st(k \<mapsto> v)) then Some (st(k \<mapsto> v)) else None)"

text \<open>\<^verbatim>\<open>try { localStorage.setItem(...) } catch { console.error(...) }\<close>.\<close>

definition try_set :: "(storage \<Rightarrow> bool) \<Rightarrow> jsstring \<Rightarrow> jsstring \<Rightarrow> storage \<Rightarrow> storage" where
  "try_set fits k v st = (case setItem fits k v st of Some st' \<Rightarrow> st' | None \<Rightarrow> st)"

end
