(* ===== verification/JS_Json.thy ===== *)
theory JS_Json
  imports JS_Value
begin

text \<open>
  \<^verbatim>\<open>JSON.parse\<close> and \<^verbatim>\<open>JSON.stringify\<close>.

  \<open>json_parse\<close> is a recursive-descent reader of the JSON grammar; \<open>None\<close> is the thrown
  \<^verbatim>\<open>SyntaxError\<close>. The three mutually recursive readers spend one unit of fuel per call, and
  \<open>json_parse\<close> starts them with \<open>2 * length s + 2\<close> units, which
  \<open>parse_val_fuel\<close> shows to be enough: with any larger amount the result is the same.
  \<open>json_stringify\<close> prints without white space. \<open>json_round_trip\<close> states that reading back a
  printed value returns it, for the values that JSON can carry (\<open>json_ok\<close>).
\<close>

subsection \<open>Reading\<close>

definition is_json_ws :: "int \<Rightarrow> bool" where
  "is_json_ws c \<longleftrightarrow> c = 32 \<or> c = 9 \<or> c = 10 \<or> c = 13"

definition skip_ws :: "jsstring \<Rightarrow> jsstring" where
  "skip_ws s = dropWhile is_json_ws s"

definition hex4 :: "int \<Rightarrow> int \<Rightarrow> int \<Rightarrow> int \<Rightarrow> int option" where
  "hex4 a b c d =
     (case (radix_digit a, radix_digit b, radix_digit c, radix_digit d) of
        (Some a', Some b', Some c', Some d') \<Rightarrow> Some (((a' * 16 + b') * 16 + c') * 16 + d')
      | _ \<Rightarrow> None)"

definition simple_escape :: "int \<Rightarrow> int option" where
  "simple_escape c =
     (if c = 34 \<or> c = 92 \<or> c = 47 then Some c
      else if c = 98 then Some 8 else if c = 102 then Some 12 else if c = 110 then Some 10
      else if c = 114 then Some 13 else if c = 116 then Some 9 else None)"

text \<open>The characters of a string after its opening quote, and what follows its closing quote.\<close>

function parse_chars :: "jsstring \<Rightarrow> (jsstring \<times> jsstring) option" where
  "parse_chars s =
     (case s of
        [] \<Rightarrow> None
      | c # r \<Rightarrow>
          if c = 34 then Some ([], r)
          else if c < 32 then None
          else if c = 92 then
            (case r of
               [] \<Rightarrow> None
             | e # r' \<Rightarrow>
                 if e = 117 then
                   (case r' of
                      h1 # h2 # h3 # h4 # r'' \<Rightarrow>
                        (case hex4 h1 h2 h3 h4 of
                           None \<Rightarrow> None
                         | Some u \<Rightarrow> map_option (\<lambda>(t, q). (u # t, q)) (parse_chars r''))
                    | _ \<Rightarrow> None)
                 else
                   (case simple_escape e of
                      None \<Rightarrow> None
                    | Some u \<Rightarrow> map_option (\<lambda>(t, q). (u # t, q)) (parse_chars r')))
          else map_option (\<lambda>(t, q). (c # t, q)) (parse_chars r))"
  by pat_completeness auto
termination
  by (relation "measure length") auto

declare parse_chars.simps [simp del]

text \<open>The integer part, the optional fraction and the optional exponent of a number, each with
  what follows it.\<close>

definition number_int :: "jsstring \<Rightarrow> (jsstring \<times> jsstring) option" where
  "number_int s =
     (case s of
        [] \<Rightarrow> None
      | c # r \<Rightarrow>
          if c = 48 then Some ([48], r)
          else if is_digit c then Some (takeWhile is_digit s, dropWhile is_digit s)
          else None)"

definition number_frac :: "jsstring \<Rightarrow> (jsstring \<times> jsstring) option" where
  "number_frac s =
     (case s of
        [] \<Rightarrow> Some ([], [])
      | c # r \<Rightarrow>
          if c \<noteq> 46 then Some ([], s)
          else if r \<noteq> [] \<and> is_digit (hd r) then Some (takeWhile is_digit r, dropWhile is_digit r)
          else None)"

definition number_exp :: "jsstring \<Rightarrow> (int \<times> jsstring) option" where
  "number_exp s =
     (case s of
        [] \<Rightarrow> Some (0, [])
      | c # r \<Rightarrow>
          if c \<noteq> 101 \<and> c \<noteq> 69 then Some (0, s)
          else
            let neg = (r \<noteq> [] \<and> hd r = 45);
                u = (if r \<noteq> [] \<and> (hd r = 45 \<or> hd r = 43) then tl r else r);
                e = digits_val (takeWhile is_digit u)
            in if u \<noteq> [] \<and> is_digit (hd u)
               then Some (if neg then - e else e, dropWhile is_digit u) else None)"

definition parse_number :: "jsstring \<Rightarrow> (jsval \<times> jsstring) option" where
  "parse_number s =
     (let neg = (s \<noteq> [] \<and> hd s = 45)
      in case number_int (if neg then tl s else s) of
           None \<Rightarrow> None
         | Some (ip, r) \<Rightarrow>
             (case number_frac r of
                None \<Rightarrow> None
              | Some (fp, r') \<Rightarrow>
                  (case number_exp r' of
                     None \<Rightarrow> None
                   | Some (e, r'') \<Rightarrow>
                       let q = of_int (digits_val (ip @ fp)) * pow10 (e - int (length fp))
                       in Some (JNum (round_double (if neg then - q else q)), r''))))"

definition parse_keyword :: "jsstring \<Rightarrow> (jsval \<times> jsstring) option" where
  "parse_keyword s =
     (if prefix (js ''true'') s then Some (JBool True, drop 4 s)
      else if prefix (js ''false'') s then Some (JBool False, drop 5 s)
      else if prefix (js ''null'') s then Some (JNull, drop 4 s)
      else None)"

fun parse_val :: "nat \<Rightarrow> jsstring \<Rightarrow> (jsval \<times> jsstring) option"
  and parse_elems :: "nat \<Rightarrow> jsstring \<Rightarrow> (jsval list \<times> jsstring) option"
  and parse_members :: "nat \<Rightarrow> jsstring \<Rightarrow> (jsval props \<times> jsstring) option" where
  "parse_val 0 s = None"
| "parse_val (Suc n) s =
     (case skip_ws s of
        [] \<Rightarrow> None
      | c # r \<Rightarrow>
          if c = 123 then
            (case skip_ws r of
               [] \<Rightarrow> None
             | d # r' \<Rightarrow>
                 if d = 125 then Some (JObj [], r')
                 else map_option (\<lambda>(ps, q). (JObj (props_assign [] ps), q)) (parse_members n (d # r')))
          else if c = 91 then
            (case skip_ws r of
               [] \<Rightarrow> None
             | d # r' \<Rightarrow>
                 if d = 93 then Some (JArr [], r')
                 else map_option (\<lambda>(xs, q). (JArr xs, q)) (parse_elems n (d # r')))
          else if c = 34 then map_option (\<lambda>(t, q). (JStr t, q)) (parse_chars r)
          else if c = 45 \<or> is_digit c then parse_number (c # r)
          else parse_keyword (c # r))"
| "parse_elems 0 s = None"
| "parse_elems (Suc n) s =
     (case parse_val n s of
        None \<Rightarrow> None
      | Some (v, r) \<Rightarrow>
          (case skip_ws r of
             [] \<Rightarrow> None
           | c # r' \<Rightarrow>
               if c = 93 then Some ([v], r')
               else if c = 44 then map_option (\<lambda>(vs, q). (v # vs, q)) (parse_elems n r')
               else None))"
| "parse_members 0 s = None"
| "parse_members (Suc n) s =
     (case skip_ws s of
        [] \<Rightarrow> None
      | c # r \<Rightarrow>
          if c \<noteq> 34 then None
          else
            (case parse_chars r of
               None \<Rightarrow> None
             | Some (k, r1) \<Rightarrow>
                 (case skip_ws r1 of
                    [] \<Rightarrow> None
                  | d # r2 \<Rightarrow>
                      if d \<noteq> 58 then None
                      else
                        (case parse_val n r2 of
                           None \<Rightarrow> None
                         | Some (v, r3) \<Rightarrow>
                             (case skip_ws r3 of
                                [] \<Rightarrow> None
                              | e # r4 \<Rightarrow>
                                  if e = 125 then Some ([(k, v)], r4)
                                  else if e = 44
                                  then map_option (\<lambda>(ps, q). ((k, v) # ps, q)) (parse_members n r4)
                                  else None)))))"

definition json_parse :: "jsstring \<Rightarrow> jsval option" where
  "json_parse s =
     (case parse_val (2 * length s + 2) s of
        None \<Rightarrow> None
      | Some (v, r) \<Rightarrow> if skip_ws r = [] then Some v else None)"

subsection \<open>Printing\<close>

definition hex_unit :: "int \<Rightarrow> int" where
  "hex_unit d = (if d < 10 then 48 + d else 87 + d)"

definition u_escape :: "int \<Rightarrow> jsstring" where
  "u_escape c = [92, 117, hex_unit (c div 4096), hex_unit (c div 256 mod 16),
                 hex_unit (c div 16 mod 16), hex_unit (c mod 16)]"

definition quote_unit :: "int \<Rightarrow> jsstring" where
  "quote_unit c =
     (if c = 34 \<or> c = 92 then [92, c]
      else if c = 8 then [92, 98] else if c = 12 then [92, 102] else if c = 10 then [92, 110]
      else if c = 13 then [92, 114] else if c = 9 then [92, 116]
      else if c < 32 then u_escape c else [c])"

definition high_surrogate :: "int \<Rightarrow> bool" where
  "high_surrogate c \<longleftrightarrow> 55296 \<le> c \<and> c \<le> 56319"

definition low_surrogate :: "int \<Rightarrow> bool" where
  "low_surrogate c \<longleftrightarrow> 56320 \<le> c \<and> c \<le> 57343"

text \<open>A surrogate pair is printed as it is, a lone surrogate is escaped.\<close>

fun quote_units :: "jsstring \<Rightarrow> jsstring" where
  "quote_units [] = []"
| "quote_units [c] = (if high_surrogate c \<or> low_surrogate c then u_escape c else quote_unit c)"
| "quote_units (c # d # s) =
     (if high_surrogate c \<and> low_surrogate d then c # d # quote_units s
      else (if high_surrogate c \<or> low_surrogate c then u_escape c else quote_unit c)
           @ quote_units (d # s))"

definition json_quote :: "jsstring \<Rightarrow> jsstring" where
  "json_quote s = [34] @ quote_units s @ [34]"

text \<open>The text of a value; \<open>None\<close> is the \<^verbatim>\<open>undefined\<close> that \<^verbatim>\<open>JSON.stringify(undefined)\<close> returns.
  In an array it prints as \<^verbatim>\<open>null\<close>, in an object its property is left out.\<close>

lemma size_prop_value [termination_simp]:
  "kv \<in> set ps \<Longrightarrow> size (snd kv) < Suc (size_list (\<lambda>x. Suc (size (snd x))) ps)"
  by (induction ps) auto

fun json_text :: "jsval \<Rightarrow> jsstring option" where
  "json_text JUndef = None"
| "json_text JNull = Some (js ''null'')"
| "json_text (JBool b) = Some (if b then js ''true'' else js ''false'')"
| "json_text (JNum x) = Some (case x of Fin q \<Rightarrow> num_to_str x | _ \<Rightarrow> js ''null'')"
| "json_text (JStr s) = Some (json_quote s)"
| "json_text (JArr xs) =
     Some ([91] @ join [44] (map (\<lambda>x. case json_text x of Some t \<Rightarrow> t | None \<Rightarrow> js ''null'') xs) @ [93])"
| "json_text (JObj ps) =
     Some ([123]
       @ join [44] (concat (map (\<lambda>kv. case json_text (snd kv) of
             Some t \<Rightarrow> [json_quote (fst kv) @ [58] @ t] | None \<Rightarrow> []) ps))
       @ [125])"

definition json_stringify :: "jsval \<Rightarrow> jsstring" where
  "json_stringify v = (case json_text v of Some t \<Rightarrow> t | None \<Rightarrow> js ''undefined'')"

subsection \<open>The readers consume input, and the fuel is enough\<close>

lemma length_skip_ws: "length (skip_ws s) \<le> length s"
  by (simp add: skip_ws_def length_dropWhile_le)

lemma skip_ws_Cons_length: "skip_ws s = c # r \<Longrightarrow> Suc (length r) \<le> length s"
  using length_skip_ws [of s] by simp

lemma parse_chars_step:
  "parse_chars s = Some (t, r) \<Longrightarrow>
   Suc (length r) = length s \<or> (\<exists>s' t'. parse_chars s' = Some (t', r) \<and> length s' < length s)"
  by (subst (asm) parse_chars.simps) (auto split: if_splits list.splits option.splits)

lemma parse_chars_length: "parse_chars s = Some (t, r) \<Longrightarrow> length r < length s"
proof (induction "length s" arbitrary: s t rule: less_induct)
  case less
  then show ?case using parse_chars_step [OF less.prems] by fastforce
qed

lemma number_int_length: "number_int s = Some (d, r) \<Longrightarrow> length r < length s"
  using length_dropWhile_le [of is_digit "tl s"]
  by (auto simp: number_int_def less_Suc_eq_le split: list.splits if_splits)

lemma number_frac_length: "number_frac s = Some (d, r) \<Longrightarrow> length r \<le> length s"
  using length_dropWhile_le [of is_digit "tl s"]
  by (auto simp: number_frac_def split: list.splits if_splits)

lemma number_exp_length: "number_exp s = Some (e, r) \<Longrightarrow> length r \<le> length s"
  using length_dropWhile_le [of is_digit "tl s"] length_dropWhile_le [of is_digit "tl (tl s)"]
  by (auto simp: number_exp_def Let_def split: list.splits if_splits)

lemma parse_number_length: "parse_number s = Some (v, r) \<Longrightarrow> length r < length s"
  by (cases s)
     (fastforce simp: parse_number_def Let_def split: option.splits if_splits
       dest!: number_int_length number_frac_length number_exp_length)+

lemma parse_keyword_length: "parse_keyword s = Some (v, r) \<Longrightarrow> length r < length s"
  by (auto simp: parse_keyword_def js_def prefix_def split: if_splits)

lemma parse_lengths:
  "parse_val n s = Some (v, r) \<Longrightarrow> length r < length s"
  "parse_elems n s = Some (vs, r) \<Longrightarrow> length r < length s"
  "parse_members n s = Some (ps, r) \<Longrightarrow> length r < length s"
proof (induction n s and n s and n s arbitrary: v r and vs r and ps r
    rule: parse_val_parse_elems_parse_members.induct)
  case (2 n s)
  then show ?case
    by (auto split: list.splits if_splits
        dest!: skip_ws_Cons_length parse_chars_length parse_number_length parse_keyword_length)
       fastforce+
next
  case (4 n s)
  then show ?case
    by (auto split: list.splits if_splits option.splits dest!: skip_ws_Cons_length) fastforce+
next
  case (6 n s)
  then show ?case
    by (auto split: list.splits if_splits option.splits
        dest!: skip_ws_Cons_length parse_chars_length) fastforce+
qed auto

lemma parse_fuel_step:
  "(2 * length s + 1 \<le> n \<longrightarrow> parse_val (Suc n) s = parse_val n s) \<and>
   (2 * length s + 2 \<le> n \<longrightarrow> parse_elems (Suc n) s = parse_elems n s) \<and>
   (2 * length s + 2 \<le> n \<longrightarrow> parse_members (Suc n) s = parse_members n s)"
proof (induction n arbitrary: s)
  case (Suc n)
  have val: "parse_val (Suc n) t = parse_val n t" if "2 * length t + 1 \<le> n" for t
    using Suc.IH that by blast
  have elems: "parse_elems (Suc n) t = parse_elems n t" if "2 * length t + 2 \<le> n" for t
    using Suc.IH that by blast
  have members: "parse_members (Suc n) t = parse_members n t" if "2 * length t + 2 \<le> n" for t
    using Suc.IH that by blast
  have "parse_val (Suc (Suc n)) s = parse_val (Suc n) s" if "2 * length s + 1 \<le> Suc n"
  proof (cases "skip_ws s")
    case (Cons c r)
    have len: "2 * length t + 2 \<le> n" if "skip_ws r = t" for t
      using skip_ws_Cons_length [OF Cons] length_skip_ws [of r] that \<open>2 * length s + 1 \<le> Suc n\<close>
      by auto
    show ?thesis
      unfolding parse_val.simps(2) [of "Suc n" s] parse_val.simps(2) [of n s] Cons
      using elems [OF len] members [OF len]
      by (auto simp del: parse_elems.simps parse_members.simps split: list.split)
  qed simp
  moreover have "parse_elems (Suc (Suc n)) s = parse_elems (Suc n) s" if "2 * length s + 2 \<le> Suc n"
  proof -
    have "parse_elems (Suc n) r' = parse_elems n r'"
      if "parse_val n s = Some (v, r)" "skip_ws r = c # r'" for v r c r'
      using elems [of r'] parse_lengths(1) [OF that(1)] skip_ws_Cons_length [OF that(2)]
        \<open>2 * length s + 2 \<le> Suc n\<close> by simp
    then show ?thesis
      unfolding parse_elems.simps(2) [of "Suc n" s] parse_elems.simps(2) [of n s]
      using val [of s] that by (auto simp del: parse_val.simps parse_elems.simps split: option.split list.split)
  qed
  moreover have "parse_members (Suc (Suc n)) s = parse_members (Suc n) s"
    if "2 * length s + 2 \<le> Suc n"
  proof -
    have len: "length r2 + 3 \<le> length s"
      if "skip_ws s = c # r" "parse_chars r = Some (k, r1)" "skip_ws r1 = d # r2" for c r k r1 d r2
      using skip_ws_Cons_length [OF that(1)] parse_chars_length [OF that(2)]
        skip_ws_Cons_length [OF that(3)] by linarith
    have "parse_val (Suc n) r2 = parse_val n r2"
      if "skip_ws s = c # r" "parse_chars r = Some (k, r1)" "skip_ws r1 = d # r2" for c r k r1 d r2
      using val [of r2] len [OF that] \<open>2 * length s + 2 \<le> Suc n\<close> by simp
    moreover have "parse_members (Suc n) r4 = parse_members n r4"
      if "skip_ws s = c # r" "parse_chars r = Some (k, r1)" "skip_ws r1 = d # r2"
        "parse_val n r2 = Some (v, r3)" "skip_ws r3 = e # r4" for c r k r1 d r2 v r3 e r4
      using members [of r4] len [OF that(1-3)] parse_lengths(1) [OF that(4)]
        skip_ws_Cons_length [OF that(5)] \<open>2 * length s + 2 \<le> Suc n\<close> by simp
    ultimately show ?thesis
      unfolding parse_members.simps(2) [of "Suc n" s] parse_members.simps(2) [of n s]
      by (auto simp del: parse_val.simps parse_members.simps split: option.split list.split)
  qed
  ultimately show ?case by blast
qed simp

text \<open>Any amount of fuel from \<open>2 * length s + 1\<close> on gives one and the same result.\<close>

lemma parse_val_fuel: "2 * length s + 1 \<le> n \<Longrightarrow> parse_val n s = parse_val (2 * length s + 2) s"
proof (induction n rule: dec_induct)
  show "parse_val (2 * length s + 1) s = parse_val (2 * length s + 2) s"
    using parse_fuel_step [of s "2 * length s + 1"] by simp
next
  fix n assume "2 * length s + 1 \<le> n" "parse_val n s = parse_val (2 * length s + 2) s"
  then show "parse_val (Suc n) s = parse_val (2 * length s + 2) s"
    using parse_fuel_step [of s n] by simp
qed

subsection \<open>What reading returns\<close>

text \<open>No undefined anywhere, and every object an ordered property list with distinct keys.\<close>

fun json_wf :: "jsval \<Rightarrow> bool" where
  "json_wf JUndef = False"
| "json_wf (JArr xs) = list_all json_wf xs"
| "json_wf (JObj ps) = (props_ok ps \<and> props_ordered ps \<and> list_all (\<lambda>kv. json_wf (snd kv)) ps)"
| "json_wf _ = True"

lemma json_wf_assign:
  assumes "list_all (\<lambda>kv. json_wf (snd kv)) ps"
  shows "json_wf (JObj (props_assign [] ps))"
  using assms set_props_assign [of "[]" ps]
  by (auto simp: props_assign_ok props_assign_ordered list_all_iff)

lemma parse_number_wf: "parse_number s = Some (v, r) \<Longrightarrow> json_wf v"
  by (auto simp: parse_number_def Let_def split: option.splits if_splits)

lemma parse_keyword_wf: "parse_keyword s = Some (v, r) \<Longrightarrow> json_wf v"
  by (auto simp: parse_keyword_def split: if_splits)

lemma parse_wf:
  "parse_val n s = Some (v, r) \<Longrightarrow> json_wf v"
  "parse_elems n s = Some (vs, r) \<Longrightarrow> list_all json_wf vs"
  "parse_members n s = Some (ps, r) \<Longrightarrow> list_all (\<lambda>kv. json_wf (snd kv)) ps"
proof (induction n s and n s and n s arbitrary: v r and vs r and ps r
    rule: parse_val_parse_elems_parse_members.induct)
  case (2 n s)
  then show ?case
    by (auto split: list.splits if_splits dest: parse_number_wf parse_keyword_wf
        simp del: json_wf.simps(3) intro!: json_wf_assign simp: json_wf_assign [of "[]", simplified props_assign_def foldl.simps list.pred_inject(1)])
next
  case (4 n s)
  then show ?case
    by (auto split: list.splits if_splits option.splits)
next
  case (6 n s)
  then show ?case
    by (auto split: list.splits if_splits option.splits)
qed auto

lemma json_parse_wf: "json_parse s = Some v \<Longrightarrow> json_wf v"
  by (auto simp: json_parse_def simp del: parse_val.simps dest: parse_wf(1)
      split: option.splits if_splits)

subsection \<open>Reading back what was printed\<close>

text \<open>The values that JSON carries faithfully: strings of code units, integers below \<open>2 ^ 53\<close>,
  and objects whose property list is in enumeration order.\<close>

definition str_ok :: "jsstring \<Rightarrow> bool" where
  "str_ok s \<longleftrightarrow> list_all (\<lambda>c. 0 \<le> c \<and> c < 65536) s"

fun json_ok :: "jsval \<Rightarrow> bool" where
  "json_ok JUndef = False"
| "json_ok JNull = True"
| "json_ok (JBool b) = True"
| "json_ok (JNum x) =
     (case x of
        Fin q \<Rightarrow> of_int \<lfloor>q\<rfloor> = q \<and> \<bar>q\<bar> < 2 ^ 53 \<or> parse_number (num_to_str x) = Some (JNum x, [])
      | _ \<Rightarrow> False)"
| "json_ok (JStr s) = str_ok s"
| "json_ok (JArr xs) = list_all json_ok xs"
| "json_ok (JObj ps) =
     (props_ok ps \<and> props_ordered ps \<and> list_all (\<lambda>kv. str_ok (fst kv) \<and> json_ok (snd kv)) ps)"

lemma str_ok_trim: "str_ok s \<Longrightarrow> str_ok (trim s)"
  using set_trim [of s] by (auto simp: str_ok_def list_all_iff)

lemma str_ok_js [simp]: "str_ok (js s)"
proof -
  have "0 \<le> (of_char c :: int) \<and> (of_char c :: int) < 65536" for c
    using pos_mod_bound [of "256 :: int" "of_char c"] pos_mod_sign [of "256 :: int" "of_char c"] by simp
  then show ?thesis by (simp add: str_ok_def js_def list_all_iff)
qed

lemma props_ordered_named: "list_all (\<lambda>kv. \<not> is_index_key (fst kv)) p \<Longrightarrow> props_ordered p"
  by (induction p) (force simp: list_all_iff)+

lemma radix_digit_hex_unit: "0 \<le> d \<Longrightarrow> d < 16 \<Longrightarrow> radix_digit (hex_unit d) = Some d"
  by (auto simp: radix_digit_def hex_unit_def is_digit_def)

lemma hex4_u_escape:
  assumes "0 \<le> c" "c < 65536"
  shows "hex4 (hex_unit (c div 4096)) (hex_unit (c div 256 mod 16))
           (hex_unit (c div 16 mod 16)) (hex_unit (c mod 16)) = Some c"
proof -
  have "c div 4096 = c div 256 div 16" "c div 256 = c div 16 div 16"
    using zdiv_zmult2_eq [of 16 c 256] zdiv_zmult2_eq [of 16 c 16] by simp_all
  then have sum: "((c div 4096 * 16 + c div 256 mod 16) * 16 + c div 16 mod 16) * 16 + c mod 16 = c"
    by (metis div_mult_mod_eq)
  have "0 \<le> c div 4096" "c div 4096 < 16" using assms by auto
  then have "radix_digit (hex_unit (c div 4096)) = Some (c div 4096)"
    by (rule radix_digit_hex_unit)
  moreover have "radix_digit (hex_unit (x mod 16)) = Some (x mod 16)" for x
    by (rule radix_digit_hex_unit) simp_all
  ultimately show ?thesis unfolding hex4_def by (simp only: option.case prod.case sum)
qed

lemma parse_chars_u_escape:
  "0 \<le> c \<Longrightarrow> c < 65536 \<Longrightarrow>
   parse_chars (u_escape c @ s) = map_option (\<lambda>(t, q). (c # t, q)) (parse_chars s)"
  by (subst parse_chars.simps) (simp add: u_escape_def hex4_u_escape)

lemma parse_chars_plain:
  "32 \<le> c \<Longrightarrow> c \<noteq> 34 \<Longrightarrow> c \<noteq> 92 \<Longrightarrow>
   parse_chars (c # s) = map_option (\<lambda>(t, q). (c # t, q)) (parse_chars s)"
  by (subst parse_chars.simps) simp

lemma parse_chars_escape:
  "simple_escape e = Some c \<Longrightarrow>
   parse_chars (92 # e # s) = map_option (\<lambda>(t, q). (c # t, q)) (parse_chars s)"
  by (subst parse_chars.simps) (auto simp: simple_escape_def split: if_splits)

lemma parse_chars_quote_unit:
  assumes "0 \<le> c" "c < 65536"
  shows "parse_chars (quote_unit c @ s) = map_option (\<lambda>(t, q). (c # t, q)) (parse_chars s)"
  using assms
  by (auto simp: quote_unit_def parse_chars_u_escape parse_chars_plain parse_chars_escape
      simple_escape_def)

lemma parse_chars_quote_units:
  "str_ok s \<Longrightarrow> parse_chars (quote_units s @ 34 # r) = Some (s, r)"
proof (induction s rule: quote_units.induct)
  case 1
  show ?case by (simp add: parse_chars.simps [of "34 # r"])
next
  case (2 c)
  then show ?case
    by (simp add: str_ok_def parse_chars_u_escape parse_chars_quote_unit
        parse_chars.simps [of "34 # r"])
next
  case (3 c d s)
  then show ?case
    by (auto simp: str_ok_def parse_chars_u_escape parse_chars_quote_unit parse_chars_plain
        high_surrogate_def low_surrogate_def)
qed

lemma parse_chars_json_quote: "str_ok s \<Longrightarrow> parse_chars (tl (json_quote s) @ r) = Some (s, r)"
  by (simp add: json_quote_def parse_chars_quote_units)

text \<open>What may follow a value: the end of the text, a comma or a closing bracket.\<close>

definition value_end :: "jsstring \<Rightarrow> bool" where
  "value_end r \<longleftrightarrow> r = [] \<or> hd r \<in> {44, 93, 125, 10}"

lemma dec_str_hd_zero: "0 \<le> n \<Longrightarrow> hd (dec_str n) = 48 \<longleftrightarrow> n = 0"
proof (induction n rule: dec_str.induct)
  case (1 n)
  then show ?case by (auto simp: dec_str.simps [of n] hd_append)
qed

lemma number_int_dec_str:
  assumes "0 \<le> n" "value_end r"
  shows "number_int (dec_str n @ r) = Some (dec_str n, r)"
proof (cases "n = 0")
  case True
  then show ?thesis by (simp add: number_int_def dec_str.simps [of 0])
next
  case False
  have d: "\<forall>c\<in>set (dec_str n). is_digit c" using assms(1) by (rule dec_str_digits)
  obtain c t where ct: "dec_str n = c # t" by (cases "dec_str n") auto
  have "c \<noteq> 48" using dec_str_hd_zero [OF assms(1)] False ct by simp
  moreover have "is_digit c" using d ct by simp
  moreover have "takeWhile is_digit r = []" "dropWhile is_digit r = r"
    using assms(2) by (cases r; auto simp: value_end_def is_digit_def)+
  ultimately show ?thesis
    using takeWhile_all [OF d, of r] dropWhile_all [OF d, of r]
    by (simp add: number_int_def ct)
qed

lemma parse_number_int_str:
  assumes "\<bar>n\<bar> < 2 ^ 53" "value_end r"
  shows "parse_number (int_str n @ r) = Some (JNum (Fin (of_int n)), r)"
proof -
  have tail: "number_frac r = Some ([], r)" "number_exp r = Some (0, r)"
    using assms(2) by (cases r; auto simp: value_end_def number_frac_def number_exp_def)+
  have round: "round_double (of_int n) = Fin (of_int n)"
    using assms(1) by (rule round_double_safe)
  show ?thesis
  proof (cases "n < 0")
    case True
    then show ?thesis
      using assms tail round
      by (simp add: int_str_def parse_number_def number_int_dec_str pow10_def)
  next
    case False
    then have "hd (dec_str n @ r) \<noteq> 45"
      using dec_str_digits [of n] by (cases "dec_str n") (auto simp: is_digit_def)
    with False show ?thesis
      using assms tail round
      by (simp add: int_str_def parse_number_def number_int_dec_str pow10_def)
  qed
qed

text \<open>A number is read the same way in front of everything that may follow a value.\<close>

lemma digits_before_end:
  assumes "value_end r"
  shows "takeWhile is_digit (s @ r) = takeWhile is_digit s"
    and "dropWhile is_digit (s @ r) = dropWhile is_digit s @ r"
proof -
  have "takeWhile is_digit r = []" "dropWhile is_digit r = r"
    using assms by (cases r; auto simp: value_end_def is_digit_def)+
  then show "takeWhile is_digit (s @ r) = takeWhile is_digit s"
    "dropWhile is_digit (s @ r) = dropWhile is_digit s @ r"
    by (induction s) auto
qed

lemma number_int_append:
  "number_int s = Some (d, q) \<Longrightarrow> value_end r \<Longrightarrow> number_int (s @ r) = Some (d, q @ r)"
  using digits_before_end [of r "tl s"]
  by (auto simp: number_int_def split: list.splits if_splits)

lemma number_frac_append:
  "number_frac s = Some (d, q) \<Longrightarrow> value_end r \<Longrightarrow> number_frac (s @ r) = Some (d, q @ r)"
  using digits_before_end [of r "tl s"]
  by (cases r) (auto simp: number_frac_def value_end_def hd_append split: list.splits if_splits)

lemma number_exp_append:
  assumes "number_exp s = Some (e, q)" "value_end r"
  shows "number_exp (s @ r) = Some (e, q @ r)"
proof (cases s)
  case Nil
  with assms show ?thesis by (cases r) (auto simp: number_exp_def value_end_def)
next
  case (Cons c t)
  then show ?thesis
    using assms digits_before_end [of r t] digits_before_end [of r "tl t"]
    by (cases t) (auto simp: number_exp_def Let_def split: if_splits)
qed

lemma parse_number_append:
  assumes "parse_number s = Some (v, [])" "value_end r"
  shows "parse_number (s @ r) = Some (v, r)"
proof -
  define u where "u = (if s \<noteq> [] \<and> hd s = 45 then tl s else s)"
  obtain ip q fp q' e where n: "number_int u = Some (ip, q)" "number_frac q = Some (fp, q')"
    "number_exp q' = Some (e, [])"
    using assms(1) by (auto simp: parse_number_def Let_def u_def split: option.splits if_splits)
  have "s \<noteq> []" using assms(1) by (auto simp: parse_number_def number_int_def)
  then obtain c t where s: "s = c # t" by (cases s) auto
  then have "(if c = 45 then t @ r else c # t @ r) = u @ r" "u = (if c = 45 then t else s)"
    by (auto simp: u_def)
  with assms n s show ?thesis
    using number_int_append [OF n(1) assms(2)] number_frac_append [OF n(2) assms(2)]
      number_exp_append [OF n(3) assms(2)]
    by (cases "c = 45") (simp_all add: parse_number_def Let_def)
qed

lemma parse_number_start: "parse_number s = Some x \<Longrightarrow> \<exists>c t. s = c # t \<and> (c = 45 \<or> is_digit c)"
  by (cases s) (auto simp: parse_number_def number_int_def Let_def is_digit_def split: if_splits)

text \<open>\<open>reads_back v\<close>: with enough fuel the printed text of \<open>v\<close> is read back as \<open>v\<close>, in front of
  everything that may follow a value. Texts of such values start like a value does.\<close>

definition value_start :: "jsstring \<Rightarrow> bool" where
  "value_start t \<longleftrightarrow> t \<noteq> [] \<and> \<not> is_json_ws (hd t) \<and> hd t \<noteq> 93 \<and> hd t \<noteq> 125"

definition reads_back :: "jsval \<Rightarrow> bool" where
  "reads_back v \<longleftrightarrow>
     (\<exists>t m. json_text v = Some t \<and> value_start t \<and>
        (\<forall>n r. m \<le> n \<longrightarrow> value_end r \<longrightarrow> parse_val n (t @ r) = Some (v, r)))"

lemma reads_backI:
  "json_text v = Some t \<Longrightarrow> value_start t \<Longrightarrow>
   (\<And>n r. m \<le> n \<Longrightarrow> value_end r \<Longrightarrow> parse_val n (t @ r) = Some (v, r)) \<Longrightarrow> reads_back v"
  by (auto simp: reads_back_def)

lemma skip_ws_start: "value_start t \<Longrightarrow> skip_ws (t @ r) = t @ r"
  by (cases t) (auto simp: value_start_def skip_ws_def)

lemma skip_ws_unit: "\<not> is_json_ws c \<Longrightarrow> skip_ws (c # r) = c # r"
  by (simp add: skip_ws_def)

lemma int_str_start: "\<exists>c t. int_str n = c # t \<and> (c = 45 \<or> is_digit c)"
proof (cases "n < 0")
  case False
  then show ?thesis
    using dec_str_digits [of n] by (cases "dec_str n") (auto simp: int_str_def)
qed (simp add: int_str_def)

lemma json_ok_number:
  assumes "json_ok (JNum x)"
  shows "parse_number (num_to_str x) = Some (JNum x, [])"
proof -
  obtain q where x: "x = Fin q" using assms by (cases x) auto
  show ?thesis
  proof (cases "of_int \<lfloor>q\<rfloor> = q \<and> \<bar>q\<bar> < 2 ^ 53")
    case True
    define n where "n = \<lfloor>q\<rfloor>"
    have q: "q = of_int n" unfolding n_def using True by (metis (no_types))
    have "\<bar>of_int n :: rat\<bar> < of_int (2 ^ 53)" using True q by simp
    then have n: "\<bar>n\<bar> < 2 ^ 53" by (metis of_int_abs of_int_less_iff)
    have "value_end []" by (simp add: value_end_def)
    from parse_number_int_str [OF n this] show ?thesis
      using num_to_str_safe [OF n] x q by simp
  qed (use assms x in auto)
qed

lemma reads_back_num:
  assumes "json_ok (JNum x)"
  shows "reads_back (JNum x)"
proof -
  define t where "t = num_to_str x"
  obtain q where x: "x = Fin q" using assms by (cases x) auto
  have num: "parse_number t = Some (JNum x, [])" using json_ok_number [OF assms] by (simp add: t_def)
  obtain c r where ct: "t = c # r" "c = 45 \<or> is_digit c" using parse_number_start [OF num] by blast
  have start: "value_start t"
    using ct by (auto simp: value_start_def is_json_ws_def is_digit_def)
  have "parse_val k (t @ r) = Some (JNum x, r)" if k: "1 \<le> k" and r: "value_end r" for k r
  proof -
    obtain k' where "k = Suc k'" using k by (cases k) auto
    then show ?thesis
      using skip_ws_start [OF start, of r] parse_number_append [OF num r] ct
      by (auto simp: is_digit_def)
  qed
  then show ?thesis
    using start x by (intro reads_backI [of _ t 1]) (auto simp: t_def)
qed

lemma reads_back_str: "str_ok s \<Longrightarrow> reads_back (JStr s)"
proof -
  assume s: "str_ok s"
  have "parse_val k (json_quote s @ r) = Some (JStr s, r)" if "1 \<le> k" for k r
    using that parse_chars_quote_units [OF s, of r]
    by (cases k) (auto simp: json_quote_def skip_ws_unit is_json_ws_def)
  then show ?thesis
    by (auto simp: reads_back_def value_start_def json_quote_def is_json_ws_def)
qed

lemma reads_back_keyword: "reads_back JNull" "reads_back (JBool b)"
proof -
  have "parse_val k (js ''null'' @ r) = Some (JNull, r)" if "1 \<le> k" for k r
    using that by (cases k) (auto simp: parse_keyword_def js_def skip_ws_def is_json_ws_def is_digit_def)
  moreover have "value_start (js ''null'')"
    by (auto simp: value_start_def js_def is_json_ws_def)
  ultimately show "reads_back JNull" by (intro reads_backI [of _ _ 1]) auto
  define t where "t = (if b then js ''true'' else js ''false'')"
  have "parse_val k (t @ r) = Some (JBool b, r)" if "1 \<le> k" for k r
    using that
    by (cases k; cases b) (auto simp: t_def parse_keyword_def js_def skip_ws_def is_json_ws_def is_digit_def)
  moreover have "value_start t"
    by (auto simp: t_def value_start_def js_def is_json_ws_def)
  ultimately show "reads_back (JBool b)" by (intro reads_backI [of _ t 1]) (auto simp: t_def)
qed

lemma value_end_units: "value_end (44 # r)" "value_end (93 # r)" "value_end (125 # r)" "value_end []"
  by (auto simp: value_end_def)

definition val_text :: "jsval \<Rightarrow> jsstring" where
  "val_text v = (case json_text v of Some t \<Rightarrow> t | None \<Rightarrow> js ''null'')"

definition member_text :: "jsstring \<times> jsval \<Rightarrow> jsstring" where
  "member_text kv = json_quote (fst kv) @ [58] @ val_text (snd kv)"

lemma reads_backE:
  assumes "reads_back v"
  obtains m where "json_text v = Some (val_text v)" "value_start (val_text v)"
    "\<And>n r. m \<le> n \<Longrightarrow> value_end r \<Longrightarrow> parse_val n (val_text v @ r) = Some (v, r)"
proof -
  obtain t m where t: "json_text v = Some t" "value_start t"
    "\<And>n r. m \<le> n \<Longrightarrow> value_end r \<Longrightarrow> parse_val n (t @ r) = Some (v, r)"
    using assms unfolding reads_back_def by blast
  then have "val_text v = t" by (simp add: val_text_def)
  with t show thesis using that by blast
qed

lemma join_start: "value_start x \<Longrightarrow> value_start (join [44] (x # xs))"
  by (cases xs) (auto simp: value_start_def)

lemma parse_elems_join:
  "xs \<noteq> [] \<Longrightarrow> \<forall>x\<in>set xs. reads_back x \<Longrightarrow>
   \<exists>m. \<forall>n r. m \<le> n \<longrightarrow> parse_elems n (join [44] (map val_text xs) @ 93 # r) = Some (xs, r)"
proof (induction xs)
  case (Cons x xs)
  obtain m where m: "\<And>n r. m \<le> n \<Longrightarrow> value_end r \<Longrightarrow> parse_val n (val_text x @ r) = Some (x, r)"
    using Cons.prems(2) by (auto elim!: reads_backE)
  show ?case
  proof (cases xs)
    case Nil
    have "parse_elems n (val_text x @ 93 # r) = Some ([x], r)" if "Suc m \<le> n" for n r
      using that m [of "n - 1" "93 # r"] value_end_units
      by (cases n) (auto simp: skip_ws_unit is_json_ws_def)
    with Nil show ?thesis by auto
  next
    case (Cons y ys)
    then obtain k where k: "\<And>n r. k \<le> n \<Longrightarrow>
        parse_elems n (join [44] (map val_text xs) @ 93 # r) = Some (xs, r)"
      using Cons.IH Cons.prems(2) by auto
    have "parse_elems n (val_text x @ [44] @ join [44] (map val_text xs) @ 93 # r) = Some (x # xs, r)"
      if "Suc (max m k) \<le> n" for n r
      using that m [of "n - 1" "44 # join [44] (map val_text xs) @ 93 # r"] value_end_units
        k [of "n - 1" r]
      by (cases n) (auto simp: skip_ws_unit is_json_ws_def)
    with Cons show ?thesis by auto
  qed
qed simp

lemma parse_members_join:
  "ps \<noteq> [] \<Longrightarrow> \<forall>kv\<in>set ps. str_ok (fst kv) \<and> reads_back (snd kv) \<Longrightarrow>
   \<exists>m. \<forall>n r. m \<le> n \<longrightarrow> parse_members n (join [44] (map member_text ps) @ 125 # r) = Some (ps, r)"
proof (induction ps)
  case (Cons kv ps)
  obtain key v where kv: "kv = (key, v)" by (cases kv)
  obtain m where m: "\<And>n r. m \<le> n \<Longrightarrow> value_end r \<Longrightarrow> parse_val n (val_text v @ r) = Some (v, r)"
    using Cons.prems(2) by (auto simp: kv elim!: reads_backE)
  have key: "parse_chars (quote_units key @ 34 # r) = Some (key, r)" for r
    using Cons.prems(2) by (simp add: kv parse_chars_quote_units)
  show ?case
  proof (cases ps)
    case Nil
    have "parse_members n (member_text kv @ 125 # r) = Some ([kv], r)" if "Suc m \<le> n" for n r
      using that m [of "n - 1" "125 # r"] value_end_units key
      by (cases n) (auto simp: kv member_text_def json_quote_def skip_ws_unit is_json_ws_def)
    with Nil show ?thesis by auto
  next
    case (Cons y ys)
    then obtain k where k: "\<And>n r. k \<le> n \<Longrightarrow>
        parse_members n (join [44] (map member_text ps) @ 125 # r) = Some (ps, r)"
      using Cons.IH Cons.prems(2) by auto
    have "parse_members n (member_text kv @ [44] @ join [44] (map member_text ps) @ 125 # r)
        = Some (kv # ps, r)" if "Suc (max m k) \<le> n" for n r
      using that m [of "n - 1" "44 # join [44] (map member_text ps) @ 125 # r"] value_end_units
        k [of "n - 1" r] key
      by (cases n) (auto simp: kv member_text_def json_quote_def skip_ws_unit is_json_ws_def)
    with Cons show ?thesis by auto
  qed
qed simp

lemma member_text_start: "value_start (member_text kv)"
  by (simp add: member_text_def json_quote_def value_start_def is_json_ws_def)

lemma reads_back_arr:
  assumes "\<forall>x\<in>set xs. reads_back x"
  shows "reads_back (JArr xs)"
proof (cases xs)
  case Nil
  have "parse_val n ([91, 93] @ r) = Some (JArr [], r)" if "1 \<le> n" for n r
    using that by (cases n) (auto simp: skip_ws_unit is_json_ws_def)
  with Nil show ?thesis
    by (intro reads_backI [of _ "[91, 93]" 1]) (auto simp: value_start_def is_json_ws_def)
next
  case (Cons x ys)
  define body where "body = join [44] (map val_text xs)"
  have "value_start (val_text x)" using assms Cons by (auto elim: reads_backE)
  then have start: "value_start body" by (simp add: body_def Cons join_start)
  then obtain d b where d: "body = d # b" "d \<noteq> 93" "skip_ws (body @ r) = body @ r" for r
    by (cases body) (auto simp: value_start_def skip_ws_def)
  obtain m where m: "\<And>n r. m \<le> n \<Longrightarrow> parse_elems n (body @ 93 # r) = Some (xs, r)"
    using parse_elems_join [OF _ assms] Cons unfolding body_def by blast
  have "parse_val n (([91] @ body @ [93]) @ r) = Some (JArr xs, r)" if "Suc m \<le> n" for n r
    using that m [of "n - 1" r] d(1,2) d(3) [of "93 # r"]
    by (cases n) (auto simp: skip_ws_unit is_json_ws_def)
  then show ?thesis
    by (intro reads_backI [of _ "[91] @ body @ [93]" "Suc m"])
       (auto simp: body_def value_start_def is_json_ws_def val_text_def [abs_def])
qed

lemma reads_back_obj:
  assumes "\<forall>kv\<in>set ps. str_ok (fst kv) \<and> reads_back (snd kv)" "props_ok ps" "props_ordered ps"
  shows "reads_back (JObj ps)"
proof (cases ps)
  case Nil
  have "parse_val n ([123, 125] @ r) = Some (JObj [], r)" if "1 \<le> n" for n r
    using that by (cases n) (auto simp: skip_ws_unit is_json_ws_def)
  with Nil show ?thesis
    by (intro reads_backI [of _ "[123, 125]" 1]) (auto simp: value_start_def is_json_ws_def)
next
  case (Cons p qs)
  define body where "body = join [44] (map member_text ps)"
  have "value_start body" by (simp add: body_def Cons join_start member_text_start)
  then obtain d b where d: "body = d # b" "d \<noteq> 125" "skip_ws (body @ r) = body @ r" for r
    by (cases body) (auto simp: value_start_def skip_ws_def)
  have texts: "concat (map (\<lambda>kv. case json_text (snd kv) of
      Some t \<Rightarrow> [json_quote (fst kv) @ [58] @ t] | None \<Rightarrow> []) ps) = map member_text ps"
    using assms(1)
    by (induction ps) (auto simp: member_text_def elim!: reads_backE)
  obtain m where m: "\<And>n r. m \<le> n \<Longrightarrow> parse_members n (body @ 125 # r) = Some (ps, r)"
    using parse_members_join [OF _ assms(1)] Cons unfolding body_def by blast
  have "parse_val n (([123] @ body @ [125]) @ r) = Some (JObj ps, r)" if "Suc m \<le> n" for n r
    using that m [of "n - 1" r] d(1,2) d(3) [of "125 # r"] props_rebuild [OF assms(2,3)]
    by (cases n) (auto simp: skip_ws_unit is_json_ws_def)
  then show ?thesis
    using texts
    by (intro reads_backI [of _ "[123] @ body @ [125]" "Suc m"])
       (auto simp: body_def value_start_def is_json_ws_def)
qed

lemma json_ok_reads_back: "json_ok v \<Longrightarrow> reads_back v"
proof (induction v)
  case (JNum x)
  then show ?case by (rule reads_back_num)
next
  case (JArr xs)
  then show ?case by (auto simp: list_all_iff intro!: reads_back_arr)
next
  case (JObj ps)
  then show ?case
    by (intro reads_back_obj) (auto simp: list_all_iff)
qed (auto simp: reads_back_keyword reads_back_str)

lemma object_text: "\<exists>s. json_stringify (JObj p) = 123 # s"
  by (simp add: json_stringify_def)

lemma json_ok_text: "json_ok v \<Longrightarrow> json_text v = Some (json_stringify v)"
  using json_ok_reads_back [of v] by (auto simp: reads_back_def json_stringify_def)

text \<open>\<^verbatim>\<open>JSON.parse(JSON.stringify(v))\<close> is \<open>v\<close>.\<close>

lemma json_round_trip: "json_ok v \<Longrightarrow> json_parse (json_stringify v) = Some v"
proof -
  assume "json_ok v"
  then obtain m where "\<And>n r. m \<le> n \<Longrightarrow> value_end r \<Longrightarrow> parse_val n (json_stringify v @ r) = Some (v, r)"
    using json_ok_reads_back json_ok_text unfolding reads_back_def by fastforce
  then have m: "parse_val n (json_stringify v) = Some (v, [])" if "m \<le> n" for n
    using that value_end_units(4) by (metis append_Nil2)
  define s where "s = json_stringify v"
  have "parse_val (2 * length s + 2) s = parse_val (max m (2 * length s + 1)) s"
    using parse_val_fuel [of s "max m (2 * length s + 1)"] by simp
  then show ?thesis
    using m [of "max m (2 * length s + 1)"] by (simp add: json_parse_def s_def skip_ws_def)
qed

subsection \<open>The codec contract\<close>

text \<open>What the clients that store a value as text and load it again rely on.\<close>

locale text_codec =
  fixes enc :: "'a \<Rightarrow> jsstring"
    and dec :: "jsstring \<Rightarrow> 'a option"
    and good :: "'a \<Rightarrow> bool"
  assumes dec_enc: "good v \<Longrightarrow> dec (enc v) = Some v"
begin

lemma enc_inject: "good v \<Longrightarrow> good w \<Longrightarrow> enc v = enc w \<longleftrightarrow> v = w"
  using dec_enc by (metis option.inject)

lemma dec_total_on_enc: "good v \<Longrightarrow> dec (enc v) \<noteq> None"
  by (simp add: dec_enc)

end

interpretation json: text_codec json_stringify json_parse json_ok
  by unfold_locales (rule json_round_trip)

end
