(* ===== verification/StatusCodes.thy ===== *)
theory StatusCodes
  imports JS_Json "HOL-Library.Product_Lexorder"
begin

text \<open>
  HTTP status-code rules: \<^verbatim>\<open>web/default/src/lib/http-status-code-rules.ts\<close> (the parser of
  lists such as \<^verbatim>\<open>401, 500-503\<close> and its range merging) and
  \<^verbatim>\<open>features/channels/lib/status-code-risk-guard.ts\<close> (the check of status-code mappings).

  The parser lemmas show that merging changes no covered code, leaves sorted ranges with a gap
  between neighbours, and that parsing the normalised text again gives the same ranges.
\<close>

subsection \<open>The rule parser\<close>

record statusCodeRange =
  rstart :: int
  rend :: int

record parsedHttpStatusCodeRules =
  rules_ok :: bool
  rules_ranges :: "statusCodeRange list"
  rules_tokens :: "jsstring list"
  rules_normalized :: jsstring
  rules_invalidTokens :: "jsstring list"

definition isNumber :: "jsstring \<Rightarrow> bool" where
  "isNumber s \<longleftrightarrow> s \<noteq> [] \<and> list_all is_digit s"

text \<open>\<^verbatim>\<open>isValidCode\<close>, with \<open>None\<close> for \<^verbatim>\<open>NaN\<close>.\<close>

definition isValidCode :: "int option \<Rightarrow> bool" where
  "isValidCode code \<longleftrightarrow> (case code of None \<Rightarrow> False | Some c \<Rightarrow> 100 \<le> c \<and> c \<le> 599)"

text \<open>\<^verbatim>\<open>const [a, b] = cleaned.split('-')\<close> takes the first two parts and ignores the rest.\<close>

definition parseToken :: "jsstring \<Rightarrow> statusCodeRange option" where
  "parseToken token =
     (let cleaned = filter (\<lambda>c. \<not> is_ws c) (trim token) in
      if cleaned = [] then None
      else if str_includes cleaned [45] then
        (let parts = split_on 45 cleaned; a = parts ! 0; b = parts ! 1 in
         if \<not> isNumber a \<or> \<not> isNumber b then None
         else let st = parse_int10 a; en = parse_int10 b in
              if \<not> isValidCode st \<or> \<not> isValidCode en \<or> the st > the en then None
              else Some \<lparr>rstart = the st, rend = the en\<rparr>)
      else if \<not> isNumber cleaned then None
      else let code = parse_int10 cleaned in
           if \<not> isValidCode code then None
           else Some \<lparr>rstart = the code, rend = the code\<rparr>)"

definition merge_step :: "statusCodeRange list \<Rightarrow> statusCodeRange \<Rightarrow> statusCodeRange list" where
  "merge_step merged current =
     (if merged = [] \<or> rstart current > rend (last merged) + 1 then merged @ [current]
      else merged[length merged - 1 :=
             (last merged)\<lparr>rend := max (rend (last merged)) (rend current)\<rparr>])"

definition mergeRanges :: "statusCodeRange list \<Rightarrow> statusCodeRange list" where
  "mergeRanges rs =
     (if rs = [] then [] else foldl merge_step [] (sort_key (\<lambda>r. (rstart r, rend r)) rs))"

definition range_token :: "statusCodeRange \<Rightarrow> jsstring" where
  "range_token r =
     (if rstart r = rend r then int_str (rstart r)
      else int_str (rstart r) @ [45] @ int_str (rend r))"

text \<open>\<^verbatim>\<open>(input ?? '').toString()\<close>; 65292 is the full-width comma.\<close>

definition rule_input :: "jsval \<Rightarrow> jsstring" where
  "rule_input v = (if v = JNull \<or> v = JUndef then [] else to_str v)"

definition rule_segments :: "jsstring \<Rightarrow> jsstring list" where
  "rule_segments raw =
     filter (\<lambda>s. s \<noteq> []) (map trim (split_on 44 (map (\<lambda>c. if c = 65292 then 44 else c) raw)))"

definition parseHttpStatusCodeRules :: "jsval \<Rightarrow> parsedHttpStatusCodeRules" where
  "parseHttpStatusCodeRules v =
     (let raw = trim (rule_input v) in
      if raw = [] then
        \<lparr>rules_ok = True, rules_ranges = [], rules_tokens = [], rules_normalized = [],
         rules_invalidTokens = []\<rparr>
      else
        let segments = rule_segments raw;
            rs = List.map_filter parseToken segments;
            bad = filter (\<lambda>s. parseToken s = None) segments
        in if bad \<noteq> [] then
             \<lparr>rules_ok = False, rules_ranges = [], rules_tokens = [], rules_normalized = raw,
              rules_invalidTokens = bad\<rparr>
           else
             let merged = mergeRanges rs; tokens = map range_token merged
             in \<lparr>rules_ok = True, rules_ranges = merged, rules_tokens = tokens,
                 rules_normalized = join [44] tokens, rules_invalidTokens = []\<rparr>)"

subsection \<open>Merging keeps the covered codes and separates the ranges\<close>

definition covers :: "statusCodeRange list \<Rightarrow> int \<Rightarrow> bool" where
  "covers rs c \<longleftrightarrow> (\<exists>r\<in>set rs. rstart r \<le> c \<and> c \<le> rend r)"

definition proper :: "statusCodeRange \<Rightarrow> bool" where
  "proper r \<longleftrightarrow> 100 \<le> rstart r \<and> rstart r \<le> rend r \<and> rend r \<le> 599"

definition separated :: "statusCodeRange list \<Rightarrow> bool" where
  "separated rs \<longleftrightarrow> sorted_wrt (\<lambda>a b. rend a + 1 < rstart b) rs"

lemma merge_step_cases:
  "merge_step (ms @ [l]) cur =
     (if rstart cur > rend l + 1 then ms @ [l, cur]
      else ms @ [l\<lparr>rend := max (rend l) (rend cur)\<rparr>])"
  by (simp add: merge_step_def)

lemma merge_step_Nil: "merge_step [] cur = [cur]"
  by (simp add: merge_step_def)

lemma proper_merge_step:
  "\<forall>r\<in>set ms. proper r \<Longrightarrow> proper cur \<Longrightarrow> \<forall>r\<in>set (merge_step ms cur). proper r"
  by (cases ms rule: rev_cases) (auto simp: merge_step_Nil merge_step_cases proper_def)

lemma separated_merge_step:
  "separated ms \<Longrightarrow> \<forall>r\<in>set ms. proper r \<Longrightarrow> separated (merge_step ms cur)"
  by (cases ms rule: rev_cases)
     (fastforce simp: separated_def merge_step_Nil merge_step_cases sorted_wrt_append proper_def)+

lemma last_merge_step:
  "(ms \<noteq> [] \<Longrightarrow> rstart (last ms) \<le> rstart cur) \<Longrightarrow> rstart (last (merge_step ms cur)) \<le> rstart cur"
  by (cases ms rule: rev_cases) (auto simp: merge_step_Nil merge_step_cases)

lemma covers_merge_step:
  assumes "\<forall>r\<in>set ms. proper r" "proper cur" "ms \<noteq> [] \<Longrightarrow> rstart (last ms) \<le> rstart cur"
  shows "covers (merge_step ms cur) c \<longleftrightarrow> covers ms c \<or> rstart cur \<le> c \<and> c \<le> rend cur"
proof (cases ms rule: rev_cases)
  case Nil
  then show ?thesis by (simp add: merge_step_Nil covers_def)
next
  case (snoc xs l)
  then show ?thesis
    using assms by (auto simp: merge_step_cases covers_def proper_def)
qed

lemma merge_fold:
  assumes "sorted (map rstart xs)" "\<forall>r\<in>set xs. proper r" "\<forall>r\<in>set ms. proper r" "separated ms"
    "ms \<noteq> [] \<Longrightarrow> \<forall>x\<in>set xs. rstart (last ms) \<le> rstart x"
  shows "(\<forall>r\<in>set (foldl merge_step ms xs). proper r) \<and> separated (foldl merge_step ms xs) \<and>
    (\<forall>c. covers (foldl merge_step ms xs) c \<longleftrightarrow> covers ms c \<or> covers xs c)"
  using assms
proof (induction xs arbitrary: ms)
  case Nil
  then show ?case by (simp add: covers_def)
next
  case (Cons x xs)
  have le: "ms \<noteq> [] \<Longrightarrow> rstart (last ms) \<le> rstart x" using Cons.prems(5) by simp
  have "rstart (last (merge_step ms x)) \<le> rstart x" using le by (rule last_merge_step)
  then have "\<forall>y\<in>set xs. rstart (last (merge_step ms x)) \<le> rstart y"
    using Cons.prems(1) by fastforce
  then have "(\<forall>r\<in>set (foldl merge_step (merge_step ms x) xs). proper r) \<and>
      separated (foldl merge_step (merge_step ms x) xs) \<and>
      (\<forall>c. covers (foldl merge_step (merge_step ms x) xs) c \<longleftrightarrow>
         covers (merge_step ms x) c \<or> covers xs c)"
    using Cons.prems
    by (intro Cons.IH proper_merge_step separated_merge_step) auto
  moreover have "covers (merge_step ms x) c \<longleftrightarrow> covers ms c \<or> rstart x \<le> c \<and> c \<le> rend x" for c
    using Cons.prems le by (intro covers_merge_step) auto
  ultimately show ?case by (auto simp: covers_def)
qed

lemma sorted_starts: "sorted (map rstart (sort_key (\<lambda>r. (rstart r, rend r)) rs))"
proof -
  have "sorted (map (\<lambda>r. (rstart r, rend r)) (sort_key (\<lambda>r. (rstart r, rend r)) rs))" by simp
  then show ?thesis
    unfolding sorted_map by (rule sorted_wrt_mono_rel [rotated]) (auto simp: less_eq_prod_def)
qed

lemma mergeRanges_facts:
  assumes "\<forall>r\<in>set rs. proper r"
  shows "\<forall>r\<in>set (mergeRanges rs). proper r" "separated (mergeRanges rs)"
    "covers (mergeRanges rs) c \<longleftrightarrow> covers rs c"
  using merge_fold [OF sorted_starts, of rs "[]"] assms
  by (auto simp: mergeRanges_def separated_def covers_def)

text \<open>Separated ranges are a fixed point of merging.\<close>

lemma separated_sorted:
  assumes "separated rs" "\<forall>r\<in>set rs. proper r"
  shows "sort_key (\<lambda>r. (rstart r, rend r)) rs = rs"
proof -
  have "sorted_wrt (\<lambda>a b. (rstart a, rend a) \<le> (rstart b, rend b)) rs"
    using assms unfolding separated_def
    by (induction rs) (fastforce simp: less_eq_prod_def proper_def)+
  then show ?thesis by (simp add: sort_key_id_if_sorted sorted_map)
qed

lemma foldl_merge_separated:
  "separated (ms @ xs) \<Longrightarrow> foldl merge_step ms xs = ms @ xs"
proof (induction xs arbitrary: ms)
  case (Cons x xs)
  have "merge_step ms x = ms @ [x]"
    using Cons.prems by (cases ms rule: rev_cases)
      (auto simp: merge_step_Nil merge_step_cases separated_def sorted_wrt_append)
  then show ?case using Cons.IH [of "ms @ [x]"] Cons.prems by simp
qed simp

lemma mergeRanges_separated:
  "separated rs \<Longrightarrow> \<forall>r\<in>set rs. proper r \<Longrightarrow> mergeRanges rs = rs"
  by (simp add: mergeRanges_def separated_sorted foldl_merge_separated)

subsection \<open>Tokens\<close>

lemma parseToken_proper: "parseToken t = Some r \<Longrightarrow> proper r"
  by (auto simp: parseToken_def Let_def isValidCode_def proper_def split: if_splits option.splits)

lemma range_token_units:
  "proper r \<Longrightarrow> c \<in> set (range_token r) \<Longrightarrow> is_digit c \<or> c = 45"
  using dec_str_digits [of "rstart r"] dec_str_digits [of "rend r"]
  by (auto simp: range_token_def proper_def int_str_def split: if_splits)

lemma range_token_clean:
  assumes "proper r"
  shows "range_token r \<noteq> []" "trimmed (range_token r)" "44 \<notin> set (range_token r)"
    "65292 \<notin> set (range_token r)" "filter (\<lambda>c. \<not> is_ws c) (range_token r) = range_token r"
proof -
  have units: "\<not> is_ws c \<and> c \<noteq> 44 \<and> c \<noteq> 65292" if "c \<in> set (range_token r)" for c
    using range_token_units [OF assms that] by (auto simp: is_digit_def is_ws_def)
  show "range_token r \<noteq> []"
    by (auto simp: range_token_def int_str_def)
  show "trimmed (range_token r)" using units by (blast intro: trimmed_no_ws)
  show "44 \<notin> set (range_token r)" "65292 \<notin> set (range_token r)" using units by blast+
  show "filter (\<lambda>c. \<not> is_ws c) (range_token r) = range_token r"
    using units by (simp add: filter_id_conv)
qed

lemma isNumber_dec_str: "0 \<le> n \<Longrightarrow> isNumber (dec_str n)"
  using dec_str_digits by (simp add: isNumber_def list_all_iff)

lemma parse_int10_dec_str: "0 \<le> n \<Longrightarrow> parse_int10 (dec_str n) = Some n"
  using parse_int10_digits [of "dec_str n"] dec_str_digits [of n] by simp

lemma dash_dec_str: "0 \<le> n \<Longrightarrow> 45 \<notin> set (dec_str n)"
  using dec_str_digits [of n] by (auto simp: is_digit_def)

lemma parseToken_range_token:
  assumes "proper r"
  shows "parseToken (range_token r) = Some r"
proof -
  have pos: "0 \<le> rstart r" "0 \<le> rend r" using assms by (auto simp: proper_def)
  note clean = range_token_clean [OF assms]
  show ?thesis
  proof (cases "rstart r = rend r")
    case True
    then have tok: "range_token r = dec_str (rend r)" using pos by (simp add: range_token_def int_str_def)
    have "\<not> str_includes (dec_str (rend r)) [45]"
      using pos by (simp add: str_includes_unit dash_dec_str)
    then show ?thesis
      using clean pos assms True unfolding tok
      by (simp add: parseToken_def trim_id isNumber_dec_str parse_int10_dec_str isValidCode_def proper_def)
  next
    case False
    then have tok: "range_token r = dec_str (rstart r) @ 45 # dec_str (rend r)"
      using pos by (simp add: range_token_def int_str_def)
    have "split_on 45 (range_token r) = [dec_str (rstart r), dec_str (rend r)]"
      using pos by (simp add: tok split_on_append split_on_part dash_dec_str)
    moreover have "str_includes (range_token r) [45]" by (simp add: str_includes_unit tok)
    ultimately show ?thesis
      using clean pos assms
      by (simp add: parseToken_def trim_id isNumber_dec_str parse_int10_dec_str isValidCode_def proper_def)
  qed
qed

lemma rule_segments_join:
  assumes "\<forall>t\<in>set ts. t \<noteq> [] \<and> trimmed t \<and> 44 \<notin> set t \<and> 65292 \<notin> set t"
  shows "rule_segments (join [44] ts) = ts"
proof (cases "ts = []")
  case True
  then show ?thesis by (simp add: rule_segments_def)
next
  case False
  have "65292 \<notin> set (join [44] ts)" using assms set_join [of "[44]" ts] by auto
  then have "map (\<lambda>c. if c = 65292 then 44 else c) (join [44] ts) = join [44] ts"
    by (intro map_idI) auto
  moreover have "split_on 44 (join [44] ts) = ts"
    using assms False by (intro split_on_join) auto
  moreover have "map trim ts = ts" "filter (\<lambda>s. s \<noteq> []) ts = ts"
    using assms by (auto intro!: map_idI simp: trim_id filter_id_conv)
  ultimately show ?thesis by (simp add: rule_segments_def)
qed

lemma trimmed_join_tokens:
  assumes "\<forall>t\<in>set ts. t \<noteq> [] \<and> (\<forall>c\<in>set t. \<not> is_ws c)"
  shows "trimmed (join [44] ts)"
proof (rule trimmed_no_ws)
  have "\<not> is_ws 44" by (simp add: is_ws_def)
  then show "\<forall>c\<in>set (join [44] ts). \<not> is_ws c" using assms set_join [of "[44]" ts] by auto
qed

subsection \<open>The parser\<close>

lemma map_filter_all_Some: "\<forall>x\<in>set xs. f (g x) = Some x \<Longrightarrow> List.map_filter f (map g xs) = xs"
  by (induction xs) (auto simp: List.map_filter_simps)

lemma set_map_filter_Some: "y \<in> set (List.map_filter f xs) \<longleftrightarrow> (\<exists>x\<in>set xs. f x = Some y)"
  by (induction xs) (auto simp: List.map_filter_simps split: option.splits)

lemma parsed_ranges_proper: "r \<in> set (List.map_filter parseToken xs) \<Longrightarrow> proper r"
  by (auto simp: set_map_filter_Some dest: parseToken_proper)

text \<open>Parsing the printed form of separated proper ranges gives these ranges.\<close>

lemma parse_printed_ranges:
  assumes "separated rs" "\<forall>r\<in>set rs. proper r"
  shows "parseHttpStatusCodeRules (JStr (join [44] (map range_token rs))) =
    \<lparr>rules_ok = True, rules_ranges = rs, rules_tokens = map range_token rs,
     rules_normalized = join [44] (map range_token rs), rules_invalidTokens = []\<rparr>"
proof -
  define raw where "raw = join [44] (map range_token rs)"
  have clean: "\<forall>t\<in>set (map range_token rs). t \<noteq> [] \<and> trimmed t \<and> 44 \<notin> set t \<and> 65292 \<notin> set t"
    using assms(2) range_token_clean by auto
  have "\<forall>t\<in>set (map range_token rs). t \<noteq> [] \<and> (\<forall>c\<in>set t. \<not> is_ws c)"
    using assms(2) range_token_clean(1,5) by (auto simp: filter_id_conv)
  then have raw: "trim raw = raw"
    unfolding raw_def by (intro trim_id trimmed_join_tokens)
  have seg: "rule_segments raw = map range_token rs"
    unfolding raw_def by (rule rule_segments_join [OF clean])
  have reread: "\<forall>r\<in>set rs. parseToken (range_token r) = Some r"
    using assms(2) parseToken_range_token by blast
  then have "filter (\<lambda>s. parseToken s = None) (map range_token rs) = []"
    by (auto simp: filter_empty_conv)
  moreover have "List.map_filter parseToken (map range_token rs) = rs"
    using reread by (rule map_filter_all_Some)
  moreover have "raw = [] \<Longrightarrow> rs = []"
    using clean by (auto simp: raw_def join_eq_Nil)
  ultimately show ?thesis
    using raw seg mergeRanges_separated [OF assms]
    by (auto simp: parseHttpStatusCodeRules_def rule_input_def Let_def raw_def [symmetric])
qed

subsection \<open>Properties\<close>

text \<open>C12: an accepted rule text is normalised to a fixed point: parsing the normalised text
  succeeds and returns the same ranges, tokens and normalised text.\<close>

theorem normalized_rules_reparse:
  assumes "rules_ok (parseHttpStatusCodeRules v)"
  shows "parseHttpStatusCodeRules (JStr (rules_normalized (parseHttpStatusCodeRules v)))
    = parseHttpStatusCodeRules v"
proof -
  define raw where "raw = trim (rule_input v)"
  define rs where "rs = List.map_filter parseToken (rule_segments raw)"
  have facts: "separated (mergeRanges rs)" "\<forall>r\<in>set (mergeRanges rs). proper r"
    using mergeRanges_facts [of rs] parsed_ranges_proper by (auto simp: rs_def)
  have "parseHttpStatusCodeRules v = \<lparr>rules_ok = True, rules_ranges = ms,
      rules_tokens = map range_token ms, rules_normalized = join [44] (map range_token ms),
      rules_invalidTokens = []\<rparr>" if "ms = (if raw = [] then [] else mergeRanges rs)" for ms
    using assms that
    by (auto simp: parseHttpStatusCodeRules_def Let_def raw_def [symmetric] rs_def [symmetric]
        split: if_splits)
  then show ?thesis
    using facts parse_printed_ranges [of "[]"] parse_printed_ranges [of "mergeRanges rs"]
    by (cases "raw = []") (simp_all add: separated_def)
qed

theorem normalized_rules_reparse_witness:
  "rules_normalized (parseHttpStatusCodeRules (JStr (js ''503, 500-502 ,401''))) = js ''401,500-503'' \<and>
   parseHttpStatusCodeRules (JStr (rules_normalized
     (parseHttpStatusCodeRules (JStr (js ''503, 500-502 ,401''))))) =
   parseHttpStatusCodeRules (JStr (js ''503, 500-502 ,401''))"
proof -
  have "rules_ok (parseHttpStatusCodeRules (JStr (js ''503, 500-502 ,401'')))" by code_simp
  then have "parseHttpStatusCodeRules (JStr (rules_normalized
     (parseHttpStatusCodeRules (JStr (js ''503, 500-502 ,401''))))) =
   parseHttpStatusCodeRules (JStr (js ''503, 500-502 ,401''))"
    by (rule normalized_rules_reparse)
  moreover have "rules_normalized (parseHttpStatusCodeRules (JStr (js ''503, 500-502 ,401''))) =
    js ''401,500-503''" by code_simp
  ultimately show ?thesis by blast
qed

text \<open>C13: the ranges the parser returns cover exactly the codes of the accepted segments, they lie
  in 100..599, and two neighbouring ranges are at least two codes apart.\<close>

theorem parsed_rules_cover:
  assumes "rules_ok (parseHttpStatusCodeRules v)"
  shows "(covers (rules_ranges (parseHttpStatusCodeRules v)) c \<longleftrightarrow>
      (\<exists>seg\<in>set (rule_segments (trim (rule_input v))). \<exists>r. parseToken seg = Some r \<and>
         rstart r \<le> c \<and> c \<le> rend r)) \<and>
    separated (rules_ranges (parseHttpStatusCodeRules v)) \<and>
    (\<forall>r\<in>set (rules_ranges (parseHttpStatusCodeRules v)). proper r)"
proof -
  define segs where "segs = rule_segments (trim (rule_input v))"
  define rs where "rs = List.map_filter parseToken segs"
  have ranges: "rules_ranges (parseHttpStatusCodeRules v) = mergeRanges rs"
    using assms
    by (auto simp: parseHttpStatusCodeRules_def Let_def rs_def segs_def rule_segments_def
        mergeRanges_def List.map_filter_simps split: if_splits)
  have proper: "\<forall>r\<in>set rs. proper r" using parsed_ranges_proper by (auto simp: rs_def)
  have "covers rs c \<longleftrightarrow> (\<exists>seg\<in>set segs. \<exists>r. parseToken seg = Some r \<and> rstart r \<le> c \<and> c \<le> rend r)"
    unfolding covers_def rs_def by (meson set_map_filter_Some)
  then show ?thesis
    using mergeRanges_facts [OF proper] unfolding ranges segs_def by blast
qed

theorem parsed_rules_cover_witness:
  "covers (rules_ranges (parseHttpStatusCodeRules (JStr (js ''500-502,503'')))) 503 \<and>
   separated (rules_ranges (parseHttpStatusCodeRules (JStr (js ''500-502,503'')))) \<and>
   (\<exists>seg\<in>set (rule_segments (trim (rule_input (JStr (js ''500-502,503''))))).
      \<exists>r. parseToken seg = Some r \<and> rstart r \<le> 503 \<and> 503 \<le> rend r)"
proof -
  have "rules_ok (parseHttpStatusCodeRules (JStr (js ''500-502,503'')))" by code_simp
  note facts = parsed_rules_cover [OF this, of 503]
  have "covers (rules_ranges (parseHttpStatusCodeRules (JStr (js ''500-502,503'')))) 503"
    by code_simp
  with facts show ?thesis by blast
qed

subsection \<open>The risk guard for status-code mappings\<close>

definition NON_REDIRECTABLE_STATUS_CODES :: "int list" where
  "NON_REDIRECTABLE_STATUS_CODES = [504, 524]"

text \<open>\<^verbatim>\<open>/^[1-5]\d{2}$/\<close>\<close>

definition three_digit_code :: "jsstring \<Rightarrow> bool" where
  "three_digit_code s \<longleftrightarrow> length s = 3 \<and> 49 \<le> hd s \<and> hd s \<le> 53 \<and> list_all is_digit s"

definition parseStatusCodeKey :: "jsstring \<Rightarrow> int option" where
  "parseStatusCodeKey rawKey =
     (let normalized = trim rawKey in
      if \<not> three_digit_code normalized then None else parse_int10 normalized)"

definition parseStatusCodeMappingTarget :: "jsval \<Rightarrow> int option" where
  "parseStatusCodeMappingTarget rawValue =
     (case rawValue of
        JNum x \<Rightarrow>
          (case x of
             Fin q \<Rightarrow>
               if num_is_integer x
               then (if 100 \<le> q \<and> q \<le> 599 then Some \<lfloor>q\<rfloor> else None)
               else None
           | _ \<Rightarrow> None)
      | JStr s \<Rightarrow>
          (let normalized = trim s in
           if \<not> three_digit_code normalized then None
           else case parse_int10 normalized of
                  None \<Rightarrow> None
                | Some code \<Rightarrow> if 100 \<le> code \<and> code \<le> 599 then Some code else None)
      | _ \<Rightarrow> None)"

text \<open>The object both collectors iterate over: none when the text is blank, is not JSON or is
  not a plain object.\<close>

definition mapping_entries :: "jsstring \<Rightarrow> jsval props option" where
  "mapping_entries str =
     (if trim str = [] then None
      else case json_parse str of None \<Rightarrow> None | Some v \<Rightarrow> as_plain_object v)"

definition collectInvalidStatusCodeEntries :: "jsstring \<Rightarrow> jsstring list" where
  "collectInvalidStatusCodeEntries str =
     (case mapping_entries str of
        None \<Rightarrow> []
      | Some entries \<Rightarrow>
          map (\<lambda>(k, v). k @ [32, 8594, 32] @ to_str v)
            (filter (\<lambda>(k, v). parseStatusCodeKey k = None \<or> parseStatusCodeMappingTarget v = None)
               entries))"

definition risky_redirect :: "jsstring \<times> jsval \<Rightarrow> jsstring option" where
  "risky_redirect kv =
     (case (parseStatusCodeKey (fst kv), parseStatusCodeMappingTarget (snd kv)) of
        (Some fromCode, Some toCode) \<Rightarrow>
          if fromCode \<notin> set NON_REDIRECTABLE_STATUS_CODES then None
          else if fromCode = toCode then None
          else Some (int_str fromCode @ js '' -> '' @ int_str toCode)
      | _ \<Rightarrow> None)"

definition collectDisallowedStatusCodeRedirects :: "jsstring \<Rightarrow> jsstring list" where
  "collectDisallowedStatusCodeRedirects str =
     (case mapping_entries str of
        None \<Rightarrow> []
      | Some entries \<Rightarrow> sort (uniq (List.map_filter risky_redirect entries)))"

definition collectNewDisallowedStatusCodeRedirects :: "jsstring \<Rightarrow> jsstring \<Rightarrow> jsstring list" where
  "collectNewDisallowedStatusCodeRedirects originalStr currentStr =
     (let currentRisky = collectDisallowedStatusCodeRedirects currentStr in
      if currentRisky = [] then []
      else filter (\<lambda>m. m \<notin> set (collectDisallowedStatusCodeRedirects originalStr)) currentRisky)"

lemma set_collectDisallowed:
  "m \<in> set (collectDisallowedStatusCodeRedirects str) \<longleftrightarrow>
   (\<exists>entries kv. mapping_entries str = Some entries \<and> kv \<in> set entries \<and> risky_redirect kv = Some m)"
  by (cases "mapping_entries str")
     (auto simp: collectDisallowedStatusCodeRedirects_def set_map_filter_Some)

lemma set_collectNewDisallowed:
  "m \<in> set (collectNewDisallowedStatusCodeRedirects orig cur) \<longleftrightarrow>
   m \<in> set (collectDisallowedStatusCodeRedirects cur) \<and>
   m \<notin> set (collectDisallowedStatusCodeRedirects orig)"
  by (auto simp: collectNewDisallowedStatusCodeRedirects_def Let_def)

lemma risky_redirect_Some:
  "risky_redirect (k, v) = Some m \<longleftrightarrow>
   (\<exists>from to. parseStatusCodeKey k = Some from \<and> parseStatusCodeMappingTarget v = Some to \<and>
      from \<in> {504, 524} \<and> from \<noteq> to \<and> m = int_str from @ js '' -> '' @ int_str to)"
  by (auto simp: risky_redirect_def NON_REDIRECTABLE_STATUS_CODES_def split: option.splits if_splits)

text \<open>the warning list of a changed mapping is sorted without duplicates and names exactly
  the redirects of 504 or 524 to another valid code that the current mapping has and the original
  mapping has not.\<close>

theorem new_disallowed_redirects:
  "sorted (collectNewDisallowedStatusCodeRedirects orig cur) \<and>
   distinct (collectNewDisallowedStatusCodeRedirects orig cur) \<and>
   (m \<in> set (collectNewDisallowedStatusCodeRedirects orig cur) \<longleftrightarrow>
     (\<exists>entries k v from to. mapping_entries cur = Some entries \<and> (k, v) \<in> set entries \<and>
        parseStatusCodeKey k = Some from \<and> parseStatusCodeMappingTarget v = Some to \<and>
        from \<in> {504, 524} \<and> from \<noteq> to \<and> m = int_str from @ js '' -> '' @ int_str to) \<and>
     m \<notin> set (collectDisallowedStatusCodeRedirects orig))"
proof -
  have "m \<in> set (collectDisallowedStatusCodeRedirects cur) \<longleftrightarrow>
     (\<exists>entries k v from to. mapping_entries cur = Some entries \<and> (k, v) \<in> set entries \<and>
        parseStatusCodeKey k = Some from \<and> parseStatusCodeMappingTarget v = Some to \<and>
        from \<in> {504, 524} \<and> from \<noteq> to \<and> m = int_str from @ js '' -> '' @ int_str to)"
    unfolding set_collectDisallowed by (metis (no_types, lifting) prod.collapse risky_redirect_Some)
  moreover have "sorted (collectDisallowedStatusCodeRedirects cur)"
    "distinct (collectDisallowedStatusCodeRedirects cur)"
    by (auto simp: collectDisallowedStatusCodeRedirects_def split: option.splits)
  then have "sorted (collectNewDisallowedStatusCodeRedirects orig cur)"
    "distinct (collectNewDisallowedStatusCodeRedirects orig cur)"
    by (auto simp: collectNewDisallowedStatusCodeRedirects_def Let_def sorted_wrt_filter)
  ultimately show ?thesis unfolding set_collectNewDisallowed by blast
qed

lemma parseStatusCodeKey_bounds:
  assumes "parseStatusCodeKey k = Some code"
  shows "100 \<le> code \<and> code \<le> 599"
proof -
  from assms obtain a b c where s: "trim k = [a, b, c]" "49 \<le> a" "a \<le> 53"
    "is_digit a" "is_digit b" "is_digit c"
    by (auto simp: parseStatusCodeKey_def Let_def three_digit_code_def length_Suc_conv
        numeral_3_eq_3 split: if_splits)
  with assms have "code = digits_val [a, b, c]"
    using parse_int10_digits [of "[a, b, c]"]
    by (simp add: parseStatusCodeKey_def Let_def split: if_splits)
  with s show ?thesis by (simp add: digits_val_def is_digit_def)
qed

lemma parseStatusCodeMappingTarget_bounds:
  assumes "parseStatusCodeMappingTarget v = Some code"
  shows "100 \<le> code \<and> code \<le> 599"
proof (cases v)
  case (JNum x)
  with assms obtain q where "x = Fin q" "100 \<le> q" "q \<le> 599" "code = \<lfloor>q\<rfloor>"
    by (auto simp: parseStatusCodeMappingTarget_def split: jsnum.splits if_splits)
  then show ?thesis by (simp add: le_floor_iff floor_le_iff)
next
  case (JStr s)
  with assms show ?thesis
    by (auto simp: parseStatusCodeMappingTarget_def Let_def split: if_splits option.splits)
qed (use assms in \<open>auto simp: parseStatusCodeMappingTarget_def\<close>)

text \<open>a mapping entry is reported as invalid exactly when its key or its target is not a
  status code, and an entry that is not reported has a key and a target in 100..599.\<close>

theorem invalid_entries_reported:
  assumes "mapping_entries str = Some entries"
  shows "(collectInvalidStatusCodeEntries str = [] \<longleftrightarrow>
      (\<forall>(k, v)\<in>set entries. \<exists>from to. parseStatusCodeKey k = Some from \<and>
         parseStatusCodeMappingTarget v = Some to \<and>
         100 \<le> from \<and> from \<le> 599 \<and> 100 \<le> to \<and> to \<le> 599)) \<and>
    length (collectInvalidStatusCodeEntries str) \<le> length entries"
proof -
  have "collectInvalidStatusCodeEntries str = [] \<longleftrightarrow>
    (\<forall>(k, v)\<in>set entries. parseStatusCodeKey k \<noteq> None \<and> parseStatusCodeMappingTarget v \<noteq> None)"
    using assms by (auto simp: collectInvalidStatusCodeEntries_def filter_empty_conv)
  moreover have "parseStatusCodeKey k \<noteq> None \<and> parseStatusCodeMappingTarget v \<noteq> None \<longleftrightarrow>
    (\<exists>from to. parseStatusCodeKey k = Some from \<and> parseStatusCodeMappingTarget v = Some to \<and>
         100 \<le> from \<and> from \<le> 599 \<and> 100 \<le> to \<and> to \<le> 599)" for k v
    using parseStatusCodeKey_bounds parseStatusCodeMappingTarget_bounds by fastforce
  ultimately show ?thesis
    using assms by (simp add: collectInvalidStatusCodeEntries_def)
qed

theorem invalid_entries_reported_witness:
  "collectInvalidStatusCodeEntries ([123, 34] @ js ''504'' @ [34, 58] @ js ''200}'') = [] \<and>
   length (collectInvalidStatusCodeEntries ([123, 34] @ js ''504'' @ [34, 58] @ js ''200}'')) \<le> 1"
proof -
  have e: "mapping_entries ([123, 34] @ js ''504'' @ [34, 58] @ js ''200}'') =
      Some [(js ''504'', JNum (Fin 200))]" by code_simp
  have "collectInvalidStatusCodeEntries ([123, 34] @ js ''504'' @ [34, 58] @ js ''200}'') = []"
    by code_simp
  with invalid_entries_reported [OF e] show ?thesis by simp
qed

end
