(* ===== verification/ModelMapping.thy ===== *)
theory ModelMapping
  imports JS_Json
begin

text \<open>
  Model lists and model mappings of a channel:
  \<^verbatim>\<open>web/default/src/features/channels/lib/model-mapping-validation.ts\<close>.

  A model list travels as a comma-separated string, a mapping as the text of a JSON object from
  the requested model to the model it is redirected to. A JavaScript \<^verbatim>\<open>Set\<close> is the list of its
  elements in insertion order. The parameters are typed as strings in the source, so its
  \<^verbatim>\<open>typeof ... !== 'string'\<close> branches have no counterpart.
\<close>

definition parseModelsString :: "jsstring \<Rightarrow> jsstring list" where
  "parseModelsString modelsStr =
     (if modelsStr \<noteq> [] then filter (\<lambda>m. m \<noteq> []) (map trim (split_on 44 modelsStr)) else [])"

definition formatModelsArray :: "jsstring list \<Rightarrow> jsstring" where
  "formatModelsArray models = join [44] (uniq models)"

definition normalizeModelName :: "jsstring \<Rightarrow> jsstring" where
  "normalizeModelName model = trim model"

text \<open>\<^verbatim>\<open>JSON.parse\<close> inside \<^verbatim>\<open>try\<close>, followed by the plain-object guard.\<close>

definition parse_mapping :: "jsstring \<Rightarrow> jsval props option" where
  "parse_mapping text = (case json_parse text of None \<Rightarrow> None | Some v \<Rightarrow> as_plain_object v)"

definition extractMappingSourceModels :: "jsstring \<Rightarrow> jsstring list" where
  "extractMappingSourceModels modelMapping =
     (let trimmed_text = trim modelMapping in
      if trimmed_text = [] then []
      else case parse_mapping trimmed_text of
             None \<Rightarrow> []
           | Some parsed \<Rightarrow> uniq (filter (\<lambda>k. k \<noteq> []) (map trim (props_keys parsed))))"

fun string_value :: "jsval \<Rightarrow> jsstring option" where
  "string_value (JStr s) = Some (trim s)"
| "string_value _ = None"

definition extractRedirectModels :: "jsstring \<Rightarrow> jsstring list" where
  "extractRedirectModels modelMapping =
     (let trimmed_text = trim modelMapping in
      if trimmed_text = [] then []
      else case parse_mapping trimmed_text of
             None \<Rightarrow> []
           | Some parsed \<Rightarrow>
               uniq (filter (\<lambda>v. v \<noteq> []) (List.map_filter (\<lambda>kv. string_value (snd kv)) parsed)))"

definition hasModelConfigChanged ::
  "jsstring list \<Rightarrow> jsstring \<Rightarrow> jsstring list \<Rightarrow> jsstring \<Rightarrow> bool" where
  "hasModelConfigChanged currentModels currentModelMapping initialModels initialModelMapping =
     (if initialModels = [] \<and> initialModelMapping = [] then True
      else if length currentModels \<noteq> length initialModels then True
      else if list_ex (\<lambda>i. currentModels ! i \<noteq> initialModels ! i) [0..<length currentModels] then True
      else trim currentModelMapping \<noteq> trim initialModelMapping)"

definition findMissingModelsInMapping :: "jsstring \<Rightarrow> jsstring list \<Rightarrow> jsstring list" where
  "findMissingModelsInMapping modelMapping currentModels =
     (if modelMapping = [] \<or> trim modelMapping = [] then []
      else case parse_mapping modelMapping of
             None \<Rightarrow> []
           | Some parsed \<Rightarrow>
               let modelSet = set (map normalizeModelName currentModels)
               in uniq (filter (\<lambda>k. k \<noteq> [] \<and> k \<notin> modelSet)
                          (map normalizeModelName (props_keys parsed))))"

record mapping_validation =
  mv_valid :: bool
  mv_error :: "jsstring option"

definition validateModelMappingJson :: "jsstring \<Rightarrow> mapping_validation" where
  "validateModelMappingJson modelMapping =
     (if modelMapping = [] \<or> trim modelMapping = [] then \<lparr>mv_valid = True, mv_error = None\<rparr>
      else case json_parse modelMapping of
             None \<Rightarrow> \<lparr>mv_valid = False,
                      mv_error = Some (js ''Model mapping must be valid JSON format'')\<rparr>
           | Some parsed \<Rightarrow>
               (case as_plain_object parsed of
                  None \<Rightarrow> \<lparr>mv_valid = False,
                           mv_error = Some (js ''Model mapping must be a valid JSON object'')\<rparr>
                | Some ps \<Rightarrow>
                    if list_ex (\<lambda>kv. string_value (snd kv) = None) ps
                    then \<lparr>mv_valid = False,
                          mv_error = Some (js ''Model mapping values must be strings'')\<rparr>
                    else \<lparr>mv_valid = True, mv_error = None\<rparr>))"

definition findExposedTargetModels :: "jsstring \<Rightarrow> jsstring list \<Rightarrow> jsstring list" where
  "findExposedTargetModels modelMapping currentModels =
     (let redirectModels = extractRedirectModels modelMapping in
      if redirectModels = [] then []
      else let modelSet = set (map normalizeModelName currentModels)
           in filter (\<lambda>m. normalizeModelName m \<in> modelSet) redirectModels)"

record model_categories =
  normalizedCurrentModels :: "jsstring list"
  normalizedRedirectModels :: "jsstring list"
  classificationSet :: "jsstring list"
  redirectOnlySet :: "jsstring list"

definition categorizeModelsWithRedirect ::
  "jsstring list \<Rightarrow> jsstring list \<Rightarrow> model_categories" where
  "categorizeModelsWithRedirect currentModels redirectModels =
     (let cur = uniq (filter (\<lambda>m. m \<noteq> []) (map normalizeModelName currentModels));
          red = uniq (filter (\<lambda>m. m \<noteq> []) (map normalizeModelName redirectModels))
      in \<lparr>normalizedCurrentModels = cur, normalizedRedirectModels = red,
          classificationSet = uniq (cur @ red),
          redirectOnlySet = uniq (filter (\<lambda>m. m \<notin> set cur) red)\<rparr>)"

subsection \<open>Clean model lists\<close>

definition clean_models :: "jsstring list \<Rightarrow> bool" where
  "clean_models ms \<longleftrightarrow> (\<forall>m\<in>set ms. m \<noteq> [] \<and> trimmed m \<and> 44 \<notin> set m)"

lemma clean_parseModelsString: "clean_models (parseModelsString s)"
  using set_trim split_on_no_sep
  by (fastforce simp: clean_models_def parseModelsString_def)

lemma parse_format_clean:
  assumes "clean_models ms"
  shows "parseModelsString (formatModelsArray ms) = uniq ms"
proof (cases "ms = []")
  case True
  then show ?thesis by (simp add: parseModelsString_def formatModelsArray_def uniq_def)
next
  case False
  have clean: "\<forall>m\<in>set (uniq ms). m \<noteq> [] \<and> trimmed m \<and> 44 \<notin> set m"
    using assms by (simp add: clean_models_def)
  then have "split_on 44 (join [44] (uniq ms)) = uniq ms"
    using False by (intro split_on_join) auto
  moreover have "map trim (uniq ms) = uniq ms" "filter (\<lambda>m. m \<noteq> []) (uniq ms) = uniq ms"
    using clean by (auto intro!: map_idI simp: trim_id filter_id_conv)
  moreover have "join [44] (uniq ms) \<noteq> []"
    using clean False unfolding join_eq_Nil by (metis list.set_intros(1) uq.dedup_empty_iff)
  ultimately show ?thesis by (simp add: parseModelsString_def formatModelsArray_def)
qed

lemma set_findMissing:
  "m \<in> set (findMissingModelsInMapping mm cur) \<longleftrightarrow>
   trim mm \<noteq> [] \<and> m \<noteq> [] \<and> m \<notin> trim ` set cur \<and>
   (\<exists>parsed. parse_mapping mm = Some parsed \<and> m \<in> trim ` set (props_keys parsed))"
  by (cases "parse_mapping mm") (auto simp: findMissingModelsInMapping_def normalizeModelName_def Let_def)

lemma trimmed_findMissing: "m \<in> set (findMissingModelsInMapping mm cur) \<Longrightarrow> trimmed m"
  by (auto simp: set_findMissing)

lemma extractRedirect_trimmed: "m \<in> set (extractRedirectModels mm) \<Longrightarrow> trimmed m \<and> m \<noteq> []"
proof -
  have "trimmed v" if "string_value x = Some v" for x v
    using that by (cases x) auto
  then show "m \<in> set (extractRedirectModels mm) \<Longrightarrow> trimmed m \<and> m \<noteq> []"
    by (auto simp: extractRedirectModels_def Let_def List.map_filter_def split: option.splits if_splits)
qed

subsection \<open>Properties\<close>

text \<open>a models string survives parsing and formatting: formatting the parsed list and parsing
  it again gives the parsed list with its duplicates removed.\<close>

theorem models_string_round_trip:
  "parseModelsString (formatModelsArray (parseModelsString s)) = uniq (parseModelsString s)"
  by (rule parse_format_clean [OF clean_parseModelsString])

text \<open>adding the models that are reported as missing to the model list repairs it: nothing is
  reported any more, and every reported model is a nonblank trimmed key of the mapping that was
  not in the list.\<close>

theorem missing_models_repaired:
  "findMissingModelsInMapping mm (cur @ findMissingModelsInMapping mm cur) = [] \<and>
   distinct (findMissingModelsInMapping mm cur) \<and>
   (m \<in> set (findMissingModelsInMapping mm cur) \<longleftrightarrow>
      trim mm \<noteq> [] \<and> m \<noteq> [] \<and> m \<notin> trim ` set cur \<and>
      (\<exists>parsed. parse_mapping mm = Some parsed \<and> m \<in> trim ` set (props_keys parsed)))"
proof -
  have "x \<notin> set (findMissingModelsInMapping mm (cur @ findMissingModelsInMapping mm cur))" for x
  proof
    assume x: "x \<in> set (findMissingModelsInMapping mm (cur @ findMissingModelsInMapping mm cur))"
    then have "x \<in> set (findMissingModelsInMapping mm cur)" by (auto simp: set_findMissing)
    then have "x \<in> trim ` set (findMissingModelsInMapping mm cur)"
      using trimmed_findMissing trim_id by (metis imageI)
    with x show False by (auto simp: set_findMissing image_Un)
  qed
  then have "findMissingModelsInMapping mm (cur @ findMissingModelsInMapping mm cur) = []"
    by (metis list.set_intros(1) neq_Nil_conv)
  moreover have "distinct (findMissingModelsInMapping mm cur)"
    by (simp add: findMissingModelsInMapping_def Let_def split: option.splits)
  ultimately show ?thesis using set_findMissing by blast
qed

text \<open>the exposed targets are the redirect targets that the model list contains up to
  white space, and a list from which they are removed exposes none.\<close>

theorem exposed_targets_removed:
  "findExposedTargetModels mm
     (filter (\<lambda>m. normalizeModelName m \<notin> set (findExposedTargetModels mm cur)) cur) = [] \<and>
   set (findExposedTargetModels mm cur) = set (extractRedirectModels mm) \<inter> trim ` set cur"
proof -
  have eq: "set (findExposedTargetModels mm ms) = set (extractRedirectModels mm) \<inter> trim ` set ms" for ms
    using trim_id [OF conjunct1 [OF extractRedirect_trimmed]]
    by (auto simp: findExposedTargetModels_def normalizeModelName_def Let_def)
  have "set (findExposedTargetModels mm
     (filter (\<lambda>m. normalizeModelName m \<notin> set (findExposedTargetModels mm cur)) cur)) = {}"
    unfolding eq by (auto simp: normalizeModelName_def)
  then show ?thesis using eq [of cur] unfolding set_empty by blast
qed

text \<open>validation accepts exactly the blank texts and the JSON objects whose values are all
  strings, and an error message accompanies exactly the rejected texts.\<close>

theorem mapping_validation_exact:
  "(mv_valid (validateModelMappingJson mm) \<longleftrightarrow>
      trim mm = [] \<or> (\<exists>ps. json_parse mm = Some (JObj ps) \<and> list_all (\<lambda>kv. \<exists>s. snd kv = JStr s) ps)) \<and>
   (mv_error (validateModelMappingJson mm) = None \<longleftrightarrow> mv_valid (validateModelMappingJson mm))"
proof -
  have str: "string_value v = None \<longleftrightarrow> (\<forall>s. v \<noteq> JStr s)" for v by (cases v) auto
  have obj: "as_plain_object v = Some ps \<longleftrightarrow> v = JObj ps" for v ps by (cases v) auto
  show ?thesis
    by (cases "json_parse mm"; cases "as_plain_object (the (json_parse mm))")
      (force simp: validateModelMappingJson_def list_ex_iff list_all_iff str obj)+
qed

text \<open>a channel's model configuration counts as unchanged exactly when it is not new, the
  model lists are equal and the mapping texts are equal up to surrounding white space.\<close>

theorem model_config_unchanged:
  "\<not> hasModelConfigChanged cur curMap ini iniMap \<longleftrightarrow>
   \<not> (ini = [] \<and> iniMap = []) \<and> cur = ini \<and> trim curMap = trim iniMap"
proof -
  have "list_ex (\<lambda>i. cur ! i \<noteq> ini ! i) [0..<length cur] \<longleftrightarrow> cur \<noteq> ini" if "length cur = length ini"
    using that unfolding list_ex_iff list_eq_iff_nth_eq by auto
  then show ?thesis by (cases "length cur = length ini") (auto simp: hasModelConfigChanged_def)
qed

text \<open>the four sets of the categorisation are duplicate free; the classification set is the
  disjoint union of the current models and the redirect-only models.\<close>

theorem categorize_partition:
  "let c = categorizeModelsWithRedirect cur red in
   set (classificationSet c) = set (normalizedCurrentModels c) \<union> set (normalizedRedirectModels c) \<and>
   set (normalizedCurrentModels c) \<inter> set (redirectOnlySet c) = {} \<and>
   set (normalizedCurrentModels c) \<union> set (redirectOnlySet c) = set (classificationSet c) \<and>
   length (classificationSet c) = length (normalizedCurrentModels c) + length (redirectOnlySet c)"
proof -
  define c where "c = categorizeModelsWithRedirect cur red"
  have sets: "set (classificationSet c) = set (normalizedCurrentModels c) \<union> set (normalizedRedirectModels c)"
    "set (redirectOnlySet c) = set (normalizedRedirectModels c) - set (normalizedCurrentModels c)"
    and dist: "distinct (classificationSet c)" "distinct (normalizedCurrentModels c)"
      "distinct (redirectOnlySet c)"
    by (auto simp: c_def categorizeModelsWithRedirect_def Let_def)
  have "card (set (classificationSet c)) =
      card (set (normalizedCurrentModels c)) + card (set (redirectOnlySet c))"
    unfolding sets by (metis List.finite_set Un_Diff_cancel card_Un_disjoint Diff_disjoint finite_Diff)
  then have "length (classificationSet c) =
      length (normalizedCurrentModels c) + length (redirectOnlySet c)"
    using dist by (simp add: distinct_card)
  then show ?thesis using sets by (auto simp: c_def [symmetric] Let_def)
qed

end
