(* ===== verification/Sidebar.thy ===== *)
theory Sidebar
  imports JS_Json
begin

text \<open>
  Which sidebar entries a user sees:
  \<^verbatim>\<open>web/default/src/hooks/use-sidebar-config.ts\<close>, with the roles of
  \<^verbatim>\<open>lib/roles.ts\<close> and the navigation items of \<^verbatim>\<open>components/layout/types.ts\<close>.

  Two layers of configuration decide: the administrator's (\<^verbatim>\<open>status.SidebarModulesAdmin\<close>)
  and the user's own (\<^verbatim>\<open>user.sidebar_modules\<close>). Both arrive as JSON text, so both stay
  dynamically typed values here: the source casts the parsed text to its declared type without
  checking it. A \<^verbatim>\<open>null\<close> user layer is \<open>None\<close>. The hooks are functions of the status and the
  user they read; memoisation does not change their result. Lookups in \<^verbatim>\<open>URL_TO_CONFIG_MAP\<close>
  are lookups of own properties.
\<close>

subsection \<open>Roles\<close>

definition ROLE_GUEST :: jsnum where "ROLE_GUEST = Fin 0"
definition ROLE_USER :: jsnum where "ROLE_USER = Fin 1"
definition ROLE_ADMIN :: jsnum where "ROLE_ADMIN = Fin 10"
definition ROLE_SUPER_ADMIN :: jsnum where "ROLE_SUPER_ADMIN = Fin 100"

lemmas role_defs = ROLE_GUEST_def ROLE_USER_def ROLE_ADMIN_def ROLE_SUPER_ADMIN_def

definition ROLE_LABEL_KEYS :: "(jsnum \<times> jsstring) list" where
  "ROLE_LABEL_KEYS =
     [(ROLE_SUPER_ADMIN, js ''Super Admin''), (ROLE_ADMIN, js ''Admin''),
      (ROLE_USER, js ''User''), (ROLE_GUEST, js ''Guest'')]"

definition getRoleLabelKey :: "jsnum option \<Rightarrow> jsstring" where
  "getRoleLabelKey role =
     (case Option.bind role (map_of ROLE_LABEL_KEYS) of
        Some l \<Rightarrow> l
      | None \<Rightarrow> the (map_of ROLE_LABEL_KEYS ROLE_GUEST))"

subsection \<open>Configuration\<close>

definition DEFAULT_SIDEBAR_MODULES :: "jsval props props" where
  "DEFAULT_SIDEBAR_MODULES =
     [(js ''chat'', map (\<lambda>k. (js k, JBool True)) [''enabled'', ''playground'', ''chat'']),
      (js ''console'', map (\<lambda>k. (js k, JBool True))
         [''enabled'', ''detail'', ''token'', ''log'', ''model_monitor'', ''tickets'',
          ''empty_response'', ''midjourney'', ''task'']),
      (js ''personal'', map (\<lambda>k. (js k, JBool True)) [''enabled'', ''topup'', ''personal''])]"

definition default_config :: "jsval props" where
  "default_config = map (\<lambda>(k, s). (k, JObj s)) DEFAULT_SIDEBAR_MODULES"

definition fill_undefined :: "jsval props \<Rightarrow> jsval props \<Rightarrow> jsval props" where
  "fill_undefined defaultSection merged =
     foldl (\<lambda>acc moduleKey.
              if prop_of (JObj acc) moduleKey = JUndef
              then props_set acc moduleKey (prop_of (JObj defaultSection) moduleKey) else acc)
       merged (props_keys defaultSection)"

definition merge_section :: "jsval props \<Rightarrow> jsstring \<times> jsval props \<Rightarrow> jsval props" where
  "merge_section merged entry =
     (let (sectionKey, defaultSection) = entry;
          existingSection = prop_of (JObj merged) sectionKey
      in if \<not> truthy existingSection
         then props_set merged sectionKey (JObj (props_assign [] defaultSection))
         else props_set merged sectionKey
                (JObj (fill_undefined defaultSection
                  (props_assign (props_assign [] defaultSection) (own_props existingSection)))))"

definition mergeWithDefaultSidebarModules :: "jsval \<Rightarrow> jsval props" where
  "mergeWithDefaultSidebarModules config =
     foldl merge_section (props_assign [] (own_props config)) DEFAULT_SIDEBAR_MODULES"

definition URL_TO_CONFIG_MAP :: "(string \<times> string \<times> string) list" where
  "URL_TO_CONFIG_MAP =
     [(''/playground'', ''chat'', ''playground''),
      (''/dashboard'', ''console'', ''detail''),
      (''/dashboard/overview'', ''console'', ''detail''),
      (''/dashboard/models'', ''console'', ''detail''),
      (''/dashboard/users'', ''console'', ''detail''),
      (''/keys'', ''console'', ''token''),
      (''/usage-logs'', ''console'', ''log''),
      (''/usage-logs/common'', ''console'', ''log''),
      (''/model-monitor'', ''console'', ''model_monitor''),
      (''/tickets'', ''console'', ''tickets''),
      (''/empty-response'', ''console'', ''empty_response''),
      (''/usage-logs/drawing'', ''console'', ''midjourney''),
      (''/usage-logs/task'', ''console'', ''task''),
      (''/wallet'', ''personal'', ''topup''),
      (''/profile'', ''personal'', ''personal''),
      (''/channels'', ''admin'', ''channel''),
      (''/models'', ''admin'', ''models''),
      (''/models/metadata'', ''admin'', ''models''),
      (''/models/deployments'', ''admin'', ''models''),
      (''/tickets/manage'', ''admin'', ''ticket_admin''),
      (''/users'', ''admin'', ''user''),
      (''/redemption-codes'', ''admin'', ''redemption''),
      (''/subscriptions'', ''admin'', ''subscription''),
      (''/system-settings'', ''admin'', ''setting''),
      (''/system-settings/site'', ''admin'', ''setting'')]"

definition url_config :: "jsstring \<Rightarrow> (jsstring \<times> jsstring) option" where
  "url_config url =
     map_of (map (\<lambda>(u, s, m). (js u, js s, js m)) URL_TO_CONFIG_MAP) url"

text \<open>\<^verbatim>\<open>delete v.admin\<close>: a type error on null, no effect on the other primitives.\<close>

definition delete_admin :: "jsval \<Rightarrow> jsval option" where
  "delete_admin v =
     (case v of
        JNull \<Rightarrow> None
      | JUndef \<Rightarrow> None
      | JObj ps \<Rightarrow> Some (JObj (props_del ps (js ''admin'')))
      | _ \<Rightarrow> Some v)"

definition parseSidebarConfig :: "jsstring option \<Rightarrow> jsval props" where
  "parseSidebarConfig val =
     (case val of
        None \<Rightarrow> default_config
      | Some s \<Rightarrow>
          if s = [] \<or> trim s = [] then default_config
          else case Option.bind (json_parse s) delete_admin of
                 None \<Rightarrow> default_config
               | Some parsed \<Rightarrow> mergeWithDefaultSidebarModules parsed)"

definition parseUserSidebarConfig :: "jsstring option \<Rightarrow> jsval option" where
  "parseUserSidebarConfig val =
     (case val of
        None \<Rightarrow> None
      | Some s \<Rightarrow>
          if s = [] \<or> trim s = [] then None
          else case json_parse s of
                 Some (JObj ps) \<Rightarrow> Some (JObj ps)
               | Some (JArr xs) \<Rightarrow> Some (JArr xs)
               | _ \<Rightarrow> None)"

subsection \<open>Visibility of one route\<close>

text \<open>The three feature switches of the status, as the hooks read them.\<close>

record flags =
  ticketEnabled :: bool
  ticketAdminManageEnabled :: bool
  emptyResponseEnabled :: bool

definition role_num :: "jsnum option \<Rightarrow> jsnum" where
  "role_num userRole = (case userRole of None \<Rightarrow> Fin 0 | Some r \<Rightarrow> r)"

text \<open>\<^verbatim>\<open>Boolean(section && section.enabled && section[module] === true)\<close>.\<close>

definition section_grants :: "jsval \<Rightarrow> jsstring \<Rightarrow> bool" where
  "section_grants sec m \<longleftrightarrow>
     truthy sec \<and> truthy (prop_of sec (js ''enabled'')) \<and> prop_of sec m = JBool True"

text \<open>What remains visible under the user's section once the administrator allows the module.\<close>

definition user_keeps :: "jsval option \<Rightarrow> jsstring \<Rightarrow> jsstring \<Rightarrow> bool" where
  "user_keeps userConfig sec m =
     (case userConfig of
        None \<Rightarrow> True
      | Some cfg \<Rightarrow>
          let userSection = prop_of cfg sec in
          if \<not> truthy userSection then sec \<noteq> js ''admin''
          else if prop_of userSection (js ''enabled'') = JBool False then False
          else prop_of userSection m \<noteq> JBool False)"

definition isModuleEnabled ::
  "jsstring \<Rightarrow> jsval props \<Rightarrow> jsval option \<Rightarrow> jsnum option \<Rightarrow> flags \<Rightarrow> bool" where
  "isModuleEnabled url adminConfig userConfig userRole fl =
     (if url = js ''/tickets'' \<and> \<not> ticketEnabled fl then False
      else if url = js ''/empty-response'' \<and> \<not> emptyResponseEnabled fl then False
      else if url = js ''/tickets/manage'' \<and>
              (\<not> ticketEnabled fl \<or>
               (userRole = Some ROLE_ADMIN \<and> \<not> ticketAdminManageEnabled fl)) then False
      else case url_config url of
             None \<Rightarrow> True
           | Some (sec, m) \<Rightarrow>
               if sec = js ''admin'' \<and> num_lt (role_num userRole) ROLE_ADMIN then False
               else if sec = js ''admin'' \<and> num_le ROLE_SUPER_ADMIN (role_num userRole) then True
               else if sec = js ''admin'' then
                 section_grants
                   (case userConfig of None \<Rightarrow> JUndef | Some cfg \<Rightarrow> prop_of cfg (js ''admin'')) m
               else if \<not> section_grants (prop_of (JObj adminConfig) sec) m then False
               else user_keeps userConfig sec m)"

subsection \<open>Navigation items and groups\<close>

record 'i nav_base =
  nav_title :: jsstring
  badge :: "jsstring option"
  icon :: "'i option"
  activeUrls :: "jsstring list option"
  configUrls :: "jsstring list option"

datatype 'i nav_item =
    NavLink "'i nav_base" jsstring
  | NavCollapsible "'i nav_base" "('i nav_base \<times> jsstring) list"
  | NavChatPresets "'i nav_base"

record 'i nav_group =
  group_id :: "jsstring option"
  group_title :: jsstring
  group_items :: "'i nav_item list"

definition isNavItemVisible ::
  "'i nav_item \<Rightarrow> jsval props \<Rightarrow> jsval option \<Rightarrow> jsnum option \<Rightarrow> flags \<Rightarrow> bool" where
  "isNavItemVisible item adminConfig userConfig userRole fl =
     (case item of
        NavChatPresets b \<Rightarrow>
          if \<not> section_grants (prop_of (JObj adminConfig) (js ''chat'')) (js ''chat'') then False
          else user_keeps userConfig (js ''chat'') (js ''chat'')
      | NavLink b url \<Rightarrow>
          if url \<noteq> [] then
            list_ex (\<lambda>u. isModuleEnabled u adminConfig userConfig userRole fl)
              (case configUrls b of None \<Rightarrow> [url] | Some us \<Rightarrow> us)
          else True
      | NavCollapsible b subs \<Rightarrow>
          list_ex (\<lambda>s. isModuleEnabled (snd s) adminConfig userConfig userRole fl) subs)"

definition filter_sub_items ::
  "jsval props \<Rightarrow> jsval option \<Rightarrow> jsnum option \<Rightarrow> flags \<Rightarrow> 'i nav_item \<Rightarrow> 'i nav_item" where
  "filter_sub_items adminConfig userConfig userRole fl item =
     (case item of
        NavCollapsible b subs \<Rightarrow>
          NavCollapsible b
            (filter (\<lambda>s. isModuleEnabled (snd s) adminConfig userConfig userRole fl) subs)
      | _ \<Rightarrow> item)"

definition filterNavItems ::
  "'i nav_item list \<Rightarrow> jsval props \<Rightarrow> jsval option \<Rightarrow> jsnum option \<Rightarrow> flags \<Rightarrow> 'i nav_item list" where
  "filterNavItems items adminConfig userConfig userRole fl =
     filter (\<lambda>item. isNavItemVisible item adminConfig userConfig userRole fl)
       (map (filter_sub_items adminConfig userConfig userRole fl) items)"

subsection \<open>The hooks\<close>

record status =
  SidebarModulesAdmin :: "jsstring option"
  ticket_enabled :: jsval
  ticket_admin_manage_enabled :: jsval
  empty_response_enabled :: jsval

record user =
  role :: "jsnum option"
  sidebar_modules :: "jsstring option"
  sidebar_settings :: jsval

definition status_field :: "('s \<Rightarrow> jsval) \<Rightarrow> 's option \<Rightarrow> jsval" where
  "status_field f st = (case st of None \<Rightarrow> JUndef | Some s \<Rightarrow> f s)"

definition status_flags :: "status option \<Rightarrow> flags" where
  "status_flags st =
     \<lparr>ticketEnabled = status_field ticket_enabled st \<noteq> JBool False,
      ticketAdminManageEnabled = status_field ticket_admin_manage_enabled st \<noteq> JBool False,
      emptyResponseEnabled = status_field empty_response_enabled st \<noteq> JBool False\<rparr>"

definition admin_config :: "status option \<Rightarrow> jsval props" where
  "admin_config st = parseSidebarConfig (Option.bind st SidebarModulesAdmin)"

definition user_config :: "user option \<Rightarrow> jsval option" where
  "user_config u =
     (if status_field sidebar_settings u = JBool False then None
      else parseUserSidebarConfig (Option.bind u sidebar_modules))"

definition useSidebarConfig ::
  "status option \<Rightarrow> user option \<Rightarrow> 'i nav_group list \<Rightarrow> 'i nav_group list" where
  "useSidebarConfig st u navGroups =
     filter (\<lambda>g. length (group_items g) > 0)
       (map (\<lambda>g. g\<lparr>group_items :=
               filterNavItems (group_items g) (admin_config st) (user_config u)
                 (Option.bind u role) (status_flags st)\<rparr>) navGroups)"

text \<open>The call passes only two switches; the third parameter takes its default \<^verbatim>\<open>true\<close>.\<close>

definition useIsSidebarModuleVisible :: "status option \<Rightarrow> user option \<Rightarrow> jsstring \<Rightarrow> bool" where
  "useIsSidebarModuleVisible st u url =
     isModuleEnabled url (admin_config st) (user_config u) (Option.bind u role)
       ((status_flags st)\<lparr>emptyResponseEnabled := True\<rparr>)"


subsection \<open>Merging with the defaults\<close>

lemma val_at_fill:
  "val_at (fill_undefined d p) k =
   (if val_at p k = JUndef \<and> k \<in> set (props_keys d) then val_at d k else val_at p k)"
proof -
  have "val_at (foldl (\<lambda>acc m. if prop_of (JObj acc) m = JUndef
            then props_set acc m (prop_of (JObj d) m) else acc) p ks) k =
        (if val_at p k = JUndef \<and> k \<in> set ks then val_at d k else val_at p k)" for ks
    by (induction ks arbitrary: p) (auto simp: prop_of_JObj)
  then show ?thesis by (simp add: fill_undefined_def)
qed

lemma default_keys:
  "map fst DEFAULT_SIDEBAR_MODULES = [js ''chat'', js ''console'', js ''personal'']"
  by (simp add: DEFAULT_SIDEBAR_MODULES_def)

lemma default_section_ok: "(sec, d) \<in> set DEFAULT_SIDEBAR_MODULES \<Longrightarrow> props_ok d"
  by (auto simp: DEFAULT_SIDEBAR_MODULES_def props_ok_def props_keys_def)

lemma default_val:
  "(sec, d) \<in> set DEFAULT_SIDEBAR_MODULES \<Longrightarrow> m \<in> set (props_keys d) \<Longrightarrow> val_at d m = JBool True"
  by (auto simp: DEFAULT_SIDEBAR_MODULES_def props_keys_def val_at_def props_get_def)

text \<open>The section that the merge leaves behind, read at one key.\<close>

lemma merged_section_val:
  assumes "(sec, d) \<in> set DEFAULT_SIDEBAR_MODULES" "props_ok (own_props e)"
  shows "val_at (fill_undefined d (props_assign (props_assign [] d) (own_props e))) m =
    (if val_at (own_props e) m \<noteq> JUndef then val_at (own_props e) m else
     if m \<in> set (props_keys d) then JBool True else JUndef)"
proof -
  have get: "props_get (props_assign (props_assign [] d) (own_props e)) = props_get d ++ props_get (own_props e)"
    using default_section_ok [OF assms(1)] assms(2) map_of_rev_distinct [of d]
    by (simp add: props_get_assign props_assign_ok props_get_assign_Nil)
       (simp add: props_get_def props_ok_def props_keys_def)
  have "val_at (props_assign (props_assign [] d) (own_props e)) m =
      (case props_get (own_props e) m of None \<Rightarrow> val_at d m | Some w \<Rightarrow> w)"
    by (simp add: val_at_def get map_add_def split: option.splits)
  moreover have "m \<notin> set (props_keys d) \<Longrightarrow> val_at d m = JUndef"
    by (simp add: val_at_def props_get_def props_keys_def map_of_eq_None_iff [THEN iffD2])
  moreover have "val_at (own_props e) m = (case props_get (own_props e) m of None \<Rightarrow> JUndef | Some w \<Rightarrow> w)"
    by (simp add: val_at_def split: option.splits)
  ultimately show ?thesis
    using default_val [OF assms(1), of m]
    by (cases "props_get (own_props e) m") (auto simp: val_at_fill)
qed


lemma merge_section_other: "k \<noteq> fst entry \<Longrightarrow> val_at (merge_section p entry) k = val_at p k"
  by (cases entry) (auto simp: merge_section_def Let_def)

lemma merge_section_same:
  assumes "(sec, d) \<in> set DEFAULT_SIDEBAR_MODULES" "props_ok (own_props (val_at p sec))"
  shows "prop_of (val_at (merge_section p (sec, d)) sec) m =
    (let w = val_at (own_props (val_at p sec)) m in
     if truthy (val_at p sec) \<and> w \<noteq> JUndef then w
     else if m \<in> set (props_keys d) then JBool True else JUndef)"
proof (cases "truthy (val_at p sec)")
  case True
  then show ?thesis
    using merged_section_val [OF assms] by (simp add: merge_section_def Let_def prop_of_JObj)
next
  case False
  have "val_at (props_assign [] d) m = val_at d m"
    using map_of_rev_distinct [of d] default_section_ok [OF assms(1)]
    by (simp add: val_at_def props_get_assign_Nil) (simp add: props_get_def props_ok_def props_keys_def)
  moreover have "m \<notin> set (props_keys d) \<Longrightarrow> val_at d m = JUndef"
    by (simp add: val_at_def props_get_def props_keys_def map_of_eq_None_iff [THEN iffD2])
  ultimately show ?thesis
    using False default_val [OF assms(1), of m]
    by (auto simp: merge_section_def Let_def prop_of_JObj)
qed

lemma merge_val:
  assumes "(sec, d) \<in> set DEFAULT_SIDEBAR_MODULES" "props_ok (own_props (val_at p sec))"
  shows "prop_of (val_at (foldl merge_section p DEFAULT_SIDEBAR_MODULES) sec) m =
    (let w = val_at (own_props (val_at p sec)) m in
     if truthy (val_at p sec) \<and> w \<noteq> JUndef then w
     else if m \<in> set (props_keys d) then JBool True else JUndef)"
proof -
  obtain d1 d2 d3 where D: "DEFAULT_SIDEBAR_MODULES =
      [(js ''chat'', d1), (js ''console'', d2), (js ''personal'', d3)]"
    by (simp add: DEFAULT_SIDEBAR_MODULES_def)
  have "val_at (foldl merge_section p DEFAULT_SIDEBAR_MODULES) sec =
      val_at (merge_section p (sec, d)) sec"
    using assms(1) by (auto simp: D merge_section_other merge_section_def Let_def prop_of_JObj)
  then show ?thesis using merge_section_same [OF assms] by simp
qed

lemma merge_outside:
  "k \<notin> fst ` set DEFAULT_SIDEBAR_MODULES \<Longrightarrow>
   val_at (foldl merge_section p DEFAULT_SIDEBAR_MODULES) k = val_at p k"
proof -
  have "k \<notin> fst ` set es \<Longrightarrow> val_at (foldl merge_section p es) k = val_at p k" for es
    by (induction es arbitrary: p) (auto simp: merge_section_other)
  then show "k \<notin> fst ` set DEFAULT_SIDEBAR_MODULES \<Longrightarrow>
   val_at (foldl merge_section p DEFAULT_SIDEBAR_MODULES) k = val_at p k" .
qed


lemma index_keys_ok:
  assumes "length vs = n"
  shows "props_ok (zip (map (\<lambda>i. dec_str (int i)) [0..<n]) vs)"
  using assms by (simp add: props_ok_def props_keys_def distinct_map inj_on_def)

lemma own_props_ok: "json_wf v \<Longrightarrow> props_ok (own_props v)"
  by (cases v) (simp_all add: index_keys_ok)

lemma own_props_named:
  assumes "\<not> list_all is_digit m"
  shows "val_at (own_props v) m = prop_of v m"
proof -
  have "map_of (zip (map (\<lambda>i. dec_str (int i)) [0..<n]) vs) m = None" for n and vs :: "jsval list"
    using assms dec_str_digits [of "int _"]
    by (auto simp: map_of_eq_None_iff list_all_iff in_set_zip set_zip)
  then show ?thesis
    by (cases v) (auto simp: prop_of_def val_at_def props_get_def)
qed

lemma default_keys_named:
  "(sec, d) \<in> set DEFAULT_SIDEBAR_MODULES \<Longrightarrow> m \<in> set (props_keys d) \<Longrightarrow> \<not> list_all is_digit m"
  by (auto simp: DEFAULT_SIDEBAR_MODULES_def props_keys_def js_def is_digit_def)

lemma json_wf_val_at: "json_wf (JObj ps) \<Longrightarrow> val_at ps k \<noteq> JUndef \<Longrightarrow> json_wf (val_at ps k)"
  by (auto simp: val_at_def props_get_def list_all_iff dest!: map_of_SomeD split: option.splits)

lemma val_at_del_copy:
  assumes "props_ok ps"
  shows "val_at (props_assign [] (props_del ps a)) k = (if k = a then JUndef else val_at ps k)"
  using map_of_rev_distinct [of "props_del ps a"] ps.ok_del [OF assms, of a] ps.get_del [OF assms, of a]
  by (simp add: val_at_def props_get_assign_Nil props_ok_def props_keys_def)
     (simp add: props_get_def)

subsection \<open>Filtering\<close>

lemma visible_after_sub_filter:
  "isNavItemVisible (filter_sub_items a u r fl item) a u r fl = isNavItemVisible item a u r fl"
  by (cases item) (force simp: isNavItemVisible_def filter_sub_items_def list_ex_iff)+

lemma sub_filter_idem:
  "filter_sub_items a u r fl (filter_sub_items a u r fl item) = filter_sub_items a u r fl item"
  by (cases item) (auto simp: filter_sub_items_def)

lemma filterNavItems_idem:
  "filterNavItems (filterNavItems items a u r fl) a u r fl = filterNavItems items a u r fl"
  by (induction items)
     (auto simp: filterNavItems_def visible_after_sub_filter sub_filter_idem)

lemma admin_url_guard:
  assumes "url_config url = Some (js ''admin'', m)" "num_lt (role_num r) ROLE_ADMIN"
  shows "\<not> isModuleEnabled url a u r fl"
  using assms by (simp add: isModuleEnabled_def)


subsection \<open>Properties\<close>

text \<open>C14: whatever the two configuration texts and the switches are, a user whose role is below
  administrator is never shown a route of the administration section: neither as a link whose
  configuration routes all belong to it, nor inside a collapsible item.\<close>

theorem admin_routes_need_admin_role:
  assumes "num_lt (role_num (Option.bind u role)) ROLE_ADMIN"
    and "g \<in> set (useSidebarConfig st u gs)" and "item \<in> set (group_items g)"
  shows "(case item of
            NavLink b url \<Rightarrow>
              url = [] \<or>
              (\<exists>x\<in>set (case configUrls b of None \<Rightarrow> [url] | Some us \<Rightarrow> us).
                 \<nexists>m. url_config x = Some (js ''admin'', m))
          | NavCollapsible b subs \<Rightarrow>
              subs \<noteq> [] \<and> (\<forall>s\<in>set subs. \<nexists>m. url_config (snd s) = Some (js ''admin'', m))
          | NavChatPresets b \<Rightarrow> True)"
proof -
  let ?a = "admin_config st" and ?u = "user_config u" and ?r = "Option.bind u role"
  let ?fl = "status_flags st"
  obtain it where it: "item = filter_sub_items ?a ?u ?r ?fl it"
    and vis: "isNavItemVisible item ?a ?u ?r ?fl"
    using assms(2,3) by (auto simp: useSidebarConfig_def filterNavItems_def)
  note guard = admin_url_guard [OF _ assms(1), of _ _ ?a ?u ?fl]
  show ?thesis
  proof (cases item)
    case (NavLink b url)
    have "url = [] \<or> (\<exists>x\<in>set (case configUrls b of None \<Rightarrow> [url] | Some us \<Rightarrow> us).
        isModuleEnabled x ?a ?u ?r ?fl)"
      using vis by (simp add: NavLink isNavItemVisible_def list_ex_iff split: if_splits)
    then show ?thesis using guard unfolding NavLink nav_item.case by blast
  next
    case (NavCollapsible b subs)
    have "\<forall>s\<in>set subs. isModuleEnabled (snd s) ?a ?u ?r ?fl"
      using it NavCollapsible by (cases it) (auto simp: filter_sub_items_def)
    then show ?thesis
      using vis guard NavCollapsible by (auto simp: isNavItemVisible_def list_ex_iff)
  qed simp
qed

definition sample_group :: "unit nav_group" where
  "sample_group =
     \<lparr>group_id = None, group_title = js ''General'',
      group_items =
        [NavLink \<lparr>nav_title = js ''Keys'', badge = None, icon = None, activeUrls = None,
                  configUrls = None\<rparr> (js ''/keys''),
         NavLink \<lparr>nav_title = js ''Users'', badge = None, icon = None, activeUrls = None,
                  configUrls = None\<rparr> (js ''/users'')]\<rparr>"

theorem admin_routes_need_admin_role_witness:
  "num_lt (role_num (Some ROLE_USER)) ROLE_ADMIN \<and>
   (\<exists>g\<in>set (useSidebarConfig None
        (Some \<lparr>role = Some ROLE_USER, sidebar_modules = None, sidebar_settings = JUndef\<rparr>) [sample_group]).
      \<exists>x\<in>set (group_items g). case x of NavLink b url \<Rightarrow>
         url = [] \<or>
         (\<exists>x\<in>set (case configUrls b of None \<Rightarrow> [url] | Some us \<Rightarrow> us).
            \<nexists>m. url_config x = Some (js ''admin'', m)) | _ \<Rightarrow> False)"
proof -
  let ?u = "Some \<lparr>role = Some ROLE_USER, sidebar_modules = None, sidebar_settings = JUndef\<rparr>"
  let ?k = "hd (group_items sample_group)"
  let ?g = "sample_group\<lparr>group_items := [?k]\<rparr>"
  have 1: "num_lt (role_num (Option.bind ?u role)) ROLE_ADMIN" by code_simp
  have 2: "useSidebarConfig None ?u [sample_group] = [?g]" by code_simp
  have 3: "?k = NavLink \<lparr>nav_title = js ''Keys'', badge = None, icon = None, activeUrls = None,
                  configUrls = None\<rparr> (js ''/keys'')"
    by (simp add: sample_group_def)
  show ?thesis
    using admin_routes_need_admin_role [OF 1, of ?g None "[sample_group]" ?k] 1 2 3 by simp
qed

text \<open>filtering is stable and leaves no empty group: applying it to its own result changes
  nothing, and every group that remains has an item.\<close>

theorem sidebar_filter_stable:
  "useSidebarConfig st u (useSidebarConfig st u gs) = useSidebarConfig st u gs \<and>
   list_all (\<lambda>g. group_items g \<noteq> []) (useSidebarConfig st u gs) \<and>
   subseq (map group_title (useSidebarConfig st u gs)) (map group_title gs)"
proof -
  have "useSidebarConfig st u (useSidebarConfig st u gs) = useSidebarConfig st u gs"
    by (induction gs) (auto simp: useSidebarConfig_def filterNavItems_idem)
  moreover have "list_all (\<lambda>g. group_items g \<noteq> []) (useSidebarConfig st u gs)"
    by (simp add: useSidebarConfig_def list_all_iff)
  moreover have "subseq (map group_title (useSidebarConfig st u gs)) (map group_title gs)"
    by (induction gs) (auto simp: useSidebarConfig_def)
  ultimately show ?thesis by blast
qed

text \<open>reading the administrator's JSON object gives a complete configuration: for every
  default section and module the administrator's own value is kept when the section is truthy
  and defines the module, and is \<^verbatim>\<open>true\<close> otherwise; an \<^verbatim>\<open>admin\<close> section never survives.\<close>

theorem sidebar_defaults_completed:
  assumes "trim s \<noteq> []" "json_parse s = Some (JObj ps)"
    and "(sec, d) \<in> set DEFAULT_SIDEBAR_MODULES" "m \<in> set (props_keys d)"
  shows "prop_of (prop_of (JObj (parseSidebarConfig (Some s))) sec) m =
      (let e = prop_of (JObj ps) sec in
       if truthy e \<and> prop_of e m \<noteq> JUndef then prop_of e m else JBool True) \<and>
    prop_of (JObj (parseSidebarConfig (Some s))) (js ''admin'') = JUndef"
proof -
  have wf: "json_wf (JObj ps)" using assms(2) by (rule json_parse_wf)
  then have ok: "props_ok ps" by simp
  define p where "p = props_assign [] (props_del ps (js ''admin''))"
  have parse: "parseSidebarConfig (Some s) = foldl merge_section p DEFAULT_SIDEBAR_MODULES"
    using assms(1,2) by (auto simp: parseSidebarConfig_def delete_admin_def p_def
        mergeWithDefaultSidebarModules_def)
  have keys: "fst ` set DEFAULT_SIDEBAR_MODULES = {js ''chat'', js ''console'', js ''personal''}"
    using arg_cong [OF default_keys, of set] by simp
  moreover have "sec \<in> fst ` set DEFAULT_SIDEBAR_MODULES" using imageI [OF assms(3), of fst] by simp
  ultimately have "sec \<noteq> js ''admin''" by auto
  then have at: "val_at p sec = val_at ps sec" by (simp add: p_def val_at_del_copy [OF ok])
  have "props_ok (own_props (val_at ps sec))"
    using json_wf_val_at [OF wf, of sec] own_props_ok by (cases "val_at ps sec = JUndef") auto
  then have "prop_of (val_at (foldl merge_section p DEFAULT_SIDEBAR_MODULES) sec) m =
      (let e = val_at ps sec in if truthy e \<and> prop_of e m \<noteq> JUndef then prop_of e m else JBool True)"
    using merge_val [OF assms(3), of p m] assms(4) own_props_named [OF default_keys_named [OF assms(3,4)]]
    by (simp add: at Let_def)
  moreover have "val_at (foldl merge_section p DEFAULT_SIDEBAR_MODULES) (js ''admin'') = JUndef"
    by (simp add: merge_outside keys p_def val_at_del_copy [OF ok])
  ultimately show ?thesis by (simp add: parse prop_of_JObj)
qed

theorem sidebar_defaults_completed_witness:
  "prop_of (prop_of (JObj (parseSidebarConfig (Some (js ''{\"chat\":{\"chat\":false}}'')))) (js ''chat''))
     (js ''chat'') = JBool False"
proof -
  let ?s = "js ''{\"chat\":{\"chat\":false}}''"
  have 1: "trim ?s \<noteq> []" by code_simp
  have 2: "json_parse ?s = Some (JObj [(js ''chat'', JObj [(js ''chat'', JBool False)])])" by code_simp
  have 3: "(js ''chat'', map (\<lambda>k. (js k, JBool True)) [''enabled'', ''playground'', ''chat''])
      \<in> set DEFAULT_SIDEBAR_MODULES"
    by (simp add: DEFAULT_SIDEBAR_MODULES_def)
  have 4: "js ''chat'' \<in> set (props_keys (map (\<lambda>k. (js k, JBool True)) [''enabled'', ''playground'', ''chat'']))"
    by (simp add: props_keys_def)
  have 5: "prop_of (JObj [(js ''chat'', JObj [(js ''chat'', JBool False)])]) (js ''chat'') =
      JObj [(js ''chat'', JBool False)]" "prop_of (JObj [(js ''chat'', JBool False)]) (js ''chat'') = JBool False"
    by (simp_all add: prop_of_def props_get_def)
  show ?thesis
    using conjunct1 [OF sidebar_defaults_completed [OF 1 2 3 4]] unfolding 5 Let_def by simp
qed

text \<open>outside the administration section the user's layer only narrows: what it leaves
  visible is visible without it, and exactly the routes whose section or module it sets to
  \<^verbatim>\<open>false\<close> are hidden.\<close>

theorem user_layer_narrows:
  assumes "url_config url = Some (sec, m)" "sec \<noteq> js ''admin''"
  shows "isModuleEnabled url a (Some cfg) r fl \<longleftrightarrow>
    isModuleEnabled url a None r fl \<and>
    (\<not> truthy (prop_of cfg sec) \<or>
     prop_of (prop_of cfg sec) (js ''enabled'') \<noteq> JBool False \<and>
     prop_of (prop_of cfg sec) m \<noteq> JBool False)"
  using assms by (auto simp: isModuleEnabled_def user_keeps_def Let_def)

theorem user_layer_narrows_witness:
  "\<not> isModuleEnabled (js ''/wallet'') default_config
      (Some (JObj [(js ''personal'', JObj [(js ''topup'', JBool False)])])) None
      \<lparr>ticketEnabled = True, ticketAdminManageEnabled = True, emptyResponseEnabled = True\<rparr>"
proof -
  have 1: "url_config (js ''/wallet'') = Some (js ''personal'', js ''topup'')" by code_simp
  show ?thesis by (subst user_layer_narrows [OF 1]) (simp_all add: prop_of_def props_get_def)
qed

text \<open>the route check used outside the sidebar agrees with the sidebar: a link to a route
  other than \<^verbatim>\<open>/empty-response\<close> is shown exactly when the check accepts the route.\<close>

theorem route_check_agrees_with_sidebar:
  assumes "url \<noteq> []" "url \<noteq> js ''/empty-response''" "configUrls b = None"
    and "group_items g = [NavLink b url]"
  shows "useIsSidebarModuleVisible st u url \<longleftrightarrow> useSidebarConfig st u [g] = [g]"
  using assms
  by (cases g) (auto simp: useIsSidebarModuleVisible_def useSidebarConfig_def filterNavItems_def
      filter_sub_items_def isNavItemVisible_def isModuleEnabled_def)

theorem route_check_agrees_with_sidebar_witness:
  "useIsSidebarModuleVisible None None (js ''/wallet'') \<longleftrightarrow>
   useSidebarConfig None None
     [\<lparr>group_id = None, group_title = js ''Personal'', group_items =
        [NavLink \<lparr>nav_title = js ''Wallet'', badge = None, icon = None :: unit option,
                  activeUrls = None, configUrls = None\<rparr> (js ''/wallet'')]\<rparr>] \<noteq> []"
  using route_check_agrees_with_sidebar [of "js ''/wallet''"
      "\<lparr>nav_title = js ''Wallet'', badge = None, icon = None :: unit option,
                  activeUrls = None, configUrls = None\<rparr>"
      "\<lparr>group_id = None, group_title = js ''Personal'', group_items =
        [NavLink \<lparr>nav_title = js ''Wallet'', badge = None, icon = None :: unit option,
                  activeUrls = None, configUrls = None\<rparr> (js ''/wallet'')]\<rparr>" None None]
  by (simp add: useSidebarConfig_def filterNavItems_def filter_sub_items_def)

text \<open>With the empty-response feature switched off the sidebar hides its entry, while the route
  check still accepts the route.\<close>

lemma empty_response_switch_ignored:
  "useIsSidebarModuleVisible
     (Some \<lparr>SidebarModulesAdmin = None, ticket_enabled = JUndef, ticket_admin_manage_enabled = JUndef,
            empty_response_enabled = JBool False\<rparr>) None (js ''/empty-response'') \<and>
   \<not> isModuleEnabled (js ''/empty-response'') (admin_config None) (user_config None) None
       \<lparr>ticketEnabled = True, ticketAdminManageEnabled = True, emptyResponseEnabled = False\<rparr>"
  by code_simp

text \<open>In the administration section the user's layer grants instead of narrowing: without one an
  administrator sees none of its routes.\<close>

lemma admin_section_needs_user_layer:
  assumes "url_config url = Some (js ''admin'', m)"
  shows "\<not> isModuleEnabled url a None (Some ROLE_ADMIN) fl"
proof -
  have "\<not> num_le ROLE_SUPER_ADMIN ROLE_ADMIN" by code_simp
  then show ?thesis using assms by (simp add: isModuleEnabled_def role_num_def section_grants_def)
qed

end
