(* ===== verification/PlaygroundMessages.thy ===== *)
theory PlaygroundMessages
  imports JS_Json
begin

text \<open>
  The messages of the playground chat: \<^verbatim>\<open>web/default/src/features/playground/types.ts\<close>,
  \<^verbatim>\<open>constants.ts\<close> and \<^verbatim>\<open>lib/message-utils.ts\<close>.

  A message is a record; an optional property is an option with \<open>None\<close> for undefined.
  \<^verbatim>\<open>errorCode\<close> keeps the dynamic value that the server sent (\<open>JUndef\<close> when the property is
  absent). Chunks and error messages that are no texts are converted by \<open>to_str\<close>; objects that do
  not convert are left out. The random identifiers of \<^verbatim>\<open>nanoid()\<close> are arguments of the functions that draw them.

  \<open>parseThinkTags\<close> is the index loop of the source with its termination proof. Its meaning is
  given by \<open>think_render\<close>: a text is a visible prefix followed by closed blocks, each with the
  visible text after it, and possibly one unclosed block at the end.
\<close>

datatype message_role = RoleUser | RoleAssistant | RoleSystem

datatype message_status = Loading | Streaming | Complete | Errored

record message_version =
  ver_id :: jsstring
  ver_content :: jsstring
  ver_images :: "jsstring list option"

record reasoning =
  r_content :: jsstring
  r_duration :: jsnum

record message =
  msg_key :: jsstring
  msg_from :: message_role
  versions :: "message_version list"
  sources :: "(jsstring \<times> jsstring) list option"
  msg_reasoning :: "reasoning option"
  isReasoningStreaming :: "bool option"
  isReasoningComplete :: "bool option"
  isContentComplete :: "bool option"
  msg_status :: "message_status option"
  errorCode :: jsval

datatype content_part = TextPart jsstring | ImagePart jsstring

datatype api_content = PlainContent jsstring | PartsContent "content_part list"

record chat_completion_message =
  ccm_role :: message_role
  ccm_content :: api_content

subsection \<open>Constants\<close>

definition API_REQUEST_ERROR :: jsstring where
  "API_REQUEST_ERROR = js ''Request error occurred''"
definition NETWORK_ERROR :: jsstring where
  "NETWORK_ERROR = js ''Network connection failed or server not responding''"
definition PARSE_ERROR :: jsstring where
  "PARSE_ERROR = js ''Error parsing response data''"
definition STREAM_START_ERROR :: jsstring where
  "STREAM_START_ERROR = js ''Error establishing connection''"
definition CONNECTION_CLOSED :: jsstring where
  "CONNECTION_CLOSED = js ''Connection closed''"
definition INTERRUPTED :: jsstring where
  "INTERRUPTED = js ''Generation was interrupted''"

definition open_tag :: jsstring where "open_tag = js ''<think>''"
definition close_tag :: jsstring where "close_tag = js ''</think>''"

subsection \<open>Creating messages\<close>

definition createMessageVersion :: "jsstring \<Rightarrow> jsstring \<Rightarrow> jsstring list option \<Rightarrow> message_version" where
  "createMessageVersion nid content images =
     \<lparr>ver_id = nid, ver_content = content,
      ver_images = (case images of Some is \<Rightarrow> if length is > 0 then Some is else None | None \<Rightarrow> None)\<rparr>"

definition getCurrentVersion :: "message \<Rightarrow> message_version" where
  "getCurrentVersion m =
     (case versions m of
        v # _ \<Rightarrow> v
      | [] \<Rightarrow> \<lparr>ver_id = js ''default'', ver_content = [], ver_images = None\<rparr>)"

definition updateCurrentVersionContent :: "message \<Rightarrow> jsstring \<Rightarrow> message" where
  "updateCurrentVersionContent m content =
     m\<lparr>versions := [(getCurrentVersion m)\<lparr>ver_content := content\<rparr>]\<rparr>"

definition createUserMessage ::
  "jsstring \<Rightarrow> jsstring \<Rightarrow> jsstring \<Rightarrow> jsstring list option \<Rightarrow> message" where
  "createUserMessage kid vid content images =
     \<lparr>msg_key = kid, msg_from = RoleUser, versions = [createMessageVersion vid content images],
      sources = None, msg_reasoning = None, isReasoningStreaming = None,
      isReasoningComplete = None, isContentComplete = None, msg_status = None,
      errorCode = JUndef\<rparr>"

definition createLoadingAssistantMessage :: "jsstring \<Rightarrow> jsstring \<Rightarrow> message" where
  "createLoadingAssistantMessage kid vid =
     \<lparr>msg_key = kid, msg_from = RoleAssistant, versions = [createMessageVersion vid [] None],
      sources = None, msg_reasoning = None, isReasoningStreaming = Some False,
      isReasoningComplete = Some False, isContentComplete = Some False,
      msg_status = Some Loading, errorCode = JUndef\<rparr>"

subsection \<open>Messages for the API\<close>

definition buildMessageContent :: "jsstring \<Rightarrow> jsstring list \<Rightarrow> api_content" where
  "buildMessageContent text imageUrls =
     (let validImages = filter (\<lambda>url. trim url \<noteq> []) imageUrls in
      if length validImages = 0 then PlainContent text
      else PartsContent (TextPart text # map (\<lambda>url. ImagePart (trim url)) validImages))"

definition getTextContent :: "api_content \<Rightarrow> jsstring" where
  "getTextContent content =
     (case content of
        PlainContent s \<Rightarrow> s
      | PartsContent parts \<Rightarrow>
          (case find (\<lambda>p. case p of TextPart _ \<Rightarrow> True | ImagePart _ \<Rightarrow> False) parts of
             Some (TextPart t) \<Rightarrow> t
           | _ \<Rightarrow> []))"

definition formatMessageForAPI :: "message \<Rightarrow> chat_completion_message" where
  "formatMessageForAPI m =
     (let currentVersion = getCurrentVersion m;
          images = (case ver_images currentVersion of
                      Some is \<Rightarrow> filter (\<lambda>url. url \<noteq> [] \<and> trim url \<noteq> []) is | None \<Rightarrow> [])
      in if length images > 0 then
           \<lparr>ccm_role = msg_from m,
            ccm_content = PartsContent (TextPart (ver_content currentVersion) #
              map (\<lambda>url. ImagePart (trim url)) images)\<rparr>
         else \<lparr>ccm_role = msg_from m, ccm_content = PlainContent (ver_content currentVersion)\<rparr>)"

definition isValidMessage :: "message \<Rightarrow> bool" where
  "isValidMessage m =
     (case versions m of
        [] \<Rightarrow> False
      | v # _ \<Rightarrow> if msg_from m = RoleAssistant \<and> trim (ver_content v) = [] then False else True)"

subsection \<open>Thinking blocks\<close>

record think_result =
  visibleContent :: jsstring
  think_reasoning :: jsstring
  hasUnclosedTag :: bool

lemma index_of_bounds: "index_of s n p = Some i \<Longrightarrow> p \<le> i \<and> i + length n \<le> max p (length s)"
  by (auto simp: index_of_def dest!: find_sub_Some)

text \<open>The \<^verbatim>\<open>while (true)\<close> loop: the collected visible and reasoning parts and the unclosed flag.\<close>

function think_loop ::
  "jsstring \<Rightarrow> nat \<Rightarrow> jsstring list \<Rightarrow> jsstring list \<Rightarrow> jsstring list \<times> jsstring list \<times> bool" where
  "think_loop content currentPos visibleParts reasoningParts =
     (case index_of content open_tag currentPos of
        None \<Rightarrow>
          (if currentPos < length content
           then visibleParts @ [substring content currentPos (length content)] else visibleParts,
           reasoningParts, False)
      | Some openPos \<Rightarrow>
          let visibleParts' =
            (if openPos > currentPos
             then visibleParts @ [substring content currentPos openPos] else visibleParts)
          in case index_of content close_tag (openPos + 7) of
               None \<Rightarrow>
                 (visibleParts',
                  reasoningParts @ [substring content (openPos + 7) (length content)], True)
             | Some closePos \<Rightarrow>
                 think_loop content (closePos + 8) visibleParts'
                   (reasoningParts @ [substring content (openPos + 7) closePos]))"
  by pat_completeness auto
termination
proof (relation "measure (\<lambda>(content, currentPos, _). length content - currentPos)")
  fix content :: jsstring and currentPos openPos closePos
  fix visibleParts reasoningParts vp :: "jsstring list"
  assume op: "index_of content open_tag currentPos = Some openPos"
    and cl: "index_of content close_tag (openPos + 7) = Some closePos"
  have "currentPos \<le> openPos" "openPos + 7 \<le> closePos" "openPos + 7 \<le> max currentPos (length content)"
    "closePos + 8 \<le> max (openPos + 7) (length content)"
    using index_of_bounds [OF op] index_of_bounds [OF cl] by (auto simp: open_tag_def close_tag_def)
  then show "((content, closePos + 8, vp,
       reasoningParts @ [substring content (openPos + 7) closePos]),
      content, currentPos, visibleParts, reasoningParts)
      \<in> measure (\<lambda>(content, currentPos, _). length content - currentPos)"
    by auto
qed auto

declare think_loop.simps [simp del]

definition parseThinkTags :: "jsstring \<Rightarrow> think_result" where
  "parseThinkTags content =
     (if \<not> str_includes content open_tag
      then \<lparr>visibleContent = content, think_reasoning = [], hasUnclosedTag = False\<rparr>
      else case think_loop content 0 [] [] of
             (visibleParts, reasoningParts, hasUnclosed) \<Rightarrow>
               \<lparr>visibleContent = trim (join [] visibleParts),
                think_reasoning = trim (join [10, 10] reasoningParts),
                hasUnclosedTag = hasUnclosed\<rparr>)"

subsection \<open>Updating the last assistant message\<close>

definition updateLastAssistantMessage :: "message list \<Rightarrow> (message \<Rightarrow> message) \<Rightarrow> message list" where
  "updateLastAssistantMessage messages updater =
     (if length messages = 0 then messages
      else let l = messages ! (length messages - 1) in
           if msg_from l \<noteq> RoleAssistant then messages
           else messages[length messages - 1 := updater l])"

definition updateAssistantMessageWithError :: "message list \<Rightarrow> jsval \<Rightarrow> jsval \<Rightarrow> message list" where
  "updateAssistantMessageWithError messages errorMessage code =
     updateLastAssistantMessage messages (\<lambda>m.
       (updateCurrentVersionContent m (API_REQUEST_ERROR @ js '': '' @ to_str errorMessage))
         \<lparr>msg_status := Some Errored, isReasoningStreaming := Some False,
          errorCode := (if truthy code then code else JNull)\<rparr>)"

definition processStreamingContent :: "message \<Rightarrow> jsval \<Rightarrow> message" where
  "processStreamingContent m contentChunk =
     (let currentVersion = getCurrentVersion m;
          fullContent = (if truthy contentChunk then ver_content currentVersion @ to_str contentChunk
                         else ver_content currentVersion);
          p = parseThinkTags fullContent;
          finalReasoning = (if think_reasoning p \<noteq> []
                            then Some \<lparr>r_content = think_reasoning p, r_duration = Fin 0\<rparr>
                            else msg_reasoning m)
      in (updateCurrentVersionContent m fullContent)
           \<lparr>msg_reasoning := finalReasoning, isReasoningStreaming := Some (hasUnclosedTag p)\<rparr>)"

definition finalizeMessage :: "message \<Rightarrow> jsstring option \<Rightarrow> message" where
  "finalizeMessage m apiReasoningContent =
     (let p = parseThinkTags (ver_content (getCurrentVersion m));
          existing = (case msg_reasoning m of Some r \<Rightarrow> r_content r | None \<Rightarrow> []);
          finalReasoning =
            (if apiReasoningContent \<noteq> None \<and> apiReasoningContent \<noteq> Some [] then the apiReasoningContent
             else if existing \<noteq> [] then existing else think_reasoning p);
          duration = (case msg_reasoning m of
                        Some r \<Rightarrow> if num_truthy (r_duration r) then r_duration r else Fin 0
                      | None \<Rightarrow> Fin 0)
      in (updateCurrentVersionContent m (visibleContent p))
           \<lparr>msg_reasoning := (if finalReasoning \<noteq> []
                              then Some \<lparr>r_content = finalReasoning, r_duration = duration\<rparr> else None),
            isReasoningStreaming := Some False\<rparr>)"

definition stuck :: "message \<Rightarrow> bool" where
  "stuck m \<longleftrightarrow> msg_from m = RoleAssistant \<and>
     (msg_status m = Some Loading \<or> msg_status m = Some Streaming)"

text \<open>The scan from the end for the last stuck message.\<close>

fun last_stuck_below :: "message list \<Rightarrow> nat \<Rightarrow> nat option" where
  "last_stuck_below messages 0 = None"
| "last_stuck_below messages (Suc i) =
     (if stuck (messages ! i) then Some i else last_stuck_below messages i)"

definition settle :: "message \<Rightarrow> message" where
  "settle m =
     (let finalized = finalizeMessage m None;
          hasContent = (case versions finalized of v # _ \<Rightarrow> trim (ver_content v) \<noteq> [] | [] \<Rightarrow> False);
          hasReasoning = (case msg_reasoning finalized of Some r \<Rightarrow> trim (r_content r) \<noteq> [] | None \<Rightarrow> False)
      in if hasContent \<or> hasReasoning
         then finalized\<lparr>msg_status := Some Complete, isReasoningStreaming := Some False\<rparr>
         else (updateCurrentVersionContent finalized (API_REQUEST_ERROR @ js '': '' @ INTERRUPTED))
                \<lparr>msg_status := Some Errored, isReasoningStreaming := Some False\<rparr>)"

definition sanitizeMessagesOnLoad :: "message list \<Rightarrow> message list" where
  "sanitizeMessagesOnLoad messages =
     (case last_stuck_below messages (length messages) of
        None \<Rightarrow> messages
      | Some targetIndex \<Rightarrow> messages[targetIndex := settle (messages ! targetIndex)])"


subsection \<open>The meaning of thinking blocks\<close>

text \<open>A needle whose first unit does not occur again cannot overlap itself, so the first place
  where it occurs in \<open>v @ n @ r\<close> is after \<open>v\<close>.\<close>

lemma find_sub_after:
  assumes n: "n = c # n'" "c \<notin> set n'" and v: "\<not> sublist n v"
  shows "find_sub n (v @ n @ r) = Some (length v)"
proof -
  let ?s = "v @ n @ r"
  obtain i where i: "find_sub n ?s = Some i"
    using find_sub_None [of n ?s] by (cases "find_sub n ?s") auto
  have "\<not> length v < i" using find_sub_first [OF i, of "length v"] by auto
  moreover have "\<not> i < length v"
  proof
    assume lt: "i < length v"
    have "?s = take i ?s @ n @ drop (i + length n) ?s" using find_sub_Some [OF i] by blast
    moreover have "take i ?s = take i v" using lt by simp
    moreover have "?s = take i v @ drop i v @ n @ r" by simp
    ultimately obtain q where q: "drop i v @ n @ r = n @ q" by (metis same_append_eq)
    obtain k where "drop i v = n @ k \<and> k @ n @ r = q \<or> drop i v @ k = n \<and> n @ r = k @ q"
      using iffD1 [OF append_eq_append_conv2 q] by blast
    then consider "drop i v = n @ k" | "drop i v @ k = n" "k @ q = n @ r" by metis
    then show False
    proof cases
      case 1
      then have "v = take i v @ n @ k" by (metis append_take_drop_id)
      then show False using v sublist_appendI by metis
    next
      case 2
      show False
      proof (cases k)
        case Nil
        then have "drop i v = n" using 2 by simp
        then show False using v by (metis append_take_drop_id append_Nil2 sublist_appendI)
      next
        case (Cons a k')
        then have "a = c" using 2(2) n(1) by simp
        moreover have "a \<in> set n'"
          using 2(1) n(1) lt Cons by (cases "drop i v") auto
        ultimately show False using n(2) by simp
      qed
    qed
  qed
  ultimately have "i = length v" by simp
  with i show ?thesis by simp
qed

lemma open_tag_shape: "open_tag = 60 # js ''think>''" "60 \<notin> set (js ''think>'')" "length open_tag = 7"
  by (simp_all add: open_tag_def js_def)

lemma close_tag_shape: "close_tag = 60 # js ''/think>''" "60 \<notin> set (js ''/think>'')" "length close_tag = 8"
  by (simp_all add: close_tag_def js_def)

definition think_render :: "jsstring \<Rightarrow> (jsstring \<times> jsstring) list \<Rightarrow> jsstring option \<Rightarrow> jsstring" where
  "think_render v blocks tail =
     v @ concat (map (\<lambda>(r, w). open_tag @ r @ close_tag @ w) blocks) @
     (case tail of None \<Rightarrow> [] | Some r \<Rightarrow> open_tag @ r)"

definition think_shape :: "jsstring \<Rightarrow> (jsstring \<times> jsstring) list \<Rightarrow> jsstring option \<Rightarrow> bool" where
  "think_shape v blocks tail \<longleftrightarrow>
     \<not> sublist open_tag v \<and>
     list_all (\<lambda>(r, w). \<not> sublist close_tag r \<and> \<not> sublist open_tag w) blocks \<and>
     (case tail of None \<Rightarrow> True | Some r \<Rightarrow> \<not> sublist close_tag r)"

lemma think_render_Nil: "think_render v [] None = v" "think_render v [] (Some r) = v @ open_tag @ r"
  by (simp_all add: think_render_def)

lemma think_render_Cons:
  "think_render v ((r, w) # blocks) tail = v @ open_tag @ r @ close_tag @ think_render w blocks tail"
  by (simp add: think_render_def)

lemma index_of_append: "index_of (p @ s) n (length p) = map_option (\<lambda>i. length p + i) (find_sub n s)"
  by (simp add: index_of_def)

lemma join_concat: "join [] xs = concat xs"
proof (induction xs)
  case (Cons x xs)
  then show ?case by (cases xs) auto
qed simp

lemma think_loop_render:
  assumes "think_shape v blocks tail"
  shows "\<exists>vis'. think_loop (p @ think_render v blocks tail) (length p) vis rea =
      (vis', rea @ map fst blocks @ (case tail of None \<Rightarrow> [] | Some r \<Rightarrow> [r]), tail \<noteq> None) \<and>
    concat vis' = concat vis @ v @ concat (map snd blocks)"
  using assms
proof (induction blocks arbitrary: p v vis rea)
  case Nil
  show ?case
  proof (cases tail)
    case None
    with Nil have "find_sub open_tag v = None" by (simp add: find_sub_None think_shape_def)
    then show ?thesis
      by (simp add: None think_render_Nil think_loop.simps [of _ "length p"] index_of_append substring_def)
  next
    case (Some r)
    let ?s = "p @ v @ open_tag @ r"
    have "find_sub open_tag (v @ open_tag @ r) = Some (length v)"
      using Nil by (intro find_sub_after [OF open_tag_shape(1,2)]) (simp add: think_shape_def)
    moreover have "find_sub close_tag r = None" using Nil Some by (simp add: find_sub_None think_shape_def)
    ultimately have pos: "index_of ?s open_tag (length p) = Some (length p + length v)"
      "index_of ?s close_tag (length p + length v + 7) = None"
      using index_of_append [of p "v @ open_tag @ r" open_tag]
        index_of_append [of "p @ v @ open_tag" r close_tag] open_tag_shape(3)
      by (simp_all add: add.assoc)
    have "drop (length p + length v + 7) ?s = r" "take (length v) (drop (length p) ?s) = v"
      "length ?s - (length p + length v + 7) = length r"
      using open_tag_shape(3) by simp_all
    then have "think_loop ?s (length p) vis rea = (if v \<noteq> [] then vis @ [v] else vis, rea @ [r], True)"
      by (subst think_loop.simps) (simp add: pos substring_def)
    then show ?thesis by (simp add: Some think_render_Nil)
  qed
next
  case (Cons b blocks)
  obtain r w where b: "b = (r, w)" by (cases b)
  let ?rest = "think_render w blocks tail"
  have shape: "\<not> sublist open_tag v" "\<not> sublist close_tag r" "think_shape w blocks tail"
    using Cons.prems by (auto simp: think_shape_def b)
  have o: "find_sub open_tag (v @ open_tag @ r @ close_tag @ ?rest) = Some (length v)"
    using shape(1) by (rule find_sub_after [OF open_tag_shape(1,2)])
  have c: "find_sub close_tag (r @ close_tag @ ?rest) = Some (length r)"
    using shape(2) by (rule find_sub_after [OF close_tag_shape(1,2)])
  let ?s = "p @ v @ open_tag @ r @ close_tag @ ?rest"
  let ?vis = "if v \<noteq> [] then vis @ [v] else vis"
  have "think_loop ?s (length p) vis rea =
      think_loop ?s (length (p @ v @ open_tag @ r @ close_tag)) ?vis (rea @ [r])"
    using index_of_append [of p "v @ open_tag @ r @ close_tag @ ?rest" open_tag] o
      index_of_append [of "p @ v @ open_tag" "r @ close_tag @ ?rest" close_tag] c
      open_tag_shape(3) close_tag_shape(3)
    by (simp add: think_loop.simps [of ?s "length p"] substring_def ac_simps)
  moreover obtain vis' where
    "think_loop ((p @ v @ open_tag @ r @ close_tag) @ ?rest) (length (p @ v @ open_tag @ r @ close_tag))
       ?vis (rea @ [r]) =
      (vis', (rea @ [r]) @ map fst blocks @ (case tail of None \<Rightarrow> [] | Some r \<Rightarrow> [r]), tail \<noteq> None)"
    "concat vis' = concat ?vis @ w @ concat (map snd blocks)"
    using Cons.IH [OF shape(3)] by blast
  ultimately show ?case by (simp add: b think_render_Cons split: if_splits)
qed


lemma think_render_includes:
  assumes "blocks \<noteq> [] \<or> tail \<noteq> None"
  shows "str_includes (think_render v blocks tail) open_tag"
proof (cases blocks)
  case Nil
  with assms obtain r where "tail = Some r" by auto
  then show ?thesis by (simp add: Nil think_render_Nil str_includes_iff)
next
  case (Cons b bs)
  then show ?thesis by (cases b) (simp add: think_render_Cons str_includes_iff)
qed

lemma parse_think_render:
  assumes "think_shape v blocks tail"
  shows "parseThinkTags (think_render v blocks tail) =
    (if blocks = [] \<and> tail = None
     then \<lparr>visibleContent = v, think_reasoning = [], hasUnclosedTag = False\<rparr>
     else \<lparr>visibleContent = trim (v @ concat (map snd blocks)),
           think_reasoning =
             trim (join [10, 10] (map fst blocks @ (case tail of None \<Rightarrow> [] | Some r \<Rightarrow> [r]))),
           hasUnclosedTag = tail \<noteq> None\<rparr>)"
proof (cases "blocks = [] \<and> tail = None")
  case True
  then show ?thesis
    using assms by (simp add: think_render_Nil parseThinkTags_def str_includes_iff think_shape_def)
next
  case False
  obtain vis' where "think_loop (think_render v blocks tail) 0 [] [] =
      (vis', map fst blocks @ (case tail of None \<Rightarrow> [] | Some r \<Rightarrow> [r]), tail \<noteq> None)"
    "concat vis' = v @ concat (map snd blocks)"
    using think_loop_render [OF assms, of "[]" "[]" "[]"] by auto
  then show ?thesis
    using False think_render_includes [of blocks tail v] by (auto simp: parseThinkTags_def join_concat)
qed

lemma sublist_take: "\<not> sublist n (take i s)" if "find_sub n s = Some i" "n \<noteq> []"
proof
  assume "sublist n (take i s)"
  then obtain a b where ab: "take i s = a @ n @ b" by (auto simp: sublist_def)
  have "length (a @ n @ b) \<le> i" unfolding ab [symmetric] by simp
  then have "length a < i" using that(2) by (cases n) auto
  moreover have "prefix n (drop (length a) s)"
    using arg_cong [OF ab, of "\<lambda>x. drop (length a) (x @ drop i s)"] by simp
  ultimately show False using find_sub_first [OF that(1)] by blast
qed

lemma find_sub_split:
  assumes "find_sub n s = Some i" "n \<noteq> []"
  obtains v r where "s = v @ n @ r" "\<not> sublist n v" "length r < length s"
proof -
  have "s = take i s @ n @ drop (i + length n) s" using find_sub_Some [OF assms(1)] by blast
  moreover have "length (drop (i + length n) s) < length s"
    using find_sub_Some [OF assms(1)] assms(2) by (cases n) auto
  ultimately show thesis using that sublist_take [OF assms] by blast
qed

lemma think_decomposes: "\<exists>v blocks tail. s = think_render v blocks tail \<and> think_shape v blocks tail"
proof (induction "length s" arbitrary: s rule: less_induct)
  case less
  show ?case
  proof (cases "find_sub open_tag s")
    case None
    then have "s = think_render s [] None \<and> think_shape s [] None"
      by (simp add: think_render_Nil think_shape_def find_sub_None)
    then show ?thesis by blast
  next
    case (Some i)
    obtain v r where v: "s = v @ open_tag @ r" "\<not> sublist open_tag v" "length r < length s"
      using find_sub_split [OF Some] open_tag_shape(1) by (metis list.discI)
    show ?thesis
    proof (cases "find_sub close_tag r")
      case None
      then have "s = think_render v [] (Some r) \<and> think_shape v [] (Some r)"
        using v by (simp add: think_render_Nil think_shape_def find_sub_None)
      then show ?thesis by blast
    next
      case (Some j)
      obtain x y where x: "r = x @ close_tag @ y" "\<not> sublist close_tag x" "length y < length r"
        using find_sub_split [OF Some] close_tag_shape(1) by (metis list.discI)
      obtain w blocks tail where "y = think_render w blocks tail" "think_shape w blocks tail"
        using less [of y] v(3) x(3) by auto
      then have "s = think_render v ((x, w) # blocks) tail \<and> think_shape v ((x, w) # blocks) tail"
        using v x by (simp add: think_render_Cons) (simp add: think_shape_def)
      then show ?thesis by blast
    qed
  qed
qed

subsection \<open>Streaming and settling\<close>

lemma current_update [simp]:
  "getCurrentVersion (updateCurrentVersionContent m c) = (getCurrentVersion m)\<lparr>ver_content := c\<rparr>"
  by (simp add: getCurrentVersion_def updateCurrentVersionContent_def)

lemma current_irrelevant [simp]:
  "getCurrentVersion (m\<lparr>msg_reasoning := r\<rparr>) = getCurrentVersion m"
  "getCurrentVersion (m\<lparr>isReasoningStreaming := b\<rparr>) = getCurrentVersion m"
  "getCurrentVersion (m\<lparr>msg_status := s\<rparr>) = getCurrentVersion m"
  "getCurrentVersion (m\<lparr>errorCode := e\<rparr>) = getCurrentVersion m"
  by (simp_all add: getCurrentVersion_def)

definition chunk_text :: "jsval \<Rightarrow> jsstring" where
  "chunk_text c = (if truthy c then to_str c else [])"

definition raw_content :: "message \<Rightarrow> jsstring" where
  "raw_content m = ver_content (getCurrentVersion m)"

lemma raw_process [simp]: "raw_content (processStreamingContent m c) = raw_content m @ chunk_text c"
  by (simp add: processStreamingContent_def Let_def raw_content_def chunk_text_def)

lemma raw_stream:
  "raw_content (foldl processStreamingContent m cs) = raw_content m @ concat (map chunk_text cs)"
  by (induction cs arbitrary: m) auto

lemma process_fields:
  "isReasoningStreaming (processStreamingContent m c) =
     Some (hasUnclosedTag (parseThinkTags (raw_content m @ chunk_text c)))"
  "think_reasoning (parseThinkTags (raw_content m @ chunk_text c)) \<noteq> [] \<Longrightarrow>
   msg_reasoning (processStreamingContent m c) =
     Some \<lparr>r_content = think_reasoning (parseThinkTags (raw_content m @ chunk_text c)), r_duration = Fin 0\<rparr>"
  by (auto simp: processStreamingContent_def Let_def raw_content_def chunk_text_def)

lemma raw_finalize [simp]: "raw_content (finalizeMessage m a) = visibleContent (parseThinkTags (raw_content m))"
  by (simp add: finalizeMessage_def Let_def raw_content_def)

lemma settle_not_stuck: "\<not> stuck (settle m)"
  by (auto simp: settle_def Let_def stuck_def)

lemma key_updates [simp]:
  "msg_key (updateCurrentVersionContent m c) = msg_key m"
  "msg_key (finalizeMessage m a) = msg_key m" "msg_key (settle m) = msg_key m"
  "msg_key (processStreamingContent m ch) = msg_key m"
  by (simp_all add: updateCurrentVersionContent_def finalizeMessage_def settle_def Let_def
      processStreamingContent_def)

lemma from_updates [simp]:
  "msg_from (updateCurrentVersionContent m c) = msg_from m"
  "msg_from (finalizeMessage m a) = msg_from m" "msg_from (settle m) = msg_from m"
  "msg_from (processStreamingContent m ch) = msg_from m"
  by (simp_all add: updateCurrentVersionContent_def finalizeMessage_def settle_def Let_def
      processStreamingContent_def)

lemma last_stuck_Some:
  "last_stuck_below ms n = Some i \<Longrightarrow> i < n \<and> stuck (ms ! i) \<and> (\<forall>j. i < j \<and> j < n \<longrightarrow> \<not> stuck (ms ! j))"
  by (induction n) (auto split: if_splits simp: less_Suc_eq)

lemma last_stuck_None: "last_stuck_below ms n = None \<longleftrightarrow> (\<forall>j<n. \<not> stuck (ms ! j))"
  by (induction n) (auto simp: less_Suc_eq)

lemma settle_shows: "trim (raw_content (settle m)) \<noteq> [] \<or>
    (\<exists>r. msg_reasoning (settle m) = Some r \<and> trim (r_content r) \<noteq> [])"
proof -
  have one: "\<exists>v. versions (finalizeMessage m None) = [v]"
    by (simp add: finalizeMessage_def Let_def updateCurrentVersionContent_def)
  then obtain v where v: "versions (finalizeMessage m None) = [v]" by blast
  have "trim (API_REQUEST_ERROR @ js '': '' @ INTERRUPTED) \<noteq> []" by code_simp
  then show ?thesis
    using v by (auto simp: settle_def Let_def raw_content_def getCurrentVersion_def
        updateCurrentVersionContent_def split: option.splits)
qed


subsection \<open>Properties\<close>

text \<open>C15: every text has one reading as visible text and thinking blocks: a prefix without an
  opening tag, closed blocks whose reasoning has no closing tag, and at most one unclosed block
  at the end; the parser returns the visible parts and the reasoning of that reading.\<close>

theorem think_tags_meaning:
  "\<exists>v blocks tail.
     content = think_render v blocks tail \<and> think_shape v blocks tail \<and>
     hasUnclosedTag (parseThinkTags content) = (tail \<noteq> None) \<and>
     visibleContent (parseThinkTags content) =
       (if blocks = [] \<and> tail = None then content else trim (v @ concat (map snd blocks))) \<and>
     think_reasoning (parseThinkTags content) =
       trim (join [10, 10] (map fst blocks @ (case tail of None \<Rightarrow> [] | Some r \<Rightarrow> [r])))"
proof -
  obtain v blocks tail where d: "content = think_render v blocks tail" "think_shape v blocks tail"
    using think_decomposes by blast
  show ?thesis
    using parse_think_render [OF d(2)] d
    by (intro exI [of _ v] exI [of _ blocks] exI [of _ tail]) (auto simp: think_render_Nil)
qed

text \<open>C16: the chunks in which a reply arrives do not matter for its content: after any nonempty
  sequence of content chunks the raw content is their concatenation, the streaming flag and
  (when it is not empty) the reasoning are those of the whole text, and finalising shows the
  visible text of the whole.\<close>

theorem streaming_independent_of_chunks:
  assumes "chunks \<noteq> []"
  shows "let full = raw_content m @ concat (map chunk_text chunks) in
    raw_content (foldl processStreamingContent m chunks) = full \<and>
    isReasoningStreaming (foldl processStreamingContent m chunks) =
      Some (hasUnclosedTag (parseThinkTags full)) \<and>
    raw_content (finalizeMessage (foldl processStreamingContent m chunks) None) =
      visibleContent (parseThinkTags full) \<and>
    (think_reasoning (parseThinkTags full) \<noteq> [] \<longrightarrow>
     msg_reasoning (foldl processStreamingContent m chunks) =
       Some \<lparr>r_content = think_reasoning (parseThinkTags full), r_duration = Fin 0\<rparr>)"
proof -
  obtain cs c where cs: "chunks = cs @ [c]" using assms(1) by (cases chunks rule: rev_cases) auto
  let ?m = "foldl processStreamingContent m cs"
  show ?thesis using process_fields [of ?m c] unfolding Let_def by (simp add: cs raw_stream)
qed

theorem streaming_independent_of_chunks_witness:
  "raw_content (finalizeMessage (foldl processStreamingContent
     (createLoadingAssistantMessage (js ''k'') (js ''v''))
     [JStr (js ''<th''), JStr (js ''ink>a</thi''), JStr (js ''nk>b'')]) None) = js ''b''"
proof -
  let ?m = "createLoadingAssistantMessage (js ''k'') (js ''v'')"
  let ?cs = "[JStr (js ''<th''), JStr (js ''ink>a</thi''), JStr (js ''nk>b'')]"
  have "visibleContent (parseThinkTags (raw_content ?m @ concat (map chunk_text ?cs))) = js ''b''"
    by code_simp
  then show ?thesis using streaming_independent_of_chunks [of ?cs ?m] unfolding Let_def by simp
qed

text \<open>loading settles exactly one stuck message: the number of stuck messages drops by one
  (or stays zero), keys and order are kept, and the list changes only if a message was stuck.\<close>

theorem sanitize_settles_one:
  "length (filter stuck (sanitizeMessagesOnLoad ms)) = length (filter stuck ms) - 1 \<and>
   map msg_key (sanitizeMessagesOnLoad ms) = map msg_key ms \<and>
   (sanitizeMessagesOnLoad ms = ms \<longleftrightarrow> filter stuck ms = [])"
proof (cases "last_stuck_below ms (length ms)")
  case None
  then have "filter stuck ms = []" by (auto simp: last_stuck_None filter_empty_conv in_set_conv_nth)
  then show ?thesis using None by (simp add: sanitizeMessagesOnLoad_def)
next
  case (Some i)
  then have i: "i < length ms" "stuck (ms ! i)" using last_stuck_Some by blast+
  let ?r = "take i ms @ settle (ms ! i) # drop (Suc i) ms"
  have san: "sanitizeMessagesOnLoad ms = ?r"
    using Some i(1) by (simp add: sanitizeMessagesOnLoad_def upd_conv_take_nth_drop)
  have ms: "ms = take i ms @ ms ! i # drop (Suc i) ms" using i(1) by (rule id_take_nth_drop)
  have "map msg_key ?r = map msg_key (take i ms @ ms ! i # drop (Suc i) ms)" by simp
  moreover have "length (filter stuck (take i ms @ ms ! i # drop (Suc i) ms)) =
      Suc (length (filter stuck ?r))"
    using i(2) settle_not_stuck by simp
  ultimately show ?thesis using san ms by (metis diff_Suc_1 list.size(3) nat.distinct(1) n_not_Suc_n)
qed

text \<open>a settled message is stable and shows something: it is complete or an error, no
  reasoning streams, and its content or its reasoning is not blank.\<close>

theorem settled_message_shows_something:
  "(msg_status (settle m) = Some Complete \<or> msg_status (settle m) = Some Errored) \<and>
   isReasoningStreaming (settle m) = Some False \<and>
   (\<exists>t. trim t \<noteq> [] \<and>
      (raw_content (settle m) = t \<or> map_option r_content (msg_reasoning (settle m)) = Some t))"
  using settle_shows [of m] by (auto simp: settle_def Let_def)

text \<open>A closing tag that arrives in two chunks leaves its first half behind as reasoning when the
  block is empty; the same text in one chunk has no reasoning.\<close>

lemma partial_close_tag_stays:
  "map_option r_content (msg_reasoning (finalizeMessage (foldl processStreamingContent
     (createLoadingAssistantMessage (js ''k'') (js ''v''))
     [JStr (js ''<think></thi''), JStr (js ''nk>b'')]) None)) = Some (js ''</thi'') \<and>
   msg_reasoning (finalizeMessage (foldl processStreamingContent
     (createLoadingAssistantMessage (js ''k'') (js ''v''))
     [JStr (js ''<think></think>b'')]) None) = None"
  by code_simp

end
