(* ===== verification/PlaygroundState.thy ===== *)
theory PlaygroundState
  imports PlaygroundMessages
begin

text \<open>
  Request payloads, persistence and the state hook of the playground:
  \<^verbatim>\<open>features/playground/lib/payload-builder.ts\<close>, \<^verbatim>\<open>lib/storage.ts\<close>,
  \<^verbatim>\<open>hooks/use-playground-state.ts\<close>, and the answers of the two option requests in
  \<^verbatim>\<open>api.ts\<close>.

  \<^verbatim>\<open>localStorage\<close> is a map from keys to strings; \<^verbatim>\<open>setItem\<close> throws when the browser's quota
  is exceeded, which the predicate \<open>fits\<close> on the resulting storage decides. The configuration and
  the enabled parameters are spread from stored JSON without a check, so they stay property lists
  of dynamic values. Stored messages are cast to \<^verbatim>\<open>Message[]\<close> without a check: an array whose
  elements do not have the declared shape is reported as \<open>IllTyped\<close> here.
\<close>

definition KEY_CONFIG :: jsstring where "KEY_CONFIG = js ''playground_config''"
definition KEY_MESSAGES :: jsstring where "KEY_MESSAGES = js ''playground_messages''"
definition KEY_PARAMETER_ENABLED :: jsstring where
  "KEY_PARAMETER_ENABLED = js ''playground_parameter_enabled''"

lemmas storage_keys = KEY_CONFIG_def KEY_MESSAGES_def KEY_PARAMETER_ENABLED_def

definition DEFAULT_CONFIG :: "jsval props" where
  "DEFAULT_CONFIG =
     [(js ''model'', JStr (js ''gpt-4o'')), (js ''group'', JStr (js ''default'')),
      (js ''temperature'', JNum (round_double (7 / 10))), (js ''top_p'', JNum (Fin 1)),
      (js ''max_tokens'', JNum (Fin 4096)), (js ''frequency_penalty'', JNum (Fin 0)),
      (js ''presence_penalty'', JNum (Fin 0)), (js ''seed'', JNull), (js ''stream'', JBool True)]"

definition DEFAULT_PARAMETER_ENABLED :: "jsval props" where
  "DEFAULT_PARAMETER_ENABLED =
     [(js ''temperature'', JBool True), (js ''top_p'', JBool True), (js ''max_tokens'', JBool False),
      (js ''frequency_penalty'', JBool True), (js ''presence_penalty'', JBool True),
      (js ''seed'', JBool False)]"

subsection \<open>Configuration in storage\<close>

definition load_object :: "jsstring \<Rightarrow> storage \<Rightarrow> jsval" where
  "load_object k st =
     (case st k of
        None \<Rightarrow> JObj []
      | Some saved \<Rightarrow>
          if saved = [] then JObj []
          else (case json_parse saved of Some v \<Rightarrow> v | None \<Rightarrow> JObj []))"

definition loadConfig :: "storage \<Rightarrow> jsval" where
  "loadConfig st = load_object KEY_CONFIG st"

definition saveConfig :: "(storage \<Rightarrow> bool) \<Rightarrow> jsval props \<Rightarrow> storage \<Rightarrow> storage" where
  "saveConfig fits config st = try_set fits KEY_CONFIG (json_stringify (JObj config)) st"

definition loadParameterEnabled :: "storage \<Rightarrow> jsval" where
  "loadParameterEnabled st = load_object KEY_PARAMETER_ENABLED st"

definition saveParameterEnabled :: "(storage \<Rightarrow> bool) \<Rightarrow> jsval props \<Rightarrow> storage \<Rightarrow> storage" where
  "saveParameterEnabled fits parameterEnabled st =
     try_set fits KEY_PARAMETER_ENABLED (json_stringify (JObj parameterEnabled)) st"

subsection \<open>Messages as JSON values\<close>

definition role_str :: "message_role \<Rightarrow> jsstring" where
  "role_str r = (case r of RoleUser \<Rightarrow> js ''user'' | RoleAssistant \<Rightarrow> js ''assistant''
                         | RoleSystem \<Rightarrow> js ''system'')"

definition status_str :: "message_status \<Rightarrow> jsstring" where
  "status_str s = (case s of Loading \<Rightarrow> js ''loading'' | Streaming \<Rightarrow> js ''streaming''
                           | Complete \<Rightarrow> js ''complete'' | Errored \<Rightarrow> js ''error'')"

text \<open>A property that is written only when it is defined.\<close>

definition opt_prop :: "jsstring \<Rightarrow> jsval option \<Rightarrow> jsval props" where
  "opt_prop k x = (case x of None \<Rightarrow> [] | Some v \<Rightarrow> [(k, v)])"

definition version_val :: "message_version \<Rightarrow> jsval" where
  "version_val v =
     JObj ([(js ''id'', JStr (ver_id v)), (js ''content'', JStr (ver_content v))] @
       opt_prop (js ''images'') (map_option (\<lambda>is. JArr (map JStr is)) (ver_images v)))"

definition message_val :: "message \<Rightarrow> jsval" where
  "message_val m =
     JObj ([(js ''key'', JStr (msg_key m)), (js ''from'', JStr (role_str (msg_from m))),
            (js ''versions'', JArr (map version_val (versions m)))] @
       opt_prop (js ''sources'') (map_option (\<lambda>ss. JArr (map (\<lambda>(h, t).
          JObj [(js ''href'', JStr h), (js ''title'', JStr t)]) ss)) (sources m)) @
       opt_prop (js ''reasoning'') (map_option (\<lambda>r.
          JObj [(js ''content'', JStr (r_content r)), (js ''duration'', JNum (r_duration r))])
          (msg_reasoning m)) @
       opt_prop (js ''isReasoningComplete'') (map_option JBool (isReasoningComplete m)) @
       opt_prop (js ''isContentComplete'') (map_option JBool (isContentComplete m)) @
       opt_prop (js ''isReasoningStreaming'') (map_option JBool (isReasoningStreaming m)) @
       opt_prop (js ''status'') (map_option (\<lambda>s. JStr (status_str s)) (msg_status m)) @
       opt_prop (js ''errorCode'') (if errorCode m = JUndef then None else Some (errorCode m)))"

subsection \<open>Reading messages\<close>

fun as_str :: "jsval \<Rightarrow> jsstring option" where
  "as_str (JStr s) = Some s" | "as_str _ = None"

fun as_bool :: "jsval \<Rightarrow> bool option" where
  "as_bool (JBool b) = Some b" | "as_bool _ = None"

fun as_num :: "jsval \<Rightarrow> jsnum option" where
  "as_num (JNum x) = Some x" | "as_num _ = None"

fun as_list :: "(jsval \<Rightarrow> 'a option) \<Rightarrow> jsval \<Rightarrow> 'a list option" where
  "as_list f (JArr vs) = those (map f vs)" | "as_list f _ = None"

text \<open>A property that may be absent, and otherwise has to have the declared type.\<close>

definition opt_field :: "(jsval \<Rightarrow> 'a option) \<Rightarrow> jsval \<Rightarrow> 'a option option" where
  "opt_field f v = (if v = JUndef then Some None else map_option Some (f v))"

definition role_of :: "jsval \<Rightarrow> message_role option" where
  "role_of v = find (\<lambda>r. v = JStr (role_str r)) [RoleUser, RoleAssistant, RoleSystem]"

definition status_of :: "jsval \<Rightarrow> message_status option" where
  "status_of v = find (\<lambda>s. v = JStr (status_str s)) [Loading, Streaming, Complete, Errored]"

definition version_of :: "jsval \<Rightarrow> message_version option" where
  "version_of v =
     (case (as_str (prop_of v (js ''id'')), as_str (prop_of v (js ''content'')),
            opt_field (as_list as_str) (prop_of v (js ''images''))) of
        (Some i, Some c, Some is) \<Rightarrow> Some \<lparr>ver_id = i, ver_content = c, ver_images = is\<rparr>
      | _ \<Rightarrow> None)"

definition source_of :: "jsval \<Rightarrow> (jsstring \<times> jsstring) option" where
  "source_of v =
     (case (as_str (prop_of v (js ''href'')), as_str (prop_of v (js ''title''))) of
        (Some h, Some t) \<Rightarrow> Some (h, t) | _ \<Rightarrow> None)"

definition reasoning_of :: "jsval \<Rightarrow> reasoning option" where
  "reasoning_of v =
     (case (as_str (prop_of v (js ''content'')), as_num (prop_of v (js ''duration''))) of
        (Some c, Some d) \<Rightarrow> Some \<lparr>r_content = c, r_duration = d\<rparr> | _ \<Rightarrow> None)"

definition message_of :: "jsval \<Rightarrow> message option" where
  "message_of v =
     (case (as_str (prop_of v (js ''key'')), role_of (prop_of v (js ''from'')),
            as_list version_of (prop_of v (js ''versions'')),
            opt_field (as_list source_of) (prop_of v (js ''sources'')),
            opt_field reasoning_of (prop_of v (js ''reasoning'')),
            opt_field as_bool (prop_of v (js ''isReasoningStreaming'')),
            opt_field as_bool (prop_of v (js ''isReasoningComplete'')),
            opt_field as_bool (prop_of v (js ''isContentComplete'')),
            opt_field status_of (prop_of v (js ''status''))) of
        (Some k, Some f, Some vs, Some ss, Some r, Some rs, Some rc, Some cc, Some st) \<Rightarrow>
          Some \<lparr>msg_key = k, msg_from = f, versions = vs, sources = ss, msg_reasoning = r,
                isReasoningStreaming = rs, isReasoningComplete = rc, isContentComplete = cc,
                msg_status = st, errorCode = prop_of v (js ''errorCode'')\<rparr>
      | _ \<Rightarrow> None)"

subsection \<open>Messages in storage\<close>

definition strip_images :: "message_version \<Rightarrow> message_version" where
  "strip_images v =
     (case ver_images v of
        Some is \<Rightarrow> if length is > 0 then v\<lparr>ver_images := Some []\<rparr> else v
      | None \<Rightarrow> v)"

definition without_images :: "message \<Rightarrow> message" where
  "without_images m = m\<lparr>versions := map strip_images (versions m)\<rparr>"

definition saveMessages :: "(storage \<Rightarrow> bool) \<Rightarrow> message list \<Rightarrow> storage \<Rightarrow> storage" where
  "saveMessages fits messages st =
     try_set fits KEY_MESSAGES
       (json_stringify (JArr (map message_val (map without_images messages)))) st"

datatype load_result = NoMessages | Loaded "message list" | IllTyped "jsval list"

definition loadMessages :: "(storage \<Rightarrow> bool) \<Rightarrow> storage \<Rightarrow> load_result \<times> storage" where
  "loadMessages fits st =
     (case st KEY_MESSAGES of
        None \<Rightarrow> (NoMessages, st)
      | Some saved \<Rightarrow>
          if saved = [] then (NoMessages, st)
          else case json_parse saved of
                 Some (JArr vs) \<Rightarrow>
                   (case those (map message_of vs) of
                      None \<Rightarrow> (IllTyped vs, st)
                    | Some parsed \<Rightarrow>
                        let sanitized = sanitizeMessagesOnLoad parsed in
                        (Loaded sanitized,
                         if last_stuck_below parsed (length parsed) \<noteq> None
                         then saveMessages fits sanitized st else st))
               | _ \<Rightarrow> (NoMessages, st))"

definition clearPlaygroundData :: "storage \<Rightarrow> storage" where
  "clearPlaygroundData st =
     st(KEY_CONFIG := None, KEY_PARAMETER_ENABLED := None, KEY_MESSAGES := None)"


subsection \<open>The request payload\<close>

definition part_val :: "content_part \<Rightarrow> jsval" where
  "part_val p =
     (case p of
        TextPart t \<Rightarrow> JObj [(js ''type'', JStr (js ''text'')), (js ''text'', JStr t)]
      | ImagePart u \<Rightarrow> JObj [(js ''type'', JStr (js ''image_url'')),
                            (js ''image_url'', JObj [(js ''url'', JStr u)])])"

definition ccm_val :: "chat_completion_message \<Rightarrow> jsval" where
  "ccm_val m =
     JObj [(js ''role'', JStr (role_str (ccm_role m))),
           (js ''content'', (case ccm_content m of PlainContent s \<Rightarrow> JStr s
                            | PartsContent ps \<Rightarrow> JArr (map part_val ps)))]"

definition parameterKeys :: "jsstring list" where
  "parameterKeys = map js [''temperature'', ''top_p'', ''max_tokens'', ''frequency_penalty'',
     ''presence_penalty'', ''seed'']"

definition add_parameter :: "jsval props \<Rightarrow> jsval props \<Rightarrow> jsval props \<Rightarrow> jsstring \<Rightarrow> jsval props" where
  "add_parameter config parameterEnabled payload key =
     (if truthy (val_at parameterEnabled key)
      then (let v = val_at config key in
            if v \<noteq> JUndef \<and> v \<noteq> JNull then props_set payload key v else payload)
      else payload)"

definition buildChatCompletionPayload ::
  "message list \<Rightarrow> jsval props \<Rightarrow> jsval props \<Rightarrow> jsval props" where
  "buildChatCompletionPayload messages config parameterEnabled =
     foldl (add_parameter config parameterEnabled)
       [(js ''model'', val_at config (js ''model'')), (js ''group'', val_at config (js ''group'')),
        (js ''messages'', JArr (map ccm_val (map formatMessageForAPI (filter isValidMessage messages)))),
        (js ''stream'', val_at config (js ''stream''))]
       parameterKeys"

subsection \<open>Options offered by the server\<close>

text \<open>\<^verbatim>\<open>res.data\<close> of the two requests is the argument; \<open>None\<close> is the type error of reading a
  property of null.\<close>

definition getUserModels :: "jsval \<Rightarrow> (jsval \<times> jsval) list option" where
  "getUserModels d =
     (if d = JUndef \<or> d = JNull then None
      else Some (case prop_of d (js ''data'') of
             JArr ms \<Rightarrow> if truthy (prop_of d (js ''success'')) then map (\<lambda>m. (m, m)) ms else []
           | _ \<Rightarrow> []))"

record group_option =
  go_label :: jsstring
  go_value :: jsstring
  go_ratio :: jsval
  go_desc :: jsval

definition getUserGroups :: "jsval \<Rightarrow> group_option list option" where
  "getUserGroups d =
     (if d = JUndef \<or> d = JNull then None
      else if \<not> truthy (prop_of d (js ''success'')) \<or> \<not> truthy (prop_of d (js ''data'')) then Some []
      else let entries = own_props (prop_of d (js ''data'')) in
           if list_ex (\<lambda>(_, info). info = JNull \<or> info = JUndef) entries then None
           else Some (map (\<lambda>(g, info). \<lparr>go_label = g, go_value = g,
                        go_ratio = prop_of info (js ''ratio''), go_desc = prop_of info (js ''desc'')\<rparr>)
                      entries))"

subsection \<open>The state hook\<close>

record playground_state =
  config :: "jsval props"
  parameterEnabled :: "jsval props"
  messages :: "message list"
  models :: "(jsval \<times> jsval) list"
  groups :: "group_option list"
  store :: storage

text \<open>The initial state; \<open>None\<close> when the stored messages are ill-typed.\<close>

definition usePlaygroundState :: "(storage \<Rightarrow> bool) \<Rightarrow> storage \<Rightarrow> playground_state option" where
  "usePlaygroundState fits st =
     (let c = props_assign DEFAULT_CONFIG (own_props (loadConfig st));
          pe = props_assign DEFAULT_PARAMETER_ENABLED (own_props (loadParameterEnabled st))
      in case loadMessages fits st of
           (IllTyped _, _) \<Rightarrow> None
         | (NoMessages, st') \<Rightarrow>
             Some \<lparr>config = c, parameterEnabled = pe, messages = [], models = [], groups = [], store = st'\<rparr>
         | (Loaded ms, st') \<Rightarrow>
             Some \<lparr>config = c, parameterEnabled = pe, messages = ms, models = [], groups = [], store = st'\<rparr>)"

definition updateConfig ::
  "(storage \<Rightarrow> bool) \<Rightarrow> jsstring \<Rightarrow> jsval \<Rightarrow> playground_state \<Rightarrow> playground_state" where
  "updateConfig fits key v s =
     (let updated = props_set (config s) key v
      in s\<lparr>config := updated, store := saveConfig fits updated (store s)\<rparr>)"

definition updateParameterEnabled ::
  "(storage \<Rightarrow> bool) \<Rightarrow> jsstring \<Rightarrow> bool \<Rightarrow> playground_state \<Rightarrow> playground_state" where
  "updateParameterEnabled fits key b s =
     (let updated = props_set (parameterEnabled s) key (JBool b)
      in s\<lparr>parameterEnabled := updated, store := saveParameterEnabled fits updated (store s)\<rparr>)"

definition updateMessages ::
  "(storage \<Rightarrow> bool) \<Rightarrow> (message list \<Rightarrow> message list) \<Rightarrow> playground_state \<Rightarrow> playground_state" where
  "updateMessages fits updater s =
     (let newMessages = updater (messages s)
      in s\<lparr>messages := newMessages, store := saveMessages fits newMessages (store s)\<rparr>)"

definition clearMessages :: "(storage \<Rightarrow> bool) \<Rightarrow> playground_state \<Rightarrow> playground_state" where
  "clearMessages fits s = updateMessages fits (\<lambda>_. []) s"

definition resetConfig :: "(storage \<Rightarrow> bool) \<Rightarrow> playground_state \<Rightarrow> playground_state" where
  "resetConfig fits s =
     s\<lparr>config := DEFAULT_CONFIG, parameterEnabled := DEFAULT_PARAMETER_ENABLED,
       store := saveParameterEnabled fits DEFAULT_PARAMETER_ENABLED
                  (saveConfig fits DEFAULT_CONFIG (store s))\<rparr>"

subsection \<open>Reading back a stored message\<close>

lemma map_of_opt_prop:
  "map_of (opt_prop k x @ rest) k' = (if k = k' \<and> x \<noteq> None then x else map_of rest k')"
  "map_of (opt_prop k x) k' = (if k = k' then x else None)"
  by (cases x; simp add: opt_prop_def)+

lemma those_map_inverse: "(\<And>x. x \<in> set xs \<Longrightarrow> f (g x) = Some x) \<Longrightarrow> those (map f (map g xs)) = Some xs"
  by (induction xs) auto

lemma prop_of_map_of: "prop_of (JObj p) k = (case map_of p k of Some w \<Rightarrow> w | None \<Rightarrow> JUndef)"
  by (simp add: prop_of_def props_get_def)

lemma version_of_val [simp]: "version_of (version_val v) = Some v"
proof -
  have "those (map as_str (map JStr is)) = Some is" for "is" by (rule those_map_inverse) simp
  then show ?thesis
    by (cases "ver_images v")
       (simp_all add: version_of_def version_val_def prop_of_map_of map_of_opt_prop opt_field_def)
qed

lemma role_of_str [simp]: "role_of (JStr (role_str r)) = Some r"
  by (cases r) (simp_all add: role_of_def role_str_def)

lemma status_of_str [simp]: "status_of (JStr (status_str s)) = Some s"
  by (cases s) (simp_all add: status_of_def status_str_def)

lemma opt_field_read:
  "opt_field f (case map_option g x of Some w \<Rightarrow> w | None \<Rightarrow> JUndef) = Some x"
  if "\<And>y. x = Some y \<Longrightarrow> f (g y) = Some y \<and> g y \<noteq> JUndef"
  using that by (cases x) (auto simp: opt_field_def)

lemma message_of_val: "message_of (message_val m) = Some m"
proof -
  let ?src = "\<lambda>ss. JArr (map (\<lambda>(h, t). JObj [(js ''href'', JStr h), (js ''title'', JStr t)]) ss)"
  have vs: "those (map version_of (map version_val xs)) = Some xs" for xs
    by (rule those_map_inverse) simp
  have ss: "as_list source_of (?src xs) = Some xs" for xs
    using those_map_inverse [of xs source_of
        "\<lambda>(h, t). JObj [(js ''href'', JStr h), (js ''title'', JStr t)]"]
    by (auto simp: source_of_def prop_of_map_of)
  have rs: "reasoning_of (JObj [(js ''content'', JStr (r_content r)), (js ''duration'', JNum (r_duration r))]) = Some r" for r
    by (simp add: reasoning_of_def prop_of_map_of)
  have f: "prop_of (message_val m) (js ''key'') = JStr (msg_key m)"
    "prop_of (message_val m) (js ''from'') = JStr (role_str (msg_from m))"
    "prop_of (message_val m) (js ''versions'') = JArr (map version_val (versions m))"
    "prop_of (message_val m) (js ''sources'') = (case map_option ?src (sources m) of Some w \<Rightarrow> w | None \<Rightarrow> JUndef)"
    "prop_of (message_val m) (js ''reasoning'') = (case map_option (\<lambda>r. JObj [(js ''content'',
       JStr (r_content r)), (js ''duration'', JNum (r_duration r))]) (msg_reasoning m) of Some w \<Rightarrow> w | None \<Rightarrow> JUndef)"
    "prop_of (message_val m) (js ''isReasoningComplete'') = (case map_option JBool (isReasoningComplete m) of Some w \<Rightarrow> w | None \<Rightarrow> JUndef)"
    "prop_of (message_val m) (js ''isContentComplete'') = (case map_option JBool (isContentComplete m) of Some w \<Rightarrow> w | None \<Rightarrow> JUndef)"
    "prop_of (message_val m) (js ''isReasoningStreaming'') = (case map_option JBool (isReasoningStreaming m) of Some w \<Rightarrow> w | None \<Rightarrow> JUndef)"
    "prop_of (message_val m) (js ''status'') = (case map_option (\<lambda>s. JStr (status_str s)) (msg_status m) of Some w \<Rightarrow> w | None \<Rightarrow> JUndef)"
    "prop_of (message_val m) (js ''errorCode'') = errorCode m"
    by (simp_all add: message_val_def prop_of_map_of map_of_opt_prop del: map_of_append split: option.splits)
  have o: "opt_field (as_list source_of) (prop_of (message_val m) (js ''sources'')) = Some (sources m)"
    "opt_field reasoning_of (prop_of (message_val m) (js ''reasoning'')) = Some (msg_reasoning m)"
    "opt_field as_bool (prop_of (message_val m) (js ''isReasoningComplete'')) = Some (isReasoningComplete m)"
    "opt_field as_bool (prop_of (message_val m) (js ''isContentComplete'')) = Some (isContentComplete m)"
    "opt_field as_bool (prop_of (message_val m) (js ''isReasoningStreaming'')) = Some (isReasoningStreaming m)"
    "opt_field status_of (prop_of (message_val m) (js ''status'')) = Some (msg_status m)"
    unfolding f by (rule opt_field_read; simp add: ss [simplified] rs)+
  show ?thesis unfolding message_of_def o unfolding f by (simp add: vs [simplified])
qed


text \<open>The messages whose stored form reads back: code units, integral durations below \<open>2 ^ 53\<close> and
  an error code that JSON carries.\<close>

definition version_ok :: "message_version \<Rightarrow> bool" where
  "version_ok v \<longleftrightarrow> str_ok (ver_id v) \<and> str_ok (ver_content v) \<and>
     (case ver_images v of None \<Rightarrow> True | Some is \<Rightarrow> list_all str_ok is)"

definition message_ok :: "message \<Rightarrow> bool" where
  "message_ok m \<longleftrightarrow> str_ok (msg_key m) \<and> list_all version_ok (versions m) \<and>
     (case sources m of None \<Rightarrow> True | Some ss \<Rightarrow> list_all (\<lambda>(h, t). str_ok h \<and> str_ok t) ss) \<and>
     (case msg_reasoning m of None \<Rightarrow> True
      | Some r \<Rightarrow> str_ok (r_content r) \<and> json_ok (JNum (r_duration r))) \<and>
     (errorCode m = JUndef \<or> json_ok (errorCode m))"

lemma named_keys:
  "\<not> is_index_key (js ''key'')" "\<not> is_index_key (js ''from'')" "\<not> is_index_key (js ''versions'')"
  "\<not> is_index_key (js ''sources'')" "\<not> is_index_key (js ''reasoning'')"
  "\<not> is_index_key (js ''isReasoningComplete'')" "\<not> is_index_key (js ''isContentComplete'')"
  "\<not> is_index_key (js ''isReasoningStreaming'')" "\<not> is_index_key (js ''status'')"
  "\<not> is_index_key (js ''errorCode'')" "\<not> is_index_key (js ''id'')" "\<not> is_index_key (js ''content'')"
  "\<not> is_index_key (js ''images'')" "\<not> is_index_key (js ''href'')" "\<not> is_index_key (js ''title'')"
  "\<not> is_index_key (js ''duration'')"
  by (simp_all add: is_index_key_def js_def is_digit_def)

lemma version_val_ok: "version_ok v \<Longrightarrow> json_ok (version_val v)"
  by (cases "ver_images v")
     (auto simp: version_val_def version_ok_def opt_prop_def props_ok_def props_keys_def named_keys
       list_all_iff)

text \<open>Objects are assembled from properties with distinct names that are no array indices.\<close>

lemma json_ok_object:
  assumes "distinct (map fst p)" "list_all (\<lambda>kv. \<not> is_index_key (fst kv) \<and> str_ok (fst kv) \<and> json_ok (snd kv)) p"
  shows "json_ok (JObj p)"
  using assms props_ordered_named [of p] by (auto simp: props_ok_def props_keys_def list_all_iff)

lemma fst_opt_prop: "map fst (opt_prop k x) = (if x = None then [] else [k])"
  by (cases x) (simp_all add: opt_prop_def)

lemma str_ok_enums [simp]: "str_ok (role_str r)" "str_ok (status_str s)"
  by (cases r; simp add: role_str_def) (cases s; simp add: status_str_def)

lemma list_all_opt_prop: "list_all P (opt_prop k x) \<longleftrightarrow> pred_option (\<lambda>v. P (k, v)) x"
  by (cases x) (simp_all add: opt_prop_def)

lemma message_val_ok:
  assumes "message_ok m"
  shows "json_ok (message_val m)"
proof -
  have "list_all json_ok (map version_val (versions m))"
    using assms version_val_ok by (auto simp: message_ok_def list_all_iff)
  moreover have "json_ok (JArr (map (\<lambda>(h, t). JObj [(js ''href'', JStr h), (js ''title'', JStr t)]) ss))"
    if "sources m = Some ss" for ss
    using assms that
    by (auto simp: message_ok_def list_all_iff props_ok_def props_keys_def named_keys split: prod.splits)
  moreover have "json_ok (JObj [(js ''content'', JStr (r_content r)), (js ''duration'', JNum (r_duration r))])"
    if "msg_reasoning m = Some r" for r
    using assms that by (intro json_ok_object) (auto simp: message_ok_def named_keys)
  moreover have "errorCode m \<noteq> JUndef \<longrightarrow> json_ok (errorCode m)"
    using assms by (auto simp: message_ok_def)
  ultimately show ?thesis
    unfolding message_val_def using assms
    by (intro json_ok_object)
       (simp_all add: fst_opt_prop list_all_opt_prop named_keys message_ok_def option.pred_map o_def
          option.pred_True del: json_ok.simps(7) list.pred_map split: option.splits)
qed


lemma strip_images_ok: "version_ok v \<Longrightarrow> version_ok (strip_images v)"
  by (auto simp: version_ok_def strip_images_def split: option.splits)

lemma without_images_ok: "message_ok m \<Longrightarrow> message_ok (without_images m)"
  by (auto simp: message_ok_def without_images_def list_all_iff strip_images_ok)

lemma stored_messages_read:
  assumes "list_all message_ok ms"
  shows "json_parse (json_stringify (JArr (map message_val ms))) = Some (JArr (map message_val ms))"
  using assms message_val_ok by (intro json_round_trip) (auto simp: list_all_iff)

lemma json_stringify_nonempty: "json_parse (json_stringify v) = Some w \<Longrightarrow> json_stringify v \<noteq> []"
  by (auto simp: json_parse_def skip_ws_def)

lemma try_set_fits: "fits (st(k \<mapsto> v)) \<Longrightarrow> try_set fits k v st = st(k \<mapsto> v)"
  by (simp add: try_set_def setItem_def)

lemma try_set_cases: "try_set fits k v st = st \<or> try_set fits k v st = st(k \<mapsto> v)"
  by (auto simp: try_set_def setItem_def)

subsection \<open>The configuration always covers the defaults\<close>

definition covers_defaults :: "playground_state \<Rightarrow> bool" where
  "covers_defaults s \<longleftrightarrow> props_ok (config s) \<and> props_ok (parameterEnabled s) \<and>
     set (props_keys DEFAULT_CONFIG) \<subseteq> set (props_keys (config s)) \<and>
     set (props_keys DEFAULT_PARAMETER_ENABLED) \<subseteq> set (props_keys (parameterEnabled s))"

lemma defaults_ok: "props_ok DEFAULT_CONFIG" "props_ok DEFAULT_PARAMETER_ENABLED"
  by (simp_all add: props_ok_def props_keys_def DEFAULT_CONFIG_def DEFAULT_PARAMETER_ENABLED_def)

lemma keys_assign: "props_ok p \<Longrightarrow> set (props_keys p) \<subseteq> set (props_keys (props_assign p q))"
  using ps.get_foldl_put [of p q] props_assign_ok [of p q]
  by (auto simp: ps.keys_get props_assign_def)

lemma keys_set: "props_ok p \<Longrightarrow> set (props_keys p) \<subseteq> set (props_keys (props_set p k v))"
  by (auto simp: ps.keys_get ps.ok_put)

lemma updates_messages_only [simp]:
  "config (updateMessages fits f s) = config s"
  "parameterEnabled (updateMessages fits f s) = parameterEnabled s"
  by (simp_all add: updateMessages_def Let_def)

lemma init_configs:
  "usePlaygroundState fits st = Some s \<Longrightarrow>
   config s = props_assign DEFAULT_CONFIG (own_props (loadConfig st)) \<and>
   parameterEnabled s = props_assign DEFAULT_PARAMETER_ENABLED (own_props (loadParameterEnabled st))"
  by (auto simp: usePlaygroundState_def Let_def split: load_result.splits prod.splits)

lemma covers_defaults_init: "usePlaygroundState fits st = Some s \<Longrightarrow> covers_defaults s"
  by (simp add: init_configs covers_defaults_def keys_assign props_assign_ok defaults_ok)

lemma covers_defaults_ops:
  "covers_defaults s \<Longrightarrow> covers_defaults (updateConfig fits k v s)"
  "covers_defaults s \<Longrightarrow> covers_defaults (updateParameterEnabled fits k b s)"
  "covers_defaults s \<Longrightarrow> covers_defaults (updateMessages fits f s)"
  "covers_defaults s \<Longrightarrow> covers_defaults (clearMessages fits s)"
  "covers_defaults (resetConfig fits s)"
  using keys_set [of "config s" k v] keys_set [of "parameterEnabled s" k "JBool b"] defaults_ok
  by (auto simp: covers_defaults_def updateConfig_def updateParameterEnabled_def Let_def ps.ok_put
      clearMessages_def resetConfig_def)

text \<open>Spreading an object over the defaults gives the object back when it covers them.\<close>

lemma assign_covering:
  assumes "props_ok p" "props_ok q" "set (props_keys p) \<subseteq> set (props_keys q)"
  shows "props_get (props_assign p q) = props_get q"
  using assms by (auto simp: props_get_assign ps.keys_get map_add_def fun_eq_iff split: option.splits)


subsection \<open>Properties\<close>

lemma saved_messages_load:
  assumes "list_all message_ok ms" "fits (st(KEY_MESSAGES \<mapsto>
      json_stringify (JArr (map message_val (map without_images ms)))))"
  shows "fst (loadMessages fits (saveMessages fits ms st)) =
    Loaded (sanitizeMessagesOnLoad (map without_images ms))"
proof -
  let ?t = "json_stringify (JArr (map message_val (map without_images ms)))"
  have parse: "json_parse ?t = Some (JArr (map message_val (map without_images ms)))"
    using assms(1) without_images_ok by (intro stored_messages_read) (auto simp: list_all_iff)
  have "those (map message_of (map message_val (map without_images ms))) = Some (map without_images ms)"
    by (rule those_map_inverse) (rule message_of_val)
  then show ?thesis
    using parse json_stringify_nonempty [OF parse] assms(2)
    by (simp add: saveMessages_def try_set_fits loadMessages_def Let_def)
qed

text \<open>C17: an updated message list survives a reload: when the storage accepts it, the state that
  the hook starts from has the same messages with inline images dropped and a stuck reply
  settled.\<close>

theorem messages_survive_reload:
  assumes "list_all message_ok (f (messages s))"
    and "fits ((store s)(KEY_MESSAGES \<mapsto>
           json_stringify (JArr (map message_val (map without_images (f (messages s)))))))"
  shows "map_option messages (usePlaygroundState fits (store (updateMessages fits f s))) =
    Some (sanitizeMessagesOnLoad (map without_images (f (messages s))))"
proof -
  have "fst (loadMessages fits (store (updateMessages fits f s))) =
      Loaded (sanitizeMessagesOnLoad (map without_images (f (messages s))))"
    using saved_messages_load [of "f (messages s)" fits "store s"] assms by (simp add: updateMessages_def Let_def)
  then show ?thesis
    by (cases "loadMessages fits (store (updateMessages fits f s))")
       (simp add: usePlaygroundState_def Let_def)
qed

definition sample_state :: playground_state where
  "sample_state = \<lparr>config = DEFAULT_CONFIG, parameterEnabled = DEFAULT_PARAMETER_ENABLED,
     messages = [createUserMessage (js ''k'') (js ''v'') (js ''hi'') (Some [js ''data:x''])],
     models = [], groups = [], store = Map.empty\<rparr>"

theorem messages_survive_reload_witness:
  "map_option messages (usePlaygroundState (\<lambda>_. True) (store (updateMessages (\<lambda>_. True)
     (\<lambda>ms. ms @ [createLoadingAssistantMessage (js ''a'') (js ''b'')]) sample_state))) =
   Some (sanitizeMessagesOnLoad (map without_images
     (messages sample_state @ [createLoadingAssistantMessage (js ''a'') (js ''b'')])))"
proof -
  have "list_all message_ok (messages sample_state @ [createLoadingAssistantMessage (js ''a'') (js ''b'')])"
    by code_simp
  then show ?thesis
    using messages_survive_reload [of "\<lambda>ms. ms @ [createLoadingAssistantMessage (js ''a'') (js ''b'')]"
        sample_state "\<lambda>_. True"] by simp
qed

text \<open>a changed configuration value survives a reload: if the storage accepts the new
  configuration and its text reads back, the state that the hook starts from has exactly the
  properties of the updated configuration, for every state the hook can reach.\<close>

theorem config_survives_reload:
  assumes "covers_defaults s"
    and "fits ((store s)(KEY_CONFIG \<mapsto> json_stringify (JObj (props_set (config s) key v))))"
    and "json_parse (json_stringify (JObj (props_set (config s) key v))) =
           Some (JObj (props_set (config s) key v))"
    and "usePlaygroundState fits (store (updateConfig fits key v s)) = Some s'"
  shows "props_get (config s') = (props_get (config s))(key \<mapsto> v) \<and> covers_defaults s'"
proof -
  let ?c = "props_set (config s) key v"
  have cov: "covers_defaults (updateConfig fits key v s)" using assms(1) by (rule covers_defaults_ops)
  have "store (updateConfig fits key v s) = (store s)(KEY_CONFIG \<mapsto> json_stringify (JObj ?c))"
    using assms(2) by (simp add: updateConfig_def Let_def saveConfig_def try_set_fits)
  then have "loadConfig (store (updateConfig fits key v s)) = JObj ?c"
    using assms(3) json_stringify_nonempty [OF assms(3)] by (simp add: loadConfig_def load_object_def)
  then have "config s' = props_assign DEFAULT_CONFIG ?c" using init_configs [OF assms(4)] by simp
  moreover have "props_get (props_assign DEFAULT_CONFIG ?c) = props_get ?c"
    using cov defaults_ok(1)
    by (intro assign_covering) (simp_all add: covers_defaults_def updateConfig_def Let_def)
  ultimately show ?thesis using covers_defaults_init [OF assms(4)] by simp
qed

theorem config_survives_reload_witness:
  "\<exists>s'. usePlaygroundState (\<lambda>_. True)
     (store (updateConfig (\<lambda>_. True) (js ''stream'') (JBool False) sample_state)) = Some s' \<and>
   props_get (config s') (js ''stream'') = Some (JBool False)"
proof -
  let ?s1 = "updateConfig (\<lambda>_. True) (js ''stream'') (JBool False) sample_state"
  have 1: "covers_defaults sample_state" by code_simp
  have 2: "json_parse (json_stringify (JObj (props_set (config sample_state) (js ''stream'') (JBool False)))) =
      Some (JObj (props_set (config sample_state) (js ''stream'') (JBool False)))" by code_simp
  have "store ?s1 KEY_MESSAGES = None"
    by (simp add: updateConfig_def Let_def saveConfig_def try_set_fits sample_state_def storage_keys)
  then obtain s' where s': "usePlaygroundState (\<lambda>_. True) (store ?s1) = Some s'"
    by (simp add: usePlaygroundState_def loadMessages_def Let_def)
  show ?thesis
    using config_survives_reload [OF 1 TrueI 2 s'] s' by simp
qed

text \<open>a parameter is sent exactly when it is enabled and has a value; the model, the group,
  the stream switch and the messages are always sent, and no blank assistant message is among
  them.\<close>

theorem payload_parameters:
  assumes "key \<in> set parameterKeys"
  shows "props_get (buildChatCompletionPayload ms cfg pe) key =
      (if truthy (val_at pe key) \<and> val_at cfg key \<notin> {JUndef, JNull} then Some (val_at cfg key) else None) \<and>
    props_get (buildChatCompletionPayload ms cfg pe) (js ''messages'') =
      Some (JArr (map (\<lambda>m. ccm_val (formatMessageForAPI m))
        (filter (\<lambda>m. versions m \<noteq> [] \<and>
           \<not> (msg_from m = RoleAssistant \<and> trim (raw_content m) = [])) ms))) \<and>
    props_get (buildChatCompletionPayload ms cfg pe) (js ''stream'') = Some (val_at cfg (js ''stream''))"
proof -
  have fold: "props_get (foldl (add_parameter cfg pe) p ks) k =
      (if k \<in> set ks \<and> truthy (val_at pe k) \<and> val_at cfg k \<notin> {JUndef, JNull}
       then Some (val_at cfg k) else props_get p k)" for p ks k
    by (induction ks arbitrary: p) (auto simp: add_parameter_def Let_def)
  have valid: "isValidMessage m = (versions m \<noteq> [] \<and> \<not> (msg_from m = RoleAssistant \<and> trim (raw_content m) = []))"
    for m
    by (auto simp: isValidMessage_def raw_content_def getCurrentVersion_def split: list.splits)
  have others: "js ''messages'' \<notin> set parameterKeys" "js ''stream'' \<notin> set parameterKeys"
    by (simp_all add: parameterKeys_def)
  have keys: "key \<notin> {js ''model'', js ''group'', js ''messages'', js ''stream''}"
    using assms by (auto simp: parameterKeys_def)
  show ?thesis
    using assms keys others
    by (simp add: buildChatCompletionPayload_def fold valid [abs_def] o_def) (simp add: props_get_def)
qed

theorem payload_parameters_witness:
  "props_get (buildChatCompletionPayload [] DEFAULT_CONFIG DEFAULT_PARAMETER_ENABLED) (js ''seed'') = None"
proof -
  have "js ''seed'' \<in> set parameterKeys" by (simp add: parameterKeys_def)
  from payload_parameters [OF this, of "[]" DEFAULT_CONFIG DEFAULT_PARAMETER_ENABLED]
  show ?thesis by (simp add: val_at_def props_get_def DEFAULT_PARAMETER_ENABLED_def)
qed

text \<open>a full storage loses nothing: when the quota rejects a write, the messages stay in
  memory, the storage keeps what it had, and the other keys are never touched.\<close>

theorem storage_write_atomic:
  "messages (updateMessages fits f s) = f (messages s) \<and>
   (store (updateMessages fits f s) = store s \<or>
    store (updateMessages fits f s) = (store s)(KEY_MESSAGES \<mapsto>
      json_stringify (JArr (map message_val (map without_images (f (messages s))))))) \<and>
   store (updateMessages fits f s) KEY_CONFIG = store s KEY_CONFIG \<and>
   store (updateMessages fits f s) KEY_PARAMETER_ENABLED = store s KEY_PARAMETER_ENABLED"
proof -
  have keys: "KEY_MESSAGES \<noteq> KEY_CONFIG" "KEY_MESSAGES \<noteq> KEY_PARAMETER_ENABLED"
    by (simp_all add: storage_keys)
  show ?thesis
    using try_set_cases [of fits KEY_MESSAGES
        "json_stringify (JArr (map message_val (map without_images (f (messages s)))))" "store s"] keys
    by (auto simp: updateMessages_def Let_def saveMessages_def simp del: map_map)
qed

end
