(* ===== verification/PlaygroundStream.thy ===== *)
theory PlaygroundStream
  imports PlaygroundState
begin

text \<open>
  Sending a chat and receiving its reply: \<^verbatim>\<open>features/playground/hooks/use-chat-handler.ts\<close>
  and \<^verbatim>\<open>hooks/use-stream-request.ts\<close>, with the guard of \<^verbatim>\<open>hooks/use-message-action-guard.ts\<close>.

  The event source of \<^verbatim>\<open>sse.js\<close> is an environment: it delivers message, error and
  readystatechange events in any order, each with the ready state and HTTP status that the
  handler reads from it. A source is known by a number; \<^verbatim>\<open>close()\<close> is recorded. The handlers of
  one request are closures over its source but share the two refs of the hook, as in the source.
  Events that \<^verbatim>\<open>close()\<close> itself dispatches are further events; the calls around \<^verbatim>\<open>closeSource\<close>
  in the handlers are such that a nested delivery has the same effect as a later one.
\<close>

subsection \<open>What the handlers need of the message store\<close>

locale message_store =
  fixes msgs :: "'st \<Rightarrow> message list"
    and upd :: "(message list \<Rightarrow> message list) \<Rightarrow> 'st \<Rightarrow> 'st"
  assumes msgs_upd: "msgs (upd f s) = f (msgs s)"
begin

lemma msgs_updates: "msgs (foldl (\<lambda>s f. upd f s) s fs) = foldl (\<lambda>m f. f m) (msgs s) fs"
  by (induction fs arbitrary: s) (auto simp: msgs_upd)

lemma msgs_inv: "P (msgs s) \<Longrightarrow> (\<And>m. P m \<Longrightarrow> P (f m)) \<Longrightarrow> P (msgs (upd f s))"
  by (simp add: msgs_upd)

end

interpretation board: message_store messages "updateMessages fits" for fits
  by unfold_locales (simp add: updateMessages_def Let_def)

subsection \<open>State\<close>

record chat_state =
  play :: playground_state
  sseSource :: "nat option"
  isStreamComplete :: bool
  nextSource :: nat
  closedSources :: "nat list"
  requests :: "jsval props list"
  toasts :: "jsval list"
  warnings :: "jsstring list"

definition onMessageUpdate ::
  "(storage \<Rightarrow> bool) \<Rightarrow> (message list \<Rightarrow> message list) \<Rightarrow> chat_state \<Rightarrow> chat_state" where
  "onMessageUpdate fits f s = s\<lparr>play := updateMessages fits f (play s)\<rparr>"

subsection \<open>Callbacks of the chat handler\<close>

datatype update_kind = Reasoning | Content

definition stream_update :: "update_kind \<Rightarrow> jsval \<Rightarrow> message \<Rightarrow> message" where
  "stream_update kind chunk m =
     (if msg_status m = Some Errored then m
      else case kind of
             Reasoning \<Rightarrow>
               m\<lparr>msg_reasoning := Some
                   \<lparr>r_content = (case msg_reasoning m of Some r \<Rightarrow> r_content r | None \<Rightarrow> []) @ to_str chunk,
                    r_duration = Fin 0\<rparr>,
                 isReasoningStreaming := Some True, msg_status := Some Streaming\<rparr>
           | Content \<Rightarrow> (processStreamingContent m chunk)\<lparr>msg_status := Some Streaming\<rparr>)"

definition handleStreamUpdate ::
  "(storage \<Rightarrow> bool) \<Rightarrow> update_kind \<Rightarrow> jsval \<Rightarrow> chat_state \<Rightarrow> chat_state" where
  "handleStreamUpdate fits kind chunk =
     onMessageUpdate fits (\<lambda>prev. updateLastAssistantMessage prev (stream_update kind chunk))"

definition complete_message :: "message \<Rightarrow> message" where
  "complete_message m =
     (if msg_status m = Some Complete \<or> msg_status m = Some Errored then m
      else (finalizeMessage m None)\<lparr>msg_status := Some Complete\<rparr>)"

definition handleStreamComplete :: "(storage \<Rightarrow> bool) \<Rightarrow> chat_state \<Rightarrow> chat_state" where
  "handleStreamComplete fits =
     onMessageUpdate fits (\<lambda>prev. updateLastAssistantMessage prev complete_message)"

definition handleStreamError :: "(storage \<Rightarrow> bool) \<Rightarrow> jsval \<Rightarrow> jsval \<Rightarrow> chat_state \<Rightarrow> chat_state" where
  "handleStreamError fits err code s =
     onMessageUpdate fits (\<lambda>prev. updateAssistantMessageWithError prev err code)
       (s\<lparr>toasts := toasts s @ [err]\<rparr>)"

subsection \<open>Handlers of the event source\<close>

definition closeSource :: "nat \<Rightarrow> chat_state \<Rightarrow> chat_state" where
  "closeSource i s = s\<lparr>closedSources := closedSources s @ [i], sseSource := None\<rparr>"

definition handleError :: "(storage \<Rightarrow> bool) \<Rightarrow> nat \<Rightarrow> jsval \<Rightarrow> jsval \<Rightarrow> chat_state \<Rightarrow> chat_state" where
  "handleError fits i err code s =
     (if \<not> isStreamComplete s then closeSource i (handleStreamError fits err code s) else s)"

text \<open>\<^verbatim>\<open>v?.[k]\<close> on any value.\<close>

definition get_own :: "jsval \<Rightarrow> jsstring \<Rightarrow> jsval" where
  "get_own v k = val_at (own_props v) k"

definition on_delta :: "(storage \<Rightarrow> bool) \<Rightarrow> jsval \<Rightarrow> chat_state \<Rightarrow> chat_state" where
  "on_delta fits delta s =
     (let rc = get_own delta (js ''reasoning_content''); c = get_own delta (js ''content'');
          s1 = (if truthy rc then handleStreamUpdate fits Reasoning rc s else s)
      in if truthy c then handleStreamUpdate fits Content c s1 else s1)"

definition on_message :: "(storage \<Rightarrow> bool) \<Rightarrow> nat \<Rightarrow> jsstring \<Rightarrow> chat_state \<Rightarrow> chat_state" where
  "on_message fits i payload s =
     (if payload = js ''[DONE]''
      then handleStreamComplete fits (closeSource i (s\<lparr>isStreamComplete := True\<rparr>))
      else case json_parse payload of
             None \<Rightarrow> handleError fits i (JStr PARSE_ERROR) JUndef s
           | Some chunk \<Rightarrow>
               if chunk = JNull then handleError fits i (JStr PARSE_ERROR) JUndef s
               else let delta = get_own (get_own (get_own chunk (js ''choices'')) (js ''0'')) (js ''delta'')
                    in if truthy delta then on_delta fits delta s else s)"

definition on_error :: "(storage \<Rightarrow> bool) \<Rightarrow> nat \<Rightarrow> jsnum \<Rightarrow> jsstring option \<Rightarrow> chat_state \<Rightarrow> chat_state" where
  "on_error fits i readyState payload s =
     (if readyState \<noteq> Fin 2 then
        let text = (case payload of Some t \<Rightarrow> t | None \<Rightarrow> []);
            errorMessage = JStr (if text \<noteq> [] then text else API_REQUEST_ERROR);
            err = (if text \<noteq> [] then
                     (case json_parse text of Some p \<Rightarrow> get_own p (js ''error'') | None \<Rightarrow> JUndef)
                   else JUndef)
        in if truthy err
           then handleError fits i
                  (if truthy (get_own err (js ''message'')) then get_own err (js ''message'') else errorMessage)
                  (if truthy (get_own err (js ''code'')) then get_own err (js ''code'') else JUndef) s
           else handleError fits i errorMessage JUndef s
      else s)"

definition on_readystatechange ::
  "(storage \<Rightarrow> bool) \<Rightarrow> nat \<Rightarrow> jsnum option \<Rightarrow> jsnum option \<Rightarrow> chat_state \<Rightarrow> chat_state" where
  "on_readystatechange fits i readyState status s =
     (case (readyState, status) of
        (Some r, Some c) \<Rightarrow>
          if num_le (Fin 2) r \<and> c \<noteq> Fin 200
          then handleError fits i
                 (JStr (js ''HTTP '' @ num_to_str c @ js '': '' @ CONNECTION_CLOSED)) JUndef s
          else s
      | _ \<Rightarrow> s)"

text \<open>\<open>starts\<close> says whether \<^verbatim>\<open>source.stream()\<close> returns or throws. The payload that the source
  carries is recorded.\<close>

definition sendStreamRequest ::
  "(storage \<Rightarrow> bool) \<Rightarrow> bool \<Rightarrow> jsval props \<Rightarrow> chat_state \<Rightarrow> chat_state" where
  "sendStreamRequest fits starts payload s =
     (let s1 = s\<lparr>requests := requests s @ [payload], sseSource := Some (nextSource s), isStreamComplete := False, nextSource := Suc (nextSource s)\<rparr>
      in if starts then s1
         else (handleStreamError fits (JStr STREAM_START_ERROR) JUndef s1)\<lparr>sseSource := None\<rparr>)"

definition stopStream :: "chat_state \<Rightarrow> chat_state" where
  "stopStream s =
     (case sseSource s of
        Some i \<Rightarrow> s\<lparr>closedSources := closedSources s @ [i], sseSource := None\<rparr>
      | None \<Rightarrow> s)"

definition isStreaming :: "chat_state \<Rightarrow> bool" where
  "isStreaming s \<longleftrightarrow> sseSource s \<noteq> None"

subsection \<open>The chat handler\<close>

definition sendStreamingChat ::
  "(storage \<Rightarrow> bool) \<Rightarrow> bool \<Rightarrow> message list \<Rightarrow> chat_state \<Rightarrow> chat_state" where
  "sendStreamingChat fits starts ms s =
     sendStreamRequest fits starts
       (buildChatCompletionPayload ms (config (play s)) (parameterEnabled (play s))) s"

text \<open>The plain request up to its \<^verbatim>\<open>await\<close>; the rest of the function runs when the reply is there.\<close>

definition startNonStreamingChat :: "message list \<Rightarrow> chat_state \<Rightarrow> chat_state" where
  "startNonStreamingChat ms s =
     s\<lparr>requests := requests s @
         [buildChatCompletionPayload ms (config (play s)) (parameterEnabled (play s))]\<rparr>"

definition sendChat :: "(storage \<Rightarrow> bool) \<Rightarrow> bool \<Rightarrow> message list \<Rightarrow> chat_state \<Rightarrow> chat_state" where
  "sendChat fits starts ms s =
     (if truthy (val_at (config (play s)) (js ''stream''))
      then sendStreamingChat fits starts ms s else startNonStreamingChat ms s)"

text \<open>What a non-streaming request can return: the content and the reasoning of the first choice
  (\<open>None\<close> when there is no choice), or a failure with the texts that the handler reads.\<close>

datatype api_reply =
    Choice "jsstring option" "jsstring option"
  | NoChoice
  | Failure "jsstring option" "jsstring option" "jsstring option"

definition reply_message :: "jsstring option \<Rightarrow> jsstring option \<Rightarrow> message \<Rightarrow> message" where
  "reply_message content reasoning_content m =
     (finalizeMessage
        (m\<lparr>versions := [(case versions m of v # _ \<Rightarrow> v\<lparr>ver_content := or_str content []\<rparr>
             | [] \<Rightarrow> \<lparr>ver_id = [], ver_content = or_str content [], ver_images = None\<rparr>)]\<rparr>)
        reasoning_content)\<lparr>msg_status := Some Complete\<rparr>"

definition finishNonStreamingChat :: "(storage \<Rightarrow> bool) \<Rightarrow> api_reply \<Rightarrow> chat_state \<Rightarrow> chat_state" where
  "finishNonStreamingChat fits reply s =
     (case reply of
        NoChoice \<Rightarrow> s
      | Choice content rc \<Rightarrow>
          onMessageUpdate fits (\<lambda>prev. updateLastAssistantMessage prev (reply_message content rc)) s
      | Failure response_message msg code \<Rightarrow>
          handleStreamError fits (JStr (or_str response_message (or_str msg API_REQUEST_ERROR)))
            (case code of Some c \<Rightarrow> if c \<noteq> [] then JStr c else JUndef | None \<Rightarrow> JUndef) s)"

definition stop_message :: "message \<Rightarrow> message" where
  "stop_message m =
     (if msg_status m = Some Loading \<or> msg_status m = Some Streaming
      then (finalizeMessage m None)\<lparr>msg_status := Some Complete\<rparr> else m)"

definition stopGeneration :: "(storage \<Rightarrow> bool) \<Rightarrow> chat_state \<Rightarrow> chat_state" where
  "stopGeneration fits s =
     onMessageUpdate fits (\<lambda>prev. updateLastAssistantMessage prev stop_message) (stopStream s)"

definition guardAction :: "bool \<Rightarrow> (chat_state \<Rightarrow> chat_state) \<Rightarrow> chat_state \<Rightarrow> chat_state" where
  "guardAction isGenerating action s =
     (if isGenerating
      then s\<lparr>warnings := warnings s @ [js ''Please wait for the current generation to complete'']\<rparr>
      else action s)"

subsection \<open>Runs\<close>

datatype chat_event =
    SseMessage nat jsstring
  | SseError nat jsnum "jsstring option"
  | SseReadyState nat "jsnum option" "jsnum option"
  | Send bool "message list"
  | ApiReply api_reply
  | Stop

text \<open>The transitions of the chat: a request, an event of a source that exists, the reply to a plain request, and the stop button.\<close>

inductive chat_step :: "(storage \<Rightarrow> bool) \<Rightarrow> chat_state \<Rightarrow> chat_event \<Rightarrow> chat_state \<Rightarrow> bool"
  for fits where
  msg: "i < nextSource s \<Longrightarrow> chat_step fits s (SseMessage i d) (on_message fits i d s)"
| err: "i < nextSource s \<Longrightarrow> chat_step fits s (SseError i r d) (on_error fits i r d s)"
| ready: "i < nextSource s \<Longrightarrow> chat_step fits s (SseReadyState i r c) (on_readystatechange fits i r c s)"
| send: "chat_step fits s (Send starts ms) (sendChat fits starts ms s)"
| reply: "chat_step fits s (ApiReply r) (finishNonStreamingChat fits r s)"
| stop: "chat_step fits s Stop (stopGeneration fits s)"

inductive chat_run :: "(storage \<Rightarrow> bool) \<Rightarrow> chat_state \<Rightarrow> chat_event list \<Rightarrow> chat_state \<Rightarrow> bool"
  for fits where
  run_nil: "chat_run fits s [] s"
| run_cons: "chat_step fits s e t \<Longrightarrow> chat_run fits t es u \<Longrightarrow> chat_run fits s (e # es) u"

inductive_cases chat_stepE: "chat_step fits s e t"
inductive_simps chat_run_simps: "chat_run fits s [] t" "chat_run fits s (e # es) t"


lemmas handler_defs =
  handleStreamUpdate_def handleStreamComplete_def handleStreamError_def handleError_def
  on_message_def on_delta_def on_error_def on_readystatechange_def sendChat_def
  sendStreamingChat_def startNonStreamingChat_def sendStreamRequest_def
  finishNonStreamingChat_def stopGeneration_def

subsection \<open>What one update does\<close>

lemma play_close [simp]: "play (closeSource i s) = play s" "play (stopStream s) = play s"
  by (simp_all add: closeSource_def stopStream_def split: option.splits)

lemma msgs_update [simp]: "messages (play (onMessageUpdate fits f s)) = f (messages (play s))"
  by (simp add: onMessageUpdate_def board.msgs_upd)

lemma update_only_play [simp]:
  "sseSource (onMessageUpdate fits f s) = sseSource s"
  "isStreamComplete (onMessageUpdate fits f s) = isStreamComplete s"
  "nextSource (onMessageUpdate fits f s) = nextSource s"
  "closedSources (onMessageUpdate fits f s) = closedSources s"
  by (simp_all add: onMessageUpdate_def)

text \<open>Two message lists agree up to the last message, which keeps its key and its author.\<close>

definition same_history :: "message list \<Rightarrow> message list \<Rightarrow> bool" where
  "same_history ms ms' \<longleftrightarrow>
     butlast ms' = butlast ms \<and> map msg_key ms' = map msg_key ms \<and> map msg_from ms' = map msg_from ms"

lemma same_history_refl [simp]: "same_history ms ms"
  by (simp add: same_history_def)

lemma same_history_trans: "same_history a b \<Longrightarrow> same_history b c \<Longrightarrow> same_history a c"
  by (simp add: same_history_def)

lemma update_last_snoc:
  "updateLastAssistantMessage (ms @ [m]) f = ms @ [if msg_from m = RoleAssistant then f m else m]"
  by (simp add: updateLastAssistantMessage_def Let_def)

lemma update_last_Nil [simp]: "updateLastAssistantMessage [] f = []"
  by (simp add: updateLastAssistantMessage_def)

lemma update_last_history:
  assumes "\<And>m. msg_key (f m) = msg_key m \<and> msg_from (f m) = msg_from m"
  shows "same_history ms (updateLastAssistantMessage ms f)"
  using assms by (cases ms rule: rev_cases) (auto simp: update_last_snoc same_history_def)

lemma updater_keeps:
  "msg_key (stream_update k c m) = msg_key m \<and> msg_from (stream_update k c m) = msg_from m"
  "msg_key (complete_message m) = msg_key m \<and> msg_from (complete_message m) = msg_from m"
  "msg_key (stop_message m) = msg_key m \<and> msg_from (stop_message m) = msg_from m"
  "msg_key (reply_message a b m) = msg_key m \<and> msg_from (reply_message a b m) = msg_from m"
  by (auto simp: stream_update_def complete_message_def stop_message_def reply_message_def
      split: update_kind.splits)

lemma error_history: "same_history ms (updateAssistantMessageWithError ms e c)"
  unfolding updateAssistantMessageWithError_def by (rule update_last_history) simp

lemmas histories = update_last_history [OF updater_keeps(1)] update_last_history [OF updater_keeps(2)]
  update_last_history [OF updater_keeps(3)] update_last_history [OF updater_keeps(4)] error_history

lemma stream_error_history [simp]:
  "same_history (messages (play s)) (messages (play (handleStreamError fits e c s)))"
  by (simp add: handleStreamError_def histories)

lemma handle_error_history [simp]:
  "same_history (messages (play s)) (messages (play (handleError fits i e c s)))"
  by (simp add: handleError_def)

lemma delta_history: "same_history (messages (play s)) (messages (play (on_delta fits d s)))"
  using same_history_trans [OF histories(1) histories(1)]
  by (auto simp: on_delta_def Let_def handleStreamUpdate_def histories)

lemma step_history:
  "chat_step fits s e t \<Longrightarrow> same_history (messages (play s)) (messages (play t))"
proof (induction rule: chat_step.induct)
  case (msg i s d)
  then show ?case
    by (auto simp: on_message_def handleStreamComplete_def histories delta_history Let_def
        split: option.splits)
next
  case (err i s r d)
  then show ?case by (auto simp: on_error_def Let_def)
next
  case (ready i s r c)
  then show ?case by (auto simp: on_readystatechange_def split: option.splits)
next
  case (send s starts ms)
  have "same_history (messages (play s)) (messages (play (handleStreamError fits e c s')))"
    if "play s' = play s" for e c s'
    using stream_error_history [of s' fits e c] that by simp
  then show ?case
    by (simp add: sendChat_def sendStreamingChat_def sendStreamRequest_def startNonStreamingChat_def Let_def)
next
  case (reply s r)
  then show ?case by (cases r) (auto simp: finishNonStreamingChat_def histories)
next
  case (stop s)
  then show ?case by (simp add: stopGeneration_def histories)
qed


subsection \<open>Sources\<close>

definition source_inv :: "chat_state \<Rightarrow> bool" where
  "source_inv s \<longleftrightarrow>
     (\<forall>i. sseSource s = Some i \<longrightarrow> i < nextSource s \<and> i \<notin> set (closedSources s)) \<and>
     (\<forall>i\<in>set (closedSources s). i < nextSource s)"

lemma source_inv_update [simp]: "source_inv (onMessageUpdate fits f s) = source_inv s"
  by (simp add: source_inv_def)

lemma source_inv_toasts [simp]: "source_inv (s\<lparr>toasts := x\<rparr>) = source_inv s"
  "source_inv (s\<lparr>requests := y\<rparr>) = source_inv s" "source_inv (s\<lparr>isStreamComplete := b\<rparr>) = source_inv s"
  by (simp_all add: source_inv_def)

lemma source_inv_close: "source_inv s \<Longrightarrow> i < nextSource s \<Longrightarrow> source_inv (closeSource i s)"
  by (auto simp: source_inv_def closeSource_def)

lemma source_inv_error: "source_inv s \<Longrightarrow> i < nextSource s \<Longrightarrow> source_inv (handleError fits i e c s)"
  using source_inv_close [of "handleStreamError fits e c s" i]
  by (simp add: handleError_def handleStreamError_def)

lemma source_inv_step:
  assumes "chat_step fits s e t" "source_inv s"
  shows "source_inv t"
  using assms
proof (induction rule: chat_step.induct)
  case (msg i s d)
  then show ?case
    using source_inv_close [of "s\<lparr>isStreamComplete := True\<rparr>" i]
    by (auto simp: on_message_def handleStreamComplete_def on_delta_def handleStreamUpdate_def Let_def
        source_inv_error split: option.splits)
next
  case (err i s r d)
  then show ?case by (simp add: on_error_def Let_def source_inv_error)
next
  case (ready i s r c)
  then show ?case by (auto simp: on_readystatechange_def source_inv_error split: option.splits)
next
  case (send s starts ms)
  then show ?case
    by (auto simp: sendChat_def sendStreamingChat_def sendStreamRequest_def startNonStreamingChat_def
        Let_def handleStreamError_def source_inv_def)
next
  case (reply s r)
  then show ?case by (cases r) (simp_all add: finishNonStreamingChat_def handleStreamError_def)
next
  case (stop s)
  then show ?case
    by (auto simp: stopGeneration_def stopStream_def source_inv_def split: option.splits)
qed

subsection \<open>A chunk of content\<close>

definition chunk_json :: "jsstring \<Rightarrow> jsstring" where
  "chunk_json d = json_stringify (JObj [(js ''choices'', JArr [JObj [(js ''delta'',
     JObj [(js ''content'', JStr d)])]])])"

lemma chunk_not_done: "chunk_json d \<noteq> js ''[DONE]''"
  by (simp add: chunk_json_def json_stringify_def js_def)

lemma get_own_object: "\<not> list_all is_digit k \<Longrightarrow> get_own (JObj p) k = val_at p k"
  by (simp add: get_own_def)

lemma on_message_chunk:
  assumes "str_ok d" "d \<noteq> []"
  shows "on_message fits i (chunk_json d) s = handleStreamUpdate fits Content (JStr d) s"
proof -
  let ?v = "JObj [(js ''choices'', JArr [JObj [(js ''delta'', JObj [(js ''content'', JStr d)])]])]"
  have named: "\<not> is_index_key (js ''choices'')" "\<not> is_index_key (js ''delta'')" "\<not> is_index_key (js ''content'')"
    by (simp_all add: is_index_key_def js_def is_digit_def)
  have "json_ok ?v" using assms(1) by (simp add: props_ok_def props_keys_def named)
  then have parse: "json_parse (chunk_json d) = Some ?v" unfolding chunk_json_def by (rule json_round_trip)
  have "dec_str 0 = js ''0''" by code_simp
  then have "get_own (get_own (get_own ?v (js ''choices'')) (js ''0'')) (js ''delta'') =
      JObj [(js ''content'', JStr d)]"
    by (simp add: get_own_def val_at_def props_get_def)
  moreover have "get_own (JObj [(js ''content'', JStr d)]) (js ''reasoning_content'') = JUndef"
    "get_own (JObj [(js ''content'', JStr d)]) (js ''content'') = JStr d"
    by (simp_all add: get_own_def val_at_def props_get_def)
  ultimately show ?thesis
    using parse chunk_not_done [of d] assms(2) by (simp add: on_message_def on_delta_def Let_def)
qed

definition open_reply :: "message \<Rightarrow> bool" where
  "open_reply m \<longleftrightarrow> msg_from m = RoleAssistant \<and> msg_status m \<noteq> Some Errored \<and> msg_status m \<noteq> Some Complete"

lemma stream_chunks:
  assumes "list_all (\<lambda>d. str_ok d \<and> d \<noteq> []) ds" "messages (play s) = pre @ [m]" "open_reply m"
  shows "\<exists>m'. messages (play (foldl (\<lambda>s d. on_message fits i d s) s (map chunk_json ds))) = pre @ [m'] \<and>
    open_reply m' \<and> raw_content m' = raw_content m @ concat ds \<and> msg_key m' = msg_key m"
  using assms
proof (induction ds arbitrary: s m)
  case (Cons d ds)
  let ?m = "stream_update Content (JStr d) m"
  have m: "open_reply ?m" "raw_content ?m = raw_content m @ d" "msg_key ?m = msg_key m"
    using Cons.prems by (auto simp: open_reply_def stream_update_def raw_content_def
        processStreamingContent_def Let_def)
  have "messages (play (on_message fits i (chunk_json d) s)) = pre @ [?m]"
    using Cons.prems by (simp add: on_message_chunk handleStreamUpdate_def update_last_snoc open_reply_def)
  from Cons.IH [OF _ this m(1)] Cons.prems(1) m show ?case by auto
qed (auto simp: open_reply_def)

subsection \<open>Properties\<close>

text \<open>C18: a streamed reply ends complete with its visible text: after the content chunks of a reply
  and the end marker, the open assistant message has the visible text of the concatenated
  chunks, all earlier messages are as before, and the stream is closed.\<close>

theorem streamed_reply_completes:
  assumes "list_all (\<lambda>d. str_ok d \<and> d \<noteq> []) ds" "messages (play s) = pre @ [m]"
    and "open_reply m" "raw_content m = []"
  shows "let t = on_message fits i (js ''[DONE]'')
           (foldl (\<lambda>s d. on_message fits i d s) s (map chunk_json ds)) in
    (\<exists>m'. messages (play t) = pre @ [m'] \<and> msg_key m' = msg_key m \<and>
       msg_status m' = Some Complete \<and> isReasoningStreaming m' = Some False \<and>
       raw_content m' = visibleContent (parseThinkTags (concat ds))) \<and>
    \<not> isStreaming t \<and> isStreamComplete t \<and> i \<in> set (closedSources t)"
proof -
  let ?s = "foldl (\<lambda>s d. on_message fits i d s) s (map chunk_json ds)"
  obtain m' where m': "messages (play ?s) = pre @ [m']" "open_reply m'" "raw_content m' = concat ds"
    "msg_key m' = msg_key m"
    using stream_chunks [OF assms(1-3), of fits i] assms(4) by auto
  have "complete_message m' = (finalizeMessage m' None)\<lparr>msg_status := Some Complete\<rparr>"
    using m'(2) by (simp add: complete_message_def open_reply_def)
  moreover have "raw_content ((finalizeMessage m' None)\<lparr>msg_status := Some Complete\<rparr>) =
      visibleContent (parseThinkTags (concat ds))"
    using m'(3) raw_finalize [of m' None] by (simp add: raw_content_def)
  moreover have "isReasoningStreaming (finalizeMessage m' None) = Some False"
    by (simp add: finalizeMessage_def Let_def)
  ultimately show ?thesis
    using m' by (simp add: on_message_def handleStreamComplete_def update_last_snoc Let_def
        open_reply_def closeSource_def isStreaming_def)
qed

definition sample_chat :: chat_state where
  "sample_chat = \<lparr>play = sample_state\<lparr>messages := messages sample_state @
       [createLoadingAssistantMessage (js ''a'') (js ''b'')]\<rparr>,
     sseSource = Some 0, isStreamComplete = False, nextSource = 1, closedSources = [], requests = [],
     toasts = [], warnings = []\<rparr>"

theorem streamed_reply_completes_witness:
  "\<exists>m'. messages (play (on_message (\<lambda>_. True) 0 (js ''[DONE]'')
     (foldl (\<lambda>s d. on_message (\<lambda>_. True) 0 d s) sample_chat
        (map chunk_json [js ''<think>x'', js ''</think>ok''])))) =
     messages sample_state @ [m'] \<and> raw_content m' = js ''ok''"
proof -
  let ?ds = "[js ''<think>x'', js ''</think>ok'']"
  have 1: "list_all (\<lambda>d. str_ok d \<and> d \<noteq> []) ?ds" by simp
  have 2: "messages (play sample_chat) = messages sample_state @ [createLoadingAssistantMessage (js ''a'') (js ''b'')]"
    by (simp add: sample_chat_def)
  have 3: "open_reply (createLoadingAssistantMessage (js ''a'') (js ''b''))"
    "raw_content (createLoadingAssistantMessage (js ''a'') (js ''b'')) = []"
    by code_simp+
  have 4: "visibleContent (parseThinkTags (concat ?ds)) = js ''ok''" by code_simp
  show ?thesis
    using streamed_reply_completes [OF 1 2 3, of "\<lambda>_. True" 0] unfolding 4 Let_def by blast
qed

text \<open>C19: no event of a chat touches the history: in every run, with the event source delivering
  whatever it likes, all messages but the last stay as they were, and the last keeps its key
  and its author.\<close>

theorem chat_keeps_history:
  assumes "chat_run fits s es t"
  shows "same_history (messages (play s)) (messages (play t))"
  using assms
proof (induction rule: chat_run.induct)
  case (run_cons s e t es u)
  then show ?case using step_history same_history_trans by blast
qed simp

theorem chat_keeps_history_witness:
  "\<exists>t. chat_run (\<lambda>_. True) sample_chat [SseMessage 0 (js ''{''), Stop] t \<and>
     same_history (messages (play sample_chat)) (messages (play t))"
proof -
  let ?t = "stopGeneration (\<lambda>_. True) (on_message (\<lambda>_. True) 0 (js ''{'') sample_chat)"
  have "chat_step (\<lambda>_. True) sample_chat (SseMessage 0 (js ''{''))
      (on_message (\<lambda>_. True) 0 (js ''{'') sample_chat)"
    by (rule chat_step.msg) (simp add: sample_chat_def)
  then have "chat_run (\<lambda>_. True) sample_chat [SseMessage 0 (js ''{''), Stop] ?t"
    by (meson chat_run.intros chat_step.stop)
  then show ?thesis using chat_keeps_history by blast
qed

text \<open>in every run the current source is an open one: it exists and has not been closed.\<close>

theorem current_source_open:
  assumes "chat_run fits s es t" "source_inv s" "sseSource t = Some i"
  shows "i < nextSource t \<and> i \<notin> set (closedSources t)"
proof -
  have "source_inv t" using assms(1,2)
    by (induction rule: chat_run.induct) (auto intro: source_inv_step)
  then show ?thesis using assms(3) by (simp add: source_inv_def)
qed

theorem current_source_open_witness:
  "0 < nextSource sample_chat \<and> 0 \<notin> set (closedSources sample_chat)"
  using current_source_open [OF run_nil [of "\<lambda>_. True" sample_chat], of 0]
  by (simp add: sample_chat_def source_inv_def)


text \<open>The pending reply shows the error with its text and its code, and one notification is raised.\<close>

definition shows_error :: "message list \<Rightarrow> jsval \<Rightarrow> jsval \<Rightarrow> chat_state \<Rightarrow> chat_state \<Rightarrow> bool" where
  "shows_error pre failure code s t \<longleftrightarrow>
     (\<exists>m. messages (play t) = pre @ [m] \<and> msg_status m = Some Errored \<and>
        raw_content m = API_REQUEST_ERROR @ js '': '' @ to_str failure \<and> errorCode m = (if truthy code then code else JNull)) \<and>
     toasts t = toasts s @ [failure] \<and> \<not> isStreaming t"

lemma stream_error_shows:
  assumes "messages (play s) = pre @ [m]" "msg_from m = RoleAssistant"
  shows "shows_error pre failure code s ((handleStreamError fits failure code s)\<lparr>sseSource := None\<rparr>)"
  using assms
  by (auto simp: shows_error_def handleStreamError_def isStreaming_def updateAssistantMessageWithError_def
      update_last_snoc raw_content_def onMessageUpdate_def board.msgs_upd)

text \<open>What an event of a source reports: nothing once the stream is complete, before that an error, and
  the source is closed.\<close>

definition reports :: "message list \<Rightarrow> nat \<Rightarrow> jsval \<Rightarrow> jsval \<Rightarrow> chat_state \<Rightarrow> chat_state \<Rightarrow> bool" where
  "reports pre i failure code s t \<longleftrightarrow>
     (if isStreamComplete s then t = s else shows_error pre failure code s t \<and> i \<in> set (closedSources t))"

lemma handle_error_reports:
  assumes "messages (play s) = pre @ [m]" "msg_from m = RoleAssistant"
  shows "reports pre i failure code s (handleError fits i failure code s)"
proof -
  have "handleError fits i failure code s =
      (if isStreamComplete s then s
       else ((handleStreamError fits failure code s)\<lparr>sseSource := None\<rparr>)\<lparr>closedSources := closedSources s @ [i]\<rparr>)"
    by (simp add: handleError_def closeSource_def handleStreamError_def onMessageUpdate_def)
  then show ?thesis
    using stream_error_shows [OF assms, of failure code fits] by (simp add: reports_def shows_error_def isStreaming_def)
qed

text \<open>The text and the code of an error event: those of the error object that its data names, else its
  data, else the general message.\<close>

definition error_info :: "jsstring option \<Rightarrow> jsval" where
  "error_info data =
     (case data of
        Some d \<Rightarrow> (case json_parse d of Some p \<Rightarrow> get_own p (js ''error'') | None \<Rightarrow> JUndef)
      | None \<Rightarrow> JUndef)"

definition error_text :: "jsstring option \<Rightarrow> jsval" where
  "error_text data = val_or (get_own (error_info data) (js ''message'')) (JStr (or_str data API_REQUEST_ERROR))"

definition error_code :: "jsstring option \<Rightarrow> jsval" where
  "error_code data = val_or (get_own (error_info data) (js ''code'')) JUndef"

lemma falsy_own: "\<not> truthy v \<Longrightarrow> get_own v k = JUndef"
  by (cases v) (auto simp: get_own_def val_at_def props_get_def)

lemma on_error_reported:
  assumes "r \<noteq> Fin 2"
  shows "on_error fits i r data s = handleError fits i (error_text data) (error_code data) s"
proof -
  have "json_parse [] = None" by code_simp
  then have info: "(if or_str data [] \<noteq> [] then
      (case json_parse (or_str data []) of Some p \<Rightarrow> get_own p (js ''error'') | None \<Rightarrow> JUndef) else JUndef) = error_info data"
    by (auto simp: error_info_def or_str_def split: option.splits)
  have texts: "(case data of Some t \<Rightarrow> t | None \<Rightarrow> []) = or_str data []"
    "(if or_str data [] \<noteq> [] then or_str data [] else API_REQUEST_ERROR) = or_str data API_REQUEST_ERROR"
    by (auto simp: or_str_def split: option.splits)
  show ?thesis
    using assms falsy_own [of "error_info data"]
    unfolding on_error_def texts Let_def info error_text_def error_code_def val_or_def
    by (cases "truthy (error_info data)") simp_all
qed

text \<open>C20: the failures of a stream are visible. A message that is not JSON or is null, a status other
  than 200 when the connection ends, and an error event of a source that is not closed yet (its
  \<^verbatim>\<open>readyState\<close> is not 2) turn the pending reply into an error with the text of the failure, raise one
  notification and close the source while the stream is not complete; once it is complete they change
  nothing. An error event of a closed source changes nothing. A stream that cannot be started is an
  error too, whatever the stream before it did. (Hypotheses: the last message is the reply of the
  assistant; the message in the data of an error event is a value that converts to a text.)\<close>

theorem stream_failures_reported:
  assumes "messages (play s) = pre @ [m]" "msg_from m = RoleAssistant"
  shows "(\<forall>d t. chat_step fits s (SseMessage i d) t \<and> d \<noteq> js ''[DONE]'' \<and> json_parse d \<in> {None, Some JNull} \<longrightarrow>
       reports pre i (JStr PARSE_ERROR) JUndef s t) \<and>
    (\<forall>r c t. chat_step fits s (SseReadyState i (Some r) (Some c)) t \<and> num_le (Fin 2) r \<and> c \<noteq> Fin 200 \<longrightarrow>
       reports pre i (JStr (js ''HTTP '' @ num_to_str c @ js '': '' @ CONNECTION_CLOSED)) JUndef s t) \<and>
    (\<forall>r data t. chat_step fits s (SseError i r data) t \<longrightarrow>
       (if r = Fin 2 then t = s
        else \<not> str_throws (error_text data) \<longrightarrow> reports pre i (error_text data) (error_code data) s t)) \<and>
    (\<forall>ms t. chat_step fits s (Send False ms) t \<and> truthy (val_at (config (play s)) (js ''stream'')) \<longrightarrow>
       shows_error pre (JStr STREAM_START_ERROR) JUndef s t)"
proof (intro conjI allI impI)
  fix d t assume "chat_step fits s (SseMessage i d) t \<and> d \<noteq> js ''[DONE]'' \<and> json_parse d \<in> {None, Some JNull}"
  then show "reports pre i (JStr PARSE_ERROR) JUndef s t"
    using handle_error_reports [OF assms] by (auto simp: on_message_def elim: chat_stepE)
next
  fix r c t assume "chat_step fits s (SseReadyState i (Some r) (Some c)) t \<and> num_le (Fin 2) r \<and> c \<noteq> Fin 200"
  then show "reports pre i (JStr (js ''HTTP '' @ num_to_str c @ js '': '' @ CONNECTION_CLOSED)) JUndef s t"
    using handle_error_reports [OF assms] by (auto simp: on_readystatechange_def elim: chat_stepE)
next
  fix r data t assume "chat_step fits s (SseError i r data) t"
  then have t: "t = on_error fits i r data s" by (auto elim: chat_stepE)
  show "if r = Fin 2 then t = s
    else \<not> str_throws (error_text data) \<longrightarrow> reports pre i (error_text data) (error_code data) s t"
  proof (cases "r = Fin 2")
    case False
    then show ?thesis using handle_error_reports [OF assms] on_error_reported [OF False] by (simp add: t)
  qed (simp add: t on_error_def)
next
  fix ms t assume a: "chat_step fits s (Send False ms) t \<and> truthy (val_at (config (play s)) (js ''stream''))"
  define s1 where "s1 = s\<lparr>requests := requests s @ [buildChatCompletionPayload ms (config (play s)) (parameterEnabled (play s))],
      sseSource := Some (nextSource s), isStreamComplete := False, nextSource := Suc (nextSource s)\<rparr>"
  have "t = (handleStreamError fits (JStr STREAM_START_ERROR) JUndef s1)\<lparr>sseSource := None\<rparr>"
    using a by (auto simp: sendChat_def sendStreamingChat_def sendStreamRequest_def s1_def Let_def elim: chat_stepE)
  then show "shows_error pre (JStr STREAM_START_ERROR) JUndef s t"
    using stream_error_shows [of s1 pre m "JStr STREAM_START_ERROR" JUndef fits] assms
    by (simp add: s1_def shows_error_def)
qed

theorem stream_failures_reported_witness:
  "reports (messages sample_state) 0 (JStr (js ''no quota'')) (JStr (js ''quota'')) sample_chat
     (on_error (\<lambda>_. True) 0 (Fin 1) (Some (js ''{\"error\":{\"message\":\"no quota\",\"code\":\"quota\"}}'')) sample_chat) \<and>
   \<not> isStreamComplete sample_chat"
proof -
  let ?d = "Some (js ''{\"error\":{\"message\":\"no quota\",\"code\":\"quota\"}}'')"
  have 1: "messages (play sample_chat) = messages sample_state @ [createLoadingAssistantMessage (js ''a'') (js ''b'')]"
    by (simp add: sample_chat_def)
  have 2: "msg_from (createLoadingAssistantMessage (js ''a'') (js ''b'')) = RoleAssistant"
    by (simp add: createLoadingAssistantMessage_def)
  have 3: "chat_step (\<lambda>_. True) sample_chat (SseError 0 (Fin 1) ?d) (on_error (\<lambda>_. True) 0 (Fin 1) ?d sample_chat)"
    by (rule chat_step.err) (simp add: sample_chat_def)
  have 4: "error_text ?d = JStr (js ''no quota'')" "error_code ?d = JStr (js ''quota'')"
    by code_simp+
  have "Fin 1 \<noteq> Fin 2" "\<not> isStreamComplete sample_chat" by (simp_all add: sample_chat_def)
  then show ?thesis
    using stream_failures_reported [OF 1 2, of "\<lambda>_. True" 0, THEN conjunct2, THEN conjunct2, THEN conjunct1,
        rule_format, OF 3] 4 by simp
qed

definition errored :: "message list \<Rightarrow> bool" where
  "errored ms \<longleftrightarrow> ms \<noteq> [] \<and> msg_status (last ms) = Some Errored"

lemma errored_update:
  assumes "errored ms" "\<And>m. msg_status m = Some Errored \<Longrightarrow> msg_status (f m) = Some Errored"
  shows "errored (updateLastAssistantMessage ms f)"
  using assms by (cases ms rule: rev_cases) (auto simp: errored_def update_last_snoc)

lemma errored_updaters:
  "errored ms \<Longrightarrow> errored (updateLastAssistantMessage ms (stream_update k c))"
  "errored ms \<Longrightarrow> errored (updateLastAssistantMessage ms complete_message)"
  "errored ms \<Longrightarrow> errored (updateLastAssistantMessage ms stop_message)"
  "errored ms \<Longrightarrow> errored (updateAssistantMessageWithError ms e code)"
  unfolding updateAssistantMessageWithError_def
  by (erule errored_update; simp add: stream_update_def complete_message_def stop_message_def)+

lemma errored_handle: "errored (messages (play s)) \<Longrightarrow> errored (messages (play (handleError fits i e c s)))"
  by (simp add: handleError_def handleStreamError_def errored_updaters)

lemma errored_step:
  assumes "chat_step fits s e t" "errored (messages (play s))" "\<nexists>a b. e = ApiReply (Choice a b)"
  shows "errored (messages (play t))"
  using assms
proof (induction rule: chat_step.induct)
  case (msg i s d)
  then show ?case
    by (auto simp: on_message_def handleStreamComplete_def on_delta_def handleStreamUpdate_def Let_def
        errored_updaters errored_handle split: option.splits)
next
  case (err i s r d)
  then show ?case by (simp add: on_error_def Let_def errored_handle)
next
  case (ready i s r c)
  then show ?case by (auto simp: on_readystatechange_def errored_handle split: option.splits)
next
  case (send s starts ms)
  then show ?case
    by (simp add: sendChat_def sendStreamingChat_def sendStreamRequest_def startNonStreamingChat_def
        Let_def handleStreamError_def errored_updaters)
next
  case (reply s r)
  then show ?case by (cases r) (auto simp: finishNonStreamingChat_def handleStreamError_def errored_updaters)
next
  case (stop s)
  then show ?case by (simp add: stopGeneration_def errored_updaters)
qed

text \<open>an error stays visible: in every run without a new reply to a plain request, a message that
  shows an error never turns back into a streaming or complete one.\<close>

theorem errors_stay_visible:
  assumes "chat_run fits s es t" "errored (messages (play s))"
    and "list_all (\<lambda>e. \<nexists>a b. e = ApiReply (Choice a b)) es"
  shows "errored (messages (play t))"
  using assms
proof (induction rule: chat_run.induct)
  case (run_cons s e t es u)
  then have "errored (messages (play t))" by (intro errored_step [OF run_cons.hyps(1)]) auto
  then show ?case using run_cons by simp
qed simp

theorem errors_stay_visible_witness:
  "\<exists>t. chat_run (\<lambda>_. True) (on_message (\<lambda>_. True) 0 (js ''{'') sample_chat) [Stop] t \<and>
     errored (messages (play t))"
proof -
  let ?s = "on_message (\<lambda>_. True) 0 (js ''{'') sample_chat"
  have run: "chat_run (\<lambda>_. True) ?s [Stop] (stopGeneration (\<lambda>_. True) ?s)"
    by (meson chat_run.intros chat_step.stop)
  have "errored (messages (play ?s))" by code_simp
  then show ?thesis using errors_stay_visible [OF run] run by auto
qed

text \<open>stopping settles the pending reply: afterwards no source is current, the one that was
  current is closed, and the last message is not pending.\<close>

theorem stop_settles_reply:
  "\<not> isStreaming (stopGeneration fits s) \<and>
   set (closedSources (stopGeneration fits s)) = set (closedSources s) \<union> set_option (sseSource s) \<and>
   (\<nexists>ms m. messages (play (stopGeneration fits s)) = ms @ [m] \<and> stuck m)"
proof -
  have "\<not> stuck (stop_message m)" for m by (auto simp: stop_message_def stuck_def)
  then have "updateLastAssistantMessage ms' stop_message \<noteq> ms @ [m]" if "stuck m" for ms' ms m
    using that by (cases ms' rule: rev_cases) (auto simp: update_last_snoc stuck_def)
  then have "\<nexists>ms m. messages (play (stopGeneration fits s)) = ms @ [m] \<and> stuck m"
    by (auto simp: stopGeneration_def)
  moreover have "\<not> isStreaming (stopGeneration fits s)"
    "set (closedSources (stopGeneration fits s)) = set (closedSources s) \<union> set_option (sseSource s)"
    by (simp_all add: stopGeneration_def isStreaming_def stopStream_def split: option.splits)
  ultimately show ?thesis by blast
qed

end
