(* ===== verification/JS_Pretty.thy ===== *)
theory JS_Pretty
  imports JS_Json
begin

text \<open>
  \<^verbatim>\<open>JSON.stringify(v, null, 2)\<close>: the indented layout, one element or member per line.
  White space between tokens does not change what is read, so the indented text of a value that
  JSON carries reads back as the value; \<open>pretty\<close> is a second interpretation of the codec contract.
\<close>

definition nl :: "nat \<Rightarrow> jsstring" where
  "nl k = 10 # replicate (2 * k) 32"

fun pretty_text :: "nat \<Rightarrow> jsval \<Rightarrow> jsstring option" where
  "pretty_text k (JArr xs) =
     Some (if xs = [] then [91, 93]
           else [91] @ join [44] (map (\<lambda>x. nl (Suc k) @
                  (case pretty_text (Suc k) x of Some t \<Rightarrow> t | None \<Rightarrow> js ''null'')) xs) @ nl k @ [93])"
| "pretty_text k (JObj ps) =
     (let members = concat (map (\<lambda>kv. case pretty_text (Suc k) (snd kv) of
            Some t \<Rightarrow> [nl (Suc k) @ json_quote (fst kv) @ [58, 32] @ t] | None \<Rightarrow> []) ps)
      in Some (if members = [] then [123, 125]
               else [123] @ join [44] members @ nl k @ [125]))"
| "pretty_text k v = json_text v"

definition json_stringify2 :: "jsval \<Rightarrow> jsstring" where
  "json_stringify2 v = (case pretty_text 0 v of Some t \<Rightarrow> t | None \<Rightarrow> js ''undefined'')"

subsection \<open>White space before a token\<close>

lemma skip_ws_nl [simp]: "skip_ws (nl k @ s) = skip_ws s"
  by (simp add: skip_ws_def nl_def is_json_ws_def dropWhile_append)

lemma skip_ws_space [simp]: "skip_ws (32 # s) = skip_ws s"
  by (simp add: skip_ws_def is_json_ws_def)

lemma parse_val_skip: "skip_ws s = skip_ws t \<Longrightarrow> parse_val n s = parse_val n t"
  by (cases n) simp_all

lemma parse_members_skip: "skip_ws s = skip_ws t \<Longrightarrow> parse_members n s = parse_members n t"
  by (cases n) simp_all

lemma value_end_nl [simp]: "value_end (nl k @ r)"
  by (simp add: value_end_def nl_def)

subsection \<open>Reading an indented value\<close>

definition pretty_reads :: "jsval \<Rightarrow> bool" where
  "pretty_reads v \<longleftrightarrow>
     (\<forall>k. \<exists>t m. pretty_text k v = Some t \<and>
        (\<forall>n r. m \<le> n \<longrightarrow> value_end r \<longrightarrow> parse_val n (t @ r) = Some (v, r)))"

definition pretty_of :: "nat \<Rightarrow> jsval \<Rightarrow> jsstring" where
  "pretty_of k v = (case pretty_text k v of Some t \<Rightarrow> t | None \<Rightarrow> js ''null'')"

lemma pretty_readsE:
  assumes "pretty_reads v"
  obtains m where "pretty_text k v = Some (pretty_of k v)"
    "\<And>n r. m \<le> n \<Longrightarrow> value_end r \<Longrightarrow> parse_val n (pretty_of k v @ r) = Some (v, r)"
proof -
  obtain t m where t: "pretty_text k v = Some t"
    "\<And>n r. m \<le> n \<Longrightarrow> value_end r \<Longrightarrow> parse_val n (t @ r) = Some (v, r)"
    using assms unfolding pretty_reads_def by blast
  then have "pretty_of k v = t" by (simp add: pretty_of_def)
  with t show thesis using that by blast
qed

lemma pretty_reads_scalar:
  assumes "reads_back v" "\<And>k. pretty_text k v = json_text v"
  shows "pretty_reads v"
  using assms unfolding pretty_reads_def reads_back_def by metis

lemma parse_elems_pretty:
  "xs \<noteq> [] \<Longrightarrow> \<forall>x\<in>set xs. pretty_reads x \<Longrightarrow>
   \<exists>m. \<forall>n r. m \<le> n \<longrightarrow>
     parse_elems n (join [44] (map (\<lambda>x. nl (Suc k) @ pretty_of (Suc k) x) xs) @ nl k @ 93 # r) = Some (xs, r)"
proof (induction xs)
  case (Cons x xs)
  let ?t = "\<lambda>x. nl (Suc k) @ pretty_of (Suc k) x"
  obtain m where m: "\<And>n r. m \<le> n \<Longrightarrow> value_end r \<Longrightarrow> parse_val n (pretty_of (Suc k) x @ r) = Some (x, r)"
    using Cons.prems(2) by (metis list.set_intros(1) pretty_readsE)
  then have m': "parse_val n (?t x @ r) = Some (x, r)" if "m \<le> n" "value_end r" for n r
    using that parse_val_skip [of "?t x @ r" "pretty_of (Suc k) x @ r" n] by simp
  show ?case
  proof (cases xs)
    case Nil
    have "parse_elems n (?t x @ nl k @ 93 # r) = Some ([x], r)" if "Suc m \<le> n" for n r
      using that m' [of "n - 1" "nl k @ 93 # r"]
      by (cases n) (auto simp: skip_ws_unit is_json_ws_def)
    with Nil show ?thesis by auto
  next
    case (Cons y ys)
    then obtain j where j: "\<And>n r. j \<le> n \<Longrightarrow>
        parse_elems n (join [44] (map ?t xs) @ nl k @ 93 # r) = Some (xs, r)"
      using Cons.IH Cons.prems(2) by auto
    have "parse_elems n (?t x @ [44] @ join [44] (map ?t xs) @ nl k @ 93 # r) = Some (x # xs, r)"
      if "Suc (max m j) \<le> n" for n r
      using that m' [of "n - 1" "44 # join [44] (map ?t xs) @ nl k @ 93 # r"] value_end_units
        j [of "n - 1" r]
      by (cases n) (auto simp: skip_ws_unit is_json_ws_def)
    with Cons show ?thesis by auto
  qed
qed simp

definition pretty_member :: "nat \<Rightarrow> jsstring \<times> jsval \<Rightarrow> jsstring" where
  "pretty_member k kv = nl k @ json_quote (fst kv) @ [58, 32] @ pretty_of k (snd kv)"

lemma parse_members_pretty:
  "ps \<noteq> [] \<Longrightarrow> \<forall>kv\<in>set ps. str_ok (fst kv) \<and> pretty_reads (snd kv) \<Longrightarrow>
   \<exists>m. \<forall>n r. m \<le> n \<longrightarrow>
     parse_members n (join [44] (map (pretty_member (Suc k)) ps) @ nl k @ 125 # r) = Some (ps, r)"
proof (induction ps)
  case (Cons kv ps)
  let ?t = "pretty_member (Suc k)"
  obtain key v where kv: "kv = (key, v)" by (cases kv)
  obtain m where m: "\<And>n r. m \<le> n \<Longrightarrow> value_end r \<Longrightarrow> parse_val n (pretty_of (Suc k) v @ r) = Some (v, r)"
    using Cons.prems(2) by (metis kv list.set_intros(1) pretty_readsE snd_conv)
  have val: "parse_val n (32 # pretty_of (Suc k) v @ r) = Some (v, r)" if "m \<le> n" "value_end r" for n r
    using that m parse_val_skip [of "32 # pretty_of (Suc k) v @ r" "pretty_of (Suc k) v @ r" n] by simp
  have key: "parse_chars (quote_units key @ 34 # r) = Some (key, r)" for r
    using Cons.prems(2) by (simp add: kv parse_chars_quote_units)
  show ?case
  proof (cases ps)
    case Nil
    have "parse_members n (?t kv @ nl k @ 125 # r) = Some ([kv], r)" if "Suc m \<le> n" for n r
      using that val [of "n - 1" "nl k @ 125 # r"] key
      by (cases n) (auto simp: kv pretty_member_def json_quote_def skip_ws_unit is_json_ws_def)
    with Nil show ?thesis by auto
  next
    case (Cons y ys)
    then obtain j where j: "\<And>n r. j \<le> n \<Longrightarrow>
        parse_members n (join [44] (map ?t ps) @ nl k @ 125 # r) = Some (ps, r)"
      using Cons.IH Cons.prems(2) by auto
    have "parse_members n (?t kv @ [44] @ join [44] (map ?t ps) @ nl k @ 125 # r) = Some (kv # ps, r)"
      if "Suc (max m j) \<le> n" for n r
      using that val [of "n - 1" "44 # join [44] (map ?t ps) @ nl k @ 125 # r"] value_end_units
        j [of "n - 1" r] key
      by (cases n) (auto simp: kv pretty_member_def json_quote_def skip_ws_unit is_json_ws_def)
    with Cons show ?thesis by auto
  qed
qed simp


lemma skip_ws_idem: "skip_ws (skip_ws s) = skip_ws s"
  by (simp add: skip_ws_def)

lemma parse_elems_skip: "skip_ws s = skip_ws t \<Longrightarrow> parse_elems n s = parse_elems n t"
  by (cases n) (simp_all add: parse_val_skip [of s t])

lemma parse_val_start:
  assumes "parse_val n s = Some x"
  obtains d r where "skip_ws s = d # r" "d \<noteq> 93"
  using assms by (cases n; cases "skip_ws s") (auto simp: parse_keyword_def js_def is_digit_def split: if_splits)

lemma parse_elems_start:
  assumes "parse_elems n s = Some x"
  obtains d r where "skip_ws s = d # r" "d \<noteq> 93"
proof -
  obtain k where "n = Suc k" using assms by (cases n) auto
  with assms obtain y where "parse_val k s = Some y" by (auto split: option.splits)
  then show thesis using parse_val_start that by blast
qed

lemma parse_members_start:
  assumes "parse_members n s = Some x"
  obtains r where "skip_ws s = 34 # r"
  using assms by (cases n; cases "skip_ws s") (auto split: if_splits)

lemma pretty_reads_arr:
  assumes "\<forall>x\<in>set xs. pretty_reads x"
  shows "pretty_reads (JArr xs)"
  unfolding pretty_reads_def
proof
  fix k
  show "\<exists>t m. pretty_text k (JArr xs) = Some t \<and>
        (\<forall>n r. m \<le> n \<longrightarrow> value_end r \<longrightarrow> parse_val n (t @ r) = Some (JArr xs, r))"
  proof (cases "xs = []")
    case True
    have "parse_val n ([91, 93] @ r) = Some (JArr [], r)" if "1 \<le> n" for n r
      using that by (cases n) (auto simp: skip_ws_unit is_json_ws_def)
    with True show ?thesis by auto
  next
    case False
    define body where "body = join [44] (map (\<lambda>x. nl (Suc k) @ pretty_of (Suc k) x) xs) @ nl k"
    obtain m where m: "\<And>n r. m \<le> n \<Longrightarrow> parse_elems n (body @ 93 # r) = Some (xs, r)"
      using parse_elems_pretty [OF False assms, of k] unfolding body_def by auto
    have "parse_val n (([91] @ body @ [93]) @ r) = Some (JArr xs, r)" if n: "Suc m \<le> n" for n r
    proof -
      obtain j where j: "n = Suc j" "m \<le> j" using n by (cases n) auto
      obtain d q where d: "skip_ws (body @ 93 # r) = d # q" "d \<noteq> 93"
        using parse_elems_start [OF m [OF j(2)]] by blast
      have "parse_elems j (d # q) = Some (xs, r)"
        using m [OF j(2), of r] parse_elems_skip [of "d # q" "body @ 93 # r" j]
        unfolding d(1) [symmetric] skip_ws_idem by simp
      then show ?thesis using d j(1) by (simp add: skip_ws_unit is_json_ws_def)
    qed
    then show ?thesis using False by (auto simp: body_def pretty_of_def)
  qed
qed

lemma pretty_reads_obj:
  assumes "\<forall>kv\<in>set ps. str_ok (fst kv) \<and> pretty_reads (snd kv)" "props_ok ps" "props_ordered ps"
  shows "pretty_reads (JObj ps)"
  unfolding pretty_reads_def
proof
  fix k
  have texts: "concat (map (\<lambda>kv. case pretty_text (Suc k) (snd kv) of
      Some t \<Rightarrow> [nl (Suc k) @ json_quote (fst kv) @ [58, 32] @ t] | None \<Rightarrow> []) qs) =
      map (pretty_member (Suc k)) qs" if "\<forall>kv\<in>set qs. pretty_reads (snd kv)" for qs
    using that
  proof (induction qs)
    case (Cons q qs)
    then have "pretty_text (Suc k) (snd q) = Some (pretty_of (Suc k) (snd q))"
      using pretty_readsE [of "snd q" "Suc k"] by fastforce
    with Cons show ?case by (simp add: pretty_member_def)
  qed simp
  show "\<exists>t m. pretty_text k (JObj ps) = Some t \<and>
        (\<forall>n r. m \<le> n \<longrightarrow> value_end r \<longrightarrow> parse_val n (t @ r) = Some (JObj ps, r))"
  proof (cases "ps = []")
    case True
    have "parse_val n ([123, 125] @ r) = Some (JObj [], r)" if "1 \<le> n" for n r
      using that by (cases n) (auto simp: skip_ws_unit is_json_ws_def)
    with True show ?thesis by auto
  next
    case False
    define body where "body = join [44] (map (pretty_member (Suc k)) ps) @ nl k"
    obtain m where m: "\<And>n r. m \<le> n \<Longrightarrow> parse_members n (body @ 125 # r) = Some (ps, r)"
      using parse_members_pretty [OF False assms(1), of k] unfolding body_def by auto
    have "parse_val n (([123] @ body @ [125]) @ r) = Some (JObj ps, r)" if n: "Suc m \<le> n" for n r
    proof -
      obtain j where j: "n = Suc j" "m \<le> j" using n by (cases n) auto
      obtain q where q: "skip_ws (body @ 125 # r) = 34 # q"
        using parse_members_start [OF m [OF j(2)]] by blast
      have "parse_members j (34 # q) = Some (ps, r)"
        using m [OF j(2), of r] parse_members_skip [of "34 # q" "body @ 125 # r" j]
        unfolding q(1) [symmetric] skip_ws_idem by simp
      then show ?thesis using q j(1) props_rebuild [OF assms(2,3)] by (simp add: skip_ws_unit is_json_ws_def)
    qed
    then show ?thesis using False texts [of ps] assms(1) by (auto simp: body_def Let_def)
  qed
qed

lemma json_ok_pretty_reads: "json_ok v \<Longrightarrow> pretty_reads v"
proof (induction v)
  case (JArr xs)
  then show ?case by (auto simp: list_all_iff intro!: pretty_reads_arr)
next
  case (JObj ps)
  then show ?case by (intro pretty_reads_obj) (auto simp: list_all_iff)
qed (auto intro!: pretty_reads_scalar json_ok_reads_back)

lemma pretty_round_trip: "json_ok v \<Longrightarrow> json_parse (json_stringify2 v) = Some v"
proof -
  assume "json_ok v"
  then obtain m where p: "pretty_text 0 v = Some (pretty_of 0 v)"
    and m: "\<And>n r. m \<le> n \<Longrightarrow> value_end r \<Longrightarrow> parse_val n (pretty_of 0 v @ r) = Some (v, r)"
    using json_ok_pretty_reads pretty_readsE by metis
  define s where "s = json_stringify2 v"
  have s: "s = pretty_of 0 v" using p by (simp add: s_def json_stringify2_def)
  have "parse_val (2 * length s + 2) s = parse_val (max m (2 * length s + 1)) s"
    using parse_val_fuel [of s "max m (2 * length s + 1)"] by simp
  also have "\<dots> = Some (v, [])"
    using m [of "max m (2 * length s + 1)" "[]"] value_end_units(4) s by simp
  finally show ?thesis unfolding s_def [symmetric] by (simp add: json_parse_def skip_ws_def)
qed

interpretation pretty: text_codec json_stringify2 json_parse json_ok
  by unfold_locales (rule pretty_round_trip)

end
