(* ===== verification/AdvancedCustom.thy ===== *)
theory AdvancedCustom
  imports JS_Pretty
begin

text \<open>
  Routes of the advanced custom channel:
  \<^verbatim>\<open>web/default/src/features/channels/lib/advanced-custom.ts\<close> with the types of
  \<^verbatim>\<open>features/channels/types.ts\<close>.

  A configuration is a record of routes whose properties are all optional. \<^verbatim>\<open>new URL(...)\<close> of the
  browser is the parameter \<open>url\<close>: the host and the protocol of a text that is a URL, \<open>None\<close> when
  the constructor throws. Parsed JSON is cast without a check; a route with a property that is
  not a string is reported as \<open>IllTypedConfig\<close>.
\<close>

record route_auth =
  auth_type :: "jsstring option"
  auth_name :: "jsstring option"
  auth_value :: "jsstring option"

record ac_route =
  incoming_path :: "jsstring option"
  upstream_path :: "jsstring option"
  converter :: "jsstring option"
  auth :: "route_auth option"

record ac_config =
  advanced_routes :: "ac_route list option"

type_synonym url_parser = "jsstring \<Rightarrow> (jsstring \<times> jsstring) option"

subsection \<open>Tables\<close>

definition ADVANCED_CUSTOM_MODEL_LIST_PATH :: jsstring where
  "ADVANCED_CUSTOM_MODEL_LIST_PATH = js ''/v1/models''"

definition ADVANCED_CUSTOM_CONVERTER_OPTIONS :: "(jsstring \<times> jsstring) list" where
  "ADVANCED_CUSTOM_CONVERTER_OPTIONS =
     [(js ''none'', js ''Native forwarding''),
      (js ''anthropic_messages_to_openai_chat_completions'', js ''Anthropic Messages to OpenAI Chat''),
      (js ''openai_chat_completions_to_anthropic_messages'', js ''OpenAI Chat to Anthropic Messages''),
      (js ''openai_chat_completions_to_openai_responses'', js ''OpenAI Chat to OpenAI Responses''),
      (js ''gemini_generate_content_to_openai_chat_completions'', js ''Gemini Generate Content to OpenAI Chat''),
      (js ''openai_chat_completions_to_gemini_generate_content'', js ''OpenAI Chat to Gemini Generate Content'')]"

definition ADVANCED_CUSTOM_AUTH_MODE_OPTIONS :: "(jsstring \<times> jsstring) list" where
  "ADVANCED_CUSTOM_AUTH_MODE_OPTIONS =
     [(js ''default'', js ''Default Bearer''), (js ''none'', js ''No Auth''),
      (js ''header'', js ''Header''), (js ''query'', js ''Query'')]"

definition ADVANCED_CUSTOM_INCOMING_PATH_OPTIONS :: "(jsstring \<times> jsstring) list" where
  "ADVANCED_CUSTOM_INCOMING_PATH_OPTIONS =
     [(js ''/v1/chat/completions'', js ''OpenAI Chat''),
      (js ''/v1/responses'', js ''OpenAI Responses''),
      (js ''/v1/responses/compact'', js ''OpenAI Responses Compact''),
      (js ''/v1/models'', js ''OpenAI Models''),
      (js ''/v1/embeddings'', js ''OpenAI Embeddings''),
      (js ''/v1/images/generations'', js ''OpenAI Image Generations''),
      (js ''/v1/images/edits'', js ''OpenAI Image Edits''),
      (js ''/v1/completions'', js ''OpenAI Completions''),
      (js ''/v1/audio/speech'', js ''OpenAI Audio Speech''),
      (js ''/v1/audio/transcriptions'', js ''OpenAI Audio Transcriptions''),
      (js ''/v1/audio/translations'', js ''OpenAI Audio Translations''),
      (js ''/v1/rerank'', js ''OpenAI Rerank''),
      (js ''/v1/realtime'', js ''OpenAI Realtime''),
      (js ''/v1/messages'', js ''Claude Messages''),
      (js ''/v1beta/models/{model}:generateContent'', js ''Gemini Generate Content''),
      (js ''/v1beta/models/{model}:embedContent'', js ''Gemini Embed Content''),
      (js ''/v1beta/models/{model}:batchEmbedContents'', js ''Gemini Batch Embed Contents'')]"

definition ADVANCED_CUSTOM_ROUTE_SUMMARY_LABELS :: "jsstring props" where
  "ADVANCED_CUSTOM_ROUTE_SUMMARY_LABELS =
     [(js ''/v1/chat/completions'', js ''OpenAI Chat''),
      (ADVANCED_CUSTOM_MODEL_LIST_PATH, js ''OpenAI Models'')]"

definition bearerHeaderAuth :: route_auth where
  "bearerHeaderAuth = \<lparr>auth_type = Some (js ''header''), auth_name = Some (js ''Authorization''),
     auth_value = Some (js ''Bearer {api_key}'')\<rparr>"

definition apiKeyHeaderAuth :: route_auth where
  "apiKeyHeaderAuth = \<lparr>auth_type = Some (js ''header''), auth_name = Some (js ''x-api-key''),
     auth_value = Some (js ''{api_key}'')\<rparr>"

definition geminiQueryAuth :: route_auth where
  "geminiQueryAuth = \<lparr>auth_type = Some (js ''query''), auth_name = Some (js ''key''),
     auth_value = Some (js ''{api_key}'')\<rparr>"

definition template_route :: "string \<Rightarrow> string \<Rightarrow> string \<Rightarrow> route_auth \<Rightarrow> ac_route" where
  "template_route i u c a = \<lparr>incoming_path = Some (js i), upstream_path = Some (js u),
     converter = Some (js c), auth = Some a\<rparr>"

definition ADVANCED_CUSTOM_TEMPLATE_OPTIONS :: "(jsstring \<times> jsstring \<times> ac_config) list" where
  "ADVANCED_CUSTOM_TEMPLATE_OPTIONS =
     [(js ''official_openai_chat'', js ''Official OpenAI Chat'', \<lparr>advanced_routes = Some
         [template_route ''/v1/chat/completions'' ''/v1/chat/completions'' ''none'' bearerHeaderAuth]\<rparr>),
      (js ''official_openai_responses'', js ''Official OpenAI Responses'', \<lparr>advanced_routes = Some
         [template_route ''/v1/responses'' ''/v1/responses'' ''none'' bearerHeaderAuth]\<rparr>),
      (js ''official_openai_embeddings'', js ''Official OpenAI Embeddings'', \<lparr>advanced_routes = Some
         [template_route ''/v1/embeddings'' ''/v1/embeddings'' ''none'' bearerHeaderAuth]\<rparr>),
      (js ''official_openai_images'', js ''Official OpenAI Images'', \<lparr>advanced_routes = Some
         [template_route ''/v1/images/generations'' ''/v1/images/generations'' ''none'' bearerHeaderAuth,
          template_route ''/v1/images/edits'' ''/v1/images/edits'' ''none'' bearerHeaderAuth]\<rparr>),
      (js ''official_claude_messages'', js ''Official Claude Messages'', \<lparr>advanced_routes = Some
         [template_route ''/v1/messages'' ''/v1/messages'' ''none'' apiKeyHeaderAuth]\<rparr>),
      (js ''official_gemini_native'', js ''Official Gemini Native'', \<lparr>advanced_routes = Some
         [template_route ''/v1beta/models/{model}:generateContent''
            ''/v1beta/models/{model}:generateContent'' ''none'' geminiQueryAuth,
          template_route ''/v1beta/models/{model}:embedContent''
            ''/v1beta/models/{model}:embedContent'' ''none'' geminiQueryAuth,
          template_route ''/v1beta/models/{model}:batchEmbedContents''
            ''/v1beta/models/{model}:batchEmbedContents'' ''none'' geminiQueryAuth]\<rparr>),
      (js ''official_gemini_from_openai_chat'', js ''Official Gemini from OpenAI Chat'', \<lparr>advanced_routes = Some
         [template_route ''/v1/chat/completions'' ''/v1beta/models/{model}:generateContent''
            ''openai_chat_completions_to_gemini_generate_content'' geminiQueryAuth]\<rparr>)]"

subsection \<open>Converters and paths\<close>

definition isConverterPathAllowed :: "jsstring \<Rightarrow> jsstring \<Rightarrow> bool" where
  "isConverterPathAllowed path conv =
     (if conv = js ''none'' then True
      else if conv = js ''anthropic_messages_to_openai_chat_completions'' then path = js ''/v1/messages''
      else if conv = js ''openai_chat_completions_to_anthropic_messages''
           \<or> conv = js ''openai_chat_completions_to_openai_responses''
           \<or> conv = js ''openai_chat_completions_to_gemini_generate_content''
           then path = js ''/v1/chat/completions''
      else str_includes path (js '':generateContent'') \<or> str_includes path (js '':streamGenerateContent''))"

definition isAdvancedCustomConverter :: "jsstring \<Rightarrow> bool" where
  "isAdvancedCustomConverter v \<longleftrightarrow> list_ex (\<lambda>opt. fst opt = v) ADVANCED_CUSTOM_CONVERTER_OPTIONS"

definition getAdvancedCustomUpstreamPathPlaceholder :: "jsstring \<Rightarrow> jsstring" where
  "getAdvancedCustomUpstreamPathPlaceholder conv =
     (if conv = js ''openai_chat_completions_to_gemini_generate_content''
      then js ''/v1beta/models/{model}:generateContent''
      else if conv = js ''openai_chat_completions_to_anthropic_messages'' then js ''/v1/messages''
      else js ''/v1/chat/completions'')"

definition getAdvancedCustomIncomingPathOptions :: "jsstring \<Rightarrow> (jsstring \<times> jsstring) list" where
  "getAdvancedCustomIncomingPathOptions conv =
     filter (\<lambda>opt. isConverterPathAllowed (fst opt) conv) ADVANCED_CUSTOM_INCOMING_PATH_OPTIONS"

definition getDefaultAdvancedCustomIncomingPath :: "jsstring \<Rightarrow> jsstring" where
  "getDefaultAdvancedCustomIncomingPath conv =
     or_str (case getAdvancedCustomIncomingPathOptions conv of opt # _ \<Rightarrow> Some (fst opt) | [] \<Rightarrow> None)
       (js ''/v1/chat/completions'')"

definition isAdvancedCustomIncomingPathAllowed :: "jsstring \<Rightarrow> jsstring \<Rightarrow> bool" where
  "isAdvancedCustomIncomingPathAllowed path conv = isConverterPathAllowed path conv"

definition getAdvancedCustomConverterOptions :: "jsstring \<Rightarrow> (jsstring \<times> jsstring) list" where
  "getAdvancedCustomConverterOptions path =
     filter (\<lambda>opt. fst opt = js ''none'' \<or> isConverterPathAllowed (trim path) (fst opt))
       ADVANCED_CUSTOM_CONVERTER_OPTIONS"

definition getAdvancedCustomIncomingPathLabel :: "jsstring \<Rightarrow> jsstring" where
  "getAdvancedCustomIncomingPathLabel v =
     or_str (map_option snd (find (\<lambda>opt. fst opt = v) ADVANCED_CUSTOM_INCOMING_PATH_OPTIONS)) v"

subsection \<open>Normalising\<close>

definition getAdvancedCustomRouteUpstreamPath :: "ac_route \<Rightarrow> jsstring" where
  "getAdvancedCustomRouteUpstreamPath route = trim (or_str (upstream_path route) [])"

definition normalizeAdvancedCustomRoute :: "ac_route \<Rightarrow> ac_route" where
  "normalizeAdvancedCustomRoute route =
     \<lparr>incoming_path = Some (or_str (incoming_path route) []),
      upstream_path = Some (getAdvancedCustomRouteUpstreamPath route),
      converter = Some (or_str (converter route) (js ''none'')),
      auth = map_option (\<lambda>a. \<lparr>auth_type = auth_type a, auth_name = Some (or_str (auth_name a) []),
               auth_value = Some (or_str (auth_value a) [])\<rparr>) (auth route)\<rparr>"

definition normalizeAdvancedCustomConfig :: "ac_config \<Rightarrow> ac_config" where
  "normalizeAdvancedCustomConfig config =
     \<lparr>advanced_routes = Some (case advanced_routes config of
        Some rs \<Rightarrow> map normalizeAdvancedCustomRoute rs | None \<Rightarrow> [])\<rparr>"

definition createAdvancedCustomRoute :: ac_route where
  "createAdvancedCustomRoute =
     \<lparr>incoming_path = Some (js ''/v1/chat/completions''), upstream_path = Some (js ''/v1/chat/completions''),
      converter = Some (js ''none''), auth = None\<rparr>"

definition createAdvancedCustomConfig :: ac_config where
  "createAdvancedCustomConfig = \<lparr>advanced_routes = Some [createAdvancedCustomRoute]\<rparr>"

subsection \<open>Validation\<close>

record validation_error =
  ve_message :: jsstring
  routeIndex :: "nat option"

definition route_error :: "nat \<Rightarrow> string \<Rightarrow> validation_error option" where
  "route_error i m = Some \<lparr>ve_message = js m, routeIndex = Some i\<rparr>"

definition isFullHttpURLOrAbsolutePath :: "url_parser \<Rightarrow> jsstring \<Rightarrow> bool" where
  "isFullHttpURLOrAbsolutePath url v =
     (if starts_with v (js ''/'') then \<not> starts_with v (js ''//'')
      else case url v of
             Some (host, protocol) \<Rightarrow> host \<noteq> [] \<and> (protocol = js ''http:'' \<or> protocol = js ''https:'')
           | None \<Rightarrow> False)"

definition validateRouteAuth :: "route_auth option \<Rightarrow> jsstring option" where
  "validateRouteAuth a =
     (case a of
        None \<Rightarrow> None
      | Some au \<Rightarrow>
          if auth_type au = Some (js ''none'') then None
          else if auth_type au \<noteq> Some (js ''header'') \<and> auth_type au \<noteq> Some (js ''query'')
               then Some (js ''Auth type is invalid'')
          else if trim (or_str (auth_name au) []) = [] then Some (js ''Auth name is required'')
          else if trim (or_str (auth_value au) []) = [] then Some (js ''Auth value is required'')
          else None)"

text \<open>The checks of one route, in the order of the loop body.\<close>

definition check_route :: "url_parser \<Rightarrow> nat \<Rightarrow> jsstring set \<Rightarrow> ac_route \<Rightarrow> validation_error option" where
  "check_route url i seenPaths route =
     (let incomingPath = trim (or_str (incoming_path route) []);
          upstreamPath = getAdvancedCustomRouteUpstreamPath route;
          conv = or_str (converter route) (js ''none'')
      in if incomingPath = [] then route_error i ''Incoming path is required''
         else if \<not> starts_with incomingPath (js ''/'') then route_error i ''Incoming path must start with /''
         else if str_includes incomingPath (js ''?'') then route_error i ''Incoming path must not include query''
         else if incomingPath = ADVANCED_CUSTOM_MODEL_LIST_PATH \<and> conv \<noteq> js ''none''
              then route_error i ''OpenAI Models route must use native forwarding''
         else if incomingPath = ADVANCED_CUSTOM_MODEL_LIST_PATH \<and> str_includes upstreamPath (js ''{model}'')
              then route_error i ''OpenAI Models upstream path must not contain {model}''
         else if incomingPath \<in> seenPaths then route_error i ''Incoming path must be unique''
         else if upstreamPath = [] then route_error i ''Upstream path is required''
         else if \<not> isFullHttpURLOrAbsolutePath url upstreamPath
              then route_error i ''Upstream path must be a full URL or a path starting with /''
         else if \<not> isAdvancedCustomConverter conv then route_error i ''Converter is not registered''
         else if \<not> isConverterPathAllowed incomingPath conv
              then route_error i ''Converter does not match incoming path''
         else map_option (\<lambda>m. \<lparr>ve_message = m, routeIndex = Some i\<rparr>) (validateRouteAuth (auth route)))"

fun check_routes :: "url_parser \<Rightarrow> nat \<Rightarrow> jsstring set \<Rightarrow> ac_route list \<Rightarrow> validation_error option" where
  "check_routes url i seenPaths [] = None"
| "check_routes url i seenPaths (route # routes) =
     (case check_route url i seenPaths route of
        Some e \<Rightarrow> Some e
      | None \<Rightarrow> check_routes url (Suc i) (insert (trim (or_str (incoming_path route) [])) seenPaths) routes)"

definition norm_routes :: "ac_config \<Rightarrow> ac_route list" where
  "norm_routes config =
     (case advanced_routes (normalizeAdvancedCustomConfig config) of Some rs \<Rightarrow> rs | None \<Rightarrow> [])"

definition validateAdvancedCustomConfig :: "url_parser \<Rightarrow> ac_config option \<Rightarrow> validation_error option" where
  "validateAdvancedCustomConfig url config =
     (case config of
        None \<Rightarrow> Some \<lparr>ve_message = js ''Advanced custom configuration is required'', routeIndex = None\<rparr>
      | Some c \<Rightarrow>
          if length (norm_routes c) = 0
          then Some \<lparr>ve_message = js ''Advanced custom configuration requires at least one route'',
                     routeIndex = None\<rparr>
          else check_routes url 0 {} (norm_routes c))"

definition hasValidAdvancedCustomModelListRoute :: "url_parser \<Rightarrow> ac_config option \<Rightarrow> bool" where
  "hasValidAdvancedCustomModelListRoute url config =
     (case config of
        None \<Rightarrow> False
      | Some c \<Rightarrow>
          if validateAdvancedCustomConfig url (Some c) \<noteq> None then False
          else list_ex (\<lambda>r. trim (or_str (incoming_path r) []) = ADVANCED_CUSTOM_MODEL_LIST_PATH) (norm_routes c))"

definition advancedCustomConfigUsesRelativeUpstreamPath :: "ac_config option \<Rightarrow> bool" where
  "advancedCustomConfigUsesRelativeUpstreamPath config =
     (case config of
        None \<Rightarrow> False
      | Some c \<Rightarrow> list_ex (\<lambda>r. starts_with (getAdvancedCustomRouteUpstreamPath r) (js ''/'')) (norm_routes c))"

subsection \<open>Text form\<close>

definition opt_entry :: "string \<Rightarrow> jsstring option \<Rightarrow> jsval props" where
  "opt_entry k x = (case x of None \<Rightarrow> [] | Some s \<Rightarrow> [(js k, JStr s)])"

definition auth_val :: "route_auth \<Rightarrow> jsval" where
  "auth_val a = JObj (opt_entry ''type'' (auth_type a) @ opt_entry ''name'' (auth_name a) @
     opt_entry ''value'' (auth_value a))"

definition route_val :: "ac_route \<Rightarrow> jsval" where
  "route_val r = JObj (opt_entry ''incoming_path'' (incoming_path r) @
     opt_entry ''upstream_path'' (upstream_path r) @ opt_entry ''converter'' (converter r) @
     (case auth r of None \<Rightarrow> [] | Some a \<Rightarrow> [(js ''auth'', auth_val a)]))"

definition config_val :: "ac_config \<Rightarrow> jsval" where
  "config_val c = JObj (case advanced_routes c of
     None \<Rightarrow> [] | Some rs \<Rightarrow> [(js ''advanced_routes'', JArr (map route_val rs))])"

text \<open>An optional string property, where null counts as absent, as it does in every use of the
  property; the outer \<open>None\<close> is a value of another type.\<close>

definition str_field :: "jsval \<Rightarrow> string \<Rightarrow> jsstring option option" where
  "str_field v k =
     (case prop_of v (js k) of JUndef \<Rightarrow> Some None | JNull \<Rightarrow> Some None | JStr s \<Rightarrow> Some (Some s) | _ \<Rightarrow> None)"

definition auth_of :: "jsval \<Rightarrow> route_auth option" where
  "auth_of v =
     (case (str_field v ''type'', str_field v ''name'', str_field v ''value'') of
        (Some t, Some n, Some w) \<Rightarrow> Some \<lparr>auth_type = t, auth_name = n, auth_value = w\<rparr>
      | _ \<Rightarrow> None)"

definition route_of :: "jsval \<Rightarrow> ac_route option" where
  "route_of v =
     (case (str_field v ''incoming_path'', str_field v ''upstream_path'', str_field v ''converter'') of
        (Some i, Some u, Some c) \<Rightarrow>
          (case prop_of v (js ''auth'') of
             JUndef \<Rightarrow> Some \<lparr>incoming_path = i, upstream_path = u, converter = c, auth = None\<rparr>
           | JNull \<Rightarrow> Some \<lparr>incoming_path = i, upstream_path = u, converter = c, auth = None\<rparr>
           | JObj ps \<Rightarrow> map_option (\<lambda>a. \<lparr>incoming_path = i, upstream_path = u, converter = c, auth = Some a\<rparr>)
                          (auth_of (JObj ps))
           | _ \<Rightarrow> None)
      | _ \<Rightarrow> None)"

datatype ac_parsed = ParseNull | ParsedConfig ac_config | IllTypedConfig

definition parse_routes :: "jsval list \<Rightarrow> ac_parsed" where
  "parse_routes vs =
     (if list_ex (\<lambda>v. v = JNull) vs then ParseNull
      else case those (map route_of vs) of
             None \<Rightarrow> IllTypedConfig
           | Some rs \<Rightarrow> ParsedConfig (normalizeAdvancedCustomConfig \<lparr>advanced_routes = Some rs\<rparr>))"

definition parseAdvancedCustomConfig :: "jsstring option \<Rightarrow> ac_parsed" where
  "parseAdvancedCustomConfig val =
     (case val of
        None \<Rightarrow> ParseNull
      | Some s \<Rightarrow>
          if trim s = [] then ParseNull
          else case json_parse s of
                 Some (JObj ps) \<Rightarrow>
                   (case val_at ps (js ''advanced_routes'') of
                      JArr vs \<Rightarrow> parse_routes vs
                    | _ \<Rightarrow> ParsedConfig (normalizeAdvancedCustomConfig \<lparr>advanced_routes = None\<rparr>))
               | _ \<Rightarrow> ParseNull)"

definition stringifyAdvancedCustomConfig :: "ac_config \<Rightarrow> jsstring" where
  "stringifyAdvancedCustomConfig config = json_stringify2 (config_val (normalizeAdvancedCustomConfig config))"

text \<open>\<^verbatim>\<open>JSON.parse(JSON.stringify(config))\<close>; the text of a configuration always reads back as one.\<close>

definition cloneAdvancedCustomConfig :: "ac_config \<Rightarrow> ac_config option" where
  "cloneAdvancedCustomConfig config =
     (case json_parse (json_stringify (config_val config)) of
        Some (JObj ps) \<Rightarrow>
          (case val_at ps (js ''advanced_routes'') of
             JUndef \<Rightarrow> Some \<lparr>advanced_routes = None\<rparr>
           | JArr vs \<Rightarrow> map_option (\<lambda>rs. \<lparr>advanced_routes = Some rs\<rparr>) (those (map route_of vs))
           | _ \<Rightarrow> None)
      | _ \<Rightarrow> None)"

definition getAdvancedCustomTemplateConfig :: "jsstring \<Rightarrow> ac_config option" where
  "getAdvancedCustomTemplateConfig templateKey =
     cloneAdvancedCustomConfig (snd (snd
       (case find (\<lambda>opt. fst opt = templateKey) ADVANCED_CUSTOM_TEMPLATE_OPTIONS of
          Some opt \<Rightarrow> opt | None \<Rightarrow> hd ADVANCED_CUSTOM_TEMPLATE_OPTIONS)))"

subsection \<open>Summary and authentication\<close>

definition getAdvancedCustomRouteSummaryLabel :: "ac_route \<Rightarrow> jsstring option" where
  "getAdvancedCustomRouteSummaryLabel route =
     (let incomingPath = trim (or_str (incoming_path route) []) in
      if incomingPath = [] then None
      else Some (or_str (props_get ADVANCED_CUSTOM_ROUTE_SUMMARY_LABELS incomingPath)
                   (getAdvancedCustomIncomingPathLabel incomingPath)))"

record ac_stats =
  routeCount :: nat
  valid :: bool
  routeTypeLabels :: "jsstring list"

fun collect_labels :: "jsstring list \<Rightarrow> ac_route list \<Rightarrow> jsstring list" where
  "collect_labels labels [] = labels"
| "collect_labels labels (r # rs) =
     (case getAdvancedCustomRouteSummaryLabel r of
        None \<Rightarrow> collect_labels labels rs
      | Some l \<Rightarrow> if l = [] \<or> l \<in> set labels then collect_labels labels rs
                 else collect_labels (labels @ [l]) rs)"

text \<open>\<open>None\<close> for a configuration that is ill-typed.\<close>

definition getAdvancedCustomStats :: "url_parser \<Rightarrow> jsstring option \<Rightarrow> ac_stats option" where
  "getAdvancedCustomStats url val =
     (case parseAdvancedCustomConfig val of
        IllTypedConfig \<Rightarrow> None
      | ParseNull \<Rightarrow> Some \<lparr>routeCount = 0, valid = False, routeTypeLabels = []\<rparr>
      | ParsedConfig config \<Rightarrow>
          Some \<lparr>routeCount = length (norm_routes config),
                valid = (validateAdvancedCustomConfig url (Some (normalizeAdvancedCustomConfig config)) = None),
                routeTypeLabels = collect_labels [] (norm_routes config)\<rparr>)"

definition getAdvancedCustomAuthMode :: "ac_route \<Rightarrow> jsstring" where
  "getAdvancedCustomAuthMode route = or_str (Option.bind (auth route) auth_type) (js ''default'')"

definition buildAdvancedCustomAuth :: "jsstring \<Rightarrow> route_auth option \<Rightarrow> route_auth option" where
  "buildAdvancedCustomAuth mode previousAuth =
     (let name = Option.bind previousAuth auth_name; v = Option.bind previousAuth auth_value in
      if mode = js ''default'' then None
      else if mode = js ''none'' then Some \<lparr>auth_type = Some (js ''none''), auth_name = None, auth_value = None\<rparr>
      else if mode = js ''header'' then
        Some \<lparr>auth_type = Some (js ''header''), auth_name = Some (or_str name (js ''Authorization'')),
              auth_value = Some (or_str v (js ''Bearer {api_key}''))\<rparr>
      else Some \<lparr>auth_type = Some (js ''query''), auth_name = Some (or_str name (js ''api_key'')),
                 auth_value = Some (or_str v (js ''{api_key}''))\<rparr>)"


subsection \<open>Normalising twice\<close>

lemma or_str_simps [simp]: "or_str None d = d" "or_str (Some (or_str x d)) d = or_str x d"
  "or_str (Some s) [] = s"
  by (auto simp: or_str_def split: option.splits)

lemma normalize_route_idem:
  "normalizeAdvancedCustomRoute (normalizeAdvancedCustomRoute r) = normalizeAdvancedCustomRoute r"
  by (cases "auth r") (auto simp: normalizeAdvancedCustomRoute_def getAdvancedCustomRouteUpstreamPath_def)

lemma normalize_config_idem:
  "normalizeAdvancedCustomConfig (normalizeAdvancedCustomConfig c) = normalizeAdvancedCustomConfig c"
  by (auto simp: normalizeAdvancedCustomConfig_def normalize_route_idem split: option.splits)

lemma norm_routes_normalized [simp]: "norm_routes (normalizeAdvancedCustomConfig c) = norm_routes c"
  by (simp add: norm_routes_def normalize_config_idem)

subsection \<open>Reading back the text form\<close>

definition opt_ok :: "jsstring option \<Rightarrow> bool" where
  "opt_ok x = (case x of None \<Rightarrow> True | Some s \<Rightarrow> str_ok s)"

definition auth_ok :: "route_auth \<Rightarrow> bool" where
  "auth_ok a \<longleftrightarrow> opt_ok (auth_type a) \<and> opt_ok (auth_name a) \<and> opt_ok (auth_value a)"

definition route_text_ok :: "ac_route \<Rightarrow> bool" where
  "route_text_ok r \<longleftrightarrow> opt_ok (incoming_path r) \<and> opt_ok (upstream_path r) \<and> opt_ok (converter r) \<and>
     (case auth r of None \<Rightarrow> True | Some a \<Rightarrow> auth_ok a)"

definition config_ok :: "ac_config \<Rightarrow> bool" where
  "config_ok c \<longleftrightarrow> (case advanced_routes c of None \<Rightarrow> True | Some rs \<Rightarrow> list_all route_text_ok rs)"

lemma ac_named_keys:
  "\<not> is_index_key (js ''type'')" "\<not> is_index_key (js ''name'')" "\<not> is_index_key (js ''value'')"
  "\<not> is_index_key (js ''incoming_path'')" "\<not> is_index_key (js ''upstream_path'')"
  "\<not> is_index_key (js ''converter'')" "\<not> is_index_key (js ''auth'')" "\<not> is_index_key (js ''advanced_routes'')"
  by (simp_all add: is_index_key_def js_def is_digit_def)

lemma auth_val_ok: "auth_ok a \<Longrightarrow> json_ok (auth_val a)"
  by (cases "auth_type a"; cases "auth_name a"; cases "auth_value a")
     (auto simp: auth_ok_def opt_ok_def auth_val_def opt_entry_def props_ok_def props_keys_def ac_named_keys)

lemma route_val_ok:
  assumes "route_text_ok r"
  shows "json_ok (route_val r)"
proof -
  have "json_ok (auth_val a)" if "auth r = Some a" for a
    using assms that auth_val_ok by (simp add: route_text_ok_def)
  then show ?thesis
    using assms
    by (cases "incoming_path r"; cases "upstream_path r"; cases "converter r"; cases "auth r")
       (simp_all add: route_text_ok_def opt_ok_def route_val_def opt_entry_def props_ok_def props_keys_def
         ac_named_keys)
qed

lemma config_val_ok: "config_ok c \<Longrightarrow> json_ok (config_val c)"
  using route_val_ok
  by (auto simp: config_ok_def config_val_def props_ok_def props_keys_def list_all_iff ac_named_keys
      split: option.splits)

lemma str_field_append:
  "str_field (JObj (opt_entry k x @ p)) k' = (if k' = k \<and> x \<noteq> None then Some x else str_field (JObj p) k')"
  by (cases x) (auto simp: str_field_def prop_of_def props_get_def opt_entry_def)

lemma str_field_Nil: "str_field (JObj []) k = Some None"
  by (simp add: str_field_def prop_of_def props_get_def)

lemma str_field_other: "js k' \<noteq> k \<Longrightarrow> str_field (JObj ((k, v) # p)) k' = str_field (JObj p) k'"
  by (simp add: str_field_def prop_of_def props_get_def)

lemma auth_of_val: "auth_of (auth_val a) = Some a"
proof -
  have "str_field (auth_val a) ''type'' = Some (auth_type a)"
    "str_field (auth_val a) ''name'' = Some (auth_name a)"
    "str_field (auth_val a) ''value'' = Some (auth_value a)"
    using str_field_append [of "''value''" "auth_value a" "[]"]
    by (auto simp: auth_val_def str_field_append str_field_Nil)
  then show ?thesis by (simp add: auth_of_def)
qed

lemma prop_opt_entry: "js k \<noteq> k' \<Longrightarrow> prop_of (JObj (opt_entry k x @ p)) k' = prop_of (JObj p) k'"
  by (cases x) (auto simp: prop_of_def props_get_def opt_entry_def)

lemma route_of_val: "route_of (route_val r) = Some r"
proof -
  let ?p = "case auth r of None \<Rightarrow> [] | Some a \<Rightarrow> [(js ''auth'', auth_val a)]"
  have tail: "str_field (JObj ?p) k = Some None" if "k \<noteq> ''auth''" for k
    using that by (cases "auth r") (auto simp: str_field_Nil str_field_other)
  have "str_field (route_val r) ''incoming_path'' = Some (incoming_path r)"
    "str_field (route_val r) ''upstream_path'' = Some (upstream_path r)"
    "str_field (route_val r) ''converter'' = Some (converter r)"
    by (auto simp: route_val_def str_field_append tail)
  moreover have "prop_of (route_val r) (js ''auth'') = (case auth r of None \<Rightarrow> JUndef | Some a \<Rightarrow> auth_val a)"
    using prop_opt_entry [of "''converter''" "js ''auth''" "converter r" "[]"]
    by (cases "auth r") (simp_all add: route_val_def prop_opt_entry prop_of_def [of "JObj []"]
        prop_of_def [of "JObj [(js ''auth'', x)]" for x] props_get_def)
  moreover have "case_jsval n z b x s y (\<lambda>p. f (auth_of (JObj p))) (auth_val a) = f (Some a)"
    for n z :: "ac_route option" and b x s y f a
    using auth_of_val [of a] by (simp add: auth_val_def)
  ultimately show ?thesis by (cases "auth r") (simp_all add: route_of_def)
qed

lemma routes_of_vals: "those (map route_of (map route_val rs)) = Some rs"
  by (induction rs) (auto simp: route_of_val)


lemma route_val_not_null: "route_val r \<noteq> JNull"
  by (simp add: route_val_def)

subsection \<open>What validation accepts\<close>

definition route_path :: "ac_route \<Rightarrow> jsstring" where
  "route_path r = trim (or_str (incoming_path r) [])"

definition route_valid :: "url_parser \<Rightarrow> ac_route \<Rightarrow> bool" where
  "route_valid url r \<longleftrightarrow>
     (let conv = or_str (converter r) (js ''none''); up = getAdvancedCustomRouteUpstreamPath r in
      route_path r \<noteq> [] \<and> hd (route_path r) = 47 \<and> 63 \<notin> set (route_path r) \<and>
      (route_path r = ADVANCED_CUSTOM_MODEL_LIST_PATH \<longrightarrow>
         conv = js ''none'' \<and> \<not> sublist (js ''{model}'') up) \<and>
      up \<noteq> [] \<and> isFullHttpURLOrAbsolutePath url up \<and>
      isAdvancedCustomConverter conv \<and> isConverterPathAllowed (route_path r) conv \<and>
      validateRouteAuth (auth r) = None)"

lemma slash_start: "starts_with s (js ''/'') \<longleftrightarrow> s \<noteq> [] \<and> hd s = 47"
  by (cases s) (auto simp: starts_with_def js_def)

lemma check_route_None:
  "check_route url i seen r = None \<longleftrightarrow> route_valid url r \<and> route_path r \<notin> seen"
proof -
  have q: "str_includes s (js ''?'') \<longleftrightarrow> 63 \<in> set s" for s
    using str_includes_unit [of s 63] by (simp add: js_def)
  show ?thesis
    by (simp add: check_route_def route_valid_def Let_def route_error_def slash_start q
        str_includes_iff [of _ "js ''{model}''"] flip: route_path_def)
qed

lemma check_route_index: "check_route url i seen r = Some e \<Longrightarrow> routeIndex e = Some i"
  by (auto simp: check_route_def Let_def route_error_def split: if_splits)

lemma check_routes_None:
  "check_routes url i seen rs = None \<longleftrightarrow>
   list_all (route_valid url) rs \<and> distinct (map route_path rs) \<and> route_path ` set rs \<inter> seen = {}"
proof (induction rs arbitrary: i seen)
  case (Cons r rs)
  show ?case
  proof (cases "check_route url i seen r")
    case None
    then have "route_valid url r" "route_path r \<notin> seen" using check_route_None by blast+
    then show ?thesis
      using Cons.IH [of "Suc i" "insert (route_path r) seen"] by (simp add: None flip: route_path_def) blast
  next
    case (Some e)
    then have "\<not> (route_valid url r \<and> route_path r \<notin> seen)"
      using check_route_None [of url i seen r] by auto
    with Some show ?thesis by auto
  qed
qed simp

lemma check_routes_Some:
  "check_routes url i seen rs = Some e \<Longrightarrow>
   \<exists>k<length rs. routeIndex e = Some (i + k) \<and> check_routes url i seen (take k rs) = None"
proof (induction rs arbitrary: i seen)
  case (Cons r rs)
  show ?case
  proof (cases "check_route url i seen r")
    case None
    then have "check_routes url (Suc i) (insert (trim (or_str (incoming_path r) [])) seen) rs = Some e"
      using Cons.prems by simp
    from Cons.IH [OF this] obtain k where "k < length rs" "routeIndex e = Some (Suc i + k)"
      "check_routes url (Suc i) (insert (trim (or_str (incoming_path r) [])) seen) (take k rs) = None"
      by auto
    with None show ?thesis by (intro exI [of _ "Suc k"]) auto
  next
    case (Some e')
    then show ?thesis using Cons.prems check_route_index [OF Some] by (intro exI [of _ 0]) auto
  qed
qed simp

subsection \<open>Properties\<close>

text \<open>C21: a configuration passes validation exactly when it has a route, every route is valid on
  its own, and no two routes share an incoming path.\<close>

theorem advanced_custom_valid_iff:
  "validateAdvancedCustomConfig url (Some c) = None \<longleftrightarrow>
   norm_routes c \<noteq> [] \<and> list_all (route_valid url) (norm_routes c) \<and>
   distinct (map route_path (norm_routes c))"
  by (auto simp: validateAdvancedCustomConfig_def check_routes_None)

text \<open>an error that names a route names the first one at fault: the routes before it pass
  validation by themselves, and with it they do not.\<close>

theorem advanced_custom_error_is_first:
  assumes "validateAdvancedCustomConfig url (Some c) = Some e" "routeIndex e = Some k"
  shows "k < length (norm_routes c) \<and>
    check_routes url 0 {} (take k (norm_routes c)) = None \<and>
    check_routes url 0 {} (take (Suc k) (norm_routes c)) \<noteq> None"
proof -
  have e: "check_routes url 0 {} (norm_routes c) = Some e"
    using assms by (auto simp: validateAdvancedCustomConfig_def split: if_splits)
  then obtain j where j: "j < length (norm_routes c)" "routeIndex e = Some j"
    "check_routes url 0 {} (take j (norm_routes c)) = None"
    using check_routes_Some by fastforce
  have "check_routes url i seen rs = Some e \<Longrightarrow> routeIndex e = Some (i + n) \<Longrightarrow>
      check_routes url i seen (take (Suc n) rs) \<noteq> None" for i seen n rs
  proof (induction rs arbitrary: i seen n)
    case (Cons r rs)
    show ?case
    proof (cases "check_route url i seen r")
      case None
      then have ih: "check_routes url (Suc i) (insert (trim (or_str (incoming_path r) [])) seen) rs = Some e"
        using Cons.prems by simp
      then obtain m where "n = Suc m"
        using check_routes_Some [OF ih] Cons.prems(2) by (cases n) auto
      with None show ?thesis using Cons.IH [OF ih, of m] Cons.prems(2) by simp
    qed simp
  qed simp
  from this [OF e, of k] j assms(2) show ?thesis by simp
qed

definition sample_bad_config :: ac_config where
  "sample_bad_config = \<lparr>advanced_routes = Some [createAdvancedCustomRoute, createAdvancedCustomRoute]\<rparr>"

theorem advanced_custom_error_is_first_witness:
  "validateAdvancedCustomConfig (\<lambda>_. None) (Some sample_bad_config) =
     Some \<lparr>ve_message = js ''Incoming path must be unique'', routeIndex = Some 1\<rparr> \<and>
   check_routes (\<lambda>_. None) 0 {} (take (Suc 1) (norm_routes sample_bad_config)) \<noteq> None"
proof -
  have 1: "validateAdvancedCustomConfig (\<lambda>_. None) (Some sample_bad_config) =
     Some \<lparr>ve_message = js ''Incoming path must be unique'', routeIndex = Some 1\<rparr>" by code_simp
  show ?thesis using advanced_custom_error_is_first [OF 1, of 1] 1 by simp
qed

lemma normalized_ok:
  assumes "config_ok c"
  shows "config_ok (normalizeAdvancedCustomConfig c)"
proof -
  have trim_ok: "str_ok (trim s)" if "str_ok s" for s
    using that set_trim [of s] by (auto simp: str_ok_def list_all_iff)
  have "opt_ok (Some (or_str x d))" if "opt_ok x" "str_ok d" for x d
    using that by (auto simp: opt_ok_def or_str_def split: option.splits)
  moreover have "opt_ok (Some (getAdvancedCustomRouteUpstreamPath r))" if "opt_ok (upstream_path r)" for r
    using that trim_ok by (auto simp: opt_ok_def getAdvancedCustomRouteUpstreamPath_def or_str_def
        split: option.splits) (simp_all add: str_ok_def)
  moreover have "str_ok []" by (simp add: str_ok_def)
  ultimately have "route_text_ok (normalizeAdvancedCustomRoute r)" if "route_text_ok r" for r
    using that by (auto simp: route_text_ok_def normalizeAdvancedCustomRoute_def auth_ok_def split: option.splits)
  then show ?thesis
    using assms by (auto simp: config_ok_def normalizeAdvancedCustomConfig_def list_all_iff split: option.splits)
qed

text \<open>the text form of a configuration reads back as the normalised configuration, and
  normalising changes neither the verdict of validation nor itself.\<close>

theorem advanced_custom_text_round_trip:
  assumes "config_ok c"
  shows "parseAdvancedCustomConfig (Some (stringifyAdvancedCustomConfig c)) =
      ParsedConfig (normalizeAdvancedCustomConfig c) \<and>
    validateAdvancedCustomConfig url (Some (normalizeAdvancedCustomConfig c)) =
      validateAdvancedCustomConfig url (Some c)"
proof -
  let ?n = "normalizeAdvancedCustomConfig c" and ?t = "stringifyAdvancedCustomConfig c"
  obtain rs where rs: "advanced_routes ?n = Some rs" by (simp add: normalizeAdvancedCustomConfig_def)
  have parse: "json_parse ?t = Some (config_val ?n)"
    unfolding stringifyAdvancedCustomConfig_def
    using assms by (intro pretty.dec_enc config_val_ok normalized_ok)
  have val: "config_val ?n = JObj [(js ''advanced_routes'', JArr (map route_val rs))]"
    by (simp add: config_val_def rs)
  have "prefix [123] ?t"
    by (simp add: stringifyAdvancedCustomConfig_def json_stringify2_def val Let_def)
  then have "trim ?t \<noteq> []" by (cases ?t) (auto simp: trim_eq_Nil is_ws_def)
  moreover have "parse_routes (map route_val rs) =
      ParsedConfig (normalizeAdvancedCustomConfig \<lparr>advanced_routes = Some rs\<rparr>)"
    using route_val_not_null [symmetric] routes_of_vals [of rs] by (auto simp: parse_routes_def list_ex_iff)
  moreover have "\<lparr>advanced_routes = Some rs\<rparr> = ?n" using rs by simp
  ultimately have "parseAdvancedCustomConfig (Some ?t) = ParsedConfig ?n"
    using parse val by (simp add: parseAdvancedCustomConfig_def val_at_def props_get_def normalize_config_idem)
  then show ?thesis by (simp add: validateAdvancedCustomConfig_def)
qed

theorem advanced_custom_text_round_trip_witness:
  "parseAdvancedCustomConfig (Some (stringifyAdvancedCustomConfig createAdvancedCustomConfig)) =
     ParsedConfig (normalizeAdvancedCustomConfig createAdvancedCustomConfig)"
proof -
  have "config_ok createAdvancedCustomConfig" by code_simp
  then show ?thesis using advanced_custom_text_round_trip by blast
qed

text \<open>every template, and the configuration a new channel starts from, is valid whatever the
  browser's URL parser does; templates are read back unchanged.\<close>

theorem advanced_custom_templates_valid:
  "list_all (\<lambda>opt. validateAdvancedCustomConfig url (Some (snd (snd opt))) = None \<and>
      getAdvancedCustomTemplateConfig (fst opt) = Some (snd (snd opt))) ADVANCED_CUSTOM_TEMPLATE_OPTIONS \<and>
   validateAdvancedCustomConfig url (Some createAdvancedCustomConfig) = None"
proof -
  have 1: "list_all (\<lambda>opt. validateAdvancedCustomConfig url (Some (snd (snd opt))) = None)
      ADVANCED_CUSTOM_TEMPLATE_OPTIONS" by code_simp
  have 2: "list_all (\<lambda>opt. getAdvancedCustomTemplateConfig (fst opt) = Some (snd (snd opt)))
      ADVANCED_CUSTOM_TEMPLATE_OPTIONS" by code_simp
  have 3: "validateAdvancedCustomConfig url (Some createAdvancedCustomConfig) = None" by code_simp
  show ?thesis using 1 2 3 by (simp add: list_all_iff)
qed

end
