(* ===== verification/RatioSync.thy ===== *)
theory RatioSync
  imports JS_Json "HOL-Library.AList"
begin

text \<open>
  Choosing upstream prices: \<^verbatim>\<open>features/system-settings/models/upstream-ratio-sync-helpers.ts\<close>
  with the constants it uses from \<^verbatim>\<open>constants.ts\<close>.

  Resolutions are an object from model names to objects from ratio types to values, so both levels
  are property lists; upstream values are dynamic (a number, a string, the string \<^verbatim>\<open>same\<close>, null or
  absent). A JavaScript \<^verbatim>\<open>Map\<close> keeps insertion order: it is an association list with the library's
  \<^verbatim>\<open>AList.update\<close>. The drafts that the source mutates in place are updated in the map instead.
\<close>

record diff_entry =
  diff_current :: jsval
  upstreams :: "jsval props"
  confidence :: "bool props"

type_synonym model_diffs = "diff_entry props"
type_synonym resolutions = "jsval props props"

record resolution_selection =
  sel_model :: jsstring
  sel_ratioType :: jsstring
  sel_value :: jsval
  sel_source :: jsstring

subsection \<open>Fields\<close>

definition RATIO_SYNC_FIELDS :: "jsstring list" where
  "RATIO_SYNC_FIELDS = map js [''model_ratio'', ''completion_ratio'', ''cache_ratio'',
     ''create_cache_ratio'', ''image_ratio'', ''audio_ratio'', ''audio_completion_ratio'']"

definition SYNC_FIELD_ORDER :: "jsstring list" where
  "SYNC_FIELD_ORDER = RATIO_SYNC_FIELDS @ map js [''model_price'', ''billing_mode'', ''billing_expr'']"

definition NUMERIC_SYNC_FIELDS :: "jsstring list" where
  "NUMERIC_SYNC_FIELDS = RATIO_SYNC_FIELDS @ [js ''model_price'']"

definition RATIO_TYPE_OPTIONS :: "(jsstring \<times> jsstring) list" where
  "RATIO_TYPE_OPTIONS =
     map (\<lambda>(l, v). (js l, js v))
       [(''Model ratio'', ''model_ratio''), (''Completion ratio'', ''completion_ratio''),
        (''Cache ratio'', ''cache_ratio''), (''Create cache ratio'', ''create_cache_ratio''),
        (''Image ratio'', ''image_ratio''), (''Audio ratio'', ''audio_ratio''),
        (''Audio completion ratio'', ''audio_completion_ratio''), (''Fixed price'', ''model_price''),
        (''Expression billing'', ''billing_expr'')]"

definition OFFICIAL_CHANNEL_ID :: int where "OFFICIAL_CHANNEL_ID = - 100"
definition OFFICIAL_CHANNEL_NAME :: jsstring where
  "OFFICIAL_CHANNEL_NAME = [23448, 26041, 20493, 29575, 39044, 35774]"
definition MODELS_DEV_PRESET_ID :: int where "MODELS_DEV_PRESET_ID = - 101"
definition MODELS_DEV_PRESET_NAME :: jsstring where
  "MODELS_DEV_PRESET_NAME = js ''models.dev '' @ [20215, 26684, 39044, 35774]"

text \<open>The translation function is an argument of the source's function as well.\<close>

definition getSyncFieldLabel :: "jsstring \<Rightarrow> (jsstring \<Rightarrow> jsstring) \<Rightarrow> jsstring" where
  "getSyncFieldLabel ratioType t =
     (case find (\<lambda>opt. snd opt = ratioType) RATIO_TYPE_OPTIONS of
        Some opt \<Rightarrow> t (fst opt) | None \<Rightarrow> ratioType)"

definition getOrderedRatioTypes :: "model_diffs \<Rightarrow> jsstring option \<Rightarrow> jsstring list" where
  "getOrderedRatioTypes ratioTypes flt =
     (let keys = props_keys ratioTypes;
          ordered = filter (\<lambda>f. f \<in> set keys) SYNC_FIELD_ORDER @
                    filter (\<lambda>f. f \<notin> set SYNC_FIELD_ORDER) keys
      in case flt of
           None \<Rightarrow> ordered
         | Some f \<Rightarrow> if f = [] \<or> f = js ''__all__'' then ordered else filter (\<lambda>x. x = f) ordered)"

text \<open>\<^verbatim>\<open>ratioTypes[type]?.upstreams?.[sourceName]\<close>.\<close>

definition upstream_value :: "model_diffs \<Rightarrow> jsstring \<Rightarrow> jsstring \<Rightarrow> jsval" where
  "upstream_value ratioTypes ty sourceName =
     (case props_get ratioTypes ty of
        None \<Rightarrow> JUndef | Some e \<Rightarrow> val_at (upstreams e) sourceName)"

definition isSelectableUpstreamValue :: "jsval \<Rightarrow> bool" where
  "isSelectableUpstreamValue v \<longleftrightarrow> v \<noteq> JNull \<and> v \<noteq> JUndef \<and> v \<noteq> JStr (js ''same'')"

definition getPreferredSyncField :: "model_diffs \<Rightarrow> jsstring \<Rightarrow> jsstring \<Rightarrow> jsstring" where
  "getPreferredSyncField ratioTypes ratioType sourceName =
     (let exprValue = upstream_value ratioTypes (js ''billing_expr'') sourceName in
      if ratioType \<noteq> js ''billing_expr'' \<and> exprValue \<noteq> JNull \<and> exprValue \<noteq> JUndef \<and>
         exprValue \<noteq> JStr (js ''same'')
      then js ''billing_expr'' else ratioType)"

definition getVisibleRatioTypesForSource ::
  "model_diffs \<Rightarrow> jsstring \<Rightarrow> jsstring option \<Rightarrow> jsstring list" where
  "getVisibleRatioTypesForSource ratioTypes sourceName flt =
     filter (\<lambda>rt. getPreferredSyncField ratioTypes rt sourceName = rt) (getOrderedRatioTypes ratioTypes flt)"

definition getAlignedRatioTypes ::
  "model_diffs \<Rightarrow> jsstring list \<Rightarrow> jsstring option \<Rightarrow> jsstring list" where
  "getAlignedRatioTypes ratioTypes sourceNames flt =
     (let ordered = getOrderedRatioTypes ratioTypes flt in
      if length sourceNames = 0 then ordered
      else let visible = uniq (concat (map (\<lambda>s. getVisibleRatioTypesForSource ratioTypes s flt) sourceNames))
           in filter (\<lambda>rt. rt \<in> set visible) ordered)"

datatype billing_category = Price | Ratio | Tiered

definition getBillingCategory :: "jsstring \<Rightarrow> billing_category" where
  "getBillingCategory ratioType =
     (if ratioType = js ''model_price'' then Price
      else if ratioType = js ''billing_mode'' \<or> ratioType = js ''billing_expr'' then Tiered
      else Ratio)"

definition getUpstreamDisplayName :: "jsstring \<Rightarrow> jsstring" where
  "getUpstreamDisplayName sourceName =
     (case find (\<lambda>(name, i). sourceName = name @ js ''('' @ int_str i @ js '')'')
             [(OFFICIAL_CHANNEL_NAME, OFFICIAL_CHANNEL_ID), (MODELS_DEV_PRESET_NAME, MODELS_DEV_PRESET_ID)] of
        Some (name, _) \<Rightarrow> name | None \<Rightarrow> sourceName)"

text \<open>\<^verbatim>\<open>Number(v)\<close> for the numbers and strings that resolutions hold.\<close>

definition to_number :: "jsval \<Rightarrow> jsnum" where
  "to_number v = (case v of JNum x \<Rightarrow> x | JStr s \<Rightarrow> str_to_num s | JBool b \<Rightarrow> Fin (if b then 1 else 0)
                          | JNull \<Rightarrow> Fin 0 | _ \<Rightarrow> NaN)"

definition isSelectedResolutionValue :: "resolutions \<Rightarrow> jsstring \<Rightarrow> jsstring \<Rightarrow> jsval \<Rightarrow> bool" where
  "isSelectedResolutionValue res model ratioType upstreamValue =
     (if \<not> isSelectableUpstreamValue upstreamValue then False
      else let selectedValue = (case props_get res model of None \<Rightarrow> JUndef | Some r \<Rightarrow> val_at r ratioType) in
           if selectedValue = JUndef then False
           else if ratioType \<in> set NUMERIC_SYNC_FIELDS then
             num_is_finite (to_number selectedValue) \<and> num_is_finite (to_number upstreamValue) \<and>
             num_eq (to_number selectedValue) (to_number upstreamValue)
           else selectedValue = upstreamValue)"

subsection \<open>Selections\<close>

definition resolveResolutionSelection ::
  "model_diffs props \<Rightarrow> resolution_selection \<Rightarrow> resolution_selection" where
  "resolveResolutionSelection differences selection =
     (let modelDiffs = props_get differences (sel_model selection);
          diffs = (case modelDiffs of Some d \<Rightarrow> d | None \<Rightarrow> []);
          preferredType = getPreferredSyncField diffs (sel_ratioType selection) (sel_source selection);
          upstream = upstream_value diffs preferredType (sel_source selection);
          preferredValue =
            (if preferredType = sel_ratioType selection then sel_value selection
             else if upstream = JUndef \<or> upstream = JNull then sel_value selection else upstream)
      in selection\<lparr>sel_ratioType := preferredType, sel_value := preferredValue\<rparr>)"

definition getDraftModelResolution ::
  "(jsstring \<times> jsval props) list \<Rightarrow> resolutions \<Rightarrow> jsstring \<Rightarrow> jsval props" where
  "getDraftModelResolution drafts res model =
     (case map_of drafts model of
        Some d \<Rightarrow> d
      | None \<Rightarrow> (case props_get res model of Some r \<Rightarrow> props_assign [] r | None \<Rightarrow> []))"

text \<open>The fields of the other exclusive category are dropped: fixed price against ratios.\<close>

definition drop_conflicts :: "billing_category \<Rightarrow> jsval props \<Rightarrow> jsval props" where
  "drop_conflicts category draft =
     foldl (\<lambda>acc rt.
              if category \<noteq> Tiered \<and> getBillingCategory rt \<noteq> Tiered \<and> getBillingCategory rt \<noteq> category
              then props_del acc rt else acc)
       draft (props_keys draft)"

definition add_tiered :: "model_diffs \<Rightarrow> jsstring \<Rightarrow> jsstring \<Rightarrow> jsval props \<Rightarrow> jsval props" where
  "add_tiered modelDiffs source finalType draft =
     (let modeVal = upstream_value modelDiffs (js ''billing_mode'') source;
          exprVal = upstream_value modelDiffs (js ''billing_expr'') source;
          d1 = (if isSelectableUpstreamValue modeVal then props_set draft (js ''billing_mode'') modeVal
                else if finalType = js ''billing_expr''
                then props_set draft (js ''billing_mode'') (JStr (js ''tiered_expr'')) else draft)
      in if isSelectableUpstreamValue exprVal then props_set d1 (js ''billing_expr'') exprVal else d1)"

definition select_in_draft ::
  "model_diffs props \<Rightarrow> resolution_selection \<Rightarrow> jsval props \<Rightarrow> jsval props" where
  "select_in_draft differences selection draft =
     (let resolved = resolveResolutionSelection differences selection;
          finalType = sel_ratioType resolved;
          category = getBillingCategory finalType;
          d1 = props_set (drop_conflicts category draft) finalType (sel_value resolved)
      in case props_get differences (sel_model selection) of
           Some modelDiffs \<Rightarrow>
             if category = Tiered then add_tiered modelDiffs (sel_source selection) finalType d1 else d1
         | None \<Rightarrow> d1)"

definition applyResolutionSelectionToDraft ::
  "resolutions \<Rightarrow> model_diffs props \<Rightarrow> (jsstring \<times> jsval props) list \<Rightarrow> resolution_selection
   \<Rightarrow> (jsstring \<times> jsval props) list" where
  "applyResolutionSelectionToDraft res differences drafts selection =
     AList.update (sel_model selection)
       (select_in_draft differences selection
          (getDraftModelResolution drafts res (sel_model selection))) drafts"

text \<open>Writing a finished draft: an empty one removes the model.\<close>

definition put_draft :: "resolutions \<Rightarrow> jsstring \<times> jsval props \<Rightarrow> resolutions" where
  "put_draft nxt entry =
     (case entry of (model, draft) \<Rightarrow>
        if length (props_keys draft) = 0 then props_del nxt model else props_set nxt model draft)"

definition applyResolutionSelections ::
  "resolutions \<Rightarrow> model_diffs props \<Rightarrow> resolution_selection list \<Rightarrow> resolutions" where
  "applyResolutionSelections res differences selections =
     (if length selections = 0 then res
      else foldl put_draft (props_assign [] res)
             (foldl (applyResolutionSelectionToDraft res differences) [] selections))"

definition applyResolutionSelection ::
  "resolutions \<Rightarrow> model_diffs props \<Rightarrow> resolution_selection \<Rightarrow> resolutions" where
  "applyResolutionSelection res differences selection =
     applyResolutionSelections res differences [selection]"

definition selection_key :: "resolution_selection \<Rightarrow> jsstring" where
  "selection_key s = sel_model s @ [0] @ sel_ratioType s"

definition add_effective ::
  "model_diffs props \<Rightarrow> (jsstring \<times> resolution_selection) list \<Rightarrow> resolution_selection
   \<Rightarrow> (jsstring \<times> resolution_selection) list" where
  "add_effective differences effectiveByKey selection =
     (let resolved = resolveResolutionSelection differences selection;
          category = getBillingCategory (sel_ratioType resolved);
          kept = (if category \<noteq> Tiered then
                    filter (\<lambda>(key, existing).
                      \<not> (sel_model existing = sel_model resolved \<and>
                         getBillingCategory (sel_ratioType existing) \<noteq> Tiered \<and>
                         getBillingCategory (sel_ratioType existing) \<noteq> category)) effectiveByKey
                  else effectiveByKey)
      in AList.update (selection_key resolved) resolved kept)"

definition getEffectiveResolutionSelections ::
  "model_diffs props \<Rightarrow> resolution_selection list \<Rightarrow> resolution_selection list" where
  "getEffectiveResolutionSelections differences selections =
     map snd (foldl (add_effective differences) [] selections)"

subsection \<open>Removals\<close>

type_synonym removal_plan = "(jsstring \<times> jsstring list) list"

definition remove_field :: "jsval props \<Rightarrow> jsstring \<Rightarrow> jsval props" where
  "remove_field draft ratioType =
     (let d1 = props_del draft ratioType;
          d2 = (if ratioType = js ''billing_expr'' then props_del d1 (js ''billing_mode'') else d1)
      in if ratioType = js ''billing_mode'' then props_del d2 (js ''billing_expr'') else d2)"

definition remove_from_model :: "resolutions \<Rightarrow> resolutions \<Rightarrow> jsstring \<times> jsstring list \<Rightarrow> resolutions" where
  "remove_from_model res nxt entry =
     (case entry of (model, ratioTypes) \<Rightarrow>
        (case props_get res model of
           None \<Rightarrow> nxt
         | Some cur \<Rightarrow> put_draft nxt (model, foldl remove_field (props_assign [] cur) ratioTypes)))"

definition applyResolutionRemovalPlan :: "resolutions \<Rightarrow> removal_plan \<Rightarrow> resolutions" where
  "applyResolutionRemovalPlan res plan =
     (if length plan = 0 then res else foldl (remove_from_model res) (props_assign [] res) plan)"

definition add_removal :: "removal_plan \<Rightarrow> jsstring \<times> jsstring \<Rightarrow> removal_plan" where
  "add_removal plan removal =
     (case removal of (model, ratioType) \<Rightarrow>
        (case map_of plan model of
           Some ts \<Rightarrow> AList.update model (if ratioType \<in> set ts then ts else ts @ [ratioType]) plan
         | None \<Rightarrow> AList.update model [ratioType] plan))"

definition applyResolutionRemovals :: "resolutions \<Rightarrow> (jsstring \<times> jsstring) list \<Rightarrow> resolutions" where
  "applyResolutionRemovals res removals =
     (if length removals = 0 then res
      else applyResolutionRemovalPlan res (foldl add_removal [] removals))"

definition deleteResolutionField :: "resolutions \<Rightarrow> jsstring \<Rightarrow> jsstring \<Rightarrow> resolutions" where
  "deleteResolutionField res model ratioType = applyResolutionRemovals res [(model, ratioType)]"


subsection \<open>Drafts\<close>

lemma filter_ordered: "props_ordered p \<Longrightarrow> props_ordered (filter f p)"
  by (induction p rule: props_ordered.induct) (auto simp: list_all_iff split: if_splits)

lemma del_ordered: "props_ordered p \<Longrightarrow> props_ordered (props_del p k)"
  by (simp add: props_del_def filter_ordered)

definition draft_wf :: "jsval props \<Rightarrow> bool" where
  "draft_wf d \<longleftrightarrow> props_ok d \<and> props_ordered d"

lemma draft_wf_Nil [simp]: "draft_wf []"
  by (simp add: draft_wf_def)

lemma draft_wf_ops [js_wf]:
  "draft_wf d \<Longrightarrow> draft_wf (props_set d k v)" "draft_wf d \<Longrightarrow> draft_wf (props_del d k)"
  by (simp_all add: draft_wf_def ps.ok_put ps.ok_del props_set_ordered del_ordered)

lemma copy_draft: "draft_wf d \<Longrightarrow> props_assign [] d = d"
  by (simp add: draft_wf_def props_rebuild)

lemma foldl_if: "foldl (\<lambda>acc x. if P x then f acc x else acc) a xs = foldl f a (filter P xs)"
  by (induction xs arbitrary: a) auto

lemma foldl_del_wf: "draft_wf d \<Longrightarrow> draft_wf (foldl props_del d ks)"
  by (induction ks arbitrary: d) (auto simp: draft_wf_ops)

lemma drop_conflicts_alt:
  "drop_conflicts c d = foldl props_del d
     (filter (\<lambda>rt. c \<noteq> Tiered \<and> getBillingCategory rt \<noteq> Tiered \<and> getBillingCategory rt \<noteq> c) (props_keys d))"
  unfolding drop_conflicts_def by (rule foldl_if)

lemma drop_conflicts_wf [js_wf]: "draft_wf d \<Longrightarrow> draft_wf (drop_conflicts c d)"
  by (simp add: drop_conflicts_alt foldl_del_wf)

lemma add_tiered_wf [js_wf]: "draft_wf d \<Longrightarrow> draft_wf (add_tiered md s f d)"
  by (simp add: add_tiered_def Let_def draft_wf_ops)

lemma select_wf [js_wf]: "draft_wf d \<Longrightarrow> draft_wf (select_in_draft df s d)"
  by (simp add: select_in_draft_def Let_def js_wf split: option.splits)

lemma set_nonempty [simp]: "props_set p k v \<noteq> []"
proof -
  have "insert_index k v p \<noteq> []" using set_insert_index [of k v p] by (metis insert_not_empty set_empty)
  moreover have "k \<in> set (props_keys p) \<Longrightarrow> props_replace p k v \<noteq> []"
    by (cases p) (auto simp: props_keys_def split: if_splits)
  ultimately show ?thesis by (simp add: props_set_def)
qed

lemma select_nonempty [simp]: "select_in_draft df s d \<noteq> []"
  by (simp add: select_in_draft_def Let_def add_tiered_def split: option.splits)

text \<open>No draft mixes a fixed price with ratios.\<close>

definition consistent :: "jsval props \<Rightarrow> bool" where
  "consistent d \<longleftrightarrow>
     (\<forall>a\<in>set (props_keys d). \<forall>b\<in>set (props_keys d).
        getBillingCategory a \<noteq> Tiered \<longrightarrow> getBillingCategory b \<noteq> Tiered \<longrightarrow>
        getBillingCategory a = getBillingCategory b)"

lemma keys_put: "props_ok p \<Longrightarrow> set (props_keys (props_set p k v)) = insert k (set (props_keys p))"
  by (auto simp: ps.keys_get ps.ok_put)

lemma keys_drop:
  assumes "props_ok d"
  shows "set (props_keys (drop_conflicts c d)) =
    {k \<in> set (props_keys d). c = Tiered \<or> getBillingCategory k = Tiered \<or> getBillingCategory k = c}"
  unfolding drop_conflicts_alt using ps.keys_foldl_del [OF assms] by auto

lemma consistent_put_tiered:
  "props_ok d \<Longrightarrow> consistent d \<Longrightarrow> getBillingCategory k = Tiered \<Longrightarrow> consistent (props_set d k v)"
  by (auto simp: consistent_def keys_put)

lemma category_fields [simp]:
  "getBillingCategory (js ''billing_mode'') = Tiered" "getBillingCategory (js ''billing_expr'') = Tiered"
  "getBillingCategory (js ''model_price'') = Price"
  by (simp_all add: getBillingCategory_def)

lemma consistent_add_tiered:
  assumes "draft_wf d" "consistent d"
  shows "consistent (add_tiered md s f d)"
proof -
  have "props_ok d" using assms(1) by (simp add: draft_wf_def)
  then show ?thesis
    using assms(2) by (auto simp: add_tiered_def Let_def intro!: consistent_put_tiered ps.ok_put)
qed

lemma consistent_select:
  assumes "draft_wf d" "consistent d"
  shows "consistent (select_in_draft df s d)"
proof -
  define ty where "ty = sel_ratioType (resolveResolutionSelection df s)"
  define d1 where "d1 = props_set (drop_conflicts (getBillingCategory ty) d) ty
      (sel_value (resolveResolutionSelection df s))"
  have ok: "props_ok (drop_conflicts (getBillingCategory ty) d)" "props_ok d"
    using drop_conflicts_wf [OF assms(1)] assms(1) by (auto simp: draft_wf_def)
  have keys: "set (props_keys d1) = insert ty {k \<in> set (props_keys d). getBillingCategory ty = Tiered \<or>
      getBillingCategory k = Tiered \<or> getBillingCategory k = getBillingCategory ty}"
    unfolding d1_def keys_put [OF ok(1)] keys_drop [OF ok(2)] ..
  have "consistent d1"
    unfolding consistent_def
  proof (intro ballI impI)
    fix a b assume ab: "a \<in> set (props_keys d1)" "b \<in> set (props_keys d1)"
      "getBillingCategory a \<noteq> Tiered" "getBillingCategory b \<noteq> Tiered"
    show "getBillingCategory a = getBillingCategory b"
    proof (cases "getBillingCategory ty = Tiered")
      case True
      then have "a \<in> set (props_keys d)" "b \<in> set (props_keys d)" using ab keys by auto
      then show ?thesis using assms(2) ab(3,4) unfolding consistent_def by blast
    next
      case False
      then show ?thesis using ab keys by auto
    qed
  qed
  moreover have "draft_wf d1" unfolding d1_def using assms(1) by (intro draft_wf_ops drop_conflicts_wf)
  ultimately show ?thesis
    using consistent_add_tiered [of d1]
    unfolding select_in_draft_def Let_def ty_def [symmetric] d1_def [symmetric]
    by (simp split: option.splits)
qed

subsection \<open>What a batch does to each model\<close>

definition res_wf :: "resolutions \<Rightarrow> bool" where
  "res_wf res \<longleftrightarrow> props_ok res \<and> list_all (\<lambda>(_, d). draft_wf d) res"

definition base :: "resolutions \<Rightarrow> jsstring \<Rightarrow> jsval props" where
  "base res m = (case props_get res m of Some r \<Rightarrow> r | None \<Rightarrow> [])"

lemma res_wf_get: "res_wf res \<Longrightarrow> props_get res m = Some d \<Longrightarrow> draft_wf d"
  by (auto simp: res_wf_def props_get_def list_all_iff dest!: map_of_SomeD)

lemma base_wf: "res_wf res \<Longrightarrow> draft_wf (base res m)"
  using res_wf_get by (auto simp: base_def split: option.splits)

definition run_selections ::
  "model_diffs props \<Rightarrow> resolution_selection list \<Rightarrow> jsstring \<Rightarrow> jsval props \<Rightarrow> jsval props" where
  "run_selections df sels m d = foldl (\<lambda>d s. select_in_draft df s d) d (filter (\<lambda>s. sel_model s = m) sels)"

lemma run_wf: "draft_wf d \<Longrightarrow> draft_wf (run_selections df sels m d)"
  unfolding run_selections_def by (induction sels arbitrary: d) (auto simp: select_wf)

lemma run_consistent: "draft_wf d \<Longrightarrow> consistent d \<Longrightarrow> consistent (run_selections df sels m d)"
  unfolding run_selections_def by (induction sels arbitrary: d) (auto simp: select_wf consistent_select)

lemma run_snoc: "run_selections df (sels @ [s]) m d =
    (if sel_model s = m then select_in_draft df s (run_selections df sels m d) else run_selections df sels m d)"
  by (simp add: run_selections_def)

lemma run_Cons: "run_selections df (s # sels) m d =
    run_selections df sels m (if sel_model s = m then select_in_draft df s d else d)"
  by (simp add: run_selections_def)

lemma run_none: "m \<notin> sel_model ` set sels \<Longrightarrow> run_selections df sels m d = d"
  by (induction sels) (auto simp: run_Cons run_selections_def)

lemma drafts_get:
  assumes "res_wf res"
  shows "map_of (foldl (applyResolutionSelectionToDraft res df) [] sels) m =
      (if m \<in> sel_model ` set sels then Some (run_selections df sels m (base res m)) else None) \<and>
    distinct (map fst (foldl (applyResolutionSelectionToDraft res df) [] sels))"
proof (induction sels arbitrary: m rule: rev_induct)
  case (snoc s sels)
  let ?d = "foldl (applyResolutionSelectionToDraft res df) [] sels"
  let ?m = "sel_model s"
  have draft: "getDraftModelResolution ?d res ?m = run_selections df sels ?m (base res ?m)"
  proof (cases "?m \<in> sel_model ` set sels")
    case True
    then show ?thesis using snoc.IH [of ?m] by (simp add: getDraftModelResolution_def)
  next
    case False
    then have "filter (\<lambda>x. sel_model x = ?m) sels = []" by (auto simp: filter_empty_conv image_iff)
    then show ?thesis
      using snoc.IH [of ?m] False res_wf_get [OF assms, of ?m]
      by (auto simp: getDraftModelResolution_def base_def run_selections_def copy_draft split: option.splits)
  qed
  show ?case
    using snoc.IH [of m] draft
    by (auto simp: applyResolutionSelectionToDraft_def [of res df ?d s] update_conv' run_snoc distinct_update)
qed simp

lemma put_drafts_get:
  assumes "distinct (map fst ds)" "\<forall>d\<in>snd ` set ds. d \<noteq> []"
  shows "props_get (foldl put_draft n ds) m = (case map_of ds m of Some d \<Rightarrow> Some d | None \<Rightarrow> props_get n m)"
  using assms
proof (induction ds arbitrary: n)
  case (Cons e ds)
  obtain k d where e: "e = (k, d)" by (cases e)
  then have "put_draft n e = props_set n k d"
    using Cons.prems(2) by (auto simp: put_draft_def props_keys_def)
  moreover have "map_of ds k = None" using Cons.prems(1) e by (simp add: map_of_eq_None_iff)
  ultimately show ?case using Cons e by (auto split: option.splits)
qed simp

lemma copy_get: "props_ok res \<Longrightarrow> props_get (props_assign [] res) = props_get res"
  using map_of_rev_distinct [of res]
  by (simp add: props_get_assign_Nil props_ok_def props_keys_def) (simp add: props_get_def)

lemma batch_get:
  assumes "res_wf res"
  shows "props_get (applyResolutionSelections res df sels) m =
    (if m \<in> sel_model ` set sels then Some (run_selections df sels m (base res m)) else props_get res m)"
proof (cases "sels = []")
  case False
  let ?d = "foldl (applyResolutionSelectionToDraft res df) [] sels"
  have "d \<noteq> []" if "(k, d) \<in> set ?d" for k d
  proof -
    have "map_of ?d k = Some d"
      using map_of_is_SomeI [OF conjunct2 [OF drafts_get [OF assms]] that] .
    then have k: "k \<in> sel_model ` set sels" "d = run_selections df sels k (base res k)"
      using drafts_get [OF assms, of df sels k] by (auto split: if_splits)
    then obtain s xs where "filter (\<lambda>x. sel_model x = k) sels = xs @ [s]"
      by (cases "filter (\<lambda>x. sel_model x = k) sels" rule: rev_cases) (auto simp: filter_empty_conv)
    then show ?thesis using k(2) by (simp add: run_selections_def)
  qed
  then have "props_get (foldl put_draft (props_assign [] res) ?d) m =
      (case map_of ?d m of Some d \<Rightarrow> Some d | None \<Rightarrow> props_get (props_assign [] res) m)"
    using drafts_get [OF assms] by (intro put_drafts_get) auto
  then show ?thesis
    using drafts_get [OF assms, of df sels m] False assms
    by (auto simp: applyResolutionSelections_def copy_get res_wf_def)
qed (simp add: applyResolutionSelections_def)


lemma res_wfI:
  assumes "props_ok r" "\<And>m d. props_get r m = Some d \<Longrightarrow> draft_wf d"
  shows "res_wf r"
proof -
  have "draft_wf d" if "(m, d) \<in> set r" for m d
    using that assms by (metis map_of_is_SomeI props_get_def props_keys_def props_ok_def)
  then show ?thesis using assms(1) by (auto simp: res_wf_def list_all_iff)
qed

lemma put_draft_ok: "props_ok n \<Longrightarrow> props_ok (put_draft n e)"
  by (cases e) (simp add: put_draft_def ps.ok_del ps.ok_put)

lemma put_drafts_ok: "props_ok n \<Longrightarrow> props_ok (foldl put_draft n ds)"
  by (induction ds arbitrary: n) (auto simp: put_draft_ok)

lemma batch_wf:
  assumes "res_wf res"
  shows "res_wf (applyResolutionSelections res df sels)"
proof (rule res_wfI)
  show "props_ok (applyResolutionSelections res df sels)"
    using assms put_drafts_ok [OF props_assign_ok [OF props_ok_Nil]]
    by (simp add: applyResolutionSelections_def res_wf_def)
  show "draft_wf d" if "props_get (applyResolutionSelections res df sels) m = Some d" for m d
    using that res_wf_get [OF assms, of m] run_wf [OF base_wf [OF assms, of m]]
    by (auto simp: batch_get [OF assms] split: if_splits)
qed

subsection \<open>Removing\<close>

definition removed_with :: "jsstring \<Rightarrow> jsstring set" where
  "removed_with t =
     {t} \<union> (if t = js ''billing_expr'' then {js ''billing_mode''} else {}) \<union>
     (if t = js ''billing_mode'' then {js ''billing_expr''} else {})"

declare props_get_del [simp]

lemma remove_field_get: "props_get (remove_field d t) k = (if k \<in> removed_with t then None else props_get d k)"
  by (auto simp: remove_field_def removed_with_def Let_def)

lemma remove_fields_get:
  "props_get (foldl remove_field d ts) k = (if \<exists>t\<in>set ts. k \<in> removed_with t then None else props_get d k)"
  by (induction ts arbitrary: d) (auto simp: remove_field_get)

definition val_of :: "resolutions \<Rightarrow> jsstring \<Rightarrow> jsstring \<Rightarrow> jsval option" where
  "val_of res m k = Option.bind (props_get res m) (\<lambda>d. props_get d k)"

lemma put_draft_get:
  "props_get (put_draft n (m, d)) m' = (if m' = m then (if d = [] then None else Some d) else props_get n m')"
  by (auto simp: put_draft_def props_keys_def)

lemma plan_get:
  assumes "res_wf res" "distinct (map fst plan)"
  shows "props_get (foldl (remove_from_model res) n plan) m =
    (case map_of plan m of
       None \<Rightarrow> props_get n m
     | Some ts \<Rightarrow>
         (case props_get res m of
            None \<Rightarrow> props_get n m
          | Some cur \<Rightarrow> (if foldl remove_field cur ts = [] then None else Some (foldl remove_field cur ts))))"
  using assms(2)
proof (induction plan arbitrary: n)
  case (Cons e plan)
  obtain k ts where e: "e = (k, ts)" by (cases e)
  have k: "map_of plan k = None" using Cons.prems e by (simp add: map_of_eq_None_iff)
  have step: "props_get (remove_from_model res n e) m' =
      (case props_get res k of None \<Rightarrow> props_get n m'
       | Some cur \<Rightarrow> if m' = k then (if foldl remove_field cur ts = [] then None else Some (foldl remove_field cur ts))
                    else props_get n m')" for m'
    using res_wf_get [OF assms(1), of k]
    by (auto simp: remove_from_model_def e put_draft_get copy_draft split: option.splits)
  show ?case
    using Cons.IH [of "remove_from_model res n e"] Cons.prems k
    by (auto simp: step [unfolded e] e split: option.splits)
qed simp

lemma plan_of_removals:
  "distinct (map fst (foldl add_removal [] rs)) \<and>
   (case map_of (foldl add_removal [] rs) m of
      None \<Rightarrow> {t. (m, t) \<in> set rs} = {} | Some ts \<Rightarrow> set ts = {t. (m, t) \<in> set rs} \<and> ts \<noteq> [])"
proof (induction rs arbitrary: m rule: rev_induct)
  case (snoc r rs)
  obtain k t where r: "r = (k, t)" by (cases r)
  show ?case
    using snoc.IH [of m] snoc.IH [of k]
    by (cases "map_of (foldl add_removal [] rs) k"; cases "m = k")
       (auto simp: r add_removal_def [of "foldl add_removal [] rs"] update_conv' distinct_update
         simp del: map_of_eq_Some_iff split: option.splits if_splits)
qed simp

lemma removals_get:
  assumes "res_wf res"
  shows "val_of (applyResolutionRemovals res rs) m k =
      (if \<exists>t. (m, t) \<in> set rs \<and> k \<in> removed_with t then None else val_of res m k)"
proof (cases "rs = []")
  case False
  let ?plan = "foldl add_removal [] rs"
  have "?plan \<noteq> []"
  proof
    assume "?plan = []"
    then have "{t. (m, t) \<in> set rs} = {}" for m using plan_of_removals [of rs m] by simp
    then show False using False by (cases rs) auto
  qed
  then have app: "props_get (applyResolutionRemovals res rs) m =
      props_get (foldl (remove_from_model res) (props_assign [] res) ?plan) m"
    using False by (simp add: applyResolutionRemovals_def applyResolutionRemovalPlan_def)
  have copy: "props_get (props_assign [] res) = props_get res"
    using assms by (simp add: copy_get res_wf_def)
  have get: "props_get (applyResolutionRemovals res rs) m =
    (case map_of ?plan m of
       None \<Rightarrow> props_get res m
     | Some ts \<Rightarrow>
         (case props_get res m of
            None \<Rightarrow> props_get res m
          | Some cur \<Rightarrow> (if foldl remove_field cur ts = [] then None else Some (foldl remove_field cur ts))))"
    using plan_get [OF assms, of ?plan "props_assign [] res" m] conjunct1 [OF plan_of_removals [of rs m]]
    unfolding app copy by blast
  show ?thesis
  proof (cases "map_of ?plan m")
    case None
    then have "\<nexists>t. (m, t) \<in> set rs" using plan_of_removals [of rs m] by auto
    then show ?thesis using get None by (simp add: val_of_def)
  next
    case (Some ts)
    then have ts: "set ts = {t. (m, t) \<in> set rs}"
      using plan_of_removals [of rs m] unfolding Some option.case by blast
    have "props_get ([] :: jsval props) k = None" by (simp add: props_get_def)
    then have "val_of (applyResolutionRemovals res rs) m k =
        (case props_get res m of None \<Rightarrow> None | Some cur \<Rightarrow> props_get (foldl remove_field cur ts) k)"
      using get Some by (simp add: val_of_def split: option.splits)
    then show ?thesis by (simp add: remove_fields_get ts val_of_def split: option.splits)
  qed
qed (simp add: applyResolutionRemovals_def)


subsection \<open>Properties\<close>

text \<open>C22: applying a batch of selections is the same as applying them one after another.\<close>

theorem batch_selection_is_sequential:
  assumes "res_wf res"
  shows "props_get (applyResolutionSelections res df sels) m =
    props_get (foldl (\<lambda>r s. applyResolutionSelection r df s) res sels) m"
  using assms
proof (induction sels arbitrary: res)
  case (Cons s sels)
  let ?r = "applyResolutionSelection res df s"
  have wf: "res_wf ?r" unfolding applyResolutionSelection_def using Cons.prems by (rule batch_wf)
  have get: "props_get ?r m' =
      (if m' = sel_model s then Some (select_in_draft df s (base res m')) else props_get res m')" for m'
    using batch_get [OF Cons.prems, of df "[s]" m'] by (simp add: applyResolutionSelection_def run_selections_def)
  have base: "base ?r m = (if m = sel_model s then select_in_draft df s (base res m) else base res m)"
    by (simp add: base_def get)
  have "props_get (foldl (\<lambda>r s. applyResolutionSelection r df s) res (s # sels)) m =
      (if m \<in> sel_model ` set sels then Some (run_selections df sels m (base ?r m)) else props_get ?r m)"
    using Cons.IH [OF wf] batch_get [OF wf, of df sels m] by simp
  then show ?case
    using run_none [of m sels] unfolding base get batch_get [OF Cons.prems] run_Cons by auto
qed (simp add: applyResolutionSelections_def)

definition sample_diffs :: "model_diffs props" where
  "sample_diffs = [(js ''m'', [(js ''model_ratio'', \<lparr>diff_current = JNull,
     upstreams = [(js ''s'', JNum (Fin 2))], confidence = []\<rparr>)])]"

definition sample_selection :: "string \<Rightarrow> rat \<Rightarrow> resolution_selection" where
  "sample_selection ty v = \<lparr>sel_model = js ''m'', sel_ratioType = js ty, sel_value = JNum (Fin v),
     sel_source = js ''s''\<rparr>"

theorem batch_selection_is_sequential_witness:
  "props_get (applyResolutionSelections [] sample_diffs
     [sample_selection ''model_price'' 1, sample_selection ''model_ratio'' 2]) (js ''m'') =
   props_get (applyResolutionSelection (applyResolutionSelection [] sample_diffs
     (sample_selection ''model_price'' 1)) sample_diffs (sample_selection ''model_ratio'' 2)) (js ''m'')"
  using batch_selection_is_sequential [of "[]" sample_diffs
      "[sample_selection ''model_price'' 1, sample_selection ''model_ratio'' 2]" "js ''m''"]
  by (simp add: res_wf_def)

text \<open>C23: selections never mix a fixed price with ratios: if no model has both before, no model
  has both after.\<close>

theorem selections_keep_exclusive:
  assumes "res_wf res" "list_all (\<lambda>(_, d). consistent d) res"
  shows "list_all (\<lambda>(_, d). consistent d) (applyResolutionSelections res df sels) \<and>
    res_wf (applyResolutionSelections res df sels)"
proof -
  let ?r = "applyResolutionSelections res df sels"
  have wf: "res_wf ?r" using assms(1) by (rule batch_wf)
  have old: "consistent d" if "props_get res m = Some d" for m d
    using that assms(2) by (auto simp: props_get_def list_all_iff dest!: map_of_SomeD)
  then have base: "consistent (base res m)" for m
    by (cases "props_get res m") (auto simp: base_def consistent_def [of "[]"] props_keys_def [of "[]"])
  have "consistent d" if "(m, d) \<in> set ?r" for m d
  proof -
    have "props_get ?r m = Some d"
      using that wf by (simp add: props_get_def res_wf_def props_ok_def props_keys_def)
    then show ?thesis
      using old [of m d] run_consistent [OF base_wf [OF assms(1)] base, of df sels m]
      by (auto simp: batch_get [OF assms(1)] split: if_splits)
  qed
  then show ?thesis using wf by (auto simp: list_all_iff)
qed

theorem selections_keep_exclusive_witness:
  "list_all (\<lambda>(_, d). consistent d) (applyResolutionSelections
     [(js ''m'', [(js ''model_price'', JNum (Fin 1))])] sample_diffs [sample_selection ''model_ratio'' 2])"
proof -
  let ?r = "[(js ''m'', [(js ''model_price'', JNum (Fin 1))])]"
  have "res_wf ?r" "list_all (\<lambda>(_, d). consistent d) ?r" by code_simp+
  then show ?thesis using selections_keep_exclusive by blast
qed

text \<open>a removal clears exactly the requested fields: a billing expression goes together with its
  billing mode, and every other value of every model stays.\<close>

theorem removals_exact:
  assumes "res_wf res"
  shows "val_of (applyResolutionRemovals res rs) m k =
    (if \<exists>t. (m, t) \<in> set rs \<and> k \<in> removed_with t then None else val_of res m k)"
  using assms by (rule removals_get)

theorem removals_exact_witness:
  "val_of (applyResolutionRemovals
     [(js ''m'', [(js ''billing_expr'', JStr (js ''p'')), (js ''billing_mode'', JStr (js ''tiered_expr''))])]
     [(js ''m'', js ''billing_expr'')]) (js ''m'') (js ''billing_mode'') = None"
proof -
  have "res_wf [(js ''m'', [(js ''billing_expr'', JStr (js ''p'')), (js ''billing_mode'', JStr (js ''tiered_expr''))])]"
    by code_simp
  from removals_exact [OF this, of "[(js ''m'', js ''billing_expr'')]" "js ''m''" "js ''billing_mode''"]
  show ?thesis by (simp add: removed_with_def)
qed

text \<open>a selected ratio or price is shown as selected: after applying a selection whose effective
  field is numeric and whose value is finite, that field of the model holds the value.\<close>

theorem selection_takes_effect:
  assumes "res_wf res"
    and "sel_ratioType (resolveResolutionSelection df s) \<in> set NUMERIC_SYNC_FIELDS"
    and "isSelectableUpstreamValue (sel_value (resolveResolutionSelection df s))"
    and "num_is_finite (to_number (sel_value (resolveResolutionSelection df s)))"
  shows "isSelectedResolutionValue (applyResolutionSelection res df s) (sel_model s)
    (sel_ratioType (resolveResolutionSelection df s)) (sel_value (resolveResolutionSelection df s))"
proof -
  define r where "r = resolveResolutionSelection df s"
  have cat: "getBillingCategory (sel_ratioType r) \<noteq> Tiered"
    using assms(2) unfolding r_def [symmetric]
    by (auto simp: NUMERIC_SYNC_FIELDS_def RATIO_SYNC_FIELDS_def getBillingCategory_def)
  have "props_get (applyResolutionSelection res df s) (sel_model s) =
      Some (select_in_draft df s (base res (sel_model s)))"
    using batch_get [OF assms(1), of df "[s]"] by (simp add: applyResolutionSelection_def run_selections_def)
  moreover have "val_at (select_in_draft df s d) (sel_ratioType r) = sel_value r" for d
    using cat unfolding select_in_draft_def Let_def r_def [symmetric] by (simp split: option.splits)
  moreover have "num_eq x x" if "num_is_finite x" for x
    using that by (cases x) (simp_all add: num_eq_def num_is_finite_def)
  ultimately show ?thesis
    using assms(2-4) unfolding r_def [symmetric]
    by (auto simp: isSelectedResolutionValue_def Let_def isSelectableUpstreamValue_def)
qed

theorem selection_takes_effect_witness:
  "isSelectedResolutionValue (applyResolutionSelection [] sample_diffs (sample_selection ''model_ratio'' 2))
     (js ''m'') (js ''model_ratio'') (JNum (Fin 2))"
proof -
  let ?s = "sample_selection ''model_ratio'' 2"
  have r: "resolveResolutionSelection sample_diffs ?s = ?s" by code_simp
  have 1: "res_wf []" by (simp add: res_wf_def)
  have 2: "sel_ratioType (resolveResolutionSelection sample_diffs ?s) \<in> set NUMERIC_SYNC_FIELDS"
    "isSelectableUpstreamValue (sel_value (resolveResolutionSelection sample_diffs ?s))"
    "num_is_finite (to_number (sel_value (resolveResolutionSelection sample_diffs ?s)))"
    by code_simp+
  show ?thesis using selection_takes_effect [OF 1 2] unfolding r by (simp add: sample_selection_def)
qed

end
