(* ===== verification/JS_Sort.thy ===== *)
theory JS_Sort
  imports Prelude "HOL-Library.Multiset"
begin

text \<open>
  \<^verbatim>\<open>Array.prototype.sort\<close>. The standard leaves the algorithm open but asks for a stable one; a
  comparison function that returns a positive number for \<open>a\<close> and \<open>b\<close> says that \<open>a\<close> comes after \<open>b\<close>,
  and \<open>le a b\<close> is its negation. The model sorts by insertion. The locale \<open>stable_order\<close> states when
  that is the only possible result: the comparison has to be a total preorder on the elements that
  occur, and then \<open>sort_unique\<close> says that every stable algorithm agrees with the model.
\<close>

fun insert_by :: "('a \<Rightarrow> 'a \<Rightarrow> bool) \<Rightarrow> 'a \<Rightarrow> 'a list \<Rightarrow> 'a list" where
  "insert_by le x [] = [x]"
| "insert_by le x (y # ys) = (if le x y then x # y # ys else y # insert_by le x ys)"

definition sort_by :: "('a \<Rightarrow> 'a \<Rightarrow> bool) \<Rightarrow> 'a list \<Rightarrow> 'a list" where
  "sort_by le xs = foldr (insert_by le) xs []"

lemma sort_by_simps [simp]:
  "sort_by le [] = []"
  "sort_by le (x # xs) = insert_by le x (sort_by le xs)"
  by (simp_all add: sort_by_def)

lemma mset_insert_by [simp]: "mset (insert_by le x ys) = add_mset x (mset ys)"
  by (induction ys) auto

lemma mset_sort_by [simp]: "mset (sort_by le xs) = mset xs"
  by (induction xs) auto

lemma set_insert_by [simp]: "set (insert_by le x ys) = insert x (set ys)"
  by (induction ys) auto

lemma set_sort_by [simp]: "set (sort_by le xs) = set xs"
  by (induction xs) auto

lemma length_sort_by [simp]: "length (sort_by le xs) = length xs"
  by (metis mset_sort_by size_mset)

lemma distinct_sort_by [simp]: "distinct (sort_by le xs) = distinct xs"
  by (metis mset_eq_imp_distinct_iff mset_sort_by)

definition same_rank :: "('a \<Rightarrow> 'a \<Rightarrow> bool) \<Rightarrow> 'a \<Rightarrow> 'a \<Rightarrow> bool" where
  "same_rank le x y \<longleftrightarrow> le x y \<and> le y x"

locale stable_order =
  fixes A :: "'a set" and le :: "'a \<Rightarrow> 'a \<Rightarrow> bool"
  assumes total: "x \<in> A \<Longrightarrow> y \<in> A \<Longrightarrow> le x y \<or> le y x"
    and trans: "x \<in> A \<Longrightarrow> y \<in> A \<Longrightarrow> z \<in> A \<Longrightarrow> le x y \<Longrightarrow> le y z \<Longrightarrow> le x z"
begin

lemma rank_refl: "x \<in> A \<Longrightarrow> same_rank le x x"
  using total by (auto simp: same_rank_def)

lemma insert_sorted:
  "insert x (set ys) \<subseteq> A \<Longrightarrow> sorted_wrt le ys \<Longrightarrow> sorted_wrt le (insert_by le x ys)"
proof (induction ys)
  case (Cons y ys)
  then show ?case using total [of x y] by (auto intro: trans [of x y])
qed simp

lemma sort_sorted: "set xs \<subseteq> A \<Longrightarrow> sorted_wrt le (sort_by le xs)"
proof (induction xs)
  case (Cons x xs)
  then show ?case using insert_sorted [of x "sort_by le xs"] by simp
qed simp

lemma insert_stable:
  "insert x (insert z (set ys)) \<subseteq> A \<Longrightarrow> sorted_wrt le ys \<Longrightarrow>
   filter (same_rank le z) (insert_by le x ys) = filter (same_rank le z) (x # ys)"
proof (induction ys)
  case (Cons y ys)
  show ?case
  proof (cases "le x y")
    case False
    then have "\<not> (same_rank le z x \<and> same_rank le z y)"
      using Cons.prems(1) trans [of x z y] by (auto simp: same_rank_def)
    then show ?thesis using Cons False by auto
  qed simp
qed simp

lemma sort_stable: "set xs \<subseteq> A \<Longrightarrow> z \<in> A \<Longrightarrow> filter (same_rank le z) (sort_by le xs) = filter (same_rank le z) xs"
proof (induction xs)
  case (Cons x xs)
  then show ?case using insert_stable [of x z "sort_by le xs"] sort_sorted [of xs] by simp
qed simp

lemma sorted_eqI:
  assumes "set ys \<subseteq> A" "set zs \<subseteq> A" "sorted_wrt le ys" "sorted_wrt le zs"
    and "\<And>x. x \<in> A \<Longrightarrow> filter (same_rank le x) ys = filter (same_rank le x) zs"
  shows "ys = zs"
  using assms
proof (induction ys arbitrary: zs)
  case Nil
  have "z \<notin> set zs" for z
  proof
    assume "z \<in> set zs"
    then have "z \<in> set (filter (same_rank le z) zs)" using Nil.prems(2) rank_refl by auto
    then show False using Nil.prems(2,5) \<open>z \<in> set zs\<close> by (metis empty_iff empty_set filter.simps(1) subsetD)
  qed
  then show ?case by (cases zs) auto
next
  case (Cons y ys)
  have y: "y \<in> A" using Cons.prems(1) by simp
  have "y \<in> set (filter (same_rank le y) (y # ys))" using rank_refl [OF y] by simp
  then have in_zs: "y \<in> set zs" using Cons.prems(5) [OF y] by (metis filter_is_subset subsetD)
  then obtain z zs' where zs: "zs = z # zs'" by (cases zs) auto
  have z: "z \<in> A" using Cons.prems(2) zs by simp
  have "z \<in> set (filter (same_rank le z) zs)" using rank_refl [OF z] zs by simp
  then have in_ys: "z \<in> set (y # ys)" using Cons.prems(5) [OF z] by (metis filter_is_subset subsetD)
  have "le z y" using in_zs zs Cons.prems(4) rank_refl [OF y] by (auto simp: same_rank_def)
  moreover have "le y z" using in_ys Cons.prems(3) rank_refl [OF z] by (auto simp: same_rank_def)
  ultimately have "same_rank le y z" by (simp add: same_rank_def)
  then have eq: "y = z" using Cons.prems(5) [OF y] rank_refl [OF y] by (simp add: zs)
  have "filter (same_rank le x) ys = filter (same_rank le x) zs'" if "x \<in> A" for x
    using Cons.prems(5) [OF that] by (simp add: zs eq split: if_splits)
  then have "ys = zs'" using Cons zs by simp
  then show ?case by (simp add: zs eq)
qed

lemma sort_unique:
  assumes "set xs \<subseteq> A" "set ys \<subseteq> A" "sorted_wrt le ys"
    and "\<And>x. x \<in> A \<Longrightarrow> filter (same_rank le x) ys = filter (same_rank le x) xs"
  shows "ys = sort_by le xs"
  by (rule sorted_eqI) (use assms sort_sorted sort_stable in auto)

end

text \<open>Sorting by a key whose values are totally ordered.\<close>

locale key_order = stable_order B kle for B :: "'k set" and kle :: "'k \<Rightarrow> 'k \<Rightarrow> bool" +
  fixes key :: "'a \<Rightarrow> 'k"
begin

lemma by_key: "stable_order {x. key x \<in> B} (\<lambda>x y. kle (key x) (key y))"
  by unfold_locales (auto intro: trans dest: total)

lemma by_key_down: "stable_order {x. key x \<in> B} (\<lambda>x y. kle (key y) (key x))"
  by unfold_locales (auto intro: trans dest: total)

end

end
