(* ===== verification/ChannelUtils.thy ===== *)
theory ChannelUtils
  imports JS_Json JS_Sort
begin

text \<open>
  Channel helpers: \<^verbatim>\<open>features/channels/lib/channel-utils.ts\<close> with the tables of
  \<^verbatim>\<open>features/channels/constants.ts\<close> and the channel record of \<^verbatim>\<open>features/channels/types.ts\<close>.

  Tables keyed by integers are association lists in the order JavaScript enumerates integer keys.
  Numbers that are added or averaged are doubles. \<^verbatim>\<open>localeCompare\<close> belongs to the browser's
  collation data: its sign is the parameter \<open>cmp\<close>. Balance, quota and time formatting go through
  the currency and date libraries and are left out.
\<close>

subsection \<open>Arithmetic on doubles\<close>

definition num_scale :: "nat \<Rightarrow> jsnum \<Rightarrow> jsnum" where
  "num_scale n x =
     (case x of
        Fin a \<Rightarrow> round_double (a * of_nat n)
      | NaN \<Rightarrow> NaN
      | PosInf \<Rightarrow> if n = 0 then NaN else PosInf
      | NegInf \<Rightarrow> if n = 0 then NaN else NegInf)"

definition num_div_nat :: "jsnum \<Rightarrow> nat \<Rightarrow> jsnum" where
  "num_div_nat x n =
     (case x of
        Fin a \<Rightarrow> if n = 0 then (if a = 0 then NaN else if a > 0 then PosInf else NegInf)
                 else round_double (a / of_nat n)
      | NaN \<Rightarrow> NaN | PosInf \<Rightarrow> PosInf | NegInf \<Rightarrow> NegInf)"

subsection \<open>Tables\<close>

definition CHANNEL_TYPES :: "(int \<times> jsstring) list" where
  "CHANNEL_TYPES =
     [(0, js ''Unknown''), (1, js ''OpenAI''), (2, js ''Midjourney''),
      (3, js ''Azure''), (4, js ''Ollama''), (5, js ''MidjourneyPlus''),
      (6, js ''OpenAIMax''), (7, js ''OhMyGPT''), (8, js ''Custom''),
      (9, js ''AILS''), (10, js ''AI Proxy''), (11, js ''PaLM''),
      (12, js ''API2GPT''), (13, js ''AIGC2D''), (14, js ''Anthropic''),
      (15, js ''Baidu''), (16, js ''Zhipu''), (17, js ''Ali''),
      (18, js ''Xunfei''), (19, js ''360''), (20, js ''OpenRouter''),
      (21, js ''AI Proxy Library''), (22, js ''FastGPT''), (23, js ''Tencent''),
      (24, js ''Gemini''), (25, js ''Moonshot''), (26, js ''Zhipu V4''),
      (27, js ''Perplexity''), (31, js ''LingYiWanWu''), (33, js ''AWS''),
      (34, js ''Cohere''), (35, js ''MiniMax''), (36, js ''SunoAPI''),
      (37, js ''Dify''), (38, js ''Jina''), (39, js ''Cloudflare''),
      (40, js ''SiliconFlow''), (41, js ''Vertex AI''), (42, js ''Mistral''),
      (43, js ''DeepSeek''), (44, js ''MokaAI''), (45, js ''VolcEngine''),
      (46, js ''Baidu V2''), (47, js ''Xinference''), (48, js ''xAI''),
      (49, js ''Coze''), (50, js ''Kling''), (51, js ''Jimeng''),
      (52, js ''Vidu''), (53, js ''Submodel''), (54, js ''DoubaoVideo''),
      (55, js ''Sora''), (56, js ''Replicate''), (57, js ''Codex''),
      (58, js ''Advanced Custom'')]"

definition CHANNEL_TYPE_DISPLAY_ORDER :: "int list" where
  "CHANNEL_TYPE_DISPLAY_ORDER =
     [1, 14, 33, 24, 43, 3, 41, 48, 58, 42, 34, 20, 4, 40, 27, 25, 17, 26, 15, 46,
      23, 18, 45, 31, 35, 49, 19, 47, 37, 38, 39, 11, 8, 57, 22, 21, 44, 2, 5, 36,
      50, 51, 52, 53, 54, 55, 56]"

definition CHANNEL_TYPE_OPTIONS :: "(int \<times> jsstring) list" where
  "CHANNEL_TYPE_OPTIONS =
     (let ordered = List.map_filter (\<lambda>i. case map_of CHANNEL_TYPES i of
            Some l \<Rightarrow> if l \<noteq> [] then Some (i, l) else None | None \<Rightarrow> None) CHANNEL_TYPE_DISPLAY_ORDER;
          seen = map fst ordered
      in ordered @ filter (\<lambda>(i, l). i \<noteq> 0 \<and> i \<notin> set seen) CHANNEL_TYPES)"

definition TYPE_TO_ICON :: "(int \<times> jsstring) list" where
  "TYPE_TO_ICON =
     [(1, js ''OpenAI''), (2, js ''Midjourney''), (3, js ''Azure''), (4, js ''Ollama''),
      (5, js ''Midjourney''), (6, js ''OpenAI''), (7, js ''OpenAI''), (8, js ''OpenAI''),
      (9, js ''OpenAI''), (10, js ''OpenAI''), (11, js ''Google''), (12, js ''OpenAI''),
      (13, js ''OpenAI''), (14, js ''Claude''), (15, js ''Baidu''), (16, js ''Zhipu''),
      (17, js ''Qwen''), (18, js ''Spark''), (19, js ''Ai360''), (20, js ''OpenRouter''),
      (21, js ''OpenAI''), (22, js ''FastGPT''), (23, js ''Hunyuan''), (24, js ''Gemini''),
      (25, js ''Moonshot''), (26, js ''Zhipu''), (27, js ''Perplexity''), (31, js ''Yi''),
      (33, js ''Aws''), (34, js ''Cohere''), (35, js ''Minimax''), (36, js ''Suno''),
      (37, js ''Dify''), (38, js ''Jina''), (39, js ''Cloudflare''), (40, js ''SiliconCloud''),
      (41, js ''Gemini''), (42, js ''Mistral''), (43, js ''DeepSeek''), (44, js ''OpenAI''),
      (45, js ''Volcengine''), (46, js ''Baidu''), (47, js ''Xinference''), (48, js ''XAI''),
      (49, js ''Coze''), (50, js ''Kling''), (51, js ''Jimeng''), (52, js ''Vidu''),
      (53, js ''OpenAI''), (54, js ''Doubao''), (55, js ''OpenAI''), (56, js ''Replicate''),
      (58, js ''OpenAI'')]"

definition getChannelTypeLabel :: "int \<Rightarrow> jsstring" where
  "getChannelTypeLabel ty = or_str (map_of CHANNEL_TYPES ty) (js ''Unknown'')"

definition getChannelTypeIcon :: "int \<Rightarrow> jsstring" where
  "getChannelTypeIcon ty = or_str (map_of TYPE_TO_ICON ty) (js ''OpenAI'')"

record badge_config =
  variant :: jsstring
  badge_label :: jsstring

definition CHANNEL_STATUS_CONFIG :: "(int \<times> badge_config) list" where
  "CHANNEL_STATUS_CONFIG =
     [(0, \<lparr>variant = js ''neutral'', badge_label = js ''Unknown''\<rparr>),
      (1, \<lparr>variant = js ''success'', badge_label = js ''Enabled''\<rparr>),
      (2, \<lparr>variant = js ''danger'', badge_label = js ''Disabled''\<rparr>),
      (3, \<lparr>variant = js ''warning'', badge_label = js ''Auto Disabled''\<rparr>)]"

definition MULTI_KEY_STATUS_CONFIG :: "(int \<times> badge_config) list" where
  "MULTI_KEY_STATUS_CONFIG =
     [(1, \<lparr>variant = js ''success'', badge_label = js ''Enabled''\<rparr>),
      (2, \<lparr>variant = js ''neutral'', badge_label = js ''Manual Disabled''\<rparr>),
      (3, \<lparr>variant = js ''danger'', badge_label = js ''Auto Disabled''\<rparr>)]"

definition getChannelStatusBadge :: "int \<Rightarrow> badge_config" where
  "getChannelStatusBadge st =
     (case map_of CHANNEL_STATUS_CONFIG st of Some b \<Rightarrow> b | None \<Rightarrow> the (map_of CHANNEL_STATUS_CONFIG 0))"

definition getMultiKeyStatusBadge :: "int \<Rightarrow> badge_config" where
  "getMultiKeyStatusBadge st =
     (case map_of MULTI_KEY_STATUS_CONFIG st of Some b \<Rightarrow> b | None \<Rightarrow> the (map_of MULTI_KEY_STATUS_CONFIG 1))"

subsection \<open>Channels\<close>

record channel_info =
  is_multi_key :: bool
  multi_key_size :: jsnum
  multi_key_status_list :: "int props option"

text \<open>The properties of a channel that these functions read or write; \<open>None\<close> for an undefined or
  null optional number.\<close>

record channel =
  ch_id :: jsval
  ch_type :: int
  ch_key :: jsstring
  ch_status :: "int option"
  ch_name :: jsstring
  ch_weight :: "jsnum option"
  ch_created_time :: jsnum
  ch_test_time :: jsnum
  ch_response_time :: jsnum
  ch_balance :: jsnum
  ch_balance_updated_time :: jsnum
  ch_models :: jsstring
  ch_group :: jsstring
  ch_used_quota :: jsnum
  ch_priority :: "jsnum option"
  ch_tag :: "jsstring option"
  ch_info :: "channel_info option"

definition isChannelEnabled :: "channel \<Rightarrow> bool" where
  "isChannelEnabled ch \<longleftrightarrow> ch_status ch = Some 1"

definition isMultiKeyChannel :: "channel \<Rightarrow> bool" where
  "isMultiKeyChannel ch = (case ch_info ch of Some i \<Rightarrow> is_multi_key i | None \<Rightarrow> False)"

subsection \<open>Keys\<close>

text \<open>\<^verbatim>\<open>s.slice(-n)\<close>: the last \<open>n\<close> code units, all of them when there are fewer.\<close>

definition slice_last :: "nat \<Rightarrow> jsstring \<Rightarrow> jsstring" where
  "slice_last n s = drop (length s - n) s"

definition key_lines :: "jsstring \<Rightarrow> jsstring list" where
  "key_lines key = filter (\<lambda>k. trim k \<noteq> []) (split_on 10 key)"

definition formatChannelKey :: "jsstring \<Rightarrow> bool \<Rightarrow> jsstring" where
  "formatChannelKey key isMultiKey =
     (if key = [] then []
      else if isMultiKey then dec_str (int (length (key_lines key))) @ js '' keys''
      else if length key \<le> 16 then take 4 key @ js ''...'' @ slice_last 4 key
      else take 8 key @ js ''...'' @ slice_last 8 key)"

definition formatKeyPreview :: "jsstring \<Rightarrow> nat \<Rightarrow> jsstring" where
  "formatKeyPreview key maxLength =
     (if key = [] then [] else if length key \<le> maxLength then key
      else take maxLength key @ js ''...'')"

definition countKeys :: "jsstring \<Rightarrow> nat" where
  "countKeys key = (if key = [] then 0 else length (key_lines key))"

subsection \<open>Lists and settings\<close>

definition parseModelsList :: "jsstring \<Rightarrow> jsstring list" where
  "parseModelsList models =
     (if models = [] then [] else filter (\<lambda>m. length m > 0) (map trim (split_on 44 models)))"

text \<open>The comparison function of \<^verbatim>\<open>sort\<close>; \<open>True\<close> when its first argument may stay first.\<close>

definition group_le :: "(jsstring \<Rightarrow> jsstring \<Rightarrow> int) \<Rightarrow> jsstring \<Rightarrow> jsstring \<Rightarrow> bool" where
  "group_le cmp a b =
     (if a = js ''default'' then True else if b = js ''default'' then False else cmp a b \<le> 0)"

definition parseGroupsList :: "(jsstring \<Rightarrow> jsstring \<Rightarrow> int) \<Rightarrow> jsstring \<Rightarrow> jsstring list" where
  "parseGroupsList cmp groups =
     (if groups = [] then []
      else sort_by (group_le cmp) (filter (\<lambda>g. length g > 0) (map trim (split_on 44 groups))))"

definition formatModelsString :: "jsstring list \<Rightarrow> jsstring" where
  "formatModelsString models = join [44] models"

definition formatGroupsString :: "jsstring list \<Rightarrow> jsstring" where
  "formatGroupsString groups = join [44] groups"

definition parseChannelSettings :: "jsstring option \<Rightarrow> jsval" where
  "parseChannelSettings s =
     (case s of None \<Rightarrow> JObj []
      | Some t \<Rightarrow> if t = [] then JObj [] else (case json_parse t of Some v \<Rightarrow> v | None \<Rightarrow> JObj []))"

definition parseChannelOtherSettings :: "jsstring option \<Rightarrow> jsval" where
  "parseChannelOtherSettings s =
     (case s of None \<Rightarrow> JObj []
      | Some t \<Rightarrow> if t = [] \<or> t = js ''{}'' then JObj []
                 else (case json_parse t of Some v \<Rightarrow> v | None \<Rightarrow> JObj []))"

definition validateChannelSettings :: "jsstring \<Rightarrow> bool" where
  "validateChannelSettings settings =
     (if settings = [] \<or> trim settings = [] then True else json_parse settings \<noteq> None)"

subsection \<open>Ratings and displays\<close>

definition getBalanceVariant :: "jsnum \<Rightarrow> jsstring" where
  "getBalanceVariant balance =
     (if num_eq balance (Fin 0) then js ''neutral''
      else if num_lt balance (Fin 1) then js ''danger''
      else if num_lt balance (Fin 10) then js ''warning'' else js ''success'')"

definition RESPONSE_TIME_THRESHOLDS :: "(string \<times> jsnum) list" where
  "RESPONSE_TIME_THRESHOLDS =
     [(''EXCELLENT'', Fin 500), (''GOOD'', Fin 1000), (''FAIR'', Fin 2000), (''POOR'', Fin 5000)]"

definition RESPONSE_TIME_CONFIG :: "string \<Rightarrow> badge_config" where
  "RESPONSE_TIME_CONFIG k =
     (if k = ''EXCELLENT'' then \<lparr>variant = js ''success'', badge_label = js ''Excellent''\<rparr>
      else if k = ''GOOD'' then \<lparr>variant = js ''info'', badge_label = js ''Good''\<rparr>
      else if k = ''FAIR'' then \<lparr>variant = js ''warning'', badge_label = js ''Fair''\<rparr>
      else if k = ''POOR'' then \<lparr>variant = js ''danger'', badge_label = js ''Poor''\<rparr>
      else \<lparr>variant = js ''neutral'', badge_label = js ''Not tested''\<rparr>)"

definition getResponseTimeConfig :: "jsnum \<Rightarrow> badge_config" where
  "getResponseTimeConfig timeMs =
     (let limit = (\<lambda>k. the (map_of RESPONSE_TIME_THRESHOLDS k)) in
      if num_eq timeMs (Fin 0) then RESPONSE_TIME_CONFIG ''UNKNOWN''
      else if num_le timeMs (limit ''EXCELLENT'') then RESPONSE_TIME_CONFIG ''EXCELLENT''
      else if num_le timeMs (limit ''GOOD'') then RESPONSE_TIME_CONFIG ''GOOD''
      else if num_le timeMs (limit ''FAIR'') then RESPONSE_TIME_CONFIG ''FAIR''
      else if num_le timeMs (limit ''POOR'') then RESPONSE_TIME_CONFIG ''POOR''
      else RESPONSE_TIME_CONFIG ''POOR'')"

definition getPriorityDisplay :: "jsnum option \<Rightarrow> jsstring" where
  "getPriorityDisplay p = (case p of None \<Rightarrow> js ''0'' | Some x \<Rightarrow> num_to_str x)"

definition getWeightDisplay :: "jsnum option \<Rightarrow> jsstring" where
  "getWeightDisplay w = (case w of None \<Rightarrow> js ''0'' | Some x \<Rightarrow> num_to_str x)"

subsection \<open>Validation and attention\<close>

definition validateChannelName :: "jsstring \<Rightarrow> bool" where
  "validateChannelName n \<longleftrightarrow> length (trim n) > 0"

definition validateApiKey :: "jsstring \<Rightarrow> bool" where
  "validateApiKey k \<longleftrightarrow> length (trim k) > 0"

definition validateModels :: "jsstring \<Rightarrow> bool" where
  "validateModels models \<longleftrightarrow> length (parseModelsList models) > 0"

definition validateGroups :: "(jsstring \<Rightarrow> jsstring \<Rightarrow> int) \<Rightarrow> jsstring \<Rightarrow> bool" where
  "validateGroups cmp groups \<longleftrightarrow> length (parseGroupsList cmp groups) > 0"

definition all_keys_disabled :: "channel \<Rightarrow> bool" where
  "all_keys_disabled ch =
     (case ch_info ch of
        None \<Rightarrow> False
      | Some i \<Rightarrow>
          is_multi_key i \<and>
          (case multi_key_status_list i of
             None \<Rightarrow> False
           | Some l \<Rightarrow> num_le (multi_key_size i) (Fin (of_nat (length (props_keys l))))))"

definition channelNeedsAttention :: "channel \<Rightarrow> bool" where
  "channelNeedsAttention ch =
     (if ch_status ch = Some 3 then True
      else if num_lt (Fin 0) (ch_balance ch) \<and> num_lt (ch_balance ch) (Fin 1) then True
      else if all_keys_disabled ch then True else False)"

definition getAttentionReason :: "channel \<Rightarrow> jsstring option" where
  "getAttentionReason ch =
     (if ch_status ch = Some 3 then Some (js ''Auto-disabled'')
      else if num_lt (Fin 0) (ch_balance ch) \<and> num_lt (ch_balance ch) (Fin 1) then Some (js ''Low balance'')
      else if all_keys_disabled ch then Some (js ''All keys disabled'') else None)"

subsection \<open>Aggregation by tag\<close>

record tag_row =
  row :: channel
  children :: "channel list"

definition new_tag_row :: "jsstring \<Rightarrow> channel \<Rightarrow> tag_row" where
  "new_tag_row tag ch =
     \<lparr>row = ch\<lparr>ch_key := tag, ch_id := JStr tag, ch_tag := Some tag, ch_name := tag, ch_type := 0,
              ch_status := None, ch_group := [], ch_used_quota := Fin 0, ch_response_time := Fin 0,
              ch_priority := Some (Fin (- 1)), ch_weight := Some (Fin (- 1)), ch_balance := Fin 0,
              ch_test_time := Fin 0, ch_created_time := Fin 0, ch_balance_updated_time := Fin 0,
              ch_models := []\<rparr>,
      children = []\<rparr>"

text \<open>The priority or weight of a row: the common value, null once two children differ; \<open>-1\<close>
  stands for no value yet.\<close>

definition same_value :: "jsnum option \<Rightarrow> jsnum option \<Rightarrow> bool" where
  "same_value a b =
     (case (a, b) of (Some x, Some y) \<Rightarrow> num_eq x y | (None, None) \<Rightarrow> True | _ \<Rightarrow> False)"

definition merge_value :: "jsnum option \<Rightarrow> jsnum option \<Rightarrow> jsnum option" where
  "merge_value acc v =
     (if same_value acc (Some (Fin (- 1))) then v else if \<not> same_value acc v then None else acc)"

definition merge_group :: "jsstring \<Rightarrow> jsstring \<Rightarrow> jsstring" where
  "merge_group acc g =
     (if acc = [] then g
      else let existingGroups = filter (\<lambda>x. x \<noteq> []) (split_on 44 acc);
               newGroups = filter (\<lambda>x. x \<noteq> []) (split_on 44 g)
           in foldl (\<lambda>s x. if x \<notin> set existingGroups then s @ [44] @ x else s) acc newGroups)"

definition add_child :: "channel \<Rightarrow> tag_row \<Rightarrow> tag_row" where
  "add_child ch tr =
     (let cs = children tr @ [ch]; n = length cs; r = row tr in
      \<lparr>row = r\<lparr>ch_used_quota := num_add (ch_used_quota r) (ch_used_quota ch),
              ch_response_time :=
                num_div_nat (num_add (num_scale (n - 1) (ch_response_time r)) (ch_response_time ch)) n,
              ch_priority := merge_value (ch_priority r) (ch_priority ch),
              ch_weight := merge_value (ch_weight r) (ch_weight ch),
              ch_group := merge_group (ch_group r) (ch_group ch),
              ch_status := (if ch_status ch = Some 1 then Some 1
                            else if ch_status r = None then ch_status ch else ch_status r)\<rparr>,
       children = cs\<rparr>)"

text \<open>One round of the loop; the result list holds the rows of the map in insertion order.\<close>

fun update_row :: "jsstring \<Rightarrow> channel \<Rightarrow> (jsstring \<times> tag_row) list \<Rightarrow> (jsstring \<times> tag_row) list" where
  "update_row tag ch [] = [(tag, add_child ch (new_tag_row tag ch))]"
| "update_row tag ch ((t, tr) # rows) =
     (if t = tag then (t, add_child ch tr) # rows else (t, tr) # update_row tag ch rows)"

definition tag_of :: "channel \<Rightarrow> jsstring" where
  "tag_of ch = or_str (ch_tag ch) []"

definition aggregateChannelsByTag :: "channel list \<Rightarrow> tag_row list" where
  "aggregateChannelsByTag channels =
     map snd (foldl (\<lambda>rows ch. update_row (tag_of ch) ch rows) [] channels)"

subsection \<open>Deduplicating keys\<close>

record dedup_result =
  deduplicatedText :: jsstring
  beforeCount :: nat
  afterCount :: nat
  removedCount :: nat

definition add_key_line :: "jsstring list \<Rightarrow> jsstring \<Rightarrow> jsstring list" where
  "add_key_line ks line =
     (let trimmedLine = trim line in
      if trimmedLine \<noteq> [] \<and> trimmedLine \<notin> set ks then ks @ [trimmedLine] else ks)"

definition deduplicateKeys :: "jsstring \<Rightarrow> dedup_result" where
  "deduplicateKeys keysText =
     (if keysText = [] \<or> trim keysText = []
      then \<lparr>deduplicatedText = [], beforeCount = 0, afterCount = 0, removedCount = 0\<rparr>
      else let keyLines = split_on 10 keysText;
               keys = foldl add_key_line [] keyLines
           in \<lparr>deduplicatedText = join [10] keys, beforeCount = length keyLines,
               afterCount = length keys, removedCount = length keyLines - length keys\<rparr>)"


definition TYPE_TO_KEY_PROMPT :: "(int \<times> jsstring) list" where
  "TYPE_TO_KEY_PROMPT =
     [(15, js ''Format: APIKey|SecretKey''),
      (18, js ''Format: APPID|APISecret|APIKey''),
      (22, js ''Format: APIKey-AppId, e.g., fastgpt-0sp2gtvfdgyi4k30jwlgwf1i-64f335d84283f05518e9e041''),
      (23, js ''Format: AppId|SecretId|SecretKey''),
      (33, js ''Format: Ak|Sk|Region''),
      (50, js ''Format: AccessKey|SecretKey (or just ApiKey if upstream is New API)''),
      (51, js ''Format: Access Key ID|Secret Access Key''),
      (57, js ''Paste Codex OAuth JSON credential (access_token / refresh_token / account_id)'')]"

definition getKeyPromptForType :: "int \<Rightarrow> jsstring" where
  "getKeyPromptForType ty = or_str (map_of TYPE_TO_KEY_PROMPT ty) (js ''Enter API key for this channel'')"

subsection \<open>Rows and their children\<close>

lemma children_add [simp]: "children (add_child ch tr) = children tr @ [ch]"
  by (simp add: add_child_def Let_def)

lemma name_add [simp]: "ch_name (row (add_child ch tr)) = ch_name (row tr)"
  by (simp add: add_child_def Let_def)

lemma new_row [simp]: "children (new_tag_row t ch) = []" "ch_name (row (new_tag_row t ch)) = t"
  by (simp_all add: new_tag_row_def)

lemma uniq_from_snoc:
  "uniq_from seen (xs @ [x]) = uniq_from seen xs @ (if x \<in> set seen \<or> x \<in> set xs then [] else [x])"
  by (induction xs arbitrary: seen) auto

lemma uniq_snoc: "uniq (xs @ [x]) = uniq xs @ (if x \<in> set xs then [] else [x])"
  by (simp add: uniq_def uniq_from_snoc)

definition tag_view :: "channel list \<Rightarrow> (jsstring \<times> channel list) list" where
  "tag_view chs = map (\<lambda>t. (t, filter (\<lambda>c. tag_of c = t) chs)) (uniq (map tag_of chs))"

lemma update_row_view:
  "map (\<lambda>(t, tr). (t, children tr)) (update_row tag ch rows) =
   (if tag \<in> fst ` set rows
    then map (\<lambda>(t, tr). (t, children tr @ (if t = tag then [ch] else []))) rows
    else map (\<lambda>(t, tr). (t, children tr)) rows @ [(tag, [ch])])" if "distinct (map fst rows)"
  using that
proof (induction rows)
  case (Cons r rows)
  obtain t tr where r: "r = (t, tr)" by (cases r)
  have "map (\<lambda>(t, tr). (t, children tr @ (if t = tag then [ch] else []))) rows =
      map (\<lambda>(t, tr). (t, children tr)) rows" if "tag \<notin> fst ` set rows"
    using that by (auto simp: image_iff)
  then show ?case using Cons by (auto simp: r image_iff)
qed simp

text \<open>What holds of every row: its name is its tag, and its status is enabled exactly when a child
  is enabled.\<close>

definition row_ok :: "jsstring \<times> tag_row \<Rightarrow> bool" where
  "row_ok e \<longleftrightarrow> ch_name (row (snd e)) = fst e \<and>
     (ch_status (row (snd e)) = Some 1) = list_ex isChannelEnabled (children (snd e))"

lemma row_ok_add: "row_ok (t, tr) \<Longrightarrow> row_ok (t, add_child ch tr)"
  by (auto simp: row_ok_def add_child_def Let_def isChannelEnabled_def list_ex_iff)

lemma row_ok_new: "row_ok (t, add_child ch (new_tag_row t ch))"
  by (auto simp: row_ok_def add_child_def new_tag_row_def Let_def isChannelEnabled_def)

lemma row_ok_update: "list_all row_ok rows \<Longrightarrow> list_all row_ok (update_row tag ch rows)"
  by (induction rows) (auto simp: row_ok_add row_ok_new)

lemma rows_view:
  "map (\<lambda>(t, tr). (t, children tr)) (foldl (\<lambda>rows ch. update_row (tag_of ch) ch rows) [] chs) = tag_view chs \<and>
   list_all row_ok (foldl (\<lambda>rows ch. update_row (tag_of ch) ch rows) [] chs)"
proof (induction chs rule: rev_induct)
  case Nil
  show ?case by (simp add: tag_view_def uniq_def)
next
  case (snoc ch chs)
  let ?rows = "foldl (\<lambda>rows ch. update_row (tag_of ch) ch rows) [] chs" and ?t = "tag_of ch"
  have view: "map (\<lambda>(t, tr). (t, children tr)) ?rows = tag_view chs" using snoc.IH by blast
  have "map fst ?rows = map fst (map (\<lambda>(t, tr). (t, children tr)) ?rows)"
    by (simp add: case_prod_beta comp_def)
  then have keys: "map fst ?rows = uniq (map tag_of chs)" unfolding view by (simp add: tag_view_def comp_def)
  then have mem: "fst ` set ?rows = set (map tag_of chs)" by (metis list.set_map uq.dedup_set)
  have dist: "distinct (map fst ?rows)" by (simp add: keys)
  have app: "map (\<lambda>(t, tr). (t, children tr @ (if t = ?t then [ch] else []))) ?rows =
      map (\<lambda>(t, cs). (t, cs @ (if t = ?t then [ch] else []))) (tag_view chs)"
    unfolding view [symmetric] by (simp add: case_prod_beta comp_def)
  have "filter (\<lambda>c. tag_of c = ?t) chs = []" if "?t \<notin> tag_of ` set chs"
    using that by (auto simp: filter_empty_conv image_iff)
  moreover have "filter (\<lambda>c. tag_of c = t) (chs @ [ch]) =
      filter (\<lambda>c. tag_of c = t) chs @ (if t = ?t then [ch] else [])" for t by simp
  ultimately have "map (\<lambda>(t, tr). (t, children tr)) (update_row ?t ch ?rows) = tag_view (chs @ [ch])"
    unfolding update_row_view [OF dist] mem app view
    by (auto simp: tag_view_def uniq_snoc comp_def image_iff)
  then show ?case using row_ok_update snoc.IH by simp
qed

subsection \<open>Key lines\<close>

lemma uniq_from_cong: "set a = set b \<Longrightarrow> uniq_from a ys = uniq_from b ys"
proof (induction ys arbitrary: a b)
  case (Cons y ys)
  have "uniq_from (y # a) ys = uniq_from (y # b) ys" using Cons.prems by (intro Cons.IH) simp
  then show ?case using Cons.IH [OF Cons.prems] Cons.prems by simp
qed simp

lemma add_key_lines: "foldl add_key_line ks ls = ks @ uniq_from ks (filter (\<lambda>l. l \<noteq> []) (map trim ls))"
proof (induction ls arbitrary: ks)
  case (Cons l ls)
  have "uniq_from (ks @ [x]) ys = uniq_from (x # ks) ys" for x ys
    by (rule uniq_from_cong) simp
  then show ?case using Cons by (auto simp: add_key_line_def Let_def)
qed simp

lemma dedup_keys: "foldl add_key_line [] ls = uniq (filter (\<lambda>l. l \<noteq> []) (map trim ls))"
  by (simp add: add_key_lines uniq_def)


lemma dedup_text_lines:
  assumes "ks \<noteq> []" "\<forall>k\<in>set ks. trimmed k \<and> k \<noteq> [] \<and> 10 \<notin> set k"
  shows "split_on 10 (join [10] ks) = ks \<and> filter (\<lambda>l. l \<noteq> []) (map trim ks) = ks \<and> trim (join [10] ks) \<noteq> []"
proof -
  have "map trim ks = ks" using assms(2) by (intro map_idI) (simp add: trim_id)
  moreover have "filter (\<lambda>l. l \<noteq> []) ks = ks" using assms(2) by (simp add: filter_id_conv)
  moreover have "split_on 10 (join [10] ks) = ks" using assms by (intro split_on_join) auto
  moreover have "trim (join [10] ks) \<noteq> []"
  proof -
    obtain k ks' where ks: "ks = k # ks'" using assms(1) by (cases ks) auto
    have k: "trim k \<noteq> []" using assms(2) ks by (simp add: trim_id)
    have "set k \<subseteq> set (join [10] ks)" by (cases ks') (auto simp: ks)
    then show ?thesis using k unfolding trim_eq_Nil by blast
  qed
  ultimately show ?thesis by simp
qed

lemma dedup_clean_keys:
  assumes "ks \<noteq> []" "\<forall>k\<in>set ks. trimmed k \<and> k \<noteq> [] \<and> 10 \<notin> set k" "uniq ks = ks"
  shows "deduplicateKeys (join [10] ks) =
      \<lparr>deduplicatedText = join [10] ks, beforeCount = length ks, afterCount = length ks, removedCount = 0\<rparr> \<and>
    countKeys (join [10] ks) = length ks"
proof -
  note lines = dedup_text_lines [OF assms(1,2)]
  have "join [10] ks \<noteq> []" using lines by auto
  moreover have "filter (\<lambda>k. trim k \<noteq> []) ks = ks"
    using assms(2) by (auto simp: filter_id_conv trim_id)
  ultimately show ?thesis
    using lines assms(3)
    by (simp add: deduplicateKeys_def dedup_keys Let_def countKeys_def key_lines_def)
qed

subsection \<open>Properties\<close>

text \<open>grouping by tag loses and invents nothing: there is one row per tag, in the order of
  first appearance, its children are exactly the channels of that tag in their order, and a row
  is enabled exactly when one of its children is.\<close>

theorem aggregate_by_tag:
  "map (\<lambda>r. (ch_name (row r), children r)) (aggregateChannelsByTag chs) =
     map (\<lambda>t. (t, filter (\<lambda>c. tag_of c = t) chs)) (uniq (map tag_of chs)) \<and>
   list_all (\<lambda>r. (ch_status (row r) = Some 1) = list_ex isChannelEnabled (children r))
     (aggregateChannelsByTag chs)"
proof -
  let ?rows = "foldl (\<lambda>rows ch. update_row (tag_of ch) ch rows) [] chs"
  have ok: "list_all row_ok ?rows" using rows_view by blast
  have "map (\<lambda>r. (ch_name (row r), children r)) (map snd ?rows) = map (\<lambda>(t, tr). (t, children tr)) ?rows"
    using ok by (auto simp: list_all_iff row_ok_def)
  then show ?thesis
    using rows_view [of chs] ok
    by (auto simp: aggregateChannelsByTag_def tag_view_def list_all_iff row_ok_def)
qed

text \<open>deduplicated keys are the distinct nonblank trimmed lines in their first order, and
  deduplicating the result changes nothing.\<close>

theorem dedup_keys_stable:
  "let r = deduplicateKeys s in
   deduplicateKeys (deduplicatedText r) =
     \<lparr>deduplicatedText = deduplicatedText r, beforeCount = afterCount r, afterCount = afterCount r,
      removedCount = 0\<rparr> \<and>
   afterCount r = length (uniq (filter (\<lambda>l. l \<noteq> []) (map trim (split_on 10 s)))) \<and>
   afterCount r = countKeys (deduplicatedText r)"
proof -
  let ?ks = "uniq (filter (\<lambda>l. l \<noteq> []) (map trim (split_on 10 s)))"
  have clean: "\<forall>k\<in>set ?ks. trimmed k \<and> k \<noteq> [] \<and> 10 \<notin> set k"
    using split_on_no_sep [of _ 10 s] set_trim by fastforce
  show ?thesis
  proof (cases "trim s = []")
    case True
    have "trim l = []" if "l \<in> set (split_on 10 s)" for l
    proof -
      have "set l \<subseteq> set s"
        using that join_split_on [of 10 s] by (metis set_join_member)
      then show ?thesis using True unfolding trim_eq_Nil by blast
    qed
    then have "filter (\<lambda>l. l \<noteq> []) (map trim (split_on 10 s)) = []" by (simp add: filter_empty_conv)
    then show ?thesis using True by (simp add: deduplicateKeys_def countKeys_def uniq_def Let_def)
  next
    case False
    have "s \<noteq> []" using False by auto
    then have r: "deduplicateKeys s = \<lparr>deduplicatedText = join [10] ?ks, beforeCount = length (split_on 10 s),
        afterCount = length ?ks, removedCount = length (split_on 10 s) - length ?ks\<rparr>"
      using False by (simp add: deduplicateKeys_def dedup_keys Let_def)
    show ?thesis
    proof (cases "?ks = []")
      case True
      then show ?thesis unfolding r Let_def by (simp add: deduplicateKeys_def countKeys_def uniq_def)
    next
      case ne: False
      have "uniq ?ks = ?ks" by (rule uq.dedup_idem)
      then show ?thesis
        unfolding r Let_def using dedup_clean_keys [OF ne clean] by simp
    qed
  qed
qed

text \<open>A channel needs attention exactly when there is a reason to show.\<close>

lemma attention_has_reason: "channelNeedsAttention ch \<longleftrightarrow> getAttentionReason ch \<noteq> None"
  by (simp add: channelNeedsAttention_def getAttentionReason_def)

text \<open>A long key is masked: keys that agree on the first and last eight units look the same.
  A key of at most eight units is shown in full.\<close>

lemma long_keys_masked:
  assumes "16 < length k" "16 < length k'" "take 8 k = take 8 k'" "slice_last 8 k = slice_last 8 k'"
  shows "formatChannelKey k False = formatChannelKey k' False"
  using assms by (auto simp: formatChannelKey_def)

lemma short_key_shown:
  assumes "length key = 8"
  shows "\<exists>a b. formatChannelKey key False = a @ js ''...'' @ b \<and> a @ b = key"
  using assms by (intro exI [of _ "take 4 key"] exI [of _ "drop 4 key"]) (auto simp: formatChannelKey_def slice_last_def)

text \<open>A child with priority \<open>-1\<close> looks like no value yet: the row of priorities \<open>-1\<close> and \<open>5\<close> shows
  \<open>5\<close> instead of no common priority.\<close>

lemma sentinel_priority_lost:
  "merge_value (merge_value (Some (Fin (- 1))) (Some (Fin (- 1)))) (Some (Fin 5)) = Some (Fin 5)"
  by code_simp

text \<open>Groups that one channel names twice are added twice to the row.\<close>

lemma repeated_group_kept: "merge_group (js ''a'') (js ''b,b'') = js ''a,b,b''"
  by code_simp

end
