(* ===== verification/JS_Regex.thy ===== *)
theory JS_Regex
  imports JS_String
begin

text \<open>
  JavaScript regular expressions: the constructs the frontend uses, as a backtracking matcher.

  \<open>rx_run s r (t, cs)\<close> lists the ways in which \<open>r\<close> can match at the start of the suffix \<open>t\<close> of
  the input \<open>s\<close>, with the captures \<open>cs\<close> made so far, in the order in which the engine tries them;
  each way is given by what is left of the input and the captures, the latest first. A greedy
  star takes another round before it stops and, like the engine, never an empty one; so as many
  rounds as there are units left are enough. A backreference to a group that has not matched
  matches the empty string. Captures inside a repeated group, which the engine resets in every
  round, do not occur in the source.

  The lemmas of \<open>rx_rel\<close> read \<open>rx_run\<close> as a relation, one per construct: for the anchored
  expressions of the source the captures are determined by the input, so the order of the list
  does not matter and a match is found by solving the equations.
\<close>

named_theorems rx_rel

type_synonym captures = "(nat \<times> jsstring) list"

datatype rx =
    Eps
  | Lit jsstring
  | Cls "int \<Rightarrow> bool"
  | Seq rx rx
  | Alt rx rx
  | Star rx
  | Cap nat rx
  | Backref nat
  | WordB
  | Bol
  | Eol

definition Plus :: "rx \<Rightarrow> rx" where
  "Plus r = Seq r (Star r)"

definition Opt :: "rx \<Rightarrow> rx" where
  "Opt r = Alt r Eps"

fun seqs :: "rx list \<Rightarrow> rx" where
  "seqs [] = Eps"
| "seqs [r] = r"
| "seqs (r # q # rs) = Seq r (seqs (q # rs))"

fun alts :: "rx list \<Rightarrow> rx" where
  "alts [] = Cls (\<lambda>c. False)"
| "alts [r] = r"
| "alts (r # q # rs) = Alt r (alts (q # rs))"

definition lit :: "string \<Rightarrow> rx" where
  "lit t = Lit (js t)"

definition is_word :: "int \<Rightarrow> bool" where
  "is_word c \<longleftrightarrow> is_digit c \<or> 65 \<le> c \<and> c \<le> 90 \<or> 97 \<le> c \<and> c \<le> 122 \<or> c = 95"

text \<open>The unit before the suffix \<open>t\<close> of \<open>s\<close> is a word unit.\<close>

definition word_before :: "jsstring \<Rightarrow> jsstring \<Rightarrow> bool" where
  "word_before s t \<longleftrightarrow> length t < length s \<and> is_word (s ! (length s - length t - 1))"

fun star_run ::
  "(jsstring \<times> captures \<Rightarrow> (jsstring \<times> captures) list) \<Rightarrow> nat \<Rightarrow>
   jsstring \<times> captures \<Rightarrow> (jsstring \<times> captures) list" where
  "star_run f 0 st = [st]"
| "star_run f (Suc n) st =
     concat (map (\<lambda>st'. if length (fst st') < length (fst st) then star_run f n st' else []) (f st)) @ [st]"

primrec rx_run :: "jsstring \<Rightarrow> rx \<Rightarrow> jsstring \<times> captures \<Rightarrow> (jsstring \<times> captures) list" where
  "rx_run s Eps st = [st]"
| "rx_run s (Lit l) st = (if prefix l (fst st) then [(drop (length l) (fst st), snd st)] else [])"
| "rx_run s (Cls P) st = (case fst st of [] \<Rightarrow> [] | c # t \<Rightarrow> if P c then [(t, snd st)] else [])"
| "rx_run s (Seq a b) st = concat (map (rx_run s b) (rx_run s a st))"
| "rx_run s (Alt a b) st = rx_run s a st @ rx_run s b st"
| "rx_run s (Star a) st = star_run (rx_run s a) (length (fst st)) st"
| "rx_run s (Cap k a) st =
     map (\<lambda>(t', cs'). (t', (k, take (length (fst st) - length t') (fst st)) # cs')) (rx_run s a st)"
| "rx_run s (Backref k) st =
     (case map_of (snd st) k of
        None \<Rightarrow> [st]
      | Some w \<Rightarrow> if prefix w (fst st) then [(drop (length w) (fst st), snd st)] else [])"
| "rx_run s WordB st =
     (if word_before s (fst st) \<noteq> (fst st \<noteq> [] \<and> is_word (hd (fst st))) then [st] else [])"
| "rx_run s Bol st = (if length (fst st) = length s then [st] else [])"
| "rx_run s Eol st = (if fst st = [] then [st] else [])"

text \<open>The first start position where the expression matches, and there the first way.\<close>

fun rx_search :: "jsstring \<Rightarrow> rx \<Rightarrow> jsstring \<Rightarrow> (jsstring \<times> captures) option" where
  "rx_search s r [] = (case rx_run s r ([], []) of [] \<Rightarrow> None | st # _ \<Rightarrow> Some st)"
| "rx_search s r (c # t) =
     (case rx_run s r (c # t, []) of [] \<Rightarrow> rx_search s r t | st # _ \<Rightarrow> Some st)"

text \<open>\<^verbatim>\<open>s.match(r)\<close> without the global flag; the result is the captures.\<close>

definition rx_match :: "rx \<Rightarrow> jsstring \<Rightarrow> captures option" where
  "rx_match r s = map_option snd (rx_search s r s)"

definition rx_test :: "rx \<Rightarrow> jsstring \<Rightarrow> bool" where
  "rx_test r s \<longleftrightarrow> rx_match r s \<noteq> None"

text \<open>The text of a group; a group that took no part in the match does not occur in the callers.\<close>

definition grp :: "captures \<Rightarrow> nat \<Rightarrow> jsstring" where
  "grp cs k = (case map_of cs k of Some w \<Rightarrow> w | None \<Rightarrow> [])"

subsection \<open>Matches are suffixes\<close>

lemma star_run_suffix:
  assumes step: "\<And>st x. x \<in> set (f st) \<Longrightarrow> suffix (fst x) (fst st)"
  shows "x \<in> set (star_run f n st) \<Longrightarrow> suffix (fst x) (fst st)"
proof (induction n arbitrary: st)
  case (Suc n)
  then consider "x = st" | st' where "st' \<in> set (f st)" "x \<in> set (star_run f n st')"
    by (auto split: if_splits)
  then show ?case
  proof cases
    case (2 st')
    then show ?thesis using Suc.IH [of st'] step [of st' st] by (meson suffix_order.trans)
  qed simp
qed simp

lemma rx_run_suffix: "x \<in> set (rx_run s r st) \<Longrightarrow> suffix (fst x) (fst st)"
proof (induction r arbitrary: st x)
  case (Lit l)
  then show ?case by (auto simp: suffix_drop split: if_splits)
next
  case (Cls P)
  then have "fst x = tl (fst st)" by (auto split: if_splits list.splits) (metis list.sel(3))
  then show ?case by (simp add: suffix_tl)
next
  case (Seq a b)
  then obtain st' where st': "st' \<in> set (rx_run s a st)" "x \<in> set (rx_run s b st')" by auto
  show ?case by (rule suffix_order.trans [OF Seq.IH(2) [OF st'(2)] Seq.IH(1) [OF st'(1)]])
next
  case (Alt a b)
  then have "x \<in> set (rx_run s a st) \<or> x \<in> set (rx_run s b st)" by simp
  then show ?case using Alt.IH by blast
next
  case (Star r)
  have "x \<in> set (star_run (rx_run s r) (length (fst st)) st)" using Star.prems by simp
  then show ?case using star_run_suffix [of "rx_run s r"] Star.IH by blast
next
  case (Cap k r)
  then obtain t' cs' where "(t', cs') \<in> set (rx_run s r st)" "fst x = t'" by auto
  then show ?case using Cap.IH by fastforce
next
  case (Backref k)
  then show ?case by (auto simp: suffix_drop split: if_splits option.splits)
qed (auto split: if_splits)

subsection \<open>Reading the matcher as a relation\<close>

lemma rx_Eps [rx_rel]: "x \<in> set (rx_run s Eps st) \<longleftrightarrow> x = st"
  by simp

lemma rx_Lit [rx_rel]:
  "(t', cs') \<in> set (rx_run s (Lit l) (t, cs)) \<longleftrightarrow> t = l @ t' \<and> cs' = cs"
  by (auto elim: prefixE)

lemma rx_Cls [rx_rel]:
  "(t', cs') \<in> set (rx_run s (Cls P) (t, cs)) \<longleftrightarrow> (\<exists>c. P c \<and> t = c # t' \<and> cs' = cs)"
  by (auto split: list.splits)

lemma rx_Seq [rx_rel]:
  "x \<in> set (rx_run s (Seq a b) st) \<longleftrightarrow>
     (\<exists>t1 cs1. (t1, cs1) \<in> set (rx_run s a st) \<and> x \<in> set (rx_run s b (t1, cs1)))"
  by auto

lemma rx_Alt [rx_rel]:
  "x \<in> set (rx_run s (Alt a b) st) \<longleftrightarrow> x \<in> set (rx_run s a st) \<or> x \<in> set (rx_run s b st)"
  by auto

lemma rx_Cap [rx_rel]:
  "(t', cs') \<in> set (rx_run s (Cap k a) (t, cs)) \<longleftrightarrow>
     (\<exists>w cs1. (t', cs1) \<in> set (rx_run s a (t, cs)) \<and> t = w @ t' \<and> cs' = (k, w) # cs1)"
proof -
  have w: "\<exists>w. t = w @ t'" if "(t', cs1) \<in> set (rx_run s a (t, cs))" for cs1
    using rx_run_suffix [OF that] by (simp add: suffix_def)
  have "(t', cs') \<in> set (rx_run s (Cap k a) (t, cs)) \<longleftrightarrow>
      (\<exists>cs1. (t', cs1) \<in> set (rx_run s a (t, cs)) \<and> cs' = (k, take (length t - length t') t) # cs1)"
    by (auto simp: image_iff Bex_def)
  then show ?thesis using w by fastforce
qed

lemma rx_Backref [rx_rel]:
  "(t', cs') \<in> set (rx_run s (Backref k) (t, cs)) \<longleftrightarrow> t = grp cs k @ t' \<and> cs' = cs"
  by (auto simp: grp_def split: option.splits elim: prefixE)

lemma rx_Bol [rx_rel]:
  "x \<in> set (rx_run s Bol st) \<longleftrightarrow> length (fst st) = length s \<and> x = st"
  by auto

lemma rx_Eol [rx_rel]: "(t', cs') \<in> set (rx_run s Eol (t, cs)) \<longleftrightarrow> t = [] \<and> t' = [] \<and> cs' = cs"
  by auto

lemma rx_Opt [rx_rel]: "x \<in> set (rx_run s (Opt r) st) \<longleftrightarrow> x \<in> set (rx_run s r st) \<or> x = st"
  by (auto simp: Opt_def)

text \<open>A star is the closure of its rounds.\<close>

definition rx_round :: "jsstring \<Rightarrow> rx \<Rightarrow> jsstring \<times> captures \<Rightarrow> jsstring \<times> captures \<Rightarrow> bool" where
  "rx_round s r st st' \<longleftrightarrow> st' \<in> set (rx_run s r st) \<and> length (fst st') < length (fst st)"

lemma star_run_rounds:
  "length (fst st) \<le> n \<Longrightarrow> x \<in> set (star_run (rx_run s r) n st) \<longleftrightarrow> (rx_round s r)\<^sup>*\<^sup>* st x"
proof (induction n arbitrary: st)
  case 0
  have "x = st" if "(rx_round s r)\<^sup>*\<^sup>* st x"
    using that by (cases rule: converse_rtranclpE) (use 0 in \<open>auto simp: rx_round_def\<close>)
  then show ?case by auto
next
  case (Suc n)
  have "x \<in> set (star_run (rx_run s r) (Suc n) st) \<longleftrightarrow>
      x = st \<or> (\<exists>st'. rx_round s r st st' \<and> x \<in> set (star_run (rx_run s r) n st'))"
    by (auto simp: rx_round_def split: if_splits)
  also have "\<dots> \<longleftrightarrow> x = st \<or> (\<exists>st'. rx_round s r st st' \<and> (rx_round s r)\<^sup>*\<^sup>* st' x)"
  proof -
    have "length (fst st') \<le> n" if "rx_round s r st st'" for st'
      using that Suc.prems by (auto simp: rx_round_def)
    then show ?thesis using Suc.IH by blast
  qed
  also have "\<dots> \<longleftrightarrow> (rx_round s r)\<^sup>*\<^sup>* st x"
    by (metis converse_rtranclpE converse_rtranclp_into_rtranclp rtranclp.rtrancl_refl)
  finally show ?case .
qed

lemma rx_Star: "x \<in> set (rx_run s (Star r) st) \<longleftrightarrow> (rx_round s r)\<^sup>*\<^sup>* st x"
  by (simp add: star_run_rounds)

text \<open>More rounds than units left change nothing.\<close>

lemma star_run_enough:
  "length (fst st) \<le> n \<Longrightarrow> set (star_run (rx_run s r) n st) = set (rx_run s (Star r) st)"
  using star_run_rounds by (metis order_refl rx_run.simps(6) set_eqI)

lemma rx_Star_step:
  "(t1, cs1) \<in> set (rx_run s r (t, cs)) \<Longrightarrow> length t1 < length t \<Longrightarrow>
   x \<in> set (rx_run s (Star r) (t1, cs1)) \<Longrightarrow> x \<in> set (rx_run s (Star r) (t, cs))"
  unfolding rx_Star by (rule converse_rtranclp_into_rtranclp [of "rx_round s r"]) (simp_all add: rx_round_def)

lemma rx_Star_Cls [rx_rel]:
  "(t', cs') \<in> set (rx_run s (Star (Cls P)) (t, cs)) \<longleftrightarrow> (\<exists>w. list_all P w \<and> t = w @ t' \<and> cs' = cs)"
proof
  have "(rx_round s (Cls P))\<^sup>*\<^sup>* (t, cs) x \<Longrightarrow> \<exists>w. list_all P w \<and> t = w @ fst x \<and> snd x = cs" for x
  proof (induction rule: rtranclp_induct)
    case (step y z)
    then obtain w c where "list_all P w" "t = w @ fst y" "snd y = cs" "P c" "fst y = c # fst z" "snd z = snd y"
      by (cases y; cases z) (auto simp: rx_round_def rx_Cls)
    then show ?case by (intro exI [of _ "w @ [c]"]) simp
  qed simp
  then show "\<exists>w. list_all P w \<and> t = w @ t' \<and> cs' = cs"
    if "(t', cs') \<in> set (rx_run s (Star (Cls P)) (t, cs))"
    using that unfolding rx_Star by fastforce
next
  assume "\<exists>w. list_all P w \<and> t = w @ t' \<and> cs' = cs"
  then obtain w where "list_all P w" "t = w @ t'" "cs' = cs" by blast
  then show "(t', cs') \<in> set (rx_run s (Star (Cls P)) (t, cs))"
  proof (induction w arbitrary: t)
    case Nil
    then show ?case unfolding rx_Star by simp
  next
    case (Cons c w)
    have IH: "(t', cs') \<in> set (rx_run s (Star (Cls P)) (w @ t', cs))" using Cons by simp
    have "(w @ t', cs) \<in> set (rx_run s (Cls P) (t, cs))" using Cons.prems by (simp add: rx_Cls)
    then show ?case by (rule rx_Star_step [OF _ _ IH]) (simp add: Cons.prems)
  qed
qed

lemma rx_Plus_Cls [rx_rel]:
  "(t', cs') \<in> set (rx_run s (Plus (Cls P)) (t, cs)) \<longleftrightarrow>
     (\<exists>w. w \<noteq> [] \<and> list_all P w \<and> t = w @ t' \<and> cs' = cs)"
proof -
  have "(\<exists>c w. P c \<and> list_all P w \<and> t = c # w @ t') \<longleftrightarrow> (\<exists>w. w \<noteq> [] \<and> list_all P w \<and> t = w @ t')"
    by (metis append_Cons list.exhaust list.distinct(1) list.pred_inject(2))
  then show ?thesis unfolding Plus_def rx_Seq rx_Cls rx_Star_Cls by fastforce
qed

text \<open>The same facts as introduction rules, for texts that are laid out like the expression.\<close>

lemma rx_SeqI: "x \<in> set (rx_run s b st') \<Longrightarrow> st' \<in> set (rx_run s a st) \<Longrightarrow> x \<in> set (rx_run s (Seq a b) st)"
  by auto

lemma rx_LitI: "(t, cs) \<in> set (rx_run s (Lit l) (l @ t, cs))"
  by (simp add: rx_Lit)

lemma rx_CapI: "(t, cs') \<in> set (rx_run s a (w @ t, cs)) \<Longrightarrow> (t, (k, w) # cs') \<in> set (rx_run s (Cap k a) (w @ t, cs))"
  unfolding rx_Cap by blast

lemma rx_PlusI: "w \<noteq> [] \<Longrightarrow> list_all P w \<Longrightarrow> (t, cs) \<in> set (rx_run s (Plus (Cls P)) (w @ t, cs))"
  unfolding rx_Plus_Cls by blast

lemma rx_EolI: "([], cs) \<in> set (rx_run s Eol ([], cs))"
  by simp

subsection \<open>Anchored expressions\<close>

lemma rx_search_anchored: "length t < length s \<Longrightarrow> rx_search s (Seq Bol r) t = None"
  by (induction t) auto

text \<open>An expression that starts with \<^verbatim>\<open>^\<close> matches at the start or not at all. When all its ways
  agree on the captures, these are the result.\<close>

lemma rx_match_anchored:
  "rx_match (Seq Bol r) s = (case rx_run s r (s, []) of [] \<Rightarrow> None | st # _ \<Rightarrow> Some (snd st))"
proof (cases s)
  case (Cons c t)
  then have "rx_search s (Seq Bol r) t = None" by (simp add: rx_search_anchored)
  then show ?thesis unfolding rx_match_def by (simp add: Cons split: list.split)
qed (simp add: rx_match_def split: list.split)

declare rx_run.simps [simp del] seqs.simps [simp del] alts.simps [simp del]

lemma rx_match_None: "rx_match (Seq Bol r) s = None \<longleftrightarrow> (\<forall>t cs. (t, cs) \<notin> set (rx_run s r (s, [])))"
  unfolding rx_match_anchored by (cases "rx_run s r (s, [])") auto

lemma rx_match_in: "rx_match (Seq Bol r) s = Some cs \<Longrightarrow> \<exists>t. (t, cs) \<in> set (rx_run s r (s, []))"
  unfolding rx_match_anchored by (auto split: list.splits)

lemma rx_match_unique:
  assumes "(t, cs) \<in> set (rx_run s r (s, []))"
    and "\<And>t' cs'. (t', cs') \<in> set (rx_run s r (s, [])) \<Longrightarrow> cs' = cs"
  shows "rx_match (Seq Bol r) s = Some cs"
proof (cases "rx_run s r (s, [])")
  case (Cons st sts)
  then have "snd st = cs" using assms(2) [of "fst st" "snd st"] by simp
  then show ?thesis by (simp add: rx_match_anchored Cons)
qed (use assms(1) in simp)

lemma rx_match_iff:
  assumes "\<And>t cs t' cs'. (t, cs) \<in> set (rx_run s r (s, [])) \<Longrightarrow> (t', cs') \<in> set (rx_run s r (s, [])) \<Longrightarrow> cs = cs'"
  shows "rx_match (Seq Bol r) s = Some cs \<longleftrightarrow> (\<exists>t. (t, cs) \<in> set (rx_run s r (s, [])))"
  using rx_match_in rx_match_unique assms by metis

end
