(* ===== verification/BillingExpr.thy ===== *)
theory BillingExpr
  imports JS_Regex JS_Json
begin

text \<open>
  Billing expressions: \<^verbatim>\<open>features/pricing/lib/billing-expr.ts\<close>.

  A model's price is an expression \<^verbatim>\<open>(base) * (condition ? multiplier : 1) * ...\<close>. The visual editor
  builds the request rules, the factors after the base, from groups of conditions and parses them
  back; what does not parse stays raw text. This theory has the variable registry, the parser of
  request rules, the separation of base and rules, and the builder. Regular expressions are those
  of \<open>JS_Regex\<close>; \<open>Thrown\<close> is an exception that leaves the function.

  A condition is a tagged union in the source; here \<open>TimeCond\<close> and \<open>PHCond\<close>. An optional property
  of a partial condition is \<open>None\<close> when it is missing, undefined or null.
\<close>

subsection \<open>Variable registry\<close>

record billing_var =
  bv_key :: jsstring
  bv_field :: "jsstring option"
  tierField :: "jsstring option"
  bv_label :: jsstring
  shortLabel :: jsstring
  side :: jsstring
  isBase :: bool
  isConditionOnly :: bool
  bv_group :: "jsstring option"

definition price_var :: "string \<Rightarrow> string \<Rightarrow> string \<Rightarrow> string \<Rightarrow> string \<Rightarrow> string \<Rightarrow> bool \<Rightarrow> string option \<Rightarrow> billing_var" where
  "price_var k f tf l sl sd base g =
     \<lparr>bv_key = js k, bv_field = Some (js f), tierField = Some (js tf), bv_label = js l,
      shortLabel = js sl, side = js sd, isBase = base, isConditionOnly = False,
      bv_group = map_option js g\<rparr>"

definition BILLING_VARS :: "billing_var list" where
  "BILLING_VARS =
     [price_var ''p'' ''inputPrice'' ''input_unit_cost'' ''Input price'' ''Input'' ''input'' True None,
      price_var ''c'' ''outputPrice'' ''output_unit_cost'' ''Output price'' ''Output'' ''output'' True None,
      \<lparr>bv_key = js ''len'', bv_field = None, tierField = None, bv_label = js ''Input length'',
       shortLabel = js ''Length'', side = js ''condition'', isBase = False, isConditionOnly = True,
       bv_group = None\<rparr>,
      price_var ''cr'' ''cacheReadPrice'' ''cache_read_unit_cost'' ''Cache hit price'' ''Cache Hit'' ''input'' False (Some ''cache''),
      price_var ''cc'' ''cacheCreatePrice'' ''cache_create_unit_cost'' ''Cache write price'' ''Cache Write'' ''input'' False (Some ''cache''),
      price_var ''cc1h'' ''cacheCreate1hPrice'' ''cache_create_1h_unit_cost'' ''Cache write (1h) price'' ''Cache Write (1h)'' ''input'' False (Some ''cache''),
      price_var ''img'' ''imagePrice'' ''image_unit_cost'' ''Image input price'' ''Image In'' ''input'' False (Some ''media''),
      price_var ''img_o'' ''imageOutputPrice'' ''image_output_unit_cost'' ''Image output price'' ''Image Out'' ''output'' False (Some ''media''),
      price_var ''ai'' ''audioInputPrice'' ''audio_input_unit_cost'' ''Audio input price'' ''Audio In'' ''input'' False (Some ''media''),
      price_var ''ao'' ''audioOutputPrice'' ''audio_output_unit_cost'' ''Audio output price'' ''Audio Out'' ''output'' False (Some ''media'')]"

definition BILLING_PRICING_VARS :: "billing_var list" where
  "BILLING_PRICING_VARS = filter (\<lambda>v. \<not> isConditionOnly v) BILLING_VARS"

definition BILLING_CONDITION_VARS :: "jsstring list" where
  "BILLING_CONDITION_VARS = map bv_key (filter (\<lambda>v. isBase v \<or> isConditionOnly v) BILLING_VARS)"

definition BILLING_EXTRA_VARS :: "billing_var list" where
  "BILLING_EXTRA_VARS = filter (\<lambda>v. \<not> isBase v \<and> \<not> isConditionOnly v) BILLING_VARS"

subsection \<open>Request rule constants and types\<close>

definition SOURCE_PARAM :: jsstring where "SOURCE_PARAM = js ''param''"
definition SOURCE_HEADER :: jsstring where "SOURCE_HEADER = js ''header''"
definition SOURCE_TIME :: jsstring where "SOURCE_TIME = js ''time''"
definition MATCH_EQ :: jsstring where "MATCH_EQ = js ''eq''"
definition MATCH_CONTAINS :: jsstring where "MATCH_CONTAINS = js ''contains''"
definition MATCH_GT :: jsstring where "MATCH_GT = js ''gt''"
definition MATCH_GTE :: jsstring where "MATCH_GTE = js ''gte''"
definition MATCH_LT :: jsstring where "MATCH_LT = js ''lt''"
definition MATCH_LTE :: jsstring where "MATCH_LTE = js ''lte''"
definition MATCH_EXISTS :: jsstring where "MATCH_EXISTS = js ''exists''"
definition MATCH_RANGE :: jsstring where "MATCH_RANGE = js ''range''"

lemmas match_defs = MATCH_EQ_def MATCH_CONTAINS_def MATCH_GT_def MATCH_GTE_def MATCH_LT_def
  MATCH_LTE_def MATCH_EXISTS_def MATCH_RANGE_def SOURCE_PARAM_def SOURCE_HEADER_def SOURCE_TIME_def

datatype TimeFunc = Hour | Minute | Weekday | Month | Day

fun fn_name :: "TimeFunc \<Rightarrow> jsstring" where
  "fn_name Hour = js ''hour''"
| "fn_name Minute = js ''minute''"
| "fn_name Weekday = js ''weekday''"
| "fn_name Month = js ''month''"
| "fn_name Day = js ''day''"

definition TIME_FUNCS :: "TimeFunc list" where
  "TIME_FUNCS = [Hour, Minute, Weekday, Month, Day]"

definition time_func_of :: "jsstring \<Rightarrow> TimeFunc option" where
  "time_func_of s = List.find (\<lambda>f. fn_name f = s) TIME_FUNCS"

definition COMMON_TIMEZONES :: "(jsstring \<times> jsstring) list" where
  "COMMON_TIMEZONES =
     map (\<lambda>(v, l). (js v, js l))
       [(''Asia/Shanghai'', ''UTC+8 Shanghai (Asia/Shanghai)''), (''UTC'', ''UTC''),
        (''America/New_York'', ''UTC-5 New York (America/New_York)''),
        (''America/Los_Angeles'', ''UTC-8 Los Angeles (America/Los_Angeles)''),
        (''America/Chicago'', ''UTC-6 Chicago (America/Chicago)''),
        (''Europe/London'', ''UTC+0 London (Europe/London)''),
        (''Europe/Berlin'', ''UTC+1 Berlin (Europe/Berlin)''),
        (''Asia/Tokyo'', ''UTC+9 Tokyo (Asia/Tokyo)''),
        (''Asia/Singapore'', ''UTC+8 Singapore (Asia/Singapore)''),
        (''Asia/Seoul'', ''UTC+9 Seoul (Asia/Seoul)''),
        (''Australia/Sydney'', ''UTC+10 Sydney (Australia/Sydney)'')]"

definition sign_rx :: rx where
  "sign_rx = Cls (\<lambda>c. c = 43 \<or> c = 45)"

definition NUMERIC_LITERAL_REGEX :: rx where
  "NUMERIC_LITERAL_REGEX =
     Seq Bol (seqs
       [Opt (lit ''-''),
        Alt (seqs [Plus (Cls is_digit), Opt (lit ''.''), Star (Cls is_digit)])
            (Seq (lit ''.'') (Plus (Cls is_digit))),
        Opt (seqs [Cls (\<lambda>c. c = 101 \<or> c = 69), Opt sign_rx, Plus (Cls is_digit)]),
        Eol])"

datatype cond_source = Param | Header

record ph_condition =
  ph_source :: cond_source
  path :: jsstring
  ph_mode :: jsstring
  ph_value :: jsstring

record time_condition =
  timeFunc :: TimeFunc
  timezone :: jsstring
  t_mode :: jsstring
  t_value :: jsstring
  rangeStart :: jsstring
  rangeEnd :: jsstring

datatype request_condition = TimeCond time_condition | PHCond ph_condition

record rule_group =
  conditions :: "request_condition list"
  multiplier :: jsstring

datatype 'a outcome = Thrown | Val 'a

subsection \<open>Splitting expressions\<close>

text \<open>The loops of \<^verbatim>\<open>splitTopLevelMultiply\<close> and \<^verbatim>\<open>splitTopLevelAnd\<close>: \<open>cur\<close> is the text from
  \<^verbatim>\<open>start\<close> to the index, the last argument the text from the index on.\<close>

definition paren_step :: "int \<Rightarrow> int \<Rightarrow> int" where
  "paren_step c depth = (if c = 40 then depth + 1 else if c = 41 then depth - 1 else depth)"

function mul_loop :: "jsstring list \<Rightarrow> jsstring \<Rightarrow> int \<Rightarrow> jsstring \<Rightarrow> jsstring list" where
  "mul_loop parts cur depth [] = parts @ [trim cur]"
| "mul_loop parts cur depth (c # s) =
     (let d = paren_step c depth in
      if d = 0 \<and> prefix (js '' * '') (c # s) then mul_loop (parts @ [trim cur]) [] d (drop 2 s)
      else mul_loop parts (cur @ [c]) d s)"
  by pat_completeness auto
termination
  by (relation "measure (\<lambda>(_, _, _, s). length s)") auto

definition splitTopLevelMultiply :: "jsstring \<Rightarrow> jsstring list" where
  "splitTopLevelMultiply expr = filter (\<lambda>x. x \<noteq> []) (mul_loop [] [] 0 expr)"

function and_loop :: "jsstring list \<Rightarrow> jsstring \<Rightarrow> int \<Rightarrow> bool \<Rightarrow> jsstring \<Rightarrow> jsstring list" where
  "and_loop parts cur depth quoted [] =
     (if quoted \<or> depth \<noteq> 0 then [] else parts @ [trim cur])"
| "and_loop parts cur depth quoted (c # s) =
     (if quoted \<and> c = 92 then and_loop parts (cur @ c # take 1 s) depth quoted (drop 1 s)
      else
        let q = (if c = 34 then \<not> quoted else quoted);
            d = paren_step c depth
        in if q then and_loop parts (cur @ [c]) depth q s
           else if d < 0 \<or> d = 0 \<and> prefix (js ''||'') (c # s) then []
           else if d = 0 \<and> prefix (js '' && '') (c # s)
                then and_loop (parts @ [trim cur]) [] d q (drop 3 s)
           else and_loop parts (cur @ [c]) d q s)"
  by pat_completeness auto
termination
  by (relation "measure (\<lambda>(_, _, _, _, s). length s)") auto

declare mul_loop.simps(2) [simp del] and_loop.simps(2) [simp del]

definition splitTopLevelAnd :: "jsstring \<Rightarrow> jsstring list" where
  "splitTopLevelAnd expr = and_loop [] [] 0 False expr"

text \<open>The literal of a comparison: \<open>None\<close> is null, both for JSON null and for text that is no JSON.\<close>

definition parseExprLiteral :: "jsstring \<Rightarrow> jsval option" where
  "parseExprLiteral raw =
     (let s = trim raw in
      if s = js ''true'' \<or> s = js ''false'' then Some (JStr s)
      else if rx_test NUMERIC_LITERAL_REGEX s then Some (JStr s)
      else case json_parse s of Some v \<Rightarrow> if v = JNull then None else Some v | None \<Rightarrow> None)"

fun TIME_FUNC_RANGES :: "TimeFunc \<Rightarrow> jsnum \<times> jsnum" where
  "TIME_FUNC_RANGES Hour = (Fin 0, Fin 23)"
| "TIME_FUNC_RANGES Minute = (Fin 0, Fin 59)"
| "TIME_FUNC_RANGES Weekday = (Fin 0, Fin 6)"
| "TIME_FUNC_RANGES Month = (Fin 1, Fin 12)"
| "TIME_FUNC_RANGES Day = (Fin 1, Fin 31)"

definition isTimeValueInRange :: "TimeFunc \<Rightarrow> jsstring \<Rightarrow> bool" where
  "isTimeValueInRange f s =
     (if \<not> rx_test NUMERIC_LITERAL_REGEX s then False
      else let v = str_to_num s in
           if \<not> num_is_integer v then False
           else case TIME_FUNC_RANGES f of (lo, hi) \<Rightarrow> num_le lo v \<and> num_le v hi)"

subsection \<open>Parsing conditions\<close>

definition num_unit :: "int \<Rightarrow> bool" where
  "num_unit c \<longleftrightarrow> is_digit c \<or> c = 46 \<or> c = 101 \<or> c = 69 \<or> c = 43 \<or> c = 45"

definition num_rx :: rx where
  "num_rx = Plus (Cls num_unit)"

definition name_rx :: rx where
  "name_rx = Plus (Cls (\<lambda>c. c \<noteq> 34))"

definition fn_rx :: rx where
  "fn_rx = alts (map (\<lambda>f. Lit (fn_name f)) TIME_FUNCS)"

definition range_rx :: rx where
  "range_rx =
     seqs [Cap 1 fn_rx, lit ''(\"'', Cap 2 name_rx, lit ''\") >= '', Cap 3 num_rx, lit '' '',
           Cap 4 (alts [lit ''&&'', lit ''||'']), lit '' '', Backref 1, lit ''(\"'', Backref 2,
           lit ''\") < '', Cap 5 num_rx]"

definition scalar_rx :: rx where
  "scalar_rx =
     seqs [Cap 1 fn_rx, lit ''(\"'', Cap 2 name_rx, lit ''\") '',
           Cap 3 (alts [lit ''=='', lit ''>='', lit ''<'']), lit '' '', Cap 4 num_rx]"

definition time_range_match :: "jsstring \<Rightarrow> captures option" where
  "time_range_match expr =
     (case rx_match (Seq Bol (Seq range_rx Eol)) expr of
        Some m \<Rightarrow> Some m
      | None \<Rightarrow> rx_match (Seq Bol (seqs [lit ''('', range_rx, lit '')'', Eol])) expr)"

definition time_op :: "jsstring \<Rightarrow> jsstring" where
  "time_op op = or_str (map_of [(js ''=='', MATCH_EQ), (js ''>='', MATCH_GTE), (js ''<'', MATCH_LT)] op) MATCH_EQ"

definition tryParseTimeCondition :: "jsstring \<Rightarrow> time_condition option" where
  "tryParseTimeCondition expr =
     (case time_range_match expr of
        Some m \<Rightarrow>
          (let f = the (time_func_of (grp m 1)) in
           if str_includes (grp m 2) [92] \<or> \<not> isTimeValueInRange f (grp m 3)
              \<or> \<not> isTimeValueInRange f (grp m 5)
              \<or> grp m 4 \<noteq> (if num_lt (str_to_num (grp m 5)) (str_to_num (grp m 3)) then js ''||'' else js ''&&'')
           then None
           else Some \<lparr>timeFunc = f, timezone = grp m 2, t_mode = MATCH_RANGE, t_value = [],
                      rangeStart = grp m 3, rangeEnd = grp m 5\<rparr>)
      | None \<Rightarrow>
          (case rx_match (Seq Bol (Seq scalar_rx Eol)) expr of
             None \<Rightarrow> None
           | Some m \<Rightarrow>
               (let f = the (time_func_of (grp m 1)) in
                if str_includes (grp m 2) [92] \<or> \<not> isTimeValueInRange f (grp m 4) then None
                else Some \<lparr>timeFunc = f, timezone = grp m 2, t_mode = time_op (grp m 3),
                           t_value = grp m 4, rangeStart = [], rangeEnd = []\<rparr>)))"

text \<open>\<^verbatim>\<open>"(?:[^"\\]|\\.)*"\<close>; a dot matches everything but the line terminators.\<close>

definition dot :: "int \<Rightarrow> bool" where
  "dot c \<longleftrightarrow> c \<noteq> 10 \<and> c \<noteq> 13 \<and> c \<noteq> 8232 \<and> c \<noteq> 8233"

definition string_rx :: rx where
  "string_rx =
     seqs [lit ''\"'', Star (Alt (Cls (\<lambda>c. c \<noteq> 34 \<and> c \<noteq> 92)) (Seq (Lit [92]) (Cls dot))), lit ''\"'']"

definition header_exists_rx :: rx where
  "header_exists_rx = seqs [lit ''header(\"'', Cap 1 name_rx, lit ''\") != \"\"'', Eol]"

definition param_exists_rx :: rx where
  "param_exists_rx = seqs [lit ''param(\"'', Cap 1 name_rx, lit ''\") != nil'', Eol]"

definition header_contains_rx :: rx where
  "header_contains_rx =
     seqs [lit ''has(header(\"'', Cap 1 name_rx, lit ''\"), '', Cap 2 string_rx, lit '')'', Eol]"

definition param_contains_rx :: rx where
  "param_contains_rx =
     seqs [lit ''param(\"'', Cap 1 name_rx, lit ''\") != nil && has(param(\"'', Cap 2 name_rx,
           lit ''\"), '', Cap 3 string_rx, lit '')'', Eol]"

definition param_compare_rx :: rx where
  "param_compare_rx =
     seqs [lit ''param(\"'', Cap 1 name_rx, lit ''\") != nil && param(\"'', Cap 2 name_rx, lit ''\") '',
           Cap 3 (alts [lit ''>'', lit ''>='', lit ''<'', lit ''<='']), lit '' '', Cap 4 num_rx, Eol]"

definition equals_rx :: rx where
  "equals_rx =
     seqs [Cap 1 (alts [lit ''param'', lit ''header'']), lit ''(\"'', Cap 2 name_rx, lit ''\") == '',
           Cap 3 (Plus (Cls dot)), Eol]"

definition ph_cond :: "cond_source \<Rightarrow> jsstring \<Rightarrow> jsstring \<Rightarrow> jsstring \<Rightarrow> request_condition" where
  "ph_cond src p mode v = PHCond \<lparr>ph_source = src, path = p, ph_mode = mode, ph_value = v\<rparr>"

definition json_or_throw :: "jsstring \<Rightarrow> (jsval \<Rightarrow> request_condition) \<Rightarrow> request_condition option outcome" where
  "json_or_throw raw f = (case json_parse raw of None \<Rightarrow> Thrown | Some v \<Rightarrow> Val (Some (f v)))"

definition compare_op :: "jsstring \<Rightarrow> jsstring" where
  "compare_op op =
     the (map_of [(js ''>'', MATCH_GT), (js ''>='', MATCH_GTE), (js ''<'', MATCH_LT), (js ''<='', MATCH_LTE)] op)"

definition parse_equals :: "jsstring \<Rightarrow> request_condition option outcome" where
  "parse_equals expr =
     (case rx_match (Seq Bol equals_rx) expr of
        None \<Rightarrow> Val None
      | Some m \<Rightarrow>
          (case parseExprLiteral (grp m 3) of
             None \<Rightarrow> Val None
           | Some v \<Rightarrow>
               if str_throws v then Thrown
               else Val (Some (ph_cond (if grp m 1 = js ''header'' then Header else Param) (grp m 2) MATCH_EQ (to_str v)))))"

definition tryParseRequestCondition :: "jsstring \<Rightarrow> request_condition option outcome" where
  "tryParseRequestCondition expr =
     (case tryParseTimeCondition expr of Some tc \<Rightarrow> Val (Some (TimeCond tc)) | None \<Rightarrow>
     (case rx_match (Seq Bol header_exists_rx) expr of
        Some m \<Rightarrow> Val (Some (ph_cond Header (grp m 1) MATCH_EXISTS [])) | None \<Rightarrow>
     (case rx_match (Seq Bol param_exists_rx) expr of
        Some m \<Rightarrow> Val (Some (ph_cond Param (grp m 1) MATCH_EXISTS [])) | None \<Rightarrow>
     (case rx_match (Seq Bol header_contains_rx) expr of
        Some m \<Rightarrow> json_or_throw (grp m 2) (\<lambda>v. ph_cond Header (grp m 1) MATCH_CONTAINS (to_str v)) | None \<Rightarrow>
     (let m = rx_match (Seq Bol param_contains_rx) expr in
      if m \<noteq> None \<and> grp (the m) 1 = grp (the m) 2
      then json_or_throw (grp (the m) 3) (\<lambda>v. ph_cond Param (grp (the m) 1) MATCH_CONTAINS (to_str v))
      else
      let m = rx_match (Seq Bol param_compare_rx) expr in
      if m \<noteq> None \<and> grp (the m) 1 = grp (the m) 2
      then Val (Some (ph_cond Param (grp (the m) 1) (compare_op (grp (the m) 3)) (grp (the m) 4)))
      else parse_equals expr)))))"

definition tryParseTimeRangePair :: "jsstring \<Rightarrow> jsstring \<Rightarrow> request_condition option" where
  "tryParseTimeRangePair lower upper =
     (case (tryParseTimeCondition lower, tryParseTimeCondition upper) of
        (Some ta, Some tb) \<Rightarrow>
          if timeFunc ta \<noteq> timeFunc tb \<or> timezone ta \<noteq> timezone tb then None
          else if t_mode ta \<noteq> MATCH_GTE \<or> t_mode tb \<noteq> MATCH_LT then None
          else if num_lt (str_to_num (t_value tb)) (str_to_num (t_value ta)) then None
          else Some (TimeCond \<lparr>timeFunc = timeFunc ta, timezone = timezone ta, t_mode = MATCH_RANGE,
                               t_value = [], rangeStart = t_value ta, rangeEnd = t_value tb\<rparr>)
      | _ \<Rightarrow> None)"

text \<open>The loop over the parts; two parts are used up when they form a range.\<close>

function conds_loop :: "jsstring list \<Rightarrow> request_condition list \<Rightarrow> request_condition list option outcome" where
  "conds_loop [] acc = Val (if acc \<noteq> [] then Some acc else None)"
| "conds_loop (p # ps) acc =
     (let part = trim p;
          nxt = (case ps of n # _ \<Rightarrow> trim n | [] \<Rightarrow> []);
          merged = (if nxt \<noteq> [] then tryParseTimeRangePair part nxt else None)
      in case merged of
           Some c \<Rightarrow> conds_loop (drop 1 ps) (acc @ [c])
         | None \<Rightarrow>
             (case tryParseRequestCondition part of
                Thrown \<Rightarrow> Thrown
              | Val None \<Rightarrow> Val None
              | Val (Some c) \<Rightarrow> conds_loop ps (acc @ [c])))"
  by pat_completeness auto
termination
  by (relation "measure (\<lambda>(ps, _). length ps)") auto

declare conds_loop.simps(2) [simp del]

definition tryParseRequestConditions :: "jsstring \<Rightarrow> request_condition list option outcome" where
  "tryParseRequestConditions conditionStr =
     (case tryParseTimeCondition (trim conditionStr) of
        Some tc \<Rightarrow> Val (Some [TimeCond tc])
      | None \<Rightarrow> conds_loop (splitTopLevelAnd conditionStr) [])"

definition factor_rx :: rx where
  "factor_rx = seqs [lit ''('', Cap 1 (Plus (Cls (\<lambda>c. True))), lit '' ? '', Cap 2 num_rx, lit '' : 1)'', Eol]"

definition tryParseRuleGroupFactor :: "jsstring \<Rightarrow> rule_group option outcome" where
  "tryParseRuleGroupFactor part =
     (case rx_match (Seq Bol factor_rx) part of
        None \<Rightarrow> Val None
      | Some m \<Rightarrow>
          (case tryParseRequestConditions (grp m 1) of
             Thrown \<Rightarrow> Thrown
           | Val None \<Rightarrow> Val None
           | Val (Some cs) \<Rightarrow> Val (Some \<lparr>conditions = cs, multiplier = grp m 2\<rparr>)))"

fun groups_loop :: "jsstring list \<Rightarrow> rule_group list \<Rightarrow> rule_group list option outcome" where
  "groups_loop [] acc = Val (Some acc)"
| "groups_loop (part # parts) acc =
     (case tryParseRuleGroupFactor part of
        Thrown \<Rightarrow> Thrown
      | Val None \<Rightarrow> Val None
      | Val (Some g) \<Rightarrow> groups_loop parts (acc @ [g]))"

definition tryParseRequestRuleExpr :: "jsstring \<Rightarrow> rule_group list option outcome" where
  "tryParseRequestRuleExpr expr =
     (let trimmed = trim expr in
      if trimmed = [] then Val (Some []) else groups_loop (splitTopLevelMultiply trimmed) [])"

subsection \<open>Base expression and request rules\<close>

fun parens_loop :: "int \<Rightarrow> jsstring \<Rightarrow> bool" where
  "parens_loop depth [] = (depth = 0)"
| "parens_loop depth (c # s) =
     (let d = paren_step c depth in if d = 0 \<and> s \<noteq> [] then False else parens_loop d s)"

definition hasFullOuterParens :: "jsstring \<Rightarrow> bool" where
  "hasFullOuterParens expr =
     (if \<not> starts_with expr (js ''('') \<or> \<not> ends_with expr (js '')'') then False
      else parens_loop 0 expr)"

lemma length_trim: "length (trim s) \<le> length s"
  using trim_decomp [of s] by (metis length_append le_add1 le_add2 le_trans)

function unwrap_loop :: "jsstring \<Rightarrow> jsstring" where
  "unwrap_loop current =
     (if hasFullOuterParens current then unwrap_loop (trim (butlast (tl current))) else current)"
  by pat_completeness auto
termination
proof (relation "measure length")
  fix current
  assume "hasFullOuterParens current"
  then have "current \<noteq> []" by (auto simp: hasFullOuterParens_def starts_with_def)
  then have "length (butlast (tl current)) < length current" by (cases current) auto
  then show "(trim (butlast (tl current)), current) \<in> measure length"
    using length_trim [of "butlast (tl current)"] by simp
qed simp

declare unwrap_loop.simps [simp del]

definition unwrapOuterParens :: "jsstring \<Rightarrow> jsstring" where
  "unwrapOuterParens expr = unwrap_loop (trim expr)"

record split_expr =
  billingExpr :: jsstring
  requestRuleExpr :: jsstring

text \<open>The loop over the parts sorts them into rule parts and base parts.\<close>

fun sort_parts :: "jsstring list \<Rightarrow> (jsstring list \<times> jsstring list) outcome" where
  "sort_parts [] = Val ([], [])"
| "sort_parts (part # parts) =
     (case tryParseRequestRuleExpr part of
        Thrown \<Rightarrow> Thrown
      | Val parsed \<Rightarrow>
          (case sort_parts parts of
             Thrown \<Rightarrow> Thrown
           | Val (rules, bases) \<Rightarrow>
               (case parsed of
                  Some (g # gs) \<Rightarrow> Val (part # rules, bases)
                | _ \<Rightarrow> Val (rules, part # bases))))"

definition splitBillingExprAndRequestRules :: "jsstring \<Rightarrow> split_expr outcome" where
  "splitBillingExprAndRequestRules expr =
     (let trimmed = trim expr; parts = splitTopLevelMultiply trimmed in
      if trimmed = [] then Val \<lparr>billingExpr = [], requestRuleExpr = []\<rparr>
      else if length parts \<le> 1 then Val \<lparr>billingExpr = trimmed, requestRuleExpr = []\<rparr>
      else case sort_parts parts of
             Thrown \<Rightarrow> Thrown
           | Val (ruleParts, baseParts) \<Rightarrow>
               if ruleParts = [] \<or> length baseParts \<noteq> 1
               then Val \<lparr>billingExpr = trimmed, requestRuleExpr = []\<rparr>
               else Val \<lparr>billingExpr = unwrapOuterParens (hd baseParts),
                         requestRuleExpr = join (js '' * '') ruleParts\<rparr>)"

definition combineBillingExpr :: "jsstring \<Rightarrow> jsstring \<Rightarrow> jsstring" where
  "combineBillingExpr baseExpr ruleExpr =
     (let base = trim baseExpr; rules = trim ruleExpr in
      if base = [] then [] else if rules = [] then base
      else js ''('' @ base @ js '') * '' @ rules)"

subsection \<open>Editor\<close>

definition createEmptyCondition :: ph_condition where
  "createEmptyCondition = \<lparr>ph_source = Param, path = [], ph_mode = MATCH_EQ, ph_value = []\<rparr>"

definition createEmptyTimeCondition :: time_condition where
  "createEmptyTimeCondition =
     \<lparr>timeFunc = Hour, timezone = js ''Asia/Shanghai'', t_mode = MATCH_GTE, t_value = [],
      rangeStart = [], rangeEnd = []\<rparr>"

definition createEmptyRuleGroup :: rule_group where
  "createEmptyRuleGroup = \<lparr>conditions = [PHCond createEmptyCondition], multiplier = []\<rparr>"

definition createEmptyTimeRuleGroup :: rule_group where
  "createEmptyTimeRuleGroup = \<lparr>conditions = [TimeCond createEmptyTimeCondition], multiplier = []\<rparr>"

record match_option =
  mo_value :: jsstring
  labelKey :: jsstring

definition match_opt :: "jsstring \<Rightarrow> string \<Rightarrow> match_option" where
  "match_opt v l = \<lparr>mo_value = v, labelKey = js l\<rparr>"

definition getRequestRuleMatchOptions :: "jsstring \<Rightarrow> match_option list" where
  "getRequestRuleMatchOptions source =
     (if source = SOURCE_TIME
      then [match_opt MATCH_EQ ''Equals'', match_opt MATCH_GTE ''Greater than or equal'',
            match_opt MATCH_LT ''Less than'', match_opt MATCH_RANGE ''Time range'']
      else
        let base = [match_opt MATCH_EQ ''Equals'', match_opt MATCH_CONTAINS ''Contains'',
                    match_opt MATCH_EXISTS ''Exists'']
        in if source = SOURCE_HEADER then base
           else base @ [match_opt MATCH_GT ''Greater than'', match_opt MATCH_GTE ''Greater than or equal'',
                        match_opt MATCH_LT ''Less than'', match_opt MATCH_LTE ''Less than or equal''])"

record partial_condition =
  p_source :: "jsstring option"
  p_path :: "jsstring option"
  p_timeFunc :: "jsstring option"
  p_timezone :: "jsstring option"
  p_mode :: "jsstring option"
  p_value :: "jsstring option"
  p_rangeStart :: "jsstring option"
  p_rangeEnd :: "jsstring option"

text \<open>A typed condition as an object with optional properties.\<close>

fun as_partial :: "request_condition \<Rightarrow> partial_condition" where
  "as_partial (TimeCond c) =
     \<lparr>p_source = Some SOURCE_TIME, p_path = None, p_timeFunc = Some (fn_name (timeFunc c)),
      p_timezone = Some (timezone c), p_mode = Some (t_mode c), p_value = Some (t_value c),
      p_rangeStart = Some (rangeStart c), p_rangeEnd = Some (rangeEnd c)\<rparr>"
| "as_partial (PHCond c) =
     \<lparr>p_source = Some (case ph_source c of Header \<Rightarrow> SOURCE_HEADER | Param \<Rightarrow> SOURCE_PARAM),
      p_path = Some (path c), p_timeFunc = None, p_timezone = None, p_mode = Some (ph_mode c),
      p_value = Some (ph_value c), p_rangeStart = None, p_rangeEnd = None\<rparr>"

definition isTimeFunc :: "jsstring option \<Rightarrow> bool" where
  "isTimeFunc v = (case v of Some s \<Rightarrow> time_func_of s \<noteq> None | None \<Rightarrow> False)"

definition known_mode :: "jsstring \<Rightarrow> jsstring option \<Rightarrow> jsstring \<Rightarrow> jsstring" where
  "known_mode source mode fallback =
     (if list_ex (\<lambda>item. Some (mo_value item) = mode) (getRequestRuleMatchOptions source)
      then the mode else fallback)"

definition or_empty :: "jsstring option \<Rightarrow> jsstring" where
  "or_empty v = (case v of Some s \<Rightarrow> s | None \<Rightarrow> [])"

definition normalizeCondition :: "partial_condition option \<Rightarrow> request_condition" where
  "normalizeCondition cond =
     (let field = (\<lambda>f. Option.bind cond f);
          source = (if field p_source = Some SOURCE_TIME then SOURCE_TIME
                    else if field p_source = Some SOURCE_HEADER then SOURCE_HEADER else SOURCE_PARAM)
      in if source = SOURCE_TIME
         then TimeCond
           \<lparr>timeFunc = (if isTimeFunc (field p_timeFunc) then the (time_func_of (the (field p_timeFunc))) else Hour),
            timezone = or_str (field p_timezone) (js ''Asia/Shanghai''),
            t_mode = known_mode SOURCE_TIME (field p_mode) MATCH_GTE,
            t_value = or_empty (field p_value), rangeStart = or_empty (field p_rangeStart),
            rangeEnd = or_empty (field p_rangeEnd)\<rparr>
         else PHCond
           \<lparr>ph_source = (if source = SOURCE_HEADER then Header else Param),
            path = or_str (field p_path) [],
            ph_mode = known_mode source (field p_mode) MATCH_EQ,
            ph_value = or_empty (field p_value)\<rparr>)"

text \<open>Normalising keeps the kind of a condition; these read the result at its type.\<close>

fun the_time :: "request_condition \<Rightarrow> time_condition" where
  "the_time (TimeCond c) = c"
| "the_time (PHCond c) = createEmptyTimeCondition"

fun the_ph :: "request_condition \<Rightarrow> ph_condition" where
  "the_ph (PHCond c) = c"
| "the_ph (TimeCond c) = createEmptyCondition"

subsection \<open>Building expressions\<close>

definition buildExprLiteral :: "jsstring \<Rightarrow> jsstring \<Rightarrow> jsstring" where
  "buildExprLiteral mode v =
     (let s = trim v in
      if mode = MATCH_CONTAINS then json_quote s
      else if s = js ''true'' \<or> s = js ''false'' then s
      else if rx_test NUMERIC_LITERAL_REGEX s then s
      else json_quote s)"

definition buildTimeConditionExpr :: "time_condition \<Rightarrow> jsstring" where
  "buildTimeConditionExpr cond =
     (let n = the_time (normalizeCondition (Some (as_partial (TimeCond cond))));
          tz = json_quote (timezone n);
          fn = fn_name (timeFunc n) @ js ''('' @ tz @ js '')''
      in if t_mode n = MATCH_RANGE then
           let s = trim (rangeStart n); e = trim (rangeEnd n) in
           if \<not> isTimeValueInRange (timeFunc n) s \<or> \<not> isTimeValueInRange (timeFunc n) e then []
           else if num_lt (str_to_num e) (str_to_num s)
           then fn @ js '' >= '' @ s @ js '' || '' @ fn @ js '' < '' @ e
           else fn @ js '' >= '' @ s @ js '' && '' @ fn @ js '' < '' @ e
         else
           let v = trim (t_value n) in
           if \<not> isTimeValueInRange (timeFunc n) v then []
           else fn @ js '' '' @
                or_str (map_of [(MATCH_EQ, js ''==''), (MATCH_GTE, js ''>=''), (MATCH_LT, js ''<'')] (t_mode n)) (js ''=='') @
                js '' '' @ v)"

definition buildRequestConditionExpr :: "request_condition \<Rightarrow> jsstring" where
  "buildRequestConditionExpr cond =
     (case cond of
        TimeCond c \<Rightarrow> buildTimeConditionExpr c
      | PHCond c \<Rightarrow>
          let n = the_ph (normalizeCondition (Some (as_partial (PHCond c))));
              p = trim (path n);
              hd = (ph_source n = Header);
              src = (if hd then js ''header('' else js ''param('') @ json_quote p @ js '')'';
              literal = buildExprLiteral (ph_mode n) (ph_value n)
          in if p = [] then []
             else if ph_mode n = MATCH_EXISTS
             then (if hd then src @ js '' != \"\"'' else src @ js '' != nil'')
             else if ph_mode n = MATCH_CONTAINS
             then (if hd then js ''has('' @ src @ js '', '' @ literal @ js '')''
                   else src @ js '' != nil && has('' @ src @ js '', '' @ literal @ js '')'')
             else if ph_mode n \<in> {MATCH_GT, MATCH_GTE, MATCH_LT, MATCH_LTE}
             then (let op = the (map_of [(MATCH_GT, js ''>''), (MATCH_GTE, js ''>=''),
                                         (MATCH_LT, js ''<''), (MATCH_LTE, js ''<='')] (ph_mode n));
                       numText = trim (ph_value n)
                   in if \<not> rx_test NUMERIC_LITERAL_REGEX numText then []
                      else src @ js '' != nil && '' @ src @ js '' '' @ op @ js '' '' @ numText)
             else src @ js '' == '' @ literal)"

definition buildRuleGroupFactor :: "rule_group \<Rightarrow> jsstring" where
  "buildRuleGroupFactor g =
     (let mult = trim (multiplier g);
          condExprs = filter (\<lambda>e. e \<noteq> []) (map buildRequestConditionExpr (conditions g));
          combined = (if length condExprs = 1 then hd condExprs
                      else join (js '' && '')
                             (map (\<lambda>e. if str_includes e (js '' || '') then js ''('' @ e @ js '')'' else e) condExprs))
      in if \<not> rx_test NUMERIC_LITERAL_REGEX mult then []
         else if condExprs = [] then []
         else js ''('' @ combined @ js '' ? '' @ mult @ js '' : 1)'')"

definition buildRequestRuleExpr :: "rule_group list \<Rightarrow> jsstring" where
  "buildRequestRuleExpr groups =
     join (js '' * '') (filter (\<lambda>e. e \<noteq> []) (map buildRuleGroupFactor groups))"

end
