(* ===== verification/BillingRules.thy ===== *)
theory BillingRules
  imports BillingExpr
begin

text \<open>
  Correctness of the request rules of \<open>BillingExpr\<close>.

  Each regular expression of the parser is characterised by the texts it matches and the captures
  it gives (\<open>range_match_iff\<close> and its siblings). On these rest the properties: a parsed time
  condition prints back to its text, rules that the editor builds parse back to the groups they were
  built from, base and rules of a combined expression separate again, and two kinds of parameter
  conditions never parse back.
\<close>

subsection \<open>Names, numbers and operators\<close>

definition nm :: "jsstring \<Rightarrow> bool" where
  "nm w \<longleftrightarrow> w \<noteq> [] \<and> 34 \<notin> set w"

definition nu :: "jsstring \<Rightarrow> bool" where
  "nu w \<longleftrightarrow> w \<noteq> [] \<and> list_all num_unit w"

lemma nm_run:
  "(t', cs') \<in> set (rx_run s name_rx (t, cs)) \<longleftrightarrow> (\<exists>w. nm w \<and> t = w @ t' \<and> cs' = cs)"
  by (auto simp: name_rx_def rx_Plus_Cls nm_def list_all_iff)

lemma nu_run:
  "(t', cs') \<in> set (rx_run s num_rx (t, cs)) \<longleftrightarrow> (\<exists>w. nu w \<and> t = w @ t' \<and> cs' = cs)"
  by (auto simp: num_rx_def rx_Plus_Cls nu_def)

lemma fn_run:
  "(t', cs') \<in> set (rx_run s fn_rx (t, cs)) \<longleftrightarrow> (\<exists>f. t = fn_name f @ t' \<and> cs' = cs)"
proof -
  have "(t', cs') \<in> set (rx_run s fn_rx (t, cs)) \<longleftrightarrow> (\<exists>f\<in>set TIME_FUNCS. t = fn_name f @ t' \<and> cs' = cs)"
    unfolding fn_rx_def TIME_FUNCS_def list.map alts.simps rx_Alt rx_Lit by auto
  moreover have "f \<in> set TIME_FUNCS" for f by (cases f) (simp_all add: TIME_FUNCS_def)
  ultimately show ?thesis by blast
qed

lemma nuD: "nu w \<Longrightarrow> c \<in> set w \<Longrightarrow> num_unit c"
  by (simp add: nu_def list_all_iff)

lemma nu_no: "nu w \<Longrightarrow> 32 \<notin> set w \<and> 41 \<notin> set w \<and> 34 \<notin> set w \<and> 40 \<notin> set w"
  by (auto simp: nu_def list_all_iff num_unit_def is_digit_def)

lemma fn_name_inject [simp]: "fn_name f = fn_name g \<longleftrightarrow> f = g"
  by (cases f; cases g) auto

lemma time_func_of_name [simp]: "time_func_of (fn_name f) = Some f"
  by (cases f) (simp_all add: time_func_of_def TIME_FUNCS_def)

lemma fn_name_cut: "fn_name f @ 40 # x = fn_name g @ 40 # y \<longleftrightarrow> f = g \<and> x = y"
proof -
  have "40 \<notin> set (fn_name f)" "40 \<notin> set (fn_name g)" by (cases f; simp add: js_def) (cases g; simp add: js_def)
  then show ?thesis by (simp add: append_sep_eq)
qed

text \<open>Cutting at a closing quote and at a space.\<close>

lemma nm_cut: "nm w \<Longrightarrow> nm w' \<Longrightarrow> w @ 34 # x = w' @ 34 # y \<longleftrightarrow> w = w' \<and> x = y"
  by (simp add: nm_def append_sep_eq)

lemma nu_cut: "nu w \<Longrightarrow> nu w' \<Longrightarrow> w @ 32 # x = w' @ 32 # y \<longleftrightarrow> w = w' \<and> x = y"
  using nu_no append_sep_eq by metis

subsection \<open>The texts of time conditions\<close>

definition call_text :: "TimeFunc \<Rightarrow> jsstring \<Rightarrow> jsstring" where
  "call_text f tz = fn_name f @ js ''(\"'' @ tz @ js ''\")''"

definition range_text :: "TimeFunc \<Rightarrow> jsstring \<Rightarrow> jsstring \<Rightarrow> jsstring \<Rightarrow> jsstring \<Rightarrow> jsstring" where
  "range_text f tz a op b =
     fn_name f @ js ''(\"'' @ tz @ js ''\") >= '' @ a @ js '' '' @ op @ js '' '' @
     fn_name f @ js ''(\"'' @ tz @ js ''\") < '' @ b"

definition scalar_text :: "TimeFunc \<Rightarrow> jsstring \<Rightarrow> jsstring \<Rightarrow> jsstring \<Rightarrow> jsstring" where
  "scalar_text f tz op v = fn_name f @ js ''(\"'' @ tz @ js ''\") '' @ op @ js '' '' @ v"

definition and_or :: "jsstring \<Rightarrow> bool" where
  "and_or op \<longleftrightarrow> op = js ''&&'' \<or> op = js ''||''"

definition scalar_op :: "jsstring \<Rightarrow> bool" where
  "scalar_op op \<longleftrightarrow> op = js ''=='' \<or> op = js ''>='' \<or> op = js ''<''"

lemma js_unfold: "js (c # s) = of_char c # js s"
  by (simp add: js_def)

lemma range_text_inject:
  assumes "nm tz" "nm tz'" "nu a" "nu a'" "and_or op" "and_or op'"
  shows "range_text f tz a op x = range_text f' tz' a' op' y \<longleftrightarrow>
     f = f' \<and> tz = tz' \<and> a = a' \<and> op = op' \<and> x = y"
  using assms
  by (auto simp: range_text_def js_unfold fn_name_cut nm_cut nu_cut and_or_def)

lemma scalar_text_inject:
  assumes "nm tz" "nm tz'" "scalar_op op" "scalar_op op'"
  shows "scalar_text f tz op x = scalar_text f' tz' op' y \<longleftrightarrow> f = f' \<and> tz = tz' \<and> op = op' \<and> x = y"
  using assms
  by (auto simp: scalar_text_def js_unfold fn_name_cut nm_cut scalar_op_def)

subsection \<open>What the time expressions match\<close>

lemma and_or_run:
  "(t', cs') \<in> set (rx_run s (alts [lit ''&&'', lit ''||'']) (t, cs)) \<longleftrightarrow> (\<exists>op. and_or op \<and> t = op @ t' \<and> cs' = cs)"
  unfolding alts.simps lit_def rx_Alt rx_Lit and_or_def by blast

lemma scalar_op_run:
  "(t', cs') \<in> set (rx_run s (alts [lit ''=='', lit ''>='', lit ''<'']) (t, cs)) \<longleftrightarrow>
     (\<exists>op. scalar_op op \<and> t = op @ t' \<and> cs' = cs)"
  unfolding alts.simps lit_def rx_Alt rx_Lit scalar_op_def by blast

lemmas time_runs = seqs.simps rx_Seq rx_Cap lit_def rx_Lit nm_run nu_run fn_run rx_Backref rx_Eol

lemma range_run:
  "(t', cs') \<in> set (rx_run s range_rx (t, cs)) \<longleftrightarrow>
     (\<exists>f tz a op b. nm tz \<and> nu a \<and> and_or op \<and> nu b \<and> t = range_text f tz a op b @ t' \<and>
        cs' = [(5, b), (4, op), (3, a), (2, tz), (1, fn_name f)] @ cs)"
  unfolding range_rx_def seqs.simps rx_Seq rx_Cap lit_def rx_Lit nm_run nu_run fn_run rx_Backref
    and_or_run [unfolded alts.simps lit_def] alts.simps range_text_def
  by (auto simp: grp_def)

lemma scalar_run:
  "(t', cs') \<in> set (rx_run s scalar_rx (t, cs)) \<longleftrightarrow>
     (\<exists>f tz op v. nm tz \<and> scalar_op op \<and> nu v \<and> t = scalar_text f tz op v @ t' \<and>
        cs' = [(4, v), (3, op), (2, tz), (1, fn_name f)] @ cs)"
  unfolding scalar_rx_def seqs.simps rx_Seq rx_Cap lit_def rx_Lit nm_run nu_run fn_run
    scalar_op_run [unfolded alts.simps lit_def] alts.simps scalar_text_def
  by auto

definition range_caps :: "TimeFunc \<Rightarrow> jsstring \<Rightarrow> jsstring \<Rightarrow> jsstring \<Rightarrow> jsstring \<Rightarrow> captures" where
  "range_caps f tz a op b = [(5, b), (4, op), (3, a), (2, tz), (1, fn_name f)]"

lemma range_match_iff:
  "rx_match (Seq Bol (Seq range_rx Eol)) x = Some m \<longleftrightarrow>
     (\<exists>f tz a op b. nm tz \<and> nu a \<and> and_or op \<and> nu b \<and> x = range_text f tz a op b \<and> m = range_caps f tz a op b)"
proof -
  have run: "(t, cs) \<in> set (rx_run x (Seq range_rx Eol) (x, [])) \<longleftrightarrow>
      t = [] \<and> (\<exists>f tz a op b. nm tz \<and> nu a \<and> and_or op \<and> nu b \<and> x = range_text f tz a op b \<and>
         cs = range_caps f tz a op b)" for t cs
    unfolding rx_Seq rx_Eol range_run range_caps_def by auto
  show ?thesis
    by (subst rx_match_iff) (auto simp: run range_text_inject)
qed

lemma range_paren_match_iff:
  "rx_match (Seq Bol (seqs [lit ''('', range_rx, lit '')'', Eol])) x = Some m \<longleftrightarrow>
     (\<exists>f tz a op b. nm tz \<and> nu a \<and> and_or op \<and> nu b \<and> x = js ''('' @ range_text f tz a op b @ js '')'' \<and>
        m = range_caps f tz a op b)"
proof -
  have run: "(t, cs) \<in> set (rx_run x (seqs [lit ''('', range_rx, lit '')'', Eol]) (x, [])) \<longleftrightarrow>
      t = [] \<and> (\<exists>f tz a op b. nm tz \<and> nu a \<and> and_or op \<and> nu b \<and>
         x = js ''('' @ range_text f tz a op b @ js '')'' \<and> cs = range_caps f tz a op b)" for t cs
    unfolding seqs.simps rx_Seq lit_def rx_Lit rx_Eol range_run range_caps_def by auto
  show ?thesis
    by (subst rx_match_iff) (auto simp: run range_text_inject)
qed

lemma scalar_match_iff:
  "rx_match (Seq Bol (Seq scalar_rx Eol)) x = Some m \<longleftrightarrow>
     (\<exists>f tz op v. nm tz \<and> scalar_op op \<and> nu v \<and> x = scalar_text f tz op v \<and>
        m = [(4, v), (3, op), (2, tz), (1, fn_name f)])"
proof -
  have run: "(t, cs) \<in> set (rx_run x (Seq scalar_rx Eol) (x, [])) \<longleftrightarrow>
      t = [] \<and> (\<exists>f tz op v. nm tz \<and> scalar_op op \<and> nu v \<and> x = scalar_text f tz op v \<and>
         cs = [(4, v), (3, op), (2, tz), (1, fn_name f)])" for t cs
    unfolding rx_Seq rx_Eol scalar_run by auto
  show ?thesis
    by (subst rx_match_iff) (auto simp: run scalar_text_inject)
qed

lemma grp_caps [simp]:
  "grp (range_caps f tz a op b) (Suc 0) = fn_name f" "grp (range_caps f tz a op b) 2 = tz"
  "grp (range_caps f tz a op b) 3 = a" "grp (range_caps f tz a op b) 4 = op"
  "grp (range_caps f tz a op b) 5 = b"
  by (simp_all add: range_caps_def grp_def)

subsection \<open>Numeric literals\<close>

lemma numeric_nu:
  assumes "rx_test NUMERIC_LITERAL_REGEX s"
  shows "nu s"
proof -
  obtain cs where "rx_match NUMERIC_LITERAL_REGEX s = Some cs" using assms by (auto simp: rx_test_def)
  then obtain t where "(t, cs) \<in> set (rx_run s (seqs
       [Opt (lit ''-''),
        Alt (seqs [Plus (Cls is_digit), Opt (lit ''.''), Star (Cls is_digit)])
            (Seq (lit ''.'') (Plus (Cls is_digit))),
        Opt (seqs [Cls (\<lambda>c. c = 101 \<or> c = 69), Opt sign_rx, Plus (Cls is_digit)]),
        Eol]) (s, []))"
    unfolding NUMERIC_LITERAL_REGEX_def using rx_match_in by blast
  then show ?thesis
    unfolding seqs.simps sign_rx_def lit_def rx_Seq rx_Opt rx_Alt rx_Lit rx_Eol rx_Plus_Cls rx_Star_Cls rx_Cls
    by (auto simp: nu_def num_unit_def list_all_iff js_def)
qed

lemma inr_nu: "isTimeValueInRange f s \<Longrightarrow> nu s"
  by (auto simp: isTimeValueInRange_def numeric_nu split: if_splits)

lemma nu_trimmed: "nu s \<Longrightarrow> trimmed s"
  by (rule trimmed_no_ws) (auto simp: nu_def list_all_iff num_unit_def is_digit_def is_ws_def)

lemma nu_trim [simp]: "nu s \<Longrightarrow> trim s = s"
  by (simp add: nu_trimmed trim_id)

subsection \<open>What the time parser accepts\<close>

definition range_op :: "jsstring \<Rightarrow> jsstring \<Rightarrow> jsstring" where
  "range_op a b = (if num_lt (str_to_num b) (str_to_num a) then js ''||'' else js ''&&'')"

definition range_cond :: "TimeFunc \<Rightarrow> jsstring \<Rightarrow> jsstring \<Rightarrow> jsstring \<Rightarrow> time_condition" where
  "range_cond f tz a b =
     \<lparr>timeFunc = f, timezone = tz, t_mode = MATCH_RANGE, t_value = [], rangeStart = a, rangeEnd = b\<rparr>"

definition scalar_cond :: "TimeFunc \<Rightarrow> jsstring \<Rightarrow> jsstring \<Rightarrow> jsstring \<Rightarrow> time_condition" where
  "scalar_cond f tz mode v =
     \<lparr>timeFunc = f, timezone = tz, t_mode = mode, t_value = v, rangeStart = [], rangeEnd = []\<rparr>"

definition zone_ok :: "jsstring \<Rightarrow> bool" where
  "zone_ok tz \<longleftrightarrow> nm tz \<and> 92 \<notin> set tz"

lemma range_op_and_or: "and_or (range_op a b)"
  by (simp add: range_op_def and_or_def)

lemma scalar_not_range:
  assumes "nm tz" "nm tz'" "scalar_op op" "nu v"
  shows "scalar_text f tz op v \<noteq> range_text f' tz' a op' b"
proof
  assume "scalar_text f tz op v = range_text f' tz' a op' b"
  then have "32 \<in> set v"
    using assms by (auto simp: scalar_text_def range_text_def js_unfold fn_name_cut nm_cut scalar_op_def)
  then show False using assms(4) nu_no by blast
qed

lemma fn_name_hd: "fn_name f @ x \<noteq> 40 # y"
  by (cases f) (simp_all add: js_def)

lemma text_hd: "range_text f tz a op b \<noteq> 40 # y" "scalar_text f tz op v \<noteq> 40 # y"
  by (simp_all add: range_text_def scalar_text_def fn_name_hd)

lemma time_range_match_iff:
  "time_range_match x = Some m \<longleftrightarrow>
     (\<exists>f tz a op b. nm tz \<and> nu a \<and> and_or op \<and> nu b \<and>
        (x = range_text f tz a op b \<or> x = js ''('' @ range_text f tz a op b @ js '')'') \<and> m = range_caps f tz a op b)"
proof (cases "rx_match (Seq Bol (Seq range_rx Eol)) x")
  case None
  then have "x \<noteq> range_text f tz a op b" if "nm tz" "nu a" "and_or op" "nu b" for f tz a op b
    using that range_match_iff by (metis option.distinct(1))
  then show ?thesis unfolding time_range_match_def None option.case range_paren_match_iff by blast
next
  case (Some m')
  then obtain f tz a op b where *: "nm tz" "nu a" "and_or op" "nu b" "x = range_text f tz a op b"
    "m' = range_caps f tz a op b"
    unfolding range_match_iff by blast
  have same: "m = range_caps f tz a op b" if "nm tz'" "nu a'" "and_or op'"
      "x = range_text f' tz' a' op' b' \<or> x = js ''('' @ range_text f' tz' a' op' b' @ js '')''"
      "m = range_caps f' tz' a' op' b'" for f' tz' a' op' b'
    using that * by (auto simp: range_text_inject js_unfold text_hd)
  show ?thesis
    unfolding time_range_match_def Some option.case option.inject using * same by metis
qed

text \<open>A time condition is accepted in two shapes, as a range, perhaps in parentheses, whose operator
  fits its bounds, or as a comparison; both with bounds in the domain of the function.\<close>

definition range_accepted :: "jsstring \<Rightarrow> time_condition \<Rightarrow> bool" where
  "range_accepted x c \<longleftrightarrow>
     (\<exists>f tz a b. zone_ok tz \<and> isTimeValueInRange f a \<and> isTimeValueInRange f b \<and> c = range_cond f tz a b \<and>
        (x = range_text f tz a (range_op a b) b \<or> x = js ''('' @ range_text f tz a (range_op a b) b @ js '')''))"

definition scalar_accepted :: "jsstring \<Rightarrow> time_condition \<Rightarrow> bool" where
  "scalar_accepted x c \<longleftrightarrow>
     (\<exists>f tz op v. zone_ok tz \<and> isTimeValueInRange f v \<and> scalar_op op \<and> c = scalar_cond f tz (time_op op) v \<and>
        x = scalar_text f tz op v)"

lemma range_accepted_match:
  assumes "zone_ok tz" "isTimeValueInRange f a" "isTimeValueInRange f b"
    "x = range_text f tz a (range_op a b) b \<or> x = js ''('' @ range_text f tz a (range_op a b) b @ js '')''"
  shows "time_range_match x = Some (range_caps f tz a (range_op a b) b)"
  using assms inr_nu range_op_and_or unfolding time_range_match_iff zone_ok_def by blast

lemma scalar_no_range_match:
  assumes "zone_ok tz" "isTimeValueInRange f v" "scalar_op op"
  shows "time_range_match (scalar_text f tz op v) = None"
proof (rule ccontr)
  assume "\<not> ?thesis"
  then obtain m where "time_range_match (scalar_text f tz op v) = Some m" by auto
  then show False
    unfolding time_range_match_iff
    using scalar_not_range assms inr_nu text_hd by (fastforce simp: zone_ok_def js_unfold)
qed

lemma parse_range_iff:
  assumes "time_range_match x = Some m"
  shows "tryParseTimeCondition x = Some c \<longleftrightarrow> range_accepted x c"
proof
  obtain f tz a op b where m: "nm tz" "nu a" "and_or op" "nu b" "m = range_caps f tz a op b"
    "x = range_text f tz a op b \<or> x = js ''('' @ range_text f tz a op b @ js '')''"
    using assms time_range_match_iff by blast
  show "range_accepted x c" if "tryParseTimeCondition x = Some c"
  proof -
    have "92 \<notin> set tz" "isTimeValueInRange f a" "isTimeValueInRange f b" "op = range_op a b" "c = range_cond f tz a b"
      using that unfolding tryParseTimeCondition_def assms
      by (auto simp: m(5) str_includes_unit range_op_def range_cond_def Let_def split: if_splits)
    then show ?thesis using m unfolding range_accepted_def zone_ok_def by blast
  qed
next
  assume "range_accepted x c"
  then obtain f tz a b where c: "zone_ok tz" "isTimeValueInRange f a" "isTimeValueInRange f b" "c = range_cond f tz a b"
    "x = range_text f tz a (range_op a b) b \<or> x = js ''('' @ range_text f tz a (range_op a b) b @ js '')''"
    unfolding range_accepted_def by blast
  show "tryParseTimeCondition x = Some c"
    using c(1-4) unfolding tryParseTimeCondition_def range_accepted_match [OF c(1-3,5)]
    by (simp add: zone_ok_def str_includes_unit range_op_def range_cond_def)
qed

lemma parse_time_iff:
  "tryParseTimeCondition x = Some c \<longleftrightarrow> range_accepted x c \<or> scalar_accepted x c"
proof (cases "time_range_match x")
  case (Some m)
  have "\<not> scalar_accepted x c"
    using Some scalar_no_range_match unfolding scalar_accepted_def by fastforce
  then show ?thesis using parse_range_iff [OF Some] by blast
next
  case None
  have no: "\<not> range_accepted x c"
    using None range_accepted_match unfolding range_accepted_def by fastforce
  have "tryParseTimeCondition x = Some c \<longleftrightarrow> scalar_accepted x c"
  proof (cases "rx_match (Seq Bol (Seq scalar_rx Eol)) x")
    case no_match: None
    then have "x \<noteq> scalar_text f tz op v" if "nm tz" "scalar_op op" "nu v" for f tz op v
      using that scalar_match_iff by (metis option.distinct(1))
    then have "\<not> scalar_accepted x c"
      using inr_nu unfolding scalar_accepted_def zone_ok_def by blast
    then show ?thesis by (simp add: tryParseTimeCondition_def None no_match)
  next
    case (Some m)
    then obtain f tz op v where m: "nm tz" "scalar_op op" "nu v" "x = scalar_text f tz op v"
      "m = [(4, v), (3, op), (2, tz), (1, fn_name f)]"
      unfolding scalar_match_iff by blast
    have "scalar_accepted x c \<longleftrightarrow> zone_ok tz \<and> isTimeValueInRange f v \<and> c = scalar_cond f tz (time_op op) v"
      unfolding scalar_accepted_def zone_ok_def m(4) using m(1-3) scalar_text_inject by metis
    then show ?thesis
      using m(1) unfolding tryParseTimeCondition_def None Some
      by (auto simp: m(5) grp_def str_includes_unit scalar_cond_def zone_ok_def Let_def)
  qed
  then show ?thesis using no by blast
qed

subsection \<open>Printing time conditions\<close>

definition plain :: "jsstring \<Rightarrow> bool" where
  "plain s \<longleftrightarrow> (\<forall>c\<in>set s. 32 \<le> c \<and> c \<noteq> 34 \<and> c \<noteq> 92 \<and> \<not> high_surrogate c \<and> \<not> low_surrogate c)"

lemma quote_units_plain: "plain s \<Longrightarrow> quote_units s = s"
  by (induction s rule: quote_units.induct) (auto simp: plain_def quote_unit_def)

lemma json_quote_plain: "plain s \<Longrightarrow> json_quote s = 34 # s @ [34]"
  by (simp add: json_quote_def quote_units_plain)

definition time_mode :: "jsstring \<Rightarrow> bool" where
  "time_mode mode \<longleftrightarrow> mode \<in> {MATCH_EQ, MATCH_GTE, MATCH_LT, MATCH_RANGE}"

lemma normalize_time:
  assumes "timezone c \<noteq> []" "time_mode (t_mode c)"
  shows "normalizeCondition (Some (as_partial (TimeCond c))) = TimeCond c"
  using assms
  by (auto simp: normalizeCondition_def Let_def isTimeFunc_def or_str_def or_empty_def known_mode_def
      getRequestRuleMatchOptions_def match_opt_def time_mode_def)

lemma build_range:
  assumes "zone_ok tz" "plain tz" "isTimeValueInRange f a" "isTimeValueInRange f b"
  shows "buildTimeConditionExpr (range_cond f tz a b) = range_text f tz a (range_op a b) b"
proof -
  have n: "normalizeCondition (Some (as_partial (TimeCond (range_cond f tz a b)))) = TimeCond (range_cond f tz a b)"
    using assms(1) by (intro normalize_time) (auto simp: range_cond_def time_mode_def zone_ok_def nm_def)
  have "nu a" "nu b" using assms(3,4) inr_nu by blast+
  then show ?thesis
    unfolding buildTimeConditionExpr_def n using assms(3,4)
    by (simp add: range_cond_def json_quote_plain [OF assms(2)] range_text_def range_op_def js_unfold Let_def)
qed

lemma time_op_cases: "scalar_op op \<Longrightarrow>
   op = js ''=='' \<and> time_op op = MATCH_EQ \<or> op = js ''>='' \<and> time_op op = MATCH_GTE \<or>
   op = js ''<'' \<and> time_op op = MATCH_LT"
  by (auto simp: scalar_op_def time_op_def or_str_def match_defs)

lemma build_scalar:
  assumes "zone_ok tz" "plain tz" "isTimeValueInRange f v" "scalar_op op"
  shows "buildTimeConditionExpr (scalar_cond f tz (time_op op) v) = scalar_text f tz op v"
proof -
  have n: "normalizeCondition (Some (as_partial (TimeCond (scalar_cond f tz (time_op op) v)))) =
      TimeCond (scalar_cond f tz (time_op op) v)"
    using assms(1,4) time_op_cases
    by (intro normalize_time) (auto simp: scalar_cond_def time_mode_def zone_ok_def nm_def)
  have "nu v" using assms(3) inr_nu by blast
  then show ?thesis
    unfolding buildTimeConditionExpr_def n using assms(3) time_op_cases [OF assms(4)]
    by (auto simp: scalar_cond_def json_quote_plain [OF assms(2)] scalar_text_def js_unfold Let_def
        or_str_def match_defs)
qed

text \<open>no time condition changes its meaning in the editor: what the parser accepts prints back
  as the same text, up to one pair of parentheses around a range. (Hypothesis: the time zone has no
  control characters and no surrogates, which JSON would escape.)\<close>

theorem time_condition_text_kept:
  assumes "tryParseTimeCondition x = Some c" "plain (timezone c)"
  shows "x = buildTimeConditionExpr c \<or> x = js ''('' @ buildTimeConditionExpr c @ js '')''"
  using assms(1) unfolding parse_time_iff
proof
  assume "range_accepted x c"
  then show ?thesis using assms(2) build_range by (auto simp: range_accepted_def range_cond_def)
next
  assume "scalar_accepted x c"
  then show ?thesis using assms(2) build_scalar by (auto simp: scalar_accepted_def scalar_cond_def)
qed

theorem time_condition_text_kept_witness:
  "let x = js ''(hour(\"Asia/Tokyo\") >= 21 || hour(\"Asia/Tokyo\") < 6)''; c = the (tryParseTimeCondition x) in
   x = buildTimeConditionExpr c \<or> x = js ''('' @ buildTimeConditionExpr c @ js '')''"
  unfolding Let_def by (rule time_condition_text_kept) code_simp+

subsection \<open>Cutting a condition at its conjunctions\<close>

text \<open>\<open>and_pass d e\<close>: at depth \<open>d\<close> the loop runs over \<open>e\<close> without cutting it.\<close>

definition and_pass :: "int \<Rightarrow> jsstring \<Rightarrow> bool" where
  "and_pass d e \<longleftrightarrow>
     (\<forall>parts cur rest. and_loop parts cur d False (e @ rest) = and_loop parts (cur @ e) d False rest)"

lemma and_pass_append: "and_pass d e \<Longrightarrow> and_pass d e' \<Longrightarrow> and_pass d (e @ e')"
  by (simp add: and_pass_def)

lemma and_pass_unit: "0 \<le> d \<Longrightarrow> c \<notin> {34, 40, 41, 32, 124} \<Longrightarrow> and_pass d [c]"
  by (auto simp: and_pass_def and_loop.simps(2) paren_step_def js_unfold Let_def)

lemma and_pass_inner: "0 < d \<Longrightarrow> c \<notin> {34, 40, 41} \<Longrightarrow> and_pass d [c]"
  by (auto simp: and_pass_def and_loop.simps(2) paren_step_def Let_def)

lemma and_space:
  "0 \<le> d \<Longrightarrow> c \<noteq> 38 \<Longrightarrow> and_loop parts cur d False (32 # c # s) = and_loop parts (cur @ [32]) d False (c # s)"
  by (auto simp: and_loop.simps(2) [of _ _ _ _ 32] paren_step_def js_unfold Let_def)

fun and_ok :: "jsstring \<Rightarrow> bool" where
  "and_ok [] = True"
| "and_ok [c] = (c \<notin> {34, 40, 41, 32, 124})"
| "and_ok (c # b # s) = (c \<notin> {34, 40, 41, 124} \<and> (c = 32 \<longrightarrow> b \<noteq> 38) \<and> and_ok (b # s))"

lemma and_ok_pass: "and_ok e \<Longrightarrow> 0 \<le> d \<Longrightarrow> and_pass d e"
proof (induction e rule: and_ok.induct)
  case (2 c)
  then show ?case by (intro and_pass_unit) auto
next
  case (3 c b s)
  have IH: "and_pass d (b # s)" using 3 by simp
  show ?case
  proof (cases "c = 32")
    case True
    then show ?thesis using 3 IH by (simp add: and_pass_def and_space)
  next
    case False
    then have "and_pass d [c]" using 3 by (intro and_pass_unit) auto
    then show ?thesis using and_pass_append [OF _ IH] by fastforce
  qed
qed (simp add: and_pass_def)

lemma and_ok_append: "and_ok e \<Longrightarrow> and_ok e' \<Longrightarrow> e \<noteq> [] \<Longrightarrow> and_ok (e @ e')"
  by (induction e rule: and_ok.induct) (cases e'; auto)+

text \<open>The inside of a string literal: a quote only after a backslash.\<close>

fun qbody :: "jsstring \<Rightarrow> bool" where
  "qbody [] = True"
| "qbody [c] = (c \<noteq> 34 \<and> c \<noteq> 92)"
| "qbody (c # b # s) = (if c = 92 then dot b \<and> qbody s else c \<noteq> 34 \<and> qbody (b # s))"

lemma and_loop_quoted:
  "qbody w \<Longrightarrow> and_loop parts cur d True (w @ 34 # rest) = and_loop parts (cur @ w) d True (34 # rest)"
proof (induction w arbitrary: cur rule: qbody.induct)
  case (3 c b s)
  then show ?case by (auto simp: and_loop.simps(2) [of _ _ _ _ c] Let_def split: if_splits)
qed (auto simp: and_loop.simps(2) Let_def)

lemma and_pass_string: "qbody w \<Longrightarrow> 0 \<le> d \<Longrightarrow> and_pass d (34 # w @ [34])"
  by (simp add: and_pass_def and_loop.simps(2) [of _ _ _ False 34] and_loop.simps(2) [of _ _ _ True 34]
      and_loop_quoted paren_step_def js_unfold Let_def)

lemma and_pass_space_string: "qbody w \<Longrightarrow> 0 \<le> d \<Longrightarrow> and_pass d (32 # 34 # w @ [34])"
  using and_pass_string [of w d] by (simp add: and_pass_def and_space)

lemma and_pass_paren: "and_pass (d + 1) e \<Longrightarrow> 0 \<le> d \<Longrightarrow> and_pass d (40 # e @ [41])"
  by (simp add: and_pass_def and_loop.simps(2) [of _ _ _ _ 40] and_loop.simps(2) [of _ _ _ _ 41]
      paren_step_def js_unfold Let_def)

lemma and_cut: "and_loop parts cur 0 False (js '' && '' @ rest) = and_loop (parts @ [trim cur]) [] 0 False rest"
  by (simp add: and_loop.simps(2) paren_step_def js_unfold Let_def)

lemma and_pass_run: "and_pass d x \<Longrightarrow> and_loop parts [] d False (x @ rest) = and_loop parts x d False rest"
  by (simp add: and_pass_def)

lemma and_loop_join:
  assumes "ps \<noteq> []" "\<forall>p\<in>set ps. and_pass 0 p \<and> trimmed p"
  shows "and_loop parts [] 0 False (join (js '' && '') ps) = parts @ ps"
  using assms
proof (induction ps arbitrary: parts)
  case (Cons x ps)
  have x: "and_pass 0 x" "trimmed x" using Cons.prems by simp_all
  show ?case
  proof (cases ps)
    case Nil
    then show ?thesis using and_pass_run [OF x(1), of parts "[]"] x(2) by (simp add: trim_id)
  next
    case (Cons y ys)
    then have "and_loop (parts @ [x]) [] 0 False (join (js '' && '') ps) = parts @ x # ps"
      using Cons.IH [of "parts @ [x]"] Cons.prems by simp
    then show ?thesis using and_pass_run [OF x(1)] x(2) Cons by (simp add: and_cut trim_id)
  qed
qed simp

lemma split_and_join:
  "ps \<noteq> [] \<Longrightarrow> \<forall>p\<in>set ps. and_pass 0 p \<and> trimmed p \<Longrightarrow> splitTopLevelAnd (join (js '' && '') ps) = ps"
  by (simp add: splitTopLevelAnd_def and_loop_join)

subsection \<open>Cutting an expression at its products\<close>

text \<open>\<open>bal n e\<close>: the parentheses of \<open>e\<close> close \<open>n\<close> open ones and each other.\<close>

fun bal :: "nat \<Rightarrow> jsstring \<Rightarrow> bool" where
  "bal n [] = (n = 0)"
| "bal n (c # s) = (if c = 40 then bal (Suc n) s else if c = 41 then n \<noteq> 0 \<and> bal (n - 1) s else bal n s)"

abbreviation balanced :: "jsstring \<Rightarrow> bool" where
  "balanced e \<equiv> bal 0 e"

lemma bal_append: "bal m e \<Longrightarrow> bal n e' \<Longrightarrow> bal (m + n) (e @ e')"
proof (induction e arbitrary: m)
  case (Cons c e)
  show ?case
  proof (cases "c = 40")
    case True
    then show ?thesis using Cons.IH [of "Suc m"] Cons.prems by simp
  next
    case False
    then show ?thesis using Cons.IH [of m] Cons.IH [of "m - 1"] Cons.prems by (auto split: if_splits)
  qed
qed simp

lemma balanced_append: "balanced e \<Longrightarrow> balanced e' \<Longrightarrow> balanced (e @ e')"
  using bal_append [of 0 e 0 e'] by simp

lemma balanced_flat: "40 \<notin> set e \<Longrightarrow> 41 \<notin> set e \<Longrightarrow> balanced e"
  by (induction e) auto

lemma balanced_paren: "balanced e \<Longrightarrow> balanced (40 # e @ [41])"
  using bal_append [of 0 e 1 "[41]"] by simp

lemma mul_loop_bal:
  "bal n e \<Longrightarrow> mul_loop parts cur (1 + int n + int k) (e @ rest) = mul_loop parts (cur @ e) (1 + int k) rest"
proof (induction e arbitrary: n cur)
  case (Cons c e)
  show ?case
  proof (cases "c = 41")
    case True
    then obtain m where "n = Suc m" "bal m e" using Cons.prems by (cases n) auto
    then show ?thesis using Cons.IH [of m "cur @ [c]"] True
      by (simp add: mul_loop.simps(2) paren_step_def add.assoc)
  next
    case False
    then show ?thesis using Cons.IH [of n "cur @ [c]"] Cons.IH [of "Suc n" "cur @ [c]"] Cons.prems
      by (auto simp: mul_loop.simps(2) paren_step_def add_ac split: if_splits)
  qed
qed simp

lemma mul_pass_paren:
  assumes "balanced e"
  shows "mul_loop parts cur 0 (40 # e @ 41 # rest) = mul_loop parts (cur @ 40 # e @ [41]) 0 rest"
  using mul_loop_bal [OF assms, of parts "cur @ [40]" 0 "41 # rest"]
  by (simp add: mul_loop.simps(2) [of _ _ _ 40] mul_loop.simps(2) [of _ _ _ 41] paren_step_def js_unfold Let_def)

lemma mul_cut: "mul_loop parts cur 0 (js '' * '' @ rest) = mul_loop (parts @ [trim cur]) [] 0 rest"
  by (simp add: mul_loop.simps(2) paren_step_def js_unfold Let_def)

text \<open>A factor: something balanced in parentheses.\<close>

definition factor_text :: "jsstring \<Rightarrow> bool" where
  "factor_text x \<longleftrightarrow> (\<exists>e. x = 40 # e @ [41] \<and> balanced e)"

lemma factor_trimmed: "factor_text x \<Longrightarrow> trimmed x \<and> x \<noteq> []"
  by (auto simp: factor_text_def trimmed_def is_ws_def)

lemma factor_run: "factor_text x \<Longrightarrow> mul_loop parts [] 0 (x @ rest) = mul_loop parts x 0 rest"
  by (auto simp: factor_text_def mul_pass_paren)

lemma mul_loop_join:
  assumes "ps \<noteq> []" "\<forall>p\<in>set ps. factor_text p"
  shows "mul_loop parts [] 0 (join (js '' * '') ps) = parts @ ps"
  using assms
proof (induction ps arbitrary: parts)
  case (Cons x ps)
  have x: "factor_text x" "trimmed x" using Cons.prems factor_trimmed by simp_all
  show ?case
  proof (cases ps)
    case Nil
    then show ?thesis using factor_run [OF x(1), of parts "[]"] x(2) by (simp add: trim_id)
  next
    case (Cons y ys)
    then have "mul_loop (parts @ [x]) [] 0 (join (js '' * '') ps) = parts @ x # ps"
      using Cons.IH [of "parts @ [x]"] Cons.prems by simp
    then show ?thesis using factor_run [OF x(1)] x(2) Cons by (simp add: mul_cut trim_id)
  qed
qed simp

lemma split_mul_join:
  assumes "ps \<noteq> []" "\<forall>p\<in>set ps. factor_text p"
  shows "splitTopLevelMultiply (join (js '' * '') ps) = ps"
proof -
  have "filter (\<lambda>x. x \<noteq> []) ps = ps" using assms(2) factor_trimmed by (simp add: filter_id_conv)
  then show ?thesis using mul_loop_join [OF assms, of "[]"] by (simp add: splitTopLevelMultiply_def)
qed

lemma factors_trimmed:
  "ps \<noteq> [] \<Longrightarrow> \<forall>p\<in>set ps. factor_text p \<Longrightarrow> trimmed (join (js '' * '') ps) \<and> join (js '' * '') ps \<noteq> []"
  using join_trimmed factor_trimmed by blast

subsection \<open>String literals\<close>

lemma qbody_append: "qbody w \<Longrightarrow> qbody w' \<Longrightarrow> qbody (w @ w')"
proof (induction w rule: qbody.induct)
  case (2 c)
  then show ?case by (cases w') auto
qed (auto split: if_splits)

definition hex_like :: "int \<Rightarrow> bool" where
  "hex_like c \<longleftrightarrow> is_digit c \<or> 97 \<le> c \<and> c \<le> 102"

lemma hex_unit_like: "0 \<le> d \<Longrightarrow> d < 16 \<Longrightarrow> hex_like (hex_unit d)"
  by (simp add: hex_unit_def hex_like_def is_digit_def)

lemma u_escape_form:
  assumes "0 \<le> c" "c < 65536"
  shows "\<exists>a b d e. u_escape c = [92, 117, a, b, d, e] \<and> hex_like a \<and> hex_like b \<and> hex_like d \<and> hex_like e"
proof -
  have "c div 4096 < 16" using assms by auto
  then show ?thesis using assms hex_unit_like by (auto simp: u_escape_def)
qed

definition escape_unit :: "int \<Rightarrow> bool" where
  "escape_unit c \<longleftrightarrow> hex_like c \<or> c \<in> {34, 92, 98, 102, 110, 114, 116, 117}"

lemma u_escape_body:
  assumes "0 \<le> c" "c < 65536"
  shows "qbody (u_escape c) \<and> (\<forall>u\<in>set (u_escape c). escape_unit u)"
proof -
  obtain a b d e where u: "u_escape c = [92, 117, a, b, d, e]"
    "hex_like a" "hex_like b" "hex_like d" "hex_like e" using u_escape_form [OF assms] by blast
  have "x \<noteq> 34 \<and> x \<noteq> 92" if "hex_like x" for x using that by (auto simp: hex_like_def is_digit_def)
  then show ?thesis using u by (simp add: escape_unit_def dot_def)
qed

lemma quote_unit_body:
  "0 \<le> c \<Longrightarrow> c < 65536 \<Longrightarrow> qbody (quote_unit c) \<and> (\<forall>u\<in>set (quote_unit c). escape_unit u \<or> u = c \<and> 32 \<le> u)"
  using u_escape_body [of c] by (auto simp: quote_unit_def dot_def escape_unit_def)

lemma quote_units_body:
  "str_ok v \<Longrightarrow> qbody (quote_units v) \<and> (\<forall>u\<in>set (quote_units v). escape_unit u \<or> u \<in> set v \<and> 32 \<le> u)"
proof (induction v rule: quote_units.induct)
  case (2 c)
  then show ?case using u_escape_body [of c] quote_unit_body [of c] by (auto simp: str_ok_def)
next
  case (3 c d s)
  have c: "0 \<le> c" "c < 65536" using "3.prems" by (simp_all add: str_ok_def)
  show ?case
  proof (cases "high_surrogate c \<and> low_surrogate d")
    case True
    have "qbody (quote_units s) \<and> (\<forall>u\<in>set (quote_units s). escape_unit u \<or> u \<in> set s \<and> 32 \<le> u)"
      using 3 True by (simp add: str_ok_def)
    moreover from this have "qbody ([c] @ [d] @ quote_units s)"
      using True by (intro qbody_append) (auto simp: high_surrogate_def low_surrogate_def)
    ultimately show ?thesis using True by (auto simp: high_surrogate_def low_surrogate_def)
  next
    case False
    have "qbody (quote_units (d # s)) \<and> (\<forall>u\<in>set (quote_units (d # s)). escape_unit u \<or> u \<in> set (d # s) \<and> 32 \<le> u)"
      using 3 False by (simp add: str_ok_def)
    then show ?thesis
      using False u_escape_body [OF c] quote_unit_body [OF c] qbody_append by auto
  qed
qed simp

lemma qbody_plain: "34 \<notin> set w \<Longrightarrow> 92 \<notin> set w \<Longrightarrow> qbody w"
  by (induction w rule: qbody.induct) auto

text \<open>A string literal is matched by its expression, whatever follows it.\<close>

lemma string_star:
  "qbody w \<Longrightarrow> (34 # r, cs) \<in> set (rx_run s (Star (Alt (Cls (\<lambda>c. c \<noteq> 34 \<and> c \<noteq> 92)) (Seq (Lit [92]) (Cls dot)))) (w @ 34 # r, cs))"
  (is "_ \<Longrightarrow> _ \<in> set (rx_run s (Star ?body) _)")
proof (induction w rule: qbody.induct)
  case 1
  show ?case unfolding rx_Star by simp
next
  case (2 c)
  have "(34 # r, cs) \<in> set (rx_run s ?body (c # 34 # r, cs))"
    unfolding rx_Alt rx_Cls using 2 by simp
  moreover have "(34 # r, cs) \<in> set (rx_run s (Star ?body) (34 # r, cs))" unfolding rx_Star by simp
  ultimately show ?case using rx_Star_step [of "34 # r" cs s ?body "c # 34 # r"] by simp
next
  case (3 c b q)
  show ?case
  proof (cases "c = 92")
    case True
    have "(q @ 34 # r, cs) \<in> set (rx_run s ?body (92 # b # q @ 34 # r, cs))"
      unfolding rx_Alt rx_Seq rx_Lit rx_Cls using 3 True by simp
    then show ?thesis
      using 3 True rx_Star_step [of "q @ 34 # r" cs s ?body "92 # b # q @ 34 # r"] by simp
  next
    case False
    have "(b # q @ 34 # r, cs) \<in> set (rx_run s ?body (c # b # q @ 34 # r, cs))"
      unfolding rx_Alt rx_Cls using 3 False by simp
    then show ?thesis
      using 3 False rx_Star_step [of "b # q @ 34 # r" cs s ?body "c # b # q @ 34 # r"] by simp
  qed
qed

lemma string_run:
  assumes "qbody w"
  shows "(t, cs) \<in> set (rx_run s string_rx ((34 # w @ [34]) @ t, cs))"
  unfolding string_rx_def seqs.simps lit_def
  by (rule rx_SeqI, rule rx_SeqI [OF _ string_star [OF assms]]) (auto simp: rx_Lit js_unfold)

lemma string_run_shape:
  "(t', cs') \<in> set (rx_run s string_rx (t, cs)) \<Longrightarrow> cs' = cs"
  unfolding string_rx_def seqs.simps lit_def rx_Seq rx_Lit rx_Star
proof -
  have "(rx_round s (Alt (Cls P) (Seq (Lit l) (Cls Q))))\<^sup>*\<^sup>* st st' \<Longrightarrow> snd st' = snd st" for P Q l st st'
    by (induction rule: rtranclp_induct) (auto simp: rx_round_def rx_Alt rx_Seq split_paired_all rx_Cls rx_Lit)
  then show "\<exists>t1 cs1. (t = js [CHR 0x22] @ t1 \<and> cs1 = cs) \<and>
      (\<exists>t2 cs2. (rx_round s (Alt (Cls (\<lambda>c. c \<noteq> 34 \<and> c \<noteq> 92)) (Seq (Lit [92]) (Cls dot))))\<^sup>*\<^sup>* (t1, cs1) (t2, cs2) \<and>
         t2 = js [CHR 0x22] @ t' \<and> cs' = cs2) \<Longrightarrow> cs' = cs"
    by fastforce
qed

subsection \<open>What the other condition expressions match\<close>

lemma header_exists_iff:
  "rx_match (Seq Bol header_exists_rx) x = Some m \<longleftrightarrow>
     (\<exists>w. nm w \<and> x = js ''header(\"'' @ w @ js ''\") != \"\"'' \<and> m = [(1, w)])"
proof -
  have run: "(t, cs) \<in> set (rx_run x header_exists_rx (x, [])) \<longleftrightarrow>
      t = [] \<and> (\<exists>w. nm w \<and> x = js ''header(\"'' @ w @ js ''\") != \"\"'' \<and> cs = [(1, w)])" for t cs
    unfolding header_exists_rx_def time_runs by auto
  show ?thesis by (subst rx_match_iff) (auto simp: run)
qed

lemma param_exists_iff:
  "rx_match (Seq Bol param_exists_rx) x = Some m \<longleftrightarrow>
     (\<exists>w. nm w \<and> x = js ''param(\"'' @ w @ js ''\") != nil'' \<and> m = [(1, w)])"
proof -
  have run: "(t, cs) \<in> set (rx_run x param_exists_rx (x, [])) \<longleftrightarrow>
      t = [] \<and> (\<exists>w. nm w \<and> x = js ''param(\"'' @ w @ js ''\") != nil'' \<and> cs = [(1, w)])" for t cs
    unfolding param_exists_rx_def time_runs by auto
  show ?thesis by (subst rx_match_iff) (auto simp: run)
qed

lemma header_contains_run:
  assumes "(t, cs) \<in> set (rx_run s header_contains_rx (x, []))"
  shows "\<exists>w q. nm w \<and> x = js ''has(header(\"'' @ w @ js ''\"), '' @ q @ js '')'' \<and> cs = [(2, q), (1, w)]"
  using assms unfolding header_contains_rx_def time_runs by (auto dest!: string_run_shape)

lemma header_contains_match:
  assumes "nm w" "qbody b"
  shows "rx_match (Seq Bol header_contains_rx) (js ''has(header(\"'' @ w @ js ''\"), '' @ (34 # b @ [34]) @ js '')'') =
    Some [(2, 34 # b @ [34]), (1, w)]"
proof (rule rx_match_unique [of "[]"])
  show "([], [(2, 34 # b @ [34]), (1, w)])
      \<in> set (rx_run (js ''has(header(\"'' @ w @ js ''\"), '' @ (34 # b @ [34]) @ js '')'') header_contains_rx
             (js ''has(header(\"'' @ w @ js ''\"), '' @ (34 # b @ [34]) @ js '')'', []))"
    unfolding header_contains_rx_def seqs.simps lit_def
    by (rule rx_SeqI [OF _ rx_LitI], rule rx_SeqI [OF _ rx_CapI], rule rx_SeqI [OF _ rx_LitI],
        rule rx_SeqI [OF _ rx_CapI [OF string_run]])
      (use assms in \<open>auto simp: nm_run rx_Seq rx_Lit rx_Eol\<close>)
next
  fix t' cs'
  assume "(t', cs') \<in> set (rx_run (js ''has(header(\"'' @ w @ js ''\"), '' @ (34 # b @ [34]) @ js '')'') header_contains_rx
             (js ''has(header(\"'' @ w @ js ''\"), '' @ (34 # b @ [34]) @ js '')'', []))"
  from header_contains_run [OF this] obtain w' q where *: "nm w'" "cs' = [(2, q), (1, w')]"
    "js ''has(header(\"'' @ w @ js ''\"), '' @ (34 # b @ [34]) @ js '')'' = js ''has(header(\"'' @ w' @ js ''\"), '' @ q @ js '')''"
    by blast
  then have "w' = w \<and> q = 34 # b @ [34]" using assms(1) by (auto simp: js_unfold nm_cut)
  then show "cs' = [(2, 34 # b @ [34]), (1, w)]" using * by simp
qed

lemma param_pair_run:
  "(t, cs) \<in> set (rx_run s param_contains_rx (x, [])) \<Longrightarrow> \<exists>w y. nm w \<and> x = js ''param(\"'' @ w @ js ''\") != nil && '' @ y"
  "(t, cs) \<in> set (rx_run s param_compare_rx (x, [])) \<Longrightarrow> \<exists>w y. nm w \<and> x = js ''param(\"'' @ w @ js ''\") != nil && '' @ y"
  unfolding param_contains_rx_def param_compare_rx_def time_runs by (auto simp: js_unfold)

lemma equals_iff:
  "rx_match (Seq Bol equals_rx) x = Some m \<longleftrightarrow>
     (\<exists>src w v. (src = js ''param'' \<or> src = js ''header'') \<and> nm w \<and> v \<noteq> [] \<and> list_all dot v \<and>
        x = src @ js ''(\"'' @ w @ js ''\") == '' @ v \<and> m = [(3, v), (2, w), (1, src)])"
proof -
  have run: "(t, cs) \<in> set (rx_run x equals_rx (x, [])) \<longleftrightarrow>
      t = [] \<and> (\<exists>src w v. (src = js ''param'' \<or> src = js ''header'') \<and> nm w \<and> v \<noteq> [] \<and> list_all dot v \<and>
        x = src @ js ''(\"'' @ w @ js ''\") == '' @ v \<and> cs = [(3, v), (2, w), (1, src)])" for t cs
    unfolding equals_rx_def time_runs alts.simps rx_Alt rx_Plus_Cls by auto
  show ?thesis by (subst rx_match_iff) (auto simp: run js_unfold nm_cut)
qed

subsection \<open>Literals read back\<close>

definition flat :: "jsstring \<Rightarrow> bool" where
  "flat s \<longleftrightarrow> 40 \<notin> set s \<and> 41 \<notin> set s \<and> 124 \<notin> set s"

definition value_ok :: "jsstring \<Rightarrow> bool" where
  "value_ok v \<longleftrightarrow> trimmed v \<and> str_ok v \<and> flat v \<and> 8232 \<notin> set v \<and> 8233 \<notin> set v"

text \<open>What the later steps need of the text of a literal with value \<open>v\<close>.\<close>

definition literal_for :: "jsstring \<Rightarrow> jsstring \<Rightarrow> bool" where
  "literal_for v l \<longleftrightarrow> l \<noteq> [] \<and> trimmed l \<and> flat l \<and> list_all dot l \<and> (\<forall>d\<ge>0. and_pass d (32 # l)) \<and>
     (\<exists>j. parseExprLiteral l = Some j \<and> \<not> str_throws j \<and> to_str j = v)"

lemma json_quote_body: "str_ok v \<Longrightarrow> json_quote v = 34 # quote_units v @ [34] \<and> qbody (quote_units v)"
  using quote_units_body [of v] by (simp add: json_quote_def)

lemma json_quote_unit: "str_ok v \<Longrightarrow> c \<in> set (json_quote v) \<Longrightarrow> escape_unit c \<or> c \<in> set v \<and> 32 \<le> c"
  using quote_units_body [of v] by (auto simp: json_quote_def escape_unit_def)

lemma escape_unit_plain: "escape_unit c \<Longrightarrow> c \<notin> {40, 41, 124, 8232, 8233, 10, 13}"
  by (auto simp: escape_unit_def hex_like_def is_digit_def)

lemma json_parse_quote: "str_ok v \<Longrightarrow> json_parse (json_quote v) = Some (JStr v)"
  using json_round_trip [of "JStr v"] by (simp add: json_stringify_def)

lemma quote_flat: "str_ok v \<Longrightarrow> flat v \<Longrightarrow> flat (json_quote v)"
  using json_quote_unit [of v] escape_unit_plain by (fastforce simp: flat_def)

lemma json_quote_trimmed: "trimmed (json_quote v)"
  by (simp add: json_quote_def trimmed_def is_ws_def)

lemma quoted_literal:
  assumes "value_ok v"
  shows "literal_for v (json_quote v)"
proof -
  have v: "str_ok v" "flat v" using assms by (simp_all add: value_ok_def)
  have "dot c" if "c \<in> set (json_quote v)" for c
    using json_quote_unit [OF v(1) that] escape_unit_plain [of c] assms by (auto simp: value_ok_def dot_def)
  then have dots: "list_all dot (json_quote v)" by (simp add: list_all_iff)
  have pass: "and_pass d (32 # json_quote v)" if "0 \<le> d" for d
    using json_quote_body [OF v(1)] and_pass_space_string that by simp
  have "json_quote v \<noteq> js ''true''" "json_quote v \<noteq> js ''false''" by (simp_all add: json_quote_def js_unfold)
  moreover have "\<not> rx_test NUMERIC_LITERAL_REGEX (json_quote v)"
    using numeric_nu nu_no by (fastforce simp: json_quote_def)
  ultimately have "parseExprLiteral (json_quote v) = Some (JStr v)"
    by (simp add: parseExprLiteral_def Let_def trim_id json_quote_trimmed json_parse_quote v)
  then show ?thesis
    using dots pass quote_flat [OF v] json_quote_trimmed by (simp add: literal_for_def json_quote_def)
qed

lemma keyword_literal: "v = js ''true'' \<or> v = js ''false'' \<Longrightarrow> literal_for v v"
proof -
  assume v: "v = js ''true'' \<or> v = js ''false''"
  then have "and_ok (32 # v)" by (auto simp: js_unfold)
  moreover have "trimmed v" using v by (auto simp: js_unfold trimmed_def is_ws_def)
  moreover have "flat v" "list_all dot v" using v by (auto simp: js_unfold flat_def dot_def)
  ultimately show ?thesis
    using v by (auto simp: literal_for_def and_ok_pass parseExprLiteral_def trim_id)
qed

lemma nu_and_ok: "nu v \<Longrightarrow> and_ok (32 # v)"
proof -
  have "list_all num_unit v \<Longrightarrow> v \<noteq> [] \<Longrightarrow> and_ok v" for v
    by (induction v rule: and_ok.induct) (auto simp: num_unit_def is_digit_def)
  then show "nu v \<Longrightarrow> and_ok (32 # v)"
    by (cases v) (auto simp: nu_def num_unit_def is_digit_def)
qed

lemma nu_flat: "nu v \<Longrightarrow> flat v"
  by (auto simp: nu_def flat_def list_all_iff num_unit_def is_digit_def)

lemma numeric_literal:
  assumes "rx_test NUMERIC_LITERAL_REGEX v"
  shows "literal_for v v"
proof -
  have n: "nu v" using assms by (rule numeric_nu)
  then have "list_all dot v" by (auto simp: nu_def list_all_iff num_unit_def dot_def is_digit_def)
  then show ?thesis
    using n assms nu_trimmed nu_flat nu_and_ok and_ok_pass
    by (auto simp: literal_for_def nu_def parseExprLiteral_def Let_def trim_id)
qed

lemma build_literal: "value_ok v \<Longrightarrow> literal_for v (buildExprLiteral MATCH_EQ v)"
  using quoted_literal [of v] keyword_literal [of v] numeric_literal [of v]
  by (auto simp: buildExprLiteral_def Let_def trim_id value_ok_def match_defs)

end
