(* ===== verification/BillingRoundTrip.thy ===== *)
theory BillingRoundTrip
  imports BillingRules
begin

text \<open>
  Round trips of the request rules: groups of conditions that the editor builds into text and
  parses back, and the separation of a combined expression into base and rules.

  \<open>cond_ok\<close> names the conditions that survive: time conditions with bounds in their domain, and
  existence, equality and, for headers, containment with texts that the quoting and the cutting of
  the parser leave alone. \<open>pieces\<close> are the parts into which the parser cuts a condition: a range
  within a day is cut in two and put together again.
\<close>

subsection \<open>Conditions that survive\<close>

definition time_ok :: "time_condition \<Rightarrow> bool" where
  "time_ok c \<longleftrightarrow>
     timezone c \<noteq> [] \<and> plain (timezone c) \<and> flat (timezone c) \<and>
     (if t_mode c = MATCH_RANGE
      then t_value c = [] \<and> isTimeValueInRange (timeFunc c) (rangeStart c) \<and> isTimeValueInRange (timeFunc c) (rangeEnd c)
      else t_mode c \<in> {MATCH_EQ, MATCH_GTE, MATCH_LT} \<and> isTimeValueInRange (timeFunc c) (t_value c) \<and>
           rangeStart c = [] \<and> rangeEnd c = [])"

definition ph_ok :: "ph_condition \<Rightarrow> bool" where
  "ph_ok c \<longleftrightarrow>
     path c \<noteq> [] \<and> trimmed (path c) \<and> plain (path c) \<and> flat (path c) \<and>
     (if ph_mode c = MATCH_EXISTS then ph_value c = []
      else value_ok (ph_value c) \<and> (ph_mode c = MATCH_EQ \<or> ph_mode c = MATCH_CONTAINS \<and> ph_source c = Header))"

fun cond_ok :: "request_condition \<Rightarrow> bool" where
  "cond_ok (TimeCond c) = time_ok c"
| "cond_ok (PHCond c) = ph_ok c"

lemma time_ok_cases:
  assumes "time_ok c"
  obtains (range) f tz a b where "c = range_cond f tz a b" "zone_ok tz" "plain tz" "flat tz"
      "isTimeValueInRange f a" "isTimeValueInRange f b"
  | (scalar) f tz op v where "c = scalar_cond f tz (time_op op) v" "zone_ok tz" "plain tz" "flat tz"
      "isTimeValueInRange f v" "scalar_op op"
proof (cases "t_mode c = MATCH_RANGE")
  case True
  then show thesis
    using assms range [of "timeFunc c" "timezone c" "rangeStart c" "rangeEnd c"]
    by (auto simp: time_ok_def range_cond_def zone_ok_def nm_def plain_def)
next
  case False
  let ?op = "if t_mode c = MATCH_EQ then js ''=='' else if t_mode c = MATCH_GTE then js ''>='' else js ''<''"
  have "t_mode c \<in> {MATCH_EQ, MATCH_GTE, MATCH_LT}" using assms False by (simp add: time_ok_def)
  then have "time_op ?op = t_mode c" "scalar_op ?op"
    by (auto simp: time_op_def or_str_def scalar_op_def match_defs)
  then show thesis
    using assms False scalar [of "timeFunc c" "timezone c" ?op "t_value c"]
    by (auto simp: time_ok_def scalar_cond_def zone_ok_def nm_def plain_def)
qed

subsection \<open>The texts of header and parameter conditions\<close>

fun src_name :: "cond_source \<Rightarrow> jsstring" where
  "src_name Header = js ''header''"
| "src_name Param = js ''param''"

definition ph_text :: "ph_condition \<Rightarrow> jsstring" where
  "ph_text c =
     (let src = src_name (ph_source c) @ js ''(\"'' @ path c @ js ''\")'' in
      if ph_mode c = MATCH_EXISTS then src @ (if ph_source c = Header then js '' != \"\"'' else js '' != nil'')
      else if ph_mode c = MATCH_CONTAINS then js ''has('' @ src @ js '', '' @ json_quote (ph_value c) @ js '')''
      else src @ js '' == '' @ buildExprLiteral MATCH_EQ (ph_value c))"

lemma normalize_ph:
  assumes "path c \<noteq> []"
    "ph_mode c \<in> {MATCH_EQ, MATCH_CONTAINS, MATCH_EXISTS} \<or>
     ph_source c = Param \<and> ph_mode c \<in> {MATCH_GT, MATCH_GTE, MATCH_LT, MATCH_LTE}"
  shows "normalizeCondition (Some (as_partial (PHCond c))) = PHCond c"
  using assms
  by (cases "ph_source c")
    (auto simp: normalizeCondition_def Let_def or_str_def or_empty_def known_mode_def
      getRequestRuleMatchOptions_def match_opt_def match_defs)

lemma build_ph:
  assumes "ph_ok c"
  shows "buildRequestConditionExpr (PHCond c) = ph_text c"
proof -
  have n: "normalizeCondition (Some (as_partial (PHCond c))) = PHCond c"
    using assms by (intro normalize_ph) (auto simp: ph_ok_def split: if_splits)
  have p: "trim (path c) = path c" "json_quote (path c) = 34 # path c @ [34]" "path c \<noteq> []"
    using assms by (simp_all add: ph_ok_def trim_id json_quote_plain)
  have "ph_mode c \<in> {MATCH_EXISTS, MATCH_EQ} \<or> ph_mode c = MATCH_CONTAINS \<and> ph_source c = Header \<and> value_ok (ph_value c)"
    using assms by (auto simp: ph_ok_def split: if_splits)
  then show ?thesis
    unfolding buildRequestConditionExpr_def request_condition.case n the_ph.simps p
    by (cases "ph_source c")
      (auto simp: ph_text_def p js_unfold match_defs Let_def buildExprLiteral_def value_ok_def trim_id)
qed

subsection \<open>Conditions parse back\<close>

lemma time_starts:
  "tryParseTimeCondition x = Some c \<Longrightarrow> (\<exists>f y. x = fn_name f @ 40 # y) \<or> (\<exists>y. x = 40 # y)"
  unfolding parse_time_iff range_accepted_def scalar_accepted_def range_text_def scalar_text_def
  by (auto simp: js_unfold)

lemma not_time_start:
  "(\<And>f y. x \<noteq> fn_name f @ 40 # y) \<Longrightarrow> (\<And>y. x \<noteq> 40 # y) \<Longrightarrow> tryParseTimeCondition x = None"
  using time_starts by (metis not_Some_eq)

lemma not_time: "tryParseTimeCondition (src_name s @ 40 # y) = None" "tryParseTimeCondition (js ''has'' @ 40 # y) = None"
proof -
  have "src_name s @ 40 # y \<noteq> fn_name f @ 40 # z" for f z
    by (cases s; cases f) (simp_all add: js_unfold)
  moreover have "src_name s @ 40 # y \<noteq> 40 # z" for z by (cases s) (simp_all add: js_unfold)
  ultimately show "tryParseTimeCondition (src_name s @ 40 # y) = None" by (rule not_time_start)
  show "tryParseTimeCondition (js ''has'' @ 40 # y) = None"
  proof (rule not_time_start)
    show "js ''has'' @ 40 # y \<noteq> fn_name f @ 40 # z" for f z
      by (cases f) (simp_all add: js_unfold)
    show "js ''has'' @ 40 # y \<noteq> 40 # z" for z by (simp add: js_unfold)
  qed
qed

lemma not_Some_None: "(\<And>m. x \<noteq> Some m) \<Longrightarrow> x = None"
  by (cases x) auto

lemma ph_path: "ph_ok c \<Longrightarrow> nm (path c)"
  by (auto simp: ph_ok_def nm_def plain_def)

lemma parse_exists:
  assumes "nm p"
  shows "tryParseRequestCondition (js ''header(\"'' @ p @ js ''\") != \"\"'') = Val (Some (ph_cond Header p MATCH_EXISTS []))"
    and "tryParseRequestCondition (js ''param(\"'' @ p @ js ''\") != nil'') = Val (Some (ph_cond Param p MATCH_EXISTS []))"
proof -
  have t: "tryParseTimeCondition (js ''header(\"'' @ p @ js ''\") != \"\"'') = None"
    "tryParseTimeCondition (js ''param(\"'' @ p @ js ''\") != nil'') = None"
    using not_time(1) [of Header] not_time(1) [of Param] by (simp_all add: js_unfold)
  have h: "rx_match (Seq Bol header_exists_rx) (js ''header(\"'' @ p @ js ''\") != \"\"'') = Some [(1, p)]"
    unfolding header_exists_iff using assms by blast
  show "tryParseRequestCondition (js ''header(\"'' @ p @ js ''\") != \"\"'') = Val (Some (ph_cond Header p MATCH_EXISTS []))"
    unfolding tryParseRequestCondition_def t h by (simp add: grp_def)
  have h': "rx_match (Seq Bol header_exists_rx) (js ''param(\"'' @ p @ js ''\") != nil'') = None"
    by (rule not_Some_None) (auto simp: header_exists_iff js_unfold)
  have q: "rx_match (Seq Bol param_exists_rx) (js ''param(\"'' @ p @ js ''\") != nil'') = Some [(1, p)]"
    unfolding param_exists_iff using assms by blast
  show "tryParseRequestCondition (js ''param(\"'' @ p @ js ''\") != nil'') = Val (Some (ph_cond Param p MATCH_EXISTS []))"
    unfolding tryParseRequestCondition_def t h' q by (simp add: grp_def)
qed

lemma parse_contains:
  assumes "nm p" "str_ok v"
  shows "tryParseRequestCondition (js ''has(header(\"'' @ p @ js ''\"), '' @ json_quote v @ js '')'') =
    Val (Some (ph_cond Header p MATCH_CONTAINS v))"
proof -
  let ?x = "js ''has(header(\"'' @ p @ js ''\"), '' @ json_quote v @ js '')''"
  have t: "tryParseTimeCondition ?x = None" using not_time(2) by (simp add: js_unfold)
  have e: "rx_match (Seq Bol header_exists_rx) ?x = None" "rx_match (Seq Bol param_exists_rx) ?x = None"
    by (rule not_Some_None, simp add: header_exists_iff param_exists_iff js_unfold)+
  have m: "rx_match (Seq Bol header_contains_rx) ?x = Some [(2, json_quote v), (1, p)]"
    using header_contains_match [OF assms(1), of "quote_units v"] json_quote_body [OF assms(2)] by simp
  show ?thesis
    unfolding tryParseRequestCondition_def t e m
    by (simp add: grp_def json_or_throw_def json_parse_quote [OF assms(2)])
qed

lemma parse_eq:
  assumes "nm p" "literal_for v l"
  shows "tryParseRequestCondition (src_name s @ js ''(\"'' @ p @ js ''\") == '' @ l) =
    Val (Some (ph_cond s p MATCH_EQ v))"
proof -
  let ?x = "src_name s @ js ''(\"'' @ p @ js ''\") == '' @ l"
  have t: "tryParseTimeCondition ?x = None" using not_time(1) [of s] by (simp add: js_unfold)
  have e: "rx_match (Seq Bol header_exists_rx) ?x = None" "rx_match (Seq Bol param_exists_rx) ?x = None"
    by (rule not_Some_None, cases s, auto simp: header_exists_iff param_exists_iff js_unfold nm_cut assms(1))+
  have c: "rx_match (Seq Bol header_contains_rx) ?x = None"
    unfolding rx_match_None using header_contains_run by (cases s) (fastforce simp: js_unfold)+
  have pp: "rx_match (Seq Bol param_contains_rx) ?x = None" "rx_match (Seq Bol param_compare_rx) ?x = None"
    unfolding rx_match_None
    by (cases s; fastforce dest: param_pair_run simp: js_unfold nm_cut assms(1))+
  have "src_name s = js ''param'' \<or> src_name s = js ''header''" by (cases s) auto
  then have "rx_match (Seq Bol equals_rx) ?x = Some [(3, l), (2, p), (1, src_name s)]"
    unfolding equals_iff using assms by (auto simp: literal_for_def)
  moreover obtain j where "parseExprLiteral l = Some j" "\<not> str_throws j" "to_str j = v" using assms(2) by (auto simp: literal_for_def)
  ultimately have "parse_equals ?x = Val (Some (ph_cond s p MATCH_EQ v))"
    unfolding parse_equals_def by (cases s) (simp_all add: grp_def)
  then show ?thesis unfolding tryParseRequestCondition_def t e c pp by simp
qed

lemma parse_ph:
  assumes "ph_ok c"
  shows "tryParseRequestCondition (ph_text c) = Val (Some (PHCond c))"
proof -
  note p = ph_path [OF assms]
  consider "ph_mode c = MATCH_EXISTS" "ph_value c = []"
    | "ph_mode c = MATCH_EQ" "value_ok (ph_value c)"
    | "ph_mode c = MATCH_CONTAINS" "ph_source c = Header" "value_ok (ph_value c)"
    using assms by (auto simp: ph_ok_def split: if_splits)
  then show ?thesis
  proof cases
    case 1
    then show ?thesis using parse_exists [OF p]
      by (cases "ph_source c") (auto simp: ph_text_def js_unfold ph_cond_def)
  next
    case 2
    then show ?thesis using parse_eq [OF p build_literal [OF 2(2)]]
      by (auto simp: ph_text_def js_unfold ph_cond_def match_defs)
  next
    case 3
    then have "str_ok (ph_value c)" by (simp add: value_ok_def)
    then show ?thesis using parse_contains [OF p] 3
      by (auto simp: ph_text_def js_unfold ph_cond_def match_defs)
  qed
qed

subsection \<open>Pieces of a condition\<close>

definition or_range :: "time_condition \<Rightarrow> bool" where
  "or_range c \<longleftrightarrow> num_lt (str_to_num (rangeEnd c)) (str_to_num (rangeStart c))"

fun pieces :: "request_condition \<Rightarrow> jsstring list" where
  "pieces (TimeCond c) =
     (if t_mode c \<noteq> MATCH_RANGE then [buildTimeConditionExpr c]
      else if or_range c then [js ''('' @ buildTimeConditionExpr c @ js '')'']
      else [scalar_text (timeFunc c) (timezone c) (js ''>='') (rangeStart c),
            scalar_text (timeFunc c) (timezone c) (js ''<'') (rangeEnd c)])"
| "pieces (PHCond c) = [ph_text c]"

definition piece_ok :: "jsstring \<Rightarrow> bool" where
  "piece_ok p \<longleftrightarrow> and_pass 0 p \<and> trimmed p \<and> balanced p \<and> p \<noteq> []"

lemma and_pass_inner_list: "0 < d \<Longrightarrow> 34 \<notin> set w \<Longrightarrow> 40 \<notin> set w \<Longrightarrow> 41 \<notin> set w \<Longrightarrow> and_pass d w"
proof (induction w)
  case (Cons c w)
  then show ?case using and_pass_append [OF and_pass_inner [of d c]] by fastforce
qed (simp add: and_pass_def)

lemma and_pass_call: "and_ok n \<Longrightarrow> qbody w \<Longrightarrow> 0 \<le> d \<Longrightarrow> and_pass d (n @ 40 # 34 # w @ [34, 41])"
  using and_pass_append [OF and_ok_pass and_pass_paren [OF and_pass_string]] by fastforce

lemma balanced_call: "flat n \<Longrightarrow> flat w \<Longrightarrow> balanced (n @ 40 # 34 # w @ [34, 41])"
  using balanced_append [OF balanced_flat balanced_paren [OF balanced_flat [of "34 # w @ [34]"]]]
  by (auto simp: flat_def)

lemma fn_name_ok: "and_ok (fn_name f) \<and> flat (fn_name f) \<and> fn_name f \<noteq> [] \<and> \<not> is_ws (hd (fn_name f @ x))"
  by (cases f) (simp_all add: js_unfold flat_def is_ws_def)

lemma zone_body: "zone_ok tz \<Longrightarrow> qbody tz"
  by (simp add: zone_ok_def nm_def qbody_plain)

lemma call_pass:
  "zone_ok tz \<Longrightarrow> 0 \<le> d \<Longrightarrow> and_pass d (fn_name f @ js ''(\"'' @ tz @ js ''\")'')"
  using and_pass_call [of "fn_name f" tz d] fn_name_ok zone_body by (simp add: js_unfold)

lemma scalar_pass:
  assumes "zone_ok tz" "scalar_op op" "nu v"
  shows "and_pass 0 (scalar_text f tz op v)"
proof -
  have "and_ok (32 # op)" "op \<noteq> []" using assms(2) by (auto simp: scalar_op_def js_unfold)
  then have "and_pass 0 ((fn_name f @ js ''(\"'' @ tz @ js ''\")'') @ (32 # op) @ (32 # v))"
    by (intro and_pass_append [OF call_pass [OF assms(1)] and_pass_append] and_ok_pass)
      (use nu_and_ok [OF assms(3)] in simp_all)
  then show ?thesis by (simp add: scalar_text_def js_unfold)
qed

lemma nu_last: "nu v \<Longrightarrow> v \<noteq> [] \<and> \<not> is_ws (last v)"
  using nu_trimmed [of v] by (auto simp: trimmed_def nu_def)

lemma scalar_piece:
  assumes "zone_ok tz" "flat tz" "scalar_op op" "nu v"
  shows "piece_ok (scalar_text f tz op v)"
proof -
  have "flat (32 # op @ 32 # v)" using assms nu_flat by (auto simp: flat_def scalar_op_def js_unfold)
  then have "balanced ((fn_name f @ 40 # 34 # tz @ [34, 41]) @ (32 # op @ 32 # v))"
    using assms fn_name_ok by (intro balanced_append balanced_call) (auto simp: balanced_flat flat_def)
  then have "balanced (scalar_text f tz op v)" by (simp add: scalar_text_def js_unfold)
  moreover have "trimmed (scalar_text f tz op v) \<and> scalar_text f tz op v \<noteq> []"
    using nu_last [OF assms(4)] fn_name_ok [of f "[]"] by (simp add: scalar_text_def trimmed_def)
  ultimately show ?thesis using scalar_pass assms by (simp add: piece_ok_def)
qed

lemma range_balanced:
  assumes "flat tz" "nu a" "nu b" "and_or op"
  shows "balanced (range_text f tz a op b)"
proof -
  have s: "40 \<notin> set (js '' >= '' @ a @ js '' '' @ op @ js '' '')" "41 \<notin> set (js '' >= '' @ a @ js '' '' @ op @ js '' '')"
    "40 \<notin> set (js '' < '' @ b)" "41 \<notin> set (js '' < '' @ b)"
    using nu_flat [OF assms(2)] nu_flat [OF assms(3)] assms(4) by (auto simp: flat_def and_or_def js_unfold)
  have "balanced ((fn_name f @ 40 # 34 # tz @ [34, 41]) @ (js '' >= '' @ a @ js '' '' @ op @ js '' '') @
      (fn_name f @ 40 # 34 # tz @ [34, 41]) @ (js '' < '' @ b))"
    using assms fn_name_ok by (intro balanced_append balanced_call balanced_flat s) auto
  then show ?thesis by (simp add: range_text_def js_unfold)
qed

lemma or_range_pass:
  assumes "zone_ok tz" "nu a" "nu b" "and_or op"
  shows "and_pass 0 (js ''('' @ range_text f tz a op b @ js '')'')"
proof -
  have u: "34 \<notin> set (js '' >= '' @ a @ js '' '' @ op @ js '' '')" "40 \<notin> set (js '' >= '' @ a @ js '' '' @ op @ js '' '')"
    "41 \<notin> set (js '' >= '' @ a @ js '' '' @ op @ js '' '')" "34 \<notin> set (js '' < '' @ b)" "40 \<notin> set (js '' < '' @ b)"
    "41 \<notin> set (js '' < '' @ b)"
    using nu_no [OF assms(2)] nu_no [OF assms(3)] assms(4) by (auto simp: and_or_def js_unfold)
  have "and_pass 1 ((fn_name f @ js ''(\"'' @ tz @ js ''\")'') @ (js '' >= '' @ a @ js '' '' @ op @ js '' '') @
      (fn_name f @ js ''(\"'' @ tz @ js ''\")'') @ (js '' < '' @ b))"
    by (intro and_pass_append call_pass assms and_pass_inner_list u) auto
  then have "and_pass 1 (range_text f tz a op b)" by (simp add: range_text_def js_unfold)
  then show ?thesis using and_pass_paren [of 0 "range_text f tz a op b"] by (simp add: js_unfold)
qed

lemma or_range_piece:
  assumes "zone_ok tz" "flat tz" "nu a" "nu b" "and_or op"
  shows "piece_ok (js ''('' @ range_text f tz a op b @ js '')'')"
proof -
  have "and_pass 0 (40 # range_text f tz a op b @ [41])"
    using or_range_pass [OF assms(1,3,4,5)] by (simp add: js_unfold)
  moreover have "balanced (40 # range_text f tz a op b @ [41])" using assms by (intro balanced_paren range_balanced)
  ultimately show ?thesis by (simp add: piece_ok_def trimmed_def is_ws_def js_unfold)
qed

lemma ph_call_pass:
  assumes "ph_ok c"
  shows "0 \<le> d \<Longrightarrow> and_pass d (src_name (ph_source c) @ 40 # 34 # path c @ [34, 41])"
    and "balanced (src_name (ph_source c) @ 40 # 34 # path c @ [34, 41])"
proof -
  have "qbody (path c)" "flat (path c)"
    using assms by (auto simp: ph_ok_def plain_def intro!: qbody_plain)
  moreover have "and_ok (src_name s) \<and> flat (src_name s)" for s by (cases s) (simp_all add: js_unfold flat_def)
  ultimately show "0 \<le> d \<Longrightarrow> and_pass d (src_name (ph_source c) @ 40 # 34 # path c @ [34, 41])"
    and "balanced (src_name (ph_source c) @ 40 # 34 # path c @ [34, 41])"
    by (simp_all add: and_pass_call balanced_call)
qed

lemma has_piece:
  assumes "and_pass 1 call" "balanced call" "value_ok v"
  shows "piece_ok (js ''has('' @ call @ js '', '' @ json_quote v @ js '')'')"
proof -
  have q: "flat (json_quote v)" "str_ok v" using assms(3) by (simp_all add: value_ok_def quote_flat)
  have "and_pass 1 (32 # json_quote v)"
    using and_pass_space_string [of "quote_units v" 1] json_quote_body [OF q(2)] by simp
  then have "and_pass 1 (call @ [44] @ 32 # json_quote v)"
    using and_pass_append [OF assms(1) and_pass_append [OF and_pass_inner]] by simp
  then have "and_pass 0 (js ''has'' @ 40 # (call @ [44] @ 32 # json_quote v) @ [41])"
    using and_pass_append [OF and_ok_pass [of "js ''has''" 0] and_pass_paren [of 0 "call @ [44] @ 32 # json_quote v"]]
    by (simp add: js_unfold)
  moreover have "balanced (call @ ([44] @ 32 # json_quote v))"
    using q(1) by (intro balanced_append [OF assms(2) balanced_flat]) (auto simp: flat_def)
  then have "balanced (js ''has'' @ 40 # (call @ ([44] @ 32 # json_quote v)) @ [41])"
    by (intro balanced_append [OF balanced_flat balanced_paren]) (auto simp: js_unfold)
  ultimately show ?thesis by (simp add: piece_ok_def trimmed_def is_ws_def js_unfold)
qed

lemma ph_piece:
  assumes "ph_ok c"
  shows "piece_ok (ph_text c) \<and> 124 \<notin> set (ph_text c)"
proof -
  define call where "call = src_name (ph_source c) @ 40 # 34 # path c @ [34, 41]"
  have call: "0 \<le> d \<Longrightarrow> and_pass d call" "balanced call" for d
    using ph_call_pass [OF assms] by (simp_all add: call_def)
  have src: "\<not> is_ws (hd (src_name s)) \<and> src_name s \<noteq> [] \<and> 124 \<notin> set (src_name s)" for s
    by (cases s) (simp_all add: js_unfold is_ws_def)
  have no: "124 \<notin> set call" using src assms by (auto simp: call_def ph_ok_def flat_def)
  have hd: "\<not> is_ws (hd call)" "call \<noteq> []" using src [of "ph_source c"] by (simp_all add: call_def)
  consider (ex) "ph_mode c = MATCH_EXISTS" | (eq) "ph_mode c = MATCH_EQ" "value_ok (ph_value c)"
    | (has) "ph_mode c = MATCH_CONTAINS" "value_ok (ph_value c)"
    using assms by (auto simp: ph_ok_def split: if_splits)
  then show ?thesis
  proof cases
    case ex
    define tail where "tail = (if ph_source c = Header then js '' != \"\"'' else js '' != nil'')"
    have "and_pass 0 (js '' !='' @ 32 # 34 # [] @ [34])"
      by (intro and_pass_append and_pass_space_string and_ok_pass) (simp_all add: js_unfold)
    moreover have "and_pass 0 (js '' != nil'')" by (rule and_ok_pass) (simp_all add: js_unfold)
    ultimately have "and_pass 0 tail" by (simp add: tail_def js_unfold)
    moreover have "balanced tail" "124 \<notin> set tail" "tail \<noteq> []" "\<not> is_ws (last tail)"
      by (auto simp: tail_def js_unfold is_ws_def)
    ultimately have "piece_ok (call @ tail) \<and> 124 \<notin> set (call @ tail)"
      using call hd no by (auto simp: piece_ok_def trimmed_def intro!: and_pass_append balanced_append)
    then show ?thesis using ex by (simp add: ph_text_def tail_def call_def js_unfold)
  next
    case eq
    define l where "l = buildExprLiteral MATCH_EQ (ph_value c)"
    have l: "l \<noteq> []" "trimmed l" "flat l" "and_pass 0 (32 # l)"
      using build_literal [OF eq(2)] by (simp_all add: literal_for_def l_def)
    have "and_pass 0 (call @ js '' =='' @ 32 # l)"
      using call(1) [of 0] l(4) and_ok_pass [of "js '' ==''" 0] by (intro and_pass_append) (simp_all add: js_unfold)
    moreover have "balanced (call @ (js '' == '' @ l))"
      using l(3) by (intro balanced_append [OF call(2) balanced_flat]) (auto simp: js_unfold flat_def)
    ultimately have "piece_ok (call @ js '' == '' @ l) \<and> 124 \<notin> set (call @ js '' == '' @ l)"
      using hd no l by (auto simp: piece_ok_def trimmed_def js_unfold flat_def)
    then show ?thesis using eq by (simp add: ph_text_def l_def call_def js_unfold match_defs)
  next
    case has
    have "piece_ok (js ''has('' @ call @ js '', '' @ json_quote (ph_value c) @ js '')'')"
      using has_piece [OF call(1) call(2) has(2)] by simp
    moreover have "flat (json_quote (ph_value c))" using has(2) by (simp add: value_ok_def quote_flat)
    ultimately show ?thesis using has no by (simp add: ph_text_def call_def js_unfold match_defs flat_def)
  qed
qed

lemma scalar_range_split:
  "range_text f tz a (js ''&&'') b =
     scalar_text f tz (js ''>='') a @ js '' && '' @ scalar_text f tz (js ''<'') b"
  by (simp add: range_text_def scalar_text_def js_unfold)

lemma range_cond_simps [simp]:
  "timeFunc (range_cond f tz a b) = f" "timezone (range_cond f tz a b) = tz" "t_mode (range_cond f tz a b) = MATCH_RANGE"
  "rangeStart (range_cond f tz a b) = a" "rangeEnd (range_cond f tz a b) = b"
  by (simp_all add: range_cond_def)

lemma scalar_cond_simps [simp]:
  "timeFunc (scalar_cond f tz m v) = f" "timezone (scalar_cond f tz m v) = tz" "t_mode (scalar_cond f tz m v) = m"
  "t_value (scalar_cond f tz m v) = v"
  by (simp_all add: scalar_cond_def)

lemma time_op_not_range: "scalar_op op \<Longrightarrow> time_op op \<noteq> MATCH_RANGE"
  using time_op_cases [of op] by (auto simp: match_defs)

lemma scalar_op_lits [simp]: "scalar_op (js ''=='')" "scalar_op (js ''>='')" "scalar_op (js ''<'')"
  by (simp_all add: scalar_op_def)

text \<open>The pieces of a time condition, case by case.\<close>

lemma time_pieces:
  assumes "time_ok c"
  obtains (scalar) f tz op v where "c = scalar_cond f tz (time_op op) v" "zone_ok tz" "flat tz"
      "isTimeValueInRange f v" "scalar_op op" "buildTimeConditionExpr c = scalar_text f tz op v"
      "pieces (TimeCond c) = [scalar_text f tz op v]"
  | (overnight) f tz a b where "c = range_cond f tz a b" "zone_ok tz" "flat tz" "isTimeValueInRange f a"
      "isTimeValueInRange f b" "range_op a b = js ''||''"
      "buildTimeConditionExpr c = range_text f tz a (js ''||'') b"
      "pieces (TimeCond c) = [js ''('' @ range_text f tz a (js ''||'') b @ js '')'']"
  | (daytime) f tz a b where "c = range_cond f tz a b" "zone_ok tz" "flat tz" "isTimeValueInRange f a"
      "isTimeValueInRange f b" "range_op a b = js ''&&''" "\<not> num_lt (str_to_num b) (str_to_num a)"
      "buildTimeConditionExpr c = range_text f tz a (js ''&&'') b"
      "pieces (TimeCond c) = [scalar_text f tz (js ''>='') a, scalar_text f tz (js ''<'') b]"
  using assms
proof (cases rule: time_ok_cases)
  case (range f tz a b)
  note built = build_range [OF range(2,3,5,6)]
  show thesis
  proof (cases "num_lt (str_to_num b) (str_to_num a)")
    case True
    then show thesis using overnight [of f tz a b] range built by (simp add: range_op_def or_range_def)
  next
    case False
    then show thesis using daytime [of f tz a b] range built by (simp add: range_op_def or_range_def)
  qed
next
  case (scalar f tz op v)
  note built = build_scalar [OF scalar(2,3,5,6)]
  show thesis
    using that(1) [of f tz op v] scalar built time_op_not_range [OF scalar(6)] by simp
qed

lemma pieces_ok:
  assumes "cond_ok c"
  shows "pieces c \<noteq> [] \<and> (\<forall>p\<in>set (pieces c). piece_ok p)"
proof (cases c)
  case (TimeCond tc)
  then have "time_ok tc" using assms by simp
  then show ?thesis
    by (cases rule: time_pieces)
      (auto simp: TimeCond and_or_def simp del: pieces.simps intro!: scalar_piece or_range_piece inr_nu)
next
  case (PHCond pc)
  then show ?thesis using assms ph_piece by simp
qed

definition item_text :: "jsstring \<Rightarrow> jsstring" where
  "item_text e = (if str_includes e (js '' || '') then js ''('' @ e @ js '')'' else e)"

lemma no_bar_item: "124 \<notin> set e \<Longrightarrow> item_text e = e"
  by (auto simp: item_text_def str_includes_iff sublist_def js_unfold)

lemma scalar_no_bar: "flat tz \<Longrightarrow> nu v \<Longrightarrow> scalar_op op \<Longrightarrow> 124 \<notin> set (scalar_text f tz op v)"
  using fn_name_ok [of f "[]"] nu_flat [of v] by (auto simp: scalar_text_def flat_def scalar_op_def js_unfold)

lemma item_join:
  assumes "cond_ok c"
  shows "item_text (buildRequestConditionExpr c) = join (js '' && '') (pieces c)"
proof (cases c)
  case (TimeCond tc)
  then have e: "buildRequestConditionExpr c = buildTimeConditionExpr tc" by (simp add: buildRequestConditionExpr_def)
  have "time_ok tc" using assms TimeCond by simp
  then show ?thesis
  proof (cases rule: time_pieces)
    case (scalar f tz op v)
    then show ?thesis using no_bar_item scalar_no_bar inr_nu unfolding e by (simp add: TimeCond del: pieces.simps)
  next
    case (overnight f tz a b)
    have "str_includes (range_text f tz a (js ''||'') b) (js '' || '')"
      unfolding str_includes_iff sublist_def range_text_def
      by (rule exI [of _ "fn_name f @ js ''(\"'' @ tz @ js ''\") >= '' @ a"]) (simp add: js_unfold)
    then show ?thesis using overnight unfolding e by (simp add: TimeCond item_text_def del: pieces.simps)
  next
    case (daytime f tz a b)
    have "124 \<notin> set (range_text f tz a (js ''&&'') b)"
      unfolding scalar_range_split
      using scalar_no_bar [OF daytime(3) inr_nu [OF daytime(4)] scalar_op_lits(2)]
        scalar_no_bar [OF daytime(3) inr_nu [OF daytime(5)] scalar_op_lits(3)]
      by (simp add: js_unfold)
    then show ?thesis
      using daytime no_bar_item unfolding e by (simp add: TimeCond scalar_range_split del: pieces.simps)
  qed
next
  case (PHCond pc)
  then show ?thesis using assms ph_piece [of pc] no_bar_item build_ph by simp
qed

subsection \<open>A list of pieces parses back\<close>

lemma parse_scalar:
  "zone_ok tz \<Longrightarrow> isTimeValueInRange f v \<Longrightarrow> scalar_op op \<Longrightarrow>
   tryParseTimeCondition (scalar_text f tz op v) = Some (scalar_cond f tz (time_op op) v)"
  unfolding parse_time_iff scalar_accepted_def by blast

lemma parse_range:
  assumes "zone_ok tz" "isTimeValueInRange f a" "isTimeValueInRange f b"
    "x = range_text f tz a (range_op a b) b \<or> x = js ''('' @ range_text f tz a (range_op a b) b @ js '')''"
  shows "tryParseTimeCondition x = Some (range_cond f tz a b)"
  unfolding parse_time_iff range_accepted_def using assms by blast

lemma parse_time_request: "tryParseTimeCondition x = Some c \<Longrightarrow> tryParseRequestCondition x = Val (Some (TimeCond c))"
  by (simp add: tryParseRequestCondition_def)

lemma single_piece:
  assumes "cond_ok c" "pieces c = [p]"
  shows "tryParseRequestCondition p = Val (Some c)"
proof (cases c)
  case (TimeCond tc)
  then have "time_ok tc" using assms by simp
  then show ?thesis
  proof (cases rule: time_pieces)
    case (scalar f tz op v)
    then have "p = scalar_text f tz op v" using assms(2) TimeCond by (metis list.inject)
    then show ?thesis using scalar parse_scalar parse_time_request TimeCond by simp
  next
    case (overnight f tz a b)
    then have "p = js ''('' @ range_text f tz a (range_op a b) b @ js '')''" using assms(2) TimeCond by (metis list.inject)
    then show ?thesis using overnight parse_range parse_time_request TimeCond by metis
  next
    case (daytime f tz a b)
    then show ?thesis using assms(2) TimeCond by (metis list.distinct(1) list.inject)
  qed
next
  case (PHCond pc)
  then show ?thesis using assms parse_ph by auto
qed

lemma two_pieces:
  assumes "cond_ok c" "\<nexists>p. pieces c = [p]"
  obtains f tz a b where "c = TimeCond (range_cond f tz a b)" "zone_ok tz" "isTimeValueInRange f a"
    "isTimeValueInRange f b" "\<not> num_lt (str_to_num b) (str_to_num a)"
    "pieces c = [scalar_text f tz (js ''>='') a, scalar_text f tz (js ''<'') b]"
proof (cases c)
  case (TimeCond tc)
  then have "time_ok tc" using assms by simp
  then show thesis
    by (cases rule: time_pieces) (use assms(2) that TimeCond in \<open>auto simp del: pieces.simps\<close>)
next
  case (PHCond pc)
  then show thesis using assms(2) by simp
qed

text \<open>Two adjacent comparisons that the parser reads as one range.\<close>

fun mergeable :: "request_condition \<Rightarrow> request_condition \<Rightarrow> bool" where
  "mergeable (TimeCond a) (TimeCond b) =
     (timeFunc a = timeFunc b \<and> timezone a = timezone b \<and> t_mode a = MATCH_GTE \<and> t_mode b = MATCH_LT \<and>
      \<not> num_lt (str_to_num (t_value b)) (str_to_num (t_value a)))"
| "mergeable _ _ = False"

fun no_merge :: "request_condition list \<Rightarrow> bool" where
  "no_merge (a # b # cs) = (\<not> mergeable a b \<and> no_merge (b # cs))"
| "no_merge _ = True"

lemma time_op_lits [simp]: "time_op (js ''>='') = MATCH_GTE" "time_op (js ''<'') = MATCH_LT"
  by (simp_all add: time_op_def or_str_def match_defs)

lemma pair_none:
  assumes "cond_ok c" "pieces c = [p]" "cond_ok c2" "\<not> mergeable c c2"
  shows "tryParseTimeRangePair p (hd (pieces c2)) = None"
proof (rule ccontr)
  assume "\<not> ?thesis"
  then obtain ta tb where tt: "tryParseTimeCondition p = Some ta" "tryParseTimeCondition (hd (pieces c2)) = Some tb"
    and m: "mergeable (TimeCond ta) (TimeCond tb)"
    by (auto simp: tryParseTimeRangePair_def split: option.splits if_splits)
  have "c = TimeCond ta" using single_piece [OF assms(1,2)] parse_time_request [OF tt(1)] by simp
  moreover have "c2 = TimeCond tb"
  proof (cases "\<exists>q. pieces c2 = [q]")
    case True
    then show ?thesis using single_piece [OF assms(3)] parse_time_request [OF tt(2)] by fastforce
  next
    case False
    then obtain f tz a b where c2: "zone_ok tz" "isTimeValueInRange f a"
        "pieces c2 = [scalar_text f tz (js ''>='') a, scalar_text f tz (js ''<'') b]"
      using two_pieces [OF assms(3)] by metis
    then have "tb = scalar_cond f tz MATCH_GTE a" using tt(2) parse_scalar [OF c2(1,2), of "js ''>=''"] by simp
    then show ?thesis using m by (simp add: match_defs)
  qed
  ultimately show False using m assms(4) by blast
qed

lemma pair_some:
  assumes "zone_ok tz" "isTimeValueInRange f a" "isTimeValueInRange f b" "\<not> num_lt (str_to_num b) (str_to_num a)"
  shows "tryParseTimeRangePair (scalar_text f tz (js ''>='') a) (scalar_text f tz (js ''<'') b) =
    Some (TimeCond (range_cond f tz a b))"
  using assms by (simp add: tryParseTimeRangePair_def parse_scalar range_cond_def)

lemma conds_loop_pieces:
  assumes "\<forall>c\<in>set cs. cond_ok c" "no_merge cs" "acc @ cs \<noteq> []"
  shows "conds_loop (concat (map pieces cs)) acc = Val (Some (acc @ cs))"
  using assms
proof (induction cs arbitrary: acc)
  case (Cons c cs)
  let ?rest = "concat (map pieces cs)"
  have c: "cond_ok c" and IH: "conds_loop ?rest (acc @ [c]) = Val (Some (acc @ c # cs))"
    using Cons.IH [of "acc @ [c]"] Cons.prems by (cases cs; auto)+
  have trims: "trim p = p" "p \<noteq> []" if "c' \<in> set (c # cs)" "p \<in> set (pieces c')" for c' p
    using pieces_ok [of c'] Cons.prems(1) that by (auto simp: piece_ok_def trim_id)
  show ?case
  proof (cases "\<exists>p. pieces c = [p]")
    case True
    then obtain p where p: "pieces c = [p]" ..
    have none: "(if (case ?rest of n # _ \<Rightarrow> trim n | [] \<Rightarrow> []) \<noteq> [] then
        tryParseTimeRangePair p (case ?rest of n # _ \<Rightarrow> trim n | [] \<Rightarrow> []) else None) = None"
    proof (cases cs)
      case (Cons c2 cs')
      then have c2: "cond_ok c2" "\<not> mergeable c c2" "pieces c2 \<noteq> []" using Cons.prems pieces_ok by auto
      then obtain n ns where n: "pieces c2 = n # ns" by (cases "pieces c2") auto
      then have "trim n = n" "tryParseTimeRangePair p n = None"
        using pair_none [OF c p c2(1,2)] trims [of c2 n] Cons by simp_all
      then show ?thesis using n Cons by simp
    qed simp
    show ?thesis
      using IH none trims [of c p] single_piece [OF c p] by (simp add: p conds_loop.simps(2) Let_def)
  next
    case False
    then obtain f tz a b where *: "c = TimeCond (range_cond f tz a b)" "zone_ok tz" "isTimeValueInRange f a"
        "isTimeValueInRange f b" "\<not> num_lt (str_to_num b) (str_to_num a)"
        "pieces c = [scalar_text f tz (js ''>='') a, scalar_text f tz (js ''<'') b]"
      using two_pieces [OF c] by metis
    let ?lo = "scalar_text f tz (js ''>='') a" and ?hi = "scalar_text f tz (js ''<'') b"
    have "trim ?lo = ?lo" "trim ?hi = ?hi" "?hi \<noteq> []" using trims [of c] *(6) by simp_all
    then have "conds_loop (?lo # ?hi # ?rest) acc = conds_loop ?rest (acc @ [c])"
      using pair_some [OF *(2-5)] *(1) by (simp add: conds_loop.simps(2) Let_def)
    then show ?thesis using IH *(6) by simp
  qed
qed simp

subsection \<open>A group of conditions parses back\<close>

definition combined_text :: "request_condition list \<Rightarrow> jsstring" where
  "combined_text cs =
     (let es = map buildRequestConditionExpr cs in
      if length es = 1 then hd es else join (js '' && '') (map item_text es))"

lemma pieces_facts:
  assumes "cs \<noteq> []" "\<forall>c\<in>set cs. cond_ok c"
  shows "concat (map pieces cs) \<noteq> []" "\<forall>p\<in>set (concat (map pieces cs)). piece_ok p"
  using assms pieces_ok by (cases cs; auto)+

lemma split_pieces:
  assumes "ps \<noteq> []" "\<forall>p\<in>set ps. piece_ok p"
  shows "splitTopLevelAnd (join (js '' && '') ps) = ps" "trimmed (join (js '' && '') ps)"
  using assms split_and_join [of ps] join_trimmed [of ps] by (auto simp: piece_ok_def)

lemma joined_items:
  assumes "\<forall>c\<in>set cs. cond_ok c"
  shows "join (js '' && '') (map item_text (map buildRequestConditionExpr cs)) = join (js '' && '') (concat (map pieces cs))"
proof -
  have "map item_text (map buildRequestConditionExpr cs) = map (join (js '' && '')) (map pieces cs)"
    using assms item_join by auto
  moreover have "\<forall>ps\<in>set (map pieces cs). ps \<noteq> []" using assms pieces_ok by auto
  ultimately show ?thesis using join_joins by metis
qed

lemma split_alone: "and_pass 0 x \<Longrightarrow> trimmed x \<Longrightarrow> splitTopLevelAnd x = [x]"
  using split_and_join [of "[x]"] by simp

lemma scalar_trimmed: "nu v \<Longrightarrow> trimmed (scalar_text f tz op v)"
  using nu_last [of v] fn_name_ok [of f "[]"] by (simp add: scalar_text_def trimmed_def)

lemma split_overnight:
  assumes "zone_ok tz" "nu a"
  shows "splitTopLevelAnd (range_text f tz a (js ''||'') b) = []"
proof -
  have r: "range_text f tz a (js ''||'') b = scalar_text f tz (js ''>='') a @ 32 # 124 # 124 # js '' '' @ fn_name f @ js ''(\"'' @ tz @ js ''\") < '' @ b"
    by (simp add: range_text_def scalar_text_def js_unfold)
  show ?thesis
    unfolding r splitTopLevelAnd_def and_pass_run [OF scalar_pass [OF assms(1) scalar_op_lits(2) assms(2)]]
    by (simp add: and_space and_loop.simps(2) paren_step_def js_unfold Let_def)
qed

lemma split_daytime:
  assumes "zone_ok tz" "nu a" "nu b"
  shows "splitTopLevelAnd (range_text f tz a (js ''&&'') b) = [scalar_text f tz (js ''>='') a, scalar_text f tz (js ''<'') b]"
  using split_and_join [of "[scalar_text f tz (js ''>='') a, scalar_text f tz (js ''<'') b]"]
    assms scalar_pass scalar_trimmed by (simp add: scalar_range_split)

lemma accepted_split:
  assumes "tryParseTimeCondition x = Some c"
  obtains "length (splitTopLevelAnd x) \<le> 1"
  | f tz a b where "zone_ok tz" "isTimeValueInRange f a" "isTimeValueInRange f b" "\<not> num_lt (str_to_num b) (str_to_num a)"
      "splitTopLevelAnd x = [scalar_text f tz (js ''>='') a, scalar_text f tz (js ''<'') b]"
proof -
  consider (scalar) f tz op v where "zone_ok tz" "isTimeValueInRange f v" "scalar_op op" "x = scalar_text f tz op v"
    | (paren) f tz a b where "zone_ok tz" "isTimeValueInRange f a" "isTimeValueInRange f b"
        "x = js ''('' @ range_text f tz a (range_op a b) b @ js '')''"
    | (range) f tz a b where "zone_ok tz" "isTimeValueInRange f a" "isTimeValueInRange f b"
        "x = range_text f tz a (range_op a b) b"
    using assms unfolding parse_time_iff range_accepted_def scalar_accepted_def by blast
  then show thesis
  proof cases
    case (scalar f tz op v)
    then have "splitTopLevelAnd x = [x]" using split_alone scalar_pass scalar_trimmed inr_nu by metis
    then show thesis using that(1) by simp
  next
    case (paren f tz a b)
    have "trimmed x" unfolding paren(4) by (simp add: trimmed_def is_ws_def js_unfold)
    then have "splitTopLevelAnd x = [x]"
      using paren or_range_pass [OF paren(1) inr_nu inr_nu range_op_and_or] split_alone by metis
    then show thesis using that(1) by simp
  next
    case (range f tz a b)
    show thesis
    proof (cases "num_lt (str_to_num b) (str_to_num a)")
      case True
      then show thesis using that(1) range split_overnight inr_nu by (simp add: range_op_def)
    next
      case False
      then show thesis using that(2) [of tz f a b] range split_daytime inr_nu by (simp add: range_op_def)
    qed
  qed
qed

lemma many_not_time:
  assumes "\<forall>c\<in>set cs. cond_ok c" "no_merge cs" "2 \<le> length cs"
  shows "tryParseTimeCondition (join (js '' && '') (concat (map pieces cs))) = None"
proof (rule ccontr)
  assume "\<not> ?thesis"
  then obtain c where t: "tryParseTimeCondition (join (js '' && '') (concat (map pieces cs))) = Some c" by auto
  obtain c1 c2 cs' where cs: "cs = c1 # c2 # cs'" using assms(3) by (cases cs; cases "tl cs") auto
  have s: "splitTopLevelAnd (join (js '' && '') (concat (map pieces cs))) = concat (map pieces cs)"
    using split_pieces pieces_facts [of cs] assms cs by blast
  have ok: "cond_ok c1" "cond_ok c2" "\<not> mergeable c1 c2" using assms cs by simp_all
  have ne: "pieces c1 \<noteq> []" "pieces c2 \<noteq> []" using ok pieces_ok by blast+
  from t show False
  proof (cases rule: accepted_split)
    case 1
    then show ?thesis using ne unfolding s by (cases "pieces c1"; cases "pieces c2") (auto simp: cs)
  next
    case (2 f tz a b)
    then have "pieces c1 @ pieces c2 @ concat (map pieces cs') =
        [scalar_text f tz (js ''>='') a, scalar_text f tz (js ''<'') b]"
      unfolding s by (simp add: cs)
    then have "pieces c1 = [scalar_text f tz (js ''>='') a]" "pieces c2 = [scalar_text f tz (js ''<'') b]"
      using ne by (cases "pieces c1"; cases "pieces c2"; auto simp: append_eq_Cons_conv)+
    then have "c1 = TimeCond (scalar_cond f tz MATCH_GTE a)" "c2 = TimeCond (scalar_cond f tz MATCH_LT b)"
      using single_piece ok parse_time_request [OF parse_scalar [OF 2(1,2) scalar_op_lits(2)]]
        parse_time_request [OF parse_scalar [OF 2(1,3) scalar_op_lits(3)]]
      by (fastforce simp del: pieces.simps)+
    then show ?thesis using ok(3) 2(4) by simp
  qed
qed

lemma range_trimmed: "nu b \<Longrightarrow> trimmed (range_text f tz a op b)"
  using nu_last [of b] fn_name_ok [of f "[]"] by (simp add: range_text_def trimmed_def)

lemma one_time:
  assumes "time_ok c"
  shows "tryParseTimeCondition (trim (buildTimeConditionExpr c)) = Some c"
  using assms
proof (cases rule: time_pieces)
  case (scalar f tz op v)
  then show ?thesis using parse_scalar scalar_trimmed [of v] inr_nu by (simp add: trim_id)
next
  case (overnight f tz a b)
  then show ?thesis using parse_range [of tz f a b] range_trimmed [of b] inr_nu by (simp add: trim_id)
next
  case (daytime f tz a b)
  then show ?thesis using parse_range [of tz f a b] range_trimmed [of b] inr_nu by (simp add: trim_id)
qed

lemma ph_not_time: "tryParseTimeCondition (ph_text c) = None"
  using not_time(1) [of "ph_source c"] not_time(2) by (simp add: ph_text_def Let_def js_unfold)

lemma conditions_parse_back:
  assumes "cs \<noteq> []" "\<forall>c\<in>set cs. cond_ok c" "no_merge cs"
  shows "tryParseRequestConditions (combined_text cs) = Val (Some cs)"
proof (cases "length cs = 1")
  case True
  then obtain c where c: "cs = [c]" by (cases cs) auto
  show ?thesis
  proof (cases c)
    case (TimeCond tc)
    then show ?thesis
      using assms(2) one_time c by (simp add: combined_text_def tryParseRequestConditions_def buildRequestConditionExpr_def)
  next
    case (PHCond pc)
    then have p: "piece_ok (ph_text pc)" "buildRequestConditionExpr c = ph_text pc" using assms(2) c ph_piece build_ph by simp_all
    then have "splitTopLevelAnd (ph_text pc) = [ph_text pc]" "trim (ph_text pc) = ph_text pc"
      using split_alone by (auto simp: piece_ok_def trim_id)
    then show ?thesis
      using conds_loop_pieces [OF assms(2,3), of "[]"] c p(2) PHCond
      by (simp add: combined_text_def tryParseRequestConditions_def ph_not_time)
  qed
next
  case False
  then have "2 \<le> length cs" using assms(1) by (cases cs; cases "tl cs") auto
  note none = many_not_time [OF assms(2,3) this]
  have x: "combined_text cs = join (js '' && '') (concat (map pieces cs))"
    using False joined_items [OF assms(2)] by (simp add: combined_text_def Let_def)
  show ?thesis
    using conds_loop_pieces [OF assms(2,3), of "[]"] assms(1) split_pieces [OF pieces_facts [OF assms(1,2)]] none
    by (simp add: tryParseRequestConditions_def x trim_id)
qed

subsection \<open>Groups and expressions\<close>

definition group_ok :: "rule_group \<Rightarrow> bool" where
  "group_ok g \<longleftrightarrow> conditions g \<noteq> [] \<and> list_all cond_ok (conditions g) \<and> no_merge (conditions g) \<and>
     rx_test NUMERIC_LITERAL_REGEX (multiplier g)"

lemma built_nonempty: "cond_ok c \<Longrightarrow> buildRequestConditionExpr c \<noteq> []"
proof
  assume ok: "cond_ok c" and "buildRequestConditionExpr c = []"
  then have "join (js '' && '') (pieces c) = []"
    using item_join [OF ok] by (simp add: item_text_def str_includes_def)
  then show False using pieces_ok [OF ok] join_trimmed [of "pieces c"] by (auto simp: piece_ok_def)
qed

lemma build_factor:
  assumes "group_ok g"
  shows "buildRuleGroupFactor g = js ''('' @ combined_text (conditions g) @ js '' ? '' @ multiplier g @ js '' : 1)''"
proof -
  have "filter (\<lambda>e. e \<noteq> []) (map buildRequestConditionExpr (conditions g)) = map buildRequestConditionExpr (conditions g)"
    using assms built_nonempty by (auto simp: group_ok_def filter_id_conv list_all_iff)
  then show ?thesis
    using assms numeric_nu [of "multiplier g"]
    by (auto simp: buildRuleGroupFactor_def combined_text_def group_ok_def Let_def item_text_def comp_def)
qed

lemma factor_cut:
  assumes "nu n" "nu n'"
  shows "w @ js '' ? '' @ n @ js '' : 1)'' = w' @ js '' ? '' @ n' @ js '' : 1)'' \<longleftrightarrow> w = w' \<and> n = n'"
proof -
  have "w @ js '' ? '' @ n @ js '' : 1)'' = w' @ js '' ? '' @ n' @ js '' : 1)'' \<longleftrightarrow>
      (w @ js '' ?'') @ 32 # n = (w' @ js '' ?'') @ 32 # n'"
    by (simp add: js_unfold)
  also have "\<dots> \<longleftrightarrow> w = w' \<and> n = n'"
    using append_sep_eq_right [of 32 n n' "w @ js '' ?''" "w' @ js '' ?''"] nu_no assms by auto
  finally show ?thesis .
qed

lemma factor_match:
  assumes "w \<noteq> []" "nu n"
  shows "rx_match (Seq Bol factor_rx) (js ''('' @ w @ js '' ? '' @ n @ js '' : 1)'') = Some [(2, n), (1, w)]"
proof -
  let ?x = "js ''('' @ w @ js '' ? '' @ n @ js '' : 1)''"
  have run: "(t, cs) \<in> set (rx_run ?x factor_rx (?x, [])) \<longleftrightarrow>
      t = [] \<and> (\<exists>w' n'. w' \<noteq> [] \<and> nu n' \<and> ?x = js ''('' @ w' @ js '' ? '' @ n' @ js '' : 1)'' \<and> cs = [(2, n'), (1, w')])"
    for t cs
    unfolding factor_rx_def time_runs rx_Plus_Cls by (auto simp: list_all_iff)
  have cut: "?x = js ''('' @ w' @ js '' ? '' @ n' @ js '' : 1)'' \<longleftrightarrow> w = w' \<and> n = n'" if "nu n'" for w' n'
    using factor_cut [OF assms(2) that] by simp
  show ?thesis
  proof (rule rx_match_unique)
    show "([], [(2, n), (1, w)]) \<in> set (rx_run ?x factor_rx (?x, []))" unfolding run using assms by blast
    fix t' cs' assume "(t', cs') \<in> set (rx_run ?x factor_rx (?x, []))"
    then obtain w' n' where "nu n'" "?x = js ''('' @ w' @ js '' ? '' @ n' @ js '' : 1)''" "cs' = [(2, n'), (1, w')]"
      unfolding run by blast
    then show "cs' = [(2, n), (1, w)]" using cut [of n' w'] by simp
  qed
qed

lemma balanced_join: "balanced sep \<Longrightarrow> \<forall>x\<in>set xs. balanced x \<Longrightarrow> balanced (join sep xs)"
proof (induction xs)
  case (Cons x xs)
  then show ?case by (cases xs) (auto intro!: balanced_append)
qed simp

lemma combined_balanced:
  assumes "cs \<noteq> []" "\<forall>c\<in>set cs. cond_ok c"
  shows "balanced (combined_text cs) \<and> combined_text cs \<noteq> []"
proof (cases "length cs = 1")
  case True
  then obtain c where c: "cs = [c]" by (cases cs) auto
  have "balanced (buildRequestConditionExpr c)"
  proof (cases c)
    case (TimeCond tc)
    then have e: "buildRequestConditionExpr c = buildTimeConditionExpr tc" "time_ok tc"
      using assms(2) c by (simp_all add: buildRequestConditionExpr_def)
    from e(2) show ?thesis
      by (cases rule: time_pieces)
        (use scalar_piece range_balanced inr_nu in \<open>auto simp: e(1) piece_ok_def and_or_def simp del: pieces.simps\<close>)
  next
    case (PHCond pc)
    then show ?thesis using assms(2) c ph_piece build_ph by (simp add: piece_ok_def)
  qed
  then show ?thesis using built_nonempty assms(2) c by (simp add: combined_text_def)
next
  case False
  then have x: "combined_text cs = join (js '' && '') (concat (map pieces cs))"
    using joined_items [OF assms(2)] by (simp add: combined_text_def Let_def)
  have p: "concat (map pieces cs) \<noteq> []" "\<forall>p\<in>set (concat (map pieces cs)). piece_ok p"
    using pieces_facts [OF assms] by blast+
  then have "balanced (join (js '' && '') (concat (map pieces cs)))"
    by (intro balanced_join) (auto simp: js_unfold piece_ok_def)
  moreover have "join (js '' && '') (concat (map pieces cs)) \<noteq> []"
    using join_trimmed [OF p(1)] p(2) by (auto simp: piece_ok_def)
  ultimately show ?thesis by (simp add: x)
qed

lemma factor_ok:
  assumes "group_ok g"
  shows "factor_text (buildRuleGroupFactor g) \<and> tryParseRuleGroupFactor (buildRuleGroupFactor g) = Val (Some g)"
proof -
  have g: "conditions g \<noteq> []" "\<forall>c\<in>set (conditions g). cond_ok c" "no_merge (conditions g)" "nu (multiplier g)"
    using assms numeric_nu by (simp_all add: group_ok_def list_all_iff)
  note comb = combined_balanced [OF g(1,2)]
  note x = build_factor [OF assms]
  have "balanced (combined_text (conditions g) @ (js '' ? '' @ multiplier g @ js '' : 1''))"
    using comb nu_flat [OF g(4)] by (intro balanced_append [OF _ balanced_flat]) (auto simp: js_unfold flat_def)
  then have "factor_text (buildRuleGroupFactor g)"
    unfolding factor_text_def x by (intro exI [of _ "combined_text (conditions g) @ js '' ? '' @ multiplier g @ js '' : 1''"])
      (simp add: js_unfold)
  moreover have "tryParseRuleGroupFactor (buildRuleGroupFactor g) = Val (Some g)"
    unfolding x tryParseRuleGroupFactor_def
    using factor_match [of "combined_text (conditions g)" "multiplier g"] comb g(4) conditions_parse_back [OF g(1-3)]
    by (simp add: grp_def)
  ultimately show ?thesis ..
qed

lemma groups_loop_built:
  "\<forall>g\<in>set gs. group_ok g \<Longrightarrow> groups_loop (map buildRuleGroupFactor gs) acc = Val (Some (acc @ gs))"
  by (induction gs arbitrary: acc) (simp_all add: factor_ok)

lemma built_factors:
  assumes "\<forall>g\<in>set gs. group_ok g"
  shows "buildRequestRuleExpr gs = join (js '' * '') (map buildRuleGroupFactor gs)"
    and "\<forall>p\<in>set (map buildRuleGroupFactor gs). factor_text p"
proof -
  have "\<forall>p\<in>set (map buildRuleGroupFactor gs). factor_text p" using assms factor_ok by auto
  moreover from this have "filter (\<lambda>e. e \<noteq> []) (map buildRuleGroupFactor gs) = map buildRuleGroupFactor gs"
    using factor_trimmed by (simp add: filter_id_conv)
  ultimately show "buildRequestRuleExpr gs = join (js '' * '') (map buildRuleGroupFactor gs)"
    and "\<forall>p\<in>set (map buildRuleGroupFactor gs). factor_text p"
    by (simp_all add: buildRequestRuleExpr_def)
qed

lemma rules_parse_back:
  assumes "\<forall>g\<in>set gs. group_ok g"
  shows "tryParseRequestRuleExpr (buildRequestRuleExpr gs) = Val (Some gs)"
proof (cases "gs = []")
  case True
  then show ?thesis by (simp add: buildRequestRuleExpr_def tryParseRequestRuleExpr_def)
next
  case False
  note b = built_factors [OF assms]
  then show ?thesis
    using False split_mul_join [OF _ b(2)] factors_trimmed [OF _ b(2)] groups_loop_built [OF assms, of "[]"]
    by (simp add: tryParseRequestRuleExpr_def trim_id)
qed

subsection \<open>Base and rules\<close>

lemma parens_loop_bal:
  "bal n e \<Longrightarrow> parens_loop (1 + int n) (e @ rest) = parens_loop 1 rest"
proof (induction e arbitrary: n)
  case (Cons c e)
  show ?case
  proof (cases "c = 41")
    case True
    then obtain m where "n = Suc m" "bal m e" using Cons.prems by (cases n) auto
    then show ?thesis using Cons.IH [of m] True by (simp add: paren_step_def)
  next
    case False
    then show ?thesis using Cons.IH [of n] Cons.IH [of "Suc n"] Cons.prems
      by (auto simp: paren_step_def add_ac split: if_splits)
  qed
qed simp

lemma unwrap_paren:
  assumes "balanced e"
  shows "unwrap_loop (40 # e @ [41]) = unwrap_loop (trim e)"
proof -
  have "hasFullOuterParens (40 # e @ [41])"
    using parens_loop_bal [OF assms, of "[41]"]
    by (simp add: hasFullOuterParens_def starts_with_def ends_with_def suffix_def paren_step_def js_unfold)
  then show ?thesis using unwrap_loop.simps [of "40 # e @ [41]"] by simp
qed

lemma sort_rule_parts:
  "\<forall>g\<in>set gs. group_ok g \<Longrightarrow> sort_parts (map buildRuleGroupFactor gs) = Val (map buildRuleGroupFactor gs, [])"
proof (induction gs)
  case (Cons g gs)
  have "buildRequestRuleExpr [g] = buildRuleGroupFactor g"
    using Cons.prems built_factors(1) [of "[g]"] by simp
  then have "tryParseRequestRuleExpr (buildRuleGroupFactor g) = Val (Some [g])"
    using rules_parse_back [of "[g]"] Cons.prems by simp
  then show ?case using Cons by simp
qed simp

subsection \<open>Parameter conditions with two parts\<close>

text \<open>The text of a parameter comparison or containment has two parts, of which the second means
  nothing to the parser by itself.\<close>

definition two_part :: "ph_condition \<Rightarrow> bool" where
  "two_part c \<longleftrightarrow> ph_source c = Param \<and> path c \<noteq> [] \<and> trimmed (path c) \<and> plain (path c) \<and> flat (path c) \<and>
     (ph_mode c \<in> {MATCH_GT, MATCH_GTE, MATCH_LT, MATCH_LTE} \<and> rx_test NUMERIC_LITERAL_REGEX (ph_value c) \<or>
      ph_mode c = MATCH_CONTAINS \<and> value_ok (ph_value c))"

definition compare_sign :: "jsstring \<Rightarrow> jsstring" where
  "compare_sign mode = the (map_of [(MATCH_GT, js ''>''), (MATCH_GTE, js ''>=''), (MATCH_LT, js ''<''), (MATCH_LTE, js ''<='')] mode)"

definition second_part :: "ph_condition \<Rightarrow> jsstring" where
  "second_part c =
     (if ph_mode c = MATCH_CONTAINS then js ''has(param(\"'' @ path c @ js ''\"), '' @ json_quote (ph_value c) @ js '')''
      else js ''param(\"'' @ path c @ js ''\") '' @ compare_sign (ph_mode c) @ js '' '' @ ph_value c)"

lemma build_two_part:
  assumes "two_part c"
  shows "buildRequestConditionExpr (PHCond c) = js ''param(\"'' @ path c @ js ''\") != nil'' @ js '' && '' @ second_part c"
proof -
  have n: "normalizeCondition (Some (as_partial (PHCond c))) = PHCond c"
    using assms by (intro normalize_ph) (auto simp: two_part_def)
  have p: "trim (path c) = path c" "json_quote (path c) = 34 # path c @ [34]" "path c \<noteq> []" "ph_source c = Param"
    using assms by (simp_all add: two_part_def trim_id json_quote_plain)
  have v: "trim (ph_value c) = ph_value c" if "ph_mode c \<noteq> MATCH_CONTAINS"
    using assms that numeric_nu by (auto simp: two_part_def)
  have modes: "ph_mode c \<in> {MATCH_GT, MATCH_GTE, MATCH_LT, MATCH_LTE} \<and> rx_test NUMERIC_LITERAL_REGEX (ph_value c) \<or>
      ph_mode c = MATCH_CONTAINS \<and> trimmed (ph_value c)"
    using assms by (auto simp: two_part_def value_ok_def)
  show ?thesis
    unfolding buildRequestConditionExpr_def request_condition.case n the_ph.simps p(1,2)
    using modes p v
    by (auto simp: second_part_def compare_sign_def js_unfold match_defs Let_def buildExprLiteral_def trim_id)
qed

lemma compare_sign_cases: "mode \<in> {MATCH_GT, MATCH_GTE, MATCH_LT, MATCH_LTE} \<Longrightarrow>
   compare_sign mode \<in> {js ''>'', js ''>='', js ''<'', js ''<=''}"
  by (auto simp: compare_sign_def match_defs)

lemma second_part_raw:
  assumes "two_part c"
  shows "tryParseRequestCondition (second_part c) = Val None" "tryParseTimeCondition (second_part c) = None"
proof -
  let ?x = "second_part c"
  have p: "nm (path c)" using assms by (auto simp: two_part_def nm_def plain_def)
  have sg: "ph_mode c = MATCH_CONTAINS \<or> compare_sign (ph_mode c) \<in> {js ''>'', js ''>='', js ''<'', js ''<=''}"
    using assms compare_sign_cases by (auto simp: two_part_def)
  show t: "tryParseTimeCondition ?x = None"
    using not_time(1) [of Param] not_time(2) by (simp add: second_part_def js_unfold)
  have e: "rx_match (Seq Bol header_exists_rx) ?x = None" "rx_match (Seq Bol param_exists_rx) ?x = None"
    "rx_match (Seq Bol equals_rx) ?x = None"
    by (rule not_Some_None, use sg in \<open>auto simp: second_part_def header_exists_iff param_exists_iff equals_iff js_unfold nm_cut p\<close>)+
  have h: "rx_match (Seq Bol header_contains_rx) ?x = None"
    unfolding rx_match_None by (auto dest!: header_contains_run simp: second_part_def js_unfold)
  have pp: "rx_match (Seq Bol param_contains_rx) ?x = None" "rx_match (Seq Bol param_compare_rx) ?x = None"
    unfolding rx_match_None using sg by (auto dest!: param_pair_run simp: second_part_def js_unfold nm_cut p)
  show "tryParseRequestCondition ?x = Val None"
    unfolding tryParseRequestCondition_def t e h pp by (simp add: parse_equals_def e)
qed

text \<open>The first part is the existence test of the same parameter.\<close>

lemma first_part_ok:
  assumes "two_part c"
  shows "ph_ok \<lparr>ph_source = Param, path = path c, ph_mode = MATCH_EXISTS, ph_value = []\<rparr>"
  using assms by (auto simp: two_part_def ph_ok_def)

lemma first_part_piece: "two_part c \<Longrightarrow> piece_ok (js ''param(\"'' @ path c @ js ''\") != nil'')"
  using ph_piece [OF first_part_ok] by (simp add: ph_text_def js_unfold)

lemma second_part_piece:
  assumes "two_part c"
  shows "piece_ok (second_part c)"
proof -
  define call where "call = js ''param'' @ 40 # 34 # path c @ [34, 41]"
  have call: "0 \<le> d \<Longrightarrow> and_pass d call" "balanced call" for d
    using ph_call_pass [OF first_part_ok [OF assms]] by (simp_all add: call_def)
  show ?thesis
  proof (cases "ph_mode c = MATCH_CONTAINS")
    case True
    then have "value_ok (ph_value c)" using assms by (auto simp: two_part_def match_defs)
    then show ?thesis using has_piece [OF call(1) call(2)] True by (simp add: second_part_def call_def js_unfold)
  next
    case False
    then have n: "nu (ph_value c)" and sg: "compare_sign (ph_mode c) \<in> {js ''>'', js ''>='', js ''<'', js ''<=''}"
      using assms numeric_nu compare_sign_cases by (auto simp: two_part_def)
    let ?tail = "32 # compare_sign (ph_mode c) @ 32 # ph_value c"
    have "and_ok (32 # compare_sign (ph_mode c))" using sg by (auto simp: js_unfold)
    then have "and_pass 0 (call @ (32 # compare_sign (ph_mode c)) @ 32 # ph_value c)"
      by (intro and_pass_append [OF call(1) and_pass_append] and_ok_pass) (use nu_and_ok [OF n] in simp_all)
    moreover have "flat ?tail" using sg nu_flat [OF n] by (auto simp: flat_def js_unfold)
    then have "balanced (call @ ?tail)" by (intro balanced_append [OF call(2) balanced_flat]) (auto simp: flat_def)
    ultimately show ?thesis
      using False nu_last [OF n] by (simp add: piece_ok_def trimmed_def is_ws_def second_part_def call_def js_unfold)
  qed
qed

subsection \<open>Properties\<close>

text \<open>C5: request rules survive the editor: what \<^verbatim>\<open>buildRequestRuleExpr\<close> prints for well-formed groups,
  \<^verbatim>\<open>tryParseRequestRuleExpr\<close> reads back as the same groups.\<close>

theorem request_rules_round_trip:
  assumes "\<forall>g\<in>set gs. group_ok g"
  shows "tryParseRequestRuleExpr (buildRequestRuleExpr gs) = Val (Some gs)"
  using assms by (rule rules_parse_back)

definition sample_group :: rule_group where
  "sample_group =
     \<lparr>conditions =
        [TimeCond \<lparr>timeFunc = Hour, timezone = js ''UTC'', t_mode = MATCH_RANGE, t_value = [],
                   rangeStart = js ''21'', rangeEnd = js ''6''\<rparr>,
         ph_cond Header (js ''x-tier'') MATCH_CONTAINS (js ''fast lane''),
         ph_cond Param (js ''stream'') MATCH_EQ (js ''true'')],
      multiplier = js ''0.5''\<rparr>"

lemma sample_group_ok: "group_ok sample_group"
  by code_simp

theorem request_rules_round_trip_witness:
  "tryParseRequestRuleExpr (buildRequestRuleExpr [sample_group, sample_group]) = Val (Some [sample_group, sample_group])"
  by (rule request_rules_round_trip) (simp add: sample_group_ok)

text \<open>C6: a base combined with well-formed request rules separates again into the base without its
  outer parentheses and the text of the rules. (Hypotheses: there is a rule, and every rule is
  well-formed as in the round trip above: its conditions are ones that survive, no two of them in a
  row read as one time range, and its multiplier is a number; the base is nonempty and has balanced
  parentheses, and in parentheses it is not itself a rule. Rules with a comparison or a containment
  on a parameter are not well-formed in this sense, and \<open>param_rules_stay_raw\<close> shows that they are
  not recognised.)\<close>

theorem base_and_rules_separate:
  assumes "gs \<noteq> []" "\<forall>g\<in>set gs. group_ok g" "trim base \<noteq> []" "balanced (trim base)"
    "tryParseRequestRuleExpr (js ''('' @ trim base @ js '')'') = Val None"
  shows "splitBillingExprAndRequestRules (combineBillingExpr base (buildRequestRuleExpr gs)) =
    Val \<lparr>billingExpr = unwrapOuterParens base, requestRuleExpr = buildRequestRuleExpr gs\<rparr>"
proof -
  let ?fs = "map buildRuleGroupFactor gs" and ?b = "40 # trim base @ [41]"
  note b = built_factors [OF assms(2)]
  have ne: "?fs \<noteq> []" using assms(1) by simp
  have rules: "trim (buildRequestRuleExpr gs) = buildRequestRuleExpr gs" "buildRequestRuleExpr gs \<noteq> []"
    using factors_trimmed [OF ne b(2)] by (simp_all add: b(1) trim_id)
  have parts: "\<forall>p\<in>set (?b # ?fs). factor_text p" using b(2) assms(4) by (auto simp: factor_text_def)
  have x: "combineBillingExpr base (buildRequestRuleExpr gs) = join (js '' * '') (?b # ?fs)"
    using ne rules assms(3) by (cases ?fs) (auto simp: combineBillingExpr_def b(1) js_unfold)
  have sorted: "sort_parts (?b # ?fs) = Val (?fs, [?b])"
    using sort_rule_parts [OF assms(2)] assms(5) by (simp add: js_unfold)
  have "unwrapOuterParens ?b = unwrapOuterParens base"
    using unwrap_paren [OF assms(4)] factor_trimmed [of ?b] parts by (simp add: unwrapOuterParens_def trim_id)
  then show ?thesis
    unfolding x splitBillingExprAndRequestRules_def
    using factors_trimmed [of "?b # ?fs"] split_mul_join [of "?b # ?fs"] parts sorted ne b(1)
    by (simp add: trim_id Let_def)
qed

theorem base_and_rules_separate_witness:
  "splitBillingExprAndRequestRules (combineBillingExpr (js ''p * 2 + c * (3)'') (buildRequestRuleExpr [sample_group])) =
    Val \<lparr>billingExpr = unwrapOuterParens (js ''p * 2 + c * (3)''), requestRuleExpr = buildRequestRuleExpr [sample_group]\<rparr>"
proof (rule base_and_rules_separate)
  show "tryParseRequestRuleExpr (js ''('' @ trim (js ''p * 2 + c * (3)'') @ js '')'') = Val None" by code_simp
  show "trim (js ''p * 2 + c * (3)'') \<noteq> []" by code_simp
  show "balanced (trim (js ''p * 2 + c * (3)''))" by code_simp
qed (simp_all add: sample_group_ok)

text \<open>a rule on one parameter that compares it with a number or tests what it contains does not
  parse back: the parser cuts its text at the conjunction before it tries the expressions made for it,
  so the saved rule is no longer a rule for the editor.\<close>

theorem param_rules_stay_raw:
  assumes "two_part c" "rx_test NUMERIC_LITERAL_REGEX m"
  shows "tryParseRequestRuleExpr (buildRequestRuleExpr [\<lparr>conditions = [PHCond c], multiplier = m\<rparr>]) = Val None"
proof -
  let ?a = "js ''param(\"'' @ path c @ js ''\") != nil''" and ?b = "second_part c"
  let ?e = "?a @ js '' && '' @ ?b"
  have pieces: "piece_ok ?a" "piece_ok ?b" using first_part_piece second_part_piece assms(1) by blast+
  have n: "nu m" using assms(2) by (rule numeric_nu)
  have "balanced (?e @ (js '' ? '' @ m @ js '' : 1''))"
    using pieces nu_flat [OF n] by (intro balanced_append [OF balanced_append [OF _ balanced_append] balanced_flat])
      (auto simp: piece_ok_def js_unfold flat_def)
  then have f: "factor_text (js ''('' @ ?e @ js '' ? '' @ m @ js '' : 1)'')"
    unfolding factor_text_def by (intro exI [of _ "?e @ js '' ? '' @ m @ js '' : 1''"]) (simp add: js_unfold)
  have built: "buildRequestRuleExpr [\<lparr>conditions = [PHCond c], multiplier = m\<rparr>] = js ''('' @ ?e @ js '' ? '' @ m @ js '' : 1)''"
    using build_two_part [OF assms(1)] assms(2) n
    by (simp add: buildRequestRuleExpr_def buildRuleGroupFactor_def Let_def js_unfold)
  have "tryParseTimeCondition ?a = None" "tryParseTimeCondition ?e = None"
    using not_time(1) [of Param] by (simp_all add: js_unfold)
  moreover have "splitTopLevelAnd ?e = [?a, ?b]" "trim ?e = ?e"
    using split_pieces [of "[?a, ?b]"] pieces by (simp_all add: trim_id)
  moreover have "nm (path c)" using assms(1) by (auto simp: two_part_def nm_def plain_def)
  ultimately have "tryParseRequestConditions ?e = Val None"
    using parse_exists(2) [of "path c"] second_part_raw [OF assms(1)] pieces
    by (simp add: tryParseRequestConditions_def conds_loop.simps(2) Let_def tryParseTimeRangePair_def piece_ok_def trim_id)
  then have "tryParseRuleGroupFactor (js ''('' @ ?e @ js '' ? '' @ m @ js '' : 1)'') = Val None"
    using factor_match [of ?e m] n by (simp add: tryParseRuleGroupFactor_def grp_def)
  then show ?thesis
    unfolding built using f factor_trimmed [OF f] split_mul_join [of "[js ''('' @ ?e @ js '' ? '' @ m @ js '' : 1)'']"]
    by (simp add: tryParseRequestRuleExpr_def trim_id)
qed

theorem param_rules_stay_raw_witness:
  "tryParseRequestRuleExpr (buildRequestRuleExpr
     [\<lparr>conditions = [PHCond \<lparr>ph_source = Param, path = js ''max_tokens'', ph_mode = MATCH_GT, ph_value = js ''4096''\<rparr>],
       multiplier = js ''2''\<rparr>]) = Val None"
  by (rule param_rules_stay_raw) code_simp+

end
