(* ===== verification/ParamOverride.thy ===== *)
theory ParamOverride
  imports JS_Pretty
begin

text \<open>
  Parameter overrides of a channel: the logic of
  \<^verbatim>\<open>web/default/src/features/channels/components/dialogs/param-override-editor-dialog.tsx\<close> above its
  React component. A channel stores one JSON text; the editor turns it into a list of operations,
  validates them and prints them again.

  \<^item> \<^verbatim>\<open>Date.now()\<close> is the parameter \<open>now\<close>: \<open>now n\<close> is the time at which the \<open>n\<close>-th identifier is
    made. The counter \<^verbatim>\<open>localIdSeed\<close> is threaded through every operation that makes one.
  \<^item> The translation function is the parameter \<open>t\<close>: a key and the optional line number.
  \<^item> An exception is the left side of a sum: \<^verbatim>\<open>TypeError\<close> is what reading a property of null throws,
    and a \<^verbatim>\<open>throw new Error(message)\<close> is represented by its message.
  \<^item> \<^verbatim>\<open>toUpperCase\<close> and \<^verbatim>\<open>toLowerCase\<close> are only compared with ASCII words none of whose letters is
    the case mapping of a letter outside ASCII, so the ASCII mapping decides these comparisons.
  \<^item> \<^verbatim>\<open>String(v)\<close> and \<^verbatim>\<open>Number(v)\<close> throw on a parsed object with an own property \<^verbatim>\<open>toString\<close>
    (\<open>str_throws\<close>). Where the code catches this the model takes the branch of the handler; elsewhere it is
    a \<^verbatim>\<open>TypeError\<close> too.
\<close>

type_synonym translate = "jsstring \<Rightarrow> nat option \<Rightarrow> jsstring"
type_synonym clock = "nat \<Rightarrow> int"

datatype po_error = TypeError

type_synonym 'a act = "nat \<Rightarrow> (po_error + 'a) \<times> nat"

text \<open>\<^verbatim>\<open>xs.map(f)\<close> for a callback that makes identifiers or throws.\<close>

fun act_map :: "('a \<Rightarrow> 'b act) \<Rightarrow> 'a list \<Rightarrow> 'b list act" where
  "act_map f [] n = (Inr [], n)"
| "act_map f (x # xs) n =
     (case f x n of
        (Inl e, n') \<Rightarrow> (Inl e, n')
      | (Inr y, n') \<Rightarrow>
          (case act_map f xs n' of
             (Inl e, n'') \<Rightarrow> (Inl e, n'')
           | (Inr ys, n'') \<Rightarrow> (Inr (y # ys), n'')))"

subsection \<open>Types\<close>

record ParamOverrideCondition =
  c_id :: jsstring
  c_path :: jsstring
  c_mode :: jsstring
  c_value_text :: jsstring
  c_invert :: bool
  c_pass_missing_key :: bool

record ParamOverrideOperation =
  o_id :: jsstring
  o_description :: jsstring
  o_path :: jsstring
  o_mode :: jsstring
  o_from :: jsstring
  o_to :: jsstring
  o_value_text :: jsstring
  o_keep_origin :: bool
  o_logic :: jsstring
  o_conditions :: "ParamOverrideCondition list"

subsection \<open>Tables\<close>

definition OPERATION_MODE_OPTIONS :: "(jsstring \<times> jsstring) list" where
  "OPERATION_MODE_OPTIONS =
     [(js ''Set Field'', js ''set''),
      (js ''Delete Field'', js ''delete''),
      (js ''Append to End'', js ''append''),
      (js ''Prepend to Start'', js ''prepend''),
      (js ''Copy Field'', js ''copy''),
      (js ''Move Field'', js ''move''),
      (js ''String Replace'', js ''replace''),
      (js ''Regex Replace'', js ''regex_replace''),
      (js ''Trim Prefix'', js ''trim_prefix''),
      (js ''Trim Suffix'', js ''trim_suffix''),
      (js ''Ensure Prefix'', js ''ensure_prefix''),
      (js ''Ensure Suffix'', js ''ensure_suffix''),
      (js ''Trim Space'', js ''trim_space''),
      (js ''To Lowercase'', js ''to_lower''),
      (js ''To Uppercase'', js ''to_upper''),
      (js ''Return Custom Error'', js ''return_error''),
      (js ''Prune Object Items'', js ''prune_objects''),
      (js ''Pass Through Headers'', js ''pass_headers''),
      (js ''Sync Fields'', js ''sync_fields''),
      (js ''Set Request Header'', js ''set_header''),
      (js ''Delete Request Header'', js ''delete_header''),
      (js ''Copy Request Header'', js ''copy_header''),
      (js ''Move Request Header'', js ''move_header'')]"

definition OPERATION_MODE_VALUES :: "jsstring list" where
  "OPERATION_MODE_VALUES = map snd OPERATION_MODE_OPTIONS"

definition OPERATION_MODE_LABEL_MAP :: "jsstring props" where
  "OPERATION_MODE_LABEL_MAP =
     foldl (\<lambda>acc item. props_set acc (snd item) (fst item)) [] OPERATION_MODE_OPTIONS"

definition CONDITION_MODE_OPTIONS :: "(jsstring \<times> jsstring) list" where
  "CONDITION_MODE_OPTIONS =
     [(js ''Exact Match'', js ''full''),
      (js ''Prefix'', js ''prefix''),
      (js ''Suffix'', js ''suffix''),
      (js ''Contains'', js ''contains''),
      (js ''Greater Than'', js ''gt''),
      (js ''Greater Than or Equal'', js ''gte''),
      (js ''Less Than'', js ''lt''),
      (js ''Less Than or Equal'', js ''lte'')]"

definition CONDITION_MODE_VALUES :: "jsstring list" where
  "CONDITION_MODE_VALUES = map snd CONDITION_MODE_OPTIONS"

text \<open>The optional properties of a mode; \<open>None\<close> is an absent property.\<close>

record mode_meta =
  m_path :: bool
  m_pathOptional :: bool
  m_value :: bool
  m_from :: bool
  m_to :: "bool option"
  m_keepOrigin :: bool
  m_pathAlias :: bool

definition no_meta :: mode_meta where
  "no_meta = \<lparr>m_path = False, m_pathOptional = False, m_value = False, m_from = False, m_to = None,
     m_keepOrigin = False, m_pathAlias = False\<rparr>"

definition MODE_META :: "mode_meta props" where
  "MODE_META =
     [(js ''delete'', no_meta\<lparr>m_path := True\<rparr>),
      (js ''set'', no_meta\<lparr>m_path := True, m_value := True, m_keepOrigin := True\<rparr>),
      (js ''append'', no_meta\<lparr>m_path := True, m_value := True, m_keepOrigin := True\<rparr>),
      (js ''prepend'', no_meta\<lparr>m_path := True, m_value := True, m_keepOrigin := True\<rparr>),
      (js ''copy'', no_meta\<lparr>m_from := True, m_to := Some True\<rparr>),
      (js ''move'', no_meta\<lparr>m_from := True, m_to := Some True\<rparr>),
      (js ''replace'', no_meta\<lparr>m_path := True, m_from := True, m_to := Some False\<rparr>),
      (js ''regex_replace'', no_meta\<lparr>m_path := True, m_from := True, m_to := Some False\<rparr>),
      (js ''trim_prefix'', no_meta\<lparr>m_path := True, m_value := True\<rparr>),
      (js ''trim_suffix'', no_meta\<lparr>m_path := True, m_value := True\<rparr>),
      (js ''ensure_prefix'', no_meta\<lparr>m_path := True, m_value := True\<rparr>),
      (js ''ensure_suffix'', no_meta\<lparr>m_path := True, m_value := True\<rparr>),
      (js ''trim_space'', no_meta\<lparr>m_path := True\<rparr>),
      (js ''to_lower'', no_meta\<lparr>m_path := True\<rparr>),
      (js ''to_upper'', no_meta\<lparr>m_path := True\<rparr>),
      (js ''return_error'', no_meta\<lparr>m_value := True\<rparr>),
      (js ''prune_objects'', no_meta\<lparr>m_pathOptional := True, m_value := True\<rparr>),
      (js ''pass_headers'', no_meta\<lparr>m_value := True, m_keepOrigin := True\<rparr>),
      (js ''sync_fields'', no_meta\<lparr>m_from := True, m_to := Some True\<rparr>),
      (js ''set_header'', no_meta\<lparr>m_path := True, m_value := True, m_keepOrigin := True\<rparr>),
      (js ''delete_header'', no_meta\<lparr>m_path := True\<rparr>),
      (js ''copy_header'',
        no_meta\<lparr>m_from := True, m_to := Some True, m_keepOrigin := True, m_pathAlias := True\<rparr>),
      (js ''move_header'',
        no_meta\<lparr>m_from := True, m_to := Some True, m_keepOrigin := True, m_pathAlias := True\<rparr>)]"

text \<open>\<^verbatim>\<open>MODE_META[mode] || MODE_META.set\<close>, as validation and printing write it.\<close>

definition meta_of :: "jsstring \<Rightarrow> mode_meta" where
  "meta_of mode =
     (case props_get MODE_META mode of
        Some m \<Rightarrow> m
      | None \<Rightarrow> no_meta\<lparr>m_path := True, m_value := True, m_keepOrigin := True\<rparr>)"

definition VALUE_REQUIRED_MODES :: "jsstring list" where
  "VALUE_REQUIRED_MODES =
     [js ''trim_prefix'', js ''trim_suffix'', js ''ensure_prefix'', js ''ensure_suffix'',
      js ''set_header'', js ''return_error'', js ''prune_objects'', js ''pass_headers'']"

definition FROM_REQUIRED_MODES :: "jsstring list" where
  "FROM_REQUIRED_MODES =
     [js ''copy'', js ''move'', js ''replace'', js ''regex_replace'', js ''copy_header'',
      js ''move_header'', js ''sync_fields'']"

definition TO_REQUIRED_MODES :: "jsstring list" where
  "TO_REQUIRED_MODES =
     [js ''copy'', js ''move'', js ''copy_header'', js ''move_header'', js ''sync_fields'']"

definition MODE_DESCRIPTIONS :: "jsstring props" where
  "MODE_DESCRIPTIONS =
     [(js ''set'', js ''Write value to the target field''),
      (js ''delete'', js ''Remove the target field''),
      (js ''append'', js ''Append value to array / string / object end''),
      (js ''prepend'', js ''Prepend value to array / string / object start''),
      (js ''copy'', js ''Copy source field to target field''),
      (js ''move'', js ''Move source field to target field''),
      (js ''replace'', js ''Do string replacement in the target field''),
      (js ''regex_replace'', js ''Do regex replacement in the target field''),
      (js ''trim_prefix'', js ''Remove string prefix''),
      (js ''trim_suffix'', js ''Remove string suffix''),
      (js ''ensure_prefix'', js ''Ensure the string has a specified prefix''),
      (js ''ensure_suffix'', js ''Ensure the string has a specified suffix''),
      (js ''trim_space'', js ''Trim leading/trailing whitespace''),
      (js ''to_lower'', js ''Convert string to lowercase''),
      (js ''to_upper'', js ''Convert string to uppercase''),
      (js ''return_error'', js ''Return a custom error immediately''),
      (js ''prune_objects'', js ''Prune object items by conditions''),
      (js ''pass_headers'', js ''Pass specified request headers to upstream''),
      (js ''sync_fields'', js ''Auto-fill when one field exists and another is missing''),
      (js ''set_header'',
        js ''Set runtime request header: override entire value, or manipulate comma-separated tokens''),
      (js ''delete_header'', js ''Delete a runtime request header''),
      (js ''copy_header'', js ''Copy a request header''),
      (js ''move_header'', js ''Move a request header'')]"

definition SYNC_TARGET_TYPE_OPTIONS :: "(jsstring \<times> jsstring) list" where
  "SYNC_TARGET_TYPE_OPTIONS =
     [(js ''Request Body Field'', js ''json''), (js ''Request Header Field'', js ''header'')]"

subsection \<open>Templates\<close>

definition str_entry :: "string \<Rightarrow> string \<Rightarrow> jsstring \<times> jsval" where
  "str_entry k v = (js k, JStr (js v))"

definition LEGACY_TEMPLATE :: jsval where
  "LEGACY_TEMPLATE = JObj [(js ''temperature'', JNum (Fin 0)), (js ''max_tokens'', JNum (Fin 1000))]"

definition OPERATION_TEMPLATE :: jsval where
  "OPERATION_TEMPLATE = JObj [(js ''operations'', JArr [
     JObj [str_entry ''description'' ''Set default temperature for openai/* models.'',
           str_entry ''path'' ''temperature'',
           str_entry ''mode'' ''set'',
           (js ''value'', JNum (round_double (7 / 10))),
           (js ''conditions'', JArr [JObj [str_entry ''path'' ''model'', str_entry ''mode'' ''prefix'',
              str_entry ''value'' ''openai/'']]),
           str_entry ''logic'' ''AND'']])]"

definition HEADER_PASSTHROUGH_TEMPLATE :: jsval where
  "HEADER_PASSTHROUGH_TEMPLATE = JObj [(js ''operations'', JArr [
     JObj [str_entry ''description'' ''Pass through X-Request-Id header to upstream.'',
           str_entry ''mode'' ''pass_headers'',
           (js ''value'', JArr [JStr (js ''X-Request-Id'')]),
           (js ''keep_origin'', JBool True)]])]"

definition GEMINI_IMAGE_4K_TEMPLATE :: jsval where
  "GEMINI_IMAGE_4K_TEMPLATE = JObj [(js ''operations'', JArr [
     JObj [str_entry ''description''
             ''Set imageSize to 4K when model contains gemini/image and ends with 4k.'',
           str_entry ''mode'' ''set'',
           str_entry ''path'' ''generationConfig.imageConfig.imageSize'',
           str_entry ''value'' ''4K'',
           (js ''conditions'', JArr [
              JObj [str_entry ''path'' ''original_model'', str_entry ''mode'' ''contains'',
                    str_entry ''value'' ''gemini''],
              JObj [str_entry ''path'' ''original_model'', str_entry ''mode'' ''contains'',
                    str_entry ''value'' ''image''],
              JObj [str_entry ''path'' ''original_model'', str_entry ''mode'' ''suffix'',
                    str_entry ''value'' ''4k'']]),
           str_entry ''logic'' ''AND'']])]"

definition CODEX_CLI_HEADER_PASSTHROUGH_HEADERS :: "jsstring list" where
  "CODEX_CLI_HEADER_PASSTHROUGH_HEADERS =
     [js ''Originator'',
      js ''Session_id'',
      js ''User-Agent'',
      js ''X-Codex-Beta-Features'',
      js ''X-Codex-Turn-Metadata'']"

definition CLAUDE_CLI_HEADER_PASSTHROUGH_HEADERS :: "jsstring list" where
  "CLAUDE_CLI_HEADER_PASSTHROUGH_HEADERS =
     [js ''X-Stainless-Arch'',
      js ''X-Stainless-Lang'',
      js ''X-Stainless-Os'',
      js ''X-Stainless-Package-Version'',
      js ''X-Stainless-Retry-Count'',
      js ''X-Stainless-Runtime'',
      js ''X-Stainless-Runtime-Version'',
      js ''X-Stainless-Timeout'',
      js ''User-Agent'',
      js ''X-App'',
      js ''Anthropic-Beta'',
      js ''Anthropic-Dangerous-Direct-Browser-Access'',
      js ''Anthropic-Version'']"

definition buildPassHeadersTemplate :: "jsstring list \<Rightarrow> jsval" where
  "buildPassHeadersTemplate headers = JObj [(js ''operations'', JArr [
     JObj [str_entry ''mode'' ''pass_headers'', (js ''value'', JArr (map JStr headers)),
           (js ''keep_origin'', JBool True)]])]"

definition CODEX_CLI_HEADER_PASSTHROUGH_TEMPLATE :: jsval where
  "CODEX_CLI_HEADER_PASSTHROUGH_TEMPLATE = buildPassHeadersTemplate CODEX_CLI_HEADER_PASSTHROUGH_HEADERS"

definition CLAUDE_CLI_HEADER_PASSTHROUGH_TEMPLATE :: jsval where
  "CLAUDE_CLI_HEADER_PASSTHROUGH_TEMPLATE = buildPassHeadersTemplate CLAUDE_CLI_HEADER_PASSTHROUGH_HEADERS"

definition AWS_BEDROCK_ANTHROPIC_COMPAT_TEMPLATE :: jsval where
  "AWS_BEDROCK_ANTHROPIC_COMPAT_TEMPLATE = JObj [(js ''operations'', JArr [
     JObj [str_entry ''description'' ''Normalize anthropic-beta header tokens for Bedrock compatibility.'',
           str_entry ''mode'' ''set_header'',
           str_entry ''path'' ''anthropic-beta'',
           (js ''value'', JObj
         [(js ''advanced-tool-use-2025-11-20'', JStr (js ''tool-search-tool-2025-10-19'')),
          (js ''bash_20241022'', JNull),
          (js ''bash_20250124'', JNull),
          (js ''code-execution-2025-08-25'', JNull),
          (js ''compact-2026-01-12'', JStr (js ''compact-2026-01-12'')),
          (js ''computer-use-2025-01-24'', JStr (js ''computer-use-2025-01-24'')),
          (js ''computer-use-2025-11-24'', JStr (js ''computer-use-2025-11-24'')),
          (js ''context-1m-2025-08-07'', JStr (js ''context-1m-2025-08-07'')),
          (js ''context-management-2025-06-27'', JStr (js ''context-management-2025-06-27'')),
          (js ''effort-2025-11-24'', JNull),
          (js ''fast-mode-2026-02-01'', JNull),
          (js ''files-api-2025-04-14'', JNull),
          (js ''fine-grained-tool-streaming-2025-05-14'', JNull),
          (js ''interleaved-thinking-2025-05-14'', JStr (js ''interleaved-thinking-2025-05-14'')),
          (js ''mcp-client-2025-11-20'', JNull),
          (js ''mcp-client-2025-04-04'', JNull),
          (js ''mcp-servers-2025-12-04'', JNull),
          (js ''output-128k-2025-02-19'', JNull),
          (js ''structured-output-2024-03-01'', JNull),
          (js ''prompt-caching-scope-2026-01-05'', JNull),
          (js ''skills-2025-10-02'', JNull),
          (js ''structured-outputs-2025-11-13'', JNull),
          (js ''text_editor_20241022'', JNull),
          (js ''text_editor_20250124'', JNull),
          (js ''token-efficient-tools-2025-02-19'', JNull),
          (js ''tool-search-tool-2025-10-19'', JStr (js ''tool-search-tool-2025-10-19'')),
          (js ''web-fetch-2025-09-10'', JNull),
          (js ''web-search-2025-03-05'', JNull),
          (js ''oauth-2025-04-20'', JNull)])],
     JObj [str_entry ''description'' ''Remove all tools[*].custom.input_examples before upstream relay.'',
           str_entry ''mode'' ''delete'',
           str_entry ''path'' ''tools.*.custom.input_examples'']])]"

datatype preset_kind = OperationsKind | LegacyKind

record TemplatePresetConfig =
  p_label :: jsstring
  p_kind :: preset_kind
  p_payload :: jsval

definition TEMPLATE_PRESET_CONFIG :: "TemplatePresetConfig props" where
  "TEMPLATE_PRESET_CONFIG =
     [(js ''operations_default'', \<lparr>p_label = js ''New Format Template'', p_kind = OperationsKind,
         p_payload = OPERATION_TEMPLATE\<rparr>),
      (js ''legacy_default'', \<lparr>p_label = js ''Legacy Format Template'', p_kind = LegacyKind,
         p_payload = LEGACY_TEMPLATE\<rparr>),
      (js ''pass_headers_auth'', \<lparr>p_label = js ''Header Passthrough (X-Request-Id)'',
         p_kind = OperationsKind, p_payload = HEADER_PASSTHROUGH_TEMPLATE\<rparr>),
      (js ''gemini_image_4k'', \<lparr>p_label = js ''Gemini Image 4K'', p_kind = OperationsKind,
         p_payload = GEMINI_IMAGE_4K_TEMPLATE\<rparr>),
      (js ''claude_cli_headers_passthrough'', \<lparr>p_label = js ''Claude CLI Header Passthrough'',
         p_kind = OperationsKind, p_payload = CLAUDE_CLI_HEADER_PASSTHROUGH_TEMPLATE\<rparr>),
      (js ''codex_cli_headers_passthrough'', \<lparr>p_label = js ''Codex CLI Header Passthrough'',
         p_kind = OperationsKind, p_payload = CODEX_CLI_HEADER_PASSTHROUGH_TEMPLATE\<rparr>),
      (js ''aws_bedrock_anthropic_beta_override'', \<lparr>p_label = js ''AWS Bedrock Claude Compat'',
         p_kind = OperationsKind, p_payload = AWS_BEDROCK_ANTHROPIC_COMPAT_TEMPLATE\<rparr>)]"

subsection \<open>Identifiers and values\<close>

text \<open>Every identifier is made with a fresh value of the counter \<^verbatim>\<open>localIdSeed\<close>.\<close>

definition nextLocalId :: "clock \<Rightarrow> nat \<Rightarrow> jsstring \<times> nat" where
  "nextLocalId now n = (js ''po_'' @ int_str (now n) @ js ''_'' @ int_str (int n), Suc n)"

definition toValueText :: "jsval \<Rightarrow> jsstring" where
  "toValueText v = (case v of JUndef \<Rightarrow> [] | JStr s \<Rightarrow> s | _ \<Rightarrow> json_stringify v)"

definition parseLooseValue :: "jsstring \<Rightarrow> jsval" where
  "parseLooseValue valueText =
     (let raw = trim valueText
      in if raw = [] then JStr []
         else case json_parse raw of Some v \<Rightarrow> v | None \<Rightarrow> JStr raw)"

definition verifyJSON :: "jsstring \<Rightarrow> bool" where
  "verifyJSON s \<longleftrightarrow> json_parse s \<noteq> None"

subsection \<open>Normalising\<close>

definition str_or_empty :: "jsval \<Rightarrow> jsstring" where
  "str_or_empty v = (case v of JStr s \<Rightarrow> s | _ \<Rightarrow> [])"

definition mode_or :: "jsstring list \<Rightarrow> string \<Rightarrow> jsval \<Rightarrow> jsstring" where
  "mode_or modes d v = (case v of JStr s \<Rightarrow> if s \<in> set modes then s else js d | _ \<Rightarrow> js d)"

definition normalizeCondition_po :: "clock \<Rightarrow> jsval \<Rightarrow> ParamOverrideCondition act" where
  "normalizeCondition_po now condition n =
     (let (i, n') = nextLocalId now n
      in if condition = JNull then (Inl TypeError, n')
         else (Inr \<lparr>c_id = i,
                 c_path = str_or_empty (prop_of condition (js ''path'')),
                 c_mode = mode_or CONDITION_MODE_VALUES ''full'' (prop_of condition (js ''mode'')),
                 c_value_text = toValueText (prop_of condition (js ''value'')),
                 c_invert = (prop_of condition (js ''invert'') = JBool True),
                 c_pass_missing_key = (prop_of condition (js ''pass_missing_key'') = JBool True)\<rparr>, n'))"

definition createDefaultCondition :: "clock \<Rightarrow> ParamOverrideCondition act" where
  "createDefaultCondition now = normalizeCondition_po now (JObj [])"

definition normalizeOperation :: "clock \<Rightarrow> jsval \<Rightarrow> ParamOverrideOperation act" where
  "normalizeOperation now operation n =
     (let (i, n') = nextLocalId now n
      in if operation = JNull \<or> str_throws (val_or (prop_of operation (js ''logic'')) (JStr (js ''OR'')))
         then (Inl TypeError, n')
         else
           (case (case prop_of operation (js ''conditions'') of
                    JArr cs \<Rightarrow> act_map (normalizeCondition_po now) cs n'
                  | _ \<Rightarrow> (Inr [], n')) of
              (Inl e, n'') \<Rightarrow> (Inl e, n'')
            | (Inr cs, n'') \<Rightarrow>
                (Inr \<lparr>o_id = i,
                   o_description = str_or_empty (prop_of operation (js ''description'')),
                   o_path = str_or_empty (prop_of operation (js ''path'')),
                   o_mode = mode_or OPERATION_MODE_VALUES ''set'' (prop_of operation (js ''mode'')),
                   o_from = str_or_empty (prop_of operation (js ''from'')),
                   o_to = str_or_empty (prop_of operation (js ''to'')),
                   o_value_text = toValueText (prop_of operation (js ''value'')),
                   o_keep_origin = (prop_of operation (js ''keep_origin'') = JBool True),
                   o_logic =
                     (if ascii_upper (to_str (val_or (prop_of operation (js ''logic'')) (JStr (js ''OR''))))
                         = js ''AND'' then js ''AND'' else js ''OR''),
                   o_conditions = cs\<rparr>, n'')))"

definition createDefaultOperation :: "clock \<Rightarrow> ParamOverrideOperation act" where
  "createDefaultOperation now = normalizeOperation now (JObj [str_entry ''mode'' ''set''])"

subsection \<open>The list of operations\<close>

datatype drop_position = Before | After

fun find_idx :: "('a \<Rightarrow> bool) \<Rightarrow> 'a list \<Rightarrow> nat option" where
  "find_idx P [] = None"
| "find_idx P (x # xs) = (if P x then Some 0 else map_option Suc (find_idx P xs))"

definition reorderOperations ::
  "ParamOverrideOperation list \<Rightarrow> jsstring \<Rightarrow> jsstring \<Rightarrow> drop_position \<Rightarrow> ParamOverrideOperation list" where
  "reorderOperations ops sourceId targetId position =
     (if sourceId = [] \<or> targetId = [] \<or> sourceId = targetId then ops
      else
        (case find_idx (\<lambda>x. o_id x = sourceId) ops of
           None \<Rightarrow> ops
         | Some srcIdx \<Rightarrow>
             let moved = ops ! srcIdx;
                 rest = take srcIdx ops @ drop (srcIdx + 1) ops
             in (case find_idx (\<lambda>x. o_id x = targetId) rest of
                   None \<Rightarrow> ops
                 | Some i \<Rightarrow>
                     let insertIdx = (if position = After then i + 1 else i)
                     in take insertIdx rest @ moved # drop insertIdx rest)))"

definition isOperationBlank :: "ParamOverrideOperation \<Rightarrow> bool" where
  "isOperationBlank operation =
     (let hasCondition = list_ex (\<lambda>c. trim (c_path c) \<noteq> [] \<or> trim (c_value_text c) \<noteq> [] \<or>
            c_mode c \<noteq> js ''full'' \<or> c_invert c \<or> c_pass_missing_key c) (o_conditions operation)
      in o_mode operation = js ''set'' \<and> trim (o_path operation) = [] \<and> trim (o_from operation) = [] \<and>
         trim (o_to operation) = [] \<and> trim (o_value_text operation) = [] \<and>
         \<not> o_keep_origin operation \<and> \<not> hasCondition)"

definition getOperationSummary :: "ParamOverrideOperation \<Rightarrow> nat \<Rightarrow> jsstring" where
  "getOperationSummary operation index =
     (let mode = str_or (o_mode operation) (js ''set'');
          modeLabel = or_str (props_get OPERATION_MODE_LABEL_MAP mode) mode;
          path = trim (o_path operation);
          frm = trim (o_from operation);
          to = trim (o_to operation);
          shown = (if mode = js ''sync_fields'' then str_or frm (str_or to (js ''-''))
                   else str_or path (str_or frm (str_or to (js ''-''))))
      in int_str (int index + 1) @ js ''. '' @ modeLabel @ [32, 183, 32] @ shown)"

definition getModeTagTailwind :: "jsstring \<Rightarrow> jsstring" where
  "getModeTagTailwind mode =
     (if str_includes mode (js ''header'')
      then js ''bg-cyan-500/15 text-cyan-700 dark:text-cyan-300 border-cyan-500/20''
      else if str_includes mode (js ''replace'') \<or> str_includes mode (js ''trim'')
      then js ''bg-violet-500/15 text-violet-700 dark:text-violet-300 border-violet-500/20''
      else if str_includes mode (js ''copy'') \<or> str_includes mode (js ''move'')
      then js ''bg-blue-500/15 text-blue-700 dark:text-blue-300 border-blue-500/20''
      else if str_includes mode (js ''error'') \<or> str_includes mode (js ''prune'')
      then js ''bg-red-500/15 text-red-700 dark:text-red-300 border-red-500/20''
      else if str_includes mode (js ''sync'')
      then js ''bg-green-500/15 text-green-700 dark:text-green-300 border-green-500/20''
      else js ''bg-muted text-muted-foreground'')"

subsection \<open>Labels of a mode\<close>

definition getModePathLabel :: "jsstring \<Rightarrow> jsstring" where
  "getModePathLabel mode =
     (if mode = js ''set_header'' \<or> mode = js ''delete_header'' then js ''Header Name''
      else if mode = js ''prune_objects'' then js ''Target Path (optional)''
      else js ''Target Field Path'')"

definition getModePathPlaceholder :: "jsstring \<Rightarrow> jsstring" where
  "getModePathPlaceholder mode =
     (if mode = js ''set_header'' then js ''Authorization''
      else if mode = js ''delete_header'' then js ''X-Debug-Mode''
      else if mode = js ''prune_objects'' then js ''messages''
      else js ''temperature'')"

definition getModeFromLabel :: "jsstring \<Rightarrow> jsstring" where
  "getModeFromLabel mode =
     (if mode = js ''replace'' then js ''Match Text''
      else if mode = js ''regex_replace'' then js ''Regex Pattern''
      else if mode = js ''copy_header'' \<or> mode = js ''move_header'' then js ''Source Header''
      else js ''Source Field'')"

definition getModeFromPlaceholder :: "jsstring \<Rightarrow> jsstring" where
  "getModeFromPlaceholder mode =
     (if mode = js ''replace'' then js ''openai/''
      else if mode = js ''regex_replace'' then js ''^gpt-''
      else if mode = js ''copy_header'' \<or> mode = js ''move_header'' then js ''Authorization''
      else js ''model'')"

definition getModeToLabel :: "jsstring \<Rightarrow> jsstring" where
  "getModeToLabel mode =
     (if mode = js ''replace'' \<or> mode = js ''regex_replace'' then js ''Replace With''
      else if mode = js ''copy_header'' \<or> mode = js ''move_header'' then js ''Target Header''
      else js ''Target Field'')"

definition getModeToPlaceholder :: "jsstring \<Rightarrow> jsstring" where
  "getModeToPlaceholder mode =
     (if mode = js ''replace'' then js ''(leave empty to delete)''
      else if mode = js ''regex_replace'' then js ''openai/gpt-''
      else if mode = js ''copy_header'' \<or> mode = js ''move_header'' then js ''X-Upstream-Auth''
      else js ''original_model'')"

definition getModeValueLabel :: "jsstring \<Rightarrow> jsstring" where
  "getModeValueLabel mode =
     (if mode = js ''set_header'' then js ''Header Value (supports string or JSON mapping)''
      else if mode = js ''pass_headers'' then js ''Pass-through Headers (comma-separated or JSON array)''
      else if mode = js ''trim_prefix'' \<or> mode = js ''trim_suffix'' \<or>
              mode = js ''ensure_prefix'' \<or> mode = js ''ensure_suffix'' then js ''Prefix/Suffix Text''
      else if mode = js ''prune_objects'' then js ''Prune Rule (string or JSON object)''
      else js ''Value (supports JSON or plain text)'')"

definition getModeValuePlaceholder :: "jsstring \<Rightarrow> jsstring" where
  "getModeValuePlaceholder mode =
     (if mode = js ''set_header'' then js ''Bearer sk-xxx''
      else if mode = js ''pass_headers'' then js ''Authorization, X-Request-Id''
      else if mode = js ''trim_prefix'' \<or> mode = js ''trim_suffix'' \<or>
              mode = js ''ensure_prefix'' \<or> mode = js ''ensure_suffix'' then js ''openai/''
      else if mode = js ''prune_objects'' then js ''{\"type\":\"redacted_thinking\"}''
      else js ''0.7'')"

subsection \<open>Targets of \<open>sync_fields\<close>\<close>

text \<open>The type and the key of a target.\<close>

definition parseSyncTargetSpec :: "jsstring \<Rightarrow> jsstring \<times> jsstring" where
  "parseSyncTargetSpec spec =
     (let raw = trim spec
      in if raw = [] then (js ''json'', [])
         else case find_sub (js '':'') raw of
                None \<Rightarrow> (js ''json'', raw)
              | Some idx \<Rightarrow>
                  let prefix = ascii_lower (trim (take idx raw));
                      key = trim (drop (idx + 1) raw)
                  in if prefix = js ''header'' then (js ''header'', key) else (js ''json'', key))"

definition buildSyncTargetSpec :: "jsstring \<Rightarrow> jsstring \<Rightarrow> jsstring" where
  "buildSyncTargetSpec type key =
     (let normalizedType = (if type = js ''header'' then js ''header'' else js ''json'');
          normalizedKey = trim key
      in if normalizedKey = [] then [] else normalizedType @ js '':'' @ normalizedKey)"

subsection \<open>Drafts of \<open>return_error\<close>\<close>

record ReturnErrorDraft =
  d_message :: jsstring
  d_statusCode :: jsnum
  d_code :: jsstring
  d_type :: jsstring
  d_skipRetry :: bool
  d_simpleMode :: bool

definition status_or_400 :: "jsnum \<Rightarrow> jsnum" where
  "status_or_400 x =
     (if num_is_integer x \<and> num_le (Fin 100) x \<and> num_le x (Fin 599) then x else Fin 400)"

definition parseReturnErrorDraft :: "jsstring \<Rightarrow> ReturnErrorDraft" where
  "parseReturnErrorDraft valueText =
     (let defaults = \<lparr>d_message = [], d_statusCode = Fin 400, d_code = [], d_type = [],
            d_skipRetry = True, d_simpleMode = True\<rparr>;
          raw = trim valueText;
          plain = defaults\<lparr>d_message := raw, d_simpleMode := True\<rparr>
      in if raw = [] then defaults
         else case json_parse raw of
                None \<Rightarrow> plain
              | Some parsed \<Rightarrow>
                  (case as_plain_object parsed of
                     None \<Rightarrow> plain
                   | Some p \<Rightarrow>
                       let statusRaw = (if val_at p (js ''status_code'') \<noteq> JUndef
                             then val_at p (js ''status_code'') else val_at p (js ''status''));
                           message = val_or (val_at p (js ''message'')) (val_or (val_at p (js ''msg'')) (JStr []));
                           code = val_or (val_at p (js ''code'')) (JStr []);
                           type = val_or (val_at p (js ''type'')) (JStr [])
                       in if list_ex str_throws [statusRaw, message, code, type] then plain
                          else defaults\<lparr>
                         d_message := trim (to_str message),
                         d_statusCode := status_or_400 (to_number statusRaw),
                         d_code := trim (to_str code),
                         d_type := trim (to_str type),
                         d_skipRetry := (val_at p (js ''skip_retry'') \<noteq> JBool False),
                         d_simpleMode := False\<rparr>))"

definition buildReturnErrorValueText :: "ReturnErrorDraft \<Rightarrow> jsstring" where
  "buildReturnErrorValueText draft =
     (let message = trim (d_message draft)
      in if d_simpleMode draft then message
         else
           let payload0 = [(js ''message'', JStr message),
                           (js ''status_code'', JNum (status_or_400 (d_statusCode draft)))];
               code = trim (d_code draft);
               type = trim (d_type draft);
               payload1 = (if code \<noteq> [] then props_set payload0 (js ''code'') (JStr code) else payload0);
               payload2 = (if type \<noteq> [] then props_set payload1 (js ''type'') (JStr type) else payload1);
               payload3 = (if \<not> d_skipRetry draft
                           then props_set payload2 (js ''skip_retry'') (JBool False) else payload2)
           in json_stringify (JObj payload3))"

subsection \<open>Drafts of \<open>prune_objects\<close>\<close>

text \<open>\<^verbatim>\<open>PruneRule\<close> has the properties of \<^verbatim>\<open>ParamOverrideCondition\<close>, hence is the same structural type.\<close>

type_synonym PruneRule = ParamOverrideCondition

record PruneObjectsDraft =
  pd_simpleMode :: bool
  pd_typeText :: jsstring
  pd_logic :: jsstring
  pd_recursive :: bool
  pd_rules :: "PruneRule list"

text \<open>Its callers pass objects only, so it does not throw.\<close>

definition normalizePruneRule :: "clock \<Rightarrow> jsval \<Rightarrow> nat \<Rightarrow> PruneRule \<times> nat" where
  "normalizePruneRule now rule n =
     (let (i, n') = nextLocalId now n
      in (\<lparr>c_id = i,
            c_path = str_or_empty (prop_of rule (js ''path'')),
            c_mode = mode_or CONDITION_MODE_VALUES ''full'' (prop_of rule (js ''mode'')),
            c_value_text = toValueText (prop_of rule (js ''value'')),
            c_invert = (prop_of rule (js ''invert'') = JBool True),
            c_pass_missing_key = (prop_of rule (js ''pass_missing_key'') = JBool True)\<rparr>, n'))"

text \<open>The rules pushed one after the other.\<close>

fun prune_rules :: "clock \<Rightarrow> jsval list \<Rightarrow> nat \<Rightarrow> PruneRule list \<times> nat" where
  "prune_rules now [] n = ([], n)"
| "prune_rules now (v # vs) n =
     (let (r, n') = normalizePruneRule now v n; (rs, n'') = prune_rules now vs n'
      in (r # rs, n''))"

definition entry_rule :: "jsstring \<times> jsval \<Rightarrow> jsval" where
  "entry_rule kv = JObj [(js ''path'', JStr (fst kv)), str_entry ''mode'' ''full'', (js ''value'', snd kv)]"

definition is_object_like :: "jsval \<Rightarrow> bool" where
  "is_object_like v \<longleftrightarrow> (case v of JArr xs \<Rightarrow> True | JObj p \<Rightarrow> True | _ \<Rightarrow> False)"

definition where_rules :: "jsval props \<Rightarrow> jsval list" where
  "where_rules parsed =
     (case as_plain_object (val_at parsed (js ''where'')) of Some w \<Rightarrow> map entry_rule w | None \<Rightarrow> [])"

definition condition_rules :: "jsval props \<Rightarrow> jsval list" where
  "condition_rules parsed =
     (case val_at parsed (js ''conditions'') of
        JArr items \<Rightarrow> filter is_object_like items
      | JObj c \<Rightarrow> map entry_rule c
      | _ \<Rightarrow> [])"

definition prune_defaults :: PruneObjectsDraft where
  "prune_defaults = \<lparr>pd_simpleMode = True, pd_typeText = [], pd_logic = js ''AND'', pd_recursive = True,
     pd_rules = []\<rparr>"

definition parsePruneObjectsDraft :: "clock \<Rightarrow> jsstring \<Rightarrow> nat \<Rightarrow> PruneObjectsDraft \<times> nat" where
  "parsePruneObjectsDraft now valueText n =
     (let raw = trim valueText
      in if raw = [] then (prune_defaults, n)
         else case json_parse raw of
                None \<Rightarrow> (prune_defaults\<lparr>pd_typeText := raw\<rparr>, n)
              | Some (JStr s) \<Rightarrow> (prune_defaults\<lparr>pd_typeText := trim s\<rparr>, n)
              | Some (JObj parsed) \<Rightarrow>
                  let (rules, n') = prune_rules now (where_rules parsed @ condition_rules parsed) n;
                      typ = val_at parsed (js ''type'');
                      typeText = (if typ = JUndef then [] else trim (to_str typ));
                      logic = (if ascii_upper (to_str (val_or (val_at parsed (js ''logic''))
                                 (JStr (js ''AND'')))) = js ''OR'' then js ''OR'' else js ''AND'');
                      recursive = (val_at parsed (js ''recursive'') \<noteq> JBool False);
                      hasAdvancedFields =
                        (val_at parsed (js ''logic'') \<noteq> JUndef \<or> val_at parsed (js ''recursive'') \<noteq> JUndef \<or>
                         val_at parsed (js ''where'') \<noteq> JUndef \<or> val_at parsed (js ''conditions'') \<noteq> JUndef)
                  in if str_throws typ \<or> str_throws (val_or (val_at parsed (js ''logic'')) (JStr (js ''AND'')))
                     then (prune_defaults\<lparr>pd_typeText := raw\<rparr>, n')
                     else (\<lparr>pd_simpleMode = \<not> hasAdvancedFields, pd_typeText = typeText, pd_logic = logic,
                       pd_recursive = recursive, pd_rules = rules\<rparr>, n')
              | Some v \<Rightarrow>
                  (prune_defaults\<lparr>pd_typeText := (if str_throws v then raw else trim (to_str (or_empty_str v)))\<rparr>, n))"

definition prune_condition_payload :: "PruneRule \<Rightarrow> jsval" where
  "prune_condition_payload rule =
     (let p0 = [(js ''path'', JStr (trim (c_path rule))),
                (js ''mode'', JStr (if c_mode rule \<in> set CONDITION_MODE_VALUES then c_mode rule else js ''full''))];
          valueRaw = trim (c_value_text rule);
          p1 = (if valueRaw \<noteq> [] then props_set p0 (js ''value'') (parseLooseValue valueRaw) else p0);
          p2 = (if c_invert rule then props_set p1 (js ''invert'') (JBool True) else p1);
          p3 = (if c_pass_missing_key rule then props_set p2 (js ''pass_missing_key'') (JBool True) else p2)
      in JObj p3)"

definition buildPruneObjectsValueText :: "PruneObjectsDraft \<Rightarrow> jsstring" where
  "buildPruneObjectsValueText draft =
     (let typeText = trim (pd_typeText draft)
      in if pd_simpleMode draft then typeText
         else
           let p0 = (if typeText \<noteq> [] then props_set [] (js ''type'') (JStr typeText) else []);
               p1 = (if ascii_upper (str_or (pd_logic draft) (js ''AND'')) = js ''OR''
                     then props_set p0 (js ''logic'') (JStr (js ''OR'')) else p0);
               p2 = (if \<not> pd_recursive draft then props_set p1 (js ''recursive'') (JBool False) else p1);
               conditions = map prune_condition_payload
                 (filter (\<lambda>rule. trim (c_path rule) \<noteq> []) (pd_rules draft));
               payload = (if conditions \<noteq> [] then props_set p2 (js ''conditions'') (JArr conditions) else p2)
           in if \<not> truthy (val_at payload (js ''type'')) \<and> \<not> truthy (val_at payload (js ''conditions''))
              then json_stringify (JObj [str_entry ''logic'' ''AND''])
              else json_stringify (JObj payload))"

subsection \<open>Header names of \<open>pass_headers\<close>\<close>

definition header_names :: "jsval list \<Rightarrow> po_error + jsstring list" where
  "header_names vs =
     (if list_ex str_throws vs then Inl TypeError
      else Inr (filter (\<lambda>h. h \<noteq> []) (map (\<lambda>i. trim (to_str (or_empty_str i))) vs)))"

definition parsePassHeaderNames :: "jsval \<Rightarrow> po_error + jsstring list" where
  "parsePassHeaderNames rawValue =
     (case rawValue of
        JArr items \<Rightarrow> header_names items
      | JObj obj \<Rightarrow>
          (case val_at obj (js ''headers'') of
             JArr items \<Rightarrow> header_names items
           | _ \<Rightarrow>
               if val_at obj (js ''header'') \<noteq> JUndef
               then if str_throws (val_at obj (js ''header'')) then Inl TypeError
                    else let single = trim (to_str (or_empty_str (val_at obj (js ''header''))))
                         in Inr (if single \<noteq> [] then [single] else [])
               else Inr [])
      | JStr s \<Rightarrow> Inr (filter (\<lambda>h. h \<noteq> []) (map trim (split_on 44 s)))
      | _ \<Rightarrow> Inr [])"

subsection \<open>Conditions and validation\<close>

definition buildConditionPayload :: "ParamOverrideCondition \<Rightarrow> jsval option" where
  "buildConditionPayload condition =
     (let path = trim (c_path condition)
      in if path = [] then None
         else
           let p0 = [(js ''path'', JStr path),
                     (js ''mode'', JStr (str_or (c_mode condition) (js ''full''))),
                     (js ''value'', parseLooseValue (c_value_text condition))];
               p1 = (if c_invert condition then props_set p0 (js ''invert'') (JBool True) else p0);
               p2 = (if c_pass_missing_key condition
                     then props_set p1 (js ''pass_missing_key'') (JBool True) else p1)
           in Some (JObj p2))"

text \<open>The loop body of the validation: \<open>Some (Inr m)\<close> is the message that it returns, \<open>Some (Inl TypeError)\<close> a
  throw. The check of a custom error is in a \<^verbatim>\<open>try\<close> block whose handler does nothing.\<close>

definition check_operation :: "translate \<Rightarrow> nat \<Rightarrow> ParamOverrideOperation \<Rightarrow> (po_error + jsstring) option" where
  "check_operation t i op =
     (let mode = str_or (o_mode op) (js ''set'');
          meta = meta_of mode;
          err = (\<lambda>m. Some (Inr (t (js m) (Some (i + 1)))));
          pathValue = trim (o_path op);
          fromValue = trim (o_from op);
          toValue = trim (o_to op);
          raw = trim (o_value_text op)
      in if m_path meta \<and> pathValue = [] then err ''Rule {{line}} is missing target path''
         else if mode \<in> set FROM_REQUIRED_MODES \<and> fromValue = [] \<and> \<not> (m_pathAlias meta \<and> pathValue \<noteq> [])
              then err ''Rule {{line}} is missing source field''
         else if mode \<in> set TO_REQUIRED_MODES \<and> toValue = [] \<and> \<not> (m_pathAlias meta \<and> pathValue \<noteq> [])
              then err ''Rule {{line}} is missing target field''
         else if mode \<in> set VALUE_REQUIRED_MODES \<and> raw = []
              then err ''Rule {{line}} is missing value''
         else if mode = js ''return_error'' \<and> raw = []
              then err ''Rule {{line}} is missing value''
         else if mode = js ''return_error'' \<and>
                 (case json_parse raw of
                    Some (JObj p) \<Rightarrow>
                      let message = val_or (val_at p (js ''message'')) (JStr [])
                      in \<not> str_throws message \<and> trim (to_str message) = []
                  | _ \<Rightarrow> False)
              then err ''Rule {{line}} return_error requires a message field''
         else if mode = js ''prune_objects'' \<and> raw = []
              then err ''Rule {{line}} prune_objects is missing conditions''
         else if mode = js ''pass_headers'' \<and> raw = []
              then err ''Rule {{line}} pass_headers is missing header names''
         else if mode = js ''pass_headers'' \<and> isl (parsePassHeaderNames (parseLooseValue raw))
              then Some (Inl TypeError)
         else if mode = js ''pass_headers'' \<and> parsePassHeaderNames (parseLooseValue raw) = Inr []
              then err ''Rule {{line}} pass_headers format is invalid''
         else None)"

fun check_operations :: "translate \<Rightarrow> nat \<Rightarrow> ParamOverrideOperation list \<Rightarrow> po_error + jsstring" where
  "check_operations t i [] = Inr []"
| "check_operations t i (op # ops) =
     (case check_operation t i op of Some m \<Rightarrow> m | None \<Rightarrow> check_operations t (i + 1) ops)"

definition validateOperations :: "translate \<Rightarrow> ParamOverrideOperation list \<Rightarrow> po_error + jsstring" where
  "validateOperations t operations = check_operations t 0 operations"

subsection \<open>Loading and printing\<close>

datatype edit_mode = VisualEdit | JsonEdit
datatype visual_mode = OperationsMode | LegacyMode

record EditorState =
  e_editMode :: edit_mode
  e_visualMode :: visual_mode
  e_legacyValue :: jsstring
  e_operations :: "ParamOverrideOperation list"
  e_jsonText :: jsstring
  e_jsonError :: jsstring

definition act_bind :: "'a act \<Rightarrow> ('a \<Rightarrow> 'b act) \<Rightarrow> 'b act" where
  "act_bind m f n = (case m n of (Inl e, n') \<Rightarrow> (Inl e, n') | (Inr x, n') \<Rightarrow> f x n')"

definition act_return :: "'a \<Rightarrow> 'a act" where
  "act_return x n = (Inr x, n)"

text \<open>The operations of a parsed configuration, as the dialog builds them in two places: the given
  ones, or one default operation when there is none.\<close>

definition operations_or_default :: "clock \<Rightarrow> jsval list \<Rightarrow> ParamOverrideOperation list act" where
  "operations_or_default now vs =
     (if length vs > 0 then act_map (normalizeOperation now) vs
      else act_bind (createDefaultOperation now) (\<lambda>op. act_return [op]))"

text \<open>\<^verbatim>\<open>parsed && typeof parsed === 'object' && !Array.isArray(parsed) && Array.isArray(parsed.operations)\<close>\<close>

definition operations_of :: "jsval \<Rightarrow> jsval list option" where
  "operations_of parsed =
     (case as_plain_object parsed of
        Some p \<Rightarrow> (case val_at p (js ''operations'') of JArr vs \<Rightarrow> Some vs | _ \<Rightarrow> None)
      | None \<Rightarrow> None)"

definition parseInitialState :: "clock \<Rightarrow> jsstring \<Rightarrow> EditorState act" where
  "parseInitialState now rawValue =
     (let trimmed = trim rawValue;
          default_with = (\<lambda>st. act_bind (createDefaultOperation now) (\<lambda>op. act_return (st\<lparr>e_operations := [op]\<rparr>)));
          blank = \<lparr>e_editMode = VisualEdit, e_visualMode = OperationsMode, e_legacyValue = [],
                   e_operations = [], e_jsonText = [], e_jsonError = []\<rparr>
      in if trimmed = [] then default_with blank
         else case json_parse trimmed of
                None \<Rightarrow> default_with (blank\<lparr>e_editMode := JsonEdit, e_jsonText := rawValue,
                          e_jsonError := js ''Invalid JSON format''\<rparr>)
              | Some parsed \<Rightarrow>
                  let pretty = json_stringify2 parsed
                  in case operations_of parsed of
                       Some vs \<Rightarrow>
                         act_bind (operations_or_default now vs)
                           (\<lambda>ops. act_return (blank\<lparr>e_operations := ops, e_jsonText := pretty\<rparr>))
                     | None \<Rightarrow>
                         if as_plain_object parsed \<noteq> None
                         then default_with (blank\<lparr>e_visualMode := LegacyMode, e_legacyValue := pretty,
                                e_jsonText := pretty\<rparr>)
                         else default_with (blank\<lparr>e_editMode := JsonEdit, e_jsonText := pretty\<rparr>))"

text \<open>The payload of one operation: the assignments in the order of the source.\<close>

definition operation_payload :: "ParamOverrideOperation \<Rightarrow> jsval" where
  "operation_payload operation =
     (let mode = str_or (o_mode operation) (js ''set'');
          meta = meta_of mode;
          put = (\<lambda>c k v p. if c then props_set p (js k) v else p);
          descriptionValue = trim (o_description operation);
          pathValue = trim (o_path operation);
          fromValue = trim (o_from operation);
          toValue = trim (o_to operation);
          p0 = [(js ''mode'', JStr mode)];
          p1 = put (descriptionValue \<noteq> []) ''description'' (JStr descriptionValue) p0;
          p2 = put (m_path meta) ''path'' (JStr pathValue) p1;
          p3 = put (m_pathOptional meta \<and> pathValue \<noteq> []) ''path'' (JStr pathValue) p2;
          p4 = put (m_value meta) ''value'' (parseLooseValue (o_value_text operation)) p3;
          p5 = put (m_keepOrigin meta \<and> o_keep_origin operation) ''keep_origin'' (JBool True) p4;
          p6 = put (m_from meta) ''from'' (JStr fromValue) p5;
          p7 = put (m_to meta \<noteq> Some True \<and> toValue \<noteq> []) ''to'' (JStr toValue) p6;
          p8 = put (m_to meta = Some True) ''to'' (JStr toValue) p7;
          p9 = put (m_pathAlias meta \<and> \<not> truthy (val_at p8 (js ''from'')) \<and> pathValue \<noteq> [])
                 ''from'' (JStr pathValue) p8;
          p10 = put (m_pathAlias meta \<and> \<not> truthy (val_at p9 (js ''to'')) \<and> pathValue \<noteq> [])
                 ''to'' (JStr pathValue) p9;
          conditions = List.map_filter buildConditionPayload (o_conditions operation);
          p11 = put (conditions \<noteq> []) ''conditions'' (JArr conditions) p10;
          p12 = put (conditions \<noteq> []) ''logic''
                 (JStr (if o_logic operation = js ''AND'' then js ''AND'' else js ''OR'')) p11
      in JObj p12)"

text \<open>A thrown error is represented by its message, which is all that the handlers read; the message of
  the \<^verbatim>\<open>TypeError\<close> is the engine's.\<close>

definition CONVERSION_MESSAGE :: jsstring where
  "CONVERSION_MESSAGE = js ''Cannot convert object to primitive value''"

definition buildOperationsJson ::
  "translate \<Rightarrow> bool \<Rightarrow> ParamOverrideOperation list \<Rightarrow> jsstring + jsstring" where
  "buildOperationsJson t validate sourceOperations =
     (let filteredOps = filter (\<lambda>x. \<not> isOperationBlank x) sourceOperations;
          message = (if validate
                     then (case validateOperations t filteredOps of Inl TypeError \<Rightarrow> CONVERSION_MESSAGE | Inr m \<Rightarrow> m)
                     else [])
      in if length filteredOps = 0 then Inr []
         else if message \<noteq> [] then Inl message
         else Inr (json_stringify2 (JObj [(js ''operations'', JArr (map operation_payload filteredOps))])))"

end
