(* ===== verification/ParamOverrideDialog.thy ===== *)
theory ParamOverrideDialog
  imports ParamOverride
begin

text \<open>
  The state and the handlers of the React component \<^verbatim>\<open>ParamOverrideEditorDialog\<close> in
  \<^verbatim>\<open>param-override-editor-dialog.tsx\<close> and of the editors it renders.

  The record \<open>dialog\<close> has one field per \<^verbatim>\<open>useState\<close>; the first six are those of \<^verbatim>\<open>EditorState\<close>.
  \<open>seed\<close> is the module variable \<^verbatim>\<open>localIdSeed\<close>. A handler maps the state to the next state and the
  list of its visible effects: toasts, the saved text, closing, an exception that leaves the handler.
  The step relation \<open>po_step\<close> runs one event and then the effect that keeps the selection valid.
  An updater function passed to a \<^verbatim>\<open>useState\<close> setter runs once.
\<close>

record dialog = EditorState +
  operationSearch :: jsstring
  selectedOperationId :: jsstring
  expandedConditions :: "bool props"
  draggedOperationId :: jsstring
  dragOverOperationId :: jsstring
  dragOverPosition :: drop_position
  templatePresetKey :: jsstring
  seed :: nat

datatype effect = Toast jsstring | Saved jsstring | Closed | Uncaught po_error

type_synonym handled = "dialog \<times> effect list"

text \<open>A handler whose computation \<open>m\<close> throws leaves the state as it is, but for the identifiers it
  has used up.\<close>

definition with_act :: "'a act \<Rightarrow> dialog \<Rightarrow> ('a \<Rightarrow> dialog \<Rightarrow> handled) \<Rightarrow> handled" where
  "with_act m d k =
     (case m (seed d) of
        (Inl e, n) \<Rightarrow> (d\<lparr>seed := n\<rparr>, [Uncaught e])
      | (Inr x, n) \<Rightarrow> k x (d\<lparr>seed := n\<rparr>))"

subsection \<open>Opening, and the selection\<close>

definition first_id :: "ParamOverrideOperation list \<Rightarrow> jsstring" where
  "first_id ops = (case ops of [] \<Rightarrow> [] | op # _ \<Rightarrow> o_id op)"

definition initialize_dialog :: "clock \<Rightarrow> jsstring \<Rightarrow> dialog \<Rightarrow> handled" where
  "initialize_dialog now val d =
     with_act (parseInitialState now val) d (\<lambda>state d'. (d'\<lparr>
       e_editMode := e_editMode state,
       e_visualMode := e_visualMode state,
       e_legacyValue := e_legacyValue state,
       e_operations := e_operations state,
       e_jsonText := e_jsonText state,
       e_jsonError := e_jsonError state,
       operationSearch := [],
       selectedOperationId := first_id (e_operations state),
       expandedConditions := [],
       draggedOperationId := [],
       dragOverOperationId := [],
       dragOverPosition := Before,
       templatePresetKey := (if e_visualMode state = LegacyMode then js ''legacy_default''
                             else js ''operations_default'')\<rparr>, []))"

definition keep_selection_valid :: "dialog \<Rightarrow> dialog" where
  "keep_selection_valid d =
     (if length (e_operations d) = 0 then d\<lparr>selectedOperationId := []\<rparr>
      else if \<not> list_ex (\<lambda>x. o_id x = selectedOperationId d) (e_operations d)
           then d\<lparr>selectedOperationId := first_id (e_operations d)\<rparr>
      else d)"

subsection \<open>Derived values\<close>

definition operationCount :: "dialog \<Rightarrow> nat" where
  "operationCount d = length (filter (\<lambda>x. \<not> isOperationBlank x) (e_operations d))"

text \<open>\<open>lower\<close> is \<^verbatim>\<open>toLowerCase\<close>.\<close>

definition filteredOperations ::
  "(jsstring \<Rightarrow> jsstring) \<Rightarrow> dialog \<Rightarrow> ParamOverrideOperation list" where
  "filteredOperations lower d =
     (let keyword = lower (trim (operationSearch d))
      in if keyword = [] then e_operations d
         else filter (\<lambda>op. str_includes
                (lower (join [32] (filter (\<lambda>s. s \<noteq> [])
                   [o_description op, o_mode op, o_path op, o_from op, o_to op, o_value_text op])))
                keyword) (e_operations d))"

definition selectedOperation :: "dialog \<Rightarrow> ParamOverrideOperation option" where
  "selectedOperation d = find (\<lambda>x. o_id x = selectedOperationId d) (e_operations d)"

definition selectedOperationIndex :: "dialog \<Rightarrow> nat option" where
  "selectedOperationIndex d = find_idx (\<lambda>x. o_id x = selectedOperationId d) (e_operations d)"

definition returnErrorDraft :: "dialog \<Rightarrow> ReturnErrorDraft option" where
  "returnErrorDraft d =
     (case selectedOperation d of
        None \<Rightarrow> None
      | Some op \<Rightarrow> if o_mode op \<noteq> js ''return_error'' then None
                   else Some (parseReturnErrorDraft (o_value_text op)))"

text \<open>Rendering the draft makes identifiers for its rules.\<close>

definition pruneObjectsDraft :: "clock \<Rightarrow> dialog \<Rightarrow> PruneObjectsDraft option \<times> dialog" where
  "pruneObjectsDraft now d =
     (case selectedOperation d of
        None \<Rightarrow> (None, d)
      | Some op \<Rightarrow>
          if o_mode op \<noteq> js ''prune_objects'' then (None, d)
          else let (draft, n) = parsePruneObjectsDraft now (o_value_text op) (seed d)
               in (Some draft, d\<lparr>seed := n\<rparr>))"

definition mode_counts :: "ParamOverrideOperation list \<Rightarrow> int props" where
  "mode_counts ops =
     foldl (\<lambda>counts op. let mode = str_or (o_mode op) (js ''set'')
        in props_set counts mode ((case props_get counts mode of Some k \<Rightarrow> k | None \<Rightarrow> 0) + 1)) [] ops"

definition topOperationModes :: "dialog \<Rightarrow> (jsstring \<times> int) list" where
  "topOperationModes d = take 4 (sort_key (\<lambda>kv. - snd kv) (mode_counts (e_operations d)))"

subsection \<open>Operations\<close>

text \<open>\<^verbatim>\<open>{ ...o, ...patch }\<close>: no caller patches the identifier or the conditions.\<close>

record operation_patch =
  pt_description :: "jsstring option"
  pt_path :: "jsstring option"
  pt_mode :: "jsstring option"
  pt_from :: "jsstring option"
  pt_to :: "jsstring option"
  pt_value_text :: "jsstring option"
  pt_keep_origin :: "bool option"
  pt_logic :: "jsstring option"

definition no_patch :: operation_patch where
  "no_patch = \<lparr>pt_description = None, pt_path = None, pt_mode = None, pt_from = None, pt_to = None,
     pt_value_text = None, pt_keep_origin = None, pt_logic = None\<rparr>"

definition opt_or :: "'a option \<Rightarrow> 'a \<Rightarrow> 'a" where
  "opt_or x d = (case x of Some v \<Rightarrow> v | None \<Rightarrow> d)"

definition patch_operation :: "operation_patch \<Rightarrow> ParamOverrideOperation \<Rightarrow> ParamOverrideOperation" where
  "patch_operation p op = op\<lparr>
     o_description := opt_or (pt_description p) (o_description op),
     o_path := opt_or (pt_path p) (o_path op),
     o_mode := opt_or (pt_mode p) (o_mode op),
     o_from := opt_or (pt_from p) (o_from op),
     o_to := opt_or (pt_to p) (o_to op),
     o_value_text := opt_or (pt_value_text p) (o_value_text op),
     o_keep_origin := opt_or (pt_keep_origin p) (o_keep_origin op),
     o_logic := opt_or (pt_logic p) (o_logic op)\<rparr>"

definition map_op :: "jsstring \<Rightarrow> (ParamOverrideOperation \<Rightarrow> ParamOverrideOperation) \<Rightarrow> dialog \<Rightarrow> dialog" where
  "map_op operationId f d =
     d\<lparr>e_operations := map (\<lambda>op. if o_id op = operationId then f op else op) (e_operations d)\<rparr>"

definition updateOperation :: "jsstring \<Rightarrow> operation_patch \<Rightarrow> dialog \<Rightarrow> handled" where
  "updateOperation operationId patch d = (map_op operationId (patch_operation patch) d, [])"

definition addOperation :: "clock \<Rightarrow> dialog \<Rightarrow> handled" where
  "addOperation now d =
     with_act (createDefaultOperation now) d (\<lambda>created d'.
       (d'\<lparr>e_operations := e_operations d' @ [created], selectedOperationId := o_id created\<rparr>, []))"

definition duplicate_source :: "ParamOverrideOperation \<Rightarrow> jsval" where
  "duplicate_source source = JObj
     [(js ''description'', JStr (o_description source)),
      (js ''path'', JStr (o_path source)),
      (js ''mode'', JStr (o_mode source)),
      (js ''value'', parseLooseValue (o_value_text source)),
      (js ''keep_origin'', JBool (o_keep_origin source)),
      (js ''from'', JStr (o_from source)),
      (js ''to'', JStr (o_to source)),
      (js ''logic'', JStr (o_logic source)),
      (js ''conditions'', JArr (map (\<lambda>c. JObj
         [(js ''path'', JStr (c_path c)),
          (js ''mode'', JStr (c_mode c)),
          (js ''value'', parseLooseValue (c_value_text c)),
          (js ''invert'', JBool (c_invert c)),
          (js ''pass_missing_key'', JBool (c_pass_missing_key c))]) (o_conditions source)))]"

text \<open>React runs the updater before the setter returns (\<open>eager\<close>) when no update is pending, and at
  the next rendering otherwise; then the new identifier is not known yet and the selection stays.\<close>

definition duplicateOperation :: "clock \<Rightarrow> bool \<Rightarrow> jsstring \<Rightarrow> dialog \<Rightarrow> handled" where
  "duplicateOperation now eager operationId d =
     (case find_idx (\<lambda>x. o_id x = operationId) (e_operations d) of
        None \<Rightarrow> (d, [])
      | Some idx \<Rightarrow>
          with_act (normalizeOperation now (duplicate_source (e_operations d ! idx))) d (\<lambda>cloned d'.
            let next = take (idx + 1) (e_operations d') @ cloned # drop (idx + 1) (e_operations d');
                insertedId = (if eager then o_id cloned else [])
            in (d'\<lparr>e_operations := next,
                   selectedOperationId := str_or insertedId (selectedOperationId d')\<rparr>, [])))"

definition removeOperation :: "clock \<Rightarrow> jsstring \<Rightarrow> dialog \<Rightarrow> handled" where
  "removeOperation now operationId d =
     (if length (e_operations d) \<le> 1
      then with_act (createDefaultOperation now) d (\<lambda>op d'. (d'\<lparr>e_operations := [op]\<rparr>, []))
      else (d\<lparr>e_operations := filter (\<lambda>x. o_id x \<noteq> operationId) (e_operations d)\<rparr>, []))"

subsection \<open>Conditions\<close>

definition addCondition :: "clock \<Rightarrow> jsstring \<Rightarrow> dialog \<Rightarrow> handled" where
  "addCondition now operationId d =
     with_act (createDefaultCondition now) d (\<lambda>created d'.
       ((map_op operationId (\<lambda>op. op\<lparr>o_conditions := o_conditions op @ [created]\<rparr>) d')
          \<lparr>expandedConditions := props_set (expandedConditions d') (c_id created) True\<rparr>, []))"

record condition_patch =
  cp_path :: "jsstring option"
  cp_mode :: "jsstring option"
  cp_value_text :: "jsstring option"
  cp_invert :: "bool option"
  cp_pass_missing_key :: "bool option"

definition patch_condition :: "condition_patch \<Rightarrow> ParamOverrideCondition \<Rightarrow> ParamOverrideCondition" where
  "patch_condition p c = c\<lparr>
     c_path := opt_or (cp_path p) (c_path c),
     c_mode := opt_or (cp_mode p) (c_mode c),
     c_value_text := opt_or (cp_value_text p) (c_value_text c),
     c_invert := opt_or (cp_invert p) (c_invert c),
     c_pass_missing_key := opt_or (cp_pass_missing_key p) (c_pass_missing_key c)\<rparr>"

definition updateCondition :: "jsstring \<Rightarrow> jsstring \<Rightarrow> condition_patch \<Rightarrow> dialog \<Rightarrow> handled" where
  "updateCondition operationId conditionId patch d =
     (map_op operationId (\<lambda>op. op\<lparr>o_conditions := map (\<lambda>c. if c_id c = conditionId
        then patch_condition patch c else c) (o_conditions op)\<rparr>) d, [])"

definition removeCondition :: "jsstring \<Rightarrow> jsstring \<Rightarrow> dialog \<Rightarrow> handled" where
  "removeCondition operationId conditionId d =
     (map_op operationId (\<lambda>op. op\<lparr>o_conditions :=
        filter (\<lambda>c. c_id c \<noteq> conditionId) (o_conditions op)\<rparr>) d, [])"

subsection \<open>Drafts\<close>

record error_patch =
  ep_message :: "jsstring option"
  ep_statusCode :: "jsnum option"
  ep_code :: "jsstring option"
  ep_type :: "jsstring option"
  ep_skipRetry :: "bool option"
  ep_simpleMode :: "bool option"

definition patch_error_draft :: "error_patch \<Rightarrow> ReturnErrorDraft \<Rightarrow> ReturnErrorDraft" where
  "patch_error_draft p draft = draft\<lparr>
     d_message := opt_or (ep_message p) (d_message draft),
     d_statusCode := opt_or (ep_statusCode p) (d_statusCode draft),
     d_code := opt_or (ep_code p) (d_code draft),
     d_type := opt_or (ep_type p) (d_type draft),
     d_skipRetry := opt_or (ep_skipRetry p) (d_skipRetry draft),
     d_simpleMode := opt_or (ep_simpleMode p) (d_simpleMode draft)\<rparr>"

definition updateReturnErrorDraft :: "jsstring \<Rightarrow> error_patch \<Rightarrow> dialog \<Rightarrow> handled" where
  "updateReturnErrorDraft operationId draftPatch d =
     (map_op operationId (\<lambda>op. op\<lparr>o_value_text := buildReturnErrorValueText
        (patch_error_draft draftPatch (parseReturnErrorDraft (o_value_text op)))\<rparr>) d, [])"

text \<open>An updater of a prune draft; the one that adds a rule makes an identifier.\<close>

type_synonym prune_updater = "PruneObjectsDraft \<Rightarrow> nat \<Rightarrow> PruneObjectsDraft \<times> nat"

fun prune_ops :: "clock \<Rightarrow> jsstring \<Rightarrow> prune_updater \<Rightarrow> ParamOverrideOperation list \<Rightarrow> nat \<Rightarrow>
    ParamOverrideOperation list \<times> nat" where
  "prune_ops now operationId updater [] n = ([], n)"
| "prune_ops now operationId updater (op # ops) n =
     (let (op', n1) =
            (if o_id op \<noteq> operationId then (op, n)
             else let (draft, n0) = parsePruneObjectsDraft now (o_value_text op) n;
                      (nextDraft, n1) = updater draft n0
                  in (op\<lparr>o_value_text := buildPruneObjectsValueText nextDraft\<rparr>, n1));
          (ops', n2) = prune_ops now operationId updater ops n1
      in (op' # ops', n2))"

definition updatePruneObjectsDraft :: "clock \<Rightarrow> jsstring \<Rightarrow> prune_updater \<Rightarrow> dialog \<Rightarrow> handled" where
  "updatePruneObjectsDraft now operationId updater d =
     (let (ops, n) = prune_ops now operationId updater (e_operations d) (seed d)
      in (d\<lparr>e_operations := ops, seed := n\<rparr>, []))"

record prune_patch =
  pp_simpleMode :: "bool option"
  pp_typeText :: "jsstring option"
  pp_logic :: "jsstring option"
  pp_recursive :: "bool option"

definition patch_prune_draft :: "prune_patch \<Rightarrow> prune_updater" where
  "patch_prune_draft p draft n = (draft\<lparr>
     pd_simpleMode := opt_or (pp_simpleMode p) (pd_simpleMode draft),
     pd_typeText := opt_or (pp_typeText p) (pd_typeText draft),
     pd_logic := opt_or (pp_logic p) (pd_logic draft),
     pd_recursive := opt_or (pp_recursive p) (pd_recursive draft)\<rparr>, n)"

definition addPruneRule :: "clock \<Rightarrow> jsstring \<Rightarrow> dialog \<Rightarrow> handled" where
  "addPruneRule now operationId =
     updatePruneObjectsDraft now operationId (\<lambda>draft n.
       let (rule, n') = normalizePruneRule now (JObj []) n
       in (draft\<lparr>pd_simpleMode := False, pd_rules := pd_rules draft @ [rule]\<rparr>, n'))"

definition updatePruneRule :: "clock \<Rightarrow> jsstring \<Rightarrow> jsstring \<Rightarrow> condition_patch \<Rightarrow> dialog \<Rightarrow> handled" where
  "updatePruneRule now operationId ruleId patch =
     updatePruneObjectsDraft now operationId (\<lambda>draft n.
       (draft\<lparr>pd_rules := map (\<lambda>r. if c_id r = ruleId then patch_condition patch r else r)
          (pd_rules draft)\<rparr>, n))"

definition removePruneRule :: "clock \<Rightarrow> jsstring \<Rightarrow> jsstring \<Rightarrow> dialog \<Rightarrow> handled" where
  "removePruneRule now operationId ruleId =
     updatePruneObjectsDraft now operationId (\<lambda>draft n.
       (draft\<lparr>pd_rules := filter (\<lambda>r. c_id r \<noteq> ruleId) (pd_rules draft)\<rparr>, n))"

subsection \<open>Drag and drop\<close>

definition resetDragState :: "dialog \<Rightarrow> dialog" where
  "resetDragState d = d\<lparr>draggedOperationId := [], dragOverOperationId := [], dragOverPosition := Before\<rparr>"

definition handleDragStart :: "jsstring \<Rightarrow> dialog \<Rightarrow> handled" where
  "handleDragStart operationId d =
     (d\<lparr>draggedOperationId := operationId, selectedOperationId := operationId\<rparr>, [])"

text \<open>\<open>below\<close>: the pointer is in the lower half of the element.\<close>

definition handleDragOver :: "bool \<Rightarrow> jsstring \<Rightarrow> dialog \<Rightarrow> handled" where
  "handleDragOver below operationId d =
     (if draggedOperationId d = [] \<or> draggedOperationId d = operationId then (d, [])
      else (d\<lparr>dragOverOperationId := operationId, dragOverPosition := (if below then After else Before)\<rparr>, []))"

text \<open>\<open>data\<close> is the text that the drag carries.\<close>

definition handleDrop :: "jsstring \<Rightarrow> jsstring \<Rightarrow> dialog \<Rightarrow> handled" where
  "handleDrop data operationId d =
     (let sourceId = str_or (draggedOperationId d) data;
          position = (if dragOverOperationId d = operationId then dragOverPosition d else Before);
          d' = (if sourceId \<noteq> [] \<and> operationId \<noteq> [] \<and> sourceId \<noteq> operationId
                then d\<lparr>e_operations := reorderOperations (e_operations d) sourceId operationId position,
                       selectedOperationId := sourceId\<rparr>
                else d)
      in (resetDragState d', []))"

subsection \<open>Switching between the visual editor and the text\<close>

definition buildVisualJson :: "translate \<Rightarrow> dialog \<Rightarrow> jsstring + jsstring" where
  "buildVisualJson t d =
     (if e_visualMode d = LegacyMode then
        let trimmed = trim (e_legacyValue d)
        in if trimmed = [] then Inr []
           else case json_parse trimmed of
                  None \<Rightarrow> Inl (t (js ''Parameter override must be valid JSON format'') None)
                | Some parsed \<Rightarrow>
                    if as_plain_object parsed = None
                    then Inl (t (js ''Legacy format must be a JSON object'') None)
                    else Inr (json_stringify2 parsed)
      else buildOperationsJson t True (e_operations d))"

text \<open>Printing without validation does not throw.\<close>

definition unvalidated_json :: "translate \<Rightarrow> ParamOverrideOperation list \<Rightarrow> jsstring" where
  "unvalidated_json t ops = (case buildOperationsJson t False ops of Inr s \<Rightarrow> s | Inl m \<Rightarrow> m)"

definition switchToJsonMode :: "translate \<Rightarrow> dialog \<Rightarrow> handled" where
  "switchToJsonMode t d =
     (if e_editMode d = JsonEdit then (d, [])
      else case buildVisualJson t d of
             Inr s \<Rightarrow> (d\<lparr>e_jsonText := s, e_jsonError := [], e_editMode := JsonEdit\<rparr>, [])
           | Inl message \<Rightarrow>
               (d\<lparr>e_jsonText := (if e_visualMode d = LegacyMode then e_legacyValue d
                                else unvalidated_json t (e_operations d)),
                  e_jsonError := str_or message (t (js ''Parameter configuration error'') None),
                  e_editMode := JsonEdit\<rparr>, [Toast message]))"

definition switchToVisualMode :: "clock \<Rightarrow> translate \<Rightarrow> dialog \<Rightarrow> handled" where
  "switchToVisualMode now t d =
     (if e_editMode d = VisualEdit then (d, [])
      else
        let trimmed = trim (e_jsonText d)
        in if trimmed = [] then
             with_act (createDefaultOperation now) d (\<lambda>fallback d'.
               (d'\<lparr>e_visualMode := OperationsMode, e_operations := [fallback],
                   selectedOperationId := o_id fallback, e_legacyValue := [], e_jsonError := [],
                   e_editMode := VisualEdit\<rparr>, []))
           else case json_parse trimmed of
                  None \<Rightarrow> (d, [Toast (t (js ''Parameter override must be valid JSON format'') None)])
                | Some parsed \<Rightarrow>
                    (case operations_of parsed of
                       Some vs \<Rightarrow>
                         with_act (operations_or_default now vs) d (\<lambda>nextOps d'.
                           (d'\<lparr>e_visualMode := OperationsMode, e_operations := nextOps,
                               selectedOperationId := first_id nextOps, e_legacyValue := [],
                               e_jsonError := [], e_editMode := VisualEdit,
                               templatePresetKey := js ''operations_default''\<rparr>, []))
                     | None \<Rightarrow>
                         if as_plain_object parsed \<noteq> None then
                           with_act (createDefaultOperation now) d (\<lambda>fallback d'.
                             (d'\<lparr>e_visualMode := LegacyMode, e_legacyValue := json_stringify2 parsed,
                                 e_operations := [fallback], selectedOperationId := o_id fallback,
                                 e_jsonError := [], e_editMode := VisualEdit,
                                 templatePresetKey := js ''legacy_default''\<rparr>, []))
                         else (d, [Toast (t (js ''Parameter override must be a valid JSON object'') None)])))"

subsection \<open>Templates\<close>

datatype fill_mode = Fill | Append

definition template_preset :: "jsstring \<Rightarrow> TemplatePresetConfig" where
  "template_preset key =
     (case props_get TEMPLATE_PRESET_CONFIG key of
        Some preset \<Rightarrow> preset
      | None \<Rightarrow> \<lparr>p_label = js ''New Format Template'', p_kind = OperationsKind, p_payload = OPERATION_TEMPLATE\<rparr>)"

definition set_legacy :: "clock \<Rightarrow> jsstring \<Rightarrow> dialog \<Rightarrow> handled" where
  "set_legacy now s d =
     with_act (createDefaultOperation now) d (\<lambda>op d'.
       (d'\<lparr>e_visualMode := LegacyMode, e_legacyValue := s, e_operations := [op], e_jsonText := s,
           e_jsonError := [], e_editMode := VisualEdit\<rparr>, []))"

definition fillTemplate :: "clock \<Rightarrow> translate \<Rightarrow> fill_mode \<Rightarrow> dialog \<Rightarrow> handled" where
  "fillTemplate now t mode d =
     (let preset = template_preset (templatePresetKey d);
          payload = p_payload preset;
          operationsPayload = (case prop_of payload (js ''operations'') of JArr vs \<Rightarrow> vs | _ \<Rightarrow> [])
      in if p_kind preset = LegacyKind then
           if mode = Append \<and> e_visualMode d = LegacyMode then
             let trimmed = trim (e_legacyValue d);
                 merged = (\<lambda>cur. json_stringify2 (JObj (props_assign (own_props payload) (own_props cur))))
             in if trimmed = [] then set_legacy now (merged (JObj [])) d
                else case json_parse trimmed of
                       None \<Rightarrow> (d, [Toast (t (js ''Current legacy JSON is invalid, cannot append'') None)])
                     | Some parsedCurrent \<Rightarrow> set_legacy now (merged parsedCurrent) d
           else set_legacy now (json_stringify2 payload) d
         else if mode = Append then
           with_act (act_map (normalizeOperation now) operationsPayload) d (\<lambda>appended d'.
             let existing = (if e_visualMode d' = OperationsMode
                             then filter (\<lambda>x. \<not> isOperationBlank x) (e_operations d') else []);
                 nextOps = existing @ appended
             in (d'\<lparr>e_visualMode := OperationsMode,
                    e_operations := (if length nextOps > 0 then nextOps else appended),
                    selectedOperationId := str_or (first_id nextOps) (first_id appended),
                    e_legacyValue := [], e_jsonError := [], e_editMode := VisualEdit,
                    e_jsonText := []\<rparr>, []))
         else
           with_act (operations_or_default now operationsPayload) d (\<lambda>finalOps d'.
             (d'\<lparr>e_visualMode := OperationsMode, e_operations := finalOps,
                 selectedOperationId := first_id finalOps,
                 e_jsonText := json_stringify2 (JObj [(js ''operations'', JArr operationsPayload)]),
                 e_jsonError := [], e_editMode := VisualEdit\<rparr>, [])))"

definition resetEditorState :: "clock \<Rightarrow> dialog \<Rightarrow> handled" where
  "resetEditorState now d =
     with_act (createDefaultOperation now) d (\<lambda>fallback d'.
       (d'\<lparr>e_visualMode := OperationsMode, e_legacyValue := [], e_operations := [fallback],
           selectedOperationId := o_id fallback, e_jsonText := [], e_jsonError := [],
           templatePresetKey := js ''operations_default'', e_editMode := VisualEdit\<rparr>, []))"

subsection \<open>The text editor, and saving\<close>

definition handleJsonChange :: "translate \<Rightarrow> jsstring \<Rightarrow> dialog \<Rightarrow> handled" where
  "handleJsonChange t nextValue d =
     (let trimmed = trim nextValue
      in (d\<lparr>e_jsonText := nextValue,
            e_jsonError := (if trimmed = [] then [] else if verifyJSON trimmed then []
                            else t (js ''JSON format error'') None)\<rparr>, []))"

definition formatJson :: "translate \<Rightarrow> dialog \<Rightarrow> handled" where
  "formatJson t d =
     (let trimmed = trim (e_jsonText d)
      in if trimmed = [] then (d, [])
         else case json_parse trimmed of
                None \<Rightarrow> (d, [Toast (t (js ''Parameter override must be valid JSON format'') None)])
              | Some v \<Rightarrow> (d\<lparr>e_jsonText := json_stringify2 v, e_jsonError := []\<rparr>, []))"

definition visualValidationError :: "translate \<Rightarrow> dialog \<Rightarrow> jsstring" where
  "visualValidationError t d =
     (if e_editMode d \<noteq> VisualEdit then []
      else case buildVisualJson t d of
             Inr s \<Rightarrow> []
           | Inl message \<Rightarrow> str_or message (t (js ''Parameter configuration error'') None))"

definition handleSave :: "translate \<Rightarrow> dialog \<Rightarrow> handled" where
  "handleSave t d =
     (let result =
            (if e_editMode d = JsonEdit then
               let trimmed = trim (e_jsonText d)
               in if trimmed = [] then Inr []
                  else case json_parse trimmed of
                         None \<Rightarrow> Inl (t (js ''Parameter override must be valid JSON format'') None)
                       | Some v \<Rightarrow> Inr (json_stringify2 v)
             else buildVisualJson t d)
      in case result of
           Inr s \<Rightarrow> (d, [Saved s, Closed])
         | Inl message \<Rightarrow> (d, [Toast message]))"

definition set_all_expanded :: "bool \<Rightarrow> dialog \<Rightarrow> dialog" where
  "set_all_expanded b d =
     (case selectedOperation d of
        None \<Rightarrow> d
      | Some op \<Rightarrow>
          d\<lparr>expandedConditions := props_assign (expandedConditions d)
              (foldl (\<lambda>m c. props_set m (c_id c) b) [] (o_conditions op))\<rparr>)"

definition expandAllConditions :: "dialog \<Rightarrow> handled" where
  "expandAllConditions d = (set_all_expanded True d, [])"

definition collapseAllConditions :: "dialog \<Rightarrow> handled" where
  "collapseAllConditions d = (set_all_expanded False d, [])"

subsection \<open>Callbacks of the rendered editors\<close>

text \<open>The \<^verbatim>\<open>Format\<close> button of a value.\<close>

definition formatValue :: "ParamOverrideOperation \<Rightarrow> dialog \<Rightarrow> handled" where
  "formatValue operation d =
     (case json_parse (o_value_text operation) of
        Some parsed \<Rightarrow> updateOperation (o_id operation)
                         (no_patch\<lparr>pt_value_text := Some (json_stringify2 parsed)\<rparr>) d
      | None \<Rightarrow> (d, []))"

text \<open>The status code field: \<^verbatim>\<open>parseInt(e.target.value, 10) || 400\<close>.\<close>

definition no_error_patch :: error_patch where
  "no_error_patch = \<lparr>ep_message = None, ep_statusCode = None, ep_code = None, ep_type = None,
     ep_skipRetry = None, ep_simpleMode = None\<rparr>"

definition status_input :: "jsstring \<Rightarrow> error_patch" where
  "status_input s =
     no_error_patch\<lparr>ep_statusCode := Some (case parse_int10 s of
        Some i \<Rightarrow> if i = 0 then Fin 400 else round_double (of_int i) | None \<Rightarrow> Fin 400)\<rparr>"

definition RETURN_ERROR_PRESETS :: "(jsstring \<times> error_patch) list" where
  "RETURN_ERROR_PRESETS =
     [(js ''Bad Request'', no_error_patch\<lparr>ep_statusCode := Some (Fin 400),
         ep_code := Some (js ''invalid_request''), ep_type := Some (js ''invalid_request_error'')\<rparr>),
      (js ''Unauthorized'', no_error_patch\<lparr>ep_statusCode := Some (Fin 401),
         ep_code := Some (js ''unauthorized''), ep_type := Some (js ''authentication_error'')\<rparr>),
      (js ''Rate Limited'', no_error_patch\<lparr>ep_statusCode := Some (Fin 429),
         ep_code := Some (js ''rate_limited''), ep_type := Some (js ''rate_limit_error'')\<rparr>)]"

text \<open>The callbacks of \<^verbatim>\<open>SyncFieldsEditor\<close>: the type or the key of the source or of the target. The
  targets shown are read from the operation.\<close>

definition sync_from_type :: "ParamOverrideOperation \<Rightarrow> jsstring \<Rightarrow> operation_patch" where
  "sync_from_type op v = no_patch\<lparr>pt_from := Some (buildSyncTargetSpec v (snd (parseSyncTargetSpec (o_from op))))\<rparr>"

definition sync_from_key :: "ParamOverrideOperation \<Rightarrow> jsstring \<Rightarrow> operation_patch" where
  "sync_from_key op key = no_patch\<lparr>pt_from := Some (buildSyncTargetSpec (fst (parseSyncTargetSpec (o_from op))) key)\<rparr>"

definition sync_to_type :: "ParamOverrideOperation \<Rightarrow> jsstring \<Rightarrow> operation_patch" where
  "sync_to_type op v = no_patch\<lparr>pt_to := Some (buildSyncTargetSpec v (snd (parseSyncTargetSpec (o_to op))))\<rparr>"

definition sync_to_key :: "ParamOverrideOperation \<Rightarrow> jsstring \<Rightarrow> operation_patch" where
  "sync_to_key op key = no_patch\<lparr>pt_to := Some (buildSyncTargetSpec (fst (parseSyncTargetSpec (o_to op))) key)\<rparr>"

definition SYNC_PRESETS :: "operation_patch list" where
  "SYNC_PRESETS =
     [no_patch\<lparr>pt_from := Some (js ''header:session_id''), pt_to := Some (js ''json:prompt_cache_key'')\<rparr>,
      no_patch\<lparr>pt_from := Some (js ''json:prompt_cache_key''), pt_to := Some (js ''header:session_id'')\<rparr>]"

end
