(* ===== verification/ParamOverrideInvariant.thy ===== *)
theory ParamOverrideInvariant
  imports ParamOverrideDialog "HOL-Library.Multiset"
begin

text \<open>
  The parameter override dialog as a state machine: its events, the step relation and the
  invariant of its reachable states. Identifiers are never reused, so the handlers that look an
  operation up by its identifier find at most one.
\<close>

subsection \<open>Events\<close>

datatype event =
    Open jsstring
  | Search jsstring
  | Select jsstring
  | UpdateOperation jsstring operation_patch
  | AddOperation
  | DuplicateOperation bool jsstring
  | RemoveOperation jsstring
  | AddCondition jsstring
  | UpdateCondition jsstring jsstring condition_patch
  | RemoveCondition jsstring jsstring
  | SetExpanded jsstring bool
  | UpdateReturnError jsstring error_patch
  | UpdatePruneObjects jsstring prune_patch
  | AddPruneRule jsstring
  | UpdatePruneRule jsstring jsstring condition_patch
  | RemovePruneRule jsstring jsstring
  | FormatValue ParamOverrideOperation
  | DragStart jsstring
  | DragOver bool jsstring
  | Drop jsstring jsstring
  | DragEnd
  | SwitchToJson
  | SwitchToVisual
  | FillTemplate fill_mode
  | ChooseTemplate jsstring
  | Reset
  | LegacyChange jsstring
  | JsonChange jsstring
  | FormatJson
  | Save
  | ExpandAll
  | CollapseAll

fun handle :: "clock \<Rightarrow> translate \<Rightarrow> event \<Rightarrow> dialog \<Rightarrow> handled" where
  "handle now t (Open val) d = initialize_dialog now val d"
| "handle now t (Search s) d = (d\<lparr>operationSearch := s\<rparr>, [])"
| "handle now t (Select i) d = (d\<lparr>selectedOperationId := i\<rparr>, [])"
| "handle now t (UpdateOperation i p) d = updateOperation i p d"
| "handle now t AddOperation d = addOperation now d"
| "handle now t (DuplicateOperation eager i) d = duplicateOperation now eager i d"
| "handle now t (RemoveOperation i) d = removeOperation now i d"
| "handle now t (AddCondition i) d = addCondition now i d"
| "handle now t (UpdateCondition i c p) d = updateCondition i c p d"
| "handle now t (RemoveCondition i c) d = removeCondition i c d"
| "handle now t (SetExpanded c b) d = (d\<lparr>expandedConditions := props_set (expandedConditions d) c b\<rparr>, [])"
| "handle now t (UpdateReturnError i p) d = updateReturnErrorDraft i p d"
| "handle now t (UpdatePruneObjects i p) d = updatePruneObjectsDraft now i (patch_prune_draft p) d"
| "handle now t (AddPruneRule i) d = addPruneRule now i d"
| "handle now t (UpdatePruneRule i r p) d = updatePruneRule now i r p d"
| "handle now t (RemovePruneRule i r) d = removePruneRule now i r d"
| "handle now t (FormatValue op) d = formatValue op d"
| "handle now t (DragStart i) d = handleDragStart i d"
| "handle now t (DragOver below i) d = handleDragOver below i d"
| "handle now t (Drop data i) d = handleDrop data i d"
| "handle now t DragEnd d = (resetDragState d, [])"
| "handle now t SwitchToJson d = switchToJsonMode t d"
| "handle now t SwitchToVisual d = switchToVisualMode now t d"
| "handle now t (FillTemplate m) d = fillTemplate now t m d"
| "handle now t (ChooseTemplate v) d = (d\<lparr>templatePresetKey := str_or v (js ''operations_default'')\<rparr>, [])"
| "handle now t Reset d = resetEditorState now d"
| "handle now t (LegacyChange s) d = (d\<lparr>e_legacyValue := s\<rparr>, [])"
| "handle now t (JsonChange s) d = handleJsonChange t s d"
| "handle now t FormatJson d = formatJson t d"
| "handle now t Save d = handleSave t d"
| "handle now t ExpandAll d = expandAllConditions d"
| "handle now t CollapseAll d = collapseAllConditions d"

text \<open>The selection lists of the editor offer the values of the tables only.\<close>

fun offered :: "event \<Rightarrow> bool" where
  "offered (UpdateOperation i p) \<longleftrightarrow>
     (case pt_mode p of Some m \<Rightarrow> m \<in> set OPERATION_MODE_VALUES | None \<Rightarrow> True) \<and>
     (case pt_logic p of Some l \<Rightarrow> l = js ''AND'' \<or> l = js ''OR'' | None \<Rightarrow> True)"
| "offered (UpdateCondition i c p) \<longleftrightarrow>
     (case cp_mode p of Some m \<Rightarrow> m \<in> set CONDITION_MODE_VALUES | None \<Rightarrow> True)"
| "offered _ \<longleftrightarrow> True"

definition initial_dialog :: "clock \<Rightarrow> nat \<Rightarrow> dialog" where
  "initial_dialog now n =
     (let (op, n') = createDefaultOperation now n
      in \<lparr>e_editMode = VisualEdit, e_visualMode = OperationsMode, e_legacyValue = [],
          e_operations = (case op of Inr x \<Rightarrow> [x] | Inl e \<Rightarrow> []), e_jsonText = [], e_jsonError = [],
          operationSearch = [], selectedOperationId = [], expandedConditions = [],
          draggedOperationId = [], dragOverOperationId = [], dragOverPosition = Before,
          templatePresetKey = js ''operations_default'', seed = n'\<rparr>)"

text \<open>An event is followed by the effect on the selection. Rendering may use up identifiers.\<close>

inductive po_step :: "clock \<Rightarrow> translate \<Rightarrow> dialog \<Rightarrow> dialog \<Rightarrow> bool" for now t where
  event: "offered ev \<Longrightarrow> handle now t ev d = (d', outs) \<Longrightarrow> po_step now t d (keep_selection_valid d')"
| rendering: "seed d \<le> n \<Longrightarrow> po_step now t d (d\<lparr>seed := n\<rparr>)"

inductive po_reachable :: "clock \<Rightarrow> translate \<Rightarrow> dialog \<Rightarrow> bool" for now t where
  start: "po_reachable now t (keep_selection_valid (initial_dialog now n))"
| step: "po_reachable now t d \<Longrightarrow> po_step now t d d' \<Longrightarrow> po_reachable now t d'"

inductive_cases po_stepE: "po_step now t d d'"

subsection \<open>Identifiers\<close>

definition local_id :: "clock \<Rightarrow> nat \<Rightarrow> jsstring" where
  "local_id now k = js ''po_'' @ int_str (now k) @ js ''_'' @ int_str (int k)"

lemma nextLocalId_eq [simp]: "nextLocalId now n = (local_id now n, Suc n)"
  by (simp add: local_id_def nextLocalId_def)

lemma int_str_no_underscore: "95 \<notin> set (int_str i)"
proof -
  have "\<not> is_digit 95" by (simp add: is_digit_def)
  then show ?thesis
    using dec_str_digits [of i] dec_str_digits [of "- i"] by (auto simp: int_str_def)
qed

lemma local_id_inject [simp]: "local_id now j = local_id now k \<longleftrightarrow> j = k"
proof
  assume "local_id now j = local_id now k"
  then have "int_str (now j) @ 95 # int_str (int j) = int_str (now k) @ 95 # int_str (int k)"
    by (simp add: local_id_def js_def)
  then have "int_str (int j) = int_str (int k)"
    using append_sep_eq_right [OF int_str_no_underscore int_str_no_underscore] by blast
  then show "j = k" by (simp add: int_str_def)
qed simp

lemma local_id_nonempty [simp]: "local_id now k \<noteq> []" "[] \<noteq> local_id now k"
  by (auto simp: local_id_def)

definition ids_of :: "ParamOverrideOperation \<Rightarrow> jsstring list" where
  "ids_of op = o_id op # map c_id (o_conditions op)"

definition all_ids :: "ParamOverrideOperation list \<Rightarrow> jsstring list" where
  "all_ids ops = concat (map ids_of ops)"

lemma all_ids_simps [simp]:
  "all_ids [] = []" "all_ids (op # ops) = ids_of op @ all_ids ops" "all_ids (xs @ ys) = all_ids xs @ all_ids ys"
  by (simp_all add: all_ids_def)

lemma ids_of_nonempty [simp]: "ids_of op \<noteq> []" "[] \<noteq> ids_of op"
  by (simp_all add: ids_of_def)

lemma all_ids_eq_Nil [simp]: "all_ids ops = [] \<longleftrightarrow> ops = []"
  by (cases ops) auto

lemma o_id_in_all_ids: "op \<in> set ops \<Longrightarrow> o_id op \<in> set (all_ids ops)"
  by (auto simp: all_ids_def ids_of_def)

lemma subseq_all_ids_filter: "subseq (all_ids (filter P xs)) (all_ids xs)"
  by (induction xs) (auto intro: list_emb_append_mono list_emb_append2)

lemma distinct_o_id: "distinct (all_ids ops) \<Longrightarrow> distinct (map o_id ops)"
  by (induction ops) (auto simp: ids_of_def dest: o_id_in_all_ids)

subsection \<open>What normalising makes\<close>

definition cond_wt :: "ParamOverrideCondition \<Rightarrow> bool" where
  "cond_wt c \<longleftrightarrow> c_mode c \<in> set CONDITION_MODE_VALUES"

definition op_wt :: "ParamOverrideOperation \<Rightarrow> bool" where
  "op_wt op \<longleftrightarrow> o_mode op \<in> set OPERATION_MODE_VALUES \<and> (o_logic op = js ''AND'' \<or> o_logic op = js ''OR'') \<and>
     list_all cond_wt (o_conditions op)"

lemma mode_or_in: "js d \<in> set modes \<Longrightarrow> mode_or modes d v \<in> set modes"
  by (auto simp: mode_or_def split: jsval.splits)

lemma default_modes: "js ''set'' \<in> set OPERATION_MODE_VALUES" "js ''full'' \<in> set CONDITION_MODE_VALUES"
  by (simp_all add: OPERATION_MODE_VALUES_def OPERATION_MODE_OPTIONS_def CONDITION_MODE_VALUES_def
      CONDITION_MODE_OPTIONS_def)

lemma normalizeCondition_made:
  "normalizeCondition_po now v n = (Inr c, n') \<Longrightarrow> n' = Suc n \<and> c_id c = local_id now n \<and> cond_wt c"
  by (auto simp: normalizeCondition_po_def cond_wt_def mode_or_in default_modes split: if_splits)

lemma upt_append: "n \<le> m \<Longrightarrow> m \<le> k \<Longrightarrow> [n..<m] @ [m..<k] = [n..<k]"
  using upt_add_eq_append [of n m "k - m"] by simp

lemma normalizeConditions_made:
  "act_map (normalizeCondition_po now) vs n = (Inr cs, n') \<Longrightarrow>
   n \<le> n' \<and> map c_id cs = map (local_id now) [n..<n'] \<and> list_all cond_wt cs"
proof (induction vs arbitrary: n cs)
  case (Cons v vs)
  then obtain c cs' m where *: "normalizeCondition_po now v n = (Inr c, m)"
    "act_map (normalizeCondition_po now) vs m = (Inr cs', n')" "cs = c # cs'"
    by (auto split: prod.splits sum.splits)
  then show ?case
    using Cons.IH [OF *(2)] normalizeCondition_made [OF *(1)] by (auto simp: upt_conv_Cons)
qed simp

lemma normalizeOperation_made:
  assumes "normalizeOperation now v n = (Inr op, n')"
  shows "n < n' \<and> ids_of op = map (local_id now) [n..<n'] \<and> op_wt op"
proof -
  define cs where "cs = (case prop_of v (js ''conditions'') of
      JArr cs \<Rightarrow> act_map (normalizeCondition_po now) cs (Suc n) | _ \<Rightarrow> (Inr [], Suc n))"
  obtain conds where c: "cs = (Inr conds, n')" "v \<noteq> JNull"
    using assms by (auto simp: normalizeOperation_def cs_def split: if_splits prod.splits sum.splits)
  have conds: "Suc n \<le> n' \<and> map c_id conds = map (local_id now) [Suc n..<n'] \<and> list_all cond_wt conds"
    using c(1) by (auto simp: cs_def dest: normalizeConditions_made split: jsval.splits)
  moreover have "o_id op = local_id now n" "o_conditions op = conds" "op_wt op \<longleftrightarrow> list_all cond_wt conds"
    using assms c
    by (auto simp: normalizeOperation_def cs_def [symmetric] op_wt_def mode_or_in default_modes split: if_splits)
  ultimately show ?thesis by (auto simp: ids_of_def upt_conv_Cons)
qed

lemma normalizeOperations_made:
  "act_map (normalizeOperation now) vs n = (Inr ops, n') \<Longrightarrow>
   n \<le> n' \<and> length ops = length vs \<and> all_ids ops = map (local_id now) [n..<n'] \<and> list_all op_wt ops"
proof (induction vs arbitrary: n ops)
  case (Cons v vs)
  then obtain op ops' m where *: "normalizeOperation now v n = (Inr op, m)"
    "act_map (normalizeOperation now) vs m = (Inr ops', n')" "ops = op # ops'"
    by (auto split: prod.splits sum.splits)
  then show ?case
    using Cons.IH [OF *(2)] normalizeOperation_made [OF *(1)] upt_append [of n m n']
    by (auto simp: map_append [symmetric] simp del: map_append)
qed simp

lemma logic_throws [simp]: "str_throws (val_or v (JStr s)) = str_throws v"
  by (cases v) (simp_all add: val_or_def)

lemma createDefaultOperation_made:
  "createDefaultOperation now n = (Inr op, n') \<Longrightarrow>
   n < n' \<and> ids_of op = map (local_id now) [n..<n'] \<and> op_wt op"
  unfolding createDefaultOperation_def by (rule normalizeOperation_made)

lemma createDefaultOperation_ok: "\<exists>op n'. createDefaultOperation now n = (Inr op, n')"
  by (simp add: createDefaultOperation_def normalizeOperation_def str_entry_def prop_of_def props_get_def)

lemma operations_or_default_made:
  assumes "operations_or_default now vs n = (Inr ops, n')"
  shows "n < n' \<and> ops \<noteq> [] \<and> all_ids ops = map (local_id now) [n..<n'] \<and> list_all op_wt ops"
proof (cases "vs = []")
  case True
  then show ?thesis
    using assms createDefaultOperation_made [of now n]
    by (auto simp: operations_or_default_def act_bind_def act_return_def split: prod.splits sum.splits)
next
  case False
  then have *: "act_map (normalizeOperation now) vs n = (Inr ops, n')"
    using assms by (simp add: operations_or_default_def)
  have ops: "ops \<noteq> []" using normalizeOperations_made [OF *] False by auto
  then have "all_ids ops \<noteq> []" by simp
  then have "[n..<n'] \<noteq> []" using normalizeOperations_made [OF *] by (metis map_is_Nil_conv)
  with ops normalizeOperations_made [OF *] show ?thesis by auto
qed

subsection \<open>The invariant\<close>

definition ops_inv :: "clock \<Rightarrow> ParamOverrideOperation list \<Rightarrow> nat \<Rightarrow> bool" where
  "ops_inv now ops n \<longleftrightarrow> ops \<noteq> [] \<and> distinct (all_ids ops) \<and>
     set (all_ids ops) \<subseteq> local_id now ` {..<n} \<and> list_all op_wt ops"

abbreviation d_inv :: "clock \<Rightarrow> dialog \<Rightarrow> bool" where
  "d_inv now d \<equiv> ops_inv now (e_operations d) (seed d)"

lemma ops_inv_mono: "ops_inv now ops n \<Longrightarrow> n \<le> n' \<Longrightarrow> ops_inv now ops n'"
  by (force simp: ops_inv_def)

lemma ops_inv_new:
  "n < n' \<Longrightarrow> all_ids ops = map (local_id now) [n..<n'] \<Longrightarrow> list_all op_wt ops \<Longrightarrow> ops_inv now ops n'"
  by (cases ops) (auto simp: ops_inv_def distinct_map inj_on_def)

lemma ops_inv_shrink:
  assumes "ops_inv now ops n" "ops' \<noteq> []" "subseq (all_ids ops') (all_ids ops)" "list_all op_wt ops'" "n \<le> n'"
  shows "ops_inv now ops' n'"
proof -
  have "distinct (all_ids ops')"
    using assms(1,3) by (auto simp: ops_inv_def intro: subseq_distinct)
  moreover have "set (all_ids ops') \<subseteq> local_id now ` {..<n'}"
    using assms(1,3,5) subseq_set_subset [OF assms(3)] by (force simp: ops_inv_def)
  ultimately show ?thesis using assms by (simp add: ops_inv_def)
qed

lemma ops_inv_fresh:
  assumes "ops_inv now ops n" "mset (all_ids ops') = mset (all_ids ops) + mset (map (local_id now) [n..<n'])"
    "list_all op_wt ops'" "n \<le> n'"
  shows "ops_inv now ops' n'"
proof -
  define new where "new = all_ids ops @ map (local_id now) [n..<n']"
  have m: "mset (all_ids ops') = mset new" using assms(2) by (simp add: new_def)
  have old: "set (all_ids ops) \<subseteq> local_id now ` {..<n}" "distinct (all_ids ops)"
    using assms(1) by (simp_all add: ops_inv_def)
  have "set (all_ids ops) \<inter> local_id now ` {n..<n'} = {}" using old(1) by force
  then have "distinct new" using old(2) by (auto simp: new_def distinct_map inj_on_def)
  then have "distinct (all_ids ops')" using mset_eq_imp_distinct_iff [OF m] by simp
  moreover have "set (all_ids ops') \<subseteq> local_id now ` {..<n'}"
    using mset_eq_setD [OF m] old(1) assms(4) by (force simp: new_def)
  moreover have "all_ids ops' \<noteq> []"
    using m assms(1) by (auto simp: new_def ops_inv_def)
  ultimately show ?thesis using assms(3) by (simp add: ops_inv_def)
qed

lemma ops_inv_perm:
  "ops_inv now ops n \<Longrightarrow> mset ops' = mset ops \<Longrightarrow> ops_inv now ops' n"
proof (rule ops_inv_fresh [of now ops n])
  assume m: "mset ops' = mset ops"
  have "mset (all_ids xs) = \<Sum>\<^sub># (image_mset (mset \<circ> ids_of) (mset xs))" for xs
    by (induction xs) auto
  then show "mset (all_ids ops') = mset (all_ids ops) + mset (map (local_id now) [n..<n])"
    using m by simp
qed (auto simp: ops_inv_def list_all_iff dest: mset_eq_setD)

text \<open>Changing one operation: the others keep their place.\<close>

lemma map_one:
  assumes "distinct (map o_id ops)"
  shows "map (\<lambda>op. if o_id op = i then f op else op) ops = ops \<or>
    (\<exists>xs op ys. ops = xs @ op # ys \<and> o_id op = i \<and>
       map (\<lambda>op. if o_id op = i then f op else op) ops = xs @ f op # ys)"
proof (cases "i \<in> o_id ` set ops")
  case True
  then obtain op where op: "op \<in> set ops" "o_id op = i" by auto
  then obtain xs ys where s: "ops = xs @ op # ys" by (auto simp: in_set_conv_decomp)
  then have "o_id op \<notin> o_id ` set xs" "o_id op \<notin> o_id ` set ys" using assms by auto
  then have "\<forall>x\<in>set xs \<union> set ys. o_id x \<noteq> i" using op(2) by (metis Un_iff imageI)
  then have "map (\<lambda>op. if o_id op = i then f op else op) xs = xs"
    "map (\<lambda>op. if o_id op = i then f op else op) ys = ys"
    by (auto intro: map_idI)
  with s op show ?thesis by auto
next
  case False
  then show ?thesis by (auto intro!: map_idI)
qed

lemma map_op_sel [simp]:
  "seed (map_op i f d) = seed d"
  "e_operations (map_op i f d) = map (\<lambda>op. if o_id op = i then f op else op) (e_operations d)"
  by (simp_all add: map_op_def)

lemma map_op_inv:
  assumes "d_inv now d" "\<And>op. op \<in> set (e_operations d) \<Longrightarrow> op_wt (f op) \<and> subseq (ids_of (f op)) (ids_of op)"
  shows "d_inv now (map_op i f d)"
proof -
  have "subseq (all_ids (map (\<lambda>op. if o_id op = i then f op else op) ops)) (all_ids ops)"
    if "set ops \<subseteq> set (e_operations d)" for ops
    using that by (induction ops) (auto intro!: list_emb_append_mono dest: assms(2) [THEN conjunct2])
  moreover have "list_all op_wt (map (\<lambda>op. if o_id op = i then f op else op) (e_operations d))"
    using assms by (auto simp: ops_inv_def list_all_iff)
  ultimately show ?thesis
    using assms(1) by (intro ops_inv_shrink [OF assms(1)]) (auto simp: ops_inv_def)
qed

lemma with_act_inv:
  assumes "d_inv now d" "seed d \<le> snd (m (seed d))"
    "\<And>x n. m (seed d) = (Inr x, n) \<Longrightarrow> d_inv now (fst (k x (d\<lparr>seed := n\<rparr>)))"
  shows "d_inv now (fst (with_act m d k))"
  using assms by (auto simp: with_act_def intro: ops_inv_mono split: prod.splits sum.splits)

lemma act_map_mono: "(\<And>x n. n \<le> snd (f x n)) \<Longrightarrow> n \<le> snd (act_map f xs n)"
proof (induction xs arbitrary: n)
  case (Cons x xs)
  show ?case
    using Cons.IH [OF Cons.prems, of "snd (f x n)"] Cons.prems [of n x]
    by (auto split: prod.splits sum.splits)
qed simp

lemma normalizeCondition_mono: "n \<le> snd (normalizeCondition_po now v n)"
  by (simp add: normalizeCondition_po_def)

lemma normalizeOperation_mono: "n \<le> snd (normalizeOperation now v n)"
  using act_map_mono [of "normalizeCondition_po now" "Suc n", OF normalizeCondition_mono]
  by (auto simp: normalizeOperation_def split: prod.splits sum.splits jsval.splits)
     (metis Suc_leD snd_conv)+

lemma createDefaultOperation_mono: "n \<le> snd (createDefaultOperation now n)"
  by (simp add: createDefaultOperation_def normalizeOperation_mono)

lemma operations_or_default_mono: "n \<le> snd (operations_or_default now vs n)"
  using act_map_mono [of "normalizeOperation now" n vs, OF normalizeOperation_mono] createDefaultOperation_mono [of n now]
  by (auto simp: operations_or_default_def act_bind_def act_return_def split: prod.splits sum.splits)

lemma parseInitialState_made:
  assumes "parseInitialState now val n = (Inr st, n')"
  shows "n < n' \<and> e_operations st \<noteq> [] \<and> all_ids (e_operations st) = map (local_id now) [n..<n'] \<and>
    list_all op_wt (e_operations st)"
  using assms createDefaultOperation_made [of now n] operations_or_default_made [of now _ n]
  by (auto simp: parseInitialState_def Let_def act_bind_def act_return_def
      split: if_splits option.splits prod.splits sum.splits)

lemma parseInitialState_mono: "n \<le> snd (parseInitialState now val n)"
  using createDefaultOperation_mono [of n now] operations_or_default_mono [of n now]
  by (auto simp: parseInitialState_def Let_def act_bind_def act_return_def
      split: option.splits prod.splits sum.splits) (metis snd_conv)+

subsection \<open>Reordering\<close>

lemma find_idx_Some:
  "find_idx P xs = Some i \<Longrightarrow> \<exists>ys x zs. xs = ys @ x # zs \<and> length ys = i \<and> P x"
proof (induction xs arbitrary: i)
  case (Cons y ys)
  show ?case
  proof (cases "P y")
    case True
    with Cons.prems have "i = 0" by simp
    with True show ?thesis by (intro exI [of _ "[]"]) auto
  next
    case False
    with Cons.prems obtain j where j: "find_idx P ys = Some j" "i = Suc j" by auto
    from Cons.IH [OF j(1)] obtain us x zs where "ys = us @ x # zs" "length us = j" "P x" by auto
    with j show ?thesis by (intro exI [of _ "y # us"]) auto
  qed
qed simp

lemma find_idx_None: "find_idx P xs = None \<longleftrightarrow> (\<forall>x\<in>set xs. \<not> P x)"
  by (induction xs) auto

lemma reorder_cases:
  "reorderOperations ops s g pos = ops \<or>
   (\<exists>xs m ys us x vs. ops = xs @ m # ys \<and> o_id m = s \<and> xs @ ys = us @ x # vs \<and> o_id x = g \<and>
      reorderOperations ops s g pos = (if pos = After then us @ x # m # vs else us @ m # x # vs))"
proof (cases "reorderOperations ops s g pos = ops")
  case False
  then have ne: "\<not> (s = [] \<or> g = [] \<or> s = g)" by (auto simp: reorderOperations_def)
  obtain i where i: "find_idx (\<lambda>x. o_id x = s) ops = Some i"
    using False ne by (auto simp: reorderOperations_def split: option.splits)
  from find_idx_Some [OF i] obtain xs m ys where m: "ops = xs @ m # ys" "length xs = i" "o_id m = s"
    by blast
  obtain j where j: "find_idx (\<lambda>x. o_id x = g) (xs @ ys) = Some j"
    using False ne i m by (auto simp: reorderOperations_def Let_def split: option.splits)
  from find_idx_Some [OF j] obtain us x vs where x: "xs @ ys = us @ x # vs" "length us = j" "o_id x = g"
    by blast
  have "reorderOperations ops s g pos = (if pos = After then us @ x # m # vs else us @ m # x # vs)"
    using ne i j m(1) x(1) unfolding m(2) [symmetric] x(2) [symmetric]
    by (simp add: reorderOperations_def Let_def)
  with m x show ?thesis by blast
qed simp

lemma reorder_mset: "mset (reorderOperations ops s g pos) = mset ops"
  using reorder_cases [of ops s g pos]
proof (elim disjE exE conjE)
  fix xs m ys us x vs
  assume o: "ops = xs @ m # ys" "xs @ ys = us @ x # vs"
    "reorderOperations ops s g pos = (if pos = After then us @ x # m # vs else us @ m # x # vs)"
  have "mset xs + mset ys = mset us + add_mset x (mset vs)"
    using arg_cong [OF o(2), of mset] by simp
  then show ?thesis unfolding o(3) unfolding o(1) by simp
qed simp

subsection \<open>Every event keeps the invariant\<close>

lemma single_new:
  "createDefaultOperation now n = (Inr op, n') \<Longrightarrow> ops_inv now [op] n'"
  using createDefaultOperation_made [of now n op n'] by (auto intro!: ops_inv_new)

lemma many_new: "operations_or_default now vs n = (Inr ops, n') \<Longrightarrow> ops_inv now ops n'"
  using operations_or_default_made [of now vs n ops n'] by (auto intro!: ops_inv_new)

lemma initialize_inv: "d_inv now d \<Longrightarrow> d_inv now (fst (initialize_dialog now val d))"
  unfolding initialize_dialog_def
  by (rule with_act_inv) (auto simp: parseInitialState_mono dest!: parseInitialState_made intro!: ops_inv_new)

lemma patch_operation_wt:
  "offered (UpdateOperation i p) \<Longrightarrow> op_wt op \<Longrightarrow>
   op_wt (patch_operation p op) \<and> ids_of (patch_operation p op) = ids_of op"
  by (auto simp: patch_operation_def op_wt_def opt_or_def ids_of_def split: option.splits)

lemma updateOperation_inv:
  "d_inv now d \<Longrightarrow> offered (UpdateOperation i p) \<Longrightarrow> d_inv now (fst (updateOperation i p d))"
  unfolding updateOperation_def fst_conv
  using patch_operation_wt [of i p] by (intro map_op_inv) (auto simp: ops_inv_def list_all_iff)

lemma addOperation_inv:
  assumes "d_inv now d"
  shows "d_inv now (fst (addOperation now d))"
  unfolding addOperation_def
proof (rule with_act_inv [OF assms])
  fix op n
  assume op: "createDefaultOperation now (seed d) = (Inr op, n)"
  have "ops_inv now (e_operations d @ [op]) n"
    using createDefaultOperation_made [OF op] assms
    by (intro ops_inv_fresh [OF assms]) (auto simp: ops_inv_def)
  then show "d_inv now (fst ((d\<lparr>seed := n\<rparr>)\<lparr>e_operations := e_operations (d\<lparr>seed := n\<rparr>) @ [op],
      selectedOperationId := o_id op\<rparr>, []))" by simp
qed (rule createDefaultOperation_mono)

lemma duplicateOperation_inv:
  assumes "d_inv now d"
  shows "d_inv now (fst (duplicateOperation now eager i d))"
proof (cases "find_idx (\<lambda>x. o_id x = i) (e_operations d)")
  case (Some idx)
  from find_idx_Some [OF Some] obtain xs x ys where x: "e_operations d = xs @ x # ys" "length xs = idx"
    by blast
  then have split: "take (idx + 1) (e_operations d) = xs @ [x]" "drop (idx + 1) (e_operations d) = ys"
    by auto
  have *: "ops_inv now (xs @ x # op # ys) n"
    if "normalizeOperation now v (seed d) = (Inr op, n)" for v op n
    using normalizeOperation_made [OF that] assms
    by (intro ops_inv_fresh [OF assms]) (auto simp: x(1) ops_inv_def)
  have eq: "duplicateOperation now eager i d =
      with_act (normalizeOperation now (duplicate_source (e_operations d ! idx))) d (\<lambda>cloned d'.
        (d'\<lparr>e_operations := take (idx + 1) (e_operations d') @ cloned # drop (idx + 1) (e_operations d'),
            selectedOperationId := str_or (if eager then o_id cloned else []) (selectedOperationId d')\<rparr>, []))"
    by (simp add: duplicateOperation_def Some Let_def)
  show ?thesis
    unfolding eq
    by (rule with_act_inv [OF assms]) (use * split in \<open>simp_all add: normalizeOperation_mono\<close>)
qed (use assms in \<open>simp add: duplicateOperation_def\<close>)

lemma removeOperation_inv:
  assumes "d_inv now d"
  shows "d_inv now (fst (removeOperation now i d))"
proof (cases "length (e_operations d) \<le> 1")
  case True
  then show ?thesis
    unfolding removeOperation_def using assms
    by (auto intro!: with_act_inv single_new createDefaultOperation_mono)
next
  case False
  define ops where "ops = filter (\<lambda>x. o_id x \<noteq> i) (e_operations d)"
  have "distinct (map o_id (e_operations d))" using assms by (simp add: ops_inv_def distinct_o_id)
  then have "ops \<noteq> []"
    using False unfolding ops_def by (cases "e_operations d"; cases "tl (e_operations d)") auto
  moreover have "list_all op_wt ops" using assms by (auto simp: ops_def ops_inv_def list_all_iff)
  ultimately show ?thesis
    using assms False by (auto simp: removeOperation_def ops_def subseq_all_ids_filter intro: ops_inv_shrink [OF assms])
qed

lemma addCondition_inv:
  assumes "d_inv now d"
  shows "d_inv now (fst (addCondition now i d))"
  unfolding addCondition_def createDefaultCondition_def
proof (rule with_act_inv [OF assms])
  show "seed d \<le> snd (normalizeCondition_po now (JObj []) (seed d))" by (rule normalizeCondition_mono)
next
  fix c n
  assume "normalizeCondition_po now (JObj []) (seed d) = (Inr c, n)"
  then have c: "n = Suc (seed d)" "c_id c = local_id now (seed d)" "cond_wt c"
    using normalizeCondition_made by blast+
  define f where "f op = op\<lparr>o_conditions := o_conditions op @ [c]\<rparr>" for op :: ParamOverrideOperation
  define ops where "ops = map (\<lambda>op. if o_id op = i then f op else op) (e_operations d)"
  have wt: "list_all op_wt ops"
    using assms c(3) by (auto simp: ops_def f_def ops_inv_def list_all_iff op_wt_def)
  have ids: "distinct (map o_id (e_operations d))" using assms by (simp add: ops_inv_def distinct_o_id)
  have "ops_inv now ops n"
    using map_one [OF ids, of i f, folded ops_def]
  proof (elim disjE exE conjE)
    assume "ops = e_operations d"
    then show ?thesis using assms ops_inv_mono c(1) by auto
  next
    fix xs op ys
    assume s: "e_operations d = xs @ op # ys" "ops = xs @ f op # ys"
    show ?thesis
      by (rule ops_inv_fresh [OF assms _ wt]) (auto simp: s f_def ids_of_def c)
  qed
  then show "d_inv now (fst ((map_op i (\<lambda>op. op\<lparr>o_conditions := o_conditions op @ [c]\<rparr>) (d\<lparr>seed := n\<rparr>))
        \<lparr>expandedConditions := props_set (expandedConditions (d\<lparr>seed := n\<rparr>)) (c_id c) True\<rparr>, []))"
    unfolding ops_def f_def by simp
qed

lemma updateCondition_inv:
  "d_inv now d \<Longrightarrow> offered (UpdateCondition i c p) \<Longrightarrow> d_inv now (fst (updateCondition i c p d))"
  unfolding updateCondition_def fst_conv
  by (intro map_op_inv)
     (auto simp: ops_inv_def list_all_iff op_wt_def cond_wt_def patch_condition_def opt_or_def ids_of_def
       comp_def if_distrib [of c_id] cong: if_cong split: option.splits)

lemma removeCondition_inv: "d_inv now d \<Longrightarrow> d_inv now (fst (removeCondition i c d))"
  unfolding removeCondition_def fst_conv
  by (intro map_op_inv)
     (auto simp: ops_inv_def list_all_iff op_wt_def ids_of_def intro: subseq_map)

lemma updateReturnErrorDraft_inv: "d_inv now d \<Longrightarrow> d_inv now (fst (updateReturnErrorDraft i p d))"
  unfolding updateReturnErrorDraft_def fst_conv
  by (intro map_op_inv) (auto simp: ops_inv_def list_all_iff op_wt_def ids_of_def)

lemma prune_rules_mono: "n \<le> snd (prune_rules now vs n)"
proof (induction vs arbitrary: n)
  case (Cons v vs)
  show ?case
    using Cons.IH [of "Suc n"] by (cases "prune_rules now vs (Suc n)") (simp add: normalizePruneRule_def)
qed simp

lemma parsePruneObjectsDraft_mono: "n \<le> snd (parsePruneObjectsDraft now v n)"
  using prune_rules_mono [of n now]
  by (simp add: parsePruneObjectsDraft_def Let_def split: option.splits jsval.splits prod.splits)
     (metis snd_conv)

lemma prune_ops_ids:
  assumes "\<And>draft n. n \<le> snd (u draft n)"
  shows "n \<le> snd (prune_ops now i u ops n) \<and> map ids_of (fst (prune_ops now i u ops n)) = map ids_of ops \<and>
    list_all op_wt (fst (prune_ops now i u ops n)) = list_all op_wt ops"
proof (induction ops arbitrary: n)
  case (Cons op ops)
  define r where "r = (if o_id op \<noteq> i then (op, n)
     else let (draft, n0) = parsePruneObjectsDraft now (o_value_text op) n; (nextDraft, n1) = u draft n0
          in (op\<lparr>o_value_text := buildPruneObjectsValueText nextDraft\<rparr>, n1))"
  have "n \<le> snd r"
    using parsePruneObjectsDraft_mono [of n now "o_value_text op"] assms le_trans
    by (auto simp: r_def split: prod.splits) (metis le_trans snd_conv)
  moreover have "ids_of (fst r) = ids_of op" "op_wt (fst r) = op_wt op"
    by (auto simp: r_def ids_of_def op_wt_def split: prod.splits)
  moreover have "prune_ops now i u (op # ops) n =
      (fst r # fst (prune_ops now i u ops (snd r)), snd (prune_ops now i u ops (snd r)))"
    by (simp add: r_def [symmetric] split: prod.splits)
  ultimately show ?case using Cons.IH [of "snd r"] by simp
qed simp

lemma updatePrune_inv:
  assumes "d_inv now d" "\<And>draft n. n \<le> snd (u draft n)"
  shows "d_inv now (fst (updatePruneObjectsDraft now i u d))"
proof -
  obtain ops n where *: "prune_ops now i u (e_operations d) (seed d) = (ops, n)" by fastforce
  then have p: "seed d \<le> n" "map ids_of ops = map ids_of (e_operations d)"
    "list_all op_wt ops = list_all op_wt (e_operations d)"
    using prune_ops_ids [of u "seed d" now i "e_operations d", OF assms(2)] by simp_all
  then have "ops_inv now ops n"
    using assms(1) by (intro ops_inv_shrink [OF assms(1)]) (auto simp: all_ids_def ops_inv_def)
  then show ?thesis by (simp add: updatePruneObjectsDraft_def *)
qed

lemmas prune_handlers = addPruneRule_def updatePruneRule_def removePruneRule_def

lemma set_legacy_inv: "d_inv now d \<Longrightarrow> d_inv now (fst (set_legacy now s d))"
  unfolding set_legacy_def by (rule with_act_inv) (auto simp: createDefaultOperation_mono single_new)

lemma switchToVisualMode_inv: "d_inv now d \<Longrightarrow> d_inv now (fst (switchToVisualMode now t d))"
  by (auto simp: switchToVisualMode_def Let_def createDefaultOperation_mono operations_or_default_mono
      single_new many_new intro!: with_act_inv split: option.splits)

definition has_operations :: "jsval \<Rightarrow> bool" where
  "has_operations v \<longleftrightarrow> (case prop_of v (js ''operations'') of JArr vs \<Rightarrow> vs \<noteq> [] | _ \<Rightarrow> False)"

lemma template_payloads:
  "list_all (\<lambda>kv. p_kind (snd kv) = OperationsKind \<longrightarrow> has_operations (p_payload (snd kv))) TEMPLATE_PRESET_CONFIG"
  "has_operations OPERATION_TEMPLATE"
  by (simp_all add: TEMPLATE_PRESET_CONFIG_def has_operations_def prop_of_def props_get_def
      OPERATION_TEMPLATE_def HEADER_PASSTHROUGH_TEMPLATE_def GEMINI_IMAGE_4K_TEMPLATE_def
      CLAUDE_CLI_HEADER_PASSTHROUGH_TEMPLATE_def CODEX_CLI_HEADER_PASSTHROUGH_TEMPLATE_def
      buildPassHeadersTemplate_def AWS_BEDROCK_ANTHROPIC_COMPAT_TEMPLATE_def)

lemma template_operations:
  assumes "p_kind (template_preset key) = OperationsKind"
  shows "\<exists>v vs. prop_of (p_payload (template_preset key)) (js ''operations'') = JArr (v # vs)"
proof -
  have "has_operations (p_payload (template_preset key))"
  proof (cases "props_get TEMPLATE_PRESET_CONFIG key")
    case (Some preset)
    then have "(key, preset) \<in> set TEMPLATE_PRESET_CONFIG" by (simp add: props_get_def map_of_SomeD)
    from bspec [OF template_payloads(1) [unfolded list_all_iff] this] show ?thesis
      using assms Some by (simp add: template_preset_def)
  qed (simp add: template_preset_def template_payloads(2))
  then show ?thesis by (auto simp: has_operations_def neq_Nil_conv split: jsval.splits)
qed

lemma append_template_inv:
  assumes "d_inv now d" "act_map (normalizeOperation now) (v # vs) (seed d) = (Inr appended, n)"
  shows "ops_inv now ((if e_visualMode d = OperationsMode
         then filter (\<lambda>x. \<not> isOperationBlank x) (e_operations d) else []) @ appended) n"
proof -
  from normalizeOperations_made [OF assms(2)] have new: "seed d \<le> n" "appended \<noteq> []"
    "all_ids appended = map (local_id now) [seed d..<n]" "list_all op_wt appended" by auto
  define ops where "ops = (if e_visualMode d = OperationsMode
       then filter (\<lambda>x. \<not> isOperationBlank x) (e_operations d) else [])"
  have "ops_inv now (ops @ appended) n"
  proof (cases "ops = []")
    case True
    have "seed d < n" using new(2,3) by (metis all_ids_eq_Nil map_is_Nil_conv not_less upt_eq_Nil_conv)
    then show ?thesis using True new by (auto intro!: ops_inv_new)
  next
    case False
    then have o: "ops_inv now ops (seed d)"
      using assms(1) subseq_all_ids_filter
      by (intro ops_inv_shrink [OF assms(1)]) (auto simp: ops_def ops_inv_def list_all_iff)
    show ?thesis
      by (rule ops_inv_fresh [OF o]) (use new o in \<open>simp_all add: ops_inv_def\<close>)
  qed
  then show ?thesis by (simp add: ops_def)
qed

lemma fillTemplate_inv:
  assumes "d_inv now d"
  shows "d_inv now (fst (fillTemplate now t m d))"
proof (cases "p_kind (template_preset (templatePresetKey d))")
  case OperationsKind
  then obtain v vs where v: "prop_of (p_payload (template_preset (templatePresetKey d))) (js ''operations'')
      = JArr (v # vs)" using template_operations by blast
  show ?thesis
  proof (cases m)
    case Fill
    then show ?thesis
      using assms OperationsKind v
      by (auto simp: fillTemplate_def Let_def operations_or_default_mono many_new intro!: with_act_inv)
  next
    case Append
    have ne: "ops \<noteq> []" if "act_map (normalizeOperation now) (v # vs) (seed d) = (Inr ops, n)" for ops n
      using normalizeOperations_made [OF that] by auto
    show ?thesis
      by (simp add: fillTemplate_def Let_def OperationsKind Append v del: act_map.simps,
          rule with_act_inv [OF assms])
         (use append_template_inv [OF assms, of v vs] in
           \<open>auto simp: act_map_mono normalizeOperation_mono ne simp del: act_map.simps split: if_splits\<close>)
  qed
next
  case LegacyKind
  then show ?thesis
    using assms by (auto simp: fillTemplate_def Let_def set_legacy_inv split: option.splits)
qed

lemma simple_handlers_inv:
  assumes "d_inv now d"
  shows "d_inv now (fst (handleDragStart i d))" "d_inv now (fst (handleDragOver below i d))"
    "d_inv now (fst (handleDrop data i d))" "d_inv now (fst (switchToJsonMode t d))"
    "d_inv now (fst (handleJsonChange t s d))" "d_inv now (fst (formatJson t d))"
    "d_inv now (fst (handleSave t d))" "d_inv now (set_all_expanded b d)"
  using assms ops_inv_perm [OF assms reorder_mset]
  by (auto simp: handleDragStart_def handleDragOver_def handleDrop_def resetDragState_def Let_def
      switchToJsonMode_def handleJsonChange_def formatJson_def handleSave_def set_all_expanded_def
      split: sum.splits option.splits)

lemma handle_inv:
  assumes "d_inv now d" "offered ev"
  shows "d_inv now (fst (handle now t ev d))"
proof (cases ev)
  case (FormatValue op)
  have "offered (UpdateOperation i (no_patch\<lparr>pt_value_text := x\<rparr>))" for i x
    by (simp add: no_patch_def)
  then show ?thesis
    using assms FormatValue updateOperation_inv by (auto simp: formatValue_def split: option.splits)
next
  case (UpdatePruneObjects i p)
  then show ?thesis using assms by (auto intro!: updatePrune_inv simp: patch_prune_draft_def)
next
  case Reset
  then show ?thesis
    using assms by (auto simp: resetEditorState_def single_new createDefaultOperation_mono intro!: with_act_inv)
qed (use assms in \<open>auto simp: initialize_inv updateOperation_inv addOperation_inv duplicateOperation_inv
      removeOperation_inv addCondition_inv updateCondition_inv removeCondition_inv simple_handlers_inv
      updateReturnErrorDraft_inv switchToVisualMode_inv fillTemplate_inv resetDragState_def
      expandAllConditions_def collapseAllConditions_def prune_handlers normalizePruneRule_def
      intro!: updatePrune_inv\<close>)

text \<open>The invariant of the dialog: there is always an operation, identifiers are unique and made by
  the counter, modes and logics come from the tables, and an existing operation is selected.\<close>

definition dialog_inv :: "clock \<Rightarrow> dialog \<Rightarrow> bool" where
  "dialog_inv now d \<longleftrightarrow> d_inv now d \<and> selectedOperationId d \<in> o_id ` set (e_operations d)"

lemma keep_selection_valid_inv: "d_inv now d \<Longrightarrow> dialog_inv now (keep_selection_valid d)"
  by (cases "e_operations d")
     (auto simp: keep_selection_valid_def dialog_inv_def ops_inv_def first_id_def list_ex_iff image_iff, metis)

lemma initial_dialog_inv: "d_inv now (initial_dialog now n)"
  using createDefaultOperation_ok [of now n] single_new by (auto simp: initial_dialog_def)

lemma dialog_reachable_inv: "po_reachable now t d \<Longrightarrow> dialog_inv now d"
proof (induction rule: po_reachable.induct)
  case (step d d')
  from step.hyps(2) show ?case
  proof (cases rule: po_step.cases)
    case (event ev d'' outs)
    then show ?thesis
      using handle_inv [of now d ev t] step.IH keep_selection_valid_inv [of now d'']
      by (simp add: dialog_inv_def)
  next
    case (rendering n)
    then show ?thesis using step.IH by (auto simp: dialog_inv_def intro: ops_inv_mono)
  qed
qed (simp add: keep_selection_valid_inv initial_dialog_inv)

text \<open>C2: In every state that the dialog reaches there is an operation, no two operations or conditions
  share an identifier, an existing operation is selected, and every mode and logic is one that the
  selection lists offer.\<close>

theorem param_override_dialog_invariant:
  assumes "po_reachable now t d"
  shows "e_operations d \<noteq> [] \<and> distinct (concat (map (\<lambda>op. o_id op # map c_id (o_conditions op)) (e_operations d))) \<and>
    selectedOperation d \<noteq> None \<and>
    (\<forall>op\<in>set (e_operations d). o_mode op \<in> set OPERATION_MODE_VALUES \<and>
       (o_logic op = js ''AND'' \<or> o_logic op = js ''OR'') \<and>
       (\<forall>c\<in>set (o_conditions op). c_mode c \<in> set CONDITION_MODE_VALUES))"
proof -
  have inv: "d_inv now d" "selectedOperationId d \<in> o_id ` set (e_operations d)"
    using dialog_reachable_inv [OF assms] by (auto simp: dialog_inv_def)
  have "selectedOperation d \<noteq> None"
    using inv(2) by (auto simp: selectedOperation_def find_None_iff)
  then show ?thesis
    using inv(1) by (auto simp: ops_inv_def all_ids_def ids_of_def [abs_def] list_all_iff op_wt_def cond_wt_def)
qed

theorem param_override_dialog_invariant_witness:
  "\<exists>d. po_reachable (\<lambda>n. 0) (\<lambda>k l. k) d \<and> 2 \<le> length (e_operations d) \<and> selectedOperation d \<noteq> None"
proof -
  define d0 where "d0 = keep_selection_valid (initial_dialog (\<lambda>n. 0) 0)"
  define d1 where "d1 = keep_selection_valid (fst (handle (\<lambda>n. 0) (\<lambda>k l. k) AddOperation d0))"
  have "po_step (\<lambda>n. 0) (\<lambda>k l. k) d0 d1"
    unfolding d1_def by (rule po_step.event [of AddOperation]) (simp_all add: prod_eq_iff)
  then have r: "po_reachable (\<lambda>n. 0) (\<lambda>k l. k) d1"
    using po_reachable.intros unfolding d0_def by blast
  have "length (e_operations d1) = 2" unfolding d1_def d0_def by code_simp
  then show ?thesis using r param_override_dialog_invariant [OF r] by auto
qed

text \<open>Dropping a rule on another moves exactly that rule: the other rules keep their order, and the
  rule stands directly before or after the one it was dropped on.\<close>

theorem reorder_moves_one:
  assumes "distinct (map o_id ops)" "m \<in> set ops" "x \<in> set ops" "o_id m \<noteq> o_id x" "o_id m \<noteq> []" "o_id x \<noteq> []"
  shows "filter (\<lambda>op. o_id op \<noteq> o_id m) (reorderOperations ops (o_id m) (o_id x) pos) =
      filter (\<lambda>op. o_id op \<noteq> o_id m) ops \<and>
    (\<exists>us vs. reorderOperations ops (o_id m) (o_id x) pos =
       (case pos of Before \<Rightarrow> us @ m # x # vs | After \<Rightarrow> us @ x # m # vs))"
proof -
  from assms(2) obtain xs ys where o: "ops = xs @ m # ys" by (auto simp: in_set_conv_decomp)
  then have ids: "o_id m \<notin> o_id ` set xs" "o_id m \<notin> o_id ` set ys" using assms(1) by auto
  have "x \<in> set (xs @ ys)" using assms(3,4) o by auto
  then obtain us vs where r: "xs @ ys = us @ x # vs" by (metis split_list)
  have "distinct (map o_id (us @ x # vs))" unfolding r [symmetric] using assms(1) o by auto
  then have x: "o_id x \<notin> o_id ` set us" by auto
  have first: "find_idx (\<lambda>op. o_id op = i) (as @ a # bs) = Some (length as)"
    if "i \<notin> o_id ` set as" "o_id a = i" for i as a bs using that by (induction as) auto
  have "reorderOperations ops (o_id m) (o_id x) pos = (if pos = After then us @ x # m # vs else us @ m # x # vs)"
    using assms(4-6) first [OF ids(1) refl, of ys] first [OF x refl, of vs] r
    by (simp add: reorderOperations_def o Let_def)
  moreover have "filter (\<lambda>op. o_id op \<noteq> o_id m) (us @ m # x # vs) = filter (\<lambda>op. o_id op \<noteq> o_id m) (us @ x # vs)"
    "filter (\<lambda>op. o_id op \<noteq> o_id m) (us @ x # m # vs) = filter (\<lambda>op. o_id op \<noteq> o_id m) (us @ x # vs)" by simp_all
  moreover have "filter (\<lambda>op. o_id op \<noteq> o_id m) ops = filter (\<lambda>op. o_id op \<noteq> o_id m) (us @ x # vs)"
    unfolding r [symmetric] by (simp add: o)
  ultimately show ?thesis by (cases pos) (simp_all, blast+)
qed

definition named_rule :: "string \<Rightarrow> ParamOverrideOperation" where
  "named_rule i = \<lparr>o_id = js i, o_description = [], o_path = [], o_mode = js ''set'', o_from = [], o_to = [],
     o_value_text = [], o_keep_origin = False, o_logic = js ''OR'', o_conditions = []\<rparr>"

theorem reorder_moves_one_witness:
  "filter (\<lambda>op. o_id op \<noteq> js ''c'')
     (reorderOperations [named_rule ''a'', named_rule ''b'', named_rule ''c''] (js ''c'') (js ''a'') After) =
   [named_rule ''a'', named_rule ''b'']"
proof -
  have "o_id (named_rule i) = js i" for i by (simp add: named_rule_def)
  then show ?thesis
    using reorder_moves_one [of "[named_rule ''a'', named_rule ''b'', named_rule ''c'']" "named_rule ''c''"
        "named_rule ''a''" After] by simp
qed

subsection \<open>Opening and saving\<close>

lemma act_map_throws:
  assumes "\<And>x n. isl (fst (f x n)) = bad x"
  shows "isl (fst (act_map f xs n)) = (\<exists>x\<in>set xs. bad x)"
proof (induction xs arbitrary: n)
  case (Cons x xs)
  obtain r m where r: "f x n = (r, m)" by fastforce
  obtain rs k where rs: "act_map f xs m = (rs, k)" by fastforce
  show ?case using assms [of x n] Cons.IH [of m] r rs by (cases r; cases rs) auto
qed simp

text \<open>The configurations that cannot be opened: null among the operations or among the conditions of
  an operation.\<close>

definition bad_operation :: "jsval \<Rightarrow> bool" where
  "bad_operation v \<longleftrightarrow> v = JNull \<or> str_throws (prop_of v (js ''logic'')) \<or>
     (\<exists>cs. prop_of v (js ''conditions'') = JArr cs \<and> JNull \<in> set cs)"

lemma normalizeOperation_throws: "isl (fst (normalizeOperation now v n)) = bad_operation v"
proof -
  have c: "isl (fst (act_map (normalizeCondition_po now) cs m)) = (\<exists>x\<in>set cs. x = JNull)" for cs m
    by (rule act_map_throws) (simp add: normalizeCondition_po_def)
  show ?thesis
  proof (cases "prop_of v (js ''conditions'')")
    case (JArr cs)
    obtain r m where "act_map (normalizeCondition_po now) cs (Suc n) = (r, m)" by fastforce
    then show ?thesis
      using JArr c [of cs "Suc n"] by (cases r) (auto simp: normalizeOperation_def bad_operation_def)
  qed (auto simp: normalizeOperation_def bad_operation_def)
qed

definition unopenable :: "jsstring \<Rightarrow> bool" where
  "unopenable val \<longleftrightarrow> trim val \<noteq> [] \<and>
     (\<exists>v vs. json_parse (trim val) = Some v \<and> operations_of v = Some vs \<and> (\<exists>x\<in>set vs. bad_operation x))"

text \<open>C4: Opening a text throws exactly when its list of operations holds null, or one of its
  operations holds null as a condition or, as its logic, an object with an own property \<^verbatim>\<open>toString\<close> (or
  an array with such an object). Otherwise the editor has at least one operation, and every
  mode and logic in it is one of the tables, whatever the text is.\<close>

theorem param_override_open:
  "case fst (parseInitialState now val n) of
     Inl e \<Rightarrow> unopenable val
   | Inr st \<Rightarrow> \<not> unopenable val \<and> e_operations st \<noteq> [] \<and> list_all op_wt (e_operations st)"
proof -
  obtain op m where def: "createDefaultOperation now n = (Inr op, m)" using createDefaultOperation_ok by blast
  have "isl (fst (operations_or_default now vs n)) = (\<exists>x\<in>set vs. bad_operation x)" for vs
    using act_map_throws [of "normalizeOperation now" bad_operation vs n] normalizeOperation_throws def
    by (auto simp: operations_or_default_def act_bind_def act_return_def)
  note throws = this
  have many: "isl (fst (act_bind (operations_or_default now vs) (\<lambda>ops. act_return (f ops)) n)) =
      (\<exists>x\<in>set vs. bad_operation x)" for vs and f :: "ParamOverrideOperation list \<Rightarrow> EditorState"
    using throws [of vs]
    by (cases "operations_or_default now vs n"; cases "fst (operations_or_default now vs n)")
       (auto simp: act_bind_def act_return_def)
  have "isl (fst (parseInitialState now val n)) = unopenable val"
    by (auto simp: parseInitialState_def Let_def unopenable_def many act_bind_def [of "createDefaultOperation now"]
        act_return_def def split: option.splits)
  moreover obtain r k where r: "parseInitialState now val n = (r, k)" by fastforce
  ultimately show ?thesis
    using parseInitialState_made [of now val n _ k] by (cases r) auto
qed

text \<open>Saving is refused exactly when the editor shows an error, provided that no translation is
  empty: in the visual editor the text is saved and the dialog closed if and only if no validation
  error is shown, and what is saved is empty or the printed form of a JSON object.\<close>

theorem param_override_save:
  assumes "\<And>k l. t k l \<noteq> []" "e_editMode d = VisualEdit"
  shows "(visualValidationError t d = [] \<longleftrightarrow> (\<exists>s. snd (handleSave t d) = [Saved s, Closed])) \<and>
    (\<forall>s. snd (handleSave t d) = [Saved s, Closed] \<longrightarrow> s = [] \<or> (\<exists>p. s = json_stringify2 (JObj p))) \<and>
    fst (handleSave t d) = d"
proof -
  have msg: "m \<noteq> []" if "buildVisualJson t d = Inl m" for m
    using that assms(1)
    by (auto simp: buildVisualJson_def buildOperationsJson_def Let_def split: if_splits option.splits)
  have obj: "s = [] \<or> (\<exists>p. s = json_stringify2 (JObj p))" if "buildVisualJson t d = Inr s" for s
    using that
    by (auto simp: buildVisualJson_def buildOperationsJson_def Let_def split: if_splits option.splits
        elim!: as_plain_object.elims)
  show ?thesis
    using assms(2) msg obj
    by (auto simp: handleSave_def visualValidationError_def str_or_def split: sum.splits)
qed

theorem param_override_save_witness:
  "snd (handleSave (\<lambda>k l. js ''m'') (initial_dialog (\<lambda>n. 0) 0)) = [Saved [], Closed] \<and>
   visualValidationError (\<lambda>k l. js ''m'') (initial_dialog (\<lambda>n. 0) 0) = []"
proof -
  define d where "d = initial_dialog (\<lambda>n. 0) 0"
  have s: "snd (handleSave (\<lambda>k l. js ''m'') d) = [Saved [], Closed]" unfolding d_def by code_simp
  have "e_editMode d = VisualEdit" unfolding d_def by code_simp
  then show ?thesis using param_override_save [of "\<lambda>k l. js ''m''" d] s unfolding d_def by simp
qed

end
