(* ===== verification/ParamOverrideRoundTrip.thy ===== *)
theory ParamOverrideRoundTrip
  imports ParamOverrideInvariant
begin

text \<open>
  Saving and reopening a list of operations. \<open>operation_payload\<close>, a chain of assignments, is first
  shown to be a list of optional entries (\<open>payload_entries\<close>); loading it gives an operation with the
  same entries, hence the same text when it is saved again.
\<close>

subsection \<open>Printed values are trimmed\<close>

lemma ends_digit_int:
  "number_int s = Some (d, q) \<Longrightarrow> \<exists>w. s = w @ q \<and> w \<noteq> [] \<and> is_digit (last w)"
proof (cases s)
  case (Cons c r)
  assume n: "number_int s = Some (d, q)"
  show ?thesis
  proof (cases "c = 48")
    case True
    with n Cons show ?thesis by (intro exI [of _ "[48]"]) (auto simp: number_int_def is_digit_def)
  next
    case False
    with n Cons have "is_digit c" "q = dropWhile is_digit s" by (auto simp: number_int_def split: if_splits)
    then have "s = takeWhile is_digit s @ q" "takeWhile is_digit s \<noteq> []" using Cons by auto
    then show ?thesis by (metis last_in_set set_takeWhileD)
  qed
qed (simp add: number_int_def)

lemma digits_run:
  "r \<noteq> [] \<Longrightarrow> is_digit (hd r) \<Longrightarrow> \<exists>w. r = w @ dropWhile is_digit r \<and> w \<noteq> [] \<and> is_digit (last w)"
  by (intro exI [of _ "takeWhile is_digit r"], cases r) (auto dest: set_takeWhileD last_in_set)

lemma ends_digit_frac:
  "number_frac s = Some (d, q) \<Longrightarrow> s = q \<or> (\<exists>w. s = w @ q \<and> w \<noteq> [] \<and> is_digit (last w))"
proof (cases s)
  case (Cons c r)
  assume n: "number_frac s = Some (d, q)"
  show ?thesis
  proof (cases "c = 46")
    case True
    with n Cons have "r \<noteq> []" "is_digit (hd r)" "q = dropWhile is_digit r"
      by (auto simp: number_frac_def split: if_splits)
    then obtain w where "r = w @ q" "w \<noteq> []" "is_digit (last w)" using digits_run by blast
    with Cons show ?thesis by (intro disjI2 exI [of _ "c # w"]) auto
  qed (use n Cons in \<open>auto simp: number_frac_def\<close>)
qed (simp add: number_frac_def)

lemma ends_digit_exp:
  "number_exp s = Some (e, q) \<Longrightarrow> s = q \<or> (\<exists>w. s = w @ q \<and> w \<noteq> [] \<and> is_digit (last w))"
proof (cases s)
  case (Cons c r)
  assume n: "number_exp s = Some (e, q)"
  show ?thesis
  proof (cases "c = 101 \<or> c = 69")
    case True
    define u where "u = (if r \<noteq> [] \<and> (hd r = 45 \<or> hd r = 43) then tl r else r)"
    have u: "u \<noteq> []" "is_digit (hd u)" "q = dropWhile is_digit u"
      using n Cons True by (auto simp: number_exp_def Let_def u_def split: if_splits)
    then obtain w where w: "u = w @ q" "w \<noteq> []" "is_digit (last w)" using digits_run by blast
    have "\<exists>v. r = v @ u" unfolding u_def by (cases r) auto
    then obtain v where "r = v @ u" ..
    with w Cons show ?thesis by (intro disjI2 exI [of _ "c # v @ w"]) auto
  qed (use n Cons in \<open>auto simp: number_exp_def\<close>)
qed (simp add: number_exp_def)

lemma parse_number_last:
  assumes "parse_number s = Some (v, [])"
  shows "is_digit (last s)"
proof -
  define u where "u = (if s \<noteq> [] \<and> hd s = 45 then tl s else s)"
  obtain ip q fp q' e where n: "number_int u = Some (ip, q)" "number_frac q = Some (fp, q')"
    "number_exp q' = Some (e, [])"
    using assms by (auto simp: parse_number_def Let_def u_def split: option.splits if_splits)
  from ends_digit_int [OF n(1)] obtain w where w: "u = w @ q" "w \<noteq> []" "is_digit (last w)" by blast
  have "is_digit (last u)"
    using w ends_digit_frac [OF n(2)] ends_digit_exp [OF n(3)] by auto
  moreover have "u \<noteq> []" using w by auto
  ultimately show ?thesis unfolding u_def by (cases s) (auto split: if_splits)
qed

lemma is_ws_false [simp]:
  "\<not> is_ws 45" "\<not> is_ws 91" "\<not> is_ws 93" "\<not> is_ws 123" "\<not> is_ws 125" "\<not> is_ws 34"
  by (simp_all add: is_ws_def)

lemma json_stringify_trimmed:
  assumes "json_ok v"
  shows "trimmed (json_stringify v) \<and> json_stringify v \<noteq> []"
proof (cases v)
  case (JNum x)
  have p: "parse_number (num_to_str x) = Some (JNum x, [])" using assms JNum json_ok_number by simp
  obtain q where "x = Fin q" using assms JNum by (cases x) auto
  then have s: "json_stringify v = num_to_str x" by (simp add: JNum json_stringify_def)
  from parse_number_start [OF p] obtain c r where "num_to_str x = c # r" "c = 45 \<or> is_digit c" by blast
  then show ?thesis
    using parse_number_last [OF p] s by (auto simp: trimmed_def is_digit_not_ws)
next
  case (JBool b)
  then show ?thesis by (auto simp: json_stringify_def trimmed_def js_def is_ws_def)
qed (use assms in \<open>auto simp: json_stringify_def trimmed_def js_def is_ws_def json_quote_def\<close>)

subsection \<open>Value texts that keep their value\<close>

text \<open>A quoted JSON string loses its quotes when it is loaded again, so its content must not be empty,
  begin or end with white space, or itself be JSON. Every other value text keeps its value.\<close>

definition value_text_ok :: "jsstring \<Rightarrow> bool" where
  "value_text_ok s \<longleftrightarrow> str_ok s \<and>
     (case json_parse (trim s) of
        None \<Rightarrow> True
      | Some (JStr x) \<Rightarrow> str_ok x \<and> x \<noteq> [] \<and> trim x = x \<and> json_parse x = None
      | Some v \<Rightarrow> json_ok v)"

lemma loose_value_cases:
  assumes "value_text_ok s"
  obtains (plain) "parseLooseValue s = JStr (trim s)" "json_parse (trim s) = None \<or> trim s = []"
  | (json) v where "parseLooseValue s = v" "json_parse (trim s) = Some v" "json_ok v" "trim s \<noteq> []"
      "toValueText v = json_stringify v"
  | (quoted) x where "parseLooseValue s = JStr x" "json_parse (trim s) = Some (JStr x)" "str_ok x" "trim s \<noteq> []"
      "x \<noteq> []" "trim x = x" "json_parse x = None"
proof (cases "trim s = [] \<or> json_parse (trim s) = None")
  case True
  then have "parseLooseValue s = JStr (trim s)" by (auto simp: parseLooseValue_def Let_def)
  with True show thesis using plain by blast
next
  case False
  then obtain v where v: "json_parse (trim s) = Some v" "trim s \<noteq> []" by auto
  then have p: "parseLooseValue s = v" by (simp add: parseLooseValue_def)
  show thesis
  proof (cases "\<exists>x. v = JStr x")
    case True
    then show thesis using v p assms quoted by (auto simp: value_text_ok_def)
  next
    case False
    then have "json_ok v" using assms v by (auto simp: value_text_ok_def split: jsval.splits)
    moreover have "toValueText v = json_stringify v" using False \<open>json_ok v\<close> by (cases v) (auto simp: toValueText_def)
    ultimately show thesis using json v p by blast
  qed
qed

lemma loose_value_json_ok:
  assumes "value_text_ok s"
  shows "json_ok (parseLooseValue s)"
  using assms
proof (cases rule: loose_value_cases)
  case plain
  then show ?thesis using assms str_ok_trim [of s] by (simp add: value_text_ok_def)
qed simp_all

lemma loose_value_kept:
  assumes "value_text_ok s"
  shows "parseLooseValue (toValueText (parseLooseValue s)) = parseLooseValue s \<and>
    trim (toValueText (parseLooseValue s)) = toValueText (parseLooseValue s) \<and>
    (trim s = [] \<or> (\<forall>p. json_parse (toValueText (parseLooseValue s)) = Some (JObj p) \<longleftrightarrow> json_parse (trim s) = Some (JObj p))) \<and>
    (toValueText (parseLooseValue s) = [] \<longleftrightarrow> trim s = [])"
  using assms
proof (cases rule: loose_value_cases)
  case (json v)
  have "trim (json_stringify v) = json_stringify v" "json_stringify v \<noteq> []"
    using json_stringify_trimmed [OF json(3)] trim_id by auto
  with json show ?thesis
    using json_round_trip [OF json(3)] by (simp add: parseLooseValue_def)
qed (auto simp: toValueText_def parseLooseValue_def)

subsection \<open>A payload as a list of optional entries\<close>

definition opt_kv :: "string \<Rightarrow> jsval option \<Rightarrow> jsval props" where
  "opt_kv k x = (case x of None \<Rightarrow> [] | Some v \<Rightarrow> [(js k, v)])"

definition given :: "bool \<Rightarrow> 'a \<Rightarrow> 'a option" where
  "given c v = (if c then Some v else None)"

lemma opt_kv_given: "opt_kv k (given c v) = (if c then [(js k, v)] else [])"
  by (simp add: opt_kv_def given_def)

lemma keys_opt_kv: "fst ` set (opt_kv k x) \<subseteq> {js k}"
  by (auto simp: opt_kv_def split: option.splits)

lemma key_not_in_opt_kv: "k \<noteq> k' \<Longrightarrow> js k \<notin> fst ` set (opt_kv k' x)"
  by (auto simp: opt_kv_def split: option.splits)

lemma opt_kv_keys:
  "distinct (map fst (opt_kv k x))" "k \<noteq> k' \<Longrightarrow> fst ` set (opt_kv k x) \<inter> fst ` set (opt_kv k' y) = {}"
  by (auto simp: opt_kv_def split: option.splits)

lemma put_last:
  "js k \<notin> fst ` set p \<Longrightarrow> \<not> is_index_key (js k) \<Longrightarrow>
   (if c then props_set p (js k) v else p) = p @ opt_kv k (given c v)"
  by (auto simp: props_set_def props_keys_def opt_kv_def given_def)

text \<open>The names of the payload are no array indices.\<close>

lemma payload_names [simp]:
  "\<not> is_index_key (js ''mode'')" "\<not> is_index_key (js ''description'')" "\<not> is_index_key (js ''path'')"
  "\<not> is_index_key (js ''value'')" "\<not> is_index_key (js ''keep_origin'')" "\<not> is_index_key (js ''from'')"
  "\<not> is_index_key (js ''to'')" "\<not> is_index_key (js ''conditions'')" "\<not> is_index_key (js ''logic'')"
  "\<not> is_index_key (js ''invert'')" "\<not> is_index_key (js ''pass_missing_key'')"
  "\<not> is_index_key (js ''operations'')"
  by (simp_all add: is_index_key_def js_def is_digit_def)

lemma meta_facts:
  "m_pathAlias (meta_of mode) \<Longrightarrow> m_from (meta_of mode) \<and> m_to (meta_of mode) = Some True \<and>
     \<not> m_path (meta_of mode) \<and> \<not> m_pathOptional (meta_of mode)"
  "m_path (meta_of mode) \<Longrightarrow> \<not> m_pathOptional (meta_of mode)"
proof -
  have all: "list_all (\<lambda>kv. (m_pathAlias (snd kv) \<longrightarrow> m_from (snd kv) \<and> m_to (snd kv) = Some True \<and>
      \<not> m_path (snd kv) \<and> \<not> m_pathOptional (snd kv)) \<and> (m_path (snd kv) \<longrightarrow> \<not> m_pathOptional (snd kv))) MODE_META"
    by (simp add: MODE_META_def no_meta_def)
  have "(m_pathAlias m \<longrightarrow> m_from m \<and> m_to m = Some True \<and> \<not> m_path m \<and> \<not> m_pathOptional m) \<and>
      (m_path m \<longrightarrow> \<not> m_pathOptional m)" if "m = meta_of mode" for m
  proof (cases "props_get MODE_META mode")
    case (Some m')
    then have "(mode, m') \<in> set MODE_META" by (simp add: props_get_def map_of_SomeD)
    from bspec [OF all [unfolded list_all_iff] this] show ?thesis using that Some by (simp add: meta_of_def)
  qed (simp add: that meta_of_def no_meta_def)
  then show "m_pathAlias (meta_of mode) \<Longrightarrow> m_from (meta_of mode) \<and> m_to (meta_of mode) = Some True \<and>
     \<not> m_path (meta_of mode) \<and> \<not> m_pathOptional (meta_of mode)"
    "m_path (meta_of mode) \<Longrightarrow> \<not> m_pathOptional (meta_of mode)" by blast+
qed

text \<open>The entries of a payload: what is stored under each name, in this order.\<close>

definition stored_from :: "mode_meta \<Rightarrow> ParamOverrideOperation \<Rightarrow> jsstring" where
  "stored_from meta op = (if m_pathAlias meta \<and> trim (o_from op) = [] then trim (o_path op) else trim (o_from op))"

definition stored_to :: "mode_meta \<Rightarrow> ParamOverrideOperation \<Rightarrow> jsstring" where
  "stored_to meta op = (if m_pathAlias meta \<and> trim (o_to op) = [] then trim (o_path op) else trim (o_to op))"

definition stored_conditions :: "ParamOverrideOperation \<Rightarrow> jsval list" where
  "stored_conditions op = List.map_filter buildConditionPayload (o_conditions op)"

definition payload_entries :: "mode_meta \<Rightarrow> ParamOverrideOperation \<Rightarrow> jsval props" where
  "payload_entries meta op =
     opt_kv ''description'' (given (trim (o_description op) \<noteq> []) (JStr (trim (o_description op)))) @
     opt_kv ''path'' (given (m_path meta \<or> m_pathOptional meta \<and> trim (o_path op) \<noteq> []) (JStr (trim (o_path op)))) @
     opt_kv ''value'' (given (m_value meta) (parseLooseValue (o_value_text op))) @
     opt_kv ''keep_origin'' (given (m_keepOrigin meta \<and> o_keep_origin op) (JBool True)) @
     opt_kv ''from'' (given (m_from meta) (JStr (stored_from meta op))) @
     opt_kv ''to'' (given (m_to meta = Some True \<or> trim (o_to op) \<noteq> []) (JStr (stored_to meta op))) @
     opt_kv ''conditions'' (given (stored_conditions op \<noteq> []) (JArr (stored_conditions op))) @
     opt_kv ''logic'' (given (stored_conditions op \<noteq> [])
       (JStr (if o_logic op = js ''AND'' then js ''AND'' else js ''OR'')))"

lemma props_set_replace: "k \<notin> fst ` set p \<Longrightarrow> props_set (p @ (k, a) # q) k b = p @ (k, b) # q"
proof -
  have "props_replace (p @ (k, a) # q) k b = p @ (k, b) # q" if "k \<notin> fst ` set p"
    using that by (induction p) auto
  then show "k \<notin> fst ` set p \<Longrightarrow> ?thesis" by (simp add: props_set_def props_keys_def)
qed

lemma val_at_append: "k \<notin> fst ` set p \<Longrightarrow> val_at (p @ q) k = val_at q k"
  by (simp add: val_at_def props_get_def map_add_dom_app_simps(3) dom_map_of_conv_image_fst)

lemma operation_payload_eq:
  assumes "o_mode op \<noteq> []"
  shows "operation_payload op = JObj ((js ''mode'', JStr (o_mode op)) # payload_entries (meta_of (o_mode op)) op)"
proof -
  define meta where "meta = meta_of (o_mode op)"
  define put where "put c k v p = (if c then props_set p (js k) v else p)" for c k and v :: jsval and p
  define path where "path = trim (o_path op)"
  define frm where "frm = trim (o_from op)"
  define to where "to = trim (o_to op)"
  define cs where "cs = stored_conditions op"
  define p1 where "p1 = [(js ''mode'', JStr (o_mode op))] @
    opt_kv ''description'' (given (trim (o_description op) \<noteq> []) (JStr (trim (o_description op))))"
  define p3 where "p3 = p1 @ opt_kv ''path'' (given (m_path meta \<or> m_pathOptional meta \<and> path \<noteq> []) (JStr path))"
  define p5 where "p5 = (p3 @ opt_kv ''value'' (given (m_value meta) (parseLooseValue (o_value_text op)))) @
    opt_kv ''keep_origin'' (given (m_keepOrigin meta \<and> o_keep_origin op) (JBool True))"
  define p8 where "p8 = (p5 @ opt_kv ''from'' (given (m_from meta) (JStr frm))) @
    opt_kv ''to'' (given (m_to meta = Some True \<or> to \<noteq> []) (JStr to))"
  define p10 where "p10 = (p5 @ opt_kv ''from'' (given (m_from meta) (JStr (stored_from meta op)))) @
    opt_kv ''to'' (given (m_to meta = Some True \<or> to \<noteq> []) (JStr (stored_to meta op)))"
  note keys = image_Un key_not_in_opt_kv
  have once: "put c1 k v (put c2 k v p) = put (c2 \<or> c1) k v p" if "\<not> (c1 \<and> c2)" for c1 c2 k v p
    using that by (auto simp: put_def)
  have last: "put c k v p = p @ opt_kv k (given c v)" if "js k \<notin> fst ` set p" "\<not> is_index_key (js k)" for c k v p
    using that unfolding put_def by (rule put_last)
  have 1: "put (trim (o_description op) \<noteq> []) ''description'' (JStr (trim (o_description op)))
      [(js ''mode'', JStr (o_mode op))] = p1"
    unfolding p1_def by (rule last) simp_all
  have 2: "put (m_pathOptional meta \<and> path \<noteq> []) ''path'' (JStr path) (put (m_path meta) ''path'' (JStr path) p1) = p3"
    using meta_facts(2) [of "o_mode op"] unfolding p3_def
    by (subst once, force simp: meta_def, subst last) (simp_all add: p1_def keys)
  have 3: "put (m_keepOrigin meta \<and> o_keep_origin op) ''keep_origin'' (JBool True)
      (put (m_value meta) ''value'' (parseLooseValue (o_value_text op)) p3) = p5"
    unfolding p5_def by (subst last, simp_all add: p3_def p1_def keys, subst last, simp_all add: keys)
  have 4: "put (m_to meta = Some True) ''to'' (JStr to) (put (m_to meta \<noteq> Some True \<and> to \<noteq> []) ''to'' (JStr to)
      (put (m_from meta) ''from'' (JStr frm) p5)) = p8"
  proof -
    have "put (m_from meta) ''from'' (JStr frm) p5 = p5 @ opt_kv ''from'' (given (m_from meta) (JStr frm))"
      by (rule last) (simp_all add: p5_def p3_def p1_def keys)
    moreover have "(m_to meta \<noteq> Some True \<and> to \<noteq> [] \<or> m_to meta = Some True) \<longleftrightarrow> (m_to meta = Some True \<or> to \<noteq> [])"
      by blast
    ultimately show ?thesis
      unfolding p8_def
      by (subst once, force, simp only:, subst last) (simp_all add: p5_def p3_def p1_def keys)
  qed
  define p9 where "p9 = put (m_pathAlias meta \<and> \<not> truthy (val_at p8 (js ''from'')) \<and> path \<noteq> []) ''from'' (JStr path) p8"
  have 5: "put (m_pathAlias meta \<and> \<not> truthy (val_at p9 (js ''to'')) \<and> path \<noteq> []) ''to'' (JStr path) p9 = p10"
  proof (cases "m_pathAlias meta")
    case True
    then have m: "m_from meta" "m_to meta = Some True" using meta_facts(1) [of "o_mode op"] by (auto simp: meta_def)
    have new: "js ''from'' \<notin> fst ` set p5" "js ''to'' \<notin> fst ` set p5"
      by (simp_all add: p5_def p3_def p1_def keys)
    have p8: "p8 = p5 @ [(js ''from'', JStr frm), (js ''to'', JStr to)]"
      by (simp add: p8_def m opt_kv_def given_def)
    have at: "val_at (p5 @ [(js ''from'', a), (js ''to'', b)]) (js ''from'') = a"
      "val_at (p5 @ [(js ''from'', a), (js ''to'', b)]) (js ''to'') = b" for a b
      unfolding val_at_append [OF new(1)] val_at_append [OF new(2)]
      by (simp_all add: val_at_def props_get_def)
    have p9: "p9 = p5 @ [(js ''from'', JStr (stored_from meta op)), (js ''to'', JStr to)]"
      using new by (auto simp: p9_def p8 put_def True props_set_replace at stored_from_def path_def frm_def)
    have "props_set (p5 @ [(js ''from'', a), (js ''to'', b)]) (js ''to'') c = p5 @ [(js ''from'', a), (js ''to'', c)]" for a b c
      using props_set_replace [of "js ''to''" "p5 @ [(js ''from'', a)]" b "[]" c] new by simp
    then show ?thesis
      by (auto simp: p9 p10_def put_def True m at stored_to_def path_def to_def opt_kv_def given_def)
  next
    case False
    then show ?thesis by (simp add: put_def p9_def p8_def p10_def stored_from_def stored_to_def frm_def to_def)
  qed
  have 6: "put (cs \<noteq> []) ''logic'' (JStr (if o_logic op = js ''AND'' then js ''AND'' else js ''OR''))
      (put (cs \<noteq> []) ''conditions'' (JArr cs) p10) =
      (js ''mode'', JStr (o_mode op)) # payload_entries meta op"
  proof -
    have "put (cs \<noteq> []) ''conditions'' (JArr cs) p10 = p10 @ opt_kv ''conditions'' (given (cs \<noteq> []) (JArr cs))"
      by (rule last) (simp_all add: p10_def p5_def p3_def p1_def keys)
    then show ?thesis
      by (simp only:, subst last)
         (simp_all add: p10_def p5_def p3_def p1_def keys payload_entries_def cs_def path_def to_def)
  qed
  have mode: "str_or (o_mode op) (js ''set'') = o_mode op" using assms by (simp add: str_or_def)
  have "operation_payload op =
      (let q1 = put (trim (o_description op) \<noteq> []) ''description'' (JStr (trim (o_description op)))
                  [(js ''mode'', JStr (o_mode op))];
           q3 = put (m_pathOptional meta \<and> path \<noteq> []) ''path'' (JStr path) (put (m_path meta) ''path'' (JStr path) q1);
           q5 = put (m_keepOrigin meta \<and> o_keep_origin op) ''keep_origin'' (JBool True)
                  (put (m_value meta) ''value'' (parseLooseValue (o_value_text op)) q3);
           q8 = put (m_to meta = Some True) ''to'' (JStr to) (put (m_to meta \<noteq> Some True \<and> to \<noteq> []) ''to'' (JStr to)
                  (put (m_from meta) ''from'' (JStr frm) q5));
           q9 = put (m_pathAlias meta \<and> \<not> truthy (val_at q8 (js ''from'')) \<and> path \<noteq> []) ''from'' (JStr path) q8;
           q10 = put (m_pathAlias meta \<and> \<not> truthy (val_at q9 (js ''to'')) \<and> path \<noteq> []) ''to'' (JStr path) q9
       in JObj (put (cs \<noteq> []) ''logic'' (JStr (if o_logic op = js ''AND'' then js ''AND'' else js ''OR''))
            (put (cs \<noteq> []) ''conditions'' (JArr cs) q10)))"
    unfolding operation_payload_def Let_def mode meta_def put_def path_def frm_def to_def cs_def
      stored_conditions_def by (rule refl)
  then show ?thesis
    unfolding Let_def 1 2 3 4 p9_def [symmetric] 5 6 meta_def [symmetric] .
qed

lemma val_at_opt_kv:
  "val_at (opt_kv k x @ q) (js k') =
     (if k = k' then (case x of Some v \<Rightarrow> v | None \<Rightarrow> val_at q (js k')) else val_at q (js k'))"
  "val_at ((js k, v) # q) (js k') = (if k = k' then v else val_at q (js k'))"
  "val_at [] (js k') = JUndef" "val_at (opt_kv k x) (js k') = (if k = k' then (case x of Some v \<Rightarrow> v | None \<Rightarrow> JUndef) else JUndef)"
  by (auto simp: opt_kv_def val_at_def props_get_def split: option.splits)

subsection \<open>Conditions\<close>

definition condition_texts_ok :: "ParamOverrideCondition \<Rightarrow> bool" where
  "condition_texts_ok c \<longleftrightarrow> str_ok (c_path c) \<and> value_text_ok (c_value_text c)"

lemma condition_modes_nonempty: "m \<in> set CONDITION_MODE_VALUES \<Longrightarrow> m \<noteq> [] \<and> str_ok m"
  by (auto simp: CONDITION_MODE_VALUES_def CONDITION_MODE_OPTIONS_def)

lemma buildConditionPayload_eq:
  assumes "cond_wt c"
  shows "buildConditionPayload c =
    (if trim (c_path c) = [] then None
     else Some (JObj ((js ''path'', JStr (trim (c_path c))) # (js ''mode'', JStr (c_mode c)) #
       (js ''value'', parseLooseValue (c_value_text c)) #
       opt_kv ''invert'' (given (c_invert c) (JBool True)) @
       opt_kv ''pass_missing_key'' (given (c_pass_missing_key c) (JBool True)))))"
proof -
  have "c_mode c \<noteq> []" using assms condition_modes_nonempty by (auto simp: cond_wt_def)
  then show ?thesis
    by (simp add: buildConditionPayload_def Let_def str_or_def props_set_def props_keys_def opt_kv_def given_def)
qed

lemma reload_condition:
  assumes "cond_wt c" "condition_texts_ok c" "buildConditionPayload c = Some v"
  shows "\<exists>c' n'. normalizeCondition_po now v n = (Inr c', n') \<and> buildConditionPayload c' = Some v"
proof -
  define c' where "c' = \<lparr>c_id = local_id now n, c_path = trim (c_path c), c_mode = c_mode c,
    c_value_text = toValueText (parseLooseValue (c_value_text c)), c_invert = c_invert c,
    c_pass_missing_key = c_pass_missing_key c\<rparr>"
  have "normalizeCondition_po now v n = (Inr c', Suc n)"
    using assms(1,3) buildConditionPayload_eq [OF assms(1)]
    by (auto simp: normalizeCondition_po_def prop_of_JObj val_at_opt_kv str_or_empty_def mode_or_def cond_wt_def
        given_def c'_def split: if_splits)
  moreover have "buildConditionPayload c' = Some v"
    using assms loose_value_kept [of "c_value_text c"]
    by (simp add: buildConditionPayload_eq c'_def cond_wt_def condition_texts_ok_def split: if_splits)
  ultimately show ?thesis by blast
qed

lemma act_map_list_all2:
  assumes "\<And>x n. x \<in> set xs \<Longrightarrow> \<exists>y n'. f x n = (Inr y, n') \<and> P x y"
  shows "\<exists>ys n'. act_map f xs n = (Inr ys, n') \<and> list_all2 P xs ys"
  using assms
proof (induction xs arbitrary: n)
  case (Cons x xs)
  obtain y m where y: "f x n = (Inr y, m)" "P x y" using Cons.prems [of x n] by auto
  obtain ys n' where "act_map f xs m = (Inr ys, n')" "list_all2 P xs ys"
    using Cons.IH [of m] Cons.prems by auto
  with y show ?case by auto
qed simp

lemma map_filter_list_all2: "list_all2 (\<lambda>x y. f y = Some x) xs ys \<Longrightarrow> List.map_filter f ys = xs"
  by (induction rule: list_all2_induct) (auto simp: List.map_filter_simps)

lemma reload_conditions:
  assumes "\<forall>c\<in>set cs. cond_wt c \<and> condition_texts_ok c"
  shows "\<exists>cs' n'. act_map (normalizeCondition_po now) (List.map_filter buildConditionPayload cs) n = (Inr cs', n') \<and>
    List.map_filter buildConditionPayload cs' = List.map_filter buildConditionPayload cs"
proof -
  have "\<exists>c' n'. normalizeCondition_po now v n = (Inr c', n') \<and> buildConditionPayload c' = Some v"
    if "v \<in> set (List.map_filter buildConditionPayload cs)" for v n
  proof -
    from that obtain c where "c \<in> set cs" "buildConditionPayload c = Some v"
      by (auto simp: List.map_filter_def)
    then show ?thesis using assms reload_condition by blast
  qed
  then obtain cs' n' where "act_map (normalizeCondition_po now) (List.map_filter buildConditionPayload cs) n = (Inr cs', n')"
    "list_all2 (\<lambda>v c. buildConditionPayload c = Some v) (List.map_filter buildConditionPayload cs) cs'"
    using act_map_list_all2 [of "List.map_filter buildConditionPayload cs" "normalizeCondition_po now"
        "\<lambda>v c. buildConditionPayload c = Some v" n] by blast
  then show ?thesis by (auto dest: map_filter_list_all2)
qed

subsection \<open>Operations\<close>

definition operation_texts_ok :: "ParamOverrideOperation \<Rightarrow> bool" where
  "operation_texts_ok op \<longleftrightarrow> str_ok (o_description op) \<and> str_ok (o_path op) \<and> str_ok (o_from op) \<and>
     str_ok (o_to op) \<and> value_text_ok (o_value_text op) \<and> list_all condition_texts_ok (o_conditions op)"

text \<open>The operation that loading the payload of \<open>op\<close> makes, but for identifiers.\<close>

definition reloaded :: "jsstring \<Rightarrow> ParamOverrideCondition list \<Rightarrow> ParamOverrideOperation \<Rightarrow> ParamOverrideOperation" where
  "reloaded i cs op =
     (let meta = meta_of (o_mode op)
      in \<lparr>o_id = i, o_description = trim (o_description op),
         o_path = (if m_path meta \<or> m_pathOptional meta \<and> trim (o_path op) \<noteq> [] then trim (o_path op) else []),
         o_mode = o_mode op,
         o_from = (if m_from meta then stored_from meta op else []),
         o_to = (if m_to meta = Some True \<or> trim (o_to op) \<noteq> [] then stored_to meta op else []),
         o_value_text = (if m_value meta then toValueText (parseLooseValue (o_value_text op)) else []),
         o_keep_origin = (m_keepOrigin meta \<and> o_keep_origin op),
         o_logic = (if stored_conditions op \<noteq> [] \<and> o_logic op = js ''AND'' then js ''AND'' else js ''OR''),
         o_conditions = cs\<rparr>)"

lemma ascii_upper_AND: "ascii_upper (js ''AND'') = js ''AND''" "ascii_upper (js ''OR'') = js ''OR''"
  by (simp_all add: ascii_upper_def js_def)

lemma operation_modes_nonempty: "m \<in> set OPERATION_MODE_VALUES \<Longrightarrow> m \<noteq> [] \<and> str_ok m"
  by (auto simp: OPERATION_MODE_VALUES_def OPERATION_MODE_OPTIONS_def)

lemma normalize_payload:
  assumes "op_wt op" "list_all condition_texts_ok (o_conditions op)"
  shows "\<exists>cs n'. normalizeOperation now (operation_payload op) n = (Inr (reloaded (local_id now n) cs op), n') \<and>
    List.map_filter buildConditionPayload cs = stored_conditions op"
proof -
  have mode: "o_mode op \<in> set OPERATION_MODE_VALUES" "o_mode op \<noteq> []"
    using assms(1) operation_modes_nonempty by (auto simp: op_wt_def)
  obtain cs n' where cs: "act_map (normalizeCondition_po now) (stored_conditions op) (Suc n) = (Inr cs, n')"
    "List.map_filter buildConditionPayload cs = stored_conditions op"
    using reload_conditions [of "o_conditions op" now "Suc n"] assms
    by (auto simp: stored_conditions_def op_wt_def list_all_iff)
  have "normalizeOperation now (operation_payload op) n =
      (Inr (reloaded (local_id now n) (if stored_conditions op = [] then [] else cs) op),
       if stored_conditions op = [] then Suc n else n')"
    unfolding operation_payload_eq [OF mode(2)]
    using mode cs(1)
    by (simp add: normalizeOperation_def prop_of_JObj payload_entries_def val_at_opt_kv given_def str_or_empty_def
        mode_or_def reloaded_def Let_def val_or_def ascii_upper_AND toValueText_def [of JUndef])
  moreover have "List.map_filter buildConditionPayload (if stored_conditions op = [] then [] else cs) = stored_conditions op"
    using cs(2) by (simp add: List.map_filter_simps)
  ultimately show ?thesis by blast
qed

lemma trim_stored [simp]:
  "trim (stored_from meta op) = stored_from meta op" "trim (stored_to meta op) = stored_to meta op"
  by (simp_all add: stored_from_def stored_to_def)

lemma reloaded_payload:
  assumes "o_mode op \<noteq> []" "value_text_ok (o_value_text op)"
    "List.map_filter buildConditionPayload cs = stored_conditions op"
  shows "operation_payload (reloaded i cs op) = operation_payload op"
proof -
  define meta where "meta = meta_of (o_mode op)"
  define op' where "op' = reloaded i cs op"
  note sel = op'_def reloaded_def Let_def meta_def [symmetric]
  have aliased: "m_from meta" "m_to meta = Some True" "\<not> m_path meta" "\<not> m_pathOptional meta" if "m_pathAlias meta"
    using that meta_facts(1) [of "o_mode op"] by (auto simp: meta_def)
  have cs: "stored_conditions op' = stored_conditions op" using assms(3) by (simp add: sel stored_conditions_def)
  have path: "trim (o_path op') = o_path op'" "m_pathAlias meta \<Longrightarrow> o_path op' = []"
    using aliased by (auto simp: sel)
  have frm: "m_from meta \<Longrightarrow> stored_from meta op' = stored_from meta op"
    using path aliased by (auto simp: sel stored_from_def)
  have to: "m_to meta = Some True \<or> trim (o_to op) \<noteq> [] \<Longrightarrow> stored_to meta op' = stored_to meta op"
    "trim (o_to op') \<noteq> [] \<longrightarrow> m_to meta = Some True \<or> trim (o_to op) \<noteq> []"
    "m_to meta \<noteq> Some True \<Longrightarrow> trim (o_to op) \<noteq> [] \<Longrightarrow> trim (o_to op') \<noteq> []"
    using path aliased by (auto simp: sel stored_to_def)
  have val: "m_value meta \<Longrightarrow> parseLooseValue (o_value_text op') = parseLooseValue (o_value_text op)"
    using loose_value_kept [OF assms(2)] by (simp add: sel)
  have "given (m_path meta \<or> m_pathOptional meta \<and> trim (o_path op') \<noteq> []) (JStr (trim (o_path op'))) =
      given (m_path meta \<or> m_pathOptional meta \<and> trim (o_path op) \<noteq> []) (JStr (trim (o_path op)))"
    by (auto simp: given_def sel)
  moreover have "given (m_from meta) (JStr (stored_from meta op')) = given (m_from meta) (JStr (stored_from meta op))"
    "given (m_value meta) (parseLooseValue (o_value_text op')) = given (m_value meta) (parseLooseValue (o_value_text op))"
    using frm val by (auto simp: given_def)
  moreover have "given (m_to meta = Some True \<or> trim (o_to op') \<noteq> []) (JStr (stored_to meta op')) =
      given (m_to meta = Some True \<or> trim (o_to op) \<noteq> []) (JStr (stored_to meta op))"
    using to by (auto simp: given_def)
  moreover have "o_keep_origin op' = (m_keepOrigin meta \<and> o_keep_origin op)"
    "trim (o_description op') = trim (o_description op)"
    "stored_conditions op \<noteq> [] \<Longrightarrow> (o_logic op' = js ''AND'') = (o_logic op = js ''AND'')"
    by (simp_all add: sel)
  ultimately have "payload_entries meta op' = payload_entries meta op"
    unfolding payload_entries_def cs by (simp add: given_def)
  moreover have "o_mode op' = o_mode op" by (simp add: sel)
  ultimately show ?thesis
    using assms(1) by (simp add: operation_payload_eq op'_def [symmetric] meta_def)
qed

lemma str_ok_stored:
  "operation_texts_ok op \<Longrightarrow> str_ok (stored_from meta op)" "operation_texts_ok op \<Longrightarrow> str_ok (stored_to meta op)"
  by (auto simp: stored_from_def stored_to_def operation_texts_ok_def str_ok_trim)

lemma condition_payload_ok:
  assumes "cond_wt c" "condition_texts_ok c" "buildConditionPayload c = Some v"
  shows "json_ok v"
proof -
  have "json_ok (parseLooseValue (c_value_text c))" "str_ok (trim (c_path c))" "str_ok (c_mode c)"
    using assms loose_value_json_ok str_ok_trim condition_modes_nonempty
    by (auto simp: condition_texts_ok_def cond_wt_def)
  then show ?thesis
    using assms(3) buildConditionPayload_eq [OF assms(1)]
    by (auto simp: opt_kv_given props_ok_def props_keys_def split: if_splits)
qed

lemma stored_conditions_ok:
  "op_wt op \<Longrightarrow> operation_texts_ok op \<Longrightarrow> list_all json_ok (stored_conditions op)"
  using condition_payload_ok
  by (fastforce simp: stored_conditions_def List.map_filter_def list_all_iff op_wt_def operation_texts_ok_def)

lemma operation_payload_ok:
  assumes "op_wt op" "operation_texts_ok op"
  shows "json_ok (operation_payload op)"
proof -
  have mode: "o_mode op \<noteq> []" "str_ok (o_mode op)"
    using assms(1) operation_modes_nonempty by (auto simp: op_wt_def)
  define meta where "meta = meta_of (o_mode op)"
  have fields: "str_ok (trim (o_description op))" "str_ok (trim (o_path op))"
    "json_ok (parseLooseValue (o_value_text op))"
    using assms(2) loose_value_json_ok str_ok_trim by (auto simp: operation_texts_ok_def)
  have "list_all (\<lambda>kv. str_ok (fst kv) \<and> json_ok (snd kv)) (payload_entries meta op)"
    using fields str_ok_stored [OF assms(2)] stored_conditions_ok [OF assms]
    by (simp add: payload_entries_def opt_kv_given)
  moreover have "distinct (map fst ((js ''mode'', v) # payload_entries meta op))" for v
    by (simp add: payload_entries_def opt_kv_keys key_not_in_opt_kv image_Un Int_Un_distrib)
  moreover have "list_all (\<lambda>kv. \<not> is_index_key (fst kv)) (payload_entries meta op)"
    by (simp add: payload_entries_def opt_kv_given)
  ultimately show ?thesis
    unfolding operation_payload_eq [OF mode(1)] meta_def
    using mode(2) props_ordered_named by (auto simp: props_ok_def props_keys_def list_all_iff)
qed

subsection \<open>Validation of a reloaded operation\<close>

lemma required_facts:
  "mode \<in> set FROM_REQUIRED_MODES \<Longrightarrow> m_from (meta_of mode)"
  "mode \<in> set TO_REQUIRED_MODES \<Longrightarrow> m_to (meta_of mode) = Some True"
  "mode \<in> set VALUE_REQUIRED_MODES \<Longrightarrow> m_value (meta_of mode)"
  "m_path (meta_of (js ''set''))"
proof -
  have "list_all (\<lambda>mode. m_from (meta_of mode)) FROM_REQUIRED_MODES"
    "list_all (\<lambda>mode. m_to (meta_of mode) = Some True) TO_REQUIRED_MODES"
    "list_all (\<lambda>mode. m_value (meta_of mode)) VALUE_REQUIRED_MODES"
    by (simp_all add: FROM_REQUIRED_MODES_def TO_REQUIRED_MODES_def VALUE_REQUIRED_MODES_def meta_of_def
        MODE_META_def props_get_def no_meta_def)
  then show "mode \<in> set FROM_REQUIRED_MODES \<Longrightarrow> m_from (meta_of mode)"
    "mode \<in> set TO_REQUIRED_MODES \<Longrightarrow> m_to (meta_of mode) = Some True"
    "mode \<in> set VALUE_REQUIRED_MODES \<Longrightarrow> m_value (meta_of mode)"
    by (auto simp: list_all_iff)
qed (simp add: meta_of_def MODE_META_def props_get_def no_meta_def)

lemma value_modes: "js ''return_error'' \<in> set VALUE_REQUIRED_MODES" "js ''pass_headers'' \<in> set VALUE_REQUIRED_MODES"
    "js ''prune_objects'' \<in> set VALUE_REQUIRED_MODES"
  by (simp_all add: VALUE_REQUIRED_MODES_def)

lemma parseLooseValue_trim: "parseLooseValue (trim s) = parseLooseValue s"
  by (simp add: parseLooseValue_def)

text \<open>What a valid operation has, mode by mode.\<close>

definition rule_complete :: "ParamOverrideOperation \<Rightarrow> bool" where
  "rule_complete op \<longleftrightarrow>
     (m_path (meta_of (o_mode op)) \<longrightarrow> trim (o_path op) \<noteq> []) \<and>
     (o_mode op \<in> set FROM_REQUIRED_MODES \<longrightarrow> stored_from (meta_of (o_mode op)) op \<noteq> []) \<and>
     (o_mode op \<in> set TO_REQUIRED_MODES \<longrightarrow> stored_to (meta_of (o_mode op)) op \<noteq> []) \<and>
     (o_mode op \<in> set VALUE_REQUIRED_MODES \<longrightarrow> trim (o_value_text op) \<noteq> []) \<and>
     (o_mode op = js ''return_error'' \<longrightarrow>
        (\<forall>p. json_parse (trim (o_value_text op)) = Some (JObj p) \<longrightarrow>
           str_throws (val_or (val_at p (js ''message'')) (JStr [])) \<or>
           trim (to_str (val_or (val_at p (js ''message'')) (JStr []))) \<noteq> [])) \<and>
     (o_mode op = js ''pass_headers'' \<longrightarrow>
        (\<exists>h hs. parsePassHeaderNames (parseLooseValue (o_value_text op)) = Inr (h # hs)))"

text \<open>A rule on which the validation throws: its headers hold an object without a text.\<close>

definition headers_throw :: "ParamOverrideOperation \<Rightarrow> bool" where
  "headers_throw op \<longleftrightarrow> o_mode op = js ''pass_headers'' \<and> isl (parsePassHeaderNames (parseLooseValue (o_value_text op)))"

lemma check_operation_None:
  assumes "o_mode op \<noteq> []"
  shows "check_operation t i op = None \<longleftrightarrow> rule_complete op"
proof -
  define meta where "meta = meta_of (o_mode op)"
  define raw where "raw = trim (o_value_text op)"
  define no_message where "no_message \<longleftrightarrow> (case json_parse raw of
      Some (JObj p) \<Rightarrow> \<not> str_throws (val_or (val_at p (js ''message'')) (JStr [])) \<and>
        trim (to_str (val_or (val_at p (js ''message'')) (JStr []))) = [] | _ \<Rightarrow> False)"
  have mode: "str_or (o_mode op) (js ''set'') = o_mode op" using assms by (simp add: str_or_def)
  have if_None: "(if c then Some x else y) = None \<longleftrightarrow> \<not> c \<and> y = None" for c and x :: "po_error + jsstring" and y by simp
  have check: "check_operation t i op = None \<longleftrightarrow>
      \<not> (m_path meta \<and> trim (o_path op) = []) \<and>
      \<not> (o_mode op \<in> set FROM_REQUIRED_MODES \<and> trim (o_from op) = [] \<and> \<not> (m_pathAlias meta \<and> trim (o_path op) \<noteq> [])) \<and>
      \<not> (o_mode op \<in> set TO_REQUIRED_MODES \<and> trim (o_to op) = [] \<and> \<not> (m_pathAlias meta \<and> trim (o_path op) \<noteq> [])) \<and>
      \<not> (o_mode op \<in> set VALUE_REQUIRED_MODES \<and> raw = []) \<and> \<not> (o_mode op = js ''return_error'' \<and> raw = []) \<and>
      \<not> (o_mode op = js ''return_error'' \<and> no_message) \<and> \<not> (o_mode op = js ''prune_objects'' \<and> raw = []) \<and>
      \<not> (o_mode op = js ''pass_headers'' \<and> raw = []) \<and>
      \<not> (o_mode op = js ''pass_headers'' \<and> isl (parsePassHeaderNames (parseLooseValue (o_value_text op)))) \<and>
      \<not> (o_mode op = js ''pass_headers'' \<and> parsePassHeaderNames (parseLooseValue (o_value_text op)) = Inr [])"
    unfolding check_operation_def Let_def mode if_None no_message_def raw_def meta_def parseLooseValue_trim by blast
  have message: "(\<forall>p. json_parse raw = Some (JObj p) \<longrightarrow>
      str_throws (val_or (val_at p (js ''message'')) (JStr [])) \<or>
      trim (to_str (val_or (val_at p (js ''message'')) (JStr []))) \<noteq> []) \<longleftrightarrow> \<not> no_message"
    by (auto simp: no_message_def split: option.splits jsval.splits)
  have stored: "(stored_from meta op \<noteq> []) = (\<not> (trim (o_from op) = [] \<and> \<not> (m_pathAlias meta \<and> trim (o_path op) \<noteq> [])))"
    "(stored_to meta op \<noteq> []) = (\<not> (trim (o_to op) = [] \<and> \<not> (m_pathAlias meta \<and> trim (o_path op) \<noteq> [])))"
    by (auto simp: stored_from_def stored_to_def)
  have logic: "(\<not> (a \<and> b) \<and> \<not> (c \<and> d) \<and> \<not> (e \<and> f) \<and> \<not> (v \<and> w) \<and> \<not> (r \<and> w) \<and> \<not> (r \<and> m) \<and> \<not> (u \<and> w) \<and>
      \<not> (h \<and> w) \<and> \<not> (h \<and> x) \<and> \<not> (h \<and> z)) \<longleftrightarrow>
      ((a \<longrightarrow> \<not> b) \<and> (c \<longrightarrow> \<not> d) \<and> (e \<longrightarrow> \<not> f) \<and> (v \<longrightarrow> \<not> w) \<and> (r \<longrightarrow> \<not> m) \<and> (h \<longrightarrow> \<not> x \<and> \<not> z))"
    if "r \<longrightarrow> v" "u \<longrightarrow> v" "h \<longrightarrow> v" for a b c d e f v w r m u h x z
    using that by blast
  have named: "(\<exists>h hs. r = Inr (h # hs)) \<longleftrightarrow> \<not> isl r \<and> r \<noteq> Inr []" for r :: "po_error + jsstring list"
    by (cases r; cases "projr r") auto
  show ?thesis
    unfolding check rule_complete_def meta_def [symmetric] raw_def [symmetric] message stored named
    by (rule logic) (auto simp: value_modes)
qed

lemma reloaded_complete:
  assumes "rule_complete op" "value_text_ok (o_value_text op)"
  shows "rule_complete (reloaded j cs op)"
proof -
  define op' where "op' = reloaded j cs op"
  define meta where "meta = meta_of (o_mode op)"
  note sel = op'_def reloaded_def Let_def meta_def [symmetric]
  have mode: "o_mode op' = o_mode op" by (simp add: sel)
  have val: "trim (o_value_text op') = o_value_text op'"
    "parseLooseValue (o_value_text op') = parseLooseValue (o_value_text op)"
    "o_value_text op' = [] \<longleftrightarrow> trim (o_value_text op) = []"
    "trim (o_value_text op) \<noteq> [] \<Longrightarrow>
      json_parse (o_value_text op') = Some (JObj p) \<longleftrightarrow> json_parse (trim (o_value_text op)) = Some (JObj p)"
    if "m_value meta" for p
    using loose_value_kept [OF assms(2)] that by (auto simp: sel)
  have frm: "m_from meta \<Longrightarrow> stored_from meta op \<noteq> [] \<Longrightarrow> stored_from meta op' \<noteq> []"
    by (auto simp: sel stored_from_def)
  have to: "m_to meta = Some True \<Longrightarrow> stored_to meta op \<noteq> [] \<Longrightarrow> stored_to meta op' \<noteq> []"
    by (auto simp: sel stored_to_def)
  have path: "m_path meta \<Longrightarrow> trim (o_path op') = trim (o_path op)" by (simp add: sel)
  have req: "o_mode op \<in> set VALUE_REQUIRED_MODES \<Longrightarrow> m_value meta" "o_mode op \<in> set FROM_REQUIRED_MODES \<Longrightarrow> m_from meta"
    "o_mode op \<in> set TO_REQUIRED_MODES \<Longrightarrow> m_to meta = Some True"
    using required_facts(1-3) by (auto simp: meta_def)
  have err: "json_parse (trim (o_value_text op')) = Some (JObj p) \<longleftrightarrow> json_parse (trim (o_value_text op)) = Some (JObj p)"
    if "o_mode op = js ''return_error''" for p
    using assms(1) that val(1,4) req(1) value_modes by (simp add: rule_complete_def)
  note c = assms(1) [unfolded rule_complete_def meta_def [symmetric]]
  have "rule_complete op'"
    unfolding rule_complete_def mode meta_def [symmetric]
  proof (intro conjI)
    show "o_mode op \<in> set VALUE_REQUIRED_MODES \<longrightarrow> trim (o_value_text op') \<noteq> []"
      using c val(1,3) req(1) by simp
    show "o_mode op = js ''pass_headers'' \<longrightarrow> (\<exists>h hs. parsePassHeaderNames (parseLooseValue (o_value_text op')) = Inr (h # hs))"
      using c val(2) req(1) value_modes by simp
  qed (use c frm to path req err in simp_all)
  then show ?thesis by (simp add: op'_def)
qed

lemma complete_not_blank: "rule_complete op \<Longrightarrow> \<not> isOperationBlank op"
  using required_facts(4) by (auto simp: rule_complete_def isOperationBlank_def Let_def)

lemma check_operation_message:
  assumes "check_operation t i op = Some m" "o_mode op \<noteq> []"
  shows "if headers_throw op then m = Inl TypeError else \<exists>k. m = Inr (t k (Some (i + 1)))"
proof -
  have mode: "str_or (o_mode op) (js ''set'') = o_mode op" using assms(2) by (simp add: str_or_def)
  show ?thesis
  proof (cases "headers_throw op")
    case True
    then have "o_mode op = js ''pass_headers''" and isl: "isl (parsePassHeaderNames (parseLooseValue (o_value_text op)))"
      by (simp_all add: headers_throw_def)
    moreover have "trim (o_value_text op) \<noteq> []" using isl by (auto simp: parseLooseValue_def parsePassHeaderNames_def)
    moreover have "\<not> m_path (meta_of (js ''pass_headers''))" "js ''pass_headers'' \<notin> set FROM_REQUIRED_MODES"
      "js ''pass_headers'' \<notin> set TO_REQUIRED_MODES" by code_simp+
    ultimately show ?thesis
      using assms(1) True by (auto simp: check_operation_def str_or_def Let_def parseLooseValue_trim)
  next
    case False
    have step: "(if c then Some (Inr (t k (Some (i + 1)))) else y) = Some m \<Longrightarrow> (y = Some m \<Longrightarrow> R) \<Longrightarrow>
        (\<And>k. m = Inr (t k (Some (i + 1))) \<Longrightarrow> R) \<Longrightarrow> R" for c k and y :: "(po_error + jsstring) option" and R
      by (auto split: if_splits)
    have thrown: "(if o_mode op = js ''pass_headers'' \<and> isl (parsePassHeaderNames (parseLooseValue (o_value_text op)))
        then x else y) = y" for x y :: "(po_error + jsstring) option"
      using False by (auto simp: headers_throw_def)
    show ?thesis
      using assms(1) False unfolding check_operation_def Let_def mode parseLooseValue_trim thrown by (elim step) auto
  qed
qed

lemma check_operations_complete:
  assumes "\<And>k l. t k l \<noteq> []" "\<forall>op\<in>set ops. o_mode op \<noteq> []"
  shows "check_operations t i ops = Inr [] \<longleftrightarrow> (\<forall>op\<in>set ops. rule_complete op)"
  using assms(2)
proof (induction ops arbitrary: i)
  case (Cons op ops)
  have "m \<noteq> Inr []" if "check_operation t i op = Some m" for m
    using check_operation_message [OF that] Cons.prems assms(1) by (auto split: if_splits)
  then show ?case
    using Cons check_operation_None [of op t i] by (auto split: option.splits)
qed simp

lemma check_operations_first:
  assumes "\<forall>op\<in>set ops. o_mode op \<noteq> []" "i < length ops" "\<forall>j<i. rule_complete (ops ! j)"
    "\<not> rule_complete (ops ! i)"
  shows "if headers_throw (ops ! i) then check_operations t n ops = Inl TypeError
    else \<exists>k. check_operations t n ops = Inr (t k (Some (Suc (n + i))))"
  using assms
proof (induction ops arbitrary: n i)
  case (Cons op ops)
  show ?case
  proof (cases i)
    case 0
    then obtain m where "check_operation t n op = Some m"
      using Cons.prems check_operation_None [of op t n] by auto
    with 0 show ?thesis using check_operation_message [of t n op m] Cons.prems by (auto split: if_splits)
  next
    case (Suc i')
    then have "rule_complete op" "\<forall>j<i'. rule_complete (ops ! j)" using Cons.prems(3) by auto
    then show ?thesis
      using Suc Cons.prems Cons.IH [of i' "n + 1"] check_operation_None [of op t n] by (simp split: if_splits)
  qed
qed simp

text \<open>C3: Validation accepts exactly the lists of complete rules: each rule has the target path, the
  source, the target and the value that its mode needs, a custom error object has a message and
  passed headers are named. Otherwise the message is about the first rule that is not complete, and
  counts lines from one; if the headers of that rule hold an object without a text, validation throws.\<close>

theorem param_override_validation:
  assumes "\<And>k l. t k l \<noteq> []" "\<forall>op\<in>set ops. op_wt op"
  shows "(validateOperations t ops = Inr [] \<longleftrightarrow> (\<forall>op\<in>set ops. rule_complete op)) \<and>
    (\<forall>i < length ops. (\<forall>j<i. rule_complete (ops ! j)) \<longrightarrow> \<not> rule_complete (ops ! i) \<longrightarrow>
       (if headers_throw (ops ! i) then validateOperations t ops = Inl TypeError
        else \<exists>k. validateOperations t ops = Inr (t k (Some (i + 1)))))"
proof -
  have "\<forall>op\<in>set ops. o_mode op \<noteq> []" using assms(2) operation_modes_nonempty by (auto simp: op_wt_def)
  then show ?thesis
    unfolding validateOperations_def
    using check_operations_complete [of t ops 0, OF assms(1)] check_operations_first [of ops _ t 0, unfolded add_0 Suc_eq_plus1]
    by blast
qed

text \<open>A rule as the dialog holds it, and one without a target path.\<close>

definition sample_rule :: ParamOverrideOperation where
  "sample_rule = \<lparr>o_id = js ''a'', o_description = [], o_path = js ''temperature'', o_mode = js ''set'',
     o_from = [], o_to = [], o_value_text = js ''0.7'', o_keep_origin = True, o_logic = js ''AND'',
     o_conditions = [\<lparr>c_id = js ''b'', c_path = js '' model'', c_mode = js ''prefix'',
        c_value_text = js ''openai/'', c_invert = False, c_pass_missing_key = True\<rparr>]\<rparr>"

definition pathless_rule :: ParamOverrideOperation where
  "pathless_rule = sample_rule\<lparr>o_id := js ''c'', o_path := []\<rparr>"

lemma sample_rules:
  "op_wt sample_rule" "op_wt pathless_rule" "operation_texts_ok sample_rule"
  "rule_complete sample_rule" "\<not> rule_complete pathless_rule"
proof -
  have meta: "m_path (meta_of (js ''set''))" by code_simp
  show "op_wt sample_rule" "op_wt pathless_rule" "operation_texts_ok sample_rule" by code_simp+
  show "rule_complete sample_rule"
    by (simp add: rule_complete_def sample_rule_def) code_simp
  show "\<not> rule_complete pathless_rule"
    using meta by (simp add: rule_complete_def sample_rule_def pathless_rule_def)
qed

theorem param_override_validation_witness:
  "validateOperations (\<lambda>k l. js ''m'') [sample_rule] = Inr [] \<and>
   (\<exists>k::jsstring. validateOperations (\<lambda>k l. k @ int_str (int (case l of Some i \<Rightarrow> i | None \<Rightarrow> 0)) @ js ''.'')
      [sample_rule, pathless_rule] = Inr (k @ int_str 2 @ js ''.''))"
proof -
  have "validateOperations (\<lambda>k l. js ''m'') [sample_rule] = Inr []"
    using param_override_validation [of "\<lambda>k l. js ''m''" "[sample_rule]"] sample_rules by simp
  moreover have "\<not> headers_throw pathless_rule"
    by (simp add: headers_throw_def pathless_rule_def sample_rule_def)
  then have "\<exists>k::jsstring. validateOperations (\<lambda>k l. k @ int_str (int (case l of Some i \<Rightarrow> i | None \<Rightarrow> 0)) @ js ''.'')
      [sample_rule, pathless_rule] = Inr (k @ int_str 2 @ js ''.'')"
    using param_override_validation [of "\<lambda>k l. k @ int_str (int (case l of Some i \<Rightarrow> i | None \<Rightarrow> 0)) @ js ''.''"
        "[sample_rule, pathless_rule]"] sample_rules
    by (auto simp: less_Suc_eq dest!: spec [of _ 1])
  ultimately show ?thesis by blast
qed

lemma pretty_object_trimmed: "trim (json_stringify2 (JObj [(js ''operations'', JArr vs)])) =
    json_stringify2 (JObj [(js ''operations'', JArr vs)])"
  by (intro trim_id) (simp add: json_stringify2_def trimmed_def)

lemma pretty_object_nonempty: "json_stringify2 (JObj [(js ''operations'', JArr vs)]) \<noteq> []"
  by (simp add: json_stringify2_def)

lemma reload_operations:
  assumes "\<forall>op\<in>set ops. op_wt op \<and> operation_texts_ok op \<and> rule_complete op"
  shows "\<exists>ops' n'. act_map (normalizeOperation now) (map operation_payload ops) n = (Inr ops', n') \<and>
    map operation_payload ops' = map operation_payload ops \<and> (\<forall>op\<in>set ops'. rule_complete op \<and> op_wt op)"
proof -
  define P where "P v op \<longleftrightarrow> operation_payload op = v \<and> rule_complete op \<and> op_wt op" for v op
  have "\<exists>op' n'. normalizeOperation now v n = (Inr op', n') \<and> P v op'"
    if v: "v \<in> set (map operation_payload ops)" for v n
  proof -
    from v obtain op where op: "op \<in> set ops" "v = operation_payload op" by auto
    then have ok: "op_wt op" "operation_texts_ok op" "rule_complete op" using assms by auto
    then obtain cs n' where *: "normalizeOperation now v n = (Inr (reloaded (local_id now n) cs op), n')"
      "List.map_filter buildConditionPayload cs = stored_conditions op"
      using normalize_payload [of op now n] op(2) by (auto simp: operation_texts_ok_def)
    have "o_mode op \<noteq> []" using ok(1) operation_modes_nonempty by (auto simp: op_wt_def)
    then have "P v (reloaded (local_id now n) cs op)"
      using *(2) ok op(2) reloaded_payload reloaded_complete normalizeOperation_made [OF *(1)]
      by (auto simp: P_def operation_texts_ok_def)
    with * show ?thesis by blast
  qed
  then obtain ops' n' where m: "act_map (normalizeOperation now) (map operation_payload ops) n = (Inr ops', n')"
    and "list_all2 P (map operation_payload ops) ops'"
    using act_map_list_all2 [of "map operation_payload ops" "normalizeOperation now" P n] by blast
  then have "map operation_payload ops' = map operation_payload ops \<and> (\<forall>op\<in>set ops'. rule_complete op \<and> op_wt op)"
    by (auto simp: P_def list_all2_conv_all_nth in_set_conv_nth intro!: nth_equalityI)
  with m show ?thesis by blast
qed

lemma default_blank: "createDefaultOperation now n = (Inr op, n') \<Longrightarrow> isOperationBlank op"
  by (auto simp: createDefaultOperation_def normalizeOperation_def str_entry_def prop_of_JObj val_at_opt_kv
      str_or_empty_def mode_or_def default_modes toValueText_def isOperationBlank_def)

text \<open>C1: What the visual editor saves it opens again: the saved text is loaded into the visual
  editor, and saving the loaded operations gives the same text. (Hypotheses: the operations are well typed,
  the translations are not empty, and every value text is one that survives: a plain text, a JSON
  value other than a string whose numbers JSON text carries, or a quoted JSON string whose content
  is nonempty, has no blanks around it and is not JSON itself. The quoted string \<open>"123"\<close> does not
  survive, by \<open>string_value_reinterpreted_example\<close>.)\<close>

theorem param_override_reopen:
  assumes "\<And>k l. t k l \<noteq> []" "\<forall>op\<in>set ops. op_wt op \<and> operation_texts_ok op"
    and saved: "buildOperationsJson t True ops = Inr s"
  shows "\<exists>st n'. parseInitialState now s n = (Inr st, n') \<and> e_editMode st = VisualEdit \<and>
    e_visualMode st = OperationsMode \<and> buildOperationsJson t True (e_operations st) = Inr s"
proof -
  define kept where "kept = filter (\<lambda>x. \<not> isOperationBlank x) ops"
  have modes: "\<forall>op\<in>set xs. o_mode op \<noteq> []" if "\<forall>op\<in>set xs. op_wt op" for xs
    using that operation_modes_nonempty by (auto simp: op_wt_def)
  show ?thesis
  proof (cases "kept = []")
    case True
    then have s: "s = []" using saved by (simp add: buildOperationsJson_def kept_def Let_def)
    obtain op n' where op: "createDefaultOperation now n = (Inr op, n')" using createDefaultOperation_ok by blast
    then show ?thesis
      using default_blank [OF op]
      by (auto simp: s parseInitialState_def Let_def act_bind_def act_return_def buildOperationsJson_def)
  next
    case False
    define v where "v = JObj [(js ''operations'', JArr (map operation_payload kept))]"
    have val: "validateOperations t kept = Inr []" and s: "s = json_stringify2 v"
      using saved False
      by (auto simp: buildOperationsJson_def kept_def Let_def v_def CONVERSION_MESSAGE_def split: if_splits sum.splits po_error.splits)
    have kept: "\<forall>op\<in>set kept. op_wt op \<and> operation_texts_ok op" using assms(2) by (auto simp: kept_def)
    then have "\<forall>op\<in>set kept. op_wt op \<and> operation_texts_ok op \<and> rule_complete op"
      using val check_operations_complete [OF assms(1) modes] by (auto simp: validateOperations_def)
    from reload_operations [OF this, of now n] obtain ops' n' where
      r: "act_map (normalizeOperation now) (map operation_payload kept) n = (Inr ops', n')"
        "map operation_payload ops' = map operation_payload kept" "\<forall>op\<in>set ops'. rule_complete op \<and> op_wt op"
      by blast
    have "json_ok v"
      using kept operation_payload_ok by (simp add: v_def props_ok_def props_keys_def list_all_iff)
    then have parse: "json_parse (trim s) = Some v" "trim s = s" "s \<noteq> []"
      using pretty_round_trip pretty_object_trimmed pretty_object_nonempty by (auto simp: s v_def)
    have "operations_of v = Some (map operation_payload kept)"
      by (simp add: operations_of_def v_def val_at_opt_kv)
    then have "\<exists>st. parseInitialState now s n = (Inr st, n') \<and> e_editMode st = VisualEdit \<and>
        e_visualMode st = OperationsMode \<and> e_operations st = ops'"
      using parse r(1) False
      by (simp add: parseInitialState_def operations_or_default_def act_bind_def act_return_def)
    moreover have "buildOperationsJson t True ops' = Inr s"
    proof -
      have f: "filter (\<lambda>x. \<not> isOperationBlank x) ops' = ops'"
        using r(3) complete_not_blank by (simp add: filter_id_conv)
      have "validateOperations t ops' = Inr []"
        using r(3) check_operations_complete [OF assms(1) modes] by (auto simp: validateOperations_def)
      moreover have "ops' \<noteq> []" using r(2) False by auto
      ultimately show ?thesis using r(2) by (simp add: buildOperationsJson_def Let_def f s v_def)
    qed
    ultimately show ?thesis by auto
  qed
qed

theorem param_override_reopen_witness:
  "\<exists>s st n'. buildOperationsJson (\<lambda>k l. js ''m'') True [sample_rule] = Inr s \<and> s \<noteq> [] \<and>
     parseInitialState (\<lambda>n. 0) s 0 = (Inr st, n') \<and>
     buildOperationsJson (\<lambda>k l. js ''m'') True (e_operations st) = Inr s"
proof -
  have "validateOperations (\<lambda>k l. js ''m'') [sample_rule] = Inr []"
    using check_operations_complete [of "\<lambda>k l. js ''m''" "[sample_rule]" 0] sample_rules(4)
    by (simp add: validateOperations_def sample_rule_def)
  then have s: "buildOperationsJson (\<lambda>k l. js ''m'') True [sample_rule] =
      Inr (json_stringify2 (JObj [(js ''operations'', JArr [operation_payload sample_rule])]))"
    using complete_not_blank [OF sample_rules(4)] by (simp add: buildOperationsJson_def)
  show ?thesis
    using param_override_reopen [OF _ _ s, of "\<lambda>n. 0" 0] sample_rules s pretty_object_nonempty by auto
qed

text \<open>A string value that reads as JSON is taken for that JSON value when it is loaded and saved
  again: the string \<^verbatim>\<open>"123"\<close> becomes the number \<^verbatim>\<open>123\<close>.\<close>

lemma string_value_reinterpreted:
  assumes "json_parse (trim s) = Some v" "trim s \<noteq> []"
  shows "parseLooseValue (toValueText (JStr s)) = v"
  using assms by (simp add: toValueText_def parseLooseValue_def)

lemma string_value_reinterpreted_example:
  "parseLooseValue (js ''\"123\"'') = JStr (js ''123'') \<and>
   parseLooseValue (toValueText (parseLooseValue (js ''\"123\"''))) = JNum (Fin 123)"
  by code_simp

end
