(* ===== verification/ParamOverrideDrafts.thy ===== *)
theory ParamOverrideDrafts
  imports ParamOverrideRoundTrip
begin

text \<open>
  The structured editors inside a rule: targets of \<^verbatim>\<open>sync_fields\<close>, drafts of \<^verbatim>\<open>return_error\<close> and of
  \<^verbatim>\<open>prune_objects\<close>. Each edits the value text through a draft that is read from the text and printed
  back, so what a draft loses on that way is lost for the user.
\<close>

subsection \<open>Targets of \<open>sync_fields\<close>\<close>

lemma find_colon: "58 \<notin> set w \<Longrightarrow> find_sub (js '':'') (w @ 58 # k) = Some (length w)"
  by (induction w) (auto simp: js_def)

lemma trim_after_colon:
  assumes "trim key \<noteq> []" "w \<noteq> []" "\<not> is_ws (hd w)"
  shows "trim (w @ 58 # trim key) = w @ 58 # trim key"
  using assms trimmed_trim [of key] by (intro trim_id) (simp add: trimmed_def)

text \<open>A target with a key is read back as it was built: its type, and its key without the white
  space around it. The key may itself contain colons.\<close>

theorem sync_target_round_trip:
  assumes "type = js ''header'' \<or> type = js ''json''" "trim key \<noteq> []"
  shows "parseSyncTargetSpec (buildSyncTargetSpec type key) = (type, trim key)"
proof -
  have c: "js '':'' = [58]" by (simp add: js_def)
  have ne: "type \<noteq> []" "58 \<notin> set type" "\<not> is_ws (hd type)" "ascii_lower type = type" "trim type = type"
    using assms(1) by (auto simp: js_def is_ws_def ascii_lower_def trim_def trim_start_def trim_end_def)
  have b: "buildSyncTargetSpec type key = type @ 58 # trim key"
    using assms by (auto simp: buildSyncTargetSpec_def Let_def c)
  have t: "trim (type @ 58 # trim key) = type @ 58 # trim key"
    using trim_after_colon assms(2) ne by blast
  show ?thesis
    using assms(1) ne find_colon [OF ne(2), of "trim key"]
    by (auto simp: parseSyncTargetSpec_def Let_def b t)
qed

theorem sync_target_round_trip_witness:
  "parseSyncTargetSpec (buildSyncTargetSpec (js ''header'') (js '' x:y '')) = (js ''header'', js ''x:y'')"
proof -
  have "trim (js '' x:y '') = js ''x:y''" by code_simp
  then show ?thesis using sync_target_round_trip [of "js ''header''" "js '' x:y ''"] by simp
qed

text \<open>The choice of a type is lost while the key is empty.\<close>

lemma sync_type_lost: "parseSyncTargetSpec (buildSyncTargetSpec type []) = (js ''json'', [])"
  by (simp add: parseSyncTargetSpec_def buildSyncTargetSpec_def)

subsection \<open>Drafts of \<open>return_error\<close>\<close>

lemma status_or_400_bounds: "\<exists>k. status_or_400 x = Fin (of_int k) \<and> 100 \<le> k \<and> k \<le> 599"
proof (cases "num_is_integer x \<and> num_le (Fin 100) x \<and> num_le x (Fin 599)")
  case True
  then obtain q where q: "x = Fin q" "of_int \<lfloor>q\<rfloor> = q" by (cases x) (auto simp: num_is_integer_def)
  then have "100 \<le> q" "q \<le> 599" using True by (auto simp: num_le_def num_eq_def)
  then have "100 \<le> \<lfloor>q\<rfloor>" "\<lfloor>q\<rfloor> \<le> 599" by (auto simp: le_floor_iff floor_le_iff)
  moreover have "status_or_400 x = Fin (of_int \<lfloor>q\<rfloor>)" using True q unfolding status_or_400_def by metis
  ultimately show ?thesis by blast
next
  case False
  then show ?thesis by (intro exI [of _ 400]) (auto simp: status_or_400_def)
qed

definition error_entries :: "ReturnErrorDraft \<Rightarrow> jsval props" where
  "error_entries d =
     (js ''message'', JStr (trim (d_message d))) # (js ''status_code'', JNum (status_or_400 (d_statusCode d))) #
     opt_kv ''code'' (given (trim (d_code d) \<noteq> []) (JStr (trim (d_code d)))) @
     opt_kv ''type'' (given (trim (d_type d) \<noteq> []) (JStr (trim (d_type d)))) @
     opt_kv ''skip_retry'' (given (\<not> d_skipRetry d) (JBool False))"

lemma error_names [simp]:
  "\<not> is_index_key (js ''message'')" "\<not> is_index_key (js ''status_code'')" "\<not> is_index_key (js ''code'')"
  "\<not> is_index_key (js ''type'')" "\<not> is_index_key (js ''skip_retry'')"
  by (simp_all add: is_index_key_def js_def is_digit_def)

lemma buildReturnErrorValueText_eq:
  "\<not> d_simpleMode d \<Longrightarrow> buildReturnErrorValueText d = json_stringify (JObj (error_entries d))"
  by (simp add: buildReturnErrorValueText_def Let_def error_entries_def props_set_def props_keys_def opt_kv_given)

lemma str_ok_Nil: "str_ok []"
  by (simp add: str_ok_def)

definition draft_texts_ok :: "ReturnErrorDraft \<Rightarrow> bool" where
  "draft_texts_ok d \<longleftrightarrow> str_ok (d_message d) \<and> str_ok (d_code d) \<and> str_ok (d_type d)"

lemma error_entries_ok:
  assumes "draft_texts_ok d"
  shows "json_ok (JObj (error_entries d))"
proof -
  obtain k where k: "status_or_400 (d_statusCode d) = Fin (of_int k)" "100 \<le> k" "k \<le> 599"
    using status_or_400_bounds by blast
  have "\<bar>of_int k :: rat\<bar> < 2 ^ 53"
    using k(2,3) by (simp add: abs_if)
  then have "json_ok (JNum (status_or_400 (d_statusCode d)))" by (simp add: k(1))
  then show ?thesis
    using assms str_ok_trim
    by (simp add: error_entries_def opt_kv_given props_ok_def props_keys_def draft_texts_ok_def props_ordered_named)
qed

text \<open>An advanced draft is read back as it was printed, with its texts trimmed and a status code
  outside 100 to 599 replaced by 400.\<close>

theorem return_error_draft_round_trip:
  assumes "draft_texts_ok d" "\<not> d_simpleMode d"
  shows "parseReturnErrorDraft (buildReturnErrorValueText d) =
    \<lparr>d_message = trim (d_message d), d_statusCode = status_or_400 (d_statusCode d), d_code = trim (d_code d),
     d_type = trim (d_type d), d_skipRetry = d_skipRetry d, d_simpleMode = False\<rparr>"
proof -
  define v where "v = JObj (error_entries d)"
  have ok: "json_ok v" using error_entries_ok [OF assms(1)] by (simp add: v_def)
  have s: "trim (json_stringify v) = json_stringify v" "json_stringify v \<noteq> []"
    using json_stringify_trimmed [OF ok] trim_id by auto
  obtain k where k: "status_or_400 (d_statusCode d) = Fin (of_int k)" "100 \<le> k" "k \<le> 599"
    using status_or_400_bounds by blast
  have again: "status_or_400 (status_or_400 x) = status_or_400 x" for x
    by (auto simp: status_or_400_def)
  have "val_at (error_entries d) (js ''status_code'') = JNum (status_or_400 (d_statusCode d))"
    "val_at (error_entries d) (js ''message'') = JStr (trim (d_message d))"
    "val_at (error_entries d) (js ''msg'') = JUndef"
    "val_at (error_entries d) (js ''code'') = (if trim (d_code d) = [] then JUndef else JStr (trim (d_code d)))"
    "val_at (error_entries d) (js ''type'') = (if trim (d_type d) = [] then JUndef else JStr (trim (d_type d)))"
    "val_at (error_entries d) (js ''skip_retry'') = (if d_skipRetry d then JUndef else JBool False)"
    by (simp_all add: error_entries_def val_at_opt_kv given_def)
  then show ?thesis
    unfolding buildReturnErrorValueText_eq [OF assms(2)] v_def [symmetric]
    using s json_round_trip [OF ok]
    by (simp add: parseReturnErrorDraft_def Let_def v_def val_or_def again)
qed

theorem return_error_draft_round_trip_witness:
  "parseReturnErrorDraft (buildReturnErrorValueText
     \<lparr>d_message = js ''no access'', d_statusCode = Fin 700, d_code = js '' forced'', d_type = [],
      d_skipRetry = False, d_simpleMode = False\<rparr>) =
   \<lparr>d_message = js ''no access'', d_statusCode = Fin 400, d_code = js ''forced'', d_type = [],
    d_skipRetry = False, d_simpleMode = False\<rparr>"
proof -
  define d where "d = \<lparr>d_message = js ''no access'', d_statusCode = Fin 700, d_code = js '' forced'', d_type = [],
      d_skipRetry = False, d_simpleMode = False\<rparr>"
  have "trim (js ''no access'') = js ''no access''" "trim (js '' forced'') = js ''forced''"
    "status_or_400 (Fin 700) = Fin 400" by code_simp+
  then show ?thesis
    using return_error_draft_round_trip [of d] unfolding d_def by (simp add: draft_texts_ok_def str_ok_Nil)
qed

text \<open>Whatever the value text of a rule is, the status code of its draft is an integer from 100 to
  599.\<close>

theorem return_error_status_bounds:
  "\<exists>k. d_statusCode (parseReturnErrorDraft s) = Fin (of_int k) \<and> 100 \<le> k \<and> k \<le> 599"
proof -
  have d: "status_or_400 (Fin 400) = Fin 400" by (simp add: status_or_400_def)
  have "\<exists>x. d_statusCode (parseReturnErrorDraft s) = status_or_400 x"
  proof (cases "\<exists>p. trim s \<noteq> [] \<and> json_parse (trim s) = Some (JObj p)")
    case True
    then show ?thesis using d [symmetric] by (auto simp: parseReturnErrorDraft_def Let_def)
  next
    case False
    have "d_statusCode (parseReturnErrorDraft s) = Fin 400"
      using False
      by (auto simp: parseReturnErrorDraft_def Let_def split: option.splits elim: as_plain_object.elims)
    then show ?thesis using d by metis
  qed
  then show ?thesis using status_or_400_bounds by auto
qed

text \<open>The editor shows the draft that it reads back from the text, so white space at the end of the
  message, as it is typed before the next word, is dropped.\<close>

lemma message_space_lost:
  "updateReturnErrorDraft i (no_error_patch\<lparr>ep_message := Some (m @ [32])\<rparr>) d =
   updateReturnErrorDraft i (no_error_patch\<lparr>ep_message := Some m\<rparr>) d"
proof -
  have "is_ws 32" by (simp add: is_ws_def)
  then have "buildReturnErrorValueText (patch_error_draft (no_error_patch\<lparr>ep_message := Some (m @ [32])\<rparr>) dr) =
      buildReturnErrorValueText (patch_error_draft (no_error_patch\<lparr>ep_message := Some m\<rparr>) dr)" for dr
    by (simp add: buildReturnErrorValueText_def Let_def patch_error_draft_def no_error_patch_def opt_or_def
        trim_snoc_ws)
  then show ?thesis by (simp add: updateReturnErrorDraft_def)
qed

subsection \<open>Drafts of \<open>prune_objects\<close>\<close>

lemma prune_rules_ids: "prune_rules now vs n = (rs, n') \<Longrightarrow> map c_id rs = map (local_id now) [n..<n'] \<and> n \<le> n'"
proof (induction vs arbitrary: n rs)
  case (Cons v vs)
  then obtain r rs' m where *: "normalizePruneRule now v n = (r, m)" "prune_rules now vs m = (rs', n')" "rs = r # rs'"
    by (auto split: prod.splits)
  then have "c_id r = local_id now n" "m = Suc n" by (auto simp: normalizePruneRule_def)
  then show ?case using Cons.IH [OF *(2)] * by (auto simp: upt_conv_Cons)
qed simp

lemma parsePrune_ids:
  "parsePruneObjectsDraft now s n = (draft, n') \<Longrightarrow> c_id ` set (pd_rules draft) \<subseteq> local_id now ` {n..<n'} \<and> n \<le> n'"
proof -
  assume p: "parsePruneObjectsDraft now s n = (draft, n')"
  show ?thesis
  proof (cases "pd_rules draft = []")
    case True
    then show ?thesis using parsePruneObjectsDraft_mono [of n now s] p by simp
  next
    case False
    then obtain vs where vs: "prune_rules now vs n = (pd_rules draft, n')"
      using p by (auto simp: parsePruneObjectsDraft_def Let_def prune_defaults_def
          split: if_splits option.splits jsval.splits prod.splits)
    have "c_id ` set (pd_rules draft) = set (map c_id (pd_rules draft))" by simp
    then show ?thesis using prune_rules_ids [OF vs] by auto
  qed
qed

lemma prune_ops_cong:
  assumes "\<And>s m draft k. n \<le> m \<Longrightarrow> parsePruneObjectsDraft now s m = (draft, k) \<Longrightarrow> u draft k = (draft, k)"
  shows "prune_ops now i u ops n = prune_ops now i (\<lambda>dr k. (dr, k)) ops n"
  using assms
proof (induction ops arbitrary: n)
  case (Cons op ops)
  obtain draft k where d: "parsePruneObjectsDraft now (o_value_text op) n = (draft, k)" by fastforce
  have k: "n \<le> k" using parsePruneObjectsDraft_mono [of n now "o_value_text op"] d by simp
  have "prune_ops now i u ops m = prune_ops now i (\<lambda>dr k. (dr, k)) ops m" if "n \<le> m" for m
    using Cons.IH Cons.prems le_trans that by blast
  then show ?case using d k Cons.prems [of n _ draft k] by simp
qed simp

text \<open>Editing or removing a rule of a prune draft has no effect beyond printing the draft again:
  the rules that are shown carry the identifiers of one reading of the value text, and the handlers
  read the text anew, with fresh identifiers, before they look for the rule.\<close>

theorem prune_rule_edits_lost:
  assumes "pruneObjectsDraft now d = (Some draft, d')" "r \<in> set (pd_rules draft)" "seed d' \<le> seed e"
  shows "updatePruneRule now i (c_id r) p e = updatePruneObjectsDraft now i (\<lambda>dr n. (dr, n)) e \<and>
    removePruneRule now i (c_id r) e = updatePruneObjectsDraft now i (\<lambda>dr n. (dr, n)) e"
proof -
  obtain s where "parsePruneObjectsDraft now s (seed d) = (draft, seed d')"
    using assms(1) by (auto simp: pruneObjectsDraft_def split: option.splits if_splits prod.splits)
  then have "c_id r \<in> local_id now ` {seed d..<seed d'}" using parsePrune_ids assms(2) by blast
  then have old: "c_id r \<in> local_id now ` {..<seed e}" using assms(3) by auto
  have fresh: "c_id x \<noteq> c_id r"
    if "parsePruneObjectsDraft now s' m = (dr, k)" "seed e \<le> m" "x \<in> set (pd_rules dr)" for s' m dr k x
  proof -
    have "c_id x \<in> local_id now ` {m..<k}" using parsePrune_ids [OF that(1)] that(3) by blast
    then show ?thesis using old that(2) by auto
  qed
  have "map (\<lambda>x. if c_id x = c_id r then patch_condition p x else x) (pd_rules dr) = pd_rules dr"
    "filter (\<lambda>x. c_id x \<noteq> c_id r) (pd_rules dr) = pd_rules dr"
    if "parsePruneObjectsDraft now s' m = (dr, k)" "seed e \<le> m" for s' m dr k
    using fresh [OF that] by (auto simp: filter_id_conv intro!: map_idI)
  then show ?thesis
    unfolding updatePruneRule_def removePruneRule_def updatePruneObjectsDraft_def
    using prune_ops_cong [of "seed e" now "\<lambda>dr n. (dr\<lparr>pd_rules := map (\<lambda>x. if c_id x = c_id r
          then patch_condition p x else x) (pd_rules dr)\<rparr>, n)" i "e_operations e"]
      prune_ops_cong [of "seed e" now "\<lambda>dr n. (dr\<lparr>pd_rules := filter (\<lambda>x. c_id x \<noteq> c_id r) (pd_rules dr)\<rparr>, n)"
        i "e_operations e"]
    by simp
qed

definition sample_prune_dialog :: dialog where
  "sample_prune_dialog = (initial_dialog (\<lambda>n. 0) 0)\<lparr>selectedOperationId := js ''a'', e_operations :=
     [\<lparr>o_id = js ''a'', o_description = [], o_path = [], o_mode = js ''prune_objects'', o_from = [], o_to = [],
       o_value_text = js ''{\"conditions\":[{\"path\":\"x\"}]}'', o_keep_origin = False, o_logic = js ''OR'',
       o_conditions = []\<rparr>]\<rparr>"

theorem prune_rule_edits_lost_witness:
  "\<exists>draft d' r. pruneObjectsDraft (\<lambda>n. 0) sample_prune_dialog = (Some draft, d') \<and> r \<in> set (pd_rules draft) \<and>
     removePruneRule (\<lambda>n. 0) (js ''a'') (c_id r) d' = updatePruneObjectsDraft (\<lambda>n. 0) (js ''a'') (\<lambda>dr n. (dr, n)) d'"
proof -
  have "case fst (pruneObjectsDraft (\<lambda>n. 0) sample_prune_dialog) of
      Some draft \<Rightarrow> pd_rules draft \<noteq> [] | None \<Rightarrow> False" by code_simp
  then obtain draft d' r where d: "pruneObjectsDraft (\<lambda>n. 0) sample_prune_dialog = (Some draft, d')"
    "r \<in> set (pd_rules draft)"
    by (cases "pruneObjectsDraft (\<lambda>n. 0) sample_prune_dialog") (fastforce split: option.splits simp: neq_Nil_conv)
  then show ?thesis using prune_rule_edits_lost [OF d, of d'] by auto
qed

text \<open>A new rule has no path and is left out of the text at once; a draft whose only content is a type
  falls back to the simple mode.\<close>

lemma prune_rule_not_added:
  assumes "trim (c_path r) = []"
  shows "buildPruneObjectsValueText (draft\<lparr>pd_rules := pd_rules draft @ [r]\<rparr>) = buildPruneObjectsValueText draft"
  using assms by (simp add: buildPruneObjectsValueText_def Let_def)

lemma prune_advanced_mode_lost:
  assumes "trim ty \<noteq> []" "str_ok ty"
  shows "pd_simpleMode (fst (parsePruneObjectsDraft now (buildPruneObjectsValueText
    (prune_defaults\<lparr>pd_simpleMode := False, pd_typeText := ty\<rparr>)) n))"
proof -
  define v where "v = JObj [(js ''type'', JStr (trim ty))]"
  have ok: "json_ok v" using assms(2) str_ok_trim by (simp add: v_def props_ok_def props_keys_def)
  have "buildPruneObjectsValueText (prune_defaults\<lparr>pd_simpleMode := False, pd_typeText := ty\<rparr>) = json_stringify v"
    using assms(1)
    by (simp add: buildPruneObjectsValueText_def Let_def prune_defaults_def str_or_def ascii_upper_AND v_def
        props_set_def props_keys_def val_at_opt_kv)
  then show ?thesis
    using json_round_trip [OF ok] json_stringify_trimmed [OF ok]
    by (simp add: parsePruneObjectsDraft_def trim_id v_def val_at_opt_kv where_rules_def condition_rules_def
        Let_def split: prod.splits)
qed

end
