(* ===== verification/CodexCredential.thy ===== *)
theory CodexCredential
  imports JS_Json
begin

text \<open>
  The check of a Codex credential (\<^verbatim>\<open>features/channels/lib/codex-credential.ts\<close>): a pasted JSON
  text may hold one credential or an export of many accounts nested in lists; the check collects
  the objects that carry an access token and asks each of them for an account id, which may also
  come from the claims of the token. The abstract specification is the relation
  \<open>codex_source\<close>: which objects of a value are credentials. The browser's \<^verbatim>\<open>atob\<close> is a parameter,
  \<open>None\<close> where it is not a function, and its result \<open>None\<close> where it throws.
\<close>

type_synonym atob_fun = "(jsstring \<Rightarrow> jsstring option) option"

subsection \<open>Reading strings out of a value\<close>

definition isJsonObjectValue :: "jsval \<Rightarrow> bool" where
  "isJsonObjectValue v \<longleftrightarrow> as_plain_object v \<noteq> None"

text \<open>The outer \<open>None\<close> is the SyntaxError of \<^verbatim>\<open>JSON.parse\<close>.\<close>

definition parseOptionalJson :: "jsstring option \<Rightarrow> jsval option" where
  "parseOptionalJson s =
     (case s of None \<Rightarrow> Some JUndef | Some t \<Rightarrow> if trim t = [] then Some JUndef else json_parse t)"

fun getStringAtPath :: "jsval \<Rightarrow> jsstring list \<Rightarrow> jsstring" where
  "getStringAtPath current [] = (case current of JStr s \<Rightarrow> trim s | _ \<Rightarrow> [])"
| "getStringAtPath current (key # path) =
     (case current of
        JObj ps \<Rightarrow> (case props_get ps key of None \<Rightarrow> [] | Some v \<Rightarrow> getStringAtPath v path)
      | _ \<Rightarrow> [])"

fun firstStringAtPaths :: "jsval \<Rightarrow> jsstring list list \<Rightarrow> jsstring" where
  "firstStringAtPaths source [] = []"
| "firstStringAtPaths source (path # paths) =
     (let v = getStringAtPath source path in if v \<noteq> [] then v else firstStringAtPaths source paths)"

definition codexAccessTokenPaths :: "jsstring list list" where
  "codexAccessTokenPaths = map (map js)
     [[''access_token''], [''accessToken''], [''token''],
      [''tokens'', ''access_token''], [''tokens'', ''accessToken''],
      [''credentials'', ''access_token''], [''credentials'', ''accessToken''],
      [''credentials'', ''token'']]"

definition codexAccountIDPaths :: "jsstring list list" where
  "codexAccountIDPaths = map (map js)
     [[''account_id''], [''accountId''], [''chatgpt_account_id''], [''chatgptAccountId''],
      [''tokens'', ''account_id''], [''tokens'', ''accountId''],
      [''tokens'', ''chatgpt_account_id''], [''tokens'', ''chatgptAccountId''],
      [''account'', ''id''], [''account'', ''account_id''], [''account'', ''accountId''],
      [''account'', ''chatgpt_account_id''], [''account'', ''chatgptAccountId''],
      [''credentials'', ''account_id''], [''credentials'', ''accountId''],
      [''credentials'', ''chatgpt_account_id''], [''credentials'', ''chatgptAccountId'']]"

definition hasCodexTokenSignal :: "jsval \<Rightarrow> bool" where
  "hasCodexTokenSignal source \<longleftrightarrow>
     isJsonObjectValue source \<and> firstStringAtPaths source codexAccessTokenPaths \<noteq> []"

subsection \<open>Choosing the credentials of an export\<close>

fun first_account :: "jsval list \<Rightarrow> jsval option" where
  "first_account [] = None"
| "first_account (account # accounts) =
     (let platform = ascii_lower (firstStringAtPaths account [[js ''platform'']]);
          accountType = ascii_lower (firstStringAtPaths account [[js ''type'']])
      in if \<not> isJsonObjectValue account then first_account accounts
         else if platform \<noteq> [] \<and> platform \<noteq> js ''openai'' then first_account accounts
         else if accountType \<noteq> [] \<and> accountType \<noteq> js ''oauth'' \<and> accountType \<noteq> js ''codex''
           then first_account accounts
         else if hasCodexTokenSignal account then Some account
         else first_account accounts)"

definition firstCodexAccountSource :: "jsval \<Rightarrow> jsval option" where
  "firstCodexAccountSource accounts = (case accounts of JArr xs \<Rightarrow> first_account xs | _ \<Rightarrow> None)"

text \<open>\<^verbatim>\<open>isJsonObjectValue(source.data) ? source.data : undefined\<close>; a property of undefined, read
  with \<^verbatim>\<open>?.\<close>, is undefined.\<close>

definition data_of :: "jsval \<Rightarrow> jsval" where
  "data_of source =
     (let d = prop_of source (js ''data'') in if isJsonObjectValue d then d else JUndef)"

fun or_else :: "'a option list \<Rightarrow> 'a \<Rightarrow> 'a" where
  "or_else [] d = d"
| "or_else (x # xs) d = (case x of Some v \<Rightarrow> v | None \<Rightarrow> or_else xs d)"

definition selectCodexKeySource :: "jsval \<Rightarrow> jsval" where
  "selectCodexKeySource source =
     (if hasCodexTokenSignal source then source
      else or_else
        [firstCodexAccountSource (prop_of source (js ''accounts'')),
         firstCodexAccountSource (prop_of source (js ''Accounts'')),
         firstCodexAccountSource (prop_of (data_of source) (js ''accounts'')),
         firstCodexAccountSource (prop_of (data_of source) (js ''Accounts''))] source)"

fun account_list :: "jsval \<Rightarrow> jsval list" where
  "account_list (JArr xs) = xs"
| "account_list _ = []"

definition list_keys :: "jsstring list" where
  "list_keys = map js [''accounts'', ''Accounts'', ''configs'', ''Configs'', ''items'', ''Items'', ''keys'', ''Keys'']"

definition nested_values :: "jsval \<Rightarrow> jsval list" where
  "nested_values source =
     concat (map (\<lambda>k. account_list (prop_of source k)) list_keys) @
     concat (map (\<lambda>k. account_list (prop_of (data_of source) k)) list_keys) @
     account_list (prop_of source (js ''data''))"

lemma size_member: "(k, x) \<in> set ps \<Longrightarrow> size x < Suc (size_list (size_prod (\<lambda>_. 0) size) ps)"
  by (induction ps) auto

lemma size_prop_of: "prop_of v k \<noteq> JUndef \<Longrightarrow> size (prop_of v k) < size v"
  by (auto simp: prop_of_def props_get_def split: jsval.splits option.splits dest!: map_of_SomeD
      dest: size_member)

lemma size_account_list: "w \<in> set (account_list v) \<Longrightarrow> size w < size v"
  by (cases v) (auto dest: size_list_estimation' [where f = size and y = "size w", OF _ order_refl] simp: less_Suc_eq_le)

lemma size_account_prop: "w \<in> set (account_list (prop_of v k)) \<Longrightarrow> size w < size v"
  using size_account_list [of w "prop_of v k"] size_prop_of [of v k]
  by (cases "prop_of v k = JUndef") auto

lemma size_data_of:
  assumes "w \<in> set (account_list (prop_of (data_of v) k))"
  shows "size w < size v"
proof -
  have some: "data_of v \<noteq> JUndef" using assms by (auto simp: prop_of_def)
  then have "data_of v = prop_of v (js ''data'')" by (auto simp: data_of_def Let_def split: if_splits)
  with some size_prop_of [of v "js ''data''"] have "size (data_of v) < size v" by simp
  with size_account_prop [OF assms] show ?thesis by simp
qed

lemma size_nested [termination_simp]: "w \<in> set (nested_values v) \<Longrightarrow> size w < size v"
  by (auto simp: nested_values_def dest: size_account_prop size_data_of)

fun collectCodexKeySources :: "jsval \<Rightarrow> jsval list" where
  "collectCodexKeySources source =
     (if \<not> isJsonObjectValue source then []
      else if hasCodexTokenSignal source then [source]
      else concat (map (\<lambda>v. if \<not> isJsonObjectValue v then []
                            else if hasCodexTokenSignal v then [v]
                            else collectCodexKeySources v) (nested_values source)))"

declare collectCodexKeySources.simps [simp del]

subsection \<open>Claims of the token\<close>

definition decodeCodexJWTClaims :: "atob_fun \<Rightarrow> jsstring \<Rightarrow> jsval" where
  "decodeCodexJWTClaims atob token =
     (let parts = split_on 46 (trim token)
      in case atob of
           None \<Rightarrow> JNull
         | Some decode \<Rightarrow>
             if length parts \<noteq> 3 then JNull
             else let normalized = map (\<lambda>c. if c = 45 then 43 else if c = 95 then 47 else c) (parts ! 1);
                      padded = normalized @ replicate ((length normalized + 3) div 4 * 4 - length normalized) 61
                  in case decode padded of
                       None \<Rightarrow> JNull
                     | Some t \<Rightarrow> (case json_parse t of
                                    Some claims \<Rightarrow> if isJsonObjectValue claims then claims else JNull
                                  | None \<Rightarrow> JNull))"

definition getCodexJWTAccountID :: "atob_fun \<Rightarrow> jsstring \<Rightarrow> jsstring" where
  "getCodexJWTAccountID atob token =
     (let auth = prop_of (decodeCodexJWTClaims atob token) (js ''https://api.openai.com/auth'')
      in if \<not> isJsonObjectValue auth then []
         else case prop_of auth (js ''chatgpt_account_id'') of JStr s \<Rightarrow> trim s | _ \<Rightarrow> [])"

definition account_id_of :: "atob_fun \<Rightarrow> jsval \<Rightarrow> jsstring" where
  "account_id_of atob source =
     str_or (firstStringAtPaths source codexAccountIDPaths)
       (getCodexJWTAccountID atob (firstStringAtPaths source codexAccessTokenPaths))"

definition isCodexCredential :: "atob_fun \<Rightarrow> jsstring option \<Rightarrow> bool" where
  "isCodexCredential atob v =
     (case parseOptionalJson v of
        None \<Rightarrow> False
      | Some parsed \<Rightarrow>
          if parsed = JUndef then True
          else if \<not> isJsonObjectValue parsed then False
          else let sources = collectCodexKeySources parsed;
                   selectedSources = (if length sources > 0 then sources else [selectCodexKeySource parsed])
               in list_all (\<lambda>source. firstStringAtPaths source codexAccessTokenPaths \<noteq> [] \<and>
                                     account_id_of atob source \<noteq> []) selectedSources)"

subsection \<open>Which objects are credentials\<close>

text \<open>An object with a token is a credential; an object without one is searched through its lists.\<close>

inductive codex_source :: "jsval \<Rightarrow> jsval \<Rightarrow> bool" where
  here: "hasCodexTokenSignal v \<Longrightarrow> codex_source v v"
| below: "isJsonObjectValue v \<Longrightarrow> \<not> hasCodexTokenSignal v \<Longrightarrow> w \<in> set (nested_values v) \<Longrightarrow>
    codex_source w s \<Longrightarrow> codex_source v s"

inductive_cases codex_sourceE: "codex_source v s"

lemma signal_object: "hasCodexTokenSignal v \<Longrightarrow> isJsonObjectValue v"
  by (simp add: hasCodexTokenSignal_def)

lemma collect_signal: "hasCodexTokenSignal v \<Longrightarrow> collectCodexKeySources v = [v]"
  by (subst collectCodexKeySources.simps) (simp add: signal_object)

lemma collect_nested:
  "isJsonObjectValue v \<Longrightarrow> \<not> hasCodexTokenSignal v \<Longrightarrow>
   set (collectCodexKeySources v) = (\<Union>w\<in>set (nested_values v). set (collectCodexKeySources w))"
proof -
  have same: "(if \<not> isJsonObjectValue w then [] else if hasCodexTokenSignal w then [w]
      else collectCodexKeySources w) = collectCodexKeySources w" for w
    by (subst (2) collectCodexKeySources.simps) (simp add: collectCodexKeySources.simps [of w])
  assume "isJsonObjectValue v" "\<not> hasCodexTokenSignal v"
  then show ?thesis by (subst collectCodexKeySources.simps) (simp add: same)
qed

lemma collect_sources: "s \<in> set (collectCodexKeySources v) \<longleftrightarrow> codex_source v s"
proof (induction v rule: collectCodexKeySources.induct)
  case (1 v)
  show ?case
  proof (cases "isJsonObjectValue v \<and> \<not> hasCodexTokenSignal v")
    case True
    have "s \<in> set (collectCodexKeySources w) \<longleftrightarrow> codex_source w s" if "w \<in> set (nested_values v)" for w
    proof (cases "isJsonObjectValue w \<and> \<not> hasCodexTokenSignal w")
      case False
      then show ?thesis
        by (auto simp: collectCodexKeySources.simps [of w] elim: codex_sourceE intro: here dest: signal_object)
    qed (use 1 True that in auto)
    with True show ?thesis
      by (auto simp: collect_nested elim!: codex_sourceE [of v] intro: below)
  next
    case False
    then show ?thesis
      by (auto simp: collectCodexKeySources.simps [of v] elim: codex_sourceE intro: here dest: signal_object)
  qed
qed

lemma source_signal: "codex_source v s \<Longrightarrow> hasCodexTokenSignal s"
  by (induction rule: codex_source.induct)

lemma first_account_signal: "first_account xs = Some a \<Longrightarrow> a \<in> set xs \<and> hasCodexTokenSignal a"
  by (induction xs) (auto simp: Let_def split: if_splits)

lemma account_source_signal:
  "firstCodexAccountSource x = Some a \<Longrightarrow> a \<in> set (account_list x) \<and> hasCodexTokenSignal a"
  by (cases x) (auto simp: firstCodexAccountSource_def dest: first_account_signal)

text \<open>The accounts that \<open>selectCodexKeySource\<close> looks at, with its filter on platform and type, are
  among those already collected, so the filter never decides.\<close>

lemma account_filter_unused:
  assumes "collectCodexKeySources v = []"
  shows "selectCodexKeySource v = v"
proof (cases "isJsonObjectValue v \<and> \<not> hasCodexTokenSignal v")
  case True
  have none: "\<not> hasCodexTokenSignal w" if "w \<in> set (nested_values v)" for w
    using that assms True collect_nested [of v] collect_signal [of w] by auto
  have no_account: "firstCodexAccountSource x = None" if "set (account_list x) \<subseteq> set (nested_values v)" for x
    using that none account_source_signal [of x] by (cases "firstCodexAccountSource x") auto
  have "firstCodexAccountSource (prop_of v k) = None \<and>
      firstCodexAccountSource (prop_of (data_of v) k) = None" if "k \<in> set list_keys" for k
    using that by (auto simp: nested_values_def intro!: no_account)
  then show ?thesis
    by (simp add: selectCodexKeySource_def list_keys_def)
next
  case False
  have "selectCodexKeySource v = v" if "\<not> isJsonObjectValue v"
    using that by (cases v) (simp_all add: selectCodexKeySource_def firstCodexAccountSource_def
        data_of_def prop_of_def isJsonObjectValue_def)
  with False show ?thesis by (auto simp: selectCodexKeySource_def)
qed

text \<open>C9: a text is accepted as a Codex credential exactly when it is blank, or is a JSON object in
  which some object is a credential and every credential has an account id.\<close>

theorem codex_credential_exact:
  "isCodexCredential atob v =
     (case parseOptionalJson v of
        None \<Rightarrow> False
      | Some p \<Rightarrow> p = JUndef \<or>
          (isJsonObjectValue p \<and> (\<exists>s. codex_source p s) \<and> (\<nexists>s. codex_source p s \<and> account_id_of atob s = [])))"
proof (cases "parseOptionalJson v")
  case (Some p)
  have signal: "firstStringAtPaths s codexAccessTokenPaths \<noteq> []" if "codex_source p s" for s
    using source_signal [OF that] by (simp add: hasCodexTokenSignal_def)
  show ?thesis
  proof (cases "collectCodexKeySources p = []")
    case True
    then have none: "\<not> codex_source p s" for s using collect_sources [of s p] by simp
    then have "firstStringAtPaths p codexAccessTokenPaths = []" if "isJsonObjectValue p"
      using that here [of p] by (auto simp: hasCodexTokenSignal_def)
    then show ?thesis
      using none Some True account_filter_unused [OF True] by (auto simp: isCodexCredential_def)
  next
    case False
    then have "\<exists>s. codex_source p s" using collect_sources [of _ p] by (metis list.set_intros(1) neq_Nil_conv)
    then show ?thesis
      using Some False signal collect_sources [of _ p]
      by (auto simp: isCodexCredential_def Let_def list_all_iff)
  qed
qed (simp add: isCodexCredential_def)

lemma other_platform_accepted:
  "isCodexCredential None (Some (js ''{\"accounts\":[{\"platform\":\"gemini\",\"token\":\"t\",\"account_id\":\"a\"}]}''))"
  by code_simp

end
