(* ===== verification/ChannelForm.thy ===== *)
theory ChannelForm
  imports CodexCredential AdvancedCustom ChannelUtils
begin

text \<open>
  The channel form (\<^verbatim>\<open>features/channels/lib/channel-form.ts\<close>): the validation of the form, the
  values it opens with for a stored channel, and the payloads it sends. Two columns of a channel
  are JSON texts: \<^verbatim>\<open>setting\<close> (seven extra settings) and \<^verbatim>\<open>settings\<close> (type-specific settings and
  whatever the server keeps there). Values read out of these texts are not checked when the form
  opens, so the form fields that hold them are arbitrary JSON values here. \<^verbatim>\<open>new URL\<close> and \<^verbatim>\<open>atob\<close>
  are the parameters \<open>url\<close> and \<open>atob\<close>.
\<close>

subsection \<open>Field checks\<close>

definition isOptionalJsonObject :: "jsstring option \<Rightarrow> bool" where
  "isOptionalJsonObject v =
     (case parseOptionalJson v of None \<Rightarrow> False | Some parsed \<Rightarrow> parsed = JUndef \<or> isJsonObjectValue parsed)"

definition isOptionalModelMapping :: "jsstring option \<Rightarrow> bool" where
  "isOptionalModelMapping v =
     (case parseOptionalJson v of
        None \<Rightarrow> False
      | Some parsed \<Rightarrow>
          if parsed = JUndef then True
          else (case parsed of JObj ps \<Rightarrow> list_all (\<lambda>kv. case snd kv of JStr _ \<Rightarrow> True | _ \<Rightarrow> False) ps | _ \<Rightarrow> False))"

definition status_code :: "jsnum \<Rightarrow> bool" where
  "status_code x \<longleftrightarrow> num_is_integer x \<and> num_le (Fin 100) x \<and> num_le x (Fin 599)"

definition isOptionalStatusCodeMapping :: "jsstring option \<Rightarrow> bool" where
  "isOptionalStatusCodeMapping v =
     (case parseOptionalJson v of
        None \<Rightarrow> False
      | Some parsed \<Rightarrow>
          if parsed = JUndef then True
          else (case parsed of
                  JObj ps \<Rightarrow> list_all (\<lambda>kv. status_code (str_to_num (fst kv)) \<and> status_code (to_number (snd kv))) ps
                | _ \<Rightarrow> False))"

definition isVertexJsonKey :: "jsstring option \<Rightarrow> bool" where
  "isVertexJsonKey v =
     (case parseOptionalJson v of
        None \<Rightarrow> False
      | Some parsed \<Rightarrow>
          if parsed = JUndef then True
          else (case parsed of JArr xs \<Rightarrow> list_all isJsonObjectValue xs | _ \<Rightarrow> isJsonObjectValue parsed))"

definition validateJSON :: "jsstring \<Rightarrow> bool" where
  "validateJSON v = (if v = [] \<or> trim v = [] then True else json_parse v \<noteq> None)"

definition validateModelMapping :: "jsstring \<Rightarrow> bool" where
  "validateModelMapping v = (if v = [] \<or> trim v = [] then True else validateJSON v)"

definition parseModels :: "jsstring \<Rightarrow> jsstring list" where
  "parseModels models =
     (if models = [] then [] else filter (\<lambda>m. length m > 0) (map trim (split_on 44 models)))"

definition parseGroups :: "jsstring \<Rightarrow> jsstring list" where
  "parseGroups groups =
     (if groups = [] then [] else filter (\<lambda>g. length g > 0) (map trim (split_on 44 groups)))"

definition formatModels :: "jsstring list \<Rightarrow> jsstring" where
  "formatModels models = join [44] models"

definition formatGroups :: "jsstring list \<Rightarrow> jsstring" where
  "formatGroups groups = join [44] groups"

subsection \<open>Form values\<close>

text \<open>An optional field is \<open>None\<close> when it is undefined; a field that may hold an unchecked JSON value
  is a \<open>jsval\<close>, undefined being \<open>JUndef\<close>.\<close>

record ChannelFormValues =
  f_name :: jsstring
  f_type :: int
  f_base_url :: "jsstring option"
  f_key :: jsstring
  f_openai_organization :: "jsstring option"
  f_models :: jsstring
  f_group :: "jsstring list"
  f_model_mapping :: "jsstring option"
  f_priority :: "jsnum option"
  f_weight :: "jsnum option"
  f_test_model :: "jsstring option"
  f_auto_ban :: "jsnum option"
  f_status :: "int option"
  f_status_code_mapping :: "jsstring option"
  f_tag :: "jsstring option"
  f_remark :: "jsstring option"
  f_setting :: "jsstring option"
  f_param_override :: "jsstring option"
  f_header_override :: "jsstring option"
  f_settings :: "jsstring option"
  f_advanced_custom :: "jsstring option"
  f_other :: "jsstring option"
  f_multi_key_mode :: "jsstring option"
  f_multi_key_type :: "jsstring option"
  f_batch_add_set_key_prefix_2_name :: "bool option"
  f_key_mode :: "jsstring option"
  f_convert_to_multi_key :: "bool option"
  f_force_format :: jsval
  f_thinking_to_content :: jsval
  f_thinking_process_strip :: jsval
  f_proxy :: jsval
  f_pass_through_body_enabled :: jsval
  f_system_prompt :: jsval
  f_system_prompt_override :: jsval
  f_is_enterprise_account :: "bool option"
  f_vertex_key_type :: jsval
  f_aws_key_type :: jsval
  f_azure_responses_version :: jsval
  f_allow_service_tier :: "bool option"
  f_disable_store :: "bool option"
  f_allow_safety_identifier :: "bool option"
  f_allow_include_obfuscation :: "bool option"
  f_allow_inference_geo :: "bool option"
  f_allow_speed :: "bool option"
  f_claude_beta_query :: "bool option"
  f_check_enabled :: "bool option"
  f_auto_sync_enabled :: "bool option"
  f_ignored_models :: "jsstring option"

definition CHANNEL_TYPE_ADVANCED_CUSTOM :: int where
  "CHANNEL_TYPE_ADVANCED_CUSTOM = 58"

definition MODEL_FETCHABLE_TYPES :: "int list" where
  "MODEL_FETCHABLE_TYPES =
     [1, 4, 14, 17, 20, 23, 24, 25, 26, 27, 31, 34, 35, 40, 42, 43, 47, 48, 57, 58]"

definition CHANNEL_FORM_DEFAULT_VALUES :: ChannelFormValues where
  "CHANNEL_FORM_DEFAULT_VALUES =
     \<lparr>f_name = [], f_type = 1, f_base_url = Some [], f_key = [], f_openai_organization = Some [],
      f_models = [], f_group = [js ''default''], f_model_mapping = Some [],
      f_priority = Some (Fin 0), f_weight = Some (Fin 0), f_test_model = Some [],
      f_auto_ban = Some (Fin 1), f_status = Some 1, f_status_code_mapping = Some [],
      f_tag = Some [], f_remark = Some [], f_setting = Some [], f_param_override = Some [],
      f_header_override = Some [], f_settings = Some (js ''{}''), f_advanced_custom = Some [],
      f_other = Some [], f_multi_key_mode = Some (js ''single''), f_multi_key_type = Some (js ''random''),
      f_batch_add_set_key_prefix_2_name = Some False, f_key_mode = Some (js ''append''),
      f_convert_to_multi_key = Some False, f_force_format = JBool False,
      f_thinking_to_content = JBool False, f_thinking_process_strip = JBool False, f_proxy = JStr [],
      f_pass_through_body_enabled = JBool False, f_system_prompt = JStr [],
      f_system_prompt_override = JBool False, f_is_enterprise_account = Some False,
      f_vertex_key_type = JStr (js ''json''), f_aws_key_type = JStr (js ''ak_sk''),
      f_azure_responses_version = JStr [], f_allow_service_tier = Some False,
      f_disable_store = Some False, f_allow_safety_identifier = Some False,
      f_allow_include_obfuscation = Some False, f_allow_inference_geo = Some False,
      f_allow_speed = Some False, f_claude_beta_query = Some False, f_check_enabled = Some False,
      f_auto_sync_enabled = Some False, f_ignored_models = Some []\<rparr>"

subsection \<open>Validation\<close>

text \<open>The issues of the field rules, as path and message, in the order of the schema.\<close>

definition require_that :: "bool \<Rightarrow> string \<Rightarrow> string \<Rightarrow> (jsstring \<times> jsstring) list" where
  "require_that c path msg = (if c then [] else [(js path, js msg)])"

definition field_issues :: "ChannelFormValues \<Rightarrow> (jsstring \<times> jsstring) list" where
  "field_issues data =
     require_that (length (f_name data) \<ge> 1) ''name'' ''Channel name is required'' @
     require_that (f_type data \<ge> 0) ''type'' ''Channel type is required'' @
     require_that (length (f_models data) \<ge> 1) ''models'' ''Models are required'' @
     require_that (length (f_group data) \<ge> 1) ''group'' ''Group is required'' @
     require_that (isOptionalModelMapping (f_model_mapping data)) ''model_mapping''
       ''Model mapping must be a JSON object with string values'' @
     require_that (isOptionalStatusCodeMapping (f_status_code_mapping data)) ''status_code_mapping''
       ''Status code mapping must use valid HTTP status codes'' @
     require_that (case f_remark data of None \<Rightarrow> True | Some r \<Rightarrow> length r \<le> 255) ''remark''
       ''Remark must be less than 255 characters'' @
     require_that (isOptionalJsonObject (f_setting data)) ''setting'' ''Invalid JSON format'' @
     require_that (isOptionalJsonObject (f_param_override data)) ''param_override'' ''Invalid JSON format'' @
     require_that (isOptionalJsonObject (f_header_override data)) ''header_override'' ''Invalid JSON format'' @
     require_that (isOptionalJsonObject (f_settings data)) ''settings'' ''Invalid JSON format''"

definition blank :: "jsstring option \<Rightarrow> bool" where
  "blank v \<longleftrightarrow> (case v of None \<Rightarrow> True | Some s \<Rightarrow> trim s = [])"

text \<open>A mode other than \<^verbatim>\<open>'single'\<close> and other than an absent one.\<close>

definition batch_mode :: "jsstring option \<Rightarrow> bool" where
  "batch_mode m \<longleftrightarrow> (case m of None \<Rightarrow> False | Some s \<Rightarrow> s \<noteq> [] \<and> s \<noteq> js ''single'')"

definition advanced_issues :: "url_parser \<Rightarrow> ChannelFormValues \<Rightarrow> ac_config option \<Rightarrow> (jsstring \<times> jsstring) list" where
  "advanced_issues url data config =
     (case validateAdvancedCustomConfig url config of
        None \<Rightarrow> []
      | Some e \<Rightarrow> [(js ''advanced_custom'', ve_message e)]) @
     require_that (\<not> (advancedCustomConfigUsesRelativeUpstreamPath config \<and> blank (f_base_url data))) ''base_url''
       ''Base URL is required when an advanced route uses an upstream path'' @
     require_that (\<not> (f_check_enabled data = Some True \<and> \<not> hasValidAdvancedCustomModelListRoute url config))
       ''upstream_model_update_check_enabled''
       ''OpenAI Models route is required to enable upstream model checks''"

text \<open>The rules across fields. \<open>None\<close>: the configuration text of an advanced custom channel holds a
  route with a property of another type, outside the typed model of validation.\<close>

definition super_issues :: "url_parser \<Rightarrow> atob_fun \<Rightarrow> ChannelFormValues \<Rightarrow> (jsstring \<times> jsstring) list option" where
  "super_issues url atob data =
     (let before =
            require_that (\<not> (f_convert_to_multi_key data = Some True \<and> trim (f_key data) = [])) ''key''
              ''API key is required'' @
            require_that (\<not> (f_type data \<in> {3, 8, 36, 45} \<and> blank (f_base_url data))) ''base_url''
              ''Base URL is required for this channel type'';
          after =
            require_that (\<not> (f_type data \<in> {3, 18, 21, 39, 41, 49} \<and> blank (f_other data))) ''other''
              ''This channel type requires additional configuration'' @
            (if f_type data = 57
             then require_that (\<not> batch_mode (f_multi_key_mode data)) ''multi_key_mode''
                    ''Codex channels do not support batch creation'' @
                  require_that (\<not> (trim (f_key data) \<noteq> [] \<and> \<not> isCodexCredential atob (Some (f_key data)))) ''key''
                    ''Codex credential must be a JSON object with access_token and account_id''
             else []) @
            require_that (\<not> (f_type data = 41 \<and> f_vertex_key_type data = JStr (js ''json'') \<and>
                trim (f_key data) \<noteq> [] \<and> \<not> isVertexJsonKey (Some (f_key data)))) ''key''
              ''Vertex AI service account key must be valid JSON'' @
            require_that (\<not> (f_type data = 41 \<and> f_vertex_key_type data = JStr (js ''api_key'') \<and>
                batch_mode (f_multi_key_mode data))) ''multi_key_mode''
              ''Vertex AI API Key mode does not support batch creation''
      in if f_type data = CHANNEL_TYPE_ADVANCED_CUSTOM
         then case parseAdvancedCustomConfig (f_advanced_custom data) of
                ParseNull \<Rightarrow> Some (before @ advanced_issues url data None @ after)
              | ParsedConfig c \<Rightarrow> Some (before @ advanced_issues url data (Some c) @ after)
              | IllTypedConfig \<Rightarrow> None
         else Some (before @ after))"

definition channelFormSchema_accepts :: "url_parser \<Rightarrow> atob_fun \<Rightarrow> ChannelFormValues \<Rightarrow> bool" where
  "channelFormSchema_accepts url atob data \<longleftrightarrow>
     field_issues data = [] \<and> super_issues url atob data = Some []"

subsection \<open>Advanced custom configurations as values\<close>

text \<open>The normalisation of a configuration on the JSON value itself, of whatever types its
  properties are; \<open>None\<close> is the TypeError of reading a property of null or of trimming a value that
  is no string. A property that is undefined is left out, as printing does.\<close>

definition normalizeAdvancedCustomRoute_val :: "jsval \<Rightarrow> jsval option" where
  "normalizeAdvancedCustomRoute_val route =
     (if route = JNull \<or> route = JUndef then None
      else case val_or (prop_of route (js ''upstream_path'')) (JStr []) of
             JStr u \<Rightarrow>
               Some (JObj ([(js ''incoming_path'', val_or (prop_of route (js ''incoming_path'')) (JStr [])),
                            (js ''upstream_path'', JStr (trim u)),
                            (js ''converter'', val_or (prop_of route (js ''converter'')) (JStr (js ''none'')))] @
                 (let a = prop_of route (js ''auth'')
                  in if truthy a
                     then [(js ''auth'', JObj (filter (\<lambda>kv. snd kv \<noteq> JUndef)
                             [(js ''type'', prop_of a (js ''type'')),
                              (js ''name'', val_or (prop_of a (js ''name'')) (JStr [])),
                              (js ''value'', val_or (prop_of a (js ''value'')) (JStr []))]))]
                     else [])))
           | _ \<Rightarrow> None)"

definition normalizeAdvancedCustomConfig_val :: "jsval \<Rightarrow> jsval option" where
  "normalizeAdvancedCustomConfig_val config =
     (case prop_of config (js ''advanced_routes'') of
        JArr rs \<Rightarrow> map_option (\<lambda>ns. JObj [(js ''advanced_routes'', JArr ns)])
                    (those (map normalizeAdvancedCustomRoute_val rs))
      | _ \<Rightarrow> Some (JObj [(js ''advanced_routes'', JArr [])]))"

definition stringifyAdvancedCustomConfig_val :: "jsval \<Rightarrow> jsstring option" where
  "stringifyAdvancedCustomConfig_val config = map_option json_stringify2 (normalizeAdvancedCustomConfig_val config)"

text \<open>\<open>None\<close> is null: also what a text that throws is turned into.\<close>

definition parseAdvancedCustomConfig_val :: "jsstring option \<Rightarrow> jsval option" where
  "parseAdvancedCustomConfig_val v =
     (if blank v then None
      else case json_parse (the v) of
             Some (JObj ps) \<Rightarrow> normalizeAdvancedCustomConfig_val (JObj ps)
           | _ \<Rightarrow> None)"

subsection \<open>Opening the form\<close>

text \<open>A channel with the columns that the form reads besides those of \<open>channel\<close>; \<open>None\<close> for null.\<close>

record api_channel = channel +
  ch_openai_organization :: "jsstring option"
  ch_test_model :: "jsstring option"
  ch_base_url :: "jsstring option"
  ch_other :: jsstring
  ch_model_mapping :: "jsstring option"
  ch_status_code_mapping :: "jsstring option"
  ch_auto_ban :: "jsnum option"
  ch_setting :: "jsstring option"
  ch_param_override :: "jsstring option"
  ch_header_override :: "jsstring option"
  ch_remark :: jsstring
  ch_settings :: jsstring
  ch_multi_key_mode :: "jsstring option"

text \<open>The value whose properties the form reads: a text that is absent, is no JSON or is \<^verbatim>\<open>null\<close>
  (reading a property then throws inside the handler) leaves every default in place, and so does
  an object without properties.\<close>

definition stored_value :: "jsstring option \<Rightarrow> jsval" where
  "stored_value t =
     (case t of None \<Rightarrow> JObj []
      | Some s \<Rightarrow> if s = [] then JObj []
                 else (case json_parse s of Some v \<Rightarrow> if v = JNull then JObj [] else v | None \<Rightarrow> JObj []))"

definition num_or_zero :: "jsnum option \<Rightarrow> jsnum" where
  "num_or_zero x = (case x of Some n \<Rightarrow> if num_truthy n then n else Fin 0 | None \<Rightarrow> Fin 0)"

definition flag_of :: "jsval \<Rightarrow> string \<Rightarrow> bool option" where
  "flag_of parsed k = Some (prop_of parsed (js k) = JBool True)"

definition transformChannelToFormDefaults :: "api_channel \<Rightarrow> ChannelFormValues" where
  "transformChannelToFormDefaults channel =
     (let extra = stored_value (ch_setting channel);
          parsed = stored_value (Some (ch_settings channel));
          extraFlag = (\<lambda>k. val_or (prop_of extra (js k)) (JBool False));
          extraText = (\<lambda>k. val_or (prop_of extra (js k)) (JStr []));
          advanced = prop_of parsed (js ''advanced_custom'')
      in \<lparr>f_name = str_or (ch_name channel) [], f_type = ch_type channel,
          f_base_url = Some (or_str (ch_base_url channel) []), f_key = [],
          f_openai_organization = Some (or_str (ch_openai_organization channel) []),
          f_models = str_or (ch_models channel) [],
          f_group = parseGroups (str_or (ch_group channel) (js ''default'')),
          f_model_mapping = Some (or_str (ch_model_mapping channel) []),
          f_priority = Some (num_or_zero (ch_priority channel)),
          f_weight = Some (num_or_zero (ch_weight channel)),
          f_test_model = Some (or_str (ch_test_model channel) []),
          f_auto_ban = Some (case ch_auto_ban channel of Some n \<Rightarrow> n | None \<Rightarrow> Fin 1),
          f_status = ch_status channel,
          f_status_code_mapping = Some (or_str (ch_status_code_mapping channel) []),
          f_tag = Some (or_str (ch_tag channel) []), f_remark = Some (str_or (ch_remark channel) []),
          f_setting = Some (or_str (ch_setting channel) []),
          f_param_override = Some (or_str (ch_param_override channel) []),
          f_header_override = Some (or_str (ch_header_override channel) []),
          f_settings = Some (str_or (ch_settings channel) (js ''{}'')),
          f_advanced_custom =
            Some (if truthy advanced
                  then (case stringifyAdvancedCustomConfig_val advanced of Some t \<Rightarrow> t | None \<Rightarrow> [])
                  else []),
          f_other = Some (str_or (ch_other channel) []), f_multi_key_mode = Some (js ''single''),
          f_multi_key_type = Some (or_str (ch_multi_key_mode channel) (js ''random'')),
          f_batch_add_set_key_prefix_2_name = Some False, f_key_mode = Some (js ''append''),
          f_convert_to_multi_key = Some False,
          f_force_format = extraFlag ''force_format'',
          f_thinking_to_content = extraFlag ''thinking_to_content'',
          f_thinking_process_strip = extraFlag ''thinking_process_strip'',
          f_proxy = extraText ''proxy'',
          f_pass_through_body_enabled = extraFlag ''pass_through_body_enabled'',
          f_system_prompt = extraText ''system_prompt'',
          f_system_prompt_override = extraFlag ''system_prompt_override'',
          f_is_enterprise_account = flag_of parsed ''openrouter_enterprise'',
          f_vertex_key_type = val_or (prop_of parsed (js ''vertex_key_type'')) (JStr (js ''json'')),
          f_aws_key_type = val_or (prop_of parsed (js ''aws_key_type'')) (JStr (js ''ak_sk'')),
          f_azure_responses_version = val_or (prop_of parsed (js ''azure_responses_version'')) (JStr []),
          f_allow_service_tier = flag_of parsed ''allow_service_tier'',
          f_disable_store = flag_of parsed ''disable_store'',
          f_allow_safety_identifier = flag_of parsed ''allow_safety_identifier'',
          f_allow_include_obfuscation = flag_of parsed ''allow_include_obfuscation'',
          f_allow_inference_geo = flag_of parsed ''allow_inference_geo'',
          f_allow_speed = flag_of parsed ''allow_speed'',
          f_claude_beta_query = flag_of parsed ''claude_beta_query'',
          f_check_enabled = flag_of parsed ''upstream_model_update_check_enabled'',
          f_auto_sync_enabled = flag_of parsed ''upstream_model_update_auto_sync_enabled'',
          f_ignored_models =
            Some (case prop_of parsed (js ''upstream_model_update_ignored_models'') of
                    JArr xs \<Rightarrow> to_str (JArr xs) | _ \<Rightarrow> [])\<rparr>)"

subsection \<open>The two JSON columns\<close>

definition setting_entries :: "ChannelFormValues \<Rightarrow> jsval props" where
  "setting_entries formData =
     [(js ''force_format'', val_or (f_force_format formData) (JBool False)),
      (js ''thinking_to_content'', val_or (f_thinking_to_content formData) (JBool False)),
      (js ''thinking_process_strip'', val_or (f_thinking_process_strip formData) (JBool False)),
      (js ''proxy'', val_or (f_proxy formData) (JStr [])),
      (js ''pass_through_body_enabled'', val_or (f_pass_through_body_enabled formData) (JBool False)),
      (js ''system_prompt'', val_or (f_system_prompt formData) (JStr [])),
      (js ''system_prompt_override'', val_or (f_system_prompt_override formData) (JBool False))]"

definition buildSettingJSON :: "ChannelFormValues \<Rightarrow> jsstring" where
  "buildSettingJSON formData = json_stringify (JObj (setting_entries formData))"

text \<open>\<^verbatim>\<open>if (c) o[k] = v else if (k in o) delete o[k]\<close>\<close>

definition set_or_delete :: "bool \<Rightarrow> string \<Rightarrow> jsval \<Rightarrow> jsval props \<Rightarrow> jsval props" where
  "set_or_delete c k v p = (if c then props_set p (js k) v else props_del p (js k))"

definition set_flag :: "string \<Rightarrow> bool option \<Rightarrow> jsval props \<Rightarrow> jsval props" where
  "set_flag k b p = props_set p (js k) (JBool (b = Some True))"

definition delete_key :: "string \<Rightarrow> jsval props \<Rightarrow> jsval props" where
  "delete_key k p = props_del p (js k)"

definition key_type_settings :: "ChannelFormValues \<Rightarrow> jsval props \<Rightarrow> jsval props" where
  "key_type_settings fd p0 =
     (let p1 = set_or_delete (f_type fd = 41) ''vertex_key_type''
                 (val_or (f_vertex_key_type fd) (JStr (js ''json''))) p0;
          p2 = set_or_delete (f_type fd = 3 \<and> truthy (f_azure_responses_version fd)) ''azure_responses_version''
                 (f_azure_responses_version fd) p1;
          p3 = set_or_delete (f_type fd = 20) ''openrouter_enterprise''
                 (JBool (f_is_enterprise_account fd = Some True)) p2
      in set_or_delete (f_type fd = 33) ''aws_key_type'' (val_or (f_aws_key_type fd) (JStr (js ''ak_sk''))) p3)"

definition passthrough_settings :: "ChannelFormValues \<Rightarrow> jsval props \<Rightarrow> jsval props" where
  "passthrough_settings fd p0 =
     (let p1 = set_or_delete (f_type fd = 1 \<or> f_type fd = 14) ''allow_service_tier''
                 (JBool (f_allow_service_tier fd = Some True)) p0;
          p2 = (if f_type fd = 1
                then set_flag ''allow_inference_geo'' (f_allow_inference_geo fd)
                      (set_flag ''allow_include_obfuscation'' (f_allow_include_obfuscation fd)
                        (set_flag ''allow_safety_identifier'' (f_allow_safety_identifier fd)
                          (set_flag ''disable_store'' (f_disable_store fd) p1)))
                else let q = delete_key ''allow_include_obfuscation''
                               (delete_key ''allow_safety_identifier'' (delete_key ''disable_store'' p1))
                     in if f_type fd \<noteq> 14 then delete_key ''allow_inference_geo'' q else q)
      in if f_type fd = 14
         then set_flag ''claude_beta_query'' (f_claude_beta_query fd)
               (set_flag ''allow_speed'' (f_allow_speed fd)
                 (set_flag ''allow_inference_geo'' (f_allow_inference_geo fd) p2))
         else delete_key ''claude_beta_query'' (delete_key ''allow_speed'' p2))"

definition ignored_model_list :: "ChannelFormValues \<Rightarrow> jsstring list" where
  "ignored_model_list fd = uniq (filter (\<lambda>m. m \<noteq> []) (map trim (split_on 44 (or_str (f_ignored_models fd) []))))"

definition upstream_settings :: "ChannelFormValues \<Rightarrow> jsval props \<Rightarrow> jsval props" where
  "upstream_settings fd p0 =
     (if f_type fd \<in> set MODEL_FETCHABLE_TYPES
      then let p1 = set_flag ''upstream_model_update_check_enabled'' (f_check_enabled fd) p0;
               enabled = (val_at p1 (js ''upstream_model_update_check_enabled'') = JBool True);
               p2 = props_set p1 (js ''upstream_model_update_auto_sync_enabled'')
                      (JBool (enabled \<and> f_auto_sync_enabled fd = Some True));
               p3 = props_set p2 (js ''upstream_model_update_ignored_models'')
                      (JArr (map JStr (ignored_model_list fd)));
               p4 = (if (case val_at p3 (js ''upstream_model_update_last_detected_models'') of JArr _ \<Rightarrow> False | _ \<Rightarrow> True)
                        \<or> \<not> enabled
                     then props_set p3 (js ''upstream_model_update_last_detected_models'') (JArr []) else p3)
           in if (case val_at p4 (js ''upstream_model_update_last_check_time'') of JNum _ \<Rightarrow> False | _ \<Rightarrow> True)
              then props_set p4 (js ''upstream_model_update_last_check_time'') (JNum (Fin 0)) else p4
      else p0)"

definition advanced_settings :: "ChannelFormValues \<Rightarrow> jsval props \<Rightarrow> jsval props" where
  "advanced_settings fd p =
     (if f_type fd = CHANNEL_TYPE_ADVANCED_CUSTOM
      then (case parseAdvancedCustomConfig_val (f_advanced_custom fd) of
              Some config \<Rightarrow> props_set p (js ''advanced_custom'') config
            | None \<Rightarrow> p)
      else delete_key ''advanced_custom'' p)"

definition settings_props :: "ChannelFormValues \<Rightarrow> jsval props \<Rightarrow> jsval props" where
  "settings_props fd p = advanced_settings fd (upstream_settings fd (passthrough_settings fd (key_type_settings fd p)))"

definition existing_settings :: "ChannelFormValues \<Rightarrow> jsval" where
  "existing_settings fd =
     (case f_settings fd of
        None \<Rightarrow> JObj []
      | Some s \<Rightarrow> if s = [] \<or> s = js ''{}'' then JObj []
                 else (case json_parse s of Some v \<Rightarrow> v | None \<Rightarrow> JObj []))"

text \<open>\<open>None\<close> is the TypeError of writing a property of null or of another primitive, or of testing it
  with \<^verbatim>\<open>in\<close>: the text is parsed inside the handler and used outside. The named properties of an
  array are not printed.\<close>

definition buildSettingsJSON :: "ChannelFormValues \<Rightarrow> jsstring option" where
  "buildSettingsJSON fd =
     (case existing_settings fd of
        JObj p \<Rightarrow> Some (json_stringify (JObj (settings_props fd p)))
      | JArr xs \<Rightarrow> Some (json_stringify (JArr xs))
      | _ \<Rightarrow> None)"

subsection \<open>Payloads\<close>

definition normalizeBaseUrl :: "jsstring option \<Rightarrow> jsstring" where
  "normalizeBaseUrl v = rev (dropWhile (\<lambda>c. c = 47) (rev (trim (or_str v []))))"

definition text_or_null :: "jsstring option \<Rightarrow> jsval" where
  "text_or_null v = (if or_str v [] = [] then JNull else JStr (or_str v []))"

definition num_or_null :: "jsnum option \<Rightarrow> jsval" where
  "num_or_null v = (case v of Some n \<Rightarrow> if num_truthy n then JNum n else JNull | None \<Rightarrow> JNull)"

definition num_default :: "jsnum option \<Rightarrow> jsnum \<Rightarrow> jsval" where
  "num_default v d = JNum (case v of Some n \<Rightarrow> n | None \<Rightarrow> d)"

definition int_val :: "int \<Rightarrow> jsval" where
  "int_val n = JNum (Fin (of_int n))"

text \<open>\<^verbatim>\<open>Object.keys(channel).forEach(...)\<close>: empty strings become null.\<close>

definition empty_to_null :: "jsval props \<Rightarrow> jsval props" where
  "empty_to_null p = map (\<lambda>(k, v). (k, if v = JStr [] then JNull else v)) p"

definition status_val :: "int option \<Rightarrow> jsval" where
  "status_val st = (case st of Some n \<Rightarrow> int_val n | None \<Rightarrow> JUndef)"

record create_payload =
  cp_mode :: jsstring
  cp_multi_key_mode :: "jsstring option"
  cp_batch_prefix :: "bool option"
  cp_channel :: "jsval props"

definition transformFormDataToCreatePayload :: "ChannelFormValues \<Rightarrow> create_payload option" where
  "transformFormDataToCreatePayload fd =
     (case buildSettingsJSON fd of
        None \<Rightarrow> None
      | Some settings \<Rightarrow>
          let mode = or_str (f_multi_key_mode fd) (js ''single'');
              channel =
                [(js ''name'', JStr (f_name fd)), (js ''type'', int_val (f_type fd)),
                 (js ''base_url'', text_or_null (Some (normalizeBaseUrl (f_base_url fd)))),
                 (js ''key'', JStr (f_key fd)),
                 (js ''openai_organization'', text_or_null (f_openai_organization fd)),
                 (js ''models'', JStr (f_models fd)), (js ''group'', JStr (formatGroups (f_group fd))),
                 (js ''model_mapping'', text_or_null (f_model_mapping fd)),
                 (js ''priority'', num_or_null (f_priority fd)), (js ''weight'', num_or_null (f_weight fd)),
                 (js ''test_model'', text_or_null (f_test_model fd)),
                 (js ''auto_ban'', num_default (f_auto_ban fd) (Fin 1)),
                 (js ''status'', status_val (f_status fd)),
                 (js ''status_code_mapping'', text_or_null (f_status_code_mapping fd)),
                 (js ''tag'', text_or_null (f_tag fd)), (js ''remark'', JStr (or_str (f_remark fd) [])),
                 (js ''setting'', JStr (buildSettingJSON fd)),
                 (js ''param_override'', text_or_null (f_param_override fd)),
                 (js ''header_override'', text_or_null (f_header_override fd)),
                 (js ''settings'', JStr settings), (js ''other'', JStr (or_str (f_other fd) []))]
          in Some \<lparr>cp_mode = mode,
                   cp_multi_key_mode = (if mode = js ''multi_to_single'' then f_multi_key_type fd else None),
                   cp_batch_prefix = (if mode = js ''batch'' then f_batch_add_set_key_prefix_2_name fd else None),
                   cp_channel = empty_to_null channel\<rparr>)"

definition transformFormDataToUpdatePayload :: "ChannelFormValues \<Rightarrow> int \<Rightarrow> jsval props option" where
  "transformFormDataToUpdatePayload fd channelId =
     (case buildSettingsJSON fd of
        None \<Rightarrow> None
      | Some settings \<Rightarrow>
          let payload =
                [(js ''id'', int_val channelId),
                 (js ''name'', JStr (f_name fd)), (js ''type'', int_val (f_type fd)),
                 (js ''base_url'', text_or_null (Some (normalizeBaseUrl (f_base_url fd)))),
                 (js ''openai_organization'', text_or_null (f_openai_organization fd)),
                 (js ''models'', JStr (f_models fd)), (js ''group'', JStr (formatGroups (f_group fd))),
                 (js ''model_mapping'', text_or_null (f_model_mapping fd)),
                 (js ''priority'', num_default (f_priority fd) (Fin 0)),
                 (js ''weight'', num_default (f_weight fd) (Fin 0)),
                 (js ''test_model'', text_or_null (f_test_model fd)),
                 (js ''auto_ban'', num_default (f_auto_ban fd) (Fin 1)),
                 (js ''status'', status_val (f_status fd)),
                 (js ''status_code_mapping'', text_or_null (f_status_code_mapping fd)),
                 (js ''tag'', text_or_null (f_tag fd)), (js ''remark'', JStr (or_str (f_remark fd) [])),
                 (js ''setting'', JStr (buildSettingJSON fd)),
                 (js ''param_override'', text_or_null (f_param_override fd)),
                 (js ''header_override'', text_or_null (f_header_override fd)),
                 (js ''settings'', JStr settings), (js ''other'', JStr (or_str (f_other fd) []))] @
                (if f_key fd \<noteq> [] \<and> trim (f_key fd) \<noteq> [] then [(js ''key'', JStr (f_key fd))] else [])
          in Some (props_assign (empty_to_null payload)
               [(js ''base_url'', JStr (normalizeBaseUrl (f_base_url fd))),
                (js ''openai_organization'', JStr (or_str (f_openai_organization fd) [])),
                (js ''test_model'', JStr (or_str (f_test_model fd) [])),
                (js ''tag'', JStr (or_str (f_tag fd) [])),
                (js ''remark'', JStr (or_str (f_remark fd) [])),
                (js ''model_mapping'', JStr (or_str (f_model_mapping fd) [])),
                (js ''status_code_mapping'', JStr (or_str (f_status_code_mapping fd) [])),
                (js ''param_override'', JStr (or_str (f_param_override fd) [])),
                (js ''header_override'', JStr (or_str (f_header_override fd) []))]))"

end
