(* ===== verification/ChannelFormSettings.thy ===== *)
theory ChannelFormSettings
  imports ChannelForm
begin

text \<open>
  What the channel form saves and reads back. The \<^verbatim>\<open>settings\<close> column is specified by a table: which
  key has which value for which channel type; every other key is kept. The routine that edits the
  object step by step refines the table. Reopening a saved channel and saving it again sends the
  same two columns, and a form that passes validation never throws when it is saved.
\<close>

subsection \<open>Editing a property list\<close>

declare props_get_del [simp]

lemma val_at_del [simp]: "val_at (props_del p k) k' = (if k' = k then JUndef else val_at p k')"
  by (simp add: val_at_def)

lemma props_del_same: "props_get p k = None \<Longrightarrow> props_del p k = p"
  by (auto simp: props_get_def props_del_def map_of_eq_None_iff intro!: filter_True)

lemma props_ordered_filter: "props_ordered p \<Longrightarrow> props_ordered (filter P p)"
  by (induction p rule: props_ordered.induct) (auto simp: list_all_iff split: if_splits)

lemma json_ok_set:
  assumes "json_ok (JObj p)" "str_ok k" "json_ok v"
  shows "json_ok (JObj (props_set p k v))"
  using assms set_props_set [of p k v] ps.ok_put [of p k v]
  by (auto simp: list_all_iff intro: props_set_ordered)

lemma json_ok_del: "json_ok (JObj p) \<Longrightarrow> json_ok (JObj (props_del p k))"
  using ps.ok_del [of p k]
  by (auto simp: list_all_iff props_del_def intro: props_ordered_filter)

lemma set_or_delete_get:
  "props_get (set_or_delete c k v p) = (props_get p)(js k := (if c then Some v else None))"
  by (simp add: set_or_delete_def)

lemma set_or_delete_same:
  "props_get p (js k) = (if c then Some v else None) \<Longrightarrow> set_or_delete c k v p = p"
  by (simp add: set_or_delete_def props_set_same props_del_same split: if_splits)

lemma json_ok_set_or_delete:
  "json_ok (JObj p) \<Longrightarrow> (c \<Longrightarrow> json_ok v) \<Longrightarrow> json_ok (JObj (set_or_delete c k v p))"
  by (simp add: set_or_delete_def json_ok_set json_ok_del del: json_ok.simps)

subsection \<open>The table of settings\<close>

text \<open>The keys that belong to a channel type: for each, whether the type of the form has it, and its
  value then.\<close>

definition type_settings :: "ChannelFormValues \<Rightarrow> (jsstring \<times> bool \<times> jsval) list" where
  "type_settings fd =
     [(js ''vertex_key_type'', f_type fd = 41, val_or (f_vertex_key_type fd) (JStr (js ''json''))),
      (js ''azure_responses_version'', f_type fd = 3 \<and> truthy (f_azure_responses_version fd),
         f_azure_responses_version fd),
      (js ''openrouter_enterprise'', f_type fd = 20, JBool (f_is_enterprise_account fd = Some True)),
      (js ''aws_key_type'', f_type fd = 33, val_or (f_aws_key_type fd) (JStr (js ''ak_sk''))),
      (js ''allow_service_tier'', f_type fd \<in> {1, 14}, JBool (f_allow_service_tier fd = Some True)),
      (js ''disable_store'', f_type fd = 1, JBool (f_disable_store fd = Some True)),
      (js ''allow_safety_identifier'', f_type fd = 1, JBool (f_allow_safety_identifier fd = Some True)),
      (js ''allow_include_obfuscation'', f_type fd = 1, JBool (f_allow_include_obfuscation fd = Some True)),
      (js ''allow_inference_geo'', f_type fd \<in> {1, 14}, JBool (f_allow_inference_geo fd = Some True)),
      (js ''allow_speed'', f_type fd = 14, JBool (f_allow_speed fd = Some True)),
      (js ''claude_beta_query'', f_type fd = 14, JBool (f_claude_beta_query fd = Some True))]"

text \<open>The keys of the upstream model check; the detected models and the time of the last check are
  written by the server and kept while they have their type.\<close>

definition upstream_table :: "ChannelFormValues \<Rightarrow> jsval props \<Rightarrow> (jsstring \<times> jsval) list" where
  "upstream_table fd p =
     (let enabled = (f_check_enabled fd = Some True)
      in [(js ''upstream_model_update_check_enabled'', JBool enabled),
          (js ''upstream_model_update_auto_sync_enabled'', JBool (enabled \<and> f_auto_sync_enabled fd = Some True)),
          (js ''upstream_model_update_ignored_models'', JArr (map JStr (ignored_model_list fd))),
          (js ''upstream_model_update_last_detected_models'',
             (case val_at p (js ''upstream_model_update_last_detected_models'') of
                JArr xs \<Rightarrow> if enabled then JArr xs else JArr [] | _ \<Rightarrow> JArr [])),
          (js ''upstream_model_update_last_check_time'',
             (case val_at p (js ''upstream_model_update_last_check_time'') of
                JNum x \<Rightarrow> JNum x | _ \<Rightarrow> JNum (Fin 0)))])"

definition advanced_entry :: "ChannelFormValues \<Rightarrow> jsval option \<Rightarrow> jsval option" where
  "advanced_entry fd old =
     (if f_type fd = CHANNEL_TYPE_ADVANCED_CUSTOM
      then (case parseAdvancedCustomConfig_val (f_advanced_custom fd) of Some c \<Rightarrow> Some c | None \<Rightarrow> old)
      else None)"

definition settings_table :: "ChannelFormValues \<Rightarrow> jsval props \<Rightarrow> jsstring \<Rightarrow> jsval option" where
  "settings_table fd p k =
     (case map_of (type_settings fd) k of
        Some (has, v) \<Rightarrow> if has then Some v else None
      | None \<Rightarrow>
          if k = js ''advanced_custom'' then advanced_entry fd (props_get p k)
          else case (if f_type fd \<in> set MODEL_FETCHABLE_TYPES then map_of (upstream_table fd p) k else None) of
                 Some v \<Rightarrow> Some v
               | None \<Rightarrow> props_get p k)"

lemma js_eq_iff: "js s = k \<longleftrightarrow> k = js s"
  by blast

lemma key_type_get:
  "props_get (key_type_settings fd p) = (props_get p)
     (js ''vertex_key_type'' := (if f_type fd = 41 then Some (val_or (f_vertex_key_type fd) (JStr (js ''json''))) else None),
      js ''azure_responses_version'' := (if f_type fd = 3 \<and> truthy (f_azure_responses_version fd)
          then Some (f_azure_responses_version fd) else None),
      js ''openrouter_enterprise'' := (if f_type fd = 20 then Some (JBool (f_is_enterprise_account fd = Some True)) else None),
      js ''aws_key_type'' := (if f_type fd = 33 then Some (val_or (f_aws_key_type fd) (JStr (js ''ak_sk''))) else None))"
  by (simp add: key_type_settings_def Let_def set_or_delete_get)

lemma passthrough_get:
  "props_get (passthrough_settings fd p) = (props_get p)
     (js ''allow_service_tier'' := (if f_type fd \<in> {1, 14} then Some (JBool (f_allow_service_tier fd = Some True)) else None),
      js ''disable_store'' := (if f_type fd = 1 then Some (JBool (f_disable_store fd = Some True)) else None),
      js ''allow_safety_identifier'' := (if f_type fd = 1 then Some (JBool (f_allow_safety_identifier fd = Some True)) else None),
      js ''allow_include_obfuscation'' := (if f_type fd = 1 then Some (JBool (f_allow_include_obfuscation fd = Some True)) else None),
      js ''allow_inference_geo'' := (if f_type fd \<in> {1, 14} then Some (JBool (f_allow_inference_geo fd = Some True)) else None),
      js ''allow_speed'' := (if f_type fd = 14 then Some (JBool (f_allow_speed fd = Some True)) else None),
      js ''claude_beta_query'' := (if f_type fd = 14 then Some (JBool (f_claude_beta_query fd = Some True)) else None))"
  by (auto simp: passthrough_settings_def Let_def set_or_delete_get set_flag_def delete_key_def fun_eq_iff)

lemma upstream_get:
  "props_get (upstream_settings fd p) k =
     (case (if f_type fd \<in> set MODEL_FETCHABLE_TYPES then map_of (upstream_table fd p) k else None) of
        Some v \<Rightarrow> Some v | None \<Rightarrow> props_get p k)"
proof (cases "f_type fd \<in> set MODEL_FETCHABLE_TYPES")
  case True
  have kept: "props_get p k' = Some v" if "val_at p k' = v" "v \<noteq> JUndef" for k' v
    using that by (auto simp: val_at_def split: option.splits)
  show ?thesis
    using True kept
    by (auto simp: upstream_settings_def upstream_table_def Let_def set_flag_def split: jsval.splits)
qed (simp add: upstream_settings_def)

lemma advanced_get:
  "props_get (advanced_settings fd p) = (props_get p)(js ''advanced_custom'' := advanced_entry fd (props_get p (js ''advanced_custom'')))"
  by (auto simp: advanced_settings_def advanced_entry_def delete_key_def split: option.splits)

lemma upstream_table_cong:
  "props_get p (js ''upstream_model_update_last_detected_models'') =
     props_get q (js ''upstream_model_update_last_detected_models'') \<Longrightarrow>
   props_get p (js ''upstream_model_update_last_check_time'') =
     props_get q (js ''upstream_model_update_last_check_time'') \<Longrightarrow>
   upstream_table fd p = upstream_table fd q"
  by (simp add: upstream_table_def val_at_def)

lemma upstream_key_own:
  "k \<in> set (map fst (upstream_table fd p)) \<Longrightarrow> map_of (type_settings fd) k = None \<and> k \<noteq> js ''advanced_custom''"
  by (auto simp: upstream_table_def type_settings_def Let_def)

lemma settings_props_table: "props_get (settings_props fd p) = settings_table fd p"
proof
  fix k
  let ?q = "passthrough_settings fd (key_type_settings fd p)"
  have same: "upstream_table fd ?q = upstream_table fd p"
    by (rule upstream_table_cong) (simp_all add: passthrough_get key_type_get)
  have q: "props_get ?q k =
      (case map_of (type_settings fd) k of Some (has, v) \<Rightarrow> if has then Some v else None | None \<Rightarrow> props_get p k)" for k
    by (simp add: passthrough_get key_type_get type_settings_def)
  have distinct: "map_of (upstream_table fd p) k = None"
    if "k = js ''advanced_custom'' \<or> map_of (type_settings fd) k \<noteq> None"
    using that upstream_key_own [of k fd p] by (auto simp: map_of_eq_None_iff)
  show "props_get (settings_props fd p) k = settings_table fd p k"
  proof (cases "map_of (type_settings fd) k")
    case None
    then show ?thesis
      using distinct by (auto simp: settings_props_def advanced_get upstream_get same q settings_table_def split: option.splits)
  next
    case (Some hv)
    moreover have "k \<noteq> js ''advanced_custom''" using Some by (auto simp: type_settings_def split: if_splits)
    ultimately show ?thesis
      using distinct by (simp add: settings_props_def advanced_get upstream_get same q settings_table_def split: prod.splits)
  qed
qed

subsection \<open>The saved texts are JSON\<close>

text \<open>The texts and values of a form that JSON carries faithfully.\<close>

definition form_json_ok :: "ChannelFormValues \<Rightarrow> bool" where
  "form_json_ok fd \<longleftrightarrow>
     json_ok (existing_settings fd) \<and>
     json_ok (val_or (f_vertex_key_type fd) (JStr [])) \<and> json_ok (val_or (f_aws_key_type fd) (JStr [])) \<and>
     json_ok (val_or (f_azure_responses_version fd) (JStr [])) \<and>
     str_ok (or_str (f_ignored_models fd) []) \<and>
     list_all (\<lambda>kv. json_ok (snd kv)) (setting_entries fd) \<and>
     (case parseAdvancedCustomConfig_val (f_advanced_custom fd) of Some c \<Rightarrow> json_ok c | None \<Rightarrow> True)"

lemma json_ok_val_or: "json_ok (val_or v (JStr [])) \<Longrightarrow> str_ok d \<Longrightarrow> json_ok (val_or v (JStr d))"
  by (auto simp: val_or_def)

lemma str_ok_subset: "str_ok s \<Longrightarrow> set t \<subseteq> set s \<Longrightarrow> str_ok t"
  by (auto simp: str_ok_def list_all_iff)

lemma set_split_on: "x \<in> set (split_on c s) \<Longrightarrow> set x \<subseteq> set s"
  using set_join_member [of x "split_on c s" "[c]"] join_split_on [of c s] by simp

lemma ignored_models_clean:
  "m \<in> set (ignored_model_list fd) \<Longrightarrow> m \<noteq> [] \<and> trimmed m \<and> 44 \<notin> set m"
  using set_trim split_on_no_sep by (fastforce simp: ignored_model_list_def)

lemma ignored_models_ok:
  assumes "str_ok (or_str (f_ignored_models fd) [])" "m \<in> set (ignored_model_list fd)"
  shows "str_ok m"
proof -
  obtain x where "x \<in> set (split_on 44 (or_str (f_ignored_models fd) []))" "m = trim x"
    using assms(2) by (auto simp: ignored_model_list_def)
  then show ?thesis
    using set_trim [of x] set_split_on [of x 44 "or_str (f_ignored_models fd) []"] assms(1)
    by (auto intro: str_ok_subset)
qed

lemma settings_props_ok:
  assumes "form_json_ok fd" "existing_settings fd = JObj p"
  shows "json_ok (JObj (settings_props fd p))"
proof -
  have p: "json_ok (JObj p)" using assms by (simp add: form_json_ok_def del: json_ok.simps)
  have 1: "json_ok (JObj (key_type_settings fd p))"
    unfolding key_type_settings_def Let_def
    using assms(1) by (intro json_ok_set_or_delete p)
      (auto simp: form_json_ok_def val_or_def simp del: json_ok.simps(7) split: if_splits)
  have 2: "json_ok (JObj (passthrough_settings fd q))" if "json_ok (JObj q)" for q
    using that unfolding passthrough_settings_def Let_def set_flag_def delete_key_def
    by (auto intro!: json_ok_set json_ok_del json_ok_set_or_delete simp del: json_ok.simps(7))
  have ign: "json_ok (JArr (map JStr (ignored_model_list fd)))"
    using assms(1) ignored_models_ok by (auto simp: form_json_ok_def list_all_iff)
  have 3: "json_ok (JObj (upstream_settings fd q))" if "json_ok (JObj q)" for q
    using that ign unfolding upstream_settings_def Let_def set_flag_def
    by (simp add: json_ok_set del: json_ok.simps(7))
  have 4: "json_ok (JObj (advanced_settings fd q))" if "json_ok (JObj q)" for q
    using that assms(1) unfolding advanced_settings_def form_json_ok_def delete_key_def
    by (auto simp: json_ok_set json_ok_del simp del: json_ok.simps split: option.splits)
  show ?thesis unfolding settings_props_def by (intro 4 3 2 1)
qed

subsection \<open>Advanced configurations\<close>

lemma prop_of_Cons: "prop_of (JObj ((k, v) # p)) k' = (if k' = k then v else prop_of (JObj p) k')"
  by (simp add: prop_of_def props_get_def)

lemma prop_of_Nil: "prop_of (JObj []) k = JUndef"
  by (simp add: prop_of_def props_get_def)

lemma val_or_again [simp]: "val_or (val_or v (JStr d)) (JStr d) = val_or v (JStr d)"
  by (simp add: val_or_def)

lemma val_or_defined [simp]: "val_or v (JStr d) \<noteq> JUndef"
  by (auto simp: val_or_def)

lemma trimmed_val_or: "val_or (JStr (trim u)) (JStr []) = JStr (trim u)"
  by (simp add: val_or_def)

lemma normalize_route_val_idem:
  assumes "normalizeAdvancedCustomRoute_val r = Some r'"
  shows "normalizeAdvancedCustomRoute_val r' = Some r'"
proof -
  obtain u where u: "val_or (prop_of r (js ''upstream_path'')) (JStr []) = JStr u"
    using assms by (auto simp: normalizeAdvancedCustomRoute_val_def split: if_splits jsval.splits)
  let ?a = "prop_of r (js ''auth'')"
  show ?thesis
    using assms u
    by (cases "truthy ?a"; cases "prop_of ?a (js ''type'') = JUndef")
      (auto simp: normalizeAdvancedCustomRoute_val_def Let_def prop_of_Cons prop_of_Nil trimmed_val_or
        val_or_def [of JUndef] split: if_splits)
qed

lemma normalize_config_val_idem:
  assumes "normalizeAdvancedCustomConfig_val c = Some c'"
  shows "normalizeAdvancedCustomConfig_val c' = Some c'"
proof -
  have again: "those (map normalizeAdvancedCustomRoute_val ns) = Some ns"
    if "those (map normalizeAdvancedCustomRoute_val rs) = Some ns" for rs ns
    using that
  proof (induction rs arbitrary: ns)
    case (Cons r rs)
    then show ?case by (auto split: option.splits dest: normalize_route_val_idem)
  qed simp
  obtain ns where "c' = JObj [(js ''advanced_routes'', JArr ns)]"
      "those (map normalizeAdvancedCustomRoute_val ns) = Some ns"
    using assms again
    by (cases "prop_of c (js ''advanced_routes'')") (auto simp: normalizeAdvancedCustomConfig_val_def)
  then show ?thesis by (simp add: normalizeAdvancedCustomConfig_val_def prop_of_Cons)
qed

lemma config_val_text_nonblank:
  assumes "normalizeAdvancedCustomConfig_val c = Some c'"
  shows "\<not> blank (Some (json_stringify2 c'))" "\<exists>ps. c' = JObj ps" "truthy c'"
proof -
  show obj: "\<exists>ps. c' = JObj ps"
    using assms by (auto simp: normalizeAdvancedCustomConfig_val_def split: jsval.splits)
  then have "prefix [123] (json_stringify2 c')" by (auto simp: json_stringify2_def Let_def)
  then show "\<not> blank (Some (json_stringify2 c'))"
    by (cases "json_stringify2 c'") (auto simp: blank_def trim_eq_Nil is_ws_def)
  show "truthy c'" using obj by auto
qed

lemma advanced_text_reread:
  assumes "parseAdvancedCustomConfig_val t = Some c" "json_ok c"
  shows "stringifyAdvancedCustomConfig_val c = Some (json_stringify2 c)"
    "parseAdvancedCustomConfig_val (Some (json_stringify2 c)) = Some c" "truthy c"
proof -
  obtain c0 where n: "normalizeAdvancedCustomConfig_val c0 = Some c"
    using assms(1) by (auto simp: parseAdvancedCustomConfig_val_def split: if_splits option.splits jsval.splits)
  show "stringifyAdvancedCustomConfig_val c = Some (json_stringify2 c)"
    by (simp add: stringifyAdvancedCustomConfig_val_def normalize_config_val_idem [OF n])
  show "parseAdvancedCustomConfig_val (Some (json_stringify2 c)) = Some c"
    using config_val_text_nonblank [OF n] normalize_config_val_idem [OF n] pretty_round_trip [OF assms(2)]
    by (auto simp: parseAdvancedCustomConfig_val_def)
  show "truthy c" by (rule config_val_text_nonblank [OF n])
qed

text \<open>A configuration that the typed model of validation reads is also read as a value.\<close>

lemma typed_route_val:
  assumes "route_of v = Some r" "v \<noteq> JNull" "v \<noteq> JUndef"
  shows "normalizeAdvancedCustomRoute_val v \<noteq> None"
proof -
  have "\<exists>u. val_or (prop_of v (js ''upstream_path'')) (JStr []) = JStr u"
    using assms(1) by (auto simp: route_of_def str_field_def val_or_def split: option.splits jsval.splits)
  then show ?thesis using assms(2,3) by (auto simp: normalizeAdvancedCustomRoute_val_def)
qed

lemma typed_config_val:
  assumes "parseAdvancedCustomConfig t = ParsedConfig c"
  shows "parseAdvancedCustomConfig_val t \<noteq> None"
proof -
  obtain s ps where s: "t = Some s" "trim s \<noteq> []" "json_parse s = Some (JObj ps)"
    using assms by (auto simp: parseAdvancedCustomConfig_def split: option.splits if_splits jsval.splits)
  have "those (map normalizeAdvancedCustomRoute_val vs) \<noteq> None"
    if "val_at ps (js ''advanced_routes'') = JArr vs" for vs
  proof -
    have ok: "parse_routes vs = ParsedConfig c"
      using assms s that by (simp add: parseAdvancedCustomConfig_def)
    have wf: "json_wf (JArr vs)"
      using json_parse_wf [OF s(3)] that
      by (auto simp: val_at_def props_get_def list_all_iff split: option.splits dest!: map_of_SomeD)
    have "\<forall>v\<in>set vs. v \<noteq> JUndef \<and> v \<noteq> JNull \<and> route_of v \<noteq> None"
    proof
      fix v assume v: "v \<in> set vs"
      obtain rs where "those (map route_of vs) = Some rs" "\<not> list_ex (\<lambda>v. v = JNull) vs"
        using ok by (auto simp: parse_routes_def split: if_splits option.splits)
      moreover have "route_of w \<noteq> None" if "those (map route_of ws) = Some us" "w \<in> set ws" for w ws us
        using that by (induction ws arbitrary: us) (auto split: option.splits)
      ultimately show "v \<noteq> JUndef \<and> v \<noteq> JNull \<and> route_of v \<noteq> None"
        using v wf by (auto simp: list_ex_iff list_all_iff)
    qed
    then have "\<forall>v\<in>set vs. normalizeAdvancedCustomRoute_val v \<noteq> None" using typed_route_val by blast
    then show ?thesis by (induction vs) (auto split: option.splits)
  qed
  then show ?thesis
    using s by (auto simp: parseAdvancedCustomConfig_val_def normalizeAdvancedCustomConfig_val_def blank_def
        prop_of_JObj split: jsval.splits)
qed

subsection \<open>Reopening\<close>

lemma settings_fixpoint:
  assumes types: "list_all (\<lambda>(k, has, v). props_get q k = (if has then Some v else None)) (type_settings fd)"
    and upstream: "f_type fd \<in> set MODEL_FETCHABLE_TYPES \<Longrightarrow>
      list_all (\<lambda>(k, v). props_get q k = Some v) (upstream_table fd q)"
    and advanced: "props_get q (js ''advanced_custom'') = advanced_entry fd (props_get q (js ''advanced_custom''))"
  shows "settings_props fd q = q"
proof -
  have 1: "key_type_settings fd q = q"
    using types by (simp add: key_type_settings_def Let_def set_or_delete_same type_settings_def)
  have 2: "passthrough_settings fd q = q"
    using types by (simp add: passthrough_settings_def Let_def set_or_delete_same set_flag_def delete_key_def
        props_set_same props_del_same type_settings_def)
  have 3: "upstream_settings fd q = q"
  proof (cases "f_type fd \<in> set MODEL_FETCHABLE_TYPES")
    case True
    let ?d = "js ''upstream_model_update_last_detected_models''" and ?t = "js ''upstream_model_update_last_check_time''"
    have ups: "list_all (\<lambda>(k, v). props_get q k = Some v) (upstream_table fd q)" by (rule upstream [OF True])
    have at: "val_at q k = v" if "props_get q k = Some v" for k v using that by (simp add: val_at_def)
    obtain xs where xs: "props_get q ?d = Some (JArr xs)" "f_check_enabled fd \<noteq> Some True \<Longrightarrow> xs = []"
      using ups by (cases "val_at q ?d"; cases "f_check_enabled fd = Some True")
        (simp_all add: upstream_table_def Let_def)
    obtain x where x: "props_get q ?t = Some (JNum x)"
      using ups by (cases "val_at q ?t") (simp_all add: upstream_table_def Let_def)
    have c: "val_at q (js ''upstream_model_update_check_enabled'') = JBool (f_check_enabled fd = Some True)"
      using ups by (simp add: at upstream_table_def Let_def)
    show ?thesis
      using ups True at [OF xs(1)] at [OF x] xs c
      by (cases "f_check_enabled fd = Some True")
        (simp_all add: upstream_settings_def upstream_table_def Let_def set_flag_def props_set_same)
  qed (simp add: upstream_settings_def)
  have 4: "advanced_settings fd q = q"
    using advanced
    by (auto simp: advanced_settings_def advanced_entry_def delete_key_def props_set_same props_del_same
        split: option.splits if_splits)
  show ?thesis by (simp add: settings_props_def 1 2 3 4)
qed

lemma clean_list_reread:
  assumes "\<And>m. m \<in> set l \<Longrightarrow> m \<noteq> [] \<and> trimmed m \<and> 44 \<notin> set m" "distinct l"
  shows "uniq (filter (\<lambda>m. m \<noteq> []) (map trim (split_on 44 (join [44] l)))) = l"
proof (cases "l = []")
  case False
  then have "split_on 44 (join [44] l) = l" using assms(1) by (intro split_on_join) auto
  moreover have "map trim l = l" "filter (\<lambda>m. m \<noteq> []) l = l"
    using assms(1) by (auto intro!: map_idI simp: trim_id filter_id_conv)
  ultimately show ?thesis using assms(2) by (simp add: uq.dedup_id)
qed (simp add: uniq_def)

lemma reopened_type_settings:
  assumes "props_get q = settings_table fd p" "stored_value (Some (ch_settings ch)) = JObj q" "ch_type ch = f_type fd"
  shows "list_all (\<lambda>(k, has, v). props_get q k = (if has then Some v else None))
      (type_settings (transformChannelToFormDefaults ch))"
    "filter (\<lambda>(k, has, v). has) (type_settings (transformChannelToFormDefaults ch)) =
     filter (\<lambda>(k, has, v). has) (type_settings fd)"
  using assms
  by (simp_all add: type_settings_def transformChannelToFormDefaults_def Let_def settings_table_def flag_of_def
      prop_of_JObj val_at_def val_or_def)

lemma reopened_ignored_models:
  assumes "props_get q = settings_table fd p" "stored_value (Some (ch_settings ch)) = JObj q"
    "ch_type ch = f_type fd" "f_type fd \<in> set MODEL_FETCHABLE_TYPES"
  shows "ignored_model_list (transformChannelToFormDefaults ch) = ignored_model_list fd"
proof -
  let ?l = "ignored_model_list fd"
  have "val_at q (js ''upstream_model_update_ignored_models'') = JArr (map JStr ?l)"
    using assms by (simp add: val_at_def settings_table_def type_settings_def upstream_table_def Let_def)
  moreover have "to_str (JArr (map JStr ?l)) = join [44] ?l" by (simp add: comp_def)
  ultimately have "f_ignored_models (transformChannelToFormDefaults ch) = Some (join [44] ?l)"
    using assms(2) by (simp add: transformChannelToFormDefaults_def Let_def prop_of_JObj)
  moreover have "or_str (Some x) [] = x" for x by (simp add: or_str_def)
  moreover have "distinct ?l" by (simp add: ignored_model_list_def)
  ultimately show ?thesis
    using clean_list_reread [of ?l] ignored_models_clean [of _ fd]
    by (simp add: ignored_model_list_def [of "transformChannelToFormDefaults ch"])
qed

lemma reopened_upstream:
  assumes "props_get q = settings_table fd p" "stored_value (Some (ch_settings ch)) = JObj q"
    "ch_type ch = f_type fd" "f_type fd \<in> set MODEL_FETCHABLE_TYPES"
  shows "list_all (\<lambda>(k, v). props_get q k = Some v) (upstream_table (transformChannelToFormDefaults ch) q)"
proof -
  have flags: "f_check_enabled (transformChannelToFormDefaults ch) = Some (f_check_enabled fd = Some True)"
    "f_auto_sync_enabled (transformChannelToFormDefaults ch) =
       Some (f_check_enabled fd = Some True \<and> f_auto_sync_enabled fd = Some True)"
    using assms by (simp_all add: transformChannelToFormDefaults_def Let_def flag_of_def prop_of_JObj val_at_def
        settings_table_def type_settings_def upstream_table_def)
  have get: "props_get q k = map_of (upstream_table fd p) k" if key: "k \<in> set (map fst (upstream_table fd p))" for k
  proof -
    obtain v where "map_of (upstream_table fd p) k = Some v"
      using key by (cases "map_of (upstream_table fd p) k") (auto simp: map_of_eq_None_iff)
    then show ?thesis using upstream_key_own [OF key] assms by (simp add: settings_table_def)
  qed
  have keys: "map fst (upstream_table fd p) = map js [''upstream_model_update_check_enabled'',
      ''upstream_model_update_auto_sync_enabled'', ''upstream_model_update_ignored_models'',
      ''upstream_model_update_last_detected_models'', ''upstream_model_update_last_check_time'']"
    by (simp add: upstream_table_def Let_def)
  have d: "val_at q (js ''upstream_model_update_last_detected_models'') =
      (case val_at p (js ''upstream_model_update_last_detected_models'') of
         JArr xs \<Rightarrow> if f_check_enabled fd = Some True then JArr xs else JArr [] | _ \<Rightarrow> JArr [])"
    and t: "val_at q (js ''upstream_model_update_last_check_time'') =
      (case val_at p (js ''upstream_model_update_last_check_time'') of JNum x \<Rightarrow> JNum x | _ \<Rightarrow> JNum (Fin 0))"
    by (simp_all add: val_at_def [of q] get keys) (simp_all add: upstream_table_def Let_def)
  have same: "(case (case x of JArr xs \<Rightarrow> if b then JArr xs else JArr [] | _ \<Rightarrow> JArr []) of
      JArr xs \<Rightarrow> if b then JArr xs else JArr [] | _ \<Rightarrow> JArr []) =
      (case x of JArr xs \<Rightarrow> if b then JArr xs else JArr [] | _ \<Rightarrow> JArr [])" for x b
    by (cases x) simp_all
  have same': "(case (case x of JNum n \<Rightarrow> JNum n | _ \<Rightarrow> JNum (Fin 0)) of JNum n \<Rightarrow> JNum n | _ \<Rightarrow> JNum (Fin 0)) =
      (case x of JNum n \<Rightarrow> JNum n | _ \<Rightarrow> JNum (Fin 0))" for x
    by (cases x) simp_all
  show ?thesis
    using reopened_ignored_models [OF assms]
    by (simp add: upstream_table_def [of "transformChannelToFormDefaults ch"] Let_def flags d t same same' get keys)
      (simp add: upstream_table_def Let_def)
qed

lemma reopened_advanced:
  assumes "props_get q = settings_table fd p" "stored_value (Some (ch_settings ch)) = JObj q"
    "ch_type ch = f_type fd"
    "\<And>c. f_type fd = CHANNEL_TYPE_ADVANCED_CUSTOM \<Longrightarrow> parseAdvancedCustomConfig_val (f_advanced_custom fd) \<noteq> None"
    "\<And>c. parseAdvancedCustomConfig_val (f_advanced_custom fd) = Some c \<Longrightarrow> json_ok c"
  shows "props_get q (js ''advanced_custom'') =
     advanced_entry (transformChannelToFormDefaults ch) (props_get q (js ''advanced_custom''))"
proof (cases "f_type fd = CHANNEL_TYPE_ADVANCED_CUSTOM")
  case True
  then obtain c where c: "parseAdvancedCustomConfig_val (f_advanced_custom fd) = Some c" using assms(4) by auto
  have "props_get q (js ''advanced_custom'') = Some c"
    using assms(1) True c by (simp add: settings_table_def type_settings_def advanced_entry_def)
  moreover from this have "f_advanced_custom (transformChannelToFormDefaults ch) = Some (json_stringify2 c)"
    using assms(2) advanced_text_reread [OF c assms(5) [OF c]]
    by (simp add: transformChannelToFormDefaults_def Let_def prop_of_JObj val_at_def)
  ultimately show ?thesis
    using True assms(3) advanced_text_reread [OF c assms(5) [OF c]]
    by (simp add: advanced_entry_def) (simp add: transformChannelToFormDefaults_def Let_def)
next
  case False
  then show ?thesis
    using assms(1,3) by (simp add: settings_table_def type_settings_def advanced_entry_def)
      (simp add: transformChannelToFormDefaults_def Let_def)
qed

subsection \<open>Validated forms\<close>

lemma require_that_Nil [simp]: "require_that c p m = [] \<longleftrightarrow> c"
  by (simp add: require_that_def)

lemma json_parse_blank:
  assumes "trim s = []"
  shows "json_parse s = None"
proof -
  have ws: "\<forall>c\<in>set s. is_ws c" using assms by (simp add: trim_eq_Nil)
  have "parse_val (Suc n) s = None" for n
  proof (cases "skip_ws s")
    case (Cons c r)
    have "c \<in> set s" using Cons by (metis list.set_intros(1) set_dropWhileD skip_ws_def)
    with ws have "is_ws c" by blast
    then have "c \<notin> {123, 91, 34, 45, 116, 102, 110}" "\<not> is_digit c"
      using is_digit_not_ws [of c] by (auto simp: is_ws_def)
    then show ?thesis using Cons by (simp add: parse_keyword_def js_def)
  qed simp
  then show ?thesis by (simp add: json_parse_def del: parse_val.simps)
qed

lemma json_parse_defined: "json_parse s \<noteq> Some JUndef"
  using json_parse_wf [of s JUndef] by auto

lemma accepted_settings_object:
  assumes "isOptionalJsonObject (f_settings fd)"
  obtains p where "existing_settings fd = JObj p"
proof -
  have "\<exists>p. v = JObj p" if "isJsonObjectValue v" for v
    using that by (cases v) (auto simp: isJsonObjectValue_def)
  then have "\<exists>p. existing_settings fd = JObj p"
    using assms by (auto simp: isOptionalJsonObject_def parseOptionalJson_def existing_settings_def
        json_parse_blank json_parse_defined split: option.splits if_splits)
  then show thesis using that by blast
qed

lemma accepted_form:
  assumes "channelFormSchema_accepts url atob fd"
  obtains p where "existing_settings fd = JObj p"
    "f_type fd = CHANNEL_TYPE_ADVANCED_CUSTOM \<Longrightarrow> parseAdvancedCustomConfig_val (f_advanced_custom fd) \<noteq> None"
proof -
  have "isOptionalJsonObject (f_settings fd)"
    using assms by (simp add: channelFormSchema_accepts_def field_issues_def)
  then obtain p where p: "existing_settings fd = JObj p" by (rule accepted_settings_object)
  have "parseAdvancedCustomConfig_val (f_advanced_custom fd) \<noteq> None"
    if type: "f_type fd = CHANNEL_TYPE_ADVANCED_CUSTOM"
  proof (cases "parseAdvancedCustomConfig (f_advanced_custom fd)")
    case ParseNull
    then show ?thesis
      using assms type by (simp add: channelFormSchema_accepts_def super_issues_def Let_def advanced_issues_def
          validateAdvancedCustomConfig_def)
  next
    case (ParsedConfig c)
    then show ?thesis by (rule typed_config_val)
  next
    case IllTypedConfig
    then show ?thesis
      using assms type by (simp add: channelFormSchema_accepts_def super_issues_def Let_def)
  qed
  with p that show thesis by blast
qed

lemma setting_entries_ok:
  assumes "form_json_ok fd"
  shows "json_ok (JObj (setting_entries fd))"
proof -
  have "props_ordered (setting_entries fd)"
    by (simp add: setting_entries_def is_index_key_def js_def is_digit_def)
  moreover have "list_all (\<lambda>kv. str_ok (fst kv)) (setting_entries fd)" by (simp add: setting_entries_def)
  ultimately show ?thesis
    using assms by (auto simp: form_json_ok_def list_all_iff) (simp add: setting_entries_def props_ok_def props_keys_def)
qed

lemma setting_reread:
  assumes "form_json_ok fd" "ch_setting ch = Some (buildSettingJSON fd)"
  shows "setting_entries (transformChannelToFormDefaults ch) = setting_entries fd"
proof -
  have "stored_value (ch_setting ch) = JObj (setting_entries fd)"
    using assms json_round_trip [OF setting_entries_ok [OF assms(1)]] object_text [of "setting_entries fd"]
    by (auto simp: stored_value_def buildSettingJSON_def)
  then show ?thesis
    by (simp add: setting_entries_def transformChannelToFormDefaults_def Let_def prop_of_Cons val_or_def)
qed

definition sample_form :: ChannelFormValues where
  "sample_form = CHANNEL_FORM_DEFAULT_VALUES
     \<lparr>f_name := js ''a'', f_models := js ''m'', f_type := 41, f_other := Some (js ''us''),
      f_vertex_key_type := JStr (js ''api_key''), f_proxy := JStr (js ''p''),
      f_settings := Some (js ''{\"allow_speed\":true,\"kept\":[1]}'')\<rparr>"

lemma sample_form_valid: "channelFormSchema_accepts (\<lambda>_. None) None sample_form" "form_json_ok sample_form"
  by code_simp+

text \<open>C7: the \<^verbatim>\<open>settings\<close> column that a validated form saves is a JSON object whose properties are
  those of the table: the keys of the channel type with the values of the form, no key of another
  type, the keys of the upstream check for the types that have it, and every other key as it was.\<close>

theorem channel_settings_saved:
  assumes "channelFormSchema_accepts url atob fd" "form_json_ok fd"
  shows "\<exists>t p q. buildSettingsJSON fd = Some t \<and> existing_settings fd = JObj p \<and>
    json_parse t = Some (JObj q) \<and> props_get q = settings_table fd p"
proof -
  obtain p where p: "existing_settings fd = JObj p" using accepted_form [OF assms(1)] .
  then have "json_parse (json_stringify (JObj (settings_props fd p))) = Some (JObj (settings_props fd p))"
    using settings_props_ok [OF assms(2)] by (intro json_round_trip)
  then show ?thesis using p by (auto simp: buildSettingsJSON_def settings_props_table)
qed

theorem channel_settings_saved_witness:
  "\<exists>t p q. buildSettingsJSON sample_form = Some t \<and> existing_settings sample_form = JObj p \<and>
    json_parse t = Some (JObj q) \<and> props_get q = settings_table sample_form p"
  by (rule channel_settings_saved [OF sample_form_valid])

text \<open>C8: reopening a channel that a validated form saved shows every setting of its type, and the
  extra settings, with the values they were saved with; saving again without an edit sends the
  same two columns.\<close>

theorem channel_settings_reopen:
  assumes accepted: "channelFormSchema_accepts url atob fd" and ok: "form_json_ok fd"
    and ch: "ch_type ch = f_type fd" "ch_setting ch = Some (buildSettingJSON fd)"
      "buildSettingsJSON fd = Some (ch_settings ch)"
  shows "filter (\<lambda>(k, has, v). has) (type_settings (transformChannelToFormDefaults ch)) =
      filter (\<lambda>(k, has, v). has) (type_settings fd) \<and>
    setting_entries (transformChannelToFormDefaults ch) = setting_entries fd \<and>
    buildSettingsJSON (transformChannelToFormDefaults ch) = buildSettingsJSON fd \<and>
    buildSettingJSON (transformChannelToFormDefaults ch) = buildSettingJSON fd"
proof -
  let ?fd = "transformChannelToFormDefaults ch"
  obtain p where p: "existing_settings fd = JObj p"
    and adv: "f_type fd = CHANNEL_TYPE_ADVANCED_CUSTOM \<Longrightarrow> parseAdvancedCustomConfig_val (f_advanced_custom fd) \<noteq> None"
    using accepted_form [OF accepted] by blast
  define q where "q = settings_props fd p"
  have col: "ch_settings ch = json_stringify (JObj q)" using ch(3) p by (simp add: buildSettingsJSON_def q_def)
  have parse: "json_parse (ch_settings ch) = Some (JObj q)"
    unfolding col q_def by (intro json_round_trip settings_props_ok ok p)
  have stored: "stored_value (Some (ch_settings ch)) = JObj q"
    using parse col object_text [of q] by (auto simp: stored_value_def)
  have "json_parse (js ''{}'') = Some (JObj [])" by code_simp
  then have existing: "existing_settings ?fd = JObj q"
    using parse col object_text [of q]
    by (auto simp: existing_settings_def transformChannelToFormDefaults_def Let_def str_or_def)
  have table: "props_get q = settings_table fd p" by (simp add: q_def settings_props_table)
  have type: "f_type ?fd = f_type fd" using ch(1) by (simp add: transformChannelToFormDefaults_def Let_def)
  have config_ok: "json_ok c" if "parseAdvancedCustomConfig_val (f_advanced_custom fd) = Some c" for c
    using ok that by (simp add: form_json_ok_def)
  have "settings_props ?fd q = q"
    using reopened_type_settings(1) [OF table stored ch(1)] reopened_upstream [OF table stored ch(1)]
      reopened_advanced [OF table stored ch(1) adv config_ok] type
    by (intro settings_fixpoint) auto
  then have "buildSettingsJSON ?fd = Some (ch_settings ch)" by (simp add: buildSettingsJSON_def existing col)
  then show ?thesis
    using reopened_type_settings(2) [OF table stored ch(1)] setting_reread [OF ok ch(2)] ch(3)
    by (simp add: buildSettingJSON_def)
qed

definition sample_stored :: api_channel where
  "sample_stored =
     \<lparr>ch_id = JNull, ch_type = 41, ch_key = [], ch_status = Some 1, ch_name = js ''a'', ch_weight = None,
      ch_created_time = Fin 0, ch_test_time = Fin 0, ch_response_time = Fin 0, ch_balance = Fin 0,
      ch_balance_updated_time = Fin 0, ch_models = js ''m'', ch_group = js ''default'',
      ch_used_quota = Fin 0, ch_priority = None, ch_tag = None, ch_info = None,
      ch_openai_organization = None, ch_test_model = None, ch_base_url = None, ch_other = js ''us'',
      ch_model_mapping = None, ch_status_code_mapping = None, ch_auto_ban = None,
      ch_setting = Some (buildSettingJSON sample_form), ch_param_override = None,
      ch_header_override = None, ch_remark = [],
      ch_settings = js ''{\"kept\":[1],\"vertex_key_type\":\"api_key\"}'', ch_multi_key_mode = None\<rparr>"

theorem channel_settings_reopen_witness:
  "buildSettingsJSON (transformChannelToFormDefaults sample_stored) = buildSettingsJSON sample_form"
proof -
  have "buildSettingsJSON sample_form = Some (ch_settings sample_stored)" by code_simp
  moreover have "ch_type sample_stored = f_type sample_form"
    by (simp add: sample_stored_def sample_form_def)
  moreover have "ch_setting sample_stored = Some (buildSettingJSON sample_form)" by (simp add: sample_stored_def)
  ultimately show ?thesis using channel_settings_reopen [OF sample_form_valid] by blast
qed

subsection \<open>Payloads\<close>

text \<open>saving throws only when the settings text is JSON but neither an object nor an array, and
  never for a form that passes validation, neither on creation nor on update.\<close>

theorem valid_form_saves:
  assumes "channelFormSchema_accepts url atob fd"
  shows "transformFormDataToCreatePayload fd \<noteq> None \<and> transformFormDataToUpdatePayload fd n \<noteq> None"
proof -
  obtain p where "existing_settings fd = JObj p" using accepted_form [OF assms] .
  then show ?thesis
    by (simp add: transformFormDataToCreatePayload_def transformFormDataToUpdatePayload_def buildSettingsJSON_def Let_def)
qed

theorem valid_form_saves_witness: "transformFormDataToUpdatePayload sample_form 7 \<noteq> None"
  using valid_form_saves [OF sample_form_valid(1)] by blast

lemma empty_to_null_get:
  "props_get (empty_to_null p) k = map_option (\<lambda>v. if v = JStr [] then JNull else v) (props_get p k)"
  by (simp add: empty_to_null_def props_get_def map_of_map)

lemma base_url_no_slash: "normalizeBaseUrl v = [] \<or> last (normalizeBaseUrl v) \<noteq> 47"
  using hd_dropWhile [of "\<lambda>c. c = 47" "rev (trim (or_str v []))"]
  by (cases "normalizeBaseUrl v = []") (simp_all add: normalizeBaseUrl_def last_rev)

text \<open>the update of a channel carries a key exactly when a non-blank one was typed, so an
  untouched key is never overwritten; every clearable field is sent as a string, the empty one
  included, never as null; the base URL does not end with a slash.\<close>

theorem update_payload_exact:
  assumes "transformFormDataToUpdatePayload fd n = Some p"
  shows "props_get p (js ''key'') = (if trim (f_key fd) = [] then None else Some (JStr (f_key fd))) \<and>
    map (props_get p) (map js [''openai_organization'', ''test_model'', ''tag'', ''remark'', ''model_mapping'',
        ''status_code_mapping'', ''param_override'', ''header_override'']) =
      map (\<lambda>v. Some (JStr (or_str v []))) [f_openai_organization fd, f_test_model fd, f_tag fd, f_remark fd,
        f_model_mapping fd, f_status_code_mapping fd, f_param_override fd, f_header_override fd] \<and>
    (\<exists>u. props_get p (js ''base_url'') = Some (JStr u) \<and> (u = [] \<or> last u \<noteq> 47))"
proof -
  have get: "props_get (foldl (\<lambda>acc kv. props_set acc (fst kv) (snd kv)) q as) k =
      (case map_of (rev as) k of Some v \<Rightarrow> Some v | None \<Rightarrow> props_get q k)" for q as k
    by (induction as arbitrary: q) (auto simp: map_add_def split: option.splits)
  obtain t where t: "buildSettingsJSON fd = Some t"
    using assms by (auto simp: transformFormDataToUpdatePayload_def split: option.splits)
  note p = assms [unfolded transformFormDataToUpdatePayload_def t option.case Let_def props_assign_def option.inject]
  have "props_get p (js ''key'') = (if trim (f_key fd) = [] then None else Some (JStr (f_key fd)))"
    unfolding p [symmetric] get empty_to_null_get by (auto simp: props_get_def)
  moreover have "props_get p (js ''base_url'') = Some (JStr (normalizeBaseUrl (f_base_url fd)))"
    unfolding p [symmetric] get by simp
  ultimately show ?thesis
    using base_url_no_slash [of "f_base_url fd"] unfolding p [symmetric] get by simp
qed

lemma sample_existing: "existing_settings sample_form = JObj [(js ''allow_speed'', JBool True), (js ''kept'', JArr [JNum (Fin 1)])]"
  by code_simp

theorem update_payload_exact_witness:
  "\<exists>p. transformFormDataToUpdatePayload sample_form 7 = Some p \<and> props_get p (js ''key'') = None"
proof -
  obtain p where p: "transformFormDataToUpdatePayload sample_form 7 = Some p"
    by (cases "transformFormDataToUpdatePayload sample_form 7")
      (simp_all add: transformFormDataToUpdatePayload_def buildSettingsJSON_def sample_existing Let_def)
  moreover have "trim (f_key sample_form) = []" by (simp add: sample_form_def CHANNEL_FORM_DEFAULT_VALUES_def)
  ultimately show ?thesis using update_payload_exact [OF p] by auto
qed

subsection \<open>Observations\<close>

text \<open>Changing the type of a channel to one that is not checked upstream leaves the flags of the
  check in the settings.\<close>

lemma upstream_flags_stay:
  assumes "f_type fd \<notin> set MODEL_FETCHABLE_TYPES" "k \<in> set (map fst (upstream_table fd p))"
  shows "settings_table fd p k = props_get p k"
  using assms(1) upstream_key_own [OF assms(2)] by (simp add: settings_table_def)

lemma loose_status_keys: "isOptionalStatusCodeMapping (Some (js ''{\"1e2\":[500],\" 404 \":\"0x1f4\"}''))"
  by code_simp

lemma remark_of_255: "field_issues (sample_form\<lparr>f_remark := Some (replicate 255 97)\<rparr>) = []"
  by code_simp

lemma null_settings_throw: "buildSettingsJSON (sample_form\<lparr>f_settings := Some (js ''null'')\<rparr>) = None"
  by code_simp

end
