(* ===== verification/TierExpr.thy ===== *)
theory TierExpr
  imports BillingExpr
begin

text \<open>
  The tiers of a billing expression: the parser that the price displays use
  (\<^verbatim>\<open>parseTiersFromExpr\<close> of \<^verbatim>\<open>features/pricing/lib/billing-expr.ts\<close>) and the visual tier editor
  (\<^verbatim>\<open>features/pricing/lib/tier-expr.ts\<close>), which prints a list of tiers as an expression and reads an
  expression back. Both parsers run a global regular expression in a loop; a match of the empty
  string would leave its position unchanged and the loop would not end, so the loop is a partial
  function whose value is \<open>None\<close> when it does not return. \<^verbatim>\<open>evalExprLocally\<close> evaluates JavaScript
  source and is not modelled.
\<close>

subsection \<open>Global matching\<close>

text \<open>\<^verbatim>\<open>while ((m = re.exec(s)) !== null)\<close> from the suffix \<open>t\<close> of \<open>s\<close> on: the captures of the matches.\<close>

partial_function (option) exec_all :: "jsstring \<Rightarrow> rx \<Rightarrow> jsstring \<Rightarrow> captures list option" where
  "exec_all s r t =
     (case rx_search s r t of
        None \<Rightarrow> Some []
      | Some (t', cs) \<Rightarrow> Option.bind (exec_all s r t') (\<lambda>ms. Some (cs # ms)))"

declare exec_all.simps [code]

text \<open>The number of units that every match takes at least.\<close>

fun rx_min :: "rx \<Rightarrow> nat" where
  "rx_min (Lit l) = length l"
| "rx_min (Cls P) = 1"
| "rx_min (Seq a b) = rx_min a + rx_min b"
| "rx_min (Alt a b) = min (rx_min a) (rx_min b)"
| "rx_min (Cap k a) = rx_min a"
| "rx_min _ = 0"

lemma rx_min_run: "(t', cs') \<in> set (rx_run s r (t, cs)) \<Longrightarrow> length t' + rx_min r \<le> length t"
proof (induction r arbitrary: t cs t' cs')
  case (Lit l)
  then show ?case by (auto simp: rx_Lit)
next
  case (Cls P)
  then show ?case by (auto simp: rx_Cls)
next
  case (Seq a b)
  then obtain t1 cs1 where "(t1, cs1) \<in> set (rx_run s a (t, cs))" "(t', cs') \<in> set (rx_run s b (t1, cs1))"
    by (auto simp: rx_Seq)
  with Seq.IH show ?case by fastforce
next
  case (Alt a b)
  then show ?case by (fastforce simp: rx_Alt)
next
  case (Star r)
  have "suffix t' t" using rx_run_suffix [OF Star.prems] by simp
  then show ?case by (auto simp: suffix_def)
next
  case (Cap k r)
  then show ?case by (auto simp: rx_Cap)
next
  case (Backref k)
  then show ?case by (auto simp: rx_Backref)
qed (auto simp: rx_run.simps split: if_splits)

lemma rx_search_min: "rx_search s r t = Some (t', cs) \<Longrightarrow> length t' + rx_min r \<le> length t"
proof (induction t)
  case Nil
  then have "(t', cs) \<in> set (rx_run s r ([], []))" by (auto split: list.splits)
  then show ?case using rx_min_run by fastforce
next
  case (Cons c t)
  show ?case
  proof (cases "rx_run s r (c # t, [])")
    case Nil
    then show ?thesis using Cons by simp
  next
    case (Cons st sts)
    then have "(t', cs) \<in> set (rx_run s r (c # t, []))" using Cons.prems by simp
    then show ?thesis using rx_min_run by fastforce
  qed
qed

lemma exec_all_returns:
  assumes "0 < rx_min r"
  shows "\<exists>ms. exec_all s r t = Some ms \<and> length ms \<le> length t"
proof (induction t rule: length_induct)
  case (1 t)
  show ?case
  proof (cases "rx_search s r t")
    case None
    then show ?thesis by (subst exec_all.simps) simp
  next
    case (Some st)
    obtain t' cs where st: "st = (t', cs)" by (cases st)
    then have "length t' < length t" using rx_search_min [of s r t t' cs] Some assms by simp
    with 1 obtain ms where "exec_all s r t' = Some ms" "length ms \<le> length t'" by blast
    with Some st \<open>length t' < length t\<close> show ?thesis by (subst exec_all.simps) simp
  qed
qed

subsection \<open>Expressions of the parsers\<close>

definition ws :: rx where
  "ws = Star (Cls is_ws)"

text \<open>\<^verbatim>\<open>[\d.eE+]\<close>, the units of a bound; those of a price, \<open>num_unit\<close>, include the minus sign.\<close>

definition bound_unit :: "int \<Rightarrow> bool" where
  "bound_unit c \<longleftrightarrow> is_digit c \<or> c = 46 \<or> c = 101 \<or> c = 69 \<or> c = 43"

definition version_rx :: rx where
  "version_rx = seqs [Bol, lit ''v'', Cap 1 (Plus (Cls is_digit)), lit '':'', Cap 2 (Star (Cls (\<lambda>_. True))), Eol]"

definition compare_rx :: rx where
  "compare_rx = alts [lit ''<'', lit ''<='', lit ''>'', lit ''>='']"

definition BILLING_VAR_REGEX :: rx where
  "BILLING_VAR_REGEX =
     seqs [WordB, Cap 1 (alts (map (\<lambda>v. Lit (bv_key v)) BILLING_PRICING_VARS)), ws, lit ''*'', ws,
           Cap 2 num_rx]"

definition BILLING_VAR_KEY_TO_FIELD :: "(jsstring \<times> jsstring) list" where
  "BILLING_VAR_KEY_TO_FIELD = map (\<lambda>v. (bv_key v, the (bv_field v))) BILLING_PRICING_VARS"

definition BILLING_CACHE_VAR_MAP :: "(jsstring \<times> jsstring) list" where
  "BILLING_CACHE_VAR_MAP = map (\<lambda>v. (the (tierField v), bv_key v)) BILLING_EXTRA_VARS"

text \<open>The captures start at group \<open>k\<close>.\<close>

definition call_rx :: "nat \<Rightarrow> rx" where
  "call_rx k = Opt (seqs [lit ''call'', ws, lit ''('', ws, Cap k num_rx, ws, lit '')'',
     Opt (seqs [ws, lit ''+'', ws])])"

definition cache_rx :: "nat \<Rightarrow> jsstring \<Rightarrow> rx" where
  "cache_rx k v = Opt (seqs [ws, lit ''+'', ws, Lit v, ws, lit ''*'', ws, Cap k num_rx])"

definition token_rx :: "nat \<Rightarrow> rx" where
  "token_rx k = Opt (seqs ([lit ''p'', ws, lit ''*'', ws, Cap k num_rx, ws, lit ''+'', ws,
     lit ''c'', ws, lit ''*'', ws, Cap (k + 1) num_rx] @
     map (\<lambda>(i, v). cache_rx (k + 2 + i) v)
       (zip [0..<length BILLING_CACHE_VAR_MAP] (map snd BILLING_CACHE_VAR_MAP))))"

definition label_rx :: "nat \<Rightarrow> rx" where
  "label_rx k = seqs [lit ''tier(\"'', Cap k (Star (Cls (\<lambda>c. c \<noteq> 34))), lit ''\",'', ws]"

definition singleRe :: rx where
  "singleRe = seqs [Bol, label_rx 1, call_rx 2, token_rx 3, lit '')'', Eol]"

definition cond_list_rx :: "rx \<Rightarrow> rx" where
  "cond_list_rx var =
     (let one = seqs [var, ws, compare_rx, ws, Plus (Cls bound_unit)]
      in Cap 1 (seqs [one, Star (seqs [ws, lit ''&&'', ws, one])]))"

definition visual_var_rx :: rx where
  "visual_var_rx = alts [lit ''p'', lit ''c'', lit ''len'']"

definition visual_tierRe :: rx where
  "visual_tierRe = seqs [Opt (seqs [cond_list_rx visual_var_rx, ws, lit ''?'', ws]),
     label_rx 2, call_rx 3, token_rx 4, lit '')'']"

definition tier_var_rx :: rx where
  "tier_var_rx = alts [seqs [lit ''len'', ws, lit ''+'', ws, lit ''c''], lit ''p'', lit ''c'', lit ''len'']"

definition tierRe :: rx where
  "tierRe = seqs [Opt (seqs [alts [Bol, lit '':''], ws, cond_list_rx tier_var_rx, ws, lit ''?'', ws]),
     label_rx 2,
     Cap 3 (Plus (alts [Plus (Cls (\<lambda>c. c \<noteq> 40 \<and> c \<noteq> 41)),
       seqs [lit ''call'', ws, lit ''('', ws, num_rx, ws, lit '')'']])),
     lit '')'']"

text \<open>\<^verbatim>\<open>s.split(/\s*&&\s*/)\<close> with every piece trimmed: the white space around a separator is cut
  either way.\<close>

fun split_and :: "jsstring \<Rightarrow> jsstring list" where
  "split_and [] = [[]]"
| "split_and (c # s) =
     (if c = 38 \<and> s \<noteq> [] \<and> hd s = 38 then [] # split_and (tl s)
      else (case split_and s of [] \<Rightarrow> [[c]] | p # ps \<Rightarrow> (c # p) # ps))"

subsection \<open>Tiers for display\<close>

record tier_condition =
  tc_var :: jsstring
  tc_op :: jsstring
  tc_value :: jsval

record parsed_tier =
  pt_label :: jsstring
  pt_conditions :: "tier_condition list"
  pt_prices :: "(jsstring \<times> jsnum) list"
  pt_per_call_cost :: jsnum

definition stripExprVersion :: "jsstring \<Rightarrow> jsnum \<times> jsstring" where
  "stripExprVersion exprStr =
     (if exprStr = [] then (Fin 1, [])
      else case rx_match version_rx exprStr of
             Some m \<Rightarrow> (str_to_num (grp m 1), grp m 2)
           | None \<Rightarrow> (Fin 1, exprStr))"

definition add_coeff :: "jsnum props \<Rightarrow> captures \<Rightarrow> jsnum props" where
  "add_coeff coeffs m =
     (if grp m 1 \<in> set (props_keys coeffs) then coeffs else props_set coeffs (grp m 1) (str_to_num (grp m 2)))"

definition num_or_0 :: "jsnum \<Rightarrow> jsnum" where
  "num_or_0 n = (if num_truthy n then n else Fin 0)"

definition call_cost_rx :: rx where
  "call_cost_rx = seqs [lit ''call'', ws, lit ''('', ws, Cap 1 num_rx, ws, lit '')'']"

text \<open>The prices in the order of the registry, and the cost per call; \<open>None\<close> if the loop does not end.\<close>

definition parseTierBody :: "jsstring \<Rightarrow> ((jsstring \<times> jsnum) list \<times> jsnum) option" where
  "parseTierBody bodyStr =
     Option.bind (exec_all bodyStr BILLING_VAR_REGEX bodyStr) (\<lambda>ms.
       let coeffs = foldl add_coeff [] ms
       in Some (map (\<lambda>(varName, field). (field, case props_get coeffs varName of Some x \<Rightarrow> num_or_0 x | None \<Rightarrow> Fin 0))
                  BILLING_VAR_KEY_TO_FIELD,
                case rx_match call_cost_rx bodyStr of Some m \<Rightarrow> str_to_num (grp m 1) | None \<Rightarrow> Fin 0))"

definition condition_rx :: "rx \<Rightarrow> rx" where
  "condition_rx var = seqs [Bol, Cap 1 var, ws, Cap 2 compare_rx, ws, Cap 3 (Plus (Cls bound_unit)), Eol]"

definition parse_conditions :: "rx \<Rightarrow> jsstring \<Rightarrow> tier_condition list" where
  "parse_conditions var condStr =
     (if condStr = [] then []
      else concat (map (\<lambda>cp. case rx_match (condition_rx var) (trim cp) of
             Some cm \<Rightarrow> [\<lparr>tc_var = filter (\<lambda>c. \<not> is_ws c) (grp cm 1), tc_op = grp cm 2,
                          tc_value = JNum (str_to_num (grp cm 3))\<rparr>]
           | None \<Rightarrow> []) (split_and condStr)))"

fun option_seq :: "'a option list \<Rightarrow> 'a list option" where
  "option_seq [] = Some []"
| "option_seq (x # xs) = Option.bind x (\<lambda>y. Option.bind (option_seq xs) (\<lambda>ys. Some (y # ys)))"

definition tier_of_match :: "captures \<Rightarrow> parsed_tier option" where
  "tier_of_match m =
     Option.bind (parseTierBody (grp m 3)) (\<lambda>(prices, call).
       Some \<lparr>pt_label = grp m 2, pt_conditions = parse_conditions tier_var_rx (grp m 1),
             pt_prices = prices, pt_per_call_cost = call\<rparr>)"

definition parseTiersFromExpr :: "jsstring \<Rightarrow> parsed_tier list option" where
  "parseTiersFromExpr exprStr =
     (if exprStr = [] then Some []
      else let body = snd (stripExprVersion exprStr)
           in Option.bind (exec_all body tierRe body) (\<lambda>ms. option_seq (map tier_of_match ms)))"

text \<open>The label under which a tier of the expression is matched with one of the settings: comparison
  signs, full-width ones included, lose their equals sign, white space goes, and case conversion is
  \<open>lower\<close>, the \<^verbatim>\<open>toLowerCase\<close> of the engine.\<close>

fun fold_signs :: "int list \<Rightarrow> int list \<Rightarrow> int \<Rightarrow> jsstring \<Rightarrow> jsstring" where
  "fold_signs signs single out [] = []"
| "fold_signs signs single out (c # s) =
     (if c \<in> set signs then out # (if s \<noteq> [] \<and> hd s \<in> {61, 65309} then fold_signs signs single out (tl s)
                                   else fold_signs signs single out s)
      else if c \<in> set single then out # fold_signs signs single out s
      else c # fold_signs signs single out s)"

definition normalizeTierLabel :: "(jsstring \<Rightarrow> jsstring) \<Rightarrow> jsstring option \<Rightarrow> jsstring" where
  "normalizeTierLabel lower label =
     (case label of
        None \<Rightarrow> []
      | Some l \<Rightarrow> if l = [] then []
                 else lower (filter (\<lambda>c. \<not> is_ws c)
                        (fold_signs [62, 65310] [8805] 62 (fold_signs [60, 65308] [8804] 60 l))))"

subsection \<open>The visual editor\<close>

text \<open>A tier of the editor; a property that is absent is \<open>None\<close> or \<open>JUndef\<close>. \<open>vt_extra\<close> holds the
  seven further prices by field name.\<close>

record visual_tier =
  vt_label :: "jsstring option"
  vt_conditions :: "tier_condition list option"
  vt_input :: jsval
  vt_output :: jsval
  vt_call :: jsval
  vt_cache_mode :: "jsstring option"
  vt_extra :: "jsval props"

definition CACHE_MODE_TIMED :: jsstring where "CACHE_MODE_TIMED = js ''timed''"
definition CACHE_MODE_GENERIC :: jsstring where "CACHE_MODE_GENERIC = js ''generic''"

definition getTierCacheMode :: "visual_tier option \<Rightarrow> jsstring" where
  "getTierCacheMode tier =
     (case tier of
        None \<Rightarrow> CACHE_MODE_GENERIC
      | Some t \<Rightarrow>
          if vt_cache_mode t = Some CACHE_MODE_TIMED then CACHE_MODE_TIMED
          else if vt_cache_mode t = Some CACHE_MODE_GENERIC then CACHE_MODE_GENERIC
          else if num_lt (Fin 0) (to_number (val_at (vt_extra t) (js ''cache_create_1h_unit_cost'')))
          then CACHE_MODE_TIMED else CACHE_MODE_GENERIC)"

definition number_or_0 :: "jsval \<Rightarrow> jsnum" where
  "number_or_0 v = num_or_0 (to_number v)"

text \<open>\<^verbatim>\<open>...tier\<close> stands after the first five properties and before the others: it restores whatever
  the tier has of the first five.\<close>

definition normalizeVisualTier :: "visual_tier \<Rightarrow> visual_tier" where
  "normalizeVisualTier tier =
     \<lparr>vt_label = Some (case vt_label tier of Some l \<Rightarrow> l | None \<Rightarrow> []),
      vt_conditions = Some (case vt_conditions tier of Some cs \<Rightarrow> cs | None \<Rightarrow> []),
      vt_input = (if vt_input tier = JUndef then JNum (number_or_0 JUndef) else vt_input tier),
      vt_output = (if vt_output tier = JUndef then JNum (number_or_0 JUndef) else vt_output tier),
      vt_call = JNum (number_or_0 (vt_call tier)),
      vt_cache_mode = Some (case vt_cache_mode tier of Some m \<Rightarrow> m | None \<Rightarrow> getTierCacheMode (Some tier)),
      vt_extra = map (\<lambda>cv. (fst cv, JNum (number_or_0 (val_at (vt_extra tier) (fst cv))))) BILLING_CACHE_VAR_MAP\<rparr>"

definition createDefaultVisualConfig :: "visual_tier list" where
  "createDefaultVisualConfig =
     [normalizeVisualTier
        \<lparr>vt_label = Some (js ''base''), vt_conditions = Some [], vt_input = JNum (Fin 0),
         vt_output = JNum (Fin 0), vt_call = JNum (Fin 0), vt_cache_mode = Some CACHE_MODE_GENERIC,
         vt_extra = []\<rparr>]"

definition normalizeVisualConfig :: "visual_tier list option \<Rightarrow> visual_tier list" where
  "normalizeVisualConfig config =
     (case config of
        None \<Rightarrow> createDefaultVisualConfig
      | Some tiers \<Rightarrow> if length tiers = 0 then createDefaultVisualConfig else map normalizeVisualTier tiers)"

definition buildConditionStr :: "tier_condition list option \<Rightarrow> jsstring" where
  "buildConditionStr conds =
     (case conds of
        None \<Rightarrow> []
      | Some cs \<Rightarrow>
          join (js '' && '')
            (map (\<lambda>c. tc_var c @ js '' '' @ tc_op c @ js '' '' @ to_str (tc_value c))
              (filter (\<lambda>c. tc_var c \<noteq> [] \<and> tc_op c \<noteq> [] \<and> tc_value c \<noteq> JUndef \<and> tc_value c \<noteq> JNull \<and>
                           tc_value c \<noteq> JStr []) cs)))"

definition not_zero :: "jsnum \<Rightarrow> bool" where
  "not_zero x \<longleftrightarrow> \<not> num_eq x (Fin 0)"

definition price_term :: "jsstring \<Rightarrow> jsnum \<Rightarrow> jsstring" where
  "price_term v x = v @ js '' * '' @ num_to_str x"

definition buildTierBodyExpr :: "visual_tier \<Rightarrow> jsstring" where
  "buildTierBodyExpr tier =
     (let pc = number_or_0 (vt_call tier);
          callPart = (if not_zero pc then [js ''call('' @ num_to_str pc @ js '')''] else []);
          ic = number_or_0 (vt_input tier);
          oc = number_or_0 (vt_output tier);
          hasTokenTerms = (not_zero ic \<or> not_zero oc \<or>
            list_ex (\<lambda>cv. not_zero (to_number (val_or (val_at (vt_extra tier) (fst cv)) (JNum (Fin 0))))) BILLING_CACHE_VAR_MAP)
      in join (js '' + '')
           (callPart @
            (if hasTokenTerms \<or> callPart = []
             then [price_term (js ''p'') ic, price_term (js ''c'') oc] @
                  concat (map (\<lambda>cv. let v = number_or_0 (val_at (vt_extra tier) (fst cv))
                                    in if not_zero v then [price_term (snd cv) v] else []) BILLING_CACHE_VAR_MAP)
             else [])))"

definition tier_call :: "jsstring \<Rightarrow> visual_tier \<Rightarrow> jsstring" where
  "tier_call label tier = js ''tier(\"'' @ label @ js ''\", '' @ buildTierBodyExpr tier @ js '')''"

fun tier_parts :: "nat \<Rightarrow> visual_tier list \<Rightarrow> jsstring list" where
  "tier_parts i [] = []"
| "tier_parts i (tier # tiers) =
     (let body = tier_call (or_str (vt_label tier) (js ''tier_'' @ dec_str (int i + 1))) tier;
          cond = buildConditionStr (vt_conditions tier)
      in (if tiers \<noteq> [] \<and> cond \<noteq> [] then cond @ js '' ? '' @ body else body) # tier_parts (Suc i) tiers)"

definition generateExprFromVisualConfig :: "visual_tier list option \<Rightarrow> jsstring" where
  "generateExprFromVisualConfig config =
     (case config of
        None \<Rightarrow> js ''p * 0 + c * 0''
      | Some [] \<Rightarrow> js ''p * 0 + c * 0''
      | Some [tier] \<Rightarrow>
          (let body = tier_call (or_str (vt_label tier) (js ''default'')) tier;
               cond = buildConditionStr (vt_conditions tier)
           in if cond \<noteq> [] then cond @ js '' ? '' @ body @ js '' : p * 0 + c * 0'' else body)
      | Some tiers \<Rightarrow> join (js '' : '') (tier_parts 0 tiers))"

definition strip_ws :: "jsstring \<Rightarrow> jsstring" where
  "strip_ws s = filter (\<lambda>c. \<not> is_ws c) s"

definition opt_number :: "captures \<Rightarrow> nat \<Rightarrow> jsval" where
  "opt_number m k = JNum (case map_of m k of Some w \<Rightarrow> str_to_num w | None \<Rightarrow> Fin 0)"

text \<open>The tier of a match: label in group \<open>l\<close>, cost per call in \<open>l + 1\<close>, prices from \<open>l + 2\<close> on.\<close>

definition visual_of_match :: "nat \<Rightarrow> tier_condition list \<Rightarrow> captures \<Rightarrow> visual_tier" where
  "visual_of_match l conds m =
     \<lparr>vt_label = Some (grp m l), vt_conditions = Some conds,
      vt_input = opt_number m (l + 2), vt_output = opt_number m (l + 3), vt_call = opt_number m (l + 1),
      vt_cache_mode = None,
      vt_extra = concat (map (\<lambda>(i, field). case map_of m (l + 4 + i) of
          Some w \<Rightarrow> [(field, JNum (str_to_num w))] | None \<Rightarrow> [])
        (zip [0..<length BILLING_CACHE_VAR_MAP] (map fst BILLING_CACHE_VAR_MAP)))\<rparr>"

definition has_body :: "nat \<Rightarrow> captures \<Rightarrow> bool" where
  "has_body l m \<longleftrightarrow> map_of m (l + 1) \<noteq> None \<or> map_of m (l + 2) \<noteq> None"

definition visual_tiers :: "captures list \<Rightarrow> visual_tier list" where
  "visual_tiers ms =
     map (\<lambda>m. normalizeVisualTier (visual_of_match 2 (parse_conditions visual_var_rx (grp m 1)) m))
       (filter (has_body 2) ms)"

definition visual_body :: "jsstring \<Rightarrow> jsstring" where
  "visual_body exprStr = (case rx_match version_rx exprStr of Some m \<Rightarrow> grp m 2 | None \<Rightarrow> exprStr)"

definition visual_from_matches :: "jsstring \<Rightarrow> visual_tier list option option" where
  "visual_from_matches body =
     Option.bind (exec_all body visual_tierRe body) (\<lambda>ms.
       let tiers = visual_tiers ms
       in if tiers = [] then Some None
          else let cfg = normalizeVisualConfig (Some tiers)
               in Some (if strip_ws (generateExprFromVisualConfig (Some cfg)) \<noteq> strip_ws body then None else Some cfg))"

text \<open>The outer \<open>None\<close> is a loop that does not end, the inner one is null.\<close>

definition tryParseVisualConfig :: "jsstring option \<Rightarrow> visual_tier list option option" where
  "tryParseVisualConfig exprStr =
     (case exprStr of
        None \<Rightarrow> Some None
      | Some s \<Rightarrow>
          if s = [] then Some None
          else let body = visual_body s
               in (case rx_match singleRe body of
                     Some simple \<Rightarrow>
                       if has_body 1 simple
                       then Some (Some (normalizeVisualConfig (Some [normalizeVisualTier (visual_of_match 1 [] simple)])))
                       else visual_from_matches body
                   | None \<Rightarrow> visual_from_matches body))"


definition ESTIMATOR_VARS :: "(jsstring \<times> jsstring) list" where
  "ESTIMATOR_VARS = map (\<lambda>(v, k). (js v, js k))
     [(''cr'', ''cacheReadTokens''), (''cc'', ''cacheCreateTokens''), (''cc1h'', ''cacheCreate1hTokens''),
      (''img'', ''imageTokens''), (''img_o'', ''imageOutputTokens''), (''ai'', ''audioInputTokens''),
      (''ao'', ''audioOutputTokens'')]"

definition exprUsesExtraVars :: "jsstring \<Rightarrow> bool" where
  "exprUsesExtraVars exprStr =
     (if exprStr = [] then False
      else rx_test (seqs [WordB, Cap 1 (alts (map (\<lambda>f. Lit (fst f)) ESTIMATOR_VARS)), WordB]) exprStr)"

end
