(* ===== verification/TierRoundTrip.thy ===== *)
theory TierRoundTrip
  imports TierExpr
begin

text \<open>
  The tier parsers end on every input; what the visual editor reads back from its own text; and
  when the text it prints differs from the one it read.

  To match an expression against a text that is laid out like it, the parts of the expression are
  taken as a list of continuations: \<open>acc s rs st cs\<close> says that the parts match one after the other
  from the state \<open>st\<close> on and end with the captures \<open>cs\<close>. Its equations compute on texts whose
  units are known, so a match and its uniqueness are found by rewriting.
\<close>

subsection \<open>Termination\<close>

lemma rx_min_positive:
  "0 < rx_min tierRe" "0 < rx_min visual_tierRe" "0 < rx_min BILLING_VAR_REGEX"
  by code_simp+

lemma exec_all_some: "0 < rx_min r \<Longrightarrow> \<exists>ms. exec_all s r t = Some ms"
  using exec_all_returns by blast

lemma option_seq_some:
  assumes "\<And>x. x \<in> set xs \<Longrightarrow> x \<noteq> None"
  shows "\<exists>ys. option_seq xs = Some ys \<and> length ys = length xs"
  using assms
proof (induction xs)
  case (Cons x xs)
  then obtain ys where "option_seq xs = Some ys" "length ys = length xs" by auto
  moreover obtain y where "x = Some y" using Cons.prems by (cases x) auto
  ultimately show ?case by simp
qed simp

lemma parse_tier_body_returns: "parseTierBody b \<noteq> None"
  using exec_all_some [OF rx_min_positive(3), of b b] by (auto simp: parseTierBody_def Let_def)

lemma tier_of_match_returns: "tier_of_match m \<noteq> None"
  using parse_tier_body_returns [of "grp m 3"] by (auto simp: tier_of_match_def)

lemma rx_search_suffix: "rx_search s r t = Some (t', cs) \<Longrightarrow> length t' \<le> length t"
  using rx_search_min by fastforce

lemma length_body: "length (snd (stripExprVersion s)) \<le> length s"
proof -
  have "length (grp m 2) \<le> length s" if match: "rx_match version_rx s = Some m" for m
  proof -
    obtain t where "(t, m) \<in> set (rx_run s (seqs [lit ''v'', Cap 1 (Plus (Cls is_digit)), lit '':'',
        Cap 2 (Star (Cls (\<lambda>_. True))), Eol]) (s, []))"
      using rx_match_in [of _ s m] match unfolding version_rx_def seqs.simps by blast
    then obtain w where "map_of m 2 = Some w" "length w \<le> length s"
      by (auto simp: seqs.simps rx_rel lit_def)
    then show ?thesis by (simp add: grp_def)
  qed
  then show ?thesis by (auto simp: stripExprVersion_def split: option.splits)
qed

lemma parseTiersFromExpr_returns: "\<exists>tiers. parseTiersFromExpr s = Some tiers \<and> length tiers \<le> length s"
proof -
  let ?b = "snd (stripExprVersion s)"
  obtain ms where ms: "exec_all ?b tierRe ?b = Some ms" "length ms \<le> length ?b"
    using exec_all_returns [OF rx_min_positive(1)] by blast
  obtain ts where ts: "option_seq (map tier_of_match ms) = Some ts" "length ts = length ms"
    using option_seq_some [of "map tier_of_match ms"] tier_of_match_returns by auto
  show ?thesis
    using ms ts length_body [of s] by (auto simp: parseTiersFromExpr_def Let_def)
qed

text \<open>C11: the loops of the tier parsers end on every text: the parser for display returns at most one
  tier per unit of the text, the parser of the visual editor returns a configuration or null.\<close>

theorem tier_parsers_return:
  "(\<exists>tiers. parseTiersFromExpr s = Some tiers \<and> length tiers \<le> length s) \<and>
   (\<exists>config. tryParseVisualConfig v = Some config)"
proof (intro conjI parseTiersFromExpr_returns)
  have "\<exists>c. visual_from_matches b = Some c" for b
    using exec_all_some [OF rx_min_positive(2), of b b] by (auto simp: visual_from_matches_def Let_def)
  then show "\<exists>config. tryParseVisualConfig v = Some config"
    by (auto simp: tryParseVisualConfig_def Let_def split: option.splits)
qed

subsection \<open>What the editor shows is what the text says\<close>

text \<open>an expression that is not a single unconditional tier is shown in the visual editor only
  when the tiers shown print back to it, up to white space.\<close>

theorem visual_config_sound:
  assumes "tryParseVisualConfig (Some s) = Some (Some config)" "rx_match singleRe (visual_body s) = None"
  shows "strip_ws (generateExprFromVisualConfig (Some config)) = strip_ws (visual_body s)"
proof -
  have "visual_from_matches (visual_body s) = Some (Some config)"
    using assms by (simp add: tryParseVisualConfig_def Let_def split: if_splits)
  moreover obtain ms where "exec_all (visual_body s) visual_tierRe (visual_body s) = Some ms"
    using exec_all_some [OF rx_min_positive(2)] by blast
  ultimately show ?thesis by (auto simp: visual_from_matches_def Let_def split: if_splits)
qed

definition sample_tiers_text :: jsstring where
  "sample_tiers_text = js ''len < 5 ? tier(\"a\", p * 1 + c * 3) : tier(\"b\", call(2))''"

theorem visual_config_sound_witness:
  "\<exists>config. tryParseVisualConfig (Some sample_tiers_text) = Some (Some config) \<and>
     strip_ws (generateExprFromVisualConfig (Some config)) = strip_ws (visual_body sample_tiers_text)"
proof -
  have none: "rx_match singleRe (visual_body sample_tiers_text) = None" by code_simp
  have "case tryParseVisualConfig (Some sample_tiers_text) of Some (Some c) \<Rightarrow> True | _ \<Rightarrow> False" by code_simp
  then obtain config where config: "tryParseVisualConfig (Some sample_tiers_text) = Some (Some config)"
    by (auto split: option.splits)
  then show ?thesis using visual_config_sound [OF config none] by blast
qed

subsection \<open>Matching part by part\<close>

fun acc :: "jsstring \<Rightarrow> rx list \<Rightarrow> jsstring \<times> captures \<Rightarrow> captures \<Rightarrow> bool" where
  "acc s [] st cs = (snd st = cs)"
| "acc s (r # rs) st cs = (\<exists>st'\<in>set (rx_run s r st). acc s rs st' cs)"

lemma acc_Seq [rx_rel]: "acc s (Seq a b # rs) st cs \<longleftrightarrow> acc s (a # b # rs) st cs"
  by (simp add: rx_run.simps)

lemma acc_Opt: "acc s (Opt a # rs) st cs \<longleftrightarrow> acc s (a # rs) st cs \<or> acc s rs st cs"
  by (auto simp: rx_Opt)

lemma acc_Lit_Cons: "acc s (Lit (l # ls) # rs) (x # t, cs0) cs \<longleftrightarrow> l = x \<and> acc s (Lit ls # rs) (t, cs0) cs"
  by (auto simp: rx_run.simps)

lemma acc_Lit_Nil: "acc s (Lit (l # ls) # rs) ([], cs0) cs \<longleftrightarrow> False" "acc s (Lit [] # rs) st cs \<longleftrightarrow> acc s rs st cs"
  by (simp_all add: rx_run.simps)

lemma acc_Lit_app: "acc s (Lit l # rs) (l @ t, cs0) cs \<longleftrightarrow> acc s rs (t, cs0) cs"
  by (simp add: rx_run.simps)

lemma acc_ws_Cons: "acc s (ws # rs) (x # t, cs0) cs \<longleftrightarrow> acc s rs (x # t, cs0) cs \<or> is_ws x \<and> acc s (ws # rs) (t, cs0) cs"
proof -
  have "(t', cs') \<in> set (rx_run s ws (x # t, cs0)) \<longleftrightarrow>
      (t', cs') = (x # t, cs0) \<or> is_ws x \<and> (t', cs') \<in> set (rx_run s ws (t, cs0))" for t' cs'
    unfolding ws_def rx_Star_Cls by (auto simp: Cons_eq_append_conv)
  then show ?thesis by auto
qed

lemma acc_ws_Nil: "acc s (ws # rs) ([], cs0) cs \<longleftrightarrow> acc s rs ([], cs0) cs"
proof -
  have "(t', cs') \<in> set (rx_run s ws ([], cs0)) \<longleftrightarrow> (t', cs') = ([], cs0)" for t' cs'
    unfolding ws_def rx_Star_Cls by auto
  then show ?thesis by auto
qed

lemma acc_Eol: "acc s (Eol # rs) (t, cs0) cs \<longleftrightarrow> t = [] \<and> acc s rs ([], cs0) cs"
  by (auto simp: rx_run.simps)

text \<open>A class run in front of a unit outside the class takes a prefix of what is in the class.\<close>

lemma span_prefix:
  assumes "w @ t' = x @ t" "list_all P w" "t = [] \<or> \<not> P (hd t)"
  shows "\<exists>u. x = w @ u \<and> t' = u @ t"
  using assms by (auto simp: append_eq_append_conv2 Cons_eq_append_conv) (metis append_Nil2 hd_append2 list.pred_inject(2) list.sel(1) list_all_append neq_Nil_conv)

lemma acc_Cap_num:
  assumes "list_all num_unit x" "t = [] \<or> \<not> num_unit (hd t)"
  shows "acc s (Cap k num_rx # rs) (x @ t, cs0) cs \<longleftrightarrow>
    (\<exists>n u. x = n @ u \<and> n \<noteq> [] \<and> acc s rs (u @ t, (k, n) # cs0) cs)"
proof -
  have "(t', cs') \<in> set (rx_run s (Cap k num_rx) (x @ t, cs0)) \<longleftrightarrow>
      (\<exists>n u. x = n @ u \<and> n \<noteq> [] \<and> t' = u @ t \<and> cs' = (k, n) # cs0)" for t' cs'
  proof
    assume "(t', cs') \<in> set (rx_run s (Cap k num_rx) (x @ t, cs0))"
    then obtain n where "n \<noteq> []" "list_all num_unit n" "n @ t' = x @ t" "cs' = (k, n) # cs0"
      unfolding num_rx_def rx_Cap rx_Plus_Cls by (metis append_same_eq)
    then show "\<exists>n u. x = n @ u \<and> n \<noteq> [] \<and> t' = u @ t \<and> cs' = (k, n) # cs0"
      using span_prefix [of n t' x t num_unit] assms(2) by blast
  next
    assume "\<exists>n u. x = n @ u \<and> n \<noteq> [] \<and> t' = u @ t \<and> cs' = (k, n) # cs0"
    then show "(t', cs') \<in> set (rx_run s (Cap k num_rx) (x @ t, cs0))"
      using assms(1) unfolding num_rx_def rx_Cap rx_Plus_Cls by auto
  qed
  then have "set (rx_run s (Cap k num_rx) (x @ t, cs0)) = {(u @ t, (k, n) # cs0) | n u. x = n @ u \<and> n \<noteq> []}"
    by auto
  then show ?thesis by (simp add: Bex_def) blast
qed

lemma acc_num_exact:
  assumes "list_all num_unit x" "x \<noteq> []" "t = [] \<or> \<not> num_unit (hd t)"
    and fail: "\<And>u cs1. u \<noteq> [] \<Longrightarrow> list_all num_unit u \<Longrightarrow> \<not> acc s rs (u @ t, cs1) cs"
  shows "acc s (Cap k num_rx # rs) (x @ t, cs0) cs \<longleftrightarrow> acc s rs (t, (k, x) # cs0) cs"
proof -
  have "u = []" if "x = n @ u" "acc s rs (u @ t, (k, n) # cs0) cs" for n u
    using that assms(1) fail [of u "(k, n) # cs0"] by auto
  then show ?thesis unfolding acc_Cap_num [OF assms(1,3)] using assms(2) by (metis append_Nil append_Nil2)
qed

lemma acc_seqs: "acc s (seqs rs # ks) st cs \<longleftrightarrow> acc s (rs @ ks) st cs"
  by (induction rs arbitrary: st rule: seqs.induct) (simp_all add: seqs.simps acc_Seq rx_run.simps)

lemma acc_done: "acc s [] st cs \<longleftrightarrow> snd st = cs"
  by simp

declare acc.simps [simp del]

lemma acc_ws_Lit:
  "\<not> is_ws x \<Longrightarrow> acc s (ws # Lit (x # l) # rs) (t, cs0) cs \<longleftrightarrow> acc s (Lit (x # l) # rs) (dropWhile is_ws t, cs0) cs"
proof (induction t)
  case (Cons c t)
  then show ?case by (auto simp: acc_ws_Cons acc_Lit_Cons)
qed (simp add: acc_ws_Nil acc_Lit_Nil)

lemma num_unit_facts: "num_unit c \<Longrightarrow> \<not> is_ws c \<and> c \<noteq> 41 \<and> c \<noteq> 99 \<and> c \<noteq> 42 \<and> c \<noteq> 112"
  by (auto simp: num_unit_def is_digit_def is_ws_def)

lemma word_facts: "is_word c \<Longrightarrow> \<not> is_ws c \<and> c \<noteq> 42 \<and> c \<noteq> 43 \<and> c \<noteq> 41"
  by (auto simp: is_word_def is_digit_def is_ws_def)

lemma acc_other_word:
  assumes "list_all is_word v" "list_all is_word v0" "v \<noteq> v0"
  shows "\<not> acc s (Lit v # ws # Lit [42] # rs) (v0 @ 32 # t, cs0) cs"
  using assms
proof (induction v v0 rule: list_induct2')
  case (2 x xs)
  then show ?case by (auto simp: acc_Lit_Cons is_word_def is_digit_def)
next
  case (3 y ys)
  then show ?case
    using word_facts [of y] by (auto simp: acc_Lit_Nil acc_ws_Cons acc_Lit_Cons)
next
  case (4 x xs y ys)
  then show ?case by (auto simp: acc_Lit_Cons)
qed simp

text \<open>The optional terms: indexed variables, of which \<open>val\<close> says which ones the text has.\<close>

definition cache_parts :: "nat \<Rightarrow> (nat \<times> jsstring) list \<Rightarrow> rx list" where
  "cache_parts k ivs = map (\<lambda>(i, v). cache_rx (k + i) v) ivs"

fun cache_text :: "(jsstring \<Rightarrow> jsstring option) \<Rightarrow> (nat \<times> jsstring) list \<Rightarrow> jsstring" where
  "cache_text val [] = []"
| "cache_text val ((i, v) # ivs) =
     (case val v of Some n \<Rightarrow> [32, 43, 32] @ v @ [32, 42, 32] @ n | None \<Rightarrow> []) @ cache_text val ivs"

fun cache_caps :: "(jsstring \<Rightarrow> jsstring option) \<Rightarrow> nat \<Rightarrow> (nat \<times> jsstring) list \<Rightarrow> captures \<Rightarrow> captures" where
  "cache_caps val k [] cs = cs"
| "cache_caps val k ((i, v) # ivs) cs =
     cache_caps val k ivs (case val v of Some n \<Rightarrow> (k + i, n) # cs | None \<Rightarrow> cs)"

definition var_ok :: "jsstring \<Rightarrow> bool" where
  "var_ok v \<longleftrightarrow> v \<noteq> [] \<and> list_all is_word v \<and> \<not> num_unit (hd v)"

definition num_text_ok :: "jsstring \<Rightarrow> bool" where
  "num_text_ok n \<longleftrightarrow> n \<noteq> [] \<and> list_all num_unit n"

lemma cache_text_end:
  "(\<exists>v0\<in>snd ` set ivs. \<exists>r. cache_text val ivs @ [41] = 32 # 43 # 32 # v0 @ 32 # r) \<or> cache_text val ivs = []"
proof (induction ivs)
  case (Cons iv ivs)
  obtain i v where "iv = (i, v)" by (cases iv)
  then show ?case using Cons by (cases "val v") auto
qed simp

lemma acc_cache_body:
  "acc s (cache_rx k v # rs) st cs \<longleftrightarrow>
     acc s (ws # Lit [43] # ws # Lit v # ws # Lit [42] # ws # Cap k num_rx # rs) st cs \<or> acc s rs st cs"
  unfolding cache_rx_def acc_Opt acc_seqs by (simp add: lit_def js_def)

lemma cache_parts_after_number:
  assumes "\<And>i v. (i, v) \<in> set ivs \<Longrightarrow> var_ok v" "u \<noteq> []" "list_all num_unit u"
    "hd (dropWhile is_ws t) \<in> {43, 41}" "dropWhile is_ws t \<noteq> []"
  shows "\<not> acc s (cache_parts k ivs @ [Lit [41], Eol]) (u @ t, cs0) cs"
  using assms(1)
proof (induction ivs arbitrary: cs0)
  case Nil
  obtain x u' where "u = x # u'" using assms(2) by (cases u) auto
  then show ?case
    using assms(3) num_unit_facts [of x] by (simp add: cache_parts_def acc_Lit_Cons)
next
  case (Cons iv ivs)
  obtain i v where iv: "iv = (i, v)" by (cases iv)
  obtain x u' where u: "u = x # u'" using assms(2) by (cases u) auto
  obtain c v' where v: "v = c # v'" "is_word c" "\<not> num_unit c" using Cons.prems [of i v] iv by (cases v) (auto simp: var_ok_def)
  have "\<not> acc s (ws # Lit [43] # ws # Lit v # rs) (u @ t, cs0) cs" for rs
  proof (cases u')
    case Nil
    then show ?thesis
      using u v assms(4,5) num_unit_facts [of x] word_facts [of c] assms(3)
      by (cases "dropWhile is_ws t") (auto simp: acc_ws_Lit acc_Lit_Cons acc_Lit_Nil is_ws_def)
  next
    case (Cons y u'')
    then show ?thesis
      using u v assms(3) num_unit_facts [of x] num_unit_facts [of y] word_facts [of c]
      by (auto simp: acc_ws_Lit acc_Lit_Cons acc_Lit_Nil is_ws_def)
  qed
  moreover have "\<not> acc s (cache_parts k ivs @ [Lit [41], Eol]) (u @ t, cs0) cs"
    by (rule Cons.IH) (use Cons.prems in auto)
  ultimately show ?case
    using iv by (simp add: cache_parts_def acc_cache_body)
qed

lemma cache_text_start:
  "hd (dropWhile is_ws (cache_text val ivs @ [41])) \<in> {43, 41}" "dropWhile is_ws (cache_text val ivs @ [41]) \<noteq> []"
  "\<not> num_unit (hd (cache_text val ivs @ [41]))"
proof -
  have "is_ws 32" "\<not> is_ws 43" "\<not> is_ws 41" "\<not> num_unit 32" "\<not> num_unit 41"
    by (simp_all add: is_ws_def num_unit_def is_digit_def)
  then show "hd (dropWhile is_ws (cache_text val ivs @ [41])) \<in> {43, 41}"
    "dropWhile is_ws (cache_text val ivs @ [41]) \<noteq> []" "\<not> num_unit (hd (cache_text val ivs @ [41]))"
    using cache_text_end [of ivs val] by auto
qed

lemma acc_word: "list_all is_word v \<Longrightarrow> v \<noteq> [] \<Longrightarrow>
  acc s (ws # Lit [43] # ws # Lit v # rs) (32 # 43 # 32 # t, cs0) cs \<longleftrightarrow> acc s (Lit v # rs) (dropWhile is_ws t, cs0) cs"
  using word_facts
  by (cases v) (auto simp: acc_ws_Lit acc_Lit_Cons acc_Lit_Nil is_ws_def [of 43] is_ws_def [of 32])

lemma acc_num_no: "\<not> num_unit x \<Longrightarrow> \<not> acc s (Cap k num_rx # rs) (x # t, cs0) cs"
  using acc_Cap_num [of "[]" "x # t"] by (simp)

lemma acc_price:
  assumes "num_text_ok n" "t \<noteq> []" "\<not> num_unit (hd t)"
    and "\<And>u cs1. u \<noteq> [] \<Longrightarrow> list_all num_unit u \<Longrightarrow> \<not> acc s rs (u @ t, cs1) cs"
  shows "acc s (ws # Lit [42] # ws # Cap k num_rx # rs) (32 # 42 # 32 # n @ t, cs0) cs \<longleftrightarrow> acc s rs (t, (k, n) # cs0) cs"
proof -
  obtain x n' where n: "n = x # n'" "num_unit x" using assms(1) by (cases n) (auto simp: num_text_ok_def)
  have "acc s (ws # Cap k num_rx # rs) (n @ t, cs0) cs \<longleftrightarrow> acc s (Cap k num_rx # rs) (n @ t, cs0) cs"
    using n num_unit_facts [of x] by (simp add: acc_ws_Cons)
  moreover have "acc s (Cap k num_rx # rs) (n @ t, cs0) cs \<longleftrightarrow> acc s rs (t, (k, n) # cs0) cs"
    using assms by (intro acc_num_exact) (auto simp: num_text_ok_def)
  moreover have "\<not> num_unit 32" "is_ws 32" "\<not> is_ws 42" by (simp_all add: num_unit_def is_digit_def is_ws_def)
  ultimately show ?thesis
    by (simp add: acc_ws_Lit acc_Lit_Cons acc_Lit_Nil acc_ws_Cons [of s _ 32] acc_num_no)
qed

lemma drop_ws_word: "var_ok v \<Longrightarrow> dropWhile is_ws (v @ t) = v @ t"
  using word_facts by (cases v) (auto simp: var_ok_def)

lemma cache_parts_skip:
  assumes "\<And>i v. (i, v) \<in> set ivs \<Longrightarrow> var_ok v \<and> v \<noteq> v0" "var_ok v0"
  shows "\<not> acc s (cache_parts k ivs @ [Lit [41], Eol]) (32 # 43 # 32 # v0 @ 32 # t, cs0) cs"
  using assms(1)
proof (induction ivs arbitrary: cs0)
  case Nil
  then show ?case by (simp add: cache_parts_def acc_Lit_Cons)
next
  case (Cons iv ivs)
  obtain i v where iv: "iv = (i, v)" by (cases iv)
  have v: "var_ok v" "v \<noteq> v0" using Cons.prems [of i v] iv by auto
  have "\<not> acc s (ws # Lit [43] # ws # Lit v # ws # Lit [42] # rs) (32 # 43 # 32 # v0 @ 32 # t, cs0) cs" for rs
    using v assms(2) acc_other_word [of v v0 s rs t cs0 cs] by (simp add: drop_ws_word acc_word var_ok_def)
  moreover have "\<not> acc s (cache_parts k ivs @ [Lit [41], Eol]) (32 # 43 # 32 # v0 @ 32 # t, cs0) cs"
    by (rule Cons.IH) (use Cons.prems in auto)
  ultimately show ?case using iv by (simp add: cache_parts_def acc_cache_body)
qed

lemma cache_parts_exact:
  assumes "\<And>i v. (i, v) \<in> set ivs \<Longrightarrow> var_ok v" "distinct (map snd ivs)"
    "\<And>v n. val v = Some n \<Longrightarrow> num_text_ok n"
  shows "acc s (cache_parts k ivs @ [Lit [41], Eol]) (cache_text val ivs @ [41], cs0) cs \<longleftrightarrow>
    cs = cache_caps val k ivs cs0"
  using assms(1,2)
proof (induction ivs arbitrary: cs0)
  case Nil
  then show ?case by (auto simp: cache_parts_def acc_Lit_Cons acc_Lit_Nil acc_Eol simp: acc_done)
next
  case (Cons iv ivs)
  obtain i v where iv: "iv = (i, v)" by (cases iv)
  have v: "var_ok v" using Cons.prems iv by auto
  let ?K = "cache_parts k ivs @ [Lit [41], Eol]" and ?t = "cache_text val ivs @ [41]"
  have IH: "acc s ?K (?t, cs1) cs \<longleftrightarrow> cs = cache_caps val k ivs cs1" for cs1
    using Cons by auto
  show ?case
  proof (cases "val v")
    case None
    have "\<not> acc s (ws # Lit [43] # ws # Lit v # ws # Lit [42] # ws # Cap (k + i) num_rx # ?K) (?t, cs0) cs"
      using cache_text_end [of ivs val]
    proof
      assume "\<exists>v0\<in>snd ` set ivs. \<exists>r. cache_text val ivs @ [41] = 32 # 43 # 32 # v0 @ 32 # r"
      then obtain i0 v0 r where v0: "(i0, v0) \<in> set ivs" "?t = 32 # 43 # 32 # v0 @ 32 # r" by auto
      then have "var_ok v0" "v \<noteq> v0" using Cons.prems iv by force+
      then show ?thesis
        using v v0(2) acc_other_word [of v v0] by (simp add: drop_ws_word acc_word var_ok_def)
    qed (simp add: acc_ws_Lit acc_Lit_Cons is_ws_def)
    then show ?thesis using IH None iv by (simp add: cache_parts_def acc_cache_body)
  next
    case (Some n)
    have "\<not> acc s ?K (32 # 43 # 32 # v @ 32 # 42 # 32 # n @ ?t, cs0) cs"
      by (rule cache_parts_skip [OF _ v]) (use Cons.prems iv in force)
    moreover have "acc s (ws # Lit [43] # ws # Lit v # ws # Lit [42] # ws # Cap (k + i) num_rx # ?K)
        (32 # 43 # 32 # v @ 32 # 42 # 32 # n @ ?t, cs0) cs \<longleftrightarrow> acc s ?K (?t, (k + i, n) # cs0) cs"
    proof -
      have vars: "\<And>i v. (i, v) \<in> set ivs \<Longrightarrow> var_ok v" using Cons.prems by auto
      have "acc s (ws # Lit [42] # ws # Cap (k + i) num_rx # ?K) (32 # 42 # 32 # n @ ?t, cs0) cs \<longleftrightarrow>
          acc s ?K (?t, (k + i, n) # cs0) cs"
        using cache_text_start [of val ivs] cache_parts_after_number [OF vars] assms(3) [OF Some]
        by (intro acc_price) auto
      moreover have "list_all is_word v" "v \<noteq> []" using v by (simp_all add: var_ok_def)
      ultimately show ?thesis by (simp only: acc_word drop_ws_word [OF v] acc_Lit_app simp_thms)
    qed
    ultimately show ?thesis using IH Some iv by (simp add: cache_parts_def acc_cache_body)
  qed
qed

subsection \<open>A single tier\<close>

definition cache_ivs :: "(nat \<times> jsstring) list" where
  "cache_ivs = zip [0..<length BILLING_CACHE_VAR_MAP] (map snd BILLING_CACHE_VAR_MAP)"

lemma cache_ivs_ok: "\<And>i v. (i, v) \<in> set cache_ivs \<Longrightarrow> var_ok v" "distinct (map snd cache_ivs)"
proof -
  have "list_all (\<lambda>(i, v). var_ok v) cache_ivs" by code_simp
  then show "\<And>i v. (i, v) \<in> set cache_ivs \<Longrightarrow> var_ok v" by (auto simp: list_all_iff)
  show "distinct (map snd cache_ivs)" by code_simp
qed

lemma unit_facts: "is_ws 32" "\<not> is_ws 43" "\<not> is_ws 41" "\<not> is_ws 42" "\<not> is_ws 99" "\<not> is_ws 112" "\<not> is_ws 40"
  "\<not> num_unit 32" "\<not> num_unit 41"
  by (simp_all add: is_ws_def num_unit_def is_digit_def)

lemmas acc_step = acc_ws_Lit acc_Lit_Cons acc_Lit_Nil acc_ws_Cons acc_ws_Nil acc_Eol unit_facts

definition token_text :: "jsstring \<Rightarrow> jsstring \<Rightarrow> (jsstring \<Rightarrow> jsstring option) \<Rightarrow> jsstring" where
  "token_text a b val = 112 # 32 # 42 # 32 # a @ 32 # 43 # 32 # 99 # 32 # 42 # 32 # b @ cache_text val cache_ivs"

lemma acc_token:
  "acc s (token_rx k # rs) st cs \<longleftrightarrow>
     acc s (Lit [112] # ws # Lit [42] # ws # Cap k num_rx # ws # Lit [43] # ws # Lit [99] # ws # Lit [42] # ws #
       Cap (k + 1) num_rx # cache_parts (k + 2) cache_ivs @ rs) st cs \<or> acc s rs st cs"
  unfolding token_rx_def acc_Opt acc_seqs
  by (simp add: lit_def js_def cache_parts_def cache_ivs_def)

lemma after_input_price:
  assumes "u \<noteq> []" "list_all num_unit u"
  shows "\<not> acc s (ws # Lit [43] # ws # Lit [99] # rs) (u @ 32 # 43 # 32 # 99 # t, cs1) cs"
proof -
  obtain x u' where u: "u = x # u'" "\<not> is_ws x" using assms num_unit_facts by (cases u) auto
  show ?thesis
  proof (cases u')
    case (Cons y u'')
    then have "\<not> is_ws y" "y \<noteq> 99" using u assms(2) num_unit_facts [of y] by auto
    then show ?thesis using u Cons by (simp add: acc_step)
  qed (use u in \<open>simp add: acc_step\<close>)
qed

lemma token_exact:
  assumes "num_text_ok a" "num_text_ok b" "\<And>v n. val v = Some n \<Longrightarrow> num_text_ok n"
  shows "acc s [token_rx k, Lit [41], Eol] (token_text a b val @ [41], cs0) cs \<longleftrightarrow>
    cs = cache_caps val (k + 2) cache_ivs ((k + 1, b) # (k, a) # cs0)"
proof -
  let ?C = "cache_parts (k + 2) cache_ivs @ [Lit [41], Eol]" and ?t = "cache_text val cache_ivs @ [41]"
  have b: "acc s (ws # Lit [42] # ws # Cap (k + 1) num_rx # ?C) (32 # 42 # 32 # b @ ?t, cs1) cs \<longleftrightarrow>
      acc s ?C (?t, (k + 1, b) # cs1) cs" for cs1
    using cache_text_start [of val cache_ivs] cache_parts_after_number [OF cache_ivs_ok(1)] assms(2)
    by (intro acc_price) auto
  let ?R = "ws # Lit [43] # ws # Lit [99] # ws # Lit [42] # ws # Cap (k + 1) num_rx # ?C"
  let ?r = "32 # 43 # 32 # 99 # 32 # 42 # 32 # b @ ?t"
  have a: "acc s (ws # Lit [42] # ws # Cap k num_rx # ?R) (32 # 42 # 32 # a @ ?r, cs1) cs \<longleftrightarrow>
      acc s ?R (?r, (k, a) # cs1) cs" for cs1
    using assms(1) after_input_price by (intro acc_price) (auto simp: unit_facts)
  have c: "acc s ?R (?r, cs1) cs \<longleftrightarrow> acc s (ws # Lit [42] # ws # Cap (k + 1) num_rx # ?C) (32 # 42 # 32 # b @ ?t, cs1) cs" for cs1
    by (simp add: acc_ws_Lit acc_Lit_Cons acc_Lit_Nil unit_facts)
  have e: "acc s ?C (?t, cs1) cs \<longleftrightarrow> cs = cache_caps val (k + 2) cache_ivs cs1" for cs1
    by (rule cache_parts_exact) (use cache_ivs_ok assms(3) in auto)
  show ?thesis
    unfolding acc_token token_text_def append_Cons append_assoc acc_Lit_Cons acc_Lit_Nil a c b
    using e [of "(k + 1, b) # (k, a) # cs0"] by simp
qed

lemma token_not: "x \<noteq> 112 \<Longrightarrow> x \<noteq> 41 \<Longrightarrow> \<not> acc s [token_rx k, Lit [41], Eol] (x # t, cs0) cs"
  unfolding acc_token by (simp add: acc_Lit_Cons)

lemma token_none: "acc s [token_rx k, Lit [41], Eol] ([41], cs0) cs \<longleftrightarrow> cs = cs0"
  unfolding acc_token by (auto simp: acc_step simp: acc_done)

lemma acc_call:
  "acc s (call_rx k # rs) st cs \<longleftrightarrow>
     acc s (Lit [99, 97, 108, 108] # ws # Lit [40] # ws # Cap k num_rx # ws # Lit [41] #
       Opt (seqs [ws, Lit [43], ws]) # rs) st cs \<or> acc s rs st cs"
  unfolding call_rx_def acc_Opt acc_seqs by (simp add: lit_def js_def)

lemma call_not: "x \<noteq> 99 \<Longrightarrow> acc s (call_rx k # rs) (x # t, cs0) cs \<longleftrightarrow> acc s rs (x # t, cs0) cs"
  unfolding acc_call by (simp add: acc_Lit_Cons)

lemma call_exact:
  assumes "num_text_ok x"
  shows "acc s (call_rx k # token_rx j # [Lit [41], Eol]) (99 # 97 # 108 # 108 # 40 # x @ 41 # t, cs0) cs \<longleftrightarrow>
    acc s (Opt (seqs [ws, Lit [43], ws]) # token_rx j # [Lit [41], Eol]) (t, (k, x) # cs0) cs"
proof -
  let ?R = "ws # Lit [41] # Opt (seqs [ws, Lit [43], ws]) # [token_rx j, Lit [41], Eol]"
  obtain y x' where x: "x = y # x'" "num_unit y" using assms by (cases x) (auto simp: num_text_ok_def)
  have "\<not> acc s ?R (u @ 41 # t, cs1) cs" if "u \<noteq> []" "list_all num_unit u" for u cs1
    using that num_unit_facts by (cases u) (auto simp: acc_ws_Lit acc_Lit_Cons unit_facts)
  then have "acc s (Cap k num_rx # ?R) (x @ 41 # t, cs0) cs \<longleftrightarrow> acc s ?R (41 # t, (k, x) # cs0) cs"
    using assms by (intro acc_num_exact) (auto simp: num_text_ok_def unit_facts)
  moreover have "acc s (ws # Cap k num_rx # ?R) (x @ 41 # t, cs0) cs \<longleftrightarrow> acc s (Cap k num_rx # ?R) (x @ 41 # t, cs0) cs"
    using x num_unit_facts [of y] by (simp add: acc_ws_Cons)
  moreover have "\<not> acc s [token_rx j, Lit [41], Eol] (99 # t', cs1) cs" for t' cs1 by (simp add: token_not)
  ultimately show ?thesis
    unfolding acc_call by (simp add: acc_Lit_Cons acc_Lit_Nil acc_ws_Lit unit_facts)
qed

text \<open>The text of a body: a cost per call, prices, or both.\<close>

definition body_text :: "jsstring option \<Rightarrow> (jsstring \<times> jsstring \<times> (jsstring \<Rightarrow> jsstring option)) option \<Rightarrow> jsstring" where
  "body_text call tokens =
     (case call of Some x \<Rightarrow> 99 # 97 # 108 # 108 # 40 # x @ [41] | None \<Rightarrow> []) @
     (if call \<noteq> None \<and> tokens \<noteq> None then [32, 43, 32] else []) @
     (case tokens of Some (a, b, val) \<Rightarrow> token_text a b val | None \<Rightarrow> [])"

definition body_caps :: "nat \<Rightarrow> jsstring option \<Rightarrow> (jsstring \<times> jsstring \<times> (jsstring \<Rightarrow> jsstring option)) option \<Rightarrow>
  captures \<Rightarrow> captures" where
  "body_caps k call tokens cs0 =
     (let cs1 = (case call of Some x \<Rightarrow> (k, x) # cs0 | None \<Rightarrow> cs0)
      in case tokens of
           Some (a, b, val) \<Rightarrow> cache_caps val (k + 3) cache_ivs ((k + 2, b) # (k + 1, a) # cs1)
         | None \<Rightarrow> cs1)"

definition tokens_ok :: "(jsstring \<times> jsstring \<times> (jsstring \<Rightarrow> jsstring option)) option \<Rightarrow> bool" where
  "tokens_ok tokens \<longleftrightarrow>
     (case tokens of None \<Rightarrow> True
      | Some (a, b, val) \<Rightarrow> num_text_ok a \<and> num_text_ok b \<and> (\<forall>v n. val v = Some n \<longrightarrow> num_text_ok n))"

lemma token_text_start: "\<exists>r. token_text a b val = 112 # r"
  by (simp add: token_text_def)

lemma plus_then_tokens:
  "acc s (Opt (seqs [ws, Lit [43], ws]) # [token_rx j, Lit [41], Eol]) (32 # 43 # 32 # 112 # r, cs0) cs \<longleftrightarrow>
   acc s [token_rx j, Lit [41], Eol] (112 # r, cs0) cs"
  unfolding acc_Opt acc_seqs by (simp add: acc_ws_Lit acc_Lit_Cons acc_Lit_Nil acc_ws_Cons [of s _ 32] acc_ws_Cons [of s _ 112]
      unit_facts token_not)

lemma body_exact:
  assumes "\<And>x. call = Some x \<Longrightarrow> num_text_ok x" "tokens_ok tokens" "call \<noteq> None \<or> tokens \<noteq> None"
  shows "acc s [call_rx k, token_rx (k + 1), Lit [41], Eol] (body_text call tokens @ [41], cs0) cs \<longleftrightarrow>
    cs = body_caps k call tokens cs0"
proof (cases tokens)
  case None
  then obtain x where x: "call = Some x" "num_text_ok x" using assms(1,3) by auto
  have "acc s (Opt (seqs [ws, Lit [43], ws]) # [token_rx (k + 1), Lit [41], Eol]) ([41], cs1) cs \<longleftrightarrow> cs = cs1" for cs1
    unfolding acc_Opt acc_seqs token_none by (simp add: acc_ws_Lit acc_Lit_Cons unit_facts)
  then show ?thesis using None x call_exact [OF x(2)] by (simp add: body_text_def body_caps_def)
next
  case (Some abv)
  then obtain a b val where tokens: "tokens = Some (a, b, val)" by (cases abv) auto
  then have ok: "num_text_ok a" "num_text_ok b" "\<And>v n. val v = Some n \<Longrightarrow> num_text_ok n"
    using assms(2) by (auto simp: tokens_ok_def)
  obtain r where r: "token_text a b val = 112 # r" using token_text_start by blast
  have token: "acc s [token_rx (k + 1), Lit [41], Eol] (token_text a b val @ [41], cs1) cs \<longleftrightarrow>
      cs = cache_caps val (k + 3) cache_ivs ((k + 2, b) # (k + 1, a) # cs1)" for cs1
    using token_exact [where k = "k + 1" and val = val, OF ok(1,2)] ok(3) by (simp add: eval_nat_numeral)
  show ?thesis
  proof (cases call)
    case None
    then show ?thesis
      using tokens token [of cs0] r by (simp add: body_text_def body_caps_def call_not eval_nat_numeral)
  next
    case (Some x)
    then show ?thesis
      using tokens token [of "(k, x) # cs0"] r assms(1) [OF Some]
      by (simp add: body_text_def body_caps_def call_exact plus_then_tokens eval_nat_numeral)
  qed
qed

lemma acc_label:
  assumes "34 \<notin> set l" "t \<noteq> []" "\<not> is_ws (hd t)"
  shows "acc s (label_rx k # rs) (js ''tier(\"'' @ l @ 34 # 44 # 32 # t, cs0) cs \<longleftrightarrow>
    acc s rs (32 # t, (k, l) # cs0) cs \<or> acc s rs (t, (k, l) # cs0) cs"
proof -
  let ?cap = "Cap k (Star (Cls (\<lambda>c. c \<noteq> 34)))" and ?R = "Lit [34, 44] # ws # rs"
  have "set (rx_run s ?cap (l @ 34 # r, cs0)) = {(u @ 34 # r, (k, n) # cs0) | n u. l = n @ u}" for r
  proof -
    have "(t', cs') \<in> set (rx_run s ?cap (l @ 34 # r, cs0)) \<longleftrightarrow> (\<exists>n u. l = n @ u \<and> t' = u @ 34 # r \<and> cs' = (k, n) # cs0)" for t' cs'
    proof
      assume "(t', cs') \<in> set (rx_run s ?cap (l @ 34 # r, cs0))"
      then obtain n where "list_all (\<lambda>c. c \<noteq> 34) n" "n @ t' = l @ 34 # r" "cs' = (k, n) # cs0"
        unfolding rx_Cap rx_Star_Cls by (metis append_same_eq)
      then show "\<exists>n u. l = n @ u \<and> t' = u @ 34 # r \<and> cs' = (k, n) # cs0"
        using span_prefix [of n t' l "34 # r" "\<lambda>c. c \<noteq> 34"] by auto
    next
      assume "\<exists>n u. l = n @ u \<and> t' = u @ 34 # r \<and> cs' = (k, n) # cs0"
      then obtain n u where nu: "l = n @ u" "t' = u @ 34 # r" "cs' = (k, n) # cs0" by blast
      then have "list_all (\<lambda>c. c \<noteq> 34) n" using assms(1) by (auto simp: list_all_iff)
      then show "(t', cs') \<in> set (rx_run s ?cap (l @ 34 # r, cs0))"
        unfolding rx_Cap rx_Star_Cls using nu by auto
    qed
    then show ?thesis by auto
  qed
  then have "acc s (?cap # ?R) (l @ 34 # r, cs0) cs \<longleftrightarrow> (\<exists>n u. l = n @ u \<and> acc s ?R (u @ 34 # r, (k, n) # cs0) cs)" for r
    unfolding acc.simps(2) [of s ?cap] by (simp add: Bex_def) blast
  moreover have "\<not> acc s ?R (u @ 34 # r, cs1) cs" if "l = n @ u" "u \<noteq> []" for n u r cs1
    using that assms(1) by (cases u) (auto simp: acc_Lit_Cons)
  ultimately have cap: "acc s (?cap # ?R) (l @ 34 # r, cs0) cs \<longleftrightarrow> acc s ?R (34 # r, (k, l) # cs0) cs" for r
    by (metis append_Nil append_Nil2)
  have "acc s (label_rx k # rs) (js ''tier(\"'' @ r, cs0) cs \<longleftrightarrow> acc s (?cap # ?R) (r, cs0) cs" for r
    unfolding label_rx_def acc_seqs by (simp add: lit_def acc_Lit_app) (simp add: js_def)
  then show ?thesis
    using assms(2,3) by (cases t) (simp_all add: cap acc_Lit_Cons acc_Lit_Nil acc_ws_Cons unit_facts)
qed

lemma body_text_start:
  assumes "call \<noteq> None \<or> tokens \<noteq> None"
  shows "\<exists>c r. body_text call tokens = c # r \<and> (c = 99 \<or> c = 112)"
  using assms token_text_start by (fastforce simp: body_text_def split: option.splits)

lemma single_match:
  assumes "34 \<notin> set l" "\<And>x. call = Some x \<Longrightarrow> num_text_ok x" "tokens_ok tokens" "call \<noteq> None \<or> tokens \<noteq> None"
  shows "rx_match singleRe (js ''tier(\"'' @ l @ 34 # 44 # 32 # body_text call tokens @ [41]) =
    Some (body_caps 2 call tokens [(1, l)])"
proof -
  let ?s = "js ''tier(\"'' @ l @ 34 # 44 # 32 # body_text call tokens @ [41]"
  let ?r = "seqs [label_rx 1, call_rx 2, token_rx 3, Lit [41], Eol]"
  have singleRe: "singleRe = Seq Bol ?r" by (simp add: singleRe_def seqs.simps lit_def js_def)
  obtain c r where start: "body_text call tokens = c # r" "c = 99 \<or> c = 112" using body_text_start [OF assms(4)] by blast
  have no: "\<not> acc ?s [call_rx 2, token_rx 3, Lit [41], Eol] (32 # t, cs0) cs" for t cs0 cs
    by (simp add: call_not token_not)
  have yes: "acc ?s [call_rx 2, token_rx 3, Lit [41], Eol] (body_text call tokens @ [41], [(1, l)]) cs \<longleftrightarrow>
      cs = body_caps 2 call tokens [(1, l)]" for cs
    using body_exact [OF assms(2-4), where k = 2] by simp
  have "acc ?s [?r] (?s, []) cs \<longleftrightarrow> cs = body_caps 2 call tokens [(1, l)]" for cs
    unfolding acc_seqs using acc_label [OF assms(1), of "body_text call tokens @ [41]"] no yes start
    by (auto simp: unit_facts)
  moreover have "acc ?s [?r] (?s, []) cs \<longleftrightarrow> (\<exists>t. (t, cs) \<in> set (rx_run ?s ?r (?s, [])))" for cs
    by (auto simp: acc.simps Bex_def)
  ultimately show ?thesis unfolding singleRe using rx_match_unique [of _ _ ?s ?r] by metis
qed

subsection \<open>The text of a tier\<close>

definition extra_price :: "visual_tier \<Rightarrow> jsstring \<Rightarrow> jsnum" where
  "extra_price tier field = number_or_0 (val_at (vt_extra tier) field)"

definition extra_text :: "visual_tier \<Rightarrow> jsstring \<Rightarrow> jsstring option" where
  "extra_text tier v =
     (case find (\<lambda>cv. snd cv = v) BILLING_CACHE_VAR_MAP of
        Some cv \<Rightarrow> if not_zero (extra_price tier (fst cv)) then Some (num_to_str (extra_price tier (fst cv))) else None
      | None \<Rightarrow> None)"

definition has_tokens :: "visual_tier \<Rightarrow> bool" where
  "has_tokens tier \<longleftrightarrow> not_zero (number_or_0 (vt_input tier)) \<or> not_zero (number_or_0 (vt_output tier)) \<or>
     list_ex (\<lambda>cv. not_zero (to_number (val_or (val_at (vt_extra tier) (fst cv)) (JNum (Fin 0))))) BILLING_CACHE_VAR_MAP \<or>
     \<not> not_zero (number_or_0 (vt_call tier))"

definition call_text :: "visual_tier \<Rightarrow> jsstring option" where
  "call_text tier = (if not_zero (number_or_0 (vt_call tier)) then Some (num_to_str (number_or_0 (vt_call tier))) else None)"

definition tokens_text :: "visual_tier \<Rightarrow> (jsstring \<times> jsstring \<times> (jsstring \<Rightarrow> jsstring option)) option" where
  "tokens_text tier =
     (if has_tokens tier
      then Some (num_to_str (number_or_0 (vt_input tier)), num_to_str (number_or_0 (vt_output tier)), extra_text tier)
      else None)"

lemma join_cons2: "join sep (a # b # xs) = a @ sep @ join sep (b # xs)"
  by simp

lemma tier_join_concat: "join sep (a # xs) = a @ concat (map (\<lambda>x. sep @ x) xs)"
  by (induction xs arbitrary: a) (simp_all add: join_cons2)

lemma extra_vars_find:
  "cv \<in> set BILLING_CACHE_VAR_MAP \<Longrightarrow> find (\<lambda>x. snd x = snd cv) BILLING_CACHE_VAR_MAP = Some cv"
proof -
  have "list_all (\<lambda>cv. find (\<lambda>x. snd x = snd cv) BILLING_CACHE_VAR_MAP = Some cv) BILLING_CACHE_VAR_MAP" by code_simp
  then show "cv \<in> set BILLING_CACHE_VAR_MAP \<Longrightarrow> find (\<lambda>x. snd x = snd cv) BILLING_CACHE_VAR_MAP = Some cv"
    by (simp add: list_all_iff)
qed

lemma cache_text_zip:
  assumes "set cvs \<subseteq> set BILLING_CACHE_VAR_MAP" "length is = length cvs"
  shows "cache_text (extra_text tier) (zip is (map snd cvs)) =
    concat (map (\<lambda>x. js '' + '' @ x) (concat (map (\<lambda>cv. let v = number_or_0 (val_at (vt_extra tier) (fst cv))
        in if not_zero v then [price_term (snd cv) v] else []) cvs)))"
  using assms
proof (induction cvs arbitrary: "is")
  case (Cons cv cvs)
  then obtain i is' where "is": "is = i # is'" by (cases "is") auto
  have "find (\<lambda>x. snd x = snd cv) BILLING_CACHE_VAR_MAP = Some cv" using Cons.prems by (intro extra_vars_find) auto
  then show ?case
    using Cons "is" by (auto simp: extra_text_def extra_price_def Let_def price_term_def js_def)
qed simp

lemma build_body_text: "buildTierBodyExpr tier = body_text (call_text tier) (tokens_text tier)"
proof -
  have cache: "cache_text (extra_text tier) cache_ivs =
    concat (map (\<lambda>x. js '' + '' @ x) (concat (map (\<lambda>cv. let v = number_or_0 (val_at (vt_extra tier) (fst cv))
        in if not_zero v then [price_term (snd cv) v] else []) BILLING_CACHE_VAR_MAP)))"
    unfolding cache_ivs_def by (rule cache_text_zip) simp_all
  show ?thesis
    by (cases "not_zero (number_or_0 (vt_call tier))"; cases "has_tokens tier")
      (auto simp: buildTierBodyExpr_def body_text_def call_text_def tokens_text_def has_tokens_def Let_def
        token_text_def cache tier_join_concat price_term_def js_def)
qed

lemma cache_caps_other:
  "\<forall>iv\<in>set ivs. j \<noteq> k + fst iv \<Longrightarrow> map_of (cache_caps val k ivs cs) j = map_of cs j"
  by (induction ivs arbitrary: cs) (auto split: option.splits)

lemma cache_caps_get:
  assumes "distinct (map fst ivs)" "(i, v) \<in> set ivs" "map_of cs (k + i) = None"
  shows "map_of (cache_caps val k ivs cs) (k + i) = val v"
  using assms
proof (induction ivs arbitrary: cs)
  case (Cons iv ivs)
  obtain i' v' where iv: "iv = (i', v')" by (cases iv)
  show ?case
  proof (cases "i = i'")
    case True
    then have v: "v = v'" using Cons.prems iv by (auto simp: image_iff)
    have "\<forall>iv\<in>set ivs. k + i \<noteq> k + fst iv" using Cons.prems(1) iv True by force
    then have "map_of (cache_caps val k ivs cs') (k + i) = map_of cs' (k + i)" for cs'
      by (rule cache_caps_other)
    then show ?thesis using Cons.prems(3) iv True v by (simp split: option.splits)
  next
    case False
    then have "map_of (case val v' of Some n \<Rightarrow> (k + i', n) # cs | None \<Rightarrow> cs) (k + i) = None"
      using Cons.prems(3) by (simp split: option.splits)
    then show ?thesis using Cons False iv by auto
  qed
qed simp

text \<open>A price whose text is read back as the price.\<close>

definition price_ok :: "jsnum \<Rightarrow> bool" where
  "price_ok x \<longleftrightarrow> num_text_ok (num_to_str x) \<and> str_to_num (num_to_str x) = x"

definition tier_ok :: "visual_tier \<Rightarrow> bool" where
  "tier_ok tier \<longleftrightarrow> 34 \<notin> set (or_str (vt_label tier) []) \<and> buildConditionStr (vt_conditions tier) = [] \<and>
     price_ok (number_or_0 (vt_call tier)) \<and> price_ok (number_or_0 (vt_input tier)) \<and>
     price_ok (number_or_0 (vt_output tier)) \<and>
     list_all (\<lambda>cv. price_ok (extra_price tier (fst cv)) \<and>
        to_number (val_or (val_at (vt_extra tier) (fst cv)) (JNum (Fin 0))) \<noteq> NaN) BILLING_CACHE_VAR_MAP"

text \<open>What the editor shows of a tier that it printed alone: the label, every price as a number, and
  the cache mode that the prices imply.\<close>

definition shown_tier :: "visual_tier \<Rightarrow> visual_tier" where
  "shown_tier tier =
     \<lparr>vt_label = Some (or_str (vt_label tier) (js ''default'')), vt_conditions = Some [],
      vt_input = JNum (number_or_0 (vt_input tier)), vt_output = JNum (number_or_0 (vt_output tier)),
      vt_call = JNum (number_or_0 (vt_call tier)),
      vt_cache_mode = Some (if num_lt (Fin 0) (extra_price tier (js ''cache_create_1h_unit_cost''))
                            then CACHE_MODE_TIMED else CACHE_MODE_GENERIC),
      vt_extra = map (\<lambda>cv. (fst cv, JNum (extra_price tier (fst cv)))) BILLING_CACHE_VAR_MAP\<rparr>"

lemma num_or_0_idem [simp]: "num_or_0 (num_or_0 x) = num_or_0 x"
  by (simp add: num_or_0_def)

lemma number_or_0_idem [simp]: "number_or_0 (JNum (number_or_0 v)) = number_or_0 v"
  by (simp add: number_or_0_def)

lemma number_or_0_undef [simp]: "number_or_0 JUndef = Fin 0"
  by (simp add: number_or_0_def num_or_0_def num_truthy_def)

lemma not_zero_cases: "\<not> not_zero (number_or_0 v) \<Longrightarrow> number_or_0 v = Fin 0"
  by (auto simp: not_zero_def num_eq_def number_or_0_def num_or_0_def num_truthy_def split: if_splits jsnum.splits)

lemma map_of_optional:
  assumes "distinct (map snd ifs)" "(i, f) \<in> set ifs"
  shows "map_of (concat (map (\<lambda>(i, f). case g i of Some w \<Rightarrow> [(f, h w)] | None \<Rightarrow> []) ifs)) f = map_option h (g i)"
  using assms
proof (induction ifs)
  case (Cons p ifs)
  obtain i' f' where p: "p = (i', f')" by (cases p)
  show ?case
  proof (cases "f = f'")
    case True
    then have "i = i'" using Cons.prems p by (auto simp: image_iff)
    moreover have "map_of (concat (map (\<lambda>(i, f). case g i of Some w \<Rightarrow> [(f, h w)] | None \<Rightarrow> []) ifs)) f = None"
      using Cons.prems(1) p True by (force simp: map_of_eq_None_iff image_iff split: option.splits)
    ultimately show ?thesis using p True by (simp split: option.splits)
  qed (use Cons p in \<open>auto split: option.splits\<close>)
qed simp

definition field_index :: "(nat \<times> jsstring \<times> jsstring) list" where
  "field_index = zip [0..<length BILLING_CACHE_VAR_MAP] BILLING_CACHE_VAR_MAP"

lemma zip_parts:
  "(i, f, v) \<in> set field_index \<Longrightarrow> (i, v) \<in> set cache_ivs \<and> (i, f) \<in> set (zip [0..<length BILLING_CACHE_VAR_MAP] (map fst BILLING_CACHE_VAR_MAP))"
  by (auto simp: field_index_def cache_ivs_def in_set_zip)

lemma cache_tables: "distinct (map fst cache_ivs)"
  "distinct (map snd (zip [0..<length BILLING_CACHE_VAR_MAP] (map fst BILLING_CACHE_VAR_MAP)))"
  "list_all (\<lambda>(i, v). i < 7) cache_ivs" "(2, js ''cache_create_1h_unit_cost'', js ''cc1h'') \<in> set field_index"
  by code_simp+

lemma field_index_ex: "cv \<in> set BILLING_CACHE_VAR_MAP \<Longrightarrow> \<exists>i. (i, cv) \<in> set field_index"
proof -
  assume "cv \<in> set BILLING_CACHE_VAR_MAP"
  then obtain n where "n < length BILLING_CACHE_VAR_MAP" "BILLING_CACHE_VAR_MAP ! n = cv" by (auto simp: in_set_conv_nth)
  then have "(n, cv) \<in> set field_index" by (auto simp: field_index_def in_set_zip intro!: exI [of _ n])
  then show ?thesis by blast
qed

text \<open>The price of a field in a match of the printed text.\<close>

lemma shown_extra:
  assumes "tokens_text tier \<noteq> None" "list_all (\<lambda>cv. price_ok (extra_price tier (fst cv))) BILLING_CACHE_VAR_MAP"
    "cv \<in> set BILLING_CACHE_VAR_MAP"
  shows "number_or_0 (val_at (vt_extra (visual_of_match 1 [] (body_caps 2 (call_text tier) (tokens_text tier) [(1, l)]))) (fst cv)) =
    extra_price tier (fst cv)"
proof -
  obtain f v where cv: "cv = (f, v)" by (cases cv)
  obtain i where i: "(i, f, v) \<in> set field_index" using field_index_ex [OF assms(3)] cv by auto
  let ?m = "body_caps 2 (call_text tier) (tokens_text tier) [(1, l)]"
  have tokens: "tokens_text tier = Some (num_to_str (number_or_0 (vt_input tier)), num_to_str (number_or_0 (vt_output tier)), extra_text tier)"
    using assms(1) by (simp add: tokens_text_def split: if_splits)
  have get: "map_of ?m (5 + i) = extra_text tier v"
  proof -
    have "map_of (cache_caps (extra_text tier) 5 cache_ivs cs) (5 + i) = extra_text tier v"
      if "map_of cs (5 + i) = None" for cs
      by (rule cache_caps_get [OF cache_tables(1) _ that]) (use zip_parts [OF i] in blast)
    then show ?thesis by (simp add: body_caps_def Let_def tokens split: option.splits)
  qed
  have "val_at (vt_extra (visual_of_match 1 [] ?m)) f = (case extra_text tier v of Some w \<Rightarrow> JNum (str_to_num w) | None \<Rightarrow> JUndef)"
    using map_of_optional [OF cache_tables(2) conjunct2 [OF zip_parts [OF i]], where g = "\<lambda>i. map_of ?m (5 + i)" and h = "\<lambda>w. JNum (str_to_num w)"]
      get by (simp add: visual_of_match_def val_at_def props_get_def split: option.splits)
  moreover have "extra_text tier v = (if not_zero (extra_price tier f) then Some (num_to_str (extra_price tier f)) else None)"
    using extra_vars_find [OF assms(3)] cv by (simp add: extra_text_def)
  moreover have "price_ok (extra_price tier f)" using assms(2,3) cv by (auto simp: list_all_iff)
  ultimately show ?thesis
    using cv not_zero_cases [of "val_at (vt_extra tier) f"]
    by (auto simp: extra_price_def price_ok_def)
qed

lemma no_tokens_zero:
  assumes "tokens_text tier = None"
  shows "number_or_0 (vt_input tier) = Fin 0" "number_or_0 (vt_output tier) = Fin 0"
    "cv \<in> set BILLING_CACHE_VAR_MAP \<Longrightarrow> extra_price tier (fst cv) = Fin 0"
proof -
  have none: "\<not> has_tokens tier" using assms by (simp add: tokens_text_def split: if_splits)
  then show "number_or_0 (vt_input tier) = Fin 0" "number_or_0 (vt_output tier) = Fin 0"
    by (auto simp: has_tokens_def intro: not_zero_cases)
  assume "cv \<in> set BILLING_CACHE_VAR_MAP"
  with none have "\<not> not_zero (to_number (val_or (val_at (vt_extra tier) (fst cv)) (JNum (Fin 0))))"
    by (auto simp: has_tokens_def list_ex_iff)
  then have "to_number (val_at (vt_extra tier) (fst cv)) = Fin 0 \<or> \<not> truthy (val_at (vt_extra tier) (fst cv))"
    by (auto simp: val_or_def not_zero_def num_eq_def split: if_splits)
  moreover have "number_or_0 w = Fin 0" if "\<not> truthy w" for w
    using that by (cases w) (auto simp: number_or_0_def num_or_0_def num_truthy_def str_to_num_def)
  moreover have "number_or_0 w = Fin 0" if "to_number w = Fin 0" for w
    using that by (simp add: number_or_0_def num_or_0_def)
  ultimately show "extra_price tier (fst cv) = Fin 0" unfolding extra_price_def by blast
qed

lemma shown_extra_none:
  assumes "tokens_text tier = None" "cv \<in> set BILLING_CACHE_VAR_MAP"
  shows "val_at (vt_extra (visual_of_match 1 [] (body_caps 2 (call_text tier) (tokens_text tier) [(1, l)]))) (fst cv) = JUndef"
proof -
  have "map_of (body_caps 2 (call_text tier) (tokens_text tier) [(1, l)]) (5 + i) = None" for i
    using assms(1) by (simp add: body_caps_def split: option.splits)
  moreover have nils: "concat (map (\<lambda>(i, f). [] :: (jsstring \<times> jsval) list) zs) = []" for zs :: "(nat \<times> jsstring) list" by (induction zs) auto
  ultimately show ?thesis by (simp add: visual_of_match_def val_at_def props_get_def nils)
qed

lemma val_at_table:
  "cv \<in> set cvs \<Longrightarrow> val_at (map (\<lambda>cv. (fst cv, g (fst cv))) cvs) (fst cv) = g (fst cv)"
  by (induction cvs) (auto simp: val_at_def props_get_def)

lemma normalize_tier_idem: "normalizeVisualTier (normalizeVisualTier t) = normalizeVisualTier t"
  by (simp add: normalizeVisualTier_def val_at_table [of _ _ "\<lambda>f. JNum (number_or_0 (val_at (vt_extra t) f))"] cong: map_cong)

lemma tokens_caps:
  assumes "tokens_text tier \<noteq> None"
  shows "map_of (body_caps 2 call (tokens_text tier) [(1, l)]) 3 = Some (num_to_str (number_or_0 (vt_input tier)))"
    "map_of (body_caps 2 call (tokens_text tier) [(1, l)]) 4 = Some (num_to_str (number_or_0 (vt_output tier)))"
    "map_of (body_caps 2 call (tokens_text tier) [(1, l)]) 2 = call"
    "map_of (body_caps 2 call (tokens_text tier) [(1, l)]) 1 = Some l"
  using assms by (auto simp: body_caps_def tokens_text_def cache_caps_other split: option.splits if_splits)

lemma no_tokens_caps:
  assumes "tokens_text tier = None"
  shows "map_of (body_caps 2 call (tokens_text tier) [(1, l)]) 3 = None"
    "map_of (body_caps 2 call (tokens_text tier) [(1, l)]) 4 = None"
    "map_of (body_caps 2 call (tokens_text tier) [(1, l)]) 2 = call"
    "map_of (body_caps 2 call (tokens_text tier) [(1, l)]) 1 = Some l"
  using assms by (auto simp: body_caps_def split: option.splits)

lemma call_or_tokens: "call_text tier \<noteq> None \<or> tokens_text tier \<noteq> None"
  by (auto simp: call_text_def tokens_text_def has_tokens_def)

lemma shown_match:
  assumes "tier_ok tier"
  shows "normalizeVisualTier (visual_of_match 1 [] (body_caps 2 (call_text tier) (tokens_text tier)
      [(1, or_str (vt_label tier) (js ''default''))])) = shown_tier tier"
proof -
  let ?l = "or_str (vt_label tier) (js ''default'')"
  let ?m = "body_caps 2 (call_text tier) (tokens_text tier) [(1, ?l)]"
  have prices: "list_all (\<lambda>cv. price_ok (extra_price tier (fst cv))) BILLING_CACHE_VAR_MAP"
    using assms by (auto simp: tier_ok_def list_all_iff)
  have extra: "number_or_0 (val_at (vt_extra (visual_of_match 1 [] ?m)) (fst cv)) = extra_price tier (fst cv)"
    if "cv \<in> set BILLING_CACHE_VAR_MAP" for cv
    using that assms shown_extra [of tier cv, OF _ prices] shown_extra_none [of tier cv] no_tokens_zero(3) [of tier cv]
    by (cases "tokens_text tier = None") (auto simp: tier_ok_def)
  have mem: "(js ''cache_create_1h_unit_cost'', js ''cc1h'') \<in> set BILLING_CACHE_VAR_MAP" by code_simp
  have "num_lt (Fin 0) (to_number v) \<longleftrightarrow> num_lt (Fin 0) (number_or_0 v)" for v
    by (auto simp: number_or_0_def num_or_0_def num_truthy_def)
  then have mode: "num_lt (Fin 0) (to_number (val_at (vt_extra (visual_of_match 1 [] ?m)) (js ''cache_create_1h_unit_cost''))) \<longleftrightarrow>
      num_lt (Fin 0) (extra_price tier (js ''cache_create_1h_unit_cost''))"
    using extra [OF mem] by simp
  have call: "opt_number ?m 2 = JNum (number_or_0 (vt_call tier))"
    using assms tokens_caps(3) [of tier] no_tokens_caps(3) [of tier] not_zero_cases [of "vt_call tier"]
    by (cases "tokens_text tier = None") (auto simp: opt_number_def call_text_def tier_ok_def price_ok_def)
  have tokens: "opt_number ?m 3 = JNum (number_or_0 (vt_input tier))" "opt_number ?m 4 = JNum (number_or_0 (vt_output tier))"
    using assms tokens_caps(1,2) [of tier] no_tokens_caps(1,2) [of tier] no_tokens_zero(1,2) [of tier]
    by (cases "tokens_text tier = None"; auto simp: opt_number_def tier_ok_def price_ok_def)+
  have label: "grp ?m 1 = ?l"
    using tokens_caps(4) [of tier] no_tokens_caps(4) [of tier] by (cases "tokens_text tier = None") (auto simp: grp_def)
  have fields: "vt_input (visual_of_match 1 [] ?m) = opt_number ?m 3" "vt_output (visual_of_match 1 [] ?m) = opt_number ?m 4"
    "vt_call (visual_of_match 1 [] ?m) = opt_number ?m 2" "vt_label (visual_of_match 1 [] ?m) = Some (grp ?m 1)"
    "vt_conditions (visual_of_match 1 [] ?m) = Some []" "vt_cache_mode (visual_of_match 1 [] ?m) = None"
    by (simp_all add: visual_of_match_def eval_nat_numeral)
  show ?thesis
    unfolding normalizeVisualTier_def shown_tier_def fields call tokens label
    using extra mode fields(6) by (auto simp: getTierCacheMode_def)
qed

lemma not_zero_number:
  "to_number (val_or v (JNum (Fin 0))) \<noteq> NaN \<Longrightarrow>
   not_zero (to_number (val_or v (JNum (Fin 0)))) \<longleftrightarrow> not_zero (number_or_0 v)"
  by (cases v) (auto simp: val_or_def number_or_0_def num_or_0_def not_zero_def num_eq_def num_truthy_def str_to_num_def
      split: if_splits)

lemma not_zero_shown: "not_zero (to_number (val_or (JNum (number_or_0 v)) (JNum (Fin 0)))) \<longleftrightarrow> not_zero (number_or_0 v)"
  by (auto simp: val_or_def number_or_0_def num_or_0_def not_zero_def num_eq_def num_truthy_def split: if_splits)

lemma find_in_set: "find P xs = Some x \<Longrightarrow> x \<in> set xs"
  by (auto simp: find_Some_iff)

text \<open>C10: the text that the visual editor prints for a single unconditional tier is read back as
  that tier, with its label (\<open>default\<close> if it has none), every price as a number and the cache mode
  that the prices imply; printing it again gives the same text. (Hypotheses: the label has no
  quotation mark, which the printer would not escape, by \<open>label_not_escaped\<close>; there are no conditions;
  the prices are numbers whose text reads back.)\<close>

theorem single_tier_round_trip:
  assumes "tier_ok tier"
  shows "tryParseVisualConfig (Some (generateExprFromVisualConfig (Some [tier]))) = Some (Some [shown_tier tier]) \<and>
    generateExprFromVisualConfig (Some [shown_tier tier]) = generateExprFromVisualConfig (Some [tier])"
proof
  let ?l = "or_str (vt_label tier) (js ''default'')"
  let ?m = "body_caps 2 (call_text tier) (tokens_text tier) [(1, ?l)]"
  let ?s = "js ''tier(\"'' @ ?l @ 34 # 44 # 32 # body_text (call_text tier) (tokens_text tier) @ [41]"
  have label: "34 \<notin> set ?l" using assms by (auto simp: tier_ok_def or_str_def js_def split: option.splits if_splits)
  have texts: "num_text_ok x" if "call_text tier = Some x" for x
    using that assms by (auto simp: call_text_def tier_ok_def price_ok_def split: if_splits)
  have "num_text_ok n" if some_text: "extra_text tier v = Some n" for v n
  proof -
    obtain cv where "find (\<lambda>cv. snd cv = v) BILLING_CACHE_VAR_MAP = Some cv" "n = num_to_str (extra_price tier (fst cv))"
      using some_text by (cases "find (\<lambda>cv. snd cv = v) BILLING_CACHE_VAR_MAP") (simp_all add: extra_text_def split: if_splits)
    then show ?thesis using find_in_set [of _ BILLING_CACHE_VAR_MAP cv] assms by (auto simp: tier_ok_def list_all_iff price_ok_def)
  qed
  then have tokens: "tokens_ok (tokens_text tier)"
    using assms by (auto simp: tokens_ok_def tokens_text_def tier_ok_def price_ok_def)
  have cond: "buildConditionStr (vt_conditions tier) = []" using assms by (simp add: tier_ok_def)
  have gen: "generateExprFromVisualConfig (Some [tier]) = ?s"
    by (simp add: generateExprFromVisualConfig_def cond tier_call_def build_body_text) (simp add: js_def)
  have "\<not> acc ?s (Lit [118] # rs) (?s, []) cs" for rs cs by (simp add: js_def acc_Lit_Cons)
  then have "rx_match version_rx ?s = None"
    unfolding version_rx_def seqs.simps rx_match_None by (auto simp: rx_Seq rx_Lit lit_def js_def)
  then have body: "visual_body ?s = ?s" by (simp add: visual_body_def)
  have match: "rx_match singleRe ?s = Some ?m" by (rule single_match [OF label texts tokens call_or_tokens])
  have some: "has_body 1 ?m"
    using tokens_caps [of tier "call_text tier" ?l] no_tokens_caps [of tier "call_text tier" ?l] call_or_tokens [of tier]
    by (cases "tokens_text tier = None") (auto simp: has_body_def eval_nat_numeral)
  have "?s \<noteq> []" by (simp add: js_def)
  then show "tryParseVisualConfig (Some (generateExprFromVisualConfig (Some [tier]))) = Some (Some [shown_tier tier])"
    unfolding gen using body match some shown_match [OF assms] normalize_tier_idem
    by (simp add: tryParseVisualConfig_def Let_def normalizeVisualConfig_def) metis
  have extra: "val_at (vt_extra (shown_tier tier)) (fst cv) = JNum (extra_price tier (fst cv))"
    if "cv \<in> set BILLING_CACHE_VAR_MAP" for cv
    using that by (simp add: shown_tier_def val_at_table [of _ _ "\<lambda>f. JNum (extra_price tier f)"])
  have same: "extra_price (shown_tier tier) (fst cv) = extra_price tier (fst cv)" if "cv \<in> set BILLING_CACHE_VAR_MAP" for cv
    using extra [OF that] by (simp add: extra_price_def [of "shown_tier tier"]) (simp add: extra_price_def)
  have "extra_text (shown_tier tier) = extra_text tier"
  proof
    fix v
    show "extra_text (shown_tier tier) v = extra_text tier v"
      using same find_in_set [of _ BILLING_CACHE_VAR_MAP]
      by (cases "find (\<lambda>cv. snd cv = v) BILLING_CACHE_VAR_MAP") (simp_all add: extra_text_def)
  qed
  moreover have "has_tokens (shown_tier tier) = has_tokens tier"
  proof -
    have zero: "not_zero (to_number (val_or (val_at (vt_extra (shown_tier tier)) (fst cv)) (JNum (Fin 0)))) \<longleftrightarrow>
        not_zero (to_number (val_or (val_at (vt_extra tier) (fst cv)) (JNum (Fin 0))))"
      if "cv \<in> set BILLING_CACHE_VAR_MAP" for cv
    proof -
      have "to_number (val_or (val_at (vt_extra tier) (fst cv)) (JNum (Fin 0))) \<noteq> NaN"
        using that assms by (auto simp: tier_ok_def list_all_iff)
      then show ?thesis using extra [OF that] not_zero_shown [of "val_at (vt_extra tier) (fst cv)"] not_zero_number
        by (simp add: extra_price_def)
    qed
    then have "list_ex (\<lambda>cv. not_zero (to_number (val_or (val_at (vt_extra (shown_tier tier)) (fst cv)) (JNum (Fin 0))))) BILLING_CACHE_VAR_MAP \<longleftrightarrow>
        list_ex (\<lambda>cv. not_zero (to_number (val_or (val_at (vt_extra tier) (fst cv)) (JNum (Fin 0))))) BILLING_CACHE_VAR_MAP"
      by (auto simp: list_ex_iff)
    moreover have "number_or_0 (vt_input (shown_tier tier)) = number_or_0 (vt_input tier)"
      "number_or_0 (vt_output (shown_tier tier)) = number_or_0 (vt_output tier)"
      "number_or_0 (vt_call (shown_tier tier)) = number_or_0 (vt_call tier)"
      by (simp_all add: shown_tier_def)
    ultimately show ?thesis by (simp only: has_tokens_def)
  qed
  ultimately have "body_text (call_text (shown_tier tier)) (tokens_text (shown_tier tier)) = body_text (call_text tier) (tokens_text tier)"
    by (simp add: call_text_def tokens_text_def) (simp add: shown_tier_def)
  moreover have "?l \<noteq> []" by (simp add: or_str_def split: option.splits)
  ultimately show "generateExprFromVisualConfig (Some [shown_tier tier]) = generateExprFromVisualConfig (Some [tier])"
    by (simp add: generateExprFromVisualConfig_def cond tier_call_def build_body_text)
      (simp add: shown_tier_def buildConditionStr_def or_str_def)
qed

definition sample_tier :: visual_tier where
  "sample_tier =
     \<lparr>vt_label = Some (js ''base''), vt_conditions = Some [], vt_input = JNum (Fin 3), vt_output = JNum (Fin 15),
      vt_call = JNum (Fin 2), vt_cache_mode = Some CACHE_MODE_TIMED,
      vt_extra = [(js ''cache_read_unit_cost'', JNum (Fin (1 / 2)))]\<rparr>"

theorem single_tier_round_trip_witness:
  "tryParseVisualConfig (Some (generateExprFromVisualConfig (Some [sample_tier]))) = Some (Some [shown_tier sample_tier])"
proof -
  have "tier_ok sample_tier" by code_simp
  then show ?thesis using single_tier_round_trip by blast
qed

subsection \<open>Observations\<close>

text \<open>The single-tier pattern accepts a number that is none, and the tier is shown without comparing
  its text with the expression: saving turns the price into zero.\<close>

lemma unchecked_price:
  "map_option (map_option (\<lambda>c. generateExprFromVisualConfig (Some c)))
     (tryParseVisualConfig (Some (js ''tier(\"a\", p * 1-2 + c * 3)''))) =
   Some (Some (js ''tier(\"a\", p * 0 + c * 3)''))"
  by code_simp

text \<open>The conditions of the last of several tiers are not printed.\<close>

lemma last_conditions_dropped:
  "generateExprFromVisualConfig (Some (ts @ [t, t'\<lparr>vt_conditions := cs\<rparr>])) =
   generateExprFromVisualConfig (Some (ts @ [t, t'\<lparr>vt_conditions := cs'\<rparr>]))"
proof -
  have body: "buildTierBodyExpr (t'\<lparr>vt_conditions := c\<rparr>) = buildTierBodyExpr t'" for c
    by (simp add: buildTierBodyExpr_def Let_def)
  have "tier_parts i (ts @ [t, t'\<lparr>vt_conditions := cs\<rparr>]) = tier_parts i (ts @ [t, t'\<lparr>vt_conditions := cs'\<rparr>])" for i
    by (induction ts arbitrary: i) (simp_all add: tier_call_def body)
  moreover have "generateExprFromVisualConfig (Some (ts @ [t, u])) = join (js '' : '') (tier_parts 0 (ts @ [t, u]))" for u
    by (cases ts; cases "tl ts") (simp_all add: generateExprFromVisualConfig_def)
  ultimately show ?thesis by simp
qed

text \<open>A tier without conditions before the last one prints an expression that is none.\<close>

lemma unconditional_tier_first:
  "generateExprFromVisualConfig (Some [sample_tier, sample_tier]) =
   js ''tier(\"base\", call(2) + p * 3 + c * 15 + cr * 0.5) : tier(\"base\", call(2) + p * 3 + c * 15 + cr * 0.5)''"
  by code_simp

text \<open>A quotation mark in a label ends the label in the text.\<close>

lemma label_not_escaped:
  "generateExprFromVisualConfig (Some [sample_tier\<lparr>vt_label := Some [97, 34, 98], vt_call := JUndef, vt_extra := []\<rparr>]) =
     js ''tier(\"a\"b\", p * 3 + c * 15)'' \<and>
   tryParseVisualConfig (Some (js ''tier(\"a\"b\", p * 3 + c * 15)'')) = Some None"
  by code_simp

text \<open>The timed cache mode of a tier without a one-hour price is lost.\<close>

lemma timed_mode_lost: "vt_cache_mode (shown_tier sample_tier) = Some CACHE_MODE_GENERIC"
  by code_simp

text \<open>The body of a tier is a repetition of repetitions: a text of \<open>n\<close> units without parentheses can be
  cut in \<open>2 ^ n - 1\<close> ways, and when the closing parenthesis is missing the matcher tries them all.\<close>

definition tier_body_rx :: rx where
  "tier_body_rx = Plus (alts [Plus (Cls (\<lambda>c. c \<noteq> 40 \<and> c \<noteq> 41)),
     seqs [lit ''call'', ws, lit ''('', ws, num_rx, ws, lit '')'']])"

lemma star_unit_ways:
  "P c \<Longrightarrow> k \<le> m \<Longrightarrow> star_run (rx_run s (Cls P)) m (replicate k c, cs) = map (\<lambda>j. (replicate j c, cs)) [0..<Suc k]"
proof (induction m arbitrary: k)
  case (Suc m)
  then show ?case by (cases k) (auto simp: rx_run.simps)
qed simp

lemma plus_unit_ways:
  "P c \<Longrightarrow> rx_run s (Plus (Cls P)) (replicate n c, cs) = map (\<lambda>j. (replicate j c, cs)) [0..<n]"
  by (cases n) (simp_all add: Plus_def rx_run.simps star_unit_ways del: upt_Suc)

lemma star_ways:
  assumes step: "\<And>k. f (replicate k c, cs) = map (\<lambda>j. (replicate j c, cs)) [0..<k]"
  shows "k \<le> m \<Longrightarrow> length (star_run f m (replicate k c, cs)) = 2 ^ k"
proof (induction m arbitrary: k)
  case (Suc m)
  have "length (star_run f (Suc m) (replicate k c, cs)) = Suc (\<Sum>j\<leftarrow>[0..<k]. length (star_run f m (replicate j c, cs)))"
  proof -
    have "length (concat (map (\<lambda>st'. if length (fst st') < k then star_run f m st' else [])
        (map (\<lambda>j. (replicate j c, cs)) ns))) = (\<Sum>j\<leftarrow>ns. length (star_run f m (replicate j c, cs)))"
      if "\<forall>j\<in>set ns. j < k" for ns
      using that by (induction ns) auto
    from this [of "[0..<k]"] show ?thesis by (simp add: step)
  qed
  also have "(\<Sum>j\<leftarrow>[0..<k]. length (star_run f m (replicate j c, cs))) = (\<Sum>j\<leftarrow>[0..<k]. 2 ^ j)"
    using Suc by (intro arg_cong [where f = sum_list] map_cong) auto
  also have "Suc (\<Sum>j\<leftarrow>[0..<k]. 2 ^ j) = 2 ^ k" by (induction k) simp_all
  finally show ?case .
qed simp

lemma tier_body_ways:
  assumes "c \<notin> {40, 41, 99}"
  shows "length (rx_run s tier_body_rx (replicate n c, cs)) = 2 ^ n - 1"
proof -
  let ?r = "alts [Plus (Cls (\<lambda>c. c \<noteq> 40 \<and> c \<noteq> 41)), seqs [lit ''call'', ws, lit ''('', ws, num_rx, ws, lit '')'']]"
  have step: "rx_run s ?r (replicate k c, cs) = map (\<lambda>j. (replicate j c, cs)) [0..<k]" for k
    using assms plus_unit_ways [of "\<lambda>c. c \<noteq> 40 \<and> c \<noteq> 41" c s k cs]
    by (cases k) (auto simp: alts.simps seqs.simps rx_run.simps lit_def js_def)
  have "length (concat (map (rx_run s (Star ?r)) (map (\<lambda>j. (replicate j c, cs)) ns))) = (\<Sum>j\<leftarrow>ns. 2 ^ j)" for ns
    using star_ways [OF step] by (induction ns) (simp_all add: rx_run.simps)
  moreover have "(\<Sum>j\<leftarrow>[0..<n]. 2 ^ j) = (2 ^ n - 1 :: nat)" by (induction n) simp_all
  ultimately show ?thesis by (simp add: tier_body_rx_def Plus_def [of ?r] rx_run.simps(4) step)
qed

lemma tierRe_body: "tierRe = seqs [Opt (seqs [alts [Bol, lit '':''], ws, cond_list_rx tier_var_rx, ws, lit ''?'', ws]),
    label_rx 2, Cap 3 tier_body_rx, lit '')'']"
  by (simp add: tierRe_def tier_body_rx_def)

end
