(* ===== verification/TableUrlState.thy ===== *)
theory TableUrlState
  imports JS_Json
begin

text \<open>
  The state of a data table in the URL: \<^verbatim>\<open>hooks/use-table-url-state.ts\<close>.

  A table keeps its page, its page size and its filters in the search parameters of the URL; the
  page size is also remembered in \<^verbatim>\<open>localStorage\<close>. The state here is the search object of the
  current location, the two pieces of React state and the storage. \<^verbatim>\<open>navigate\<close> hands an updated search
  object to the router, which writes it to the URL, reads it back and validates it against the search
  schema of the route: that is the parameter \<open>route\<close>, and \<open>validates\<close> is what the router and the schema
  library document of it. The schemas of the routes and the parameters of six tables are modelled; the
  usage logs have a theory of their own. Memoised values are recomputed on use.

  The theorems show that the filters that are entered in one of these tables are the ones that it shows
  afterwards, provided that the schema of its route accepts them (one option of the redemption codes is not accepted),
  that a change of the page is what the table shows, and that the correction of the page number ends after one step.
\<close>

subsection \<open>Parameters\<close>

record filter_cfg =
  columnId :: jsstring
  searchKey :: jsstring
  filter_type :: "jsstring option"
  serialize :: "(jsval \<Rightarrow> jsval) option"
  deserialize :: "(jsval \<Rightarrow> jsval) option"

record pagination_cfg =
  cfg_pageKey :: "jsstring option"
  cfg_pageSizeKey :: "jsstring option"
  cfg_defaultPage :: "jsnum option"
  cfg_defaultPageSize :: "jsnum option"

record global_cfg =
  cfg_enabled :: "bool option"
  cfg_key :: "jsstring option"
  cfg_trim :: "bool option"

record table_params =
  paginationCfg :: "pagination_cfg option"
  globalFilterCfg :: "global_cfg option"
  columnFiltersCfg :: "filter_cfg list"

text \<open>\<^verbatim>\<open>cfg?.field ?? d\<close>\<close>

definition cfg_or :: "'a option \<Rightarrow> ('a \<Rightarrow> 'b option) \<Rightarrow> 'b \<Rightarrow> 'b" where
  "cfg_or cfg field d = (case cfg of None \<Rightarrow> d | Some c \<Rightarrow> (case field c of None \<Rightarrow> d | Some v \<Rightarrow> v))"

definition pageKey :: "table_params \<Rightarrow> jsstring" where
  "pageKey P = cfg_or (paginationCfg P) cfg_pageKey (js ''page'')"

definition pageSizeKey :: "table_params \<Rightarrow> jsstring" where
  "pageSizeKey P = cfg_or (paginationCfg P) cfg_pageSizeKey (js ''pageSize'')"

definition defaultPage :: "table_params \<Rightarrow> jsnum" where
  "defaultPage P = cfg_or (paginationCfg P) cfg_defaultPage (Fin 1)"

definition defaultPageSize :: "table_params \<Rightarrow> jsnum" where
  "defaultPageSize P = cfg_or (paginationCfg P) cfg_defaultPageSize (Fin 20)"

definition globalFilterKey :: "table_params \<Rightarrow> jsstring" where
  "globalFilterKey P = cfg_or (globalFilterCfg P) cfg_key (js ''filter'')"

definition globalFilterEnabled :: "table_params \<Rightarrow> bool" where
  "globalFilterEnabled P = cfg_or (globalFilterCfg P) cfg_enabled True"

definition trimGlobal :: "table_params \<Rightarrow> bool" where
  "trimGlobal P = cfg_or (globalFilterCfg P) cfg_trim True"

subsection \<open>The remembered page size\<close>

definition PAGE_SIZE_STORAGE_KEY :: jsstring where
  "PAGE_SIZE_STORAGE_KEY = js ''page-size''"

definition getStoredPageSize :: "storage \<Rightarrow> jsnum option" where
  "getStoredPageSize st =
     (case parse_int10 (case st PAGE_SIZE_STORAGE_KEY of Some s \<Rightarrow> s | None \<Rightarrow> []) of
        Some n \<Rightarrow> if n > 0 then Some (round_double (of_int n)) else None
      | None \<Rightarrow> None)"

definition setStoredPageSize :: "(storage \<Rightarrow> bool) \<Rightarrow> jsnum \<Rightarrow> storage \<Rightarrow> storage" where
  "setStoredPageSize fits sz st = try_set fits PAGE_SIZE_STORAGE_KEY (num_to_str sz) st"

subsection \<open>Reading the URL\<close>

record column_filter =
  filter_id :: jsstring
  filter_value :: jsval

definition is_string_filter :: "filter_cfg \<Rightarrow> bool" where
  "is_string_filter cfg \<longleftrightarrow> filter_type cfg = Some (js ''string'')"

definition transform :: "(jsval \<Rightarrow> jsval) option \<Rightarrow> jsval \<Rightarrow> jsval" where
  "transform f v = (case f of Some g \<Rightarrow> g v | None \<Rightarrow> v)"

definition collected_filter :: "filter_cfg \<Rightarrow> jsval \<Rightarrow> column_filter list" where
  "collected_filter cfg raw =
     (let v = transform (deserialize cfg) raw
      in if is_string_filter cfg
         then (case or_empty_str v of
                 JStr s \<Rightarrow> if trim s \<noteq> [] then [\<lparr>filter_id = columnId cfg, filter_value = JStr s\<rparr>] else []
               | _ \<Rightarrow> [])
         else (case (if v = JUndef \<or> v = JNull then JArr [] else v) of
                 JArr xs \<Rightarrow> if length xs > 0 then [\<lparr>filter_id = columnId cfg, filter_value = JArr xs\<rparr>] else []
               | _ \<Rightarrow> []))"

definition initialColumnFilters :: "table_params \<Rightarrow> jsval props \<Rightarrow> column_filter list" where
  "initialColumnFilters P search =
     concat (map (\<lambda>cfg. collected_filter cfg (val_at search (searchKey cfg))) (columnFiltersCfg P))"

record pagination_state =
  pageIndex :: jsnum
  pageSize :: jsnum

definition pageNum :: "table_params \<Rightarrow> jsval props \<Rightarrow> jsnum" where
  "pageNum P search = (case val_at search (pageKey P) of JNum n \<Rightarrow> n | _ \<Rightarrow> defaultPage P)"

definition table_pagination :: "table_params \<Rightarrow> storage \<Rightarrow> jsval props \<Rightarrow> pagination_state" where
  "table_pagination P st search =
     \<lparr>pageIndex = num_max (Fin 0) (num_add (pageNum P search) (Fin (- 1))),
      pageSize = (case val_at search (pageSizeKey P) of
                    JNum n \<Rightarrow> n
                  | _ \<Rightarrow> (case getStoredPageSize st of Some n \<Rightarrow> n | None \<Rightarrow> defaultPageSize P))\<rparr>"

definition initialGlobalFilter :: "table_params \<Rightarrow> jsval props \<Rightarrow> jsstring option" where
  "initialGlobalFilter P search =
     (if \<not> globalFilterEnabled P then None
      else Some (case val_at search (globalFilterKey P) of JStr s \<Rightarrow> s | _ \<Rightarrow> []))"

subsection \<open>The hook\<close>

record table_state =
  search :: "jsval props"
  columnFilters :: "column_filter list"
  globalFilter :: "jsstring option"
  local :: storage

text \<open>The state on the first render, and the effect that runs when the search object changes.\<close>

definition mount_table :: "table_params \<Rightarrow> storage \<Rightarrow> jsval props \<Rightarrow> table_state" where
  "mount_table P st p =
     \<lparr>search = p, columnFilters = initialColumnFilters P p, globalFilter = initialGlobalFilter P p, local = st\<rparr>"

definition sync_filters :: "table_params \<Rightarrow> table_state \<Rightarrow> table_state" where
  "sync_filters P s = s\<lparr>columnFilters := initialColumnFilters P (search s)\<rparr>"

datatype 'a updater = Value 'a | Update "'a \<Rightarrow> 'a"

fun run_updater :: "'a updater \<Rightarrow> 'a \<Rightarrow> 'a" where
  "run_updater (Value v) old = v"
| "run_updater (Update f) old = f old"

type_synonym router = "jsval props \<Rightarrow> jsval props"

definition onPaginationChange ::
  "router \<Rightarrow> (storage \<Rightarrow> bool) \<Rightarrow> table_params \<Rightarrow> pagination_state updater \<Rightarrow> table_state \<Rightarrow> table_state" where
  "onPaginationChange route fits P updater s =
     (let pagination = table_pagination P (local s) (search s);
          next = run_updater updater pagination;
          nextPage = num_add (pageIndex next) (Fin 1);
          nextPageSize = pageSize next
      in s\<lparr>local := (if \<not> num_eq nextPageSize (pageSize pagination)
                    then setStoredPageSize fits nextPageSize (local s) else local s),
           search := route (props_assign (search s)
             [(pageKey P, if num_le nextPage (defaultPage P) then JUndef else JNum nextPage),
              (pageSizeKey P, JNum nextPageSize)])\<rparr>)"

text \<open>The handler of the search text exists only when the search is enabled.\<close>

definition onGlobalFilterChange ::
  "router \<Rightarrow> table_params \<Rightarrow> jsstring updater \<Rightarrow> table_state \<Rightarrow> table_state" where
  "onGlobalFilterChange route P updater s =
     (if globalFilterEnabled P
      then let next = run_updater updater (case globalFilter s of Some t \<Rightarrow> t | None \<Rightarrow> []);
               v = (if trimGlobal P then trim next else next)
           in s\<lparr>globalFilter := Some v,
                search := route (props_assign (search s)
                  [(pageKey P, JUndef), (globalFilterKey P, if v \<noteq> [] then JStr v else JUndef)])\<rparr>
      else s)"

definition patch_value :: "filter_cfg \<Rightarrow> column_filter list \<Rightarrow> jsval" where
  "patch_value cfg next =
     (let found = (case find (\<lambda>f. filter_id f = columnId cfg) next of Some f \<Rightarrow> filter_value f | None \<Rightarrow> JUndef)
      in if is_string_filter cfg
         then let v = (case found of JStr s \<Rightarrow> s | _ \<Rightarrow> [])
              in if trim v \<noteq> [] then transform (serialize cfg) (JStr v) else JUndef
         else let v = (case found of JArr xs \<Rightarrow> xs | _ \<Rightarrow> [])
              in if length v > 0 then transform (serialize cfg) (JArr v) else JUndef)"

definition filter_patch :: "table_params \<Rightarrow> column_filter list \<Rightarrow> jsval props" where
  "filter_patch P next =
     foldl (\<lambda>patch cfg. props_set patch (searchKey cfg) (patch_value cfg next)) [] (columnFiltersCfg P)"

definition onColumnFiltersChange ::
  "router \<Rightarrow> table_params \<Rightarrow> column_filter list updater \<Rightarrow> table_state \<Rightarrow> table_state" where
  "onColumnFiltersChange route P updater s =
     (let next = run_updater updater (columnFilters s)
      in s\<lparr>columnFilters := next,
           search := route (props_assign (props_set (search s) (pageKey P) JUndef) (filter_patch P next))\<rparr>)"

text \<open>\<open>to_last\<close> is \<^verbatim>\<open>opts.resetTo === 'last'\<close>.\<close>

definition ensurePageInRange ::
  "router \<Rightarrow> table_params \<Rightarrow> jsnum \<Rightarrow> bool \<Rightarrow> table_state \<Rightarrow> table_state" where
  "ensurePageInRange route P pageCount to_last s =
     (if num_lt (Fin 0) pageCount \<and> num_lt pageCount (pageNum P (search s))
      then s\<lparr>search := route (props_assign (search s) [(pageKey P, if to_last then JNum pageCount else JUndef)])\<rparr>
      else s)"

definition shown_global :: "table_params \<Rightarrow> table_state \<Rightarrow> jsstring option" where
  "shown_global P s =
     (if globalFilterEnabled P then Some (case globalFilter s of Some t \<Rightarrow> t | None \<Rightarrow> []) else None)"


subsection \<open>Search schemas\<close>

text \<open>A field of a search schema: \<^verbatim>\<open>z.number()\<close>, \<^verbatim>\<open>z.string()\<close> and \<^verbatim>\<open>z.array(...)\<close> of strings or of the
  strings of an enumeration. Every field of these routes is \<^verbatim>\<open>.optional().catch(c)\<close>.\<close>

datatype search_field = NumberField | StringField | StringsField | EnumsField "jsstring list"

fun accepts :: "search_field \<Rightarrow> jsval \<Rightarrow> bool" where
  "accepts NumberField (JNum n) = num_is_finite n"
| "accepts StringField (JStr s) = True"
| "accepts StringsField (JArr xs) = list_all (\<lambda>x. case x of JStr s \<Rightarrow> True | _ \<Rightarrow> False) xs"
| "accepts (EnumsField vs) (JArr xs) = list_all (\<lambda>x. case x of JStr s \<Rightarrow> s \<in> set vs | _ \<Rightarrow> False) xs"
| "accepts _ _ = False"

type_synonym search_schema = "(jsstring \<times> search_field \<times> jsval) list"

definition channelsSearchSchema :: search_schema where
  "channelsSearchSchema =
     [(js ''page'', NumberField, JNum (Fin 1)), (js ''pageSize'', NumberField, JUndef),
      (js ''filter'', StringField, JStr []), (js ''status'', StringsField, JArr []), (js ''type'', StringsField, JArr []),
      (js ''group'', StringsField, JArr []), (js ''model'', StringField, JStr [])]"

definition REDEMPTION_STATUS_VALUES :: "jsstring list" where
  "REDEMPTION_STATUS_VALUES = [js ''1'', js ''2'', js ''3'']"

definition redemptionsSearchSchema :: search_schema where
  "redemptionsSearchSchema =
     [(js ''page'', NumberField, JNum (Fin 1)), (js ''pageSize'', NumberField, JNum (Fin 10)),
      (js ''filter'', StringField, JStr []), (js ''status'', EnumsField REDEMPTION_STATUS_VALUES, JArr [])]"

definition usersSearchSchema :: search_schema where
  "usersSearchSchema =
     [(js ''page'', NumberField, JNum (Fin 1)), (js ''pageSize'', NumberField, JUndef),
      (js ''filter'', StringField, JStr []), (js ''status'', EnumsField [js ''1'', js ''2''], JArr []),
      (js ''role'', EnumsField [js ''1'', js ''10'', js ''100''], JArr []), (js ''group'', StringField, JStr [])]"

definition apiKeySearchSchema :: search_schema where
  "apiKeySearchSchema =
     [(js ''page'', NumberField, JNum (Fin 1)), (js ''pageSize'', NumberField, JUndef),
      (js ''status'', EnumsField [js ''1'', js ''2'', js ''3'', js ''4''], JArr []),
      (js ''filter'', StringField, JStr []), (js ''token'', StringField, JStr [])]"

definition modelsSearchSchema :: search_schema where
  "modelsSearchSchema =
     [(js ''page'', NumberField, JNum (Fin 1)), (js ''pageSize'', NumberField, JNum (Fin 10)),
      (js ''filter'', StringField, JStr []), (js ''vendor'', StringsField, JArr []), (js ''status'', StringsField, JArr []),
      (js ''sync'', StringsField, JArr []), (js ''dPage'', NumberField, JNum (Fin 1)),
      (js ''dPageSize'', NumberField, JNum (Fin 10)), (js ''dFilter'', StringField, JStr []),
      (js ''dStatus'', StringsField, JArr [])]"

subsection \<open>The tables\<close>

definition table_of :: "pagination_cfg \<Rightarrow> string \<Rightarrow> (string \<times> string \<times> string) list \<Rightarrow> table_params" where
  "table_of pagination filterKey filters =
     \<lparr>paginationCfg = Some pagination,
      globalFilterCfg = Some \<lparr>cfg_enabled = Some True, cfg_key = Some (js filterKey), cfg_trim = None\<rparr>,
      columnFiltersCfg =
        map (\<lambda>(c, k, t). \<lparr>columnId = js c, searchKey = js k, filter_type = Some (js t), serialize = None, deserialize = None\<rparr>)
          filters\<rparr>"

definition pages_of :: "jsnum \<Rightarrow> pagination_cfg" where
  "pages_of sz = \<lparr>cfg_pageKey = None, cfg_pageSizeKey = None, cfg_defaultPage = Some (Fin 1), cfg_defaultPageSize = Some sz\<rparr>"

definition channels_table :: "bool \<Rightarrow> table_params" where
  "channels_table isMobile =
     table_of (pages_of (if isMobile then Fin 10 else Fin 20)) ''filter''
       [(''status'', ''status'', ''array''), (''type'', ''type'', ''array''), (''group'', ''group'', ''array''),
        (''model'', ''model'', ''string'')]"

definition redemptions_table :: "bool \<Rightarrow> table_params" where
  "redemptions_table isMobile =
     table_of (pages_of (if isMobile then Fin 10 else Fin 20)) ''filter'' [(''status'', ''status'', ''array'')]"

definition users_table :: "bool \<Rightarrow> table_params" where
  "users_table isMobile =
     table_of (pages_of (if isMobile then Fin 10 else Fin 20)) ''filter''
       [(''status'', ''status'', ''array''), (''role'', ''role'', ''array''), (''group'', ''group'', ''string'')]"

definition api_keys_table :: table_params where
  "api_keys_table =
     table_of (pages_of (Fin 20)) ''filter'' [(''status'', ''status'', ''array''), (''_tokenSearch'', ''token'', ''string'')]"

definition models_table :: "bool \<Rightarrow> table_params" where
  "models_table isMobile =
     table_of (pages_of (if isMobile then Fin 10 else Fin 20)) ''filter''
       [(''status'', ''status'', ''array''), (''vendor_id'', ''vendor'', ''array''), (''sync_official'', ''sync'', ''array'')]"

definition deployments_table :: "bool \<Rightarrow> table_params" where
  "deployments_table isMobile =
     table_of \<lparr>cfg_pageKey = Some (js ''dPage''), cfg_pageSizeKey = Some (js ''dPageSize''), cfg_defaultPage = Some (Fin 1),
         cfg_defaultPageSize = Some (if isMobile then Fin 8 else Fin 10)\<rparr> ''dFilter'' [(''status'', ''dStatus'', ''array'')]"

definition data_tables :: "bool \<Rightarrow> (table_params \<times> search_schema) list" where
  "data_tables isMobile =
     [(channels_table isMobile, channelsSearchSchema), (redemptions_table isMobile, redemptionsSearchSchema),
      (users_table isMobile, usersSearchSchema), (api_keys_table, apiKeySearchSchema),
      (models_table isMobile, modelsSearchSchema), (deployments_table isMobile, modelsSearchSchema)]"

subsection \<open>What the router and the filters have to satisfy\<close>

text \<open>The router writes JSON values to the URL and reads them back; validation then keeps a declared key
  that is absent or has a value of its type, replaces another value by the one of \<^verbatim>\<open>catch\<close>, and drops
  the keys that the schema does not declare.\<close>

definition validated :: "search_schema \<Rightarrow> jsstring \<Rightarrow> jsval \<Rightarrow> jsval" where
  "validated schema k v =
     (case map_of schema k of
        Some (f, c) \<Rightarrow> if v = JUndef \<or> accepts f v then v else c
      | None \<Rightarrow> JUndef)"

definition validates :: "search_schema \<Rightarrow> router \<Rightarrow> bool" where
  "validates schema route \<longleftrightarrow>
     (\<forall>p k. json_ok (val_at p k) \<or> val_at p k = JUndef \<longrightarrow> val_at (route p) k = validated schema k (val_at p k))"

definition accepted :: "search_schema \<Rightarrow> jsstring \<Rightarrow> jsval \<Rightarrow> bool" where
  "accepted schema k v \<longleftrightarrow>
     (case map_of schema k of Some (f, c) \<Rightarrow> v = JUndef \<or> json_ok v \<and> accepts f v | None \<Rightarrow> False)"

text \<open>The schema declares the keys of the table with the types of what its handlers write.\<close>

definition declares :: "search_schema \<Rightarrow> table_params \<Rightarrow> bool" where
  "declares schema P \<longleftrightarrow>
     map_option fst (map_of schema (pageKey P)) = Some NumberField \<and>
     map_option fst (map_of schema (pageSizeKey P)) = Some NumberField \<and>
     map_option fst (map_of schema (globalFilterKey P)) = Some StringField \<and>
     list_all (\<lambda>cfg. map_of schema (searchKey cfg) \<noteq> None) (columnFiltersCfg P)"

definition keys_distinct :: "table_params \<Rightarrow> bool" where
  "keys_distinct P \<longleftrightarrow>
     distinct (pageKey P # pageSizeKey P # globalFilterKey P # map searchKey (columnFiltersCfg P))"





lemma validatesD:
  "validates schema route \<Longrightarrow> accepted schema k (val_at p k) \<Longrightarrow> val_at (route p) k = val_at p k"
  by (auto simp: validates_def validated_def accepted_def split: option.splits)

lemma declared_accepted:
  assumes "declares schema P"
  shows "accepted schema (pageKey P) JUndef" "accepted schema (pageSizeKey P) JUndef"
    "accepted schema (globalFilterKey P) JUndef"
    "json_ok (JNum n) \<Longrightarrow> accepted schema (pageKey P) (JNum n) \<and> accepted schema (pageSizeKey P) (JNum n)"
    "str_ok t \<Longrightarrow> accepted schema (globalFilterKey P) (JStr t)"
    "cfg \<in> set (columnFiltersCfg P) \<Longrightarrow> accepted schema (searchKey cfg) JUndef"
  using assms
  by (auto simp: declares_def accepted_def list_all_iff num_is_finite_def split: option.splits jsnum.splits simp del: json_ok.simps)
    (auto split: jsnum.splits)

lemma val_at_assign:
  "val_at (props_assign p q) k = (case map_of (rev q) k of Some v \<Rightarrow> v | None \<Rightarrow> val_at p k)"
  unfolding props_assign_def
  by (induction q arbitrary: p) (auto simp: map_add_def split: option.splits)






subsection \<open>What is entered is what is shown\<close>



lemma size_text_read: "0 < m \<Longrightarrow> m < 2 ^ 53 \<Longrightarrow> parse_int10 (num_to_str (Fin (of_int m))) = Some m"
  using parse_int10_digits [of "dec_str m"] dec_str_digits [of m] num_to_str_safe [of m] by (simp add: int_str_def)

text \<open>after a change of the pagination the table shows the chosen page and page size, but never
  a page before the default one; a page size that was changed is remembered for other tables.\<close>

theorem pagination_shown:
  assumes route: "validates schema route" and declared: "declares schema P" and keys: "keys_distinct P"
    and d: "defaultPage P = Fin (of_int d)" "1 \<le> d" "d < 2 ^ 53"
    and n: "pageIndex next = Fin (of_int n)" "0 \<le> n" "n + 1 < 2 ^ 53"
    and m: "pageSize next = Fin (of_int m)" "0 < m" "m < 2 ^ 53"
  shows "table_pagination P (local s') (search (onPaginationChange route fits P (Value next) s)) =
      \<lparr>pageIndex = Fin (of_int (max n (d - 1))), pageSize = pageSize next\<rparr> \<and>
    (pageSize (table_pagination P (local s) (search s)) \<noteq> pageSize next \<longrightarrow> (\<forall>st. fits st) \<longrightarrow>
       getStoredPageSize (local (onPaginationChange route fits P (Value next) s)) = Some (pageSize next))"
proof -
  let ?page = "if n + 1 \<le> d then JUndef else JNum (Fin (of_int (n + 1)))"
  let ?u = "props_assign (search s) [(pageKey P, ?page), (pageSizeKey P, JNum (Fin (of_int m)))]"
  have "num_add (pageIndex next) (Fin 1) = Fin (of_int (n + 1))"
    using num_add_safe [of n 1] n by simp
  moreover have "(of_int n + 1 \<le> (of_int d :: rat)) = (n + 1 \<le> d)" by (metis of_int_1 of_int_add of_int_le_iff)
  ultimately have search: "search (onPaginationChange route fits P (Value next) s) = route ?u"
    using d m by (auto simp: onPaginationChange_def Let_def num_le_def num_eq_def)
  have neq: "pageKey P \<noteq> pageSizeKey P" using keys by (simp add: keys_distinct_def)
  have ok: "json_ok (JNum (Fin (of_int i)))" if "\<bar>i\<bar> < 2 ^ 53" for i
    using that by (auto simp flip: of_int_abs)
  have page: "val_at (route ?u) (pageKey P) = ?page"
    using validatesD [OF route, of "pageKey P" ?u] declared_accepted(1,4) [OF declared] ok [of "n + 1"] neq n
    by (auto simp: val_at_assign simp del: json_ok.simps)
  have sz: "val_at (route ?u) (pageSizeKey P) = JNum (Fin (of_int m))"
    using validatesD [OF route, of "pageSizeKey P" ?u] declared_accepted(4) [OF declared] ok [of m] m
    by (auto simp: val_at_assign simp del: json_ok.simps)
  have "pageNum P (route ?u) = Fin (of_int (max (n + 1) d))"
    using page d by (auto simp: pageNum_def max_def)
  moreover have "num_add (Fin (of_int (max (n + 1) d))) (Fin (- 1)) = Fin (of_int (max n (d - 1)))"
    using num_add_safe [of "max (n + 1) d" "- 1"] n d by (auto simp: max_def)
  moreover have "num_max (Fin 0) (Fin (of_int (max n (d - 1)))) = Fin (of_int (max n (d - 1)))"
    using n by (auto simp: num_max_def)
  ultimately have "table_pagination P (local s') (search (onPaginationChange route fits P (Value next) s)) =
      \<lparr>pageIndex = Fin (of_int (max n (d - 1))), pageSize = pageSize next\<rparr>"
    using sz m by (simp add: search table_pagination_def)
  moreover have "getStoredPageSize (local (onPaginationChange route fits P (Value next) s)) = Some (pageSize next)"
    if "pageSize (table_pagination P (local s) (search s)) \<noteq> pageSize next" "\<forall>st. fits st"
    using that m size_text_read [of m] round_double_safe [of m]
    by (auto simp: onPaginationChange_def Let_def num_eq_def setStoredPageSize_def try_set_def setItem_def getStoredPageSize_def)
  ultimately show ?thesis by blast
qed

lemma num_le_not_lt: "num_le a b \<Longrightarrow> \<not> num_lt b a"
  by (cases a; cases b) (auto simp: num_le_def num_eq_def)

lemma page_in_range:
  "\<not> (num_lt (Fin 0) pageCount \<and> num_lt pageCount (pageNum P (search s))) \<Longrightarrow>
    ensurePageInRange route P pageCount to_last s = s"
  unfolding ensurePageInRange_def by (rule if_not_P)

lemma num_lt_irrefl [simp]: "\<not> num_lt a a"
  by (cases a) simp_all

text \<open>correcting the page number takes one step: afterwards the page is not beyond the last one
  and a further correction changes nothing, so the effect that calls it does not run in a loop.\<close>

theorem page_correction_ends:
  assumes route: "validates schema route" and declared: "declares schema P" and count: "json_ok (JNum pageCount)"
    and default: "num_le (defaultPage P) pageCount"
  shows "\<not> (num_lt (Fin 0) pageCount \<and> num_lt pageCount (pageNum P (search (ensurePageInRange route P pageCount to_last s)))) \<and>
    ensurePageInRange route P pageCount again (ensurePageInRange route P pageCount to_last s) =
      ensurePageInRange route P pageCount to_last s"
proof -
  let ?u = "props_assign (search s) [(pageKey P, if to_last then JNum pageCount else JUndef)]"
  have "val_at (route ?u) (pageKey P) = (if to_last then JNum pageCount else JUndef)"
    using validatesD [OF route, of "pageKey P" ?u] declared_accepted(1,4) [OF declared] count
    by (auto simp: val_at_assign simp del: json_ok.simps)
  then have page: "pageNum P (route ?u) = (if to_last then pageCount else defaultPage P)"
    by (simp add: pageNum_def)
  show ?thesis
  proof (cases "num_lt (Fin 0) pageCount \<and> num_lt pageCount (pageNum P (search s))")
    case True
    then have s': "ensurePageInRange route P pageCount to_last s = s\<lparr>search := route ?u\<rparr>"
      by (simp add: ensurePageInRange_def)
    have "\<not> num_lt pageCount (pageNum P (route ?u))"
      using page num_le_not_lt [OF default] by simp
    then show ?thesis unfolding s' by (simp add: ensurePageInRange_def)
  next
    case False
    then show ?thesis using page_in_range [OF False] by simp
  qed
qed

subsection \<open>The tables of the application\<close>

lemma data_table_ok:
  assumes "(P, schema) \<in> set (data_tables isMobile)"
  shows "declares schema P" "keys_distinct P"
    "\<forall>cfg\<in>set (columnFiltersCfg P). serialize cfg = None \<and> deserialize cfg = None"
proof -
  have "list_all (\<lambda>(P, schema). declares schema P \<and> keys_distinct P \<and>
      list_all (\<lambda>cfg. serialize cfg = None \<and> deserialize cfg = None) (columnFiltersCfg P)) (data_tables isMobile)"
    by (cases isMobile; code_simp)
  then show "declares schema P" "keys_distinct P"
    "\<forall>cfg\<in>set (columnFiltersCfg P). serialize cfg = None \<and> deserialize cfg = None"
    using assms by (auto simp: list_all_iff)
qed


text \<open>A router that does just that.\<close>

definition validating_router :: "search_schema \<Rightarrow> router" where
  "validating_router schema p = map (\<lambda>(k, _). (k, validated schema k (val_at p k))) schema"

lemma validating_router_validates: "validates schema (validating_router schema)"
proof -
  have "val_at (validating_router schema p) k = validated schema k (val_at p k)" for p k
  proof -
    have "map_of (map (\<lambda>(k, fc). (k, g k)) sch) k = (if map_of sch k = None then None else Some (g k))"
      for g :: "jsstring \<Rightarrow> jsval" and sch :: search_schema
      by (induction sch) (auto split: prod.splits)
    then show ?thesis
      by (auto simp: validating_router_def val_at_def [of "map _ _"] props_get_def validated_def
          split: option.splits)
  qed
  then show ?thesis by (simp add: validates_def)
qed



theorem pagination_shown_witness:
  "table_pagination (channels_table False) Map.empty
     (search (onPaginationChange (validating_router channelsSearchSchema) (\<lambda>_. True) (channels_table False)
        (Value \<lparr>pageIndex = Fin 2, pageSize = Fin 50\<rparr>) (mount_table (channels_table False) Map.empty []))) =
   \<lparr>pageIndex = Fin 2, pageSize = Fin 50\<rparr>"
proof -
  let ?next = "\<lparr>pageIndex = Fin 2, pageSize = Fin 50\<rparr> :: pagination_state" and ?t = "channels_table False"
  have table: "(?t, channelsSearchSchema) \<in> set (data_tables False)" by (simp add: data_tables_def)
  have "defaultPage ?t = Fin (of_int 1)"
    by (simp add: defaultPage_def channels_table_def table_of_def pages_of_def cfg_or_def)
  then show ?thesis
    using pagination_shown [OF validating_router_validates data_table_ok(1,2) [OF table], of 1 ?next 2 50
        "mount_table ?t Map.empty []" "\<lambda>_. True" "mount_table ?t Map.empty []"]
    by (simp add: mount_table_def)
qed

theorem page_correction_ends_witness:
  "ensurePageInRange (validating_router channelsSearchSchema) (channels_table False) (Fin 4) False
     (ensurePageInRange (validating_router channelsSearchSchema) (channels_table False) (Fin 4) True
       (mount_table (channels_table False) Map.empty [(js ''page'', JNum (Fin 9))])) =
   ensurePageInRange (validating_router channelsSearchSchema) (channels_table False) (Fin 4) True
     (mount_table (channels_table False) Map.empty [(js ''page'', JNum (Fin 9))])"
proof -
  have table: "(channels_table False, channelsSearchSchema) \<in> set (data_tables False)" by (simp add: data_tables_def)
  have count: "json_ok (JNum (Fin 4))" by code_simp
  have default: "num_le (defaultPage (channels_table False)) (Fin 4)" by code_simp
  show ?thesis using page_correction_ends [OF validating_router_validates data_table_ok(1) [OF table] count default] by blast
qed

text \<open>The table of redemption codes offers the status \<^verbatim>\<open>expired\<close>, which the enumeration of its route does
  not have: when it is chosen, the router replaces the whole filter by the empty list and the table shows
  all codes.\<close>

definition REDEMPTION_FILTER_EXPIRED :: jsstring where
  "REDEMPTION_FILTER_EXPIRED = js ''expired''"

definition redemption_status_options :: "jsstring list" where
  "redemption_status_options = REDEMPTION_STATUS_VALUES @ [REDEMPTION_FILTER_EXPIRED]"

theorem expired_filter_lost:
  assumes "validates redemptionsSearchSchema route"
  shows "REDEMPTION_FILTER_EXPIRED \<in> set redemption_status_options \<and>
    columnFilters (sync_filters (redemptions_table isMobile) (onColumnFiltersChange route (redemptions_table isMobile)
      (Value [\<lparr>filter_id = js ''status'', filter_value = JArr [JStr REDEMPTION_FILTER_EXPIRED]\<rparr>]) s)) = []"
proof -
  let ?next = "[\<lparr>filter_id = js ''status'', filter_value = JArr [JStr REDEMPTION_FILTER_EXPIRED]\<rparr>] :: column_filter list"
  let ?u = "props_assign (props_set (search s) (js ''page'') JUndef) [(js ''status'', JArr [JStr REDEMPTION_FILTER_EXPIRED])]"
  have "pageKey (redemptions_table isMobile) = js ''page''"
    by (simp add: pageKey_def redemptions_table_def table_of_def pages_of_def cfg_or_def)
  moreover have patch: "filter_patch (redemptions_table isMobile) ?next = [(js ''status'', JArr [JStr REDEMPTION_FILTER_EXPIRED])]"
    by (cases isMobile; code_simp)
  ultimately have "search (onColumnFiltersChange route (redemptions_table isMobile) (Value ?next) s) = route ?u"
    by (simp add: onColumnFiltersChange_def)
  moreover have "val_at ?u (js ''status'') = JArr [JStr REDEMPTION_FILTER_EXPIRED]" by (simp add: val_at_assign)
  moreover have "validated redemptionsSearchSchema (js ''status'') (JArr [JStr REDEMPTION_FILTER_EXPIRED]) = JArr []"
    "json_ok (JArr [JStr REDEMPTION_FILTER_EXPIRED])" by code_simp+
  ultimately have "val_at (search (onColumnFiltersChange route (redemptions_table isMobile) (Value ?next) s)) (js ''status'') = JArr []"
    using assms unfolding validates_def by metis
  then show ?thesis
    by (simp add: redemption_status_options_def sync_filters_def initialColumnFilters_def collected_filter_def
        redemptions_table_def table_of_def is_string_filter_def transform_def)
qed

theorem expired_filter_lost_witness:
  "columnFilters (sync_filters (redemptions_table False) (onColumnFiltersChange (validating_router redemptionsSearchSchema)
     (redemptions_table False) (Value [\<lparr>filter_id = js ''status'', filter_value = JArr [JStr REDEMPTION_FILTER_EXPIRED]\<rparr>])
     (mount_table (redemptions_table False) Map.empty []))) = []"
  using expired_filter_lost [OF validating_router_validates] by blast

subsection \<open>Three surprises\<close>

text \<open>The text of the search field is trimmed on every change and shown from the trimmed text, so a
  space typed at the end is lost and two words cannot be typed one after the other.\<close>

lemma search_space_lost:
  assumes "trimGlobal P"
  shows "onGlobalFilterChange route P (Value (t @ [32])) s = onGlobalFilterChange route P (Value t) s"
proof -
  have "trim (t @ [32]) = trim t" by (rule trim_snoc_ws) (simp add: is_ws_def)
  then show ?thesis using assms by (simp add: onGlobalFilterChange_def)
qed

text \<open>A filter without a type is declared as a filter on strings and read as one on lists: a string
  in the URL is ignored.\<close>

lemma untyped_filter_is_array:
  "filter_type cfg = None \<Longrightarrow> deserialize cfg = None \<Longrightarrow> collected_filter cfg (JStr t) = []"
  by (simp add: collected_filter_def is_string_filter_def transform_def)

text \<open>The column filters follow the URL when the browser goes back, the search text does not.\<close>

lemma search_text_stale:
  "initialGlobalFilter P p \<noteq> globalFilter s \<Longrightarrow> sync_filters P (s\<lparr>search := p\<rparr>) \<noteq> mount_table P (local s) p"
  by (cases s) (simp add: sync_filters_def mount_table_def)

end
