(* ===== verification/SettingsForm.thy ===== *)
theory SettingsForm
  imports JS_Json
begin

text \<open>
  The forms of the system settings: \<^verbatim>\<open>features/system-settings/hooks/use-settings-form.ts\<close>.

  A settings form starts from default values whose keys may be dotted paths such as
  \<^verbatim>\<open>performance.disk_cache\<close>; the form library works on the nested object, and the options are saved
  one by one under their dotted names. The hook expands, flattens, compares with a baseline and
  sends the changed options. \<^verbatim>\<open>react-hook-form\<close> is the environment: the mask of dirty fields and the
  submitted data are arguments of the handlers, the values shown after \<^verbatim>\<open>form.reset\<close> are part of the
  state.

  The main theorems: flattening undoes expansion, the options sent are exactly those that are
  marked dirty and differ from the baseline, and submitting the same data again sends nothing.
\<close>

definition isPlainObject :: "jsval \<Rightarrow> bool" where
  "isPlainObject v = (case v of JObj _ \<Rightarrow> True | _ \<Rightarrow> False)"

text \<open>\<^verbatim>\<open>parentKey ? `${parentKey}.${key}` : key\<close>: the empty key counts as absent.\<close>

definition next_key :: "jsstring option \<Rightarrow> jsstring \<Rightarrow> jsstring" where
  "next_key parentKey key =
     (case parentKey of None \<Rightarrow> key | Some p \<Rightarrow> if p = [] then key else p @ 46 # key)"

subsection \<open>Flattening\<close>

fun flattenValues :: "jsval \<Rightarrow> jsstring option \<Rightarrow> jsval props \<Rightarrow> jsval props"
and flatten_entries :: "jsval props \<Rightarrow> jsstring option \<Rightarrow> jsval props \<Rightarrow> jsval props" where
  "flattenValues (JObj ps) parentKey result = flatten_entries ps parentKey result"
| "flattenValues v parentKey result = (case parentKey of Some k \<Rightarrow> props_set result k v | None \<Rightarrow> result)"
| "flatten_entries [] parentKey result = result"
| "flatten_entries ((key, v) # ps) parentKey result =
     flatten_entries ps parentKey
       (if isPlainObject v then flattenValues v (Some (next_key parentKey key)) result
        else props_set result (next_key parentKey key) v)"

definition flattened :: "jsval \<Rightarrow> jsval props" where
  "flattened v = flattenValues v None []"

subsection \<open>Dirty fields\<close>

definition field_of :: "jsval \<Rightarrow> jsstring \<Rightarrow> jsval" where
  "field_of v key =
     (case v of JObj _ \<Rightarrow> val_at (own_props v) key | JArr _ \<Rightarrow> val_at (own_props v) key | _ \<Rightarrow> JUndef)"

definition entries_size :: "jsval props \<Rightarrow> nat" where
  "entries_size ps = sum_list (map (\<lambda>kv. Suc (size (snd kv))) ps)"

lemma entries_size_obj: "entries_size ps \<le> size_list (size_prod (\<lambda>_. 0) size) ps"
  by (induction ps) (auto simp: entries_size_def)

lemma entries_size_zip: "length ks = length xs \<Longrightarrow> entries_size (zip ks xs) = size_list size xs"
  by (induction ks xs rule: list_induct2) (simp_all add: entries_size_def)

text \<open>\<^verbatim>\<open>Object.entries\<close> of a mask; its arrays mark the elements of list fields.\<close>

function (sequential) collectDirtyValues :: "jsval \<Rightarrow> jsval \<Rightarrow> jsstring option \<Rightarrow> jsval props \<Rightarrow> jsval props"
and collect_entries :: "jsval props \<Rightarrow> jsval \<Rightarrow> jsstring option \<Rightarrow> jsval props \<Rightarrow> jsval props" where
  "collectDirtyValues dirtyFields values parentKey result =
     (if dirtyFields = JBool True then (case parentKey of Some k \<Rightarrow> props_set result k values | None \<Rightarrow> result)
      else (case dirtyFields of
              JObj ps \<Rightarrow> collect_entries ps values parentKey result
            | JArr xs \<Rightarrow> collect_entries (own_props (JArr xs)) values parentKey result
            | _ \<Rightarrow> result))"
| "collect_entries [] values parentKey result = result"
| "collect_entries ((key, v) # ps) values parentKey result =
     (let nextKey = next_key parentKey key;
          source = field_of values key
      in collect_entries ps values parentKey
           (if v = JBool True then props_set result nextKey source
            else (case v of
                    JObj _ \<Rightarrow> collectDirtyValues v source (Some nextKey) result
                  | JArr _ \<Rightarrow> collectDirtyValues v source (Some nextKey) result
                  | _ \<Rightarrow> result)))"
  by pat_completeness auto
termination
  by (relation "measure (case_sum (\<lambda>(d, _). 2 * size d) (\<lambda>(ps, _). Suc (2 * entries_size ps)))")
    (simp_all add: entries_size_obj le_imp_less_Suc entries_size_zip, simp_all add: entries_size_def)

declare collectDirtyValues.simps [simp del]

subsection \<open>Expanding dotted keys\<close>

text \<open>\<^verbatim>\<open>setDeepValue\<close> walks along the segments and replaces what is no plain object on the way.\<close>

fun set_deep :: "jsval props \<Rightarrow> jsstring list \<Rightarrow> jsval \<Rightarrow> jsval props" where
  "set_deep current [] v = current"
| "set_deep current [segment] v = props_set current segment v"
| "set_deep current (segment # rest) v =
     props_set current segment
       (JObj (set_deep (case val_at current segment of JObj ps \<Rightarrow> ps | _ \<Rightarrow> []) rest v))"

definition setDeepValue :: "jsval props \<Rightarrow> jsstring \<Rightarrow> jsval \<Rightarrow> jsval props" where
  "setDeepValue target path v = set_deep target (split_on 46 path) v"

fun expandDotPaths :: "jsval \<Rightarrow> jsval"
and expand_entries :: "jsval props \<Rightarrow> jsval props \<Rightarrow> jsval props" where
  "expandDotPaths (JObj ps) = JObj (expand_entries ps [])"
| "expandDotPaths v = v"
| "expand_entries [] result = result"
| "expand_entries ((key, v) # ps) result =
     expand_entries ps
       (if 46 \<in> set key then setDeepValue result key v
        else if isPlainObject v then props_set result key (expandDotPaths v)
        else props_set result key v)"


subsection \<open>The hook\<close>

text \<open>Two objects or arrays are compared by their JSON text, which is equal when they are the same;
  values of different types and null are equal only when they are identical.\<close>

definition defaultCompare :: "jsval \<Rightarrow> jsval \<Rightarrow> bool" where
  "defaultCompare a b =
     (case (a, b) of
        (JNum x, JNum y) \<Rightarrow> num_eq x y
      | (JArr _, JArr _) \<Rightarrow> json_stringify a = json_stringify b
      | (JArr _, JObj _) \<Rightarrow> json_stringify a = json_stringify b
      | (JObj _, JArr _) \<Rightarrow> json_stringify a = json_stringify b
      | (JObj _, JObj _) \<Rightarrow> json_stringify a = json_stringify b
      | _ \<Rightarrow> a = b)"

record settings_state =
  defaultValuesRef :: jsval
  baselineRef :: "jsval props"
  serializedDefaultsRef :: jsstring
  form_values :: jsval

definition mount_settings :: "jsval \<Rightarrow> settings_state" where
  "mount_settings defaultValues =
     (let expandedDefaults = expandDotPaths defaultValues;
          d = (if expandedDefaults = JUndef \<or> expandedDefaults = JNull then JObj [] else expandedDefaults)
      in \<lparr>defaultValuesRef = d, baselineRef = flattened d,
          serializedDefaultsRef = json_stringify (JObj (flattened d)), form_values = expandedDefaults\<rparr>)"

text \<open>The effect that runs when the default values have changed.\<close>

definition sync_defaults :: "jsval \<Rightarrow> settings_state \<Rightarrow> settings_state" where
  "sync_defaults defaultValues s =
     (let expandedDefaults = expandDotPaths defaultValues;
          flat = flattened expandedDefaults;
          serialized = json_stringify (JObj flat)
      in if \<not> truthy expandedDefaults \<or> serialized = serializedDefaultsRef s then s
         else \<lparr>defaultValuesRef = expandedDefaults, baselineRef = flat,
               serializedDefaultsRef = serialized, form_values = expandedDefaults\<rparr>)"

text \<open>The options handed to \<^verbatim>\<open>onSubmit\<close>, or nothing when nothing has changed.\<close>

definition changed_fields :: "(jsval \<Rightarrow> jsval \<Rightarrow> bool) \<Rightarrow> jsval \<Rightarrow> jsval \<Rightarrow> settings_state \<Rightarrow> jsval props" where
  "changed_fields compare dirtyFields data s =
     props_assign []
       (filter (\<lambda>(key, v). \<not> compare v (val_at (baselineRef s) key))
         (collectDirtyValues dirtyFields data None []))"

text \<open>\<open>saved\<close> tells whether \<^verbatim>\<open>onSubmit\<close> succeeds; when it throws, the rest of the handler does not run.\<close>

definition handleSubmit ::
  "(jsval \<Rightarrow> jsval \<Rightarrow> bool) \<Rightarrow> bool \<Rightarrow> jsval \<Rightarrow> jsval \<Rightarrow> settings_state \<Rightarrow> jsval props option \<times> settings_state" where
  "handleSubmit compare saved dirtyFields data s =
     (let changed = changed_fields compare dirtyFields data s
      in if changed = [] then (None, s)
         else (Some changed,
               if saved
               then let flattenedValues = flattened data
                    in s\<lparr>baselineRef := flattenedValues, defaultValuesRef := data,
                         serializedDefaultsRef := json_stringify (JObj flattenedValues), form_values := data\<rparr>
               else s))"

definition handleReset :: "settings_state \<Rightarrow> settings_state" where
  "handleReset s = s\<lparr>form_values := defaultValuesRef s\<rparr>"

subsection \<open>Paths\<close>

text \<open>A dotted key is a path of segments; \<open>under pre k\<close> is the path of the key \<open>k\<close> below the prefix
  \<open>pre\<close>.\<close>

definition under :: "jsstring \<Rightarrow> jsstring \<Rightarrow> jsstring list option" where
  "under pre k = (if take (length pre) k = pre then Some (split_on 46 (drop (length pre) k)) else None)"

lemma under_Nil [simp]: "under [] k = Some (split_on 46 k)"
  by (simp add: under_def)

lemma under_nonempty [simp]: "under pre k \<noteq> Some []"
  by (simp add: under_def)

lemma under_here: "46 \<notin> set key \<Longrightarrow> under pre k = Some [key] \<longleftrightarrow> k = pre @ key"
proof
  assume "under pre k = Some [key]"
  then have "take (length pre) k = pre" "split_on 46 (drop (length pre) k) = [key]" by (auto simp: under_def split: if_splits)
  then have "drop (length pre) k = key" using join_split_on [of 46 "drop (length pre) k"] by simp
  then show "k = pre @ key" using \<open>take (length pre) k = pre\<close> by (metis append_take_drop_id)
next
  assume "46 \<notin> set key" "k = pre @ key"
  then show "under pre k = Some [key]" by (simp add: under_def split_on_part)
qed

definition below :: "jsstring \<Rightarrow> jsstring list option \<Rightarrow> jsstring list option" where
  "below key p = (case p of Some (x # y # r) \<Rightarrow> if x = key then Some (y # r) else None | _ \<Rightarrow> None)"

lemma below_None [simp]: "below key None = None"
  by (simp add: below_def)

lemma under_next:
  assumes "46 \<notin> set key"
  shows "under (pre @ key @ [46]) k = below key (under pre k)"
proof (cases "take (length pre) k = pre")
  case False
  have "take (length pre) k = pre" if "take (length (pre @ key @ [46])) k = pre @ key @ [46]"
    using arg_cong [OF that, of "take (length pre)"] by (simp add: take_take min_absorb1)
  then show ?thesis using False by (auto simp: under_def below_def)
next
  case True
  then obtain r where k: "k = pre @ r" by (metis append_take_drop_id)
  show ?thesis
  proof (cases "46 \<in> set r")
    case False
    then have "\<not> (\<exists>s. r = key @ 46 # s)" by auto
    then have "take (length key + 1) r \<noteq> key @ [46]"
      by (metis append_take_drop_id append.assoc append_Cons append_Nil)
    then show ?thesis using False k by (simp add: under_def below_def split_on_part)
  next
    case True
    then obtain x s where r: "r = x @ 46 # s" "46 \<notin> set x" by (meson split_list_first)
    obtain y ys where s: "split_on 46 s = y # ys" by (metis list.exhaust split_on_nonempty)
    show ?thesis
    proof (cases "x = key")
      case True
      then show ?thesis using k r s by (simp add: under_def below_def split_on_append)
    next
      case False
      have "take (length key + 1) r \<noteq> key @ [46]"
      proof
        assume "take (length key + 1) r = key @ [46]"
        then have "r = key @ 46 # drop (length key + 1) r" by (metis append_take_drop_id append.assoc append_Cons append_Nil)
        then show False using r False assms by (metis append_sep_eq)
      qed
      then show ?thesis using False k r s by (simp add: under_def below_def split_on_append)
    qed
  qed
qed


text \<open>An object tree whose keys are distinct and have no dots, and the value of a path that is no
  object itself.\<close>

fun tree_ok :: "jsval \<Rightarrow> bool" where
  "tree_ok (JObj ps) = (distinct (map fst ps) \<and> list_all (\<lambda>kv. 46 \<notin> set (fst kv) \<and> tree_ok (snd kv)) ps)"
| "tree_ok _ = True"

fun leaf_at :: "jsval props \<Rightarrow> jsstring list \<Rightarrow> jsval option" where
  "leaf_at ps [] = None"
| "leaf_at ps [k] =
     (case props_get ps k of Some v \<Rightarrow> if isPlainObject v then None else Some v | None \<Rightarrow> None)"
| "leaf_at ps (k # k' # r) =
     (case props_get ps k of
        Some v \<Rightarrow> (case v of JObj qs \<Rightarrow> leaf_at qs (k' # r) | _ \<Rightarrow> None)
      | None \<Rightarrow> None)"

lemma leaf_at_Nil [simp]: "leaf_at [] p = None"
  by (induction "[] :: jsval props" p rule: leaf_at.induct) (simp_all add: props_get_def)

definition override :: "'a option \<Rightarrow> 'a option \<Rightarrow> 'a option" where
  "override a b = (case a of Some v \<Rightarrow> Some v | None \<Rightarrow> b)"

lemma override_simps [simp]: "override None b = b" "override (Some v) b = Some v"
  "override (override a b) c = override a (override b c)"
  by (simp_all add: override_def split: option.split)

definition leaf_here :: "jsstring \<Rightarrow> jsval \<Rightarrow> jsstring list option \<Rightarrow> jsval option" where
  "leaf_here key v q =
     (case v of JObj qs \<Rightarrow> Option.bind (below key q) (leaf_at qs) | _ \<Rightarrow> if q = Some [key] then Some v else None)"

lemma leaf_here_None [simp]: "leaf_here key v None = None"
  by (cases v) (simp_all add: leaf_here_def)

lemma leaf_at_Cons:
  assumes "key \<notin> set (map fst ps)"
  shows "leaf_at ((key, v) # ps) p = override (leaf_at ps p) (leaf_here key v (Some p))"
proof -
  have none: "props_get ps key = None" using assms by (simp add: props_get_def map_of_eq_None_iff)
  have get: "props_get ((key, w) # ps) k = (if k = key then Some w else props_get ps k)" for k w
    by (simp add: props_get_def)
  consider "p = []" | k where "p = [k]" | k k' r where "p = k # k' # r" by (metis list.exhaust)
  then show ?thesis
  proof cases
    case 1
    then show ?thesis by (cases v) (simp_all add: below_def leaf_here_def)
  next
    case (2 k)
    then show ?thesis using none by (cases v; cases "k = key") (auto simp: below_def leaf_here_def override_def get isPlainObject_def split: option.splits)
  next
    case (3 k k' r)
    then show ?thesis using none
      by (cases v; cases "k = key") (auto simp: below_def leaf_here_def override_def get split: option.splits jsval.splits)
  qed
qed

definition parent_pre :: "jsstring option \<Rightarrow> jsstring \<Rightarrow> bool" where
  "parent_pre parentKey pre \<longleftrightarrow>
     parentKey = None \<and> pre = [] \<or> (\<exists>p. p \<noteq> [] \<and> parentKey = Some p \<and> pre = p @ [46])"

lemma next_key_pre: "parent_pre parentKey pre \<Longrightarrow> next_key parentKey key = pre @ key"
  by (auto simp: parent_pre_def next_key_def)

lemma parent_pre_next: "pre @ key \<noteq> [] \<Longrightarrow> parent_pre (Some (pre @ key)) (pre @ key @ [46])"
  by (simp add: parent_pre_def)

subsection \<open>Flattening lists the leaves\<close>

lemma flatten_get_aux:
  "(\<forall>ps pre k. v = JObj ps \<longrightarrow> tree_ok (JObj ps) \<longrightarrow> parent_pre parentKey pre \<longrightarrow> (pre = [] \<longrightarrow> [] \<notin> set (map fst ps)) \<longrightarrow>
     props_get (flattenValues v parentKey result) k = override (Option.bind (under pre k) (leaf_at ps)) (props_get result k))"
  "(\<forall>pre k. tree_ok (JObj ps) \<longrightarrow> parent_pre parentKey pre \<longrightarrow> (pre = [] \<longrightarrow> [] \<notin> set (map fst ps)) \<longrightarrow>
     props_get (flatten_entries ps parentKey result) k = override (Option.bind (under pre k) (leaf_at ps)) (props_get result k))"
proof (induction v parentKey result and ps parentKey result rule: flattenValues_flatten_entries.induct)
  case (3 parentKey result)
  then show ?case by (auto simp: override_def bind_eq_Some_conv split: option.splits)
next
  case (4 key v ps parentKey result)
  show ?case
  proof (intro allI impI)
    fix pre k assume ok: "tree_ok (JObj ((key, v) # ps))" and pre: "parent_pre parentKey pre"
      and ne: "pre = [] \<longrightarrow> [] \<notin> set (map fst ((key, v) # ps))"
    let ?res = "if isPlainObject v then flattenValues v (Some (next_key parentKey key)) result
        else props_set result (next_key parentKey key) v"
    have key: "46 \<notin> set key" "key \<notin> set (map fst ps)" "tree_ok (JObj ps)" "tree_ok v" using ok by auto
    have nk: "next_key parentKey key = pre @ key" "pre @ key \<noteq> []" using pre ne by (auto simp: next_key_pre)
    have tail: "props_get (flatten_entries ps parentKey ?res) k =
        override (Option.bind (under pre k) (leaf_at ps)) (props_get ?res k)"
      using 4(2) key pre ne by auto
    have "props_get ?res k = override (leaf_here key v (under pre k)) (props_get result k)"
    proof (cases "isPlainObject v")
      case True
      then obtain qs where v: "v = JObj qs" by (auto simp: isPlainObject_def split: jsval.splits)
      have "props_get (flattenValues v (Some (pre @ key)) result) k =
          override (Option.bind (under (pre @ key @ [46]) k) (leaf_at qs)) (props_get result k)"
        using 4(1) [OF True] v key(4) parent_pre_next [OF nk(2)] unfolding nk(1) by simp
      then show ?thesis using True v by (simp add: nk(1) under_next [OF key(1)] leaf_here_def)
    next
      case False
      then show ?thesis
        by (cases v) (auto simp: nk(1) under_here [OF key(1)] leaf_here_def isPlainObject_def)
    qed
    then show "props_get (flatten_entries ((key, v) # ps) parentKey result) k =
        override (Option.bind (under pre k) (leaf_at ((key, v) # ps))) (props_get result k)"
      using tail by (cases "under pre k") (simp_all add: leaf_at_Cons [OF key(2)])
  qed
qed simp_all

lemma flattened_get:
  assumes "tree_ok (JObj ps)" "[] \<notin> set (map fst ps)"
  shows "props_get (flattened (JObj ps)) k = leaf_at ps (split_on 46 k)"
  using flatten_get_aux(1) [of "JObj ps" None "[]"] assms
  by (auto simp: flattened_def parent_pre_def override_def props_get_def split: option.splits)


subsection \<open>Expanding writes the leaves\<close>

lemma leaf_at_set_other:
  assumes "path \<noteq> []" "p \<noteq> path" "\<not> strict_prefix p path" "\<not> strict_prefix path p"
  shows "leaf_at (set_deep ps path v) p = leaf_at ps p"
  using assms
proof (induction ps path v arbitrary: p rule: set_deep.induct)
  case (2 current segment v)
  then show ?case by (cases p; cases "tl p") (auto simp: strict_prefix_def)
next
  case (3 current segment s rest v)
  show ?case
  proof (cases p)
    case (Cons k r)
    show ?thesis
    proof (cases "k = segment \<and> r \<noteq> []")
      case True
      then obtain k' r' where r: "r = k' # r'" by (cases r) auto
      have "leaf_at (set_deep (case val_at current segment of JObj ps \<Rightarrow> ps | _ \<Rightarrow> []) (s # rest) v) r =
          leaf_at (case val_at current segment of JObj ps \<Rightarrow> ps | _ \<Rightarrow> []) r"
        using 3 True Cons by (intro 3(1)) (auto simp: strict_prefix_def)
      then show ?thesis
        using True Cons r by (auto simp: val_at_def split: option.splits jsval.splits)
    next
      case False
      then show ?thesis using Cons 3(4) by (cases r) (auto simp: strict_prefix_def)
    qed
  qed simp
qed simp

lemma leaf_at_set_same:
  assumes "path \<noteq> []" "\<not> isPlainObject v"
  shows "leaf_at (set_deep ps path v) path = Some v"
  using assms by (induction ps path v rule: set_deep.induct) auto

lemma leaf_at_set_comparable:
  assumes "\<not> isPlainObject v" "strict_prefix p path \<or> strict_prefix path p"
  shows "path \<noteq> [] \<Longrightarrow> leaf_at (set_deep ps path v) p = None"
  using assms
proof (induction ps path v arbitrary: p rule: set_deep.induct)
  case (2 current segment v)
  then show ?case by (cases p; cases "tl p") (auto simp: strict_prefix_def isPlainObject_def split: jsval.splits)
next
  case (3 current segment s rest v)
  show ?case
  proof (cases p)
    case (Cons k r)
    then show ?thesis using 3 by (cases r) (auto simp: isPlainObject_def strict_prefix_def)
  qed simp
qed simp

lemma tree_ok_props_set:
  "tree_ok (JObj ps) \<Longrightarrow> 46 \<notin> set k \<Longrightarrow> tree_ok v \<Longrightarrow> tree_ok (JObj (props_set ps k v))"
  using set_props_set [of ps k v] ps.ok_put [of ps k v]
  by (auto simp: props_ok_def props_keys_def list_all_iff)

lemma tree_ok_set_deep:
  "tree_ok (JObj ps) \<Longrightarrow> \<forall>s\<in>set path. 46 \<notin> set s \<Longrightarrow> tree_ok v \<Longrightarrow> tree_ok (JObj (set_deep ps path v))"
proof (induction ps path v rule: set_deep.induct)
  case (2 current segment v)
  then show ?case by (auto intro: tree_ok_props_set simp del: tree_ok.simps)
next
  case (3 current segment s rest v)
  have "tree_ok (JObj (case val_at current segment of JObj ps \<Rightarrow> ps | _ \<Rightarrow> []))"
    using 3(2) by (fastforce simp: val_at_def props_get_def list_all_iff split: option.splits jsval.splits dest!: map_of_SomeD)
  then have "tree_ok (JObj (set_deep (case val_at current segment of JObj ps \<Rightarrow> ps | _ \<Rightarrow> []) (s # rest) v))"
    using 3 by simp
  then show ?case using 3(2,3) unfolding set_deep.simps by (intro tree_ok_props_set) auto
qed simp


text \<open>Default values as the options are stored: dotted keys, no nested objects, and no key that is
  a proper part of the path of another.\<close>

definition flat_defaults :: "jsval props \<Rightarrow> bool" where
  "flat_defaults ps \<longleftrightarrow>
     distinct (map fst ps) \<and>
     list_all (\<lambda>kv. \<not> isPlainObject (snd kv) \<and> hd (split_on 46 (fst kv)) \<noteq> []) ps \<and>
     list_all (\<lambda>kv. list_all (\<lambda>kv'. \<not> strict_prefix (split_on 46 (fst kv)) (split_on 46 (fst kv'))) ps) ps"

lemma expand_step:
  assumes "\<not> isPlainObject v"
  shows "expand_entries ((key, v) # ps) result = expand_entries ps (set_deep result (split_on 46 key) v)"
  using assms by (simp add: setDeepValue_def split_on_part)

lemma split_on_inject: "split_on c k = split_on c k' \<longleftrightarrow> k = k'"
  by (metis join_split_on)

lemma expand_leaf:
  assumes "flat_defaults ps"
    and "\<forall>kv\<in>set ps. \<forall>p. strict_prefix p (split_on 46 (fst kv)) \<or> strict_prefix (split_on 46 (fst kv)) p \<longrightarrow> leaf_at result p = None"
  shows "leaf_at (expand_entries ps result) (split_on 46 k) = override (props_get ps k) (leaf_at result (split_on 46 k))"
  using assms
proof (induction ps arbitrary: result)
  case Nil
  then show ?case by (simp add: props_get_def)
next
  case (Cons kv ps)
  obtain key v where kv: "kv = (key, v)" by (cases kv)
  let ?path = "split_on 46 key" and ?res = "set_deep result (split_on 46 key) v"
  have v: "\<not> isPlainObject v" and new: "key \<notin> fst ` set ps" and flat: "flat_defaults ps"
    using Cons.prems(1) by (auto simp: kv flat_defaults_def list_all_iff)
  have free: "\<not> strict_prefix ?path (split_on 46 (fst kv'))" "\<not> strict_prefix (split_on 46 (fst kv')) ?path"
    if "kv' \<in> set ps" for kv'
    using Cons.prems(1) that by (auto simp: kv flat_defaults_def list_all_iff)
  have res: "leaf_at ?res p = (if p = ?path then Some v
      else if strict_prefix p ?path \<or> strict_prefix ?path p then None else leaf_at result p)" for p
    using v leaf_at_set_same [of ?path v result] leaf_at_set_comparable [OF v, of p ?path result]
      leaf_at_set_other [of ?path p result v] by auto
  have "leaf_at ?res p = None"
    if "kv' \<in> set ps" "strict_prefix p (split_on 46 (fst kv')) \<or> strict_prefix (split_on 46 (fst kv')) p" for kv' p
    using that free [OF that(1)] Cons.prems(2) by (auto simp: res)
  then have "leaf_at (expand_entries ps ?res) (split_on 46 k) = override (props_get ps k) (leaf_at ?res (split_on 46 k))"
    using Cons.IH [OF flat] by blast
  moreover have "leaf_at ?res (split_on 46 k) = (if k = key then Some v else leaf_at result (split_on 46 k))"
    using Cons.prems(2) by (auto simp: res split_on_inject kv)
  moreover have "props_get ps key = None" using new by (simp add: props_get_def map_of_eq_None_iff)
  ultimately show ?case unfolding kv expand_step [OF v] by (simp add: props_get_def)
qed

lemma keys_props_set: "set (map fst (props_set ps k v)) = insert k (set (map fst ps))"
  using arg_cong [OF props_get_set [of ps k v], of dom] by (simp add: props_get_def dom_map_of_conv_image_fst)

lemma keys_set_deep: "path \<noteq> [] \<Longrightarrow> set (map fst (set_deep ps path v)) = insert (hd path) (set (map fst ps))"
  by (cases path; cases "tl path") (simp_all only: set_deep.simps keys_props_set list.sel)

lemma expand_tree:
  assumes "flat_defaults ps" "tree_ok (JObj result)" "[] \<notin> set (map fst result)"
  shows "tree_ok (JObj (expand_entries ps result)) \<and> [] \<notin> set (map fst (expand_entries ps result))"
  using assms
proof (induction ps arbitrary: result)
  case (Cons kv ps)
  obtain key v where kv: "kv = (key, v)" by (cases kv)
  have v: "\<not> isPlainObject v" and flat: "flat_defaults ps" and hd: "hd (split_on 46 key) \<noteq> []"
    using Cons.prems(1) by (auto simp: kv flat_defaults_def list_all_iff)
  have "tree_ok (JObj (set_deep result (split_on 46 key) v))"
    using v Cons.prems(2) split_on_no_sep [of _ 46 key]
    by (intro tree_ok_set_deep) (auto simp: isPlainObject_def split: jsval.splits)
  moreover have "[] \<notin> set (map fst (set_deep result (split_on 46 key) v))"
    using Cons.prems(3) hd by (simp add: keys_set_deep del: set_map)
  ultimately show ?case unfolding kv expand_step [OF v] by (rule Cons.IH [OF flat])
qed simp

text \<open>C26: the baseline of a settings form holds every option under the dotted key and with the value
  it was loaded with, and nothing else: flattening undoes the expansion into a nested object.\<close>

theorem settings_defaults_round_trip:
  assumes "flat_defaults ps"
  shows "props_get (baselineRef (mount_settings (JObj ps))) = props_get ps"
proof
  fix k
  have "tree_ok (JObj (expand_entries ps []))" "[] \<notin> set (map fst (expand_entries ps []))"
    using expand_tree [OF assms, of "[]"] by auto
  then have "props_get (flattened (JObj (expand_entries ps []))) k = leaf_at (expand_entries ps []) (split_on 46 k)"
    by (rule flattened_get)
  then show "props_get (baselineRef (mount_settings (JObj ps))) k = props_get ps k"
    using expand_leaf [OF assms, of "[]" k] by (simp add: mount_settings_def Let_def override_def split: option.splits)
qed


subsection \<open>What is sent\<close>

definition mask_entries :: "jsval \<Rightarrow> jsval props" where
  "mask_entries m = (case m of JObj ps \<Rightarrow> ps | JArr xs \<Rightarrow> own_props (JArr xs) | _ \<Rightarrow> [])"

fun mask_ok :: "jsval \<Rightarrow> bool" where
  "mask_ok (JObj ps) = (distinct (map fst ps) \<and> list_all (\<lambda>kv. 46 \<notin> set (fst kv) \<and> mask_ok (snd kv)) ps)"
| "mask_ok (JArr xs) = list_all mask_ok xs"
| "mask_ok _ = True"

text \<open>A path is marked when the mask holds \<^verbatim>\<open>true\<close> there; \<open>value_at\<close> is what the data hold.\<close>

fun marked :: "jsval props \<Rightarrow> jsstring list \<Rightarrow> bool" where
  "marked ms [] = False"
| "marked ms [k] = (props_get ms k = Some (JBool True))"
| "marked ms (k # k' # r) = (case props_get ms k of Some v \<Rightarrow> marked (mask_entries v) (k' # r) | None \<Rightarrow> False)"

fun value_at :: "jsval \<Rightarrow> jsstring list \<Rightarrow> jsval" where
  "value_at v [] = v"
| "value_at v (k # r) = value_at (field_of v k) r"

lemma mask_entries_ok:
  assumes "mask_ok m"
  shows "distinct (map fst (mask_entries m))" "kv \<in> set (mask_entries m) \<Longrightarrow> 46 \<notin> set (fst kv) \<and> mask_ok (snd kv)"
proof -
  have digits: "46 \<notin> set (dec_str (int i))" for i using dec_str_digits [of "int i"] by (auto simp: is_digit_def)
  show "distinct (map fst (mask_entries m))"
    using assms by (cases m) (simp_all add: mask_entries_def distinct_map inj_on_def)
  show "46 \<notin> set (fst kv) \<and> mask_ok (snd kv)" if mem: "kv \<in> set (mask_entries m)"
  proof -
    obtain a b where kv: "kv = (a, b)" by (cases kv)
    show ?thesis
      using mem [unfolded kv] assms digits
      by (cases m) (fastforce simp: kv mask_entries_def list_all_iff dest: set_zip_leftD set_zip_rightD)+
  qed
qed

lemma marked_Nil [simp]: "\<not> marked [] p"
  by (induction "[] :: jsval props" p rule: marked.induct) (simp_all add: props_get_def)

definition marked_here :: "jsstring \<Rightarrow> jsval \<Rightarrow> jsstring list option \<Rightarrow> bool" where
  "marked_here key v q \<longleftrightarrow>
     q = Some [key] \<and> v = JBool True \<or> (case below key q of Some r \<Rightarrow> marked (mask_entries v) r | None \<Rightarrow> False)"

lemma marked_Cons:
  assumes "key \<notin> set (map fst ms)"
  shows "marked ((key, v) # ms) p \<longleftrightarrow> marked ms p \<or> marked_here key v (Some p)"
proof -
  have none: "props_get ms key = None" using assms by (simp add: props_get_def map_of_eq_None_iff)
  have get: "props_get ((key, w) # ms) k = (if k = key then Some w else props_get ms k)" for k w
    by (simp add: props_get_def)
  show ?thesis using none
    by (cases p; cases "tl p") (auto simp: get marked_here_def below_def split: option.splits)
qed

definition sent_at :: "jsval props \<Rightarrow> jsval \<Rightarrow> jsstring list \<Rightarrow> jsval option" where
  "sent_at ms data p = (if marked ms p then Some (value_at data p) else None)"

lemma collect_get_aux:
  "(\<forall>pre k. mask_ok m \<longrightarrow> m \<noteq> JBool True \<longrightarrow> parent_pre parentKey pre \<longrightarrow> (pre = [] \<longrightarrow> [] \<notin> set (map fst (mask_entries m))) \<longrightarrow>
     props_get (collectDirtyValues m data parentKey result) k =
       override (Option.bind (under pre k) (sent_at (mask_entries m) data)) (props_get result k))"
  "(\<forall>pre k. distinct (map fst ms) \<longrightarrow> list_all (\<lambda>kv. 46 \<notin> set (fst kv) \<and> mask_ok (snd kv)) ms \<longrightarrow> parent_pre parentKey pre \<longrightarrow>
     (pre = [] \<longrightarrow> [] \<notin> set (map fst ms)) \<longrightarrow>
     props_get (collect_entries ms data parentKey result) k =
       override (Option.bind (under pre k) (sent_at ms data)) (props_get result k))"
proof (induction m data parentKey result and ms data parentKey result rule: collectDirtyValues_collect_entries.induct)
  case (1 m data parentKey result)
  have none: "Option.bind q (sent_at [] data) = None" for q by (cases q) (simp_all add: sent_at_def)
  have entries: "props_get (collect_entries (mask_entries m) data parentKey result) k =
      override (Option.bind (under pre k) (sent_at (mask_entries m) data)) (props_get result k)"
    if "mask_ok m" "m \<noteq> JBool True" "parent_pre parentKey pre" "pre = [] \<longrightarrow> [] \<notin> set (map fst (mask_entries m))" for pre k
  proof (cases m)
    case (JArr xs)
    then have m: "mask_entries m = own_props (JArr xs)" by (simp add: mask_entries_def)
    show ?thesis
      using 1(1) [OF that(2) JArr] mask_entries_ok [OF that(1)] that(3,4)
      unfolding m [symmetric] list_all_iff by blast
  next
    case (JObj ps)
    then have m: "mask_entries m = ps" by (simp add: mask_entries_def)
    show ?thesis
      using 1(2) [OF that(2) JObj] mask_entries_ok [OF that(1)] that(3,4)
      unfolding m [symmetric] list_all_iff by blast
  qed (simp_all add: mask_entries_def none)
  have "collectDirtyValues m data parentKey result = collect_entries (mask_entries m) data parentKey result"
    if "m \<noteq> JBool True"
    using that by (cases m) (simp_all add: collectDirtyValues.simps mask_entries_def)
  then show ?case using entries by auto
next
  case (2 data parentKey result)
  have "Option.bind q (sent_at [] data) = None" for q by (cases q) (simp_all add: sent_at_def)
  then show ?case by simp
next
  case (3 key v ms data parentKey result)
  show ?case
  proof (intro allI impI)
    fix pre k assume ok: "distinct (map fst ((key, v) # ms))" "list_all (\<lambda>kv. 46 \<notin> set (fst kv) \<and> mask_ok (snd kv)) ((key, v) # ms)"
      and pre: "parent_pre parentKey pre" and ne: "pre = [] \<longrightarrow> [] \<notin> set (map fst ((key, v) # ms))"
    have key: "46 \<notin> set key" "key \<notin> set (map fst ms)" "mask_ok v" using ok by auto
    have nk: "next_key parentKey key = pre @ key" "pre @ key \<noteq> []" using pre ne by (auto simp: next_key_pre)
    define res where "res = (if v = JBool True then props_set result (pre @ key) (field_of data key)
        else (case v of JObj _ \<Rightarrow> collectDirtyValues v (field_of data key) (Some (pre @ key)) result
              | JArr _ \<Rightarrow> collectDirtyValues v (field_of data key) (Some (pre @ key)) result
              | _ \<Rightarrow> result))"
    have step: "collect_entries ((key, v) # ms) data parentKey result = collect_entries ms data parentKey res"
      by (simp add: res_def nk(1) Let_def)
    have tail: "props_get (collect_entries ms data parentKey res) k =
        override (Option.bind (under pre k) (sent_at ms data)) (props_get res k)"
      using 3(3) [OF refl refl] ok pre ne unfolding res_def nk(1) [symmetric] by simp
    have "props_get res k = (if marked_here key v (under pre k)
        then Some (value_at data (the (under pre k))) else props_get result k)"
    proof (cases "isPlainObject v \<or> (\<exists>xs. v = JArr xs)")
      case True
      have "props_get (collectDirtyValues v (field_of data key) (Some (pre @ key)) result) k =
          override (Option.bind (under (pre @ key @ [46]) k) (sent_at (mask_entries v) (field_of data key))) (props_get result k)"
        using 3(1,2) [OF refl refl] True key(3) parent_pre_next [OF nk(2)] nk(2) unfolding nk(1)
        by (auto simp: isPlainObject_def split: jsval.splits)
      moreover have "res = collectDirtyValues v (field_of data key) (Some (pre @ key)) result" "v \<noteq> JBool True"
        using True by (auto simp: res_def isPlainObject_def split: jsval.splits)
      ultimately show ?thesis
        unfolding under_next [OF key(1)] marked_here_def
        by (auto simp: sent_at_def below_def split: option.splits list.splits)
    next
      case False
      then have "mask_entries v = []" by (cases v) (simp_all add: mask_entries_def isPlainObject_def)
      then have here: "marked_here key v (under pre k) \<longleftrightarrow> k = pre @ key \<and> v = JBool True"
        using under_here [OF key(1)] by (auto simp: marked_here_def split: option.splits)
      moreover have "res = (if v = JBool True then props_set result (pre @ key) (field_of data key) else result)"
        using False by (cases v) (simp_all add: res_def isPlainObject_def)
      moreover have "under pre (pre @ key) = Some [key]" using under_here [OF key(1)] by blast
      ultimately show ?thesis by auto
    qed
    then show "props_get (collect_entries ((key, v) # ms) data parentKey result) k =
        override (Option.bind (under pre k) (sent_at ((key, v) # ms) data)) (props_get result k)"
      using tail unfolding step
      by (cases "under pre k") (auto simp: sent_at_def marked_Cons [OF key(2)] marked_here_def)
  qed
qed


lemma collected_get:
  assumes "mask_ok (JObj ms)" "[] \<notin> set (map fst ms)"
  shows "props_get (collectDirtyValues (JObj ms) data None []) k = sent_at ms data (split_on 46 k)"
  using collect_get_aux(1) [of "JObj ms" None data "[]"] assms
  by (auto simp: parent_pre_def mask_entries_def override_def props_get_def split: option.splits)

lemma collected_distinct:
  "props_ok result \<Longrightarrow> props_ok (collectDirtyValues m data parentKey result)"
  "props_ok result \<Longrightarrow> props_ok (collect_entries ms data parentKey result)"
proof (induction m data parentKey result and ms data parentKey result rule: collectDirtyValues_collect_entries.induct)
  case (1 m data parentKey result)
  then show ?case
    by (cases m; cases parentKey) (simp_all add: collectDirtyValues.simps ps.ok_put)
next
  case (3 key v ms data parentKey result)
  show ?case
    unfolding collect_entries.simps Let_def
    by (rule 3(3) [OF refl refl]) (use 3 in \<open>simp add: ps.ok_put split: jsval.split\<close>)
qed simp

lemma map_of_filter_unchanged:
  "distinct (map fst c) \<Longrightarrow> map_of (filter (\<lambda>(key, v). \<not> compare v (f key)) c) k =
    (case map_of c k of Some v \<Rightarrow> if compare v (f k) then None else Some v | None \<Rightarrow> None)"
proof (induction c)
  case (Cons kv c)
  moreover have "map_of c (fst kv) = None" using Cons.prems by (simp add: map_of_eq_None_iff)
  ultimately show ?case by (cases kv) (auto split: option.splits)
qed simp

lemma changed_fields_get:
  assumes "mask_ok (JObj ms)" "[] \<notin> set (map fst ms)"
  shows "props_get (changed_fields compare (JObj ms) data s) k =
    (if marked ms (split_on 46 k) \<and> \<not> compare (value_at data (split_on 46 k)) (val_at (baselineRef s) k)
     then Some (value_at data (split_on 46 k)) else None)"
proof -
  let ?c = "collectDirtyValues (JObj ms) data None []"
  let ?f = "filter (\<lambda>(key, v). \<not> compare v (val_at (baselineRef s) key)) ?c"
  have "distinct (map fst ?c)" using collected_distinct(1) [of "[]" "JObj ms" data None] by (simp add: props_ok_def props_keys_def)
  then have dist: "distinct (map fst ?c)" "distinct (map fst ?f)" by (simp_all add: distinct_map_filter)
  have "props_get (changed_fields compare (JObj ms) data s) k = map_of ?f k"
    unfolding changed_fields_def props_get_assign_Nil using dist(2) by (simp only: map_of_rev_distinct)
  also have "\<dots> = (case map_of ?c k of Some v \<Rightarrow> if compare v (val_at (baselineRef s) k) then None else Some v | None \<Rightarrow> None)"
    using dist(1) by (rule map_of_filter_unchanged)
  also have "map_of ?c k = sent_at ms data (split_on 46 k)"
    using collected_get [OF assms] by (simp add: props_get_def)
  finally show ?thesis by (simp add: sent_at_def)
qed

text \<open>a submit sends exactly the options that are marked as edited and differ from the baseline,
  each under its dotted key; when there is none it sends nothing, and a failed save keeps the
  state.\<close>

theorem settings_submit_exact:
  assumes "mask_ok (JObj ms)" "[] \<notin> set (map fst ms)"
  shows "(case fst (handleSubmit compare saved (JObj ms) data s) of
      None \<Rightarrow> \<nexists>k. marked ms (split_on 46 k) \<and> \<not> compare (value_at data (split_on 46 k)) (val_at (baselineRef s) k)
    | Some changed \<Rightarrow> changed \<noteq> [] \<and>
        (\<forall>k. props_get changed k =
          (if marked ms (split_on 46 k) \<and> \<not> compare (value_at data (split_on 46 k)) (val_at (baselineRef s) k)
           then Some (value_at data (split_on 46 k)) else None))) \<and>
    snd (handleSubmit compare False (JObj ms) data s) = s"
proof (cases "changed_fields compare (JObj ms) data s = []")
  case True
  have "props_get (changed_fields compare (JObj ms) data s) k = None" for k using True by (simp add: props_get_def)
  then have "\<not> (marked ms (split_on 46 k) \<and> \<not> compare (value_at data (split_on 46 k)) (val_at (baselineRef s) k))" for k
    using changed_fields_get [OF assms, of compare data s k] by (metis option.distinct(1))
  then show ?thesis using True by (simp add: handleSubmit_def)
next
  case False
  then show ?thesis using changed_fields_get [OF assms, of compare data s] by (simp add: handleSubmit_def)
qed

lemma defaultCompare_refl: "v \<noteq> JNum NaN \<Longrightarrow> defaultCompare v v"
  by (cases v) (auto simp: defaultCompare_def num_eq_def)

text \<open>after a successful submit, submitting the same data again sends nothing, whichever fields
  are marked, as long as the marks stand at single options.\<close>

theorem settings_submit_once:
  assumes "fst (handleSubmit defaultCompare True dirty (JObj d) s) \<noteq> None"
    and "tree_ok (JObj d)" "[] \<notin> set (map fst d)"
    and "list_all (\<lambda>(k, v). leaf_at d (split_on 46 k) = Some v \<and> v \<noteq> JNum NaN) (collectDirtyValues dirty' (JObj d) None [])"
  shows "handleSubmit defaultCompare saved dirty' (JObj d) (snd (handleSubmit defaultCompare True dirty (JObj d) s)) =
    (None, snd (handleSubmit defaultCompare True dirty (JObj d) s))"
proof -
  let ?s = "snd (handleSubmit defaultCompare True dirty (JObj d) s)"
  have base: "baselineRef ?s = flattened (JObj d)"
    using assms(1) by (simp add: handleSubmit_def Let_def split: if_splits)
  have "filter (\<lambda>(key, v). \<not> defaultCompare v (val_at (baselineRef ?s) key)) (collectDirtyValues dirty' (JObj d) None []) = []"
    using assms(4) flattened_get [OF assms(2,3)]
    by (fastforce simp: filter_empty_conv list_all_iff base val_at_def defaultCompare_refl)
  then show ?thesis by (simp add: handleSubmit_def changed_fields_def props_assign_def)
qed


subsection \<open>A form\<close>

definition sample_options :: "jsval props" where
  "sample_options =
     [(js ''cache.size'', JNum (Fin 10)), (js ''Notice'', JStr (js ''hi'')), (js ''cache.disk.path'', JStr (js ''/tmp''))]"

definition sample_data :: "jsval props" where
  "sample_data =
     [(js ''cache'', JObj [(js ''size'', JNum (Fin 20)), (js ''disk'', JObj [(js ''path'', JStr (js ''/tmp''))])]),
      (js ''Notice'', JStr (js ''hi''))]"

definition sample_mask :: "jsval props" where
  "sample_mask =
     [(js ''cache'', JObj [(js ''size'', JBool True), (js ''disk'', JObj [(js ''path'', JBool True)])])]"

definition sample_settings :: settings_state where
  "sample_settings = mount_settings (JObj sample_options)"

theorem settings_defaults_round_trip_witness:
  "props_get (baselineRef sample_settings) (js ''cache.disk.path'') = Some (JStr (js ''/tmp''))"
proof -
  have "flat_defaults sample_options" by code_simp
  moreover have "props_get sample_options (js ''cache.disk.path'') = Some (JStr (js ''/tmp''))" by code_simp
  ultimately show ?thesis using settings_defaults_round_trip [of sample_options] by (simp add: sample_settings_def)
qed

lemma sample_mask_ok: "mask_ok (JObj sample_mask)" "[] \<notin> set (map fst sample_mask)"
  by code_simp+

theorem settings_submit_exact_witness:
  "\<exists>changed. fst (handleSubmit defaultCompare True (JObj sample_mask) (JObj sample_data) sample_settings) = Some changed \<and>
     props_get changed (js ''cache.size'') = Some (JNum (Fin 20)) \<and> props_get changed (js ''cache.disk.path'') = None"
proof -
  let ?h = "fst (handleSubmit defaultCompare True (JObj sample_mask) (JObj sample_data) sample_settings)"
  have "\<not> Option.is_none ?h" by code_simp
  then obtain c where c: "?h = Some c" by (auto simp: Option.is_none_def)
  have "marked sample_mask (split_on 46 (js ''cache.size''))" "value_at (JObj sample_data) (split_on 46 (js ''cache.size'')) = JNum (Fin 20)"
    "\<not> defaultCompare (JNum (Fin 20)) (val_at (baselineRef sample_settings) (js ''cache.size''))"
    "defaultCompare (value_at (JObj sample_data) (split_on 46 (js ''cache.disk.path''))) (val_at (baselineRef sample_settings) (js ''cache.disk.path''))"
    by code_simp+
  then show ?thesis
    using settings_submit_exact [OF sample_mask_ok, where compare = defaultCompare and saved = True and data = "JObj sample_data" and s = sample_settings] c by simp
qed

theorem settings_submit_once_witness:
  "fst (handleSubmit defaultCompare True (JObj sample_mask) (JObj sample_data)
     (snd (handleSubmit defaultCompare True (JObj sample_mask) (JObj sample_data) sample_settings))) = None"
proof -
  have "\<not> Option.is_none (fst (handleSubmit defaultCompare True (JObj sample_mask) (JObj sample_data) sample_settings))" by code_simp
  then have some: "fst (handleSubmit defaultCompare True (JObj sample_mask) (JObj sample_data) sample_settings) \<noteq> None"
    by (simp add: Option.is_none_def split: option.splits)
  have d: "tree_ok (JObj sample_data)" "[] \<notin> set (map fst sample_data)"
    "list_all (\<lambda>(k, v). leaf_at sample_data (split_on 46 k) = Some v \<and> v \<noteq> JNum NaN)
       (collectDirtyValues (JObj sample_mask) (JObj sample_data) None [])"
    by code_simp+
  show ?thesis using settings_submit_once [OF some d, where saved = True] by simp
qed

text \<open>An option whose value is an empty object has no leaf: it is not part of the baseline.\<close>

lemma empty_object_dropped: "flattened (JObj [(k, JObj [])]) = []"
  by (simp add: flattened_def isPlainObject_def)

end
