(* ===== verification/UpstreamUpdates.thy ===== *)
theory UpstreamUpdates
  imports JS_Json
begin

text \<open>
  Upstream model updates of a channel: \<^verbatim>\<open>features/channels/lib/upstream-update-utils.ts\<close> and the hook
  \<^verbatim>\<open>features/channels/hooks/use-channel-upstream-updates.ts\<close>.

  The server compares the models of a channel with those of its provider; the hook opens a dialog
  with the differences and sends four kinds of requests: apply the selection, apply all, detect for
  one channel, detect for all. Each handler is asynchronous: it sends a request, waits for the
  reply, then waits for the refresh of the table. The state therefore holds the requests that are
  under way, each with the values its closure has captured, and an \<open>inductive\<close> relation interleaves
  the handlers of the user with the replies. The replies are arbitrary JSON values. Notifications
  hold the translation key and the interpolated values.

  The theorems: at most one request of each kind is under way and the spinners show exactly that;
  whatever happens, every lock is released once the replies have come; an applied selection splits
  the offered models into added and ignored ones.
\<close>

subsection \<open>Model lists and stored settings\<close>

text \<open>\<open>None\<close> is the TypeError of calling \<^verbatim>\<open>map\<close> on a value that is no array, or of an item without a text.\<close>

definition normalizeModelList :: "jsval \<Rightarrow> jsstring list option" where
  "normalizeModelList models =
     (if truthy models
      then (case models of
              JArr xs \<Rightarrow>
                if list_ex str_throws xs then None
                else Some (uniq (filter (\<lambda>m. m \<noteq> []) (map (\<lambda>m. trim (to_str (val_or m (JStr [])))) xs)))
            | _ \<Rightarrow> None)
      else Some [])"

record upstream_meta =
  meta_enabled :: bool
  pendingAddModels :: "jsstring list"
  pendingRemoveModels :: "jsstring list"

definition parse_or_null :: "jsstring \<Rightarrow> jsval" where
  "parse_or_null s = (case json_parse s of Some v \<Rightarrow> v | None \<Rightarrow> JNull)"

definition parseUpstreamUpdateMeta :: "jsval \<Rightarrow> upstream_meta option" where
  "parseUpstreamUpdateMeta settings =
     (let parsed = (case settings of JObj _ \<Rightarrow> settings | JStr s \<Rightarrow> parse_or_null s | _ \<Rightarrow> JNull)
      in if (case parsed of JObj _ \<Rightarrow> True | JArr _ \<Rightarrow> True | _ \<Rightarrow> False)
         then (case (normalizeModelList (val_or (prop_of parsed (js ''upstream_model_update_last_detected_models'')) (JArr [])),
                     normalizeModelList (val_or (prop_of parsed (js ''upstream_model_update_last_removed_models'')) (JArr []))) of
                 (Some add, Some remove) \<Rightarrow>
                   Some \<lparr>meta_enabled = (prop_of parsed (js ''upstream_model_update_check_enabled'') = JBool True),
                         pendingAddModels = add, pendingRemoveModels = remove\<rparr>
               | _ \<Rightarrow> None)
         else Some \<lparr>meta_enabled = False, pendingAddModels = [], pendingRemoveModels = []\<rparr>)"

definition getManualIgnoredModelCount :: "jsval \<Rightarrow> nat option" where
  "getManualIgnoredModelCount settings =
     (let parsed = (case settings of
                      JObj _ \<Rightarrow> settings | JArr _ \<Rightarrow> settings
                    | JStr s \<Rightarrow> parse_or_null s | _ \<Rightarrow> JNull)
      in if truthy parsed
         then map_option length
                (normalizeModelList (val_or (prop_of parsed (js ''upstream_model_update_ignored_models'')) (JArr [])))
         else Some 0)"

subsection \<open>The state of the hook\<close>

record apply_request =
  req_id :: jsnum
  add_models :: "jsstring list"
  ignore_models :: "jsstring list"
  remove_models :: "jsstring list"

datatype operation = Apply apply_request | ApplyAll | Detect jsnum | DetectAll

text \<open>A handler is suspended at the request or at the refresh.\<close>

datatype task = Waiting operation | Refreshing operation

datatype toast = ToastInfo string | ToastError jsval | ToastSuccess string "jsval list" | ToastThrown

datatype tab = AddTab | RemoveTab

record upstream_state =
  showModal :: bool
  channel :: "jsnum option"
  addModels :: "jsstring list"
  removeModels :: "jsstring list"
  preferredTab :: tab
  applyLoading :: bool
  detectAllLoading :: bool
  applyAllLoading :: bool
  applyRef :: bool
  detectRef :: bool
  detectAllRef :: bool
  applyAllRef :: bool
  tasks :: "task list"
  toasts :: "toast list"

definition initial_upstream :: upstream_state where
  "initial_upstream =
     \<lparr>showModal = False, channel = None, addModels = [], removeModels = [], preferredTab = AddTab,
      applyLoading = False, detectAllLoading = False, applyAllLoading = False, applyRef = False,
      detectRef = False, detectAllRef = False, applyAllRef = False, tasks = [], toasts = []\<rparr>"

definition show_toast :: "toast \<Rightarrow> upstream_state \<Rightarrow> upstream_state" where
  "show_toast t s = s\<lparr>toasts := toasts s @ [t]\<rparr>"

definition send_request :: "operation \<Rightarrow> upstream_state \<Rightarrow> upstream_state" where
  "send_request op s = s\<lparr>tasks := tasks s @ [Waiting op]\<rparr>"

definition string_list :: "jsstring list \<Rightarrow> jsstring list" where
  "string_list models = uniq (filter (\<lambda>m. m \<noteq> []) (map trim models))"

text \<open>A channel is given by its identifier, which has to be truthy.\<close>

definition valid_id :: "jsnum option \<Rightarrow> jsnum option" where
  "valid_id ch = (case ch of Some i \<Rightarrow> if num_truthy i then Some i else None | None \<Rightarrow> None)"

definition openModal ::
  "jsnum option \<Rightarrow> jsstring list \<Rightarrow> jsstring list \<Rightarrow> tab \<Rightarrow> upstream_state \<Rightarrow> upstream_state" where
  "openModal record pendingAdd pendingRemove tb s =
     (let normAdd = string_list pendingAdd; normRemove = string_list pendingRemove
      in if valid_id record = None \<or> normAdd = [] \<and> normRemove = []
         then show_toast (ToastInfo ''No processable upstream model updates for this channel'') s
         else s\<lparr>channel := record, addModels := normAdd, removeModels := normRemove,
                preferredTab := tb, showModal := True\<rparr>)"

definition closeModal :: "upstream_state \<Rightarrow> upstream_state" where
  "closeModal s =
     s\<lparr>showModal := False, channel := None, addModels := [], removeModels := [], preferredTab := AddTab\<rparr>"

subsection \<open>Starting an operation\<close>

definition apply_request_of :: "jsnum \<Rightarrow> jsstring list \<Rightarrow> jsstring list \<Rightarrow> jsstring list \<Rightarrow> apply_request" where
  "apply_request_of i offered selectedAdd selectedRemove =
     (let normSelectedAdd = string_list selectedAdd
      in \<lparr>req_id = i, add_models = normSelectedAdd,
          ignore_models = filter (\<lambda>m. m \<notin> set normSelectedAdd) offered,
          remove_models = string_list selectedRemove\<rparr>)"

definition applyUpdates :: "jsstring list \<Rightarrow> jsstring list \<Rightarrow> upstream_state \<Rightarrow> upstream_state" where
  "applyUpdates selectedAdd selectedRemove s =
     (if applyRef s then s
      else (case valid_id (channel s) of
              None \<Rightarrow> closeModal s
            | Some i \<Rightarrow>
                send_request (Apply (apply_request_of i (addModels s) selectedAdd selectedRemove))
                  (s\<lparr>applyRef := True, applyLoading := True\<rparr>)))"

definition applyAllUpdates :: "upstream_state \<Rightarrow> upstream_state" where
  "applyAllUpdates s =
     (if applyAllRef s then s
      else send_request ApplyAll (s\<lparr>applyAllRef := True, applyAllLoading := True\<rparr>))"

definition detectChannelUpdates :: "jsnum option \<Rightarrow> upstream_state \<Rightarrow> upstream_state" where
  "detectChannelUpdates ch s =
     (if detectRef s then s
      else (case valid_id ch of
              None \<Rightarrow> s
            | Some i \<Rightarrow> send_request (Detect i) (s\<lparr>detectRef := True\<rparr>)))"

definition detectAllUpdates :: "upstream_state \<Rightarrow> upstream_state" where
  "detectAllUpdates s =
     (if detectAllRef s then s
      else send_request DetectAll (s\<lparr>detectAllRef := True, detectAllLoading := True\<rparr>))"

subsection \<open>Replies\<close>

text \<open>\<^verbatim>\<open>finally\<close>\<close>

fun release :: "operation \<Rightarrow> upstream_state \<Rightarrow> upstream_state" where
  "release (Apply r) s = s\<lparr>applyRef := False, applyLoading := False\<rparr>"
| "release ApplyAll s = s\<lparr>applyAllRef := False, applyAllLoading := False\<rparr>"
| "release (Detect i) s = s\<lparr>detectRef := False\<rparr>"
| "release DetectAll s = s\<lparr>detectAllRef := False, detectAllLoading := False\<rparr>"

fun failure_text :: "operation \<Rightarrow> string" where
  "failure_text (Apply r) = ''Operation failed''"
| "failure_text ApplyAll = ''Batch processing failed''"
| "failure_text (Detect i) = ''Detection failed''"
| "failure_text DetectAll = ''Batch detection failed''"

text \<open>\<^verbatim>\<open>x?.length || 0\<close> and \<^verbatim>\<open>(x || []).length\<close>\<close>

definition length_of :: "jsval \<Rightarrow> jsval" where
  "length_of v =
     (case v of JArr xs \<Rightarrow> JNum (Fin (of_nat (length xs))) | JStr s \<Rightarrow> JNum (Fin (of_nat (length s)))
      | JObj ps \<Rightarrow> val_at ps (js ''length'') | _ \<Rightarrow> JUndef)"

definition or_zero :: "jsval \<Rightarrow> jsval" where
  "or_zero v = val_or v (JNum (Fin 0))"

definition count_val :: "nat \<Rightarrow> jsval" where
  "count_val n = JNum (Fin (of_nat n))"

text \<open>The success notification; \<open>None\<close> when computing its numbers throws.\<close>

fun success_toast :: "operation \<Rightarrow> jsval \<Rightarrow> toast option" where
  "success_toast (Apply r) data =
     map_option (\<lambda>total. ToastSuccess ''Upstream model updates applied''
         [or_zero (length_of (prop_of data (js ''added_models''))),
          or_zero (length_of (prop_of data (js ''removed_models''))),
          count_val (length (string_list (ignore_models r))), count_val total])
       (getManualIgnoredModelCount (prop_of data (js ''settings'')))"
| "success_toast ApplyAll data =
     Some (ToastSuccess ''Batch upstream model updates applied''
       [or_zero (prop_of data (js ''processed_channels'')), or_zero (prop_of data (js ''added_models'')),
        or_zero (prop_of data (js ''removed_models'')),
        length_of (val_or (prop_of data (js ''failed_channel_ids'')) (JArr []))])"
| "success_toast (Detect i) data =
     Some (ToastSuccess ''Detection complete''
       [or_zero (length_of (prop_of data (js ''add_models''))), or_zero (length_of (prop_of data (js ''remove_models'')))])"
| "success_toast DetectAll data =
     Some (ToastSuccess ''Batch detection complete''
       [or_zero (prop_of data (js ''processed_channels'')), or_zero (prop_of data (js ''detected_add_models'')),
        or_zero (prop_of data (js ''detected_remove_models'')),
        length_of (val_or (prop_of data (js ''failed_channel_ids'')) (JArr []))])"

text \<open>What the request comes back with: a body, or an exception with the message that the handler
  reads from it.\<close>

datatype outcome = Reply jsval | Reject jsval

definition remove_task :: "nat \<Rightarrow> upstream_state \<Rightarrow> upstream_state" where
  "remove_task n s = s\<lparr>tasks := take n (tasks s) @ drop (Suc n) (tasks s)\<rparr>"

definition fail_operation :: "operation \<Rightarrow> jsval \<Rightarrow> nat \<Rightarrow> upstream_state \<Rightarrow> upstream_state" where
  "fail_operation op message n s =
     release op (remove_task n (show_toast (ToastError (val_or message (JStr (js (failure_text op))))) s))"

definition is_apply :: "operation \<Rightarrow> bool" where
  "is_apply op = (case op of Apply _ \<Rightarrow> True | _ \<Rightarrow> False)"

fun on_reply :: "operation \<Rightarrow> nat \<Rightarrow> outcome \<Rightarrow> upstream_state \<Rightarrow> upstream_state" where
  "on_reply op n (Reject message) s = fail_operation op message n s"
| "on_reply op n (Reply body) s =
     (let b = val_or body (JObj [])
      in if \<not> truthy (prop_of b (js ''success''))
         then fail_operation op (prop_of b (js ''message'')) n s
         else (case success_toast op (prop_of b (js ''data'')) of
                 None \<Rightarrow> release op (remove_task n (show_toast ToastThrown s))
               | Some t \<Rightarrow>
                   let s1 = show_toast t s;
                       s2 = (if is_apply op then closeModal s1 else s1)
                   in s2\<lparr>tasks := (tasks s2)[n := Refreshing op]\<rparr>))"

text \<open>The end of the refresh; its failure is reported like that of the request.\<close>

definition on_refreshed :: "operation \<Rightarrow> nat \<Rightarrow> jsval option \<Rightarrow> upstream_state \<Rightarrow> upstream_state" where
  "on_refreshed op n failure s =
     (case failure of
        None \<Rightarrow> release op (remove_task n s)
      | Some message \<Rightarrow> fail_operation op message n s)"


subsection \<open>Interleavings\<close>

inductive upstream_step :: "upstream_state \<Rightarrow> upstream_state \<Rightarrow> bool" where
  step_open: "upstream_step s (openModal ch pendingAdd pendingRemove tb s)"
| step_close: "upstream_step s (closeModal s)"
| step_apply: "upstream_step s (applyUpdates selectedAdd selectedRemove s)"
| step_apply_all: "upstream_step s (applyAllUpdates s)"
| step_detect: "upstream_step s (detectChannelUpdates ch s)"
| step_detect_all: "upstream_step s (detectAllUpdates s)"
| step_reply: "n < length (tasks s) \<Longrightarrow> tasks s ! n = Waiting op \<Longrightarrow> upstream_step s (on_reply op n outc s)"
| step_refreshed: "n < length (tasks s) \<Longrightarrow> tasks s ! n = Refreshing op \<Longrightarrow> upstream_step s (on_refreshed op n failure s)"

inductive upstream_reach :: "upstream_state \<Rightarrow> upstream_state \<Rightarrow> bool" for s0 where
  reach_start: "upstream_reach s0 s0"
| reach_step: "upstream_reach s0 s \<Longrightarrow> upstream_step s s' \<Longrightarrow> upstream_reach s0 s'"

text \<open>The four kinds of requests, and how many of each are under way.\<close>

datatype kind = KApply | KApplyAll | KDetect | KDetectAll

fun kind_of :: "operation \<Rightarrow> kind" where
  "kind_of (Apply r) = KApply"
| "kind_of ApplyAll = KApplyAll"
| "kind_of (Detect i) = KDetect"
| "kind_of DetectAll = KDetectAll"

fun op_of :: "task \<Rightarrow> operation" where
  "op_of (Waiting op) = op"
| "op_of (Refreshing op) = op"

fun ref_of :: "kind \<Rightarrow> upstream_state \<Rightarrow> bool" where
  "ref_of KApply s = applyRef s"
| "ref_of KApplyAll s = applyAllRef s"
| "ref_of KDetect s = detectRef s"
| "ref_of KDetectAll s = detectAllRef s"

definition running :: "kind \<Rightarrow> upstream_state \<Rightarrow> nat" where
  "running k s = length (filter (\<lambda>t. kind_of (op_of t) = k) (tasks s))"

text \<open>A lock and the operations that it guards: an operation starts only while the lock is free and
  takes it, and the lock is freed only when one of them ends.\<close>

locale guarded_operation =
  fixes locked :: "'s \<Rightarrow> bool" and active :: "'s \<Rightarrow> nat" and move :: "'s \<Rightarrow> 's \<Rightarrow> bool"
  assumes move_cases: "move s s' \<Longrightarrow>
    locked s' = locked s \<and> active s' = active s \<or>
    \<not> locked s \<and> locked s' \<and> active s' = Suc (active s) \<or>
    \<not> locked s' \<and> active s = Suc (active s')"
begin

definition exclusive :: "'s \<Rightarrow> bool" where
  "exclusive s \<longleftrightarrow> active s = (if locked s then 1 else 0)"

lemma exclusive_move: "move s s' \<Longrightarrow> exclusive s \<Longrightarrow> exclusive s'"
  using move_cases [of s s'] by (auto simp: exclusive_def split: if_splits)

lemma exclusive_le_1: "exclusive s \<Longrightarrow> active s \<le> 1"
  by (simp add: exclusive_def)

end

lemma tasks_append: "running k (s\<lparr>tasks := ts @ [Waiting op]\<rparr>) =
    length (filter (\<lambda>t. kind_of (op_of t) = k) ts) + (if kind_of op = k then 1 else 0)"
  by (simp add: running_def)

lemma running_remove:
  assumes "n < length (tasks s)" "op_of (tasks s ! n) = op"
  shows "running k s = running k (remove_task n s) + (if kind_of op = k then 1 else 0)"
proof -
  have "tasks s = take n (tasks s) @ tasks s ! n # drop (Suc n) (tasks s)" using assms(1) by (rule id_take_nth_drop)
  then have "running k s = length (filter (\<lambda>t. kind_of (op_of t) = k) (take n (tasks s) @ tasks s ! n # drop (Suc n) (tasks s)))"
    by (simp add: running_def)
  then show ?thesis using assms(2) by (simp add: running_def remove_task_def)
qed

lemma running_update:
  assumes "n < length ts" "op_of t = op_of (ts ! n)"
  shows "length (filter (\<lambda>t. kind_of (op_of t) = k) (ts[n := t])) = length (filter (\<lambda>t. kind_of (op_of t) = k) ts)"
proof -
  have "map op_of (ts[n := t]) = map op_of ts" using assms by (simp add: map_update list_update_same_conv)
  moreover have "length (filter (\<lambda>t. kind_of (op_of t) = k) xs) = length (filter (\<lambda>op. kind_of op = k) (map op_of xs))" for xs
    by (simp add: filter_map o_def)
  ultimately show ?thesis by metis
qed

lemma running_irrelevant [simp]:
  "running k (show_toast t s) = running k s" "running k (closeModal s) = running k s"
  "running k (release op s) = running k s"
  by (cases op; simp add: running_def show_toast_def closeModal_def)+

lemma ref_irrelevant [simp]:
  "ref_of k (show_toast t s) = ref_of k s" "ref_of k (closeModal s) = ref_of k s"
  "ref_of k (remove_task n s) = ref_of k s" "ref_of k (s\<lparr>tasks := ts\<rparr>) = ref_of k s"
  by (cases k; simp add: show_toast_def closeModal_def remove_task_def)+

lemma ref_release [simp]: "ref_of k (release op s) = (ref_of k s \<and> kind_of op \<noteq> k)"
  by (cases k; cases op) simp_all

lemma tasks_irrelevant [simp]:
  "tasks (show_toast t s) = tasks s" "tasks (closeModal s) = tasks s" "tasks (release op s) = tasks s"
  by (cases op; simp add: show_toast_def closeModal_def)+

definition ends_operation :: "operation \<Rightarrow> upstream_state \<Rightarrow> upstream_state \<Rightarrow> bool" where
  "ends_operation op s s' \<longleftrightarrow>
     (\<forall>k. ref_of k s' = (ref_of k s \<and> kind_of op \<noteq> k) \<and> running k s = running k s' + (if kind_of op = k then 1 else 0))"

definition keeps_operations :: "upstream_state \<Rightarrow> upstream_state \<Rightarrow> bool" where
  "keeps_operations s s' \<longleftrightarrow> (\<forall>k. ref_of k s' = ref_of k s \<and> running k s' = running k s)"

definition starts_operation :: "operation \<Rightarrow> upstream_state \<Rightarrow> upstream_state \<Rightarrow> bool" where
  "starts_operation op s s' \<longleftrightarrow>
     \<not> ref_of (kind_of op) s \<and>
     (\<forall>k. ref_of k s' = (ref_of k s \<or> kind_of op = k) \<and> running k s' = running k s + (if kind_of op = k then 1 else 0))"

lemma fail_ends:
  assumes "n < length (tasks s)" "op_of (tasks s ! n) = op"
  shows "ends_operation op s (fail_operation op message n s)"
    "ends_operation op s (release op (remove_task n s))" "ends_operation op s (release op (remove_task n (show_toast t s)))"
  using running_remove [of n s op] running_remove [of n "show_toast _ s" op] assms
  by (auto simp: ends_operation_def fail_operation_def)

lemma reply_cases:
  assumes "n < length (tasks s)" "tasks s ! n = Waiting op"
  shows "ends_operation op s (on_reply op n outc s) \<or> keeps_operations s (on_reply op n outc s)"
proof -
  have op: "op_of (tasks s ! n) = op" using assms(2) by simp
  have keep: "running k (x\<lparr>tasks := (tasks s)[n := Refreshing op]\<rparr>) = running k s" for k x
    using running_update [of n "tasks s" "Refreshing op" k] assms by (simp add: running_def)
  show ?thesis
    using fail_ends [OF assms(1) op] keep
    by (cases outc) (auto simp: Let_def keeps_operations_def split: option.split)
qed

lemma start_cases:
  "upstream_step s s' \<Longrightarrow> keeps_operations s s' \<or> (\<exists>op. starts_operation op s s') \<or> (\<exists>op. ends_operation op s s')"
proof (induction rule: upstream_step.induct)
  case (step_reply n s op outc)
  then show ?case using reply_cases by blast
next
  case (step_refreshed n s op failure)
  then have op: "op_of (tasks s ! n) = op" by simp
  have "ends_operation op s (on_refreshed op n failure s)"
    using fail_ends [OF step_refreshed(1) op] by (cases failure) (simp_all add: on_refreshed_def)
  then show ?case by blast
next
  case (step_open s ch pendingAdd pendingRemove tb)
  have "ref_of k (openModal ch pendingAdd pendingRemove tb s) = ref_of k s"
    "running k (openModal ch pendingAdd pendingRemove tb s) = running k s" for k
    by (cases k; simp add: openModal_def show_toast_def running_def Let_def)+
  then show ?case by (simp add: keeps_operations_def)
next
  case (step_close s)
  then show ?case by (simp add: keeps_operations_def)
next
  case (step_apply s selectedAdd selectedRemove)
  have "keeps_operations s (applyUpdates selectedAdd selectedRemove s) \<or>
      (\<exists>r. starts_operation (Apply r) s (applyUpdates selectedAdd selectedRemove s))"
  proof (cases "applyRef s \<or> valid_id (channel s) = None")
    case True
    then show ?thesis by (auto simp: keeps_operations_def applyUpdates_def)
  next
    case False
    then obtain i where i: "valid_id (channel s) = Some i" "\<not> applyRef s" by auto
    have "ref_of k (applyUpdates selectedAdd selectedRemove s) = (ref_of k s \<or> k = KApply)" for k
      using i by (cases k) (simp_all add: applyUpdates_def send_request_def)
    moreover have "running k (applyUpdates selectedAdd selectedRemove s) = running k s + (if k = KApply then 1 else 0)" for k
      using i by (simp add: applyUpdates_def send_request_def running_def)
    ultimately show ?thesis using i(2) by (auto simp: starts_operation_def)
  qed
  then show ?case by blast
next
  case (step_apply_all s)
  have "ref_of k (applyAllUpdates s) = (ref_of k s \<or> k = KApplyAll)" for k
    by (cases k) (simp_all add: applyAllUpdates_def send_request_def)
  moreover have "running k (applyAllUpdates s) = running k s + (if k = KApplyAll then 1 else 0)" if "\<not> applyAllRef s" for k
    using that by (simp add: applyAllUpdates_def send_request_def running_def)
  ultimately have "starts_operation ApplyAll s (applyAllUpdates s)" if "\<not> applyAllRef s"
    using that by (auto simp: starts_operation_def)
  then show ?case by (cases "applyAllRef s") (auto simp: keeps_operations_def applyAllUpdates_def)
next
  case (step_detect s ch)
  show ?case
  proof (cases "detectRef s \<or> valid_id ch = None")
    case True
    then show ?thesis by (auto simp: keeps_operations_def detectChannelUpdates_def)
  next
    case False
    then obtain i where i: "valid_id ch = Some i" "\<not> detectRef s" by auto
    have "ref_of k (detectChannelUpdates ch s) = (ref_of k s \<or> k = KDetect)" for k
      using i by (cases k) (simp_all add: detectChannelUpdates_def send_request_def)
    moreover have "running k (detectChannelUpdates ch s) = running k s + (if k = KDetect then 1 else 0)" for k
      using i by (simp add: detectChannelUpdates_def send_request_def running_def)
    ultimately have "starts_operation (Detect i) s (detectChannelUpdates ch s)" using i(2) by (auto simp: starts_operation_def)
    then show ?thesis by blast
  qed
next
  case (step_detect_all s)
  have "ref_of k (detectAllUpdates s) = (ref_of k s \<or> k = KDetectAll)" for k
    by (cases k) (simp_all add: detectAllUpdates_def send_request_def)
  moreover have "running k (detectAllUpdates s) = running k s + (if k = KDetectAll then 1 else 0)" if "\<not> detectAllRef s" for k
    using that by (simp add: detectAllUpdates_def send_request_def running_def)
  ultimately have "starts_operation DetectAll s (detectAllUpdates s)" if "\<not> detectAllRef s"
    using that by (auto simp: starts_operation_def)
  then show ?case by (cases "detectAllRef s") (auto simp: keeps_operations_def detectAllUpdates_def)
qed

interpretation guard: guarded_operation "ref_of k" "running k" upstream_step
proof
  fix s s' assume "upstream_step s s'"
  then consider "keeps_operations s s'" | op where "starts_operation op s s'" | op where "ends_operation op s s'"
    using start_cases by blast
  then show "ref_of k s' = ref_of k s \<and> running k s' = running k s \<or>
      \<not> ref_of k s \<and> ref_of k s' \<and> running k s' = Suc (running k s) \<or>
      \<not> ref_of k s' \<and> running k s = Suc (running k s')"
  proof cases
    case 1
    then show ?thesis by (simp add: keeps_operations_def)
  next
    case (2 op)
    then show ?thesis by (cases "kind_of op = k") (auto simp: starts_operation_def)
  next
    case (3 op)
    then show ?thesis by (cases "kind_of op = k") (simp_all add: ends_operation_def)
  qed
qed

subsection \<open>Locks\<close>

text \<open>The spinners of the dialog and of the two batch buttons.\<close>

definition spinners_ok :: "upstream_state \<Rightarrow> bool" where
  "spinners_ok s \<longleftrightarrow>
     applyLoading s = applyRef s \<and> applyAllLoading s = applyAllRef s \<and> detectAllLoading s = detectAllRef s"

lemmas handler_defs = openModal_def closeModal_def applyUpdates_def applyAllUpdates_def detectChannelUpdates_def
  detectAllUpdates_def send_request_def show_toast_def Let_def

lemma spinners_irrelevant [simp]:
  "spinners_ok (show_toast t s) = spinners_ok s" "spinners_ok (closeModal s) = spinners_ok s"
  "spinners_ok (remove_task n s) = spinners_ok s" "spinners_ok (s\<lparr>tasks := ts\<rparr>) = spinners_ok s"
  "spinners_ok s \<Longrightarrow> spinners_ok (release op s)"
  by (cases op; auto simp: spinners_ok_def show_toast_def closeModal_def remove_task_def)+

lemma spinners_step: "upstream_step s s' \<Longrightarrow> spinners_ok s \<Longrightarrow> spinners_ok s'"
proof (induction rule: upstream_step.induct)
  case (step_reply n s op outc)
  then show ?case by (cases outc) (auto simp: Let_def fail_operation_def split: option.split)
next
  case (step_refreshed n s op failure)
  then show ?case by (cases failure) (simp_all add: on_refreshed_def fail_operation_def)
qed (auto simp: spinners_ok_def handler_defs split: option.split)

lemma locks_invariant:
  assumes "upstream_reach initial_upstream s"
  shows "running k s = (if ref_of k s then 1 else 0) \<and> spinners_ok s"
  using assms
proof induction
  case reach_start
  show ?case by (cases k) (simp_all add: initial_upstream_def running_def spinners_ok_def)
next
  case (reach_step s s')
  then have "guard.exclusive k s'" using guard.exclusive_move [of s s' k] by (simp add: guard.exclusive_def)
  then show ?case using reach_step spinners_step by (simp add: guard.exclusive_def)
qed


text \<open>C27: at most one request of each kind is ever under way, and the locks and spinners tell exactly
  which: neither a second click nor a late reply gets around them.\<close>

theorem one_request_per_kind:
  assumes "upstream_reach initial_upstream s"
  shows "running k s = (if ref_of k s then 1 else 0) \<and> spinners_ok s"
  by (rule locks_invariant [OF assms])

theorem one_request_per_kind_witness:
  "running KApplyAll (applyAllUpdates (applyAllUpdates initial_upstream)) = 1"
proof -
  have "upstream_reach initial_upstream (applyAllUpdates (applyAllUpdates initial_upstream))"
    by (rule reach_step [rotated], rule step_apply_all)+ (rule reach_start)
  then show ?thesis
    using one_request_per_kind [of "applyAllUpdates (applyAllUpdates initial_upstream)" KApplyAll]
    by (simp add: applyAllUpdates_def send_request_def initial_upstream_def)
qed

text \<open>Only the environment moves: a reply comes, or a refresh ends.\<close>

inductive reply_step :: "upstream_state \<Rightarrow> upstream_state \<Rightarrow> bool" where
  replied: "n < length (tasks s) \<Longrightarrow> tasks s ! n = Waiting op \<Longrightarrow> reply_step s (on_reply op n outc s)"
| refreshed: "n < length (tasks s) \<Longrightarrow> tasks s ! n = Refreshing op \<Longrightarrow> reply_step s (on_refreshed op n failure s)"

fun task_work :: "task \<Rightarrow> nat" where
  "task_work (Waiting op) = 2"
| "task_work (Refreshing op) = 1"

definition work :: "upstream_state \<Rightarrow> nat" where
  "work s = sum_list (map task_work (tasks s))"

lemma work_nth:
  assumes "n < length ts"
  shows "sum_list (map task_work ts) = sum_list (map task_work (take n ts @ drop (Suc n) ts)) + task_work (ts ! n)"
    "sum_list (map task_work (ts[n := t])) = sum_list (map task_work (take n ts @ drop (Suc n) ts)) + task_work t"
proof -
  have "sum_list (map task_work (take n ts @ x # drop (Suc n) ts)) =
      sum_list (map task_work (take n ts @ drop (Suc n) ts)) + task_work x" for x by simp
  then show "sum_list (map task_work ts) = sum_list (map task_work (take n ts @ drop (Suc n) ts)) + task_work (ts ! n)"
    "sum_list (map task_work (ts[n := t])) = sum_list (map task_work (take n ts @ drop (Suc n) ts)) + task_work t"
    using id_take_nth_drop [OF assms] upd_conv_take_nth_drop [OF assms, of t] by metis+
qed

lemma reply_step_work: "reply_step s s' \<Longrightarrow> work s' < work s"
proof (induction rule: reply_step.induct)
  case (replied n s op outc)
  have fin: "tasks (fail_operation op m n s) = take n (tasks s) @ drop (Suc n) (tasks s)"
    "tasks (release op (remove_task n (show_toast x s))) = take n (tasks s) @ drop (Suc n) (tasks s)" for m x
    by (simp_all add: fail_operation_def remove_task_def)
  then have "tasks (remove_task n (show_toast x s)) = take n (tasks s) @ drop (Suc n) (tasks s)" for x by simp
  then have "tasks (on_reply op n outc s) = take n (tasks s) @ drop (Suc n) (tasks s) \<or>
      tasks (on_reply op n outc s) = (tasks s)[n := Refreshing op]"
    using fin(1) by (cases outc) (simp_all add: Let_def split: option.split)
  then show ?case using work_nth [OF replied(1)] replied(2) by (auto simp: work_def)
next
  case (refreshed n s op failure)
  have "tasks (on_refreshed op n failure s) = take n (tasks s) @ drop (Suc n) (tasks s)"
    by (cases failure) (simp_all add: on_refreshed_def fail_operation_def remove_task_def)
  then show ?case using work_nth(1) [OF refreshed(1)] refreshed(2) by (simp add: work_def)
qed

text \<open>no lock stays taken: every reply, success or failure, leaves less to wait for, and when
  nothing is left to wait for all four locks are free.\<close>

theorem locks_always_released:
  assumes "upstream_reach initial_upstream s"
  shows "(\<forall>s'. reply_step s s' \<longrightarrow> work s' < work s) \<and> ((\<nexists>s'. reply_step s s') \<longrightarrow> (\<forall>k. \<not> ref_of k s))"
proof -
  have "tasks s = []" if stuck: "\<nexists>s'. reply_step s s'"
  proof (cases "tasks s")
    case (Cons t ts)
    then have "reply_step s (on_reply op 0 (Reject JUndef) s)" if "t = Waiting op" for op
      using that by (intro replied) simp_all
    moreover have "reply_step s (on_refreshed op 0 None s)" if "t = Refreshing op" for op
      using that Cons by (intro refreshed) simp_all
    ultimately show ?thesis using stuck by (cases t) blast+
  qed
  then show ?thesis
    using reply_step_work locks_invariant [OF assms] by (fastforce simp: running_def split: if_splits)
qed

theorem locks_always_released_witness:
  "work (on_reply ApplyAll 0 (Reject JUndef) (applyAllUpdates initial_upstream)) < work (applyAllUpdates initial_upstream)"
proof -
  let ?s = "applyAllUpdates initial_upstream"
  have "upstream_reach initial_upstream ?s" by (intro reach_step [OF reach_start] step_apply_all)
  moreover have "reply_step ?s (on_reply ApplyAll 0 (Reject JUndef) ?s)"
    by (rule replied) (simp_all add: applyAllUpdates_def send_request_def initial_upstream_def)
  ultimately show ?thesis using locks_always_released by blast
qed

subsection \<open>Requests\<close>

lemma string_list_val: "normalizeModelList (JArr (map JStr xs)) = Some (string_list xs)"
proof -
  have "to_str (val_or (JStr x) (JStr [])) = x" for x by (simp add: val_or_def)
  then show ?thesis by (simp add: normalizeModelList_def string_list_def o_def list_ex_iff)
qed

text \<open>applying a selection sends each offered model exactly once, as added or as ignored, and
  nothing is ignored that was not offered.\<close>

theorem apply_splits_offer:
  assumes "\<not> applyRef s" "valid_id (channel s) = Some i"
  shows "\<exists>r. tasks (applyUpdates selectedAdd selectedRemove s) = tasks s @ [Waiting (Apply r)] \<and> req_id r = i \<and>
    set (add_models r) = trim ` set selectedAdd - {[]} \<and> distinct (add_models r) \<and>
    set (ignore_models r) = set (addModels s) - set (add_models r) \<and>
    set (remove_models r) = trim ` set selectedRemove - {[]}"
proof -
  have "set (string_list xs) = trim ` set xs - {[]}" "distinct (string_list xs)" for xs
    by (auto simp: string_list_def uq.dedup_set uq.dedup_distinct)
  then show ?thesis using assms by (auto simp: applyUpdates_def send_request_def apply_request_of_def Let_def)
qed

theorem apply_splits_offer_witness:
  "\<exists>r. tasks (applyUpdates [js ''a''] [] (openModal (Some (Fin 1)) [js ''a'', js ''b''] [] AddTab initial_upstream)) =
     [Waiting (Apply r)] \<and> set (ignore_models r) = {js ''b''}"
proof -
  let ?s = "openModal (Some (Fin 1)) [js ''a'', js ''b''] [] AddTab initial_upstream"
  have s: "\<not> applyRef ?s" "valid_id (channel ?s) = Some (Fin 1)" "tasks ?s = []" "addModels ?s = [js ''a'', js ''b'']"
    "trim (js ''a'') = js ''a''"
    by code_simp+
  obtain r where r: "tasks (applyUpdates [js ''a''] [] ?s) = tasks ?s @ [Waiting (Apply r)]"
    "set (add_models r) = trim ` set [js ''a''] - {[]}" "set (ignore_models r) = set (addModels ?s) - set (add_models r)"
    using apply_splits_offer [OF s(1,2), of "[js ''a'']" "[]"] by blast
  moreover have "set (ignore_models r) = {js ''b''}"
    using r(2,3) s(4,5) by auto
  ultimately show ?thesis using s(3) by auto
qed

subsection \<open>A late reply\<close>

text \<open>Cancelling is possible while a request is under way. If the dialog has been opened for another
  channel by the time the reply comes, the reply closes that dialog.\<close>

definition second_dialog :: upstream_state where
  "second_dialog =
     openModal (Some (Fin 2)) [js ''b''] [] AddTab
       (closeModal (applyUpdates [js ''a''] [] (openModal (Some (Fin 1)) [js ''a''] [] AddTab initial_upstream)))"

lemma late_reply_closes_dialog:
  "upstream_reach initial_upstream second_dialog \<and> showModal second_dialog \<and> channel second_dialog = Some (Fin 2) \<and>
   (\<exists>s'. reply_step second_dialog s' \<and> \<not> showModal s')"
proof -
  have "upstream_reach initial_upstream second_dialog"
    unfolding second_dialog_def
    by (rule reach_step [rotated], rule step_open step_apply step_close)+ (rule reach_start)
  moreover have "showModal second_dialog" "channel second_dialog = Some (Fin 2)" by code_simp+
  moreover have task: "tasks second_dialog = [Waiting (Apply (apply_request_of (Fin 1) [js ''a''] [js ''a''] []))]" by code_simp
  moreover have "\<not> showModal (on_reply (Apply (apply_request_of (Fin 1) [js ''a''] [js ''a''] [])) 0
      (Reply (JObj [(js ''success'', JBool True)])) second_dialog)" by code_simp
  ultimately show ?thesis using replied [of 0 second_dialog] by fastforce
qed

text \<open>A stored list that is no array makes the parser throw.\<close>

lemma stored_text_list_throws:
  "parseUpstreamUpdateMeta (JObj [(js ''upstream_model_update_last_detected_models'', JStr (js ''a,b''))]) = None"
  by code_simp

end
