(* ===== verification/Attachments.thy ===== *)
theory Attachments
  imports JS_Json
begin

text \<open>
  Attachments of the playground: \<^verbatim>\<open>features/playground/lib/attachments.ts\<close>, and the handlers of the
  prompt in \<^verbatim>\<open>features/playground/components/playground-input.tsx\<close>.

  Files are read in the browser: text files are put into the prompt, images are sent as data URLs.
  Reading a file is the parameter \<open>read\<close>, with \<open>None\<close> for a failure; \<^verbatim>\<open>toLowerCase\<close> is the parameter
  \<open>lower\<close>. Reading is asynchronous, so the image handler works on the list it has captured: its start
  and its end are separate steps, and the user acts in between.

  The theorems: every attachment that is sent passed the checks of type and size, and the prompt
  holds the text of every attachment, in order, before the message.
\<close>

subsection \<open>Files\<close>

record file_obj =
  file_name :: jsstring
  mime :: jsstring
  file_size :: jsnum

definition TEXT_FILE_EXTENSIONS :: "jsstring list" where
  "TEXT_FILE_EXTENSIONS = map js [''.txt'', ''.md'', ''.markdown'', ''.csv'', ''.json'', ''.log'']"

definition MAX_TEXT_FILE_BYTES :: jsnum where
  "MAX_TEXT_FILE_BYTES = Fin (2 * 1024 * 1024)"

definition MAX_IMAGE_FILE_BYTES :: jsnum where
  "MAX_IMAGE_FILE_BYTES = Fin (5 * 1024 * 1024)"

definition ALLOWED_IMAGE_MIMES :: "jsstring list" where
  "ALLOWED_IMAGE_MIMES =
     map js [''image/png'', ''image/jpeg'', ''image/jpg'', ''image/webp'', ''image/gif'', ''image/bmp'']"

definition ALLOWED_TEXT_MIMES :: "jsstring list" where
  "ALLOWED_TEXT_MIMES =
     map js [''text/plain'', ''text/markdown'', ''text/x-markdown'', ''text/csv'', ''application/json'',
       ''text/json'', ''application/octet-stream'', '''']"

definition TEXT_FILE_ACCEPT :: jsstring where
  "TEXT_FILE_ACCEPT = join (js '','') TEXT_FILE_EXTENSIONS"

definition IMAGE_FILE_ACCEPT :: jsstring where
  "IMAGE_FILE_ACCEPT = js ''image/png,image/jpeg,image/webp,image/gif,image/bmp''"

text \<open>From the last dot on; nothing when there is none or the name starts with it.\<close>

definition getExtension :: "(jsstring \<Rightarrow> jsstring) \<Rightarrow> jsstring \<Rightarrow> jsstring" where
  "getExtension lower name =
     (let ext = rev (takeWhile (\<lambda>c. c \<noteq> 46) (rev name))
      in if 46 \<notin> set name \<or> length name = length ext + 1 then [] else lower (46 # ext))"

definition formatFileSize :: "jsnum \<Rightarrow> jsstring" where
  "formatFileSize bytes =
     (case bytes of
        Fin q \<Rightarrow>
          if q \<le> 0 then js ''0 B''
          else if q < 1024 then num_to_str bytes @ js '' B''
          else if q < 1024 * 1024 then num_to_fixed 1 (round_double (q / 1024)) @ js '' KB''
          else num_to_fixed 2 (round_double (q / (1024 * 1024))) @ js '' MB''
      | _ \<Rightarrow> js ''0 B'')"

definition isAllowedTextFile :: "(jsstring \<Rightarrow> jsstring) \<Rightarrow> file_obj option \<Rightarrow> bool" where
  "isAllowedTextFile lower f =
     (case f of
        None \<Rightarrow> False
      | Some f \<Rightarrow> getExtension lower (file_name f) \<in> set TEXT_FILE_EXTENSIONS \<and>
                  lower (mime f) \<in> set ALLOWED_TEXT_MIMES)"

definition isAllowedImageFile :: "(jsstring \<Rightarrow> jsstring) \<Rightarrow> file_obj option \<Rightarrow> bool" where
  "isAllowedImageFile lower f =
     (case f of
        None \<Rightarrow> False
      | Some f \<Rightarrow> prefix (js ''image/'') (lower (mime f)) \<and> lower (mime f) \<in> set ALLOWED_IMAGE_MIMES)"

datatype reason = Unsupported_type | Too_large | Read_failed

record attachment =
  att_name :: jsstring
  att_size :: jsnum
  att_text :: jsstring

type_synonym reader = "file_obj \<Rightarrow> jsstring option"

text \<open>A missing file is refused by the check of its type.\<close>

definition parseTextAttachment ::
  "(jsstring \<Rightarrow> jsstring) \<Rightarrow> reader \<Rightarrow> file_obj option \<Rightarrow> reason + attachment" where
  "parseTextAttachment lower read fl =
     (case fl of
        None \<Rightarrow> Inl Unsupported_type
      | Some f \<Rightarrow>
          if \<not> isAllowedTextFile lower fl then Inl Unsupported_type
          else if num_lt MAX_TEXT_FILE_BYTES (file_size f) then Inl Too_large
          else (case read f of
                  Some t \<Rightarrow> Inr \<lparr>att_name = file_name f, att_size = file_size f, att_text = t\<rparr>
                | None \<Rightarrow> Inl Read_failed))"

definition parseImageAttachment ::
  "(jsstring \<Rightarrow> jsstring) \<Rightarrow> reader \<Rightarrow> file_obj option \<Rightarrow> reason + jsstring" where
  "parseImageAttachment lower read fl =
     (case fl of
        None \<Rightarrow> Inl Unsupported_type
      | Some f \<Rightarrow>
          if \<not> isAllowedImageFile lower fl then Inl Unsupported_type
          else if num_lt MAX_IMAGE_FILE_BYTES (file_size f) then Inl Too_large
          else (case read f of
                  Some dataUrl \<Rightarrow> if prefix (js ''data:image/'') dataUrl then Inr dataUrl else Inl Unsupported_type
                | None \<Rightarrow> Inl Read_failed))"

text \<open>The words that mark the start and the end of an attachment.\<close>

definition ATTACHMENT_WORD :: jsstring where
  "ATTACHMENT_WORD = [38468, 20214]"

definition ATTACHMENT_END_WORD :: jsstring where
  "ATTACHMENT_END_WORD = [38468, 20214, 32467, 26463]"

definition attachment_header :: "attachment \<Rightarrow> jsstring" where
  "attachment_header a =
     js ''--- '' @ ATTACHMENT_WORD @ js '': '' @ att_name a @ js '' ('' @ formatFileSize (att_size a) @ js '') ---'' @ [10]"

definition attachment_footer :: "attachment \<Rightarrow> jsstring" where
  "attachment_footer a = 10 # js ''--- '' @ ATTACHMENT_END_WORD @ js '': '' @ att_name a @ js '' ---''"

definition attachment_block :: "attachment \<Rightarrow> jsstring" where
  "attachment_block a = attachment_header a @ att_text a @ attachment_footer a"

definition buildAttachmentTextBlock :: "attachment list \<Rightarrow> jsstring" where
  "buildAttachmentTextBlock attachments = join [10, 10] (map attachment_block attachments)"

subsection \<open>Stored messages\<close>

definition strip_part :: "jsval \<Rightarrow> jsval" where
  "strip_part part =
     (let url = prop_of (prop_of part (js ''image_url'')) (js ''url'')
      in case (part, url) of
           (JObj ps, JStr u) \<Rightarrow>
             if prop_of part (js ''type'') = JStr (js ''image_url'') \<and> prefix (js ''data:'') u
             then JObj (props_set ps (js ''image_url'') (JObj [(js ''url'', JStr (js ''[inline-image-omitted]''))]))
             else part
         | _ \<Rightarrow> part)"

definition strip_message :: "jsval \<Rightarrow> jsval" where
  "strip_message message =
     (case (message, prop_of message (js ''content'')) of
        (JObj ps, JArr parts) \<Rightarrow> JObj (props_set ps (js ''content'') (JArr (map strip_part parts)))
      | _ \<Rightarrow> message)"

definition stripInlineImageDataForStorage :: "jsval \<Rightarrow> jsval" where
  "stripInlineImageDataForStorage messages =
     (case messages of JArr ms \<Rightarrow> JArr (map strip_message ms) | _ \<Rightarrow> messages)"


subsection \<open>The prompt\<close>

text \<open>A handler that reads files has those still to be read; the image handler also has the list it
  has captured and the list it is building.\<close>

record image_job =
  captured :: "jsstring list"
  nextUrls :: "jsstring list"
  images_left :: "file_obj list"

record prompt_state =
  attachments :: "(jsstring \<times> attachment) list"
  pendingImages :: "jsstring list"
  parsingAttachment :: bool
  text_jobs :: "file_obj list list"
  image_jobs :: "image_job list"
  submitted :: "(jsstring \<times> jsstring list option) list"

definition initial_prompt :: "jsstring list \<Rightarrow> prompt_state" where
  "initial_prompt imageUrls =
     \<lparr>attachments = [], pendingImages = filter (\<lambda>u. u \<noteq> [] \<and> trim u \<noteq> []) imageUrls, parsingAttachment = False,
      text_jobs = [], image_jobs = [], submitted = []\<rparr>"

definition prompt_text :: "attachment list \<Rightarrow> jsstring \<Rightarrow> jsstring" where
  "prompt_text as message =
     join [10, 10] (filter (\<lambda>s. s \<noteq> []) [buildAttachmentTextBlock as, trim message])"

definition handleSubmit_prompt :: "bool \<Rightarrow> jsstring \<Rightarrow> prompt_state \<Rightarrow> prompt_state" where
  "handleSubmit_prompt disabled message s =
     (let combined = prompt_text (map snd (attachments s)) message
      in if combined = [] \<or> disabled then s
         else s\<lparr>submitted := submitted s @ [(combined, if length (pendingImages s) > 0 then Some (pendingImages s) else None)],
                attachments := [], pendingImages := []\<rparr>)"

definition removeAttachment :: "jsstring \<Rightarrow> prompt_state \<Rightarrow> prompt_state" where
  "removeAttachment i s = s\<lparr>attachments := filter (\<lambda>entry. fst entry \<noteq> i) (attachments s)\<rparr>"

definition handleTextFilesSelected :: "file_obj list \<Rightarrow> prompt_state \<Rightarrow> prompt_state" where
  "handleTextFilesSelected files s =
     (if files = [] then s else s\<lparr>parsingAttachment := True, text_jobs := text_jobs s @ [files]\<rparr>)"

text \<open>One round of the loop over text files, at the time \<open>now\<close>, and its end.\<close>

definition read_text_file ::
  "(jsstring \<Rightarrow> jsstring) \<Rightarrow> reader \<Rightarrow> jsstring \<Rightarrow> file_obj \<Rightarrow> prompt_state \<Rightarrow> prompt_state" where
  "read_text_file lower read now f s =
     (if num_lt MAX_TEXT_FILE_BYTES (file_size f) then s
      else (case parseTextAttachment lower read (Some f) of
              Inl _ \<Rightarrow> s
            | Inr a \<Rightarrow> s\<lparr>attachments := attachments s @ [(now @ js ''-'' @ att_name a, a)]\<rparr>))"

definition text_job_step ::
  "(jsstring \<Rightarrow> jsstring) \<Rightarrow> reader \<Rightarrow> jsstring \<Rightarrow> nat \<Rightarrow> prompt_state \<Rightarrow> prompt_state" where
  "text_job_step lower read now n s =
     (case text_jobs s ! n of
        f # rest \<Rightarrow> (read_text_file lower read now f s)\<lparr>text_jobs := (text_jobs s)[n := rest]\<rparr>
      | [] \<Rightarrow> s\<lparr>parsingAttachment := False, text_jobs := take n (text_jobs s) @ drop (Suc n) (text_jobs s)\<rparr>)"

definition handleImageFilesSelected :: "bool \<Rightarrow> file_obj list \<Rightarrow> prompt_state \<Rightarrow> prompt_state" where
  "handleImageFilesSelected imageEnabled files s =
     (if files = [] \<or> \<not> imageEnabled then s
      else s\<lparr>parsingAttachment := True,
             image_jobs := image_jobs s @
               [\<lparr>captured = pendingImages s, nextUrls = pendingImages s, images_left = files\<rparr>]\<rparr>)"

definition read_image_file :: "(jsstring \<Rightarrow> jsstring) \<Rightarrow> reader \<Rightarrow> file_obj \<Rightarrow> jsstring list \<Rightarrow> jsstring list" where
  "read_image_file lower read f urls =
     (if num_lt MAX_IMAGE_FILE_BYTES (file_size f) then urls
      else (case parseImageAttachment lower read (Some f) of Inl _ \<Rightarrow> urls | Inr dataUrl \<Rightarrow> urls @ [dataUrl]))"

definition image_job_step :: "(jsstring \<Rightarrow> jsstring) \<Rightarrow> reader \<Rightarrow> nat \<Rightarrow> prompt_state \<Rightarrow> prompt_state" where
  "image_job_step lower read n s =
     (let job = image_jobs s ! n
      in case images_left job of
           f # rest \<Rightarrow>
             s\<lparr>image_jobs := (image_jobs s)[n := job\<lparr>nextUrls := read_image_file lower read f (nextUrls job), images_left := rest\<rparr>]\<rparr>
         | [] \<Rightarrow>
             s\<lparr>pendingImages := (if length (nextUrls job) > length (captured job) then nextUrls job else pendingImages s),
               parsingAttachment := False,
               image_jobs := take n (image_jobs s) @ drop (Suc n) (image_jobs s)\<rparr>)"

inductive prompt_step :: "(jsstring \<Rightarrow> jsstring) \<Rightarrow> reader \<Rightarrow> prompt_state \<Rightarrow> prompt_state \<Rightarrow> bool"
  for lower read where
  submit: "prompt_step lower read s (handleSubmit_prompt disabled message s)"
| remove: "prompt_step lower read s (removeAttachment i s)"
| select_text: "prompt_step lower read s (handleTextFilesSelected files s)"
| select_images: "prompt_step lower read s (handleImageFilesSelected imageEnabled files s)"
| text_round: "n < length (text_jobs s) \<Longrightarrow> prompt_step lower read s (text_job_step lower read now n s)"
| image_round: "n < length (image_jobs s) \<Longrightarrow> prompt_step lower read s (image_job_step lower read n s)"

inductive prompt_reach :: "(jsstring \<Rightarrow> jsstring) \<Rightarrow> reader \<Rightarrow> prompt_state \<Rightarrow> prompt_state \<Rightarrow> bool"
  for lower read s0 where
  prompt_start: "prompt_reach lower read s0 s0"
| prompt_more: "prompt_reach lower read s0 s \<Longrightarrow> prompt_step lower read s s' \<Longrightarrow> prompt_reach lower read s0 s'"

subsection \<open>Only checked files are attached\<close>

definition text_attachment_ok :: "(jsstring \<Rightarrow> jsstring) \<Rightarrow> attachment \<Rightarrow> bool" where
  "text_attachment_ok lower a \<longleftrightarrow>
     getExtension lower (att_name a) \<in> set TEXT_FILE_EXTENSIONS \<and> \<not> num_lt MAX_TEXT_FILE_BYTES (att_size a)"

definition images_ok :: "jsstring list \<Rightarrow> bool" where
  "images_ok urls \<longleftrightarrow> list_all (prefix (js ''data:image/'')) urls"

definition prompt_ok :: "(jsstring \<Rightarrow> jsstring) \<Rightarrow> prompt_state \<Rightarrow> bool" where
  "prompt_ok lower s \<longleftrightarrow>
     list_all (\<lambda>ia. text_attachment_ok lower (snd ia)) (attachments s) \<and> images_ok (pendingImages s) \<and>
     list_all (\<lambda>job. images_ok (nextUrls job)) (image_jobs s) \<and>
     list_all (\<lambda>(t, urls). case urls of Some us \<Rightarrow> us \<noteq> [] \<and> images_ok us | None \<Rightarrow> True) (submitted s)"

lemma parse_text_ok: "parseTextAttachment lower read (Some f) = Inr a \<Longrightarrow> text_attachment_ok lower a"
  by (auto simp: parseTextAttachment_def isAllowedTextFile_def text_attachment_ok_def split: option.splits if_splits)

lemma parse_image_ok: "parseImageAttachment lower read (Some f) = Inr u \<Longrightarrow> prefix (js ''data:image/'') u"
  by (auto simp: parseImageAttachment_def split: option.splits if_splits)

lemma read_image_ok: "images_ok urls \<Longrightarrow> images_ok (read_image_file lower read f urls)"
  using parse_image_ok [of lower read f] by (auto simp: read_image_file_def images_ok_def split: sum.split)

lemma prompt_step_ok: "prompt_step lower read s s' \<Longrightarrow> prompt_ok lower s \<Longrightarrow> prompt_ok lower s'"
proof (induction rule: prompt_step.induct)
  case (text_round n s now)
  have "list_all (\<lambda>ia. text_attachment_ok lower (snd ia)) (attachments (read_text_file lower read now f s))"
    if "prompt_ok lower s" for f
    using that parse_text_ok [of lower read f] by (auto simp: read_text_file_def prompt_ok_def split: sum.split)
  moreover have "pendingImages (read_text_file lower read now f s) = pendingImages s"
    "image_jobs (read_text_file lower read now f s) = image_jobs s" "submitted (read_text_file lower read now f s) = submitted s" for f
    by (simp_all add: read_text_file_def split: sum.split)
  ultimately show ?case using text_round
    by (cases "text_jobs s ! n") (simp_all add: text_job_step_def prompt_ok_def)
next
  case (image_round n s)
  let ?job = "image_jobs s ! n"
  have job: "images_ok (nextUrls ?job)" using image_round by (auto simp: prompt_ok_def list_all_length)
  show ?case
  proof (cases "images_left ?job")
    case Nil
    then show ?thesis using image_round job
      by (auto simp: image_job_step_def prompt_ok_def Let_def list_all_iff dest: in_set_takeD in_set_dropD)
  next
    case (Cons f rest)
    then show ?thesis using image_round read_image_ok [OF job]
      by (auto simp: image_job_step_def prompt_ok_def Let_def list_all_iff dest: set_update_subset_insert [THEN subsetD])
  qed
qed (auto simp: handleSubmit_prompt_def removeAttachment_def handleTextFilesSelected_def handleImageFilesSelected_def
    prompt_ok_def images_ok_def Let_def list_all_iff)

text \<open>C29: whatever the user does and however the readings interleave, every attached file has an
  accepted extension and is within the limit, and every image that is attached or was sent is an
  image data URL.\<close>

theorem attachments_checked:
  assumes "prompt_reach lower read (initial_prompt []) s"
  shows "prompt_ok lower s"
  using assms
proof induction
  case prompt_start
  show ?case by (simp add: prompt_ok_def initial_prompt_def images_ok_def)
qed (rule prompt_step_ok)

lemma join_closed: "bs \<noteq> [] \<Longrightarrow> join sep bs @ sep = concat (map (\<lambda>x. x @ sep) bs)"
  by (induction sep bs rule: join.induct) auto

text \<open>the submitted prompt starts with the text of every attachment, each between its header and
  its footer and in the order in which they were attached, and ends with the trimmed message; the
  attachments and images are then cleared.\<close>

theorem prompt_holds_attachments:
  assumes "attachments s \<noteq> []" "trim message \<noteq> []"
  shows "submitted (handleSubmit_prompt False message s) =
      submitted s @ [(concat (map (\<lambda>ia. attachment_header (snd ia) @ att_text (snd ia) @ attachment_footer (snd ia) @ [10, 10])
          (attachments s)) @ trim message, if pendingImages s = [] then None else Some (pendingImages s))] \<and>
    attachments (handleSubmit_prompt False message s) = [] \<and> pendingImages (handleSubmit_prompt False message s) = []"
proof -
  let ?bs = "map (\<lambda>ia. attachment_block (snd ia)) (attachments s)"
  have "join [10, 10] ?bs @ [10, 10] = concat (map (\<lambda>x. x @ [10, 10]) ?bs)"
    using assms(1) by (intro join_closed) simp
  moreover have "join [10, 10] ?bs \<noteq> []"
    using assms(1) by (cases "attachments s"; cases "tl (attachments s)") (simp_all add: attachment_block_def attachment_footer_def)
  ultimately have "prompt_text (map snd (attachments s)) message = concat (map (\<lambda>x. x @ [10, 10]) ?bs) @ trim message"
    using assms(2) by (simp add: prompt_text_def buildAttachmentTextBlock_def o_def flip: append.assoc)
  then show ?thesis using assms by (simp add: handleSubmit_prompt_def attachment_block_def o_def)
qed

subsection \<open>A prompt\<close>

definition note_file :: file_obj where
  "note_file = \<lparr>file_name = js ''a.b.md'', mime = js ''text/markdown'', file_size = Fin 1536\<rparr>"

definition sample_attachment :: attachment where
  "sample_attachment = \<lparr>att_name = js ''a.b.md'', att_size = Fin 1536, att_text = js ''hello''\<rparr>"

lemma sample_size: "formatFileSize (Fin 1536) = js ''1.5 KB''"
  by code_simp

lemma sample_parsed:
  "parseTextAttachment ascii_lower (\<lambda>_. Some (js ''hello'')) (Some note_file) = Inr sample_attachment"
  by code_simp

theorem attachments_checked_witness:
  "\<exists>s. prompt_reach ascii_lower (\<lambda>_. Some (js ''hello'')) (initial_prompt []) s \<and>
     attachments s = [(js ''7-a.b.md'', sample_attachment)] \<and> prompt_ok ascii_lower s"
proof -
  let ?r = "\<lambda>_ :: file_obj. Some (js ''hello'')"
  let ?s1 = "handleTextFilesSelected [note_file] (initial_prompt [])"
  let ?s2 = "text_job_step ascii_lower ?r (js ''7'') 0 ?s1"
  have "prompt_reach ascii_lower ?r (initial_prompt []) ?s1" by (rule prompt_more [OF prompt_start select_text])
  moreover have "0 < length (text_jobs ?s1)" by code_simp
  ultimately have reach: "prompt_reach ascii_lower ?r (initial_prompt []) ?s2" using prompt_more text_round by blast
  have "attachments ?s2 = [(js ''7-a.b.md'', sample_attachment)]" by code_simp
  then show ?thesis using reach attachments_checked [OF reach] by blast
qed

theorem prompt_holds_attachments_witness:
  "submitted (handleSubmit_prompt False (js '' ok '') ((initial_prompt [])\<lparr>attachments := [(js ''7-a.b.md'', sample_attachment)]\<rparr>)) =
     [(attachment_header sample_attachment @ js ''hello'' @ attachment_footer sample_attachment @ [10, 10] @ js ''ok'', None)]"
proof -
  have "trim (js '' ok '') = js ''ok''" by code_simp
  then show ?thesis
    using prompt_holds_attachments [of "(initial_prompt [])\<lparr>attachments := [(js ''7-a.b.md'', sample_attachment)]\<rparr>" "js '' ok ''"]
    by (simp add: initial_prompt_def sample_attachment_def)
qed

subsection \<open>Stripping stored messages\<close>

definition inline_image :: "jsval \<Rightarrow> bool" where
  "inline_image part \<longleftrightarrow>
     prop_of part (js ''type'') = JStr (js ''image_url'') \<and>
     (case prop_of (prop_of part (js ''image_url'')) (js ''url'') of JStr u \<Rightarrow> prefix (js ''data:'') u | _ \<Rightarrow> False)"

lemma strip_part_inline: "\<not> inline_image (strip_part v)" "\<not> inline_image v \<Longrightarrow> strip_part v = v"
proof -
  have omitted: "props_get [(js ''url'', JStr (js ''[inline-image-omitted]''))] (js ''url'') = Some (JStr (js ''[inline-image-omitted]''))"
    "\<not> prefix (js ''data:'') (js ''[inline-image-omitted]'')" by (simp_all add: props_get_def js_def)
  show "\<not> inline_image (strip_part v)"
    by (cases v) (auto simp: strip_part_def inline_image_def Let_def prop_of_def omitted split: jsval.splits option.splits)
  show "strip_part v = v" if "\<not> inline_image v"
    using that by (cases v) (auto simp: strip_part_def inline_image_def Let_def split: jsval.splits)
qed

lemma stripped_messages:
  assumes "prop_of (strip_message m) (js ''content'') = JArr parts"
  shows "\<not> (\<exists>part\<in>set parts. inline_image part)"
  using assms strip_part_inline(1)
  by (cases m) (auto simp: strip_message_def prop_of_def val_at_def split: jsval.splits option.splits)

subsection \<open>Late readings\<close>

text \<open>The identifier of an attachment is the time and the name: two files of one name that are read in
  the same millisecond share it, and removing one removes both.\<close>

lemma same_name_removed_together:
  "attachments s = [(i, a), (i, b)] \<Longrightarrow> attachments (removeAttachment i s) = []"
  by (simp add: removeAttachment_def)

text \<open>The image handler ends with the list that it captured at its start: when the prompt is submitted
  while an image is being read, the images that were already sent are attached again.\<close>

lemma sent_images_return:
  assumes "image_jobs s = []" "pendingImages s = [a]" "trim message \<noteq> []" "attachments s = []"
    and "parseImageAttachment lower read (Some f) = Inr b" "\<not> num_lt MAX_IMAGE_FILE_BYTES (file_size f)"
  shows "pendingImages (image_job_step lower read 0 (image_job_step lower read 0
    (handleSubmit_prompt False message (handleImageFilesSelected True [f] s)))) = [a, b]"
  using assms
  by (simp add: handleImageFilesSelected_def handleSubmit_prompt_def prompt_text_def buildAttachmentTextBlock_def
      image_job_step_def read_image_file_def Let_def)

end
