(* ===== verification/ChannelMisc.thy ===== *)
theory ChannelMisc
  imports ChannelForm
begin

text \<open>
  The smaller libraries of the channel pages: \<^verbatim>\<open>channel-type-config.ts\<close> (hints and key formats per
  channel type), \<^verbatim>\<open>channel-form-errors.ts\<close> (which fields stand in the collapsed section),
  \<^verbatim>\<open>multi-key-utils.ts\<close> (confirmation of actions on several keys) and \<^verbatim>\<open>ollama-utils.ts\<close> (base URL and
  model list of a local server), all under \<^verbatim>\<open>features/channels/lib\<close>.
\<close>

subsection \<open>Channel type configuration\<close>

record type_hints =
  hint_baseUrl :: "string option"
  hint_key :: "string option"
  hint_models :: "string option"
  hint_other :: "string option"

record key_validation =
  keyPrefix :: "string option"
  keyMinLength :: "nat option"

record ChannelTypeConfig =
  cfg_id :: int
  cfg_name :: jsstring
  cfg_icon :: string
  cfg_defaultBaseUrl :: "string option"
  cfg_requiresOrganization :: "bool option"
  cfg_requiresRegion :: "bool option"
  cfg_hints :: "type_hints option"
  cfg_validation :: "key_validation option"

definition channel_type_name :: "int \<Rightarrow> jsstring" where
  "channel_type_name t = (case map_of CHANNEL_TYPES t of Some n \<Rightarrow> n | None \<Rightarrow> [])"

definition hints :: "string option \<Rightarrow> string option \<Rightarrow> string option \<Rightarrow> string option \<Rightarrow> type_hints" where
  "hints b k m oth = \<lparr>hint_baseUrl = b, hint_key = k, hint_models = m, hint_other = oth\<rparr>"

definition type_config :: "int \<Rightarrow> string \<Rightarrow> string option \<Rightarrow> type_hints \<Rightarrow> ChannelTypeConfig" where
  "type_config t icon url h =
     \<lparr>cfg_id = t, cfg_name = channel_type_name t, cfg_icon = icon, cfg_defaultBaseUrl = url,
      cfg_requiresOrganization = None, cfg_requiresRegion = None, cfg_hints = Some h, cfg_validation = None\<rparr>"

text \<open>The expression \<^verbatim>\<open>/^sk-/\<close> tests for a prefix.\<close>

definition CHANNEL_TYPE_CONFIGS :: "(int \<times> ChannelTypeConfig) list" where
  "CHANNEL_TYPE_CONFIGS =
     [(1, (type_config 1 ''openai'' (Some ''https://api.openai.com'')
        (hints (Some ''Default: https://api.openai.com'') (Some ''Format: sk-...'') (Some ''gpt-4,gpt-4-turbo,gpt-3.5-turbo'') None))
        \<lparr>cfg_requiresOrganization := Some True, cfg_validation := Some \<lparr>keyPrefix = Some ''sk-'', keyMinLength = Some 20\<rparr>\<rparr>),
      (3, (type_config 3 ''azure'' None
        (hints (Some ''Azure OpenAI Endpoint'') (Some ''Azure API Key'') (Some ''Deployment names'') None))
        \<lparr>cfg_requiresRegion := Some True\<rparr>),
      (14, type_config 14 ''anthropic'' (Some ''https://api.anthropic.com'')
        (hints None (Some ''Format: sk-ant-...'') (Some ''claude-3-opus,claude-3-sonnet,claude-3-haiku'') None)),
      (24, type_config 24 ''google'' None (hints None (Some ''Google API Key'') (Some ''gemini-pro,gemini-pro-vision'') None)),
      (41, (type_config 41 ''google'' None
        (hints None (Some ''Service account JSON or API key'') (Some ''gemini-pro,gemini-1.5-pro'')
          (Some ''Region config: {\"default\": \"us-central1\"}'')))\<lparr>cfg_requiresRegion := Some True\<rparr>),
      (43, type_config 43 ''deepseek'' (Some ''https://api.deepseek.com'')
        (hints None (Some ''DeepSeek API Key'') (Some ''deepseek-chat,deepseek-coder'') None)),
      (20, type_config 20 ''openrouter'' (Some ''https://openrouter.ai/api'')
        (hints None (Some ''OpenRouter API Key'') (Some ''Use model IDs from OpenRouter'') None)),
      (56, type_config 56 ''replicate'' (Some ''https://api.replicate.com'')
        (hints (Some ''Default: https://api.replicate.com'') (Some ''Replicate API Token'') (Some ''Replicate model IDs'') None)),
      (58, type_config 58 ''openai'' None
        (hints (Some ''Fallback base URL'') (Some ''Used by route auth templates'') (Some ''Models exposed by this channel'') None))]"

definition getChannelTypeConfig :: "int \<Rightarrow> ChannelTypeConfig" where
  "getChannelTypeConfig t =
     (case map_of CHANNEL_TYPE_CONFIGS t of
        Some c \<Rightarrow> c
      | None \<Rightarrow> \<lparr>cfg_id = t,
                 cfg_name = (let n = channel_type_name t in if n = [] then js ''Unknown'' else n), cfg_icon = ''openai'',
                 cfg_defaultBaseUrl = None, cfg_requiresOrganization = None, cfg_requiresRegion = None,
                 cfg_hints = None, cfg_validation = None\<rparr>)"

definition requiresOrganization :: "int \<Rightarrow> bool" where
  "requiresOrganization t =
     (case map_of CHANNEL_TYPE_CONFIGS t of Some c \<Rightarrow> cfg_requiresOrganization c = Some True | None \<Rightarrow> False)"

definition requiresRegion :: "int \<Rightarrow> bool" where
  "requiresRegion t =
     (case map_of CHANNEL_TYPE_CONFIGS t of Some c \<Rightarrow> cfg_requiresRegion c = Some True | None \<Rightarrow> False)"

definition getDefaultBaseUrl :: "int \<Rightarrow> string" where
  "getDefaultBaseUrl t =
     (case map_of CHANNEL_TYPE_CONFIGS t of
        Some c \<Rightarrow> (case cfg_defaultBaseUrl c of Some u \<Rightarrow> u | None \<Rightarrow> '''') | None \<Rightarrow> '''')"

definition getChannelTypeHints :: "int \<Rightarrow> type_hints" where
  "getChannelTypeHints t =
     (case map_of CHANNEL_TYPE_CONFIGS t of
        Some c \<Rightarrow> (case cfg_hints c of Some h \<Rightarrow> h | None \<Rightarrow> hints None None None None)
      | None \<Rightarrow> hints None None None None)"

definition validateKeyFormat :: "int \<Rightarrow> jsstring \<Rightarrow> bool" where
  "validateKeyFormat t key =
     (case Option.bind (map_of CHANNEL_TYPE_CONFIGS t) cfg_validation of
        None \<Rightarrow> True
      | Some v \<Rightarrow>
          if (case keyMinLength v of Some n \<Rightarrow> n \<noteq> 0 \<and> length key < n | None \<Rightarrow> False) then False
          else if (case keyPrefix v of Some p \<Rightarrow> \<not> prefix (js p) key | None \<Rightarrow> False) then False
          else True)"

subsection \<open>Fields of the advanced section\<close>

definition ADVANCED_SETTINGS_FIELDS :: "string list" where
  "ADVANCED_SETTINGS_FIELDS =
     [''priority'', ''weight'', ''test_model'', ''auto_ban'', ''tag'', ''remark'', ''param_override'', ''header_override'',
      ''status_code_mapping'', ''advanced_custom'', ''force_format'', ''thinking_to_content'', ''pass_through_body_enabled'',
      ''proxy'', ''system_prompt'', ''system_prompt_override'', ''allow_service_tier'', ''disable_store'',
      ''allow_safety_identifier'', ''allow_include_obfuscation'', ''allow_inference_geo'', ''allow_speed'',
      ''claude_beta_query'', ''upstream_model_update_check_enabled'', ''upstream_model_update_auto_sync_enabled'',
      ''upstream_model_update_ignored_models'']"

definition isAdvancedSettingsField :: "string \<Rightarrow> bool" where
  "isAdvancedSettingsField fieldName \<longleftrightarrow> fieldName \<in> set ADVANCED_SETTINGS_FIELDS"

definition hasAdvancedSettingsErrors :: "string list \<Rightarrow> bool" where
  "hasAdvancedSettingsErrors error_keys = list_ex isAdvancedSettingsField error_keys"

text \<open>Of the extra settings that the form saves one is missing from the list: an error there does not
  open the section.\<close>

lemma missing_advanced_field:
  "filter (\<lambda>kv. fst kv \<notin> js ` set ADVANCED_SETTINGS_FIELDS) (setting_entries fd) =
    [(js ''thinking_process_strip'', val_or (f_thinking_process_strip fd) (JBool False))]"
proof -
  have "js ` set ADVANCED_SETTINGS_FIELDS = set (map js ADVANCED_SETTINGS_FIELDS)" by simp
  then show ?thesis by (simp add: setting_entries_def ADVANCED_SETTINGS_FIELDS_def)
qed

subsection \<open>Actions on several keys\<close>

datatype MultiKeyAction = EnableKey | DisableKey | DeleteKey | EnableAll | DisableAll | DeleteDisabled

definition getMultiKeyStatusConfig :: "int \<Rightarrow> badge_config" where
  "getMultiKeyStatusConfig st =
     (case map_of MULTI_KEY_STATUS_CONFIG st of
        Some b \<Rightarrow> b
      | None \<Rightarrow> \<lparr>variant = js ''neutral'', badge_label = js ''Unknown''\<rparr>)"

fun getMultiKeyConfirmMessage :: "MultiKeyAction option \<Rightarrow> string" where
  "getMultiKeyConfirmMessage None = ''''"
| "getMultiKeyConfirmMessage (Some DeleteKey) = ''Are you sure you want to delete this key? This action cannot be undone.''"
| "getMultiKeyConfirmMessage (Some EnableKey) = ''Enable this key?''"
| "getMultiKeyConfirmMessage (Some DisableKey) = ''Disable this key?''"
| "getMultiKeyConfirmMessage (Some EnableAll) = ''Are you sure you want to enable all keys?''"
| "getMultiKeyConfirmMessage (Some DisableAll) = ''Are you sure you want to disable all enabled keys?''"
| "getMultiKeyConfirmMessage (Some DeleteDisabled) =
     ''Are you sure you want to delete all auto-disabled keys? This action cannot be undone.''"

fun isDestructiveAction :: "MultiKeyAction option \<Rightarrow> bool" where
  "isDestructiveAction None = False"
| "isDestructiveAction (Some a) \<longleftrightarrow> a = DeleteKey \<or> a = DeleteDisabled \<or> a = DisableAll"

text \<open>The two badges of a key status disagree on a status that the table does not have.\<close>

lemma unknown_status_badges:
  "badge_label (getMultiKeyStatusConfig 7) = js ''Unknown'' \<and> badge_label (getMultiKeyStatusBadge 7) = js ''Enabled''"
  by (simp add: getMultiKeyStatusConfig_def getMultiKeyStatusBadge_def MULTI_KEY_STATUS_CONFIG_def)

text \<open>Only what can be undone is not marked as destructive.\<close>

lemma destructive_actions:
  "getMultiKeyConfirmMessage (Some a) \<noteq> [] \<and> (\<not> isDestructiveAction (Some a) \<longleftrightarrow> a \<in> {EnableKey, DisableKey, EnableAll})"
  by (cases a) simp_all

subsection \<open>Ollama\<close>

definition getString :: "jsval \<Rightarrow> jsval" where
  "getString v = (case v of JStr s \<Rightarrow> v | _ \<Rightarrow> JUndef)"

definition getNumber :: "jsval \<Rightarrow> jsval" where
  "getNumber v = (case v of JNum n \<Rightarrow> v | _ \<Rightarrow> JUndef)"

definition parseMaybeJSON :: "jsval \<Rightarrow> jsval" where
  "parseMaybeJSON v =
     (if \<not> truthy v then JNull
      else (case v of
              JObj _ \<Rightarrow> v | JArr _ \<Rightarrow> v
            | JStr s \<Rightarrow> (case json_parse s of Some w \<Rightarrow> w | None \<Rightarrow> JNull)
            | _ \<Rightarrow> JNull))"

text \<open>An array counts as a record; it has none of the named properties.\<close>

definition isRecord :: "jsval \<Rightarrow> bool" where
  "isRecord v = (case v of JObj _ \<Rightarrow> True | JArr _ \<Rightarrow> True | _ \<Rightarrow> False)"

definition trimmed_text :: "jsval \<Rightarrow> jsstring" where
  "trimmed_text v = (case v of JStr s \<Rightarrow> trim s | _ \<Rightarrow> [])"

fun first_text :: "jsstring list \<Rightarrow> jsstring" where
  "first_text [] = []"
| "first_text (t # ts) = (if t \<noteq> [] then t else first_text ts)"

text \<open>The channel is the object that the server sent, with whatever properties it has.\<close>

definition resolveOllamaBaseUrl :: "jsval option \<Rightarrow> jsstring" where
  "resolveOllamaBaseUrl channel =
     (case channel of
        None \<Rightarrow> []
      | Some ch \<Rightarrow>
          let parsed = parseMaybeJSON (prop_of ch (js ''other_info''))
          in first_text
               ([trimmed_text (prop_of ch (js ''base_url'')), trimmed_text (prop_of ch (js ''ollama_base_url''))] @
                (if isRecord parsed
                 then [trimmed_text (prop_of parsed (js ''base_url'')), trimmed_text (prop_of parsed (js ''public_url'')),
                       trimmed_text (prop_of parsed (js ''api_url''))]
                 else [])))"

fun or_chain :: "jsval list \<Rightarrow> jsval" where
  "or_chain [] = JUndef"
| "or_chain [v] = v"
| "or_chain (v # vs) = (if truthy v then v else or_chain vs)"

text \<open>\<^verbatim>\<open>if (c && !o[k]) o[k] = v\<close>\<close>

definition fill_missing :: "bool \<Rightarrow> string \<Rightarrow> jsval \<Rightarrow> jsval props \<Rightarrow> jsval props" where
  "fill_missing c k v p = (if c \<and> \<not> truthy (val_at p (js k)) then props_set p (js k) v else p)"

definition fill_metadata :: "jsval \<Rightarrow> jsval props \<Rightarrow> jsval props" where
  "fill_metadata metadata p =
     (let metaSize = getNumber (prop_of metadata (js ''size''));
          metaDigest = getString (prop_of metadata (js ''digest''));
          metaModifiedAt = getString (prop_of metadata (js ''modified_at''));
          details = prop_of metadata (js ''details'')
      in fill_missing (truthy details) ''details'' details
          (fill_missing (truthy metaModifiedAt) ''modified_at'' metaModifiedAt
            (fill_missing (truthy metaDigest) ''digest'' metaDigest
              (fill_missing (metaSize \<noteq> JUndef) ''size'' metaSize p))))"

definition candidate_id :: "jsval \<Rightarrow> jsval" where
  "candidate_id item = or_chain (map (\<lambda>k. getString (prop_of item (js k))) [''id'', ''ID'', ''name'', ''model'', ''Model''])"

definition owner_of :: "jsval \<Rightarrow> jsval" where
  "owner_of item =
     or_chain [getString (prop_of item (js ''owned_by'')), getString (prop_of item (js ''ownedBy'')), JStr (js ''ollama'')]"

definition metadata_of :: "jsval \<Rightarrow> jsval" where
  "metadata_of item =
     (let meta = prop_of item (js ''metadata'')
      in if meta = JUndef \<or> meta = JNull then prop_of item (js ''Metadata'') else meta)"

definition normalize_ollama_record :: "jsval \<Rightarrow> jsval props option" where
  "normalize_ollama_record item =
     (if \<not> truthy (candidate_id item) then None
      else let normalized = props_assign (own_props item) [(js ''id'', candidate_id item), (js ''owned_by'', owner_of item)];
               itemSize = getNumber (prop_of item (js ''size''));
               sized = fill_missing (itemSize \<noteq> JUndef) ''size'' itemSize normalized
           in Some (if isRecord (metadata_of item) then fill_metadata (metadata_of item) sized else sized))"

definition normalize_ollama_item :: "jsval \<Rightarrow> jsval props option" where
  "normalize_ollama_item item =
     (if \<not> truthy item then None
      else (case item of
              JStr s \<Rightarrow> Some [(js ''id'', item), (js ''owned_by'', JStr (js ''ollama''))]
            | _ \<Rightarrow> if isRecord item then normalize_ollama_record item else None))"

definition normalizeOllamaModels :: "jsval \<Rightarrow> jsval props list" where
  "normalizeOllamaModels items =
     (case items of JArr xs \<Rightarrow> List.map_filter normalize_ollama_item xs | _ \<Rightarrow> [])"

definition formatBytes :: "jsval \<Rightarrow> jsstring" where
  "formatBytes bytes =
     (case bytes of
        JNum n \<Rightarrow>
          (case n of
             NaN \<Rightarrow> js ''-''
           | PosInf \<Rightarrow> js ''Infinity GB''
           | NegInf \<Rightarrow> js ''-Infinity B''
           | Fin q \<Rightarrow>
               if q < 1024 then num_to_str (Fin q) @ js '' B''
               else if q / 1024 < 1024 then num_to_fixed 1 (Fin (q / 1024)) @ js '' KB''
               else if q / 1024 / 1024 < 1024 then num_to_fixed 1 (Fin (q / 1024 / 1024)) @ js '' MB''
               else num_to_fixed 2 (Fin (q / 1024 / 1024 / 1024)) @ js '' GB'')
      | _ \<Rightarrow> js ''-'')"

subsection \<open>A normalised list stays as it is\<close>

lemma val_at_set_same: "val_at p k = v \<Longrightarrow> v \<noteq> JUndef \<Longrightarrow> props_set p k v = p"
  by (rule props_set_same) (auto simp: val_at_def split: option.splits)

lemma fill_missing_get: "val_at (fill_missing c k v p) k' =
    (if k' = js k \<and> c \<and> \<not> truthy (val_at p (js k)) then v else val_at p k')"
  by (simp add: fill_missing_def)

lemma fill_missing_done:
  assumes "c \<Longrightarrow> v \<noteq> JUndef" "c \<Longrightarrow> truthy (val_at q (js k)) \<or> val_at q (js k) = v"
  shows "fill_missing c k v q = q"
  using assms val_at_set_same [of q "js k" v] by (auto simp: fill_missing_def)

lemma fill_metadata_get:
  "val_at (fill_metadata m p) k =
     (if k = js ''details'' then val_at (fill_missing (truthy (prop_of m (js ''details''))) ''details'' (prop_of m (js ''details'')) p) k
      else if k = js ''modified_at'' then val_at (fill_missing (truthy (getString (prop_of m (js ''modified_at'')))) ''modified_at'' (getString (prop_of m (js ''modified_at''))) p) k
      else if k = js ''digest'' then val_at (fill_missing (truthy (getString (prop_of m (js ''digest'')))) ''digest'' (getString (prop_of m (js ''digest''))) p) k
      else if k = js ''size'' then val_at (fill_missing (getNumber (prop_of m (js ''size'')) \<noteq> JUndef) ''size'' (getNumber (prop_of m (js ''size''))) p) k
      else val_at p k)"
  by (simp add: fill_metadata_def Let_def fill_missing_get)

lemma fill_metadata_again:
  assumes "\<And>k. k \<in> {js ''details'', js ''modified_at'', js ''digest'', js ''size''} \<Longrightarrow> val_at q k = val_at (fill_metadata m p) k"
  shows "fill_metadata m q = q"
proof -
  have "fill_missing (getNumber (prop_of m (js ''size'')) \<noteq> JUndef) ''size'' (getNumber (prop_of m (js ''size''))) q = q"
    "fill_missing (truthy (getString (prop_of m (js ''digest'')))) ''digest'' (getString (prop_of m (js ''digest''))) q = q"
    "fill_missing (truthy (getString (prop_of m (js ''modified_at'')))) ''modified_at'' (getString (prop_of m (js ''modified_at''))) q = q"
    "fill_missing (truthy (prop_of m (js ''details''))) ''details'' (prop_of m (js ''details'')) q = q"
    by (rule fill_missing_done; force simp: assms fill_metadata_get fill_missing_get)+
  then show ?thesis by (simp add: fill_metadata_def Let_def)
qed

lemma or_chain_text: "\<forall>v\<in>set vs. getString v = v \<Longrightarrow> truthy (or_chain vs) \<Longrightarrow> \<exists>s. s \<noteq> [] \<and> or_chain vs = JStr s"
proof (induction vs rule: or_chain.induct)
  case (2 v)
  then show ?case by (cases v) (auto simp: getString_def)
next
  case (3 v w vs)
  then show ?case by (cases v) (auto simp: getString_def)
qed simp

lemma getString_idem [simp]: "getString (getString v) = getString v"
  by (cases v) (simp_all add: getString_def)

lemma candidate_text: "truthy (candidate_id item) \<Longrightarrow> \<exists>s. s \<noteq> [] \<and> candidate_id item = JStr s"
  unfolding candidate_id_def by (rule or_chain_text) simp_all

lemma owner_text: "\<exists>s. s \<noteq> [] \<and> owner_of item = JStr s"
  unfolding owner_of_def by (rule or_chain_text) (simp_all add: getString_def [of "JStr _"])

lemma normalized_record_stable:
  assumes id: "val_at r (js ''id'') = JStr s" "s \<noteq> []" and owner: "val_at r (js ''owned_by'') = JStr u" "u \<noteq> []"
    and meta: "isRecord (metadata_of (JObj r)) \<Longrightarrow> fill_metadata (metadata_of (JObj r)) r = r"
  shows "normalize_ollama_item (JObj r) = Some r"
proof -
  have "candidate_id (JObj r) = JStr s" "owner_of (JObj r) = JStr u"
    using id owner by (simp_all add: candidate_id_def owner_of_def prop_of_JObj getString_def)
  moreover have "props_assign r [(js ''id'', JStr s), (js ''owned_by'', JStr u)] = r"
    using id owner by (simp add: props_assign_def val_at_set_same)
  moreover have "fill_missing (getNumber (val_at r (js ''size'')) \<noteq> JUndef) ''size'' (getNumber (val_at r (js ''size''))) r = r"
    by (rule fill_missing_done) (auto simp: getNumber_def split: jsval.splits)
  ultimately show ?thesis
    using meta id(2) by (simp add: normalize_ollama_item_def normalize_ollama_record_def isRecord_def prop_of_JObj)
qed

text \<open>every model of a normalised list has a non-empty name and an owner, and normalising it again
  gives the same model.\<close>

theorem ollama_models_stable:
  assumes "r \<in> set (normalizeOllamaModels items)"
  shows "(\<exists>s. s \<noteq> [] \<and> val_at r (js ''id'') = JStr s) \<and> (\<exists>s. s \<noteq> [] \<and> val_at r (js ''owned_by'') = JStr s) \<and>
    normalizeOllamaModels (JArr [JObj r]) = [r]"
proof -
  obtain item where item: "normalize_ollama_item item = Some r"
    using assms by (auto simp: normalizeOllamaModels_def map_filter_def split: jsval.splits)
  have "\<exists>s u. s \<noteq> [] \<and> u \<noteq> [] \<and> val_at r (js ''id'') = JStr s \<and> val_at r (js ''owned_by'') = JStr u \<and>
      (isRecord (metadata_of (JObj r)) \<longrightarrow> fill_metadata (metadata_of (JObj r)) r = r)"
  proof (cases item)
    case (JStr s)
    then have "r = [(js ''id'', JStr s), (js ''owned_by'', JStr (js ''ollama''))]" "s \<noteq> []"
      using item by (auto simp: normalize_ollama_item_def split: if_splits)
    then show ?thesis
      by (simp add: val_at_def props_get_def metadata_of_def prop_of_JObj isRecord_def)
  next
    case (JObj ps)
    then have rec: "normalize_ollama_record item = Some r" using item by (simp add: normalize_ollama_item_def isRecord_def)
    then have "truthy (candidate_id item)" by (auto simp: normalize_ollama_record_def split: if_splits)
    then obtain s where s: "s \<noteq> []" "candidate_id item = JStr s" using candidate_text by blast
    obtain u where u: "u \<noteq> []" "owner_of item = JStr u" using owner_text by blast
    define n where "n = fill_missing (getNumber (val_at ps (js ''size'')) \<noteq> JUndef) ''size'' (getNumber (val_at ps (js ''size'')))
        (props_assign ps [(js ''id'', JStr s), (js ''owned_by'', JStr u)])"
    have r: "r = (if isRecord (metadata_of item) then fill_metadata (metadata_of item) n else n)"
      using rec s u JObj by (auto simp: normalize_ollama_record_def n_def prop_of_JObj Let_def split: if_splits)
    have n: "val_at n (js ''id'') = JStr s" "val_at n (js ''owned_by'') = JStr u"
      "val_at n (js ''metadata'') = val_at ps (js ''metadata'')" "val_at n (js ''Metadata'') = val_at ps (js ''Metadata'')"
      by (simp_all add: n_def fill_missing_get props_assign_def)
    have same: "val_at r (js k) = val_at n (js k)" if "k \<in> {''id'', ''owned_by'', ''metadata'', ''Metadata''}" for k
      using that unfolding r by (auto simp: fill_metadata_get)
    then have "metadata_of (JObj r) = metadata_of item"
      using n(3,4) JObj by (simp add: metadata_of_def prop_of_JObj Let_def)
    moreover have "fill_metadata (metadata_of item) r = r" if "isRecord (metadata_of item)"
      by (rule fill_metadata_again [where p = n]) (simp add: r that)
    ultimately show ?thesis using same n s u by auto
  next
    case (JArr xs)
    then have "\<not> truthy (candidate_id item)" by (simp add: candidate_id_def prop_of_def getString_def)
    then show ?thesis using item JArr by (simp add: normalize_ollama_item_def normalize_ollama_record_def isRecord_def)
  qed (use item in \<open>auto simp: normalize_ollama_item_def isRecord_def split: if_splits\<close>)
  then obtain s u where su: "s \<noteq> []" "u \<noteq> []" "val_at r (js ''id'') = JStr s" "val_at r (js ''owned_by'') = JStr u"
    and meta: "isRecord (metadata_of (JObj r)) \<longrightarrow> fill_metadata (metadata_of (JObj r)) r = r" by blast
  have "normalize_ollama_item (JObj r) = Some r"
    by (rule normalized_record_stable [OF su(3,1,4,2)]) (use meta in simp)
  then show ?thesis using su by (simp add: normalizeOllamaModels_def map_filter_def)
qed

definition sample_models :: jsval where
  "sample_models =
     JArr [JStr (js ''llama3''), JNull, JObj [(js ''name'', JStr (js ''qwen'')), (js ''metadata'', JObj [(js ''size'', JNum (Fin 7))])]]"

theorem ollama_models_stable_witness:
  "length (normalizeOllamaModels sample_models) = 2 \<and>
   normalizeOllamaModels (JArr [JObj (normalizeOllamaModels sample_models ! 1)]) = [normalizeOllamaModels sample_models ! 1]"
proof -
  have two: "length (normalizeOllamaModels sample_models) = 2" by code_simp
  then have "normalizeOllamaModels sample_models ! 1 \<in> set (normalizeOllamaModels sample_models)" by (intro nth_mem) simp
  then show ?thesis using two ollama_models_stable by blast
qed

end
