(* ===== verification/NavModules.thy ===== *)
theory NavModules
  imports Sidebar
begin

text \<open>
  The modules of the header and of the sidebar: how the administrator's settings page reads and
  writes them, \<^verbatim>\<open>features/system-settings/maintenance/config.ts\<close>, how the routes and the header
  enforce them, \<^verbatim>\<open>lib/nav-modules.ts\<close> and \<^verbatim>\<open>hooks/use-top-nav-links.ts\<close>, and the guards of the routes
  \<^verbatim>\<open>routes/pricing/index.tsx\<close> and \<^verbatim>\<open>routes/_authenticated/playground/index.tsx\<close>.

  Both sides parse the same text, with parsers of their own. The theorems show that what the
  settings page saves is what the header, the routes and the sidebar enforce, and that the link of a
  module and the guard of its route agree. \<^verbatim>\<open>toLowerCase\<close> is compared only with \<^verbatim>\<open>true\<close> and \<^verbatim>\<open>false\<close>,
  whose letters are the lower case of ASCII letters only, so the conversion of ASCII letters decides
  as the full one. Keys that every object inherits (\<^verbatim>\<open>constructor\<close>, \<^verbatim>\<open>__proto__\<close> and the like) are read
  as absent. The status object of the server is a JSON value; its cached copy in
  \<^verbatim>\<open>localStorage\<close> is part of the storage.
\<close>

record module_access =
  enabled :: bool
  requireAuth :: bool

datatype nav_value = Flag bool | Access module_access

definition default_access :: module_access where
  "default_access = \<lparr>enabled = True, requireAuth = False\<rparr>"

definition DEFAULT_HEADER_NAV_MODULES :: "nav_value props" where
  "DEFAULT_HEADER_NAV_MODULES =
     [(js ''home'', Flag True), (js ''console'', Flag True), (js ''pricing'', Access default_access),
      (js ''rankings'', Access default_access), (js ''docs'', Flag True), (js ''about'', Flag True)]"

subsection \<open>Enforcement: \<^verbatim>\<open>nav-modules.ts\<close>\<close>

definition bool_of_text :: "jsstring \<Rightarrow> bool \<Rightarrow> bool" where
  "bool_of_text s fallback =
     (let normalized = ascii_lower (trim s)
      in if normalized = js ''true'' \<or> normalized = js ''1'' then True
         else if normalized = js ''false'' \<or> normalized = js ''0'' then False else fallback)"

definition parseHeaderNavBoolean :: "jsval \<Rightarrow> bool \<Rightarrow> bool" where
  "parseHeaderNavBoolean raw fallback =
     (case raw of
        JBool b \<Rightarrow> b
      | JNum n \<Rightarrow> if num_eq n (Fin 1) then True else if num_eq n (Fin 0) then False else fallback
      | JStr s \<Rightarrow> bool_of_text s fallback
      | _ \<Rightarrow> fallback)"

definition parse_access_with :: "(jsval \<Rightarrow> bool \<Rightarrow> bool) \<Rightarrow> jsval \<Rightarrow> module_access \<Rightarrow> module_access" where
  "parse_access_with conv raw fallback =
     (case raw of
        JObj _ \<Rightarrow> \<lparr>enabled = conv (prop_of raw (js ''enabled'')) (enabled fallback),
                   requireAuth = conv (prop_of raw (js ''requireAuth'')) (requireAuth fallback)\<rparr>
      | JArr _ \<Rightarrow> \<lparr>enabled = conv JUndef (enabled fallback), requireAuth = conv JUndef (requireAuth fallback)\<rparr>
      | JUndef \<Rightarrow> fallback
      | JNull \<Rightarrow> fallback
      | _ \<Rightarrow> \<lparr>enabled = conv raw (enabled fallback), requireAuth = requireAuth fallback\<rparr>)"

definition parseAccess :: "jsval \<Rightarrow> module_access \<Rightarrow> module_access" where
  "parseAccess raw fallback = parse_access_with parseHeaderNavBoolean raw fallback"

definition parseHeaderNavRecord :: "jsval \<Rightarrow> jsval" where
  "parseHeaderNavRecord raw =
     (if \<not> truthy raw \<or> trim (to_str raw) = [] then JNull
      else (case raw of
              JObj _ \<Rightarrow> raw | JArr _ \<Rightarrow> raw
            | _ \<Rightarrow> (case json_parse (to_str raw) of Some v \<Rightarrow> v | None \<Rightarrow> JNull)))"

definition access_at :: "nav_value props \<Rightarrow> jsstring \<Rightarrow> module_access" where
  "access_at p k = (case props_get p k of Some (Access a) \<Rightarrow> a | _ \<Rightarrow> default_access)"

definition is_primitive_value :: "jsval \<Rightarrow> bool" where
  "is_primitive_value v = (case v of JBool _ \<Rightarrow> True | JNum _ \<Rightarrow> True | JStr _ \<Rightarrow> True | _ \<Rightarrow> False)"

definition nav_entry :: "nav_value props \<Rightarrow> jsstring \<times> jsval \<Rightarrow> nav_value props" where
  "nav_entry result entry =
     (let (key, v) = entry
      in if key = js ''pricing'' \<or> key = js ''rankings''
         then props_set result key (Access (parseAccess v (access_at result key)))
         else (case props_get result key of
                 Some (Flag b) \<Rightarrow> props_set result key (Flag (parseHeaderNavBoolean v b))
               | _ \<Rightarrow> if is_primitive_value v then props_set result key (Flag (parseHeaderNavBoolean v True)) else result))"

definition parseHeaderNavModules :: "jsval \<Rightarrow> nav_value props" where
  "parseHeaderNavModules raw =
     (let parsed = parseHeaderNavRecord raw
      in if \<not> truthy parsed then DEFAULT_HEADER_NAV_MODULES
         else foldl nav_entry DEFAULT_HEADER_NAV_MODULES (own_props parsed))"

text \<open>\<^verbatim>\<open>status?.HeaderNavModules\<close>\<close>

definition parseHeaderNavModulesFromStatus :: "jsval \<Rightarrow> nav_value props" where
  "parseHeaderNavModulesFromStatus status = parseHeaderNavModules (prop_of status (js ''HeaderNavModules''))"

definition getCachedStatus :: "storage \<Rightarrow> jsval" where
  "getCachedStatus st =
     (case st (js ''status'') of
        None \<Rightarrow> JNull
      | Some raw \<Rightarrow> if raw = [] then JNull else (case json_parse raw of Some v \<Rightarrow> v | None \<Rightarrow> JNull))"

definition cacheStatus :: "(storage \<Rightarrow> bool) \<Rightarrow> jsval \<Rightarrow> storage \<Rightarrow> storage" where
  "cacheStatus fits status st =
     (if truthy status then try_set fits (js ''status'') (json_stringify status) st else st)"

text \<open>\<open>module\<close> is \<^verbatim>\<open>pricing\<close> or \<^verbatim>\<open>rankings\<close>.\<close>

definition getModuleAccessFromStatus :: "jsval \<Rightarrow> jsstring \<Rightarrow> module_access" where
  "getModuleAccessFromStatus status m = access_at (parseHeaderNavModulesFromStatus status) m"

definition getModuleAccess :: "storage \<Rightarrow> jsstring \<Rightarrow> module_access" where
  "getModuleAccess st m = getModuleAccessFromStatus (getCachedStatus st) m"

text \<open>The reply of the status request, \<open>None\<close> when it fails.\<close>

definition getFreshModuleAccess ::
  "(storage \<Rightarrow> bool) \<Rightarrow> jsval option \<Rightarrow> jsstring \<Rightarrow> storage \<Rightarrow> module_access \<times> storage" where
  "getFreshModuleAccess fits reply m st =
     (case reply of
        Some status \<Rightarrow> (getModuleAccessFromStatus status m, cacheStatus fits status st)
      | None \<Rightarrow> (\<lparr>enabled = False, requireAuth = True\<rparr>, st))"

definition isSidebarModuleEnabled :: "storage \<Rightarrow> jsstring \<Rightarrow> jsstring \<Rightarrow> bool" where
  "isSidebarModuleEnabled st sec m =
     (let status = getCachedStatus st; raw = prop_of status (js ''SidebarModulesAdmin'')
      in if \<not> truthy status then True
         else if \<not> truthy raw \<or> trim (to_str raw) = [] then True
         else (case json_parse (to_str raw) of
                 None \<Rightarrow> True
               | Some parsed \<Rightarrow>
                   let sectionConfig = prop_of parsed sec
                   in if \<not> truthy sectionConfig then True
                      else if prop_of sectionConfig (js ''enabled'') = JBool False then False
                      else prop_of sectionConfig m \<noteq> JBool False))"

subsection \<open>The header and the routes\<close>

record top_link =
  href :: jsstring
  requiresAuth :: "bool option"
  external :: bool

definition plain_link :: "string \<Rightarrow> top_link" where
  "plain_link h = \<lparr>href = js h, requiresAuth = None, external = False\<rparr>"

definition module_link :: "nav_value props \<Rightarrow> bool \<Rightarrow> string \<Rightarrow> string \<Rightarrow> top_link list" where
  "module_link modules isAuthed m h =
     (case props_get modules (js m) of
        Some (Access a) \<Rightarrow>
          if enabled a then [\<lparr>href = js h, requiresAuth = Some (requireAuth a \<and> \<not> isAuthed), external = False\<rparr>] else []
      | _ \<Rightarrow> [])"

definition flag_link :: "nav_value props \<Rightarrow> string \<Rightarrow> top_link \<Rightarrow> top_link list" where
  "flag_link modules m link = (if props_get modules (js m) = Some (Flag False) then [] else [link])"

definition useTopNavLinks :: "jsval \<Rightarrow> bool \<Rightarrow> top_link list" where
  "useTopNavLinks status isAuthed =
     (let modules = parseHeaderNavModulesFromStatus status;
          docs = prop_of status (js ''docs_link'')
      in flag_link modules ''home'' (plain_link ''/'') @
         flag_link modules ''console'' (plain_link ''/dashboard'') @
         module_link modules isAuthed ''pricing'' ''/pricing'' @
         module_link modules isAuthed ''rankings'' ''/rankings'' @
         flag_link modules ''docs''
           (if truthy docs then \<lparr>href = to_str docs, requiresAuth = None, external = True\<rparr> else plain_link ''/docs'') @
         flag_link modules ''about'' (plain_link ''/about''))"

datatype decision = Enter | RedirectHome | RedirectSignIn | RedirectDashboard

definition module_route :: "module_access \<Rightarrow> bool \<Rightarrow> decision" where
  "module_route a isAuthed =
     (if \<not> enabled a then RedirectHome
      else if requireAuth a \<and> \<not> isAuthed then RedirectSignIn else Enter)"

definition playground_route :: "storage \<Rightarrow> decision" where
  "playground_route st = (if isSidebarModuleEnabled st (js ''chat'') (js ''playground'') then Enter else RedirectDashboard)"

subsection \<open>The settings page: \<^verbatim>\<open>maintenance/config.ts\<close>\<close>

definition toBoolean :: "jsval \<Rightarrow> bool \<Rightarrow> bool" where
  "toBoolean v fallback =
     (case v of
        JBool b \<Rightarrow> b
      | JNum n \<Rightarrow> num_eq n (Fin 1)
      | JStr s \<Rightarrow> bool_of_text s fallback
      | _ \<Rightarrow> fallback)"

definition parseAccessModule :: "jsval \<Rightarrow> module_access \<Rightarrow> module_access" where
  "parseAccessModule raw fallback = parse_access_with toBoolean raw fallback"

text \<open>\<^verbatim>\<open>Boolean(base[key])\<close>: the flag of the defaults, true for an access object.\<close>

definition default_flag :: "jsstring \<Rightarrow> bool" where
  "default_flag key =
     (case props_get DEFAULT_HEADER_NAV_MODULES key of
        Some (Flag b) \<Rightarrow> b | Some (Access a) \<Rightarrow> True | None \<Rightarrow> False)"

definition config_entry :: "nav_value props \<Rightarrow> jsstring \<times> jsval \<Rightarrow> nav_value props" where
  "config_entry result entry =
     (let (key, raw) = entry
      in if key = js ''pricing'' \<or> key = js ''rankings''
         then props_set result key (Access (parseAccessModule raw (access_at DEFAULT_HEADER_NAV_MODULES key)))
         else (case raw of
                 JBool b \<Rightarrow> props_set result key (Flag b)
               | JStr _ \<Rightarrow> props_set result key (Flag (toBoolean raw (default_flag key)))
               | JNum _ \<Rightarrow> props_set result key (Flag (toBoolean raw (default_flag key)))
               | _ \<Rightarrow> result))"

text \<open>\<^verbatim>\<open>Object.entries(null)\<close> throws inside the handler.\<close>

definition parseHeaderNavModules_config :: "jsstring option \<Rightarrow> nav_value props" where
  "parseHeaderNavModules_config v =
     (case v of
        None \<Rightarrow> DEFAULT_HEADER_NAV_MODULES
      | Some s \<Rightarrow>
          if s = [] then DEFAULT_HEADER_NAV_MODULES
          else (case json_parse s of
                  None \<Rightarrow> DEFAULT_HEADER_NAV_MODULES
                | Some parsed \<Rightarrow> if parsed = JNull then DEFAULT_HEADER_NAV_MODULES
                                 else foldl config_entry DEFAULT_HEADER_NAV_MODULES (own_props parsed)))"

definition access_val :: "module_access \<Rightarrow> jsval" where
  "access_val a = JObj [(js ''enabled'', JBool (enabled a)), (js ''requireAuth'', JBool (requireAuth a))]"

fun nav_val :: "nav_value \<Rightarrow> jsval" where
  "nav_val (Flag b) = JBool b"
| "nav_val (Access a) = access_val a"

definition config_val :: "nav_value props \<Rightarrow> jsval" where
  "config_val config = JObj (map (\<lambda>kv. (fst kv, nav_val (snd kv))) config)"

definition serializeHeaderNavModules :: "nav_value props \<Rightarrow> jsstring" where
  "serializeHeaderNavModules config = json_stringify (config_val config)"

type_synonym sidebar_settings = "bool props props"

definition SIDEBAR_MODULES_DEFAULT :: sidebar_settings where
  "SIDEBAR_MODULES_DEFAULT =
     [(js ''chat'', map (\<lambda>k. (js k, True)) [''enabled'', ''playground'', ''chat'']),
      (js ''console'', map (\<lambda>k. (js k, True))
         [''enabled'', ''detail'', ''token'', ''log'', ''model_monitor'', ''tickets'', ''empty_response'', ''midjourney'', ''task'']),
      (js ''personal'', map (\<lambda>k. (js k, True)) [''enabled'', ''topup'', ''personal''])]"

definition get_or :: "'v props \<Rightarrow> jsstring \<Rightarrow> 'v \<Rightarrow> 'v" where
  "get_or p k d = (case props_get p k of Some v \<Rightarrow> v | None \<Rightarrow> d)"

definition section_settings :: "bool props \<Rightarrow> jsval \<Rightarrow> bool props" where
  "section_settings defaultSection raw =
     foldl (\<lambda>acc (moduleKey, moduleValue).
              if moduleKey = js ''enabled'' then acc
              else props_set acc moduleKey (toBoolean moduleValue (get_or defaultSection moduleKey True)))
       [(js ''enabled'', toBoolean (prop_of raw (js ''enabled'')) (get_or defaultSection (js ''enabled'') True))]
       (own_props raw)"

definition add_section :: "sidebar_settings \<Rightarrow> jsstring \<times> jsval \<Rightarrow> sidebar_settings" where
  "add_section result entry =
     (let (sectionKey, raw) = entry
      in case raw of
           JObj _ \<Rightarrow> props_set result sectionKey
                       (section_settings (get_or SIDEBAR_MODULES_DEFAULT sectionKey [(js ''enabled'', True)]) raw)
         | JArr _ \<Rightarrow> props_set result sectionKey
                       (section_settings (get_or SIDEBAR_MODULES_DEFAULT sectionKey [(js ''enabled'', True)]) raw)
         | _ \<Rightarrow> result)"

definition add_defaults :: "sidebar_settings \<Rightarrow> jsstring \<times> bool props \<Rightarrow> sidebar_settings" where
  "add_defaults result entry =
     (let (sectionKey, config) = entry
      in case props_get result sectionKey of
           None \<Rightarrow> props_set result sectionKey config
         | Some sec \<Rightarrow> props_set result sectionKey
             (foldl (\<lambda>acc (k, b). if props_get acc k = None then props_set acc k b else acc) sec config))"

definition parseSidebarModulesAdmin :: "jsstring option \<Rightarrow> sidebar_settings" where
  "parseSidebarModulesAdmin v =
     (case v of
        None \<Rightarrow> SIDEBAR_MODULES_DEFAULT
      | Some s \<Rightarrow>
          if s = [] \<or> trim s = [] then SIDEBAR_MODULES_DEFAULT
          else (case json_parse s of
                  None \<Rightarrow> SIDEBAR_MODULES_DEFAULT
                | Some parsed \<Rightarrow>
                    if parsed = JNull then SIDEBAR_MODULES_DEFAULT
                    else foldl add_defaults (foldl add_section [] (own_props parsed)) SIDEBAR_MODULES_DEFAULT))"

definition section_val :: "bool props \<Rightarrow> jsval" where
  "section_val sec = JObj (map (\<lambda>kb. (fst kb, JBool (snd kb))) sec)"

definition sidebar_val :: "sidebar_settings \<Rightarrow> jsval" where
  "sidebar_val config = JObj (map (\<lambda>ks. (fst ks, section_val (snd ks))) config)"

definition serializeSidebarModulesAdmin :: "sidebar_settings \<Rightarrow> jsstring" where
  "serializeSidebarModulesAdmin config = json_stringify (sidebar_val config)"

subsection \<open>The header enforces what the settings page saves\<close>

text \<open>A configuration of the declared type: access objects for the two modules that have one.\<close>

definition nav_typed :: "nav_value props \<Rightarrow> bool" where
  "nav_typed config \<longleftrightarrow>
     list_all (\<lambda>(k, v). (case v of Access _ \<Rightarrow> True | Flag _ \<Rightarrow> False) = (k = js ''pricing'' \<or> k = js ''rankings'')) config"

lemma access_roundtrip:
  "(\<And>b fb. conv (JBool b) fb = b) \<Longrightarrow> parse_access_with conv (access_val a) fallback = a"
proof -
  have "val_at [(js ''enabled'', JBool b), (js ''requireAuth'', JBool c)] (js ''enabled'') = JBool b"
    "val_at [(js ''enabled'', JBool b), (js ''requireAuth'', JBool c)] (js ''requireAuth'') = JBool c" for b c
    by (simp_all add: val_at_def props_get_def)
  then show "(\<And>b fb. conv (JBool b) fb = b) \<Longrightarrow> parse_access_with conv (access_val a) fallback = a"
    by (simp add: parse_access_with_def access_val_def prop_of_JObj)
qed

lemma typed_entry:
  assumes "(case v of Access _ \<Rightarrow> True | Flag _ \<Rightarrow> False) = (k = js ''pricing'' \<or> k = js ''rankings'')"
  shows "nav_entry result (k, nav_val v) = props_set result k v" "config_entry result (k, nav_val v) = props_set result k v"
  using assms access_roundtrip [of parseHeaderNavBoolean] access_roundtrip [of toBoolean]
  by (auto simp: nav_entry_def config_entry_def parseAccess_def parseAccessModule_def parseHeaderNavBoolean_def
      toBoolean_def is_primitive_value_def split: nav_value.splits option.splits)

lemma typed_entries:
  assumes "nav_typed config"
  shows "foldl nav_entry result (map (\<lambda>kv. (fst kv, nav_val (snd kv))) config) = props_assign result config"
    "foldl config_entry result (map (\<lambda>kv. (fst kv, nav_val (snd kv))) config) = props_assign result config"
  using assms
proof (induction config arbitrary: result)
  case (Cons kv config)
  obtain k v where kv: "kv = (k, v)" by (cases kv)
  { case 1 then show ?case using Cons typed_entry [of v k result] by (simp add: nav_typed_def kv props_assign_def) }
  { case 2 then show ?case using Cons typed_entry [of v k result] by (simp add: nav_typed_def kv props_assign_def) }
qed (simp_all add: props_assign_def)

lemma object_text_nonblank: "trim (json_stringify (JObj p)) \<noteq> []"
  using object_text [of p] by (auto simp: trim_eq_Nil is_ws_def)

text \<open>the header configuration that the settings page saves is the one that the header and the
  routes read, and the one that the settings page shows again; what it leaves out has its default.\<close>

theorem header_settings_enforced:
  assumes "nav_typed config" "json_ok (config_val config)"
  shows "props_get (parseHeaderNavModules (JStr (serializeHeaderNavModules config))) k =
      (case props_get config k of Some v \<Rightarrow> Some v | None \<Rightarrow> props_get DEFAULT_HEADER_NAV_MODULES k) \<and>
    parseHeaderNavModules_config (Some (serializeHeaderNavModules config)) =
      parseHeaderNavModules (JStr (serializeHeaderNavModules config))"
proof -
  let ?p = "map (\<lambda>kv. (fst kv, nav_val (snd kv))) config"
  let ?t = "serializeHeaderNavModules config"
  have parse: "json_parse ?t = Some (JObj ?p)"
    using assms(2) unfolding serializeHeaderNavModules_def config_val_def by (rule json_round_trip)
  have t: "?t \<noteq> []" "trim ?t \<noteq> []"
    using object_text_nonblank [of ?p] by (auto simp: serializeHeaderNavModules_def config_val_def)
  have lib: "parseHeaderNavModules (JStr ?t) = props_assign DEFAULT_HEADER_NAV_MODULES config"
    using t parse typed_entries(1) [OF assms(1)] by (simp add: parseHeaderNavModules_def parseHeaderNavRecord_def)
  have cfg: "parseHeaderNavModules_config (Some ?t) = props_assign DEFAULT_HEADER_NAV_MODULES config"
    using t parse typed_entries(2) [OF assms(1)] by (simp add: parseHeaderNavModules_config_def)
  have "props_ok config" using assms(2) by (simp add: config_val_def props_ok_def props_keys_def o_def)
  moreover have "props_ok DEFAULT_HEADER_NAV_MODULES" by (simp add: DEFAULT_HEADER_NAV_MODULES_def props_ok_def props_keys_def)
  ultimately show ?thesis
    unfolding lib cfg by (simp add: props_get_assign map_add_def)
qed

definition has_access :: "nav_value props \<Rightarrow> jsstring \<Rightarrow> bool" where
  "has_access p k = (case props_get p k of Some (Access _) \<Rightarrow> True | _ \<Rightarrow> False)"

lemma nav_entry_access:
  assumes "k = js ''pricing'' \<or> k = js ''rankings''" "has_access p k"
  shows "has_access (nav_entry p entry) k"
  using assms by (cases entry) (auto simp: has_access_def nav_entry_def split: option.split nav_value.split)

lemma parsed_access:
  assumes "k = js ''pricing'' \<or> k = js ''rankings''"
  shows "has_access (parseHeaderNavModules raw) k"
proof -
  have "has_access p k \<Longrightarrow> has_access (foldl nav_entry p es) k" for p es
    using nav_entry_access [OF assms] by (induction es arbitrary: p) auto
  moreover have "has_access DEFAULT_HEADER_NAV_MODULES k"
    using assms by (auto simp: has_access_def DEFAULT_HEADER_NAV_MODULES_def props_get_def)
  ultimately show ?thesis by (simp add: parseHeaderNavModules_def Let_def)
qed

definition module_href :: "string \<Rightarrow> string" where
  "module_href m = ''/'' @ m"

text \<open>for every status of the server, the link of a module in the header and the guard of its
  route agree: there is no link exactly when the route redirects home, and the link asks for a
  sign-in exactly when the route does.\<close>

theorem link_and_route_agree:
  assumes "m \<in> {''pricing'', ''rankings''}"
  shows "{l \<in> set (useTopNavLinks status isAuthed). href l = js (module_href m) \<and> \<not> external l} =
    (case module_route (getModuleAccessFromStatus status (js m)) isAuthed of
       Enter \<Rightarrow> {\<lparr>href = js (module_href m), requiresAuth = Some False, external = False\<rparr>}
     | RedirectSignIn \<Rightarrow> {\<lparr>href = js (module_href m), requiresAuth = Some True, external = False\<rparr>}
     | _ \<Rightarrow> {})"
proof -
  let ?p = "parseHeaderNavModulesFromStatus status"
  let ?hit = "\<lambda>l. href l = js (module_href m) \<and> \<not> external l"
  have "has_access ?p (js ''pricing'')" "has_access ?p (js ''rankings'')"
    using parsed_access by (simp_all add: parseHeaderNavModulesFromStatus_def)
  then obtain a b where ab: "props_get ?p (js ''pricing'') = Some (Access a)" "props_get ?p (js ''rankings'') = Some (Access b)"
    by (auto simp: has_access_def split: option.splits nav_value.splits)
  have plain: "filter ?hit (flag_link ?p x (plain_link h)) = []" if "h \<noteq> module_href m" for x h
    using that by (simp add: flag_link_def plain_link_def)
  have docs: "filter ?hit (flag_link ?p ''docs'' (if c then \<lparr>href = s, requiresAuth = None, external = True\<rparr> else plain_link ''/docs'')) = []" for c s
    using assms by (auto simp: flag_link_def plain_link_def module_href_def)
  have modules: "filter ?hit (module_link ?p isAuthed ''pricing'' ''/pricing'' @ module_link ?p isAuthed ''rankings'' ''/rankings'') =
      module_link ?p isAuthed m (module_href m)"
    using assms ab by (auto simp: module_link_def module_href_def)
  have "filter ?hit (useTopNavLinks status isAuthed) = module_link ?p isAuthed m (module_href m)"
    using assms plain [of "''/''"] plain [of "''/dashboard''"] plain [of "''/about''"] docs modules
    by (auto simp: useTopNavLinks_def Let_def module_href_def)
  then have "{l \<in> set (useTopNavLinks status isAuthed). ?hit l} = set (module_link ?p isAuthed m (module_href m))"
    by (metis set_filter)
  moreover obtain c where c: "props_get ?p (js m) = Some (Access c)" using assms ab by auto
  moreover have "getModuleAccessFromStatus status (js m) = c" using c by (simp add: getModuleAccessFromStatus_def access_at_def)
  ultimately show ?thesis
    by (cases "enabled c"; cases "requireAuth c"; cases isAuthed) (simp_all add: module_link_def module_route_def)
qed

subsection \<open>The sidebar enforces what the settings page saves\<close>

text \<open>A configuration of the settings page has all sections and modules of the defaults.\<close>

definition sidebar_complete :: "sidebar_settings \<Rightarrow> bool" where
  "sidebar_complete config \<longleftrightarrow>
     list_all (\<lambda>(sec, d). case props_get config sec of
         Some s \<Rightarrow> list_all (\<lambda>kb. props_get s (fst kb) \<noteq> None) d | None \<Rightarrow> False) SIDEBAR_MODULES_DEFAULT"

definition module_on :: "sidebar_settings \<Rightarrow> jsstring \<Rightarrow> jsstring \<Rightarrow> bool" where
  "module_on config sec m =
     (case props_get config sec of
        Some s \<Rightarrow> props_get s (js ''enabled'') = Some True \<and> props_get s m = Some True | None \<Rightarrow> False)"

lemma fill_section:
  fixes s :: "bool props"
  defines "fill \<equiv> \<lambda>acc (k, b). if props_get acc k = None then props_set acc k b else acc"
  shows "props_get s k \<noteq> None \<or> k \<in> fst ` set d \<Longrightarrow> props_get (foldl fill s d) k \<noteq> None"
proof (induction d arbitrary: s)
  case (Cons kb d)
  then show ?case by (cases kb) (auto simp: fill_def intro!: Cons.IH)
qed simp

lemma add_defaults_keeps:
  assumes "props_get config sec = Some s" "props_get s m \<noteq> None"
  shows "\<exists>s'. props_get (add_defaults config entry) sec = Some s' \<and> props_get s' m \<noteq> None"
  using assms fill_section [of s m] by (cases entry) (auto simp: add_defaults_def split: option.split)

lemma add_defaults_adds:
  assumes "props_ok d" "m \<in> fst ` set d"
  shows "\<exists>s. props_get (add_defaults config (sec, d)) sec = Some s \<and> props_get s m \<noteq> None"
proof (cases "props_get config sec")
  case None
  then have "props_get (add_defaults config (sec, d)) sec = Some d" by (simp add: add_defaults_def)
  moreover have "props_get d m \<noteq> None" using assms(2) by (simp add: props_get_def map_of_eq_None_iff)
  ultimately show ?thesis by simp
next
  case (Some s)
  then show ?thesis using fill_section [of s m d] assms by (simp add: add_defaults_def)
qed

lemma defaults_fold_keeps:
  assumes "\<exists>s. props_get config sec = Some s \<and> props_get s m \<noteq> None"
  shows "\<exists>s. props_get (foldl add_defaults config ds) sec = Some s \<and> props_get s m \<noteq> None"
  using assms
proof (induction ds arbitrary: config)
  case (Cons e ds)
  from Cons.prems obtain s where "props_get config sec = Some s" "props_get s m \<noteq> None" by blast
  then show ?case using Cons.IH [OF add_defaults_keeps [of config sec s m e]] by simp
qed simp

lemma defaults_fold_adds:
  assumes "(sec, d) \<in> set ds" "m \<in> fst ` set d" "list_all (\<lambda>e. props_ok (snd e)) ds"
  shows "\<exists>s. props_get (foldl add_defaults config ds) sec = Some s \<and> props_get s m \<noteq> None"
  using assms
proof (induction ds arbitrary: config)
  case (Cons e ds)
  show ?case
  proof (cases "e = (sec, d)")
    case True
    then show ?thesis using Cons.prems defaults_fold_keeps [OF add_defaults_adds] by simp
  next
    case False
    then show ?thesis using Cons by simp
  qed
qed simp

text \<open>Whatever text the server holds, the configuration that the settings page shows and edits is
  complete.\<close>

lemma parsed_sidebar_complete: "sidebar_complete (parseSidebarModulesAdmin v)"
proof -
  have ok: "list_all (\<lambda>e. props_ok (snd e)) SIDEBAR_MODULES_DEFAULT"
    by (simp add: SIDEBAR_MODULES_DEFAULT_def props_ok_def props_keys_def)
  have complete: "sidebar_complete (foldl add_defaults config SIDEBAR_MODULES_DEFAULT)" for config
    unfolding sidebar_complete_def list_all_iff
  proof (intro ballI, clarify)
    fix sec d assume d: "(sec, d) \<in> set SIDEBAR_MODULES_DEFAULT"
    let ?c = "foldl add_defaults config SIDEBAR_MODULES_DEFAULT"
    have at: "\<exists>s. props_get ?c sec = Some s \<and> props_get s m \<noteq> None" if "m \<in> fst ` set d" for m
      using defaults_fold_adds [OF d that ok] .
    have "js ''enabled'' \<in> fst ` set d" using d by (auto simp: SIDEBAR_MODULES_DEFAULT_def)
    then obtain s where s: "props_get ?c sec = Some s" using at by blast
    show "case props_get ?c sec of None \<Rightarrow> False | Some s \<Rightarrow> \<forall>kb \<in> set d. props_get s (fst kb) \<noteq> None"
      using at s by (auto simp: image_iff)
  qed
  moreover have "sidebar_complete SIDEBAR_MODULES_DEFAULT"
    by (auto simp: sidebar_complete_def SIDEBAR_MODULES_DEFAULT_def props_get_def)
  ultimately show ?thesis by (auto simp: parseSidebarModulesAdmin_def split: option.split)
qed

lemma map_snd_get: "props_get (map (\<lambda>kv. (fst kv, f (snd kv))) p) k = map_option f (props_get p k)"
  by (induction p) (auto simp: props_get_def)

lemma sidebar_val_at: "props_get config sec = Some s \<Longrightarrow> prop_of (sidebar_val config) sec = section_val s"
  by (simp add: sidebar_val_def prop_of_def map_snd_get)

lemma section_val_at: "prop_of (section_val s) m = (case props_get s m of Some b \<Rightarrow> JBool b | None \<Rightarrow> JUndef)"
  by (simp add: section_val_def prop_of_def map_snd_get split: option.split)

lemma default_sections: "default_config = map (\<lambda>ks. (fst ks, section_val (snd ks))) SIDEBAR_MODULES_DEFAULT"
  by (simp add: default_config_def DEFAULT_SIDEBAR_MODULES_def SIDEBAR_MODULES_DEFAULT_def section_val_def)

lemma complete_module:
  assumes "sidebar_complete config" "(sec, d) \<in> set SIDEBAR_MODULES_DEFAULT" "m \<in> fst ` set d"
  obtains s b where "props_get config sec = Some s" "props_get s m = Some b"
  using assms by (force simp: sidebar_complete_def list_all_iff split: option.splits)

lemma saved_sidebar_section:
  assumes ok: "json_ok (sidebar_val config)" and complete: "sidebar_complete config"
    and sec: "(sec, d) \<in> set SIDEBAR_MODULES_DEFAULT" and m: "m \<in> fst ` set d"
  shows "prop_of (prop_of (JObj (parseSidebarConfig (Some (serializeSidebarModulesAdmin config)))) sec) m =
    prop_of (prop_of (sidebar_val config) sec) m"
proof -
  let ?t = "serializeSidebarModulesAdmin config"
  obtain ps where ps: "sidebar_val config = JObj ps" by (simp add: sidebar_val_def)
  have "json_parse ?t = Some (JObj ps)" "?t \<noteq> []" "trim ?t \<noteq> []"
    using ok json_round_trip [of "sidebar_val config"] object_text_nonblank [of ps]
    by (auto simp: serializeSidebarModulesAdmin_def ps simp del: json_ok.simps)
  then have parsed: "parseSidebarConfig (Some ?t) = mergeWithDefaultSidebarModules (JObj (props_del ps (js ''admin'')))"
    by (simp add: parseSidebarConfig_def delete_admin_def)
  obtain s b where s: "props_get config sec = Some s" "props_get s m = Some b"
    using complete_module [OF complete sec m] .
  have dist: "props_ok ps" using ok by (simp add: ps)
  have admin: "sec \<noteq> js ''admin''" using sec by (auto simp: SIDEBAR_MODULES_DEFAULT_def)
  define p where "p = props_assign [] (props_del ps (js ''admin''))"
  have at: "val_at p sec = section_val s"
    using admin sidebar_val_at [OF s(1)] val_at_del_copy [OF dist] by (simp add: p_def ps prop_of_JObj)
  have section_ok: "props_ok (own_props (section_val s))"
    using ok s(1) by (auto simp: sidebar_val_def section_val_def props_get_def list_all_iff dest!: map_of_SomeD)
  obtain d' where d': "(sec, d') \<in> set DEFAULT_SIDEBAR_MODULES"
    using sec by (auto simp: SIDEBAR_MODULES_DEFAULT_def DEFAULT_SIDEBAR_MODULES_def)
  have "val_at (own_props (section_val s)) m = JBool b"
    using s(2) by (simp add: section_val_def val_at_def map_snd_get)
  then have "prop_of (val_at (foldl merge_section p DEFAULT_SIDEBAR_MODULES) sec) m = JBool b"
    using merge_val [OF d', of p m] section_ok at by (simp add: section_val_def)
  moreover have "prop_of (prop_of (sidebar_val config) sec) m = JBool b"
    using s by (simp add: sidebar_val_at section_val_at)
  ultimately show ?thesis by (simp add: parsed mergeWithDefaultSidebarModules_def p_def prop_of_JObj)
qed

text \<open>C24: the sidebar configuration that the settings page saves is the one that the sidebar enforces
  for everyone, and the guard of the playground route, which reads the cached status, decides the
  same.\<close>

theorem sidebar_settings_enforced:
  assumes ok: "json_ok (sidebar_val config)" and complete: "sidebar_complete config"
    and sec: "(sec, d) \<in> set SIDEBAR_MODULES_DEFAULT" and m: "m \<in> fst ` set d"
    and status: "getCachedStatus st = status" "prop_of status (js ''SidebarModulesAdmin'') = JStr (serializeSidebarModulesAdmin config)"
  shows "section_grants (prop_of (JObj (parseSidebarConfig (Some (serializeSidebarModulesAdmin config)))) sec) m =
      module_on config sec m \<and>
    isSidebarModuleEnabled st sec m = module_on config sec m"
proof -
  let ?t = "serializeSidebarModulesAdmin config"
  have enabled: "js ''enabled'' \<in> fst ` set d" using sec by (auto simp: SIDEBAR_MODULES_DEFAULT_def)
  obtain s e b where s: "props_get config sec = Some s" "props_get s (js ''enabled'') = Some e" "props_get s m = Some b"
    using complete_module [OF complete sec m] complete_module [OF complete sec enabled] by (metis option.inject)
  have vals: "prop_of (prop_of (sidebar_val config) sec) (js ''enabled'') = JBool e" "prop_of (prop_of (sidebar_val config) sec) m = JBool b"
    using s by (simp_all add: sidebar_val_at section_val_at)
  let ?section = "prop_of (JObj (parseSidebarConfig (Some ?t))) sec"
  have at: "prop_of ?section (js ''enabled'') = JBool e" "prop_of ?section m = JBool b"
    using saved_sidebar_section [OF ok complete sec] m enabled vals by simp_all
  then have "truthy ?section" by (cases ?section) (auto simp: prop_of_def)
  then have "section_grants ?section m = module_on config sec m"
    using at s by (simp add: section_grants_def module_on_def)
  moreover have "isSidebarModuleEnabled st sec m = module_on config sec m"
  proof -
    obtain ps where ps: "sidebar_val config = JObj ps" by (simp add: sidebar_val_def)
    have "json_parse ?t = Some (sidebar_val config)" "?t \<noteq> []" "trim ?t \<noteq> []"
      using ok json_round_trip [of "sidebar_val config"] object_text_nonblank [of ps]
      by (auto simp: serializeSidebarModulesAdmin_def ps simp del: json_ok.simps)
    moreover have "truthy status" using status(2) by (cases status) (auto simp: prop_of_def)
    moreover have "truthy (prop_of (sidebar_val config) sec)" using vals(1) by (cases "prop_of (sidebar_val config) sec") (auto simp: prop_of_def)
    ultimately show ?thesis using status vals s by (auto simp: isSidebarModuleEnabled_def module_on_def Let_def)
  qed
  ultimately show ?thesis by blast
qed

subsection \<open>Witnesses and disagreements\<close>

definition sample_header :: "nav_value props" where
  "sample_header = [(js ''about'', Flag False), (js ''pricing'', Access \<lparr>enabled = True, requireAuth = True\<rparr>)]"

lemma header_settings_enforced_witness:
  "props_get (parseHeaderNavModules (JStr (serializeHeaderNavModules sample_header))) (js ''about'') = Some (Flag False)"
proof -
  have "nav_typed sample_header" "json_ok (config_val sample_header)" by code_simp+
  moreover have "props_get sample_header (js ''about'') = Some (Flag False)" by (simp add: sample_header_def props_get_def)
  ultimately show ?thesis using header_settings_enforced [of sample_header "js ''about''"] by simp
qed

definition sample_nav_status :: jsval where
  "sample_nav_status = JObj [(js ''HeaderNavModules'', JObj [(js ''pricing'', access_val \<lparr>enabled = True, requireAuth = True\<rparr>)])]"

lemma link_and_route_agree_witness:
  "module_route (getModuleAccessFromStatus sample_nav_status (js ''pricing'')) False = RedirectSignIn \<and>
   {l \<in> set (useTopNavLinks sample_nav_status False). href l = js ''/pricing'' \<and> \<not> external l} =
     {\<lparr>href = js ''/pricing'', requiresAuth = Some True, external = False\<rparr>}"
proof -
  have "module_route (getModuleAccessFromStatus sample_nav_status (js ''pricing'')) False = RedirectSignIn" by code_simp
  then show ?thesis using link_and_route_agree [of "''pricing''" sample_nav_status False] by (simp add: module_href_def)
qed

definition sample_sidebar :: sidebar_settings where
  "sample_sidebar = add_section SIDEBAR_MODULES_DEFAULT
     (js ''chat'', JObj [(js ''enabled'', JBool True), (js ''playground'', JBool False), (js ''chat'', JBool True)])"

definition sample_sidebar_status :: jsval where
  "sample_sidebar_status = JObj [(js ''SidebarModulesAdmin'', JStr (serializeSidebarModulesAdmin sample_sidebar))]"

definition sample_sidebar_storage :: storage where
  "sample_sidebar_storage = Map.empty (js ''status'' \<mapsto> json_stringify sample_sidebar_status)"

lemma sidebar_settings_enforced_witness:
  "isSidebarModuleEnabled sample_sidebar_storage (js ''chat'') (js ''playground'') = False"
proof -
  have "json_ok (sidebar_val sample_sidebar)" "sidebar_complete sample_sidebar" by code_simp+
  moreover have "(js ''chat'', map (\<lambda>k. (js k, True)) [''enabled'', ''playground'', ''chat'']) \<in> set SIDEBAR_MODULES_DEFAULT"
    by (simp add: SIDEBAR_MODULES_DEFAULT_def)
  moreover have "json_ok sample_sidebar_status" by code_simp
  then have "getCachedStatus sample_sidebar_storage = sample_sidebar_status"
    using object_text [of "[(js ''SidebarModulesAdmin'', JStr (serializeSidebarModulesAdmin sample_sidebar))]"]
      json_round_trip [of sample_sidebar_status]
    by (auto simp: getCachedStatus_def sample_sidebar_storage_def sample_sidebar_status_def)
  moreover have "prop_of sample_sidebar_status (js ''SidebarModulesAdmin'') = JStr (serializeSidebarModulesAdmin sample_sidebar)"
    by (simp add: sample_sidebar_status_def prop_of_JObj val_at_def props_get_def)
  moreover have "module_on sample_sidebar (js ''chat'') (js ''playground'') = False" by code_simp
  ultimately show ?thesis
    using sidebar_settings_enforced [of sample_sidebar "js ''chat''" "map (\<lambda>k. (js k, True)) [''enabled'', ''playground'', ''chat'']"
        "js ''playground''" sample_sidebar_storage sample_sidebar_status] by (simp add: image_iff)
qed

text \<open>The two parsers of one text do not decide numbers the same: the settings page shows a module as
  off that the header shows, and shows a sidebar module as off that its route admits.\<close>

lemma number_flags_disagree:
  "props_get (parseHeaderNavModules_config (Some (js ''{\"home\":2}''))) (js ''home'') = Some (Flag False)"
  "props_get (parseHeaderNavModules (JStr (js ''{\"home\":2}''))) (js ''home'') = Some (Flag True)"
  by code_simp+

lemma number_off_admitted:
  "module_on (parseSidebarModulesAdmin (Some (js ''{\"chat\":{\"playground\":0}}''))) (js ''chat'') (js ''playground'') = False"
  "playground_route (Map.empty (js ''status'' \<mapsto>
     json_stringify (JObj [(js ''SidebarModulesAdmin'', JStr (js ''{\"chat\":{\"playground\":0}}''))]))) = Enter"
  by code_simp+

end
