(* ===== verification/PricingFilters.thy ===== *)
theory PricingFilters
  imports JS_Json JS_Sort
begin

text \<open>
  The model square: filtering and sorting, \<^verbatim>\<open>features/pricing/lib/filters.ts\<close>, the state of the filters,
  \<^verbatim>\<open>features/pricing/hooks/use-filters.ts\<close>, and the options with their counts,
  \<^verbatim>\<open>features/pricing/components/pricing-sidebar.tsx\<close>.

  \<^verbatim>\<open>toLowerCase\<close> is the parameter \<open>lower\<close> and the sign of \<^verbatim>\<open>localeCompare\<close> the parameter \<open>cmp\<close>: both rest on
  the browser's Unicode data. The comparison of prices subtracts: the difference of two doubles is
  positive exactly when the first is the larger one, also for infinities, and is never positive when
  one of them is NaN.
\<close>

subsection \<open>Models and constants\<close>

record PricingModel =
  model_name :: "jsstring option"
  description :: "jsstring option"
  vendor_name :: "jsstring option"
  quota_type :: jsnum
  model_ratio :: jsnum
  model_price :: "jsnum option"
  enable_groups :: "jsstring list option"
  tags :: "jsstring option"
  supported_endpoint_types :: "jsstring list option"

definition FILTER_ALL :: jsstring where
  "FILTER_ALL = js ''all''"

definition SORT_NAME :: jsstring where
  "SORT_NAME = js ''name''"

definition SORT_PRICE_LOW :: jsstring where
  "SORT_PRICE_LOW = js ''price-low''"

definition SORT_PRICE_HIGH :: jsstring where
  "SORT_PRICE_HIGH = js ''price-high''"

subsection \<open>Filters\<close>

type_synonym conversion = "jsstring \<Rightarrow> jsstring"
type_synonym collation = "jsstring \<Rightarrow> jsstring \<Rightarrow> int"

definition opt_includes :: "conversion \<Rightarrow> jsstring option \<Rightarrow> jsstring \<Rightarrow> bool" where
  "opt_includes lower s q = (case s of None \<Rightarrow> False | Some t \<Rightarrow> str_includes (lower t) q)"

definition search_hit :: "conversion \<Rightarrow> jsstring \<Rightarrow> PricingModel \<Rightarrow> bool" where
  "search_hit lower query m =
     (let lowerQuery = lower query
      in opt_includes lower (model_name m) lowerQuery \<or> opt_includes lower (description m) lowerQuery \<or>
         opt_includes lower (tags m) lowerQuery \<or> opt_includes lower (vendor_name m) lowerQuery)"

definition filterBySearch :: "conversion \<Rightarrow> PricingModel list \<Rightarrow> jsstring \<Rightarrow> PricingModel list" where
  "filterBySearch lower models query = (if query = [] then models else filter (search_hit lower query) models)"

definition filterByVendor :: "PricingModel list \<Rightarrow> jsstring \<Rightarrow> PricingModel list" where
  "filterByVendor models vendor =
     (if vendor = FILTER_ALL then models else filter (\<lambda>m. vendor_name m = Some vendor) models)"

definition opt_member :: "jsstring \<Rightarrow> jsstring list option \<Rightarrow> bool" where
  "opt_member x xs = (case xs of None \<Rightarrow> False | Some ys \<Rightarrow> x \<in> set ys)"

definition filterByGroup :: "PricingModel list \<Rightarrow> jsstring \<Rightarrow> PricingModel list" where
  "filterByGroup models grp = (if grp = FILTER_ALL then models else filter (\<lambda>m. opt_member grp (enable_groups m)) models)"

definition target_type :: "jsstring \<Rightarrow> jsnum" where
  "target_type quotaType =
     (if quotaType = js ''token'' then Fin 0 else if quotaType = js ''hybrid'' then Fin 2 else Fin 1)"

definition filterByQuotaType :: "PricingModel list \<Rightarrow> jsstring \<Rightarrow> PricingModel list" where
  "filterByQuotaType models quotaType =
     (if quotaType = js ''all'' then models else filter (\<lambda>m. num_eq (quota_type m) (target_type quotaType)) models)"

definition filterByEndpointType :: "PricingModel list \<Rightarrow> jsstring \<Rightarrow> PricingModel list" where
  "filterByEndpointType models endpointType =
     (if endpointType = js ''all'' then models else filter (\<lambda>m. opt_member endpointType (supported_endpoint_types m)) models)"

definition getModelPrice :: "PricingModel \<Rightarrow> jsnum" where
  "getModelPrice m =
     (if num_eq (quota_type m) (Fin 0) then model_ratio m
      else (case model_price m of
              Some p \<Rightarrow> if num_truthy p then p else if num_truthy (model_ratio m) then model_ratio m else Fin 0
            | None \<Rightarrow> if num_truthy (model_ratio m) then model_ratio m else Fin 0))"

definition name_le :: "collation \<Rightarrow> PricingModel \<Rightarrow> PricingModel \<Rightarrow> bool" where
  "name_le cmp a b \<longleftrightarrow> cmp (or_str (model_name a) []) (or_str (model_name b) []) \<le> 0"

definition not_above :: "jsnum \<Rightarrow> jsnum \<Rightarrow> bool" where
  "not_above x y \<longleftrightarrow> \<not> num_lt y x"

definition sortModels :: "collation \<Rightarrow> PricingModel list \<Rightarrow> jsstring \<Rightarrow> PricingModel list" where
  "sortModels cmp models sortBy =
     (if sortBy = SORT_NAME then sort_by (name_le cmp) models
      else if sortBy = SORT_PRICE_LOW then sort_by (\<lambda>a b. not_above (getModelPrice a) (getModelPrice b)) models
      else if sortBy = SORT_PRICE_HIGH then sort_by (\<lambda>a b. not_above (getModelPrice b) (getModelPrice a)) models
      else models)"

text \<open>\<^verbatim>\<open>s.split(/[,;|\s]+/)\<close>: the pieces between maximal runs of separators.\<close>

definition is_tag_sep :: "int \<Rightarrow> bool" where
  "is_tag_sep c \<longleftrightarrow> c \<in> {44, 59, 124} \<or> is_ws c"

function split_runs :: "(int \<Rightarrow> bool) \<Rightarrow> jsstring \<Rightarrow> jsstring list" where
  "split_runs sep s =
     (let rest = dropWhile (\<lambda>c. \<not> sep c) s
      in takeWhile (\<lambda>c. \<not> sep c) s # (if rest = [] then [] else split_runs sep (dropWhile sep rest)))"
  by pat_completeness auto
termination
proof (relation "measure (\<lambda>(sep, s). length s)")
  fix sep :: "int \<Rightarrow> bool" and s rest
  assume rest: "rest = dropWhile (\<lambda>c. \<not> sep c) s" "rest \<noteq> []"
  then have "sep (hd rest)" using hd_dropWhile [of "\<lambda>c. \<not> sep c" s] by simp
  then have "length (dropWhile sep rest) < length rest"
    using rest(2) length_dropWhile_le [of sep "tl rest"] by (cases rest) (auto simp: less_Suc_eq_le)
  also have "\<dots> \<le> length s" using rest(1) by (simp add: length_dropWhile_le)
  finally show "((sep, dropWhile sep rest), sep, s) \<in> measure (\<lambda>(sep, s). length s)" by simp
qed simp

declare split_runs.simps [simp del]

definition parseTags :: "jsstring option \<Rightarrow> jsstring list" where
  "parseTags tagsString =
     (case tagsString of None \<Rightarrow> []
      | Some s \<Rightarrow> if s = [] then [] else filter (\<lambda>t. t \<noteq> []) (map trim (split_runs is_tag_sep s)))"

definition add_tag :: "conversion \<Rightarrow> (jsstring \<times> jsstring) list \<Rightarrow> jsstring \<Rightarrow> (jsstring \<times> jsstring) list" where
  "add_tag lower tagsByKey tg =
     (if lower tg \<in> set (map fst tagsByKey) then tagsByKey else tagsByKey @ [(lower tg, tg)])"

definition extractAllTags :: "conversion \<Rightarrow> collation \<Rightarrow> PricingModel list \<Rightarrow> jsstring list" where
  "extractAllTags lower cmp models =
     sort_by (\<lambda>a b. cmp a b \<le> 0)
       (map snd (foldl (\<lambda>acc m. foldl (add_tag lower) acc (parseTags (tags m))) [] models))"

definition has_tag :: "conversion \<Rightarrow> jsstring \<Rightarrow> PricingModel \<Rightarrow> bool" where
  "has_tag lower tg m \<longleftrightarrow> lower tg \<in> set (map lower (parseTags (tags m)))"

definition filterByTag :: "conversion \<Rightarrow> PricingModel list \<Rightarrow> jsstring \<Rightarrow> PricingModel list" where
  "filterByTag lower models tg =
     (if tg = FILTER_ALL then models
      else filter (\<lambda>m. case tags m of None \<Rightarrow> False | Some s \<Rightarrow> s \<noteq> [] \<and> has_tag lower tg m) models)"

record filter_values =
  fv_search :: jsstring
  fv_vendor :: jsstring
  fv_group :: jsstring
  fv_quotaType :: jsstring
  fv_endpointType :: jsstring
  fv_tag :: jsstring
  fv_sortBy :: jsstring

definition filterAndSortModels :: "conversion \<Rightarrow> collation \<Rightarrow> PricingModel list \<Rightarrow> filter_values \<Rightarrow> PricingModel list" where
  "filterAndSortModels lower cmp models f =
     (let result = filterBySearch lower models (fv_search f);
          result = filterByVendor result (fv_vendor f);
          result = filterByGroup result (fv_group f);
          result = filterByQuotaType result (fv_quotaType f);
          result = filterByEndpointType result (fv_endpointType f);
          result = filterByTag lower result (fv_tag f)
      in sortModels cmp result (fv_sortBy f))"

subsection \<open>The options of the sidebar\<close>

definition countBy :: "PricingModel list \<Rightarrow> (PricingModel \<Rightarrow> bool) \<Rightarrow> nat" where
  "countBy models p = foldl (\<lambda>count m. count + (if p m then 1 else 0)) 0 models"

definition vendorOptions :: "PricingModel list \<Rightarrow> jsstring list \<Rightarrow> (jsstring \<times> nat) list" where
  "vendorOptions models vendors =
     (FILTER_ALL, length models) #
     filter (\<lambda>(v, n). n > 0) (map (\<lambda>v. (v, countBy models (\<lambda>m. vendor_name m = Some v))) vendors)"

definition quotaOptions :: "PricingModel list \<Rightarrow> (jsstring \<times> nat) list" where
  "quotaOptions models =
     [(js ''all'', length models),
      (js ''token'', countBy models (\<lambda>m. num_eq (quota_type m) (Fin 0))),
      (js ''request'', countBy models (\<lambda>m. num_eq (quota_type m) (Fin 1))),
      (js ''hybrid'', countBy models (\<lambda>m. num_eq (quota_type m) (Fin 2)))]"

definition tagOptions :: "conversion \<Rightarrow> PricingModel list \<Rightarrow> jsstring list \<Rightarrow> (jsstring \<times> nat) list" where
  "tagOptions lower models tgs =
     (FILTER_ALL, length models) # map (\<lambda>tg. (tg, countBy models (has_tag lower tg))) tgs"

definition ENDPOINT_VALUES :: "jsstring list" where
  "ENDPOINT_VALUES = map js [''openai'', ''openai-response'', ''anthropic'', ''gemini'', ''jina-rerank'', ''image-generation'', ''embeddings'', ''openai-video'']"

definition endpointOptions :: "PricingModel list \<Rightarrow> (jsstring \<times> nat) list" where
  "endpointOptions models =
     (js ''all'', length models) #
     map (\<lambda>v. (v, countBy models (\<lambda>m. opt_member v (supported_endpoint_types m)))) ENDPOINT_VALUES"

subsection \<open>The state of the filters\<close>

definition FILTER_KEYS :: "jsstring list" where
  "FILTER_KEYS = map js [''search'', ''sort'', ''vendor'', ''group'', ''quotaType'', ''endpointType'', ''tag'', ''tokenUnit'', ''view'', ''rechargePrice'']"

definition initial_filters :: "jsval \<Rightarrow> jsval props" where
  "initial_filters search = map (\<lambda>k. (k, prop_of search k)) FILTER_KEYS"

text \<open>\<^verbatim>\<open>filterState[k] || d\<close>; the schema of the route lets only texts through.\<close>

definition choice :: "jsval props \<Rightarrow> string \<Rightarrow> jsstring \<Rightarrow> jsstring" where
  "choice p k d = (case val_or (val_at p (js k)) (JStr d) of JStr s \<Rightarrow> s | v \<Rightarrow> to_str v)"

definition updateFilters :: "jsval props \<Rightarrow> jsval props \<Rightarrow> jsval props" where
  "updateFilters updates prev = filter (\<lambda>(k, v). v \<noteq> JUndef \<and> v \<noteq> JNull) (props_assign (props_assign [] prev) updates)"

definition unless :: "jsstring \<Rightarrow> jsstring \<Rightarrow> jsval" where
  "unless d v = (if v = d then JUndef else JStr v)"

definition setSearchInput :: "jsstring \<Rightarrow> jsval props \<Rightarrow> jsval props" where
  "setSearchInput v = updateFilters [(js ''search'', unless [] v)]"

definition setSortBy :: "jsstring \<Rightarrow> jsval props \<Rightarrow> jsval props" where
  "setSortBy v = updateFilters [(js ''sort'', unless SORT_NAME v)]"

definition setVendorFilter :: "jsstring \<Rightarrow> jsval props \<Rightarrow> jsval props" where
  "setVendorFilter v = updateFilters [(js ''vendor'', unless FILTER_ALL v)]"

definition setGroupFilter :: "jsstring \<Rightarrow> jsval props \<Rightarrow> jsval props" where
  "setGroupFilter v = updateFilters [(js ''group'', unless FILTER_ALL v)]"

definition setQuotaTypeFilter :: "jsstring \<Rightarrow> jsval props \<Rightarrow> jsval props" where
  "setQuotaTypeFilter v = updateFilters [(js ''quotaType'', unless FILTER_ALL v)]"

definition setEndpointTypeFilter :: "jsstring \<Rightarrow> jsval props \<Rightarrow> jsval props" where
  "setEndpointTypeFilter v = updateFilters [(js ''endpointType'', unless FILTER_ALL v)]"

definition setTagFilter :: "jsstring \<Rightarrow> jsval props \<Rightarrow> jsval props" where
  "setTagFilter v = updateFilters [(js ''tag'', unless FILTER_ALL v)]"

definition setTokenUnit :: "jsstring \<Rightarrow> jsval props \<Rightarrow> jsval props" where
  "setTokenUnit v = updateFilters [(js ''tokenUnit'', unless (js ''M'') v)]"

definition setViewMode :: "jsstring \<Rightarrow> jsval props \<Rightarrow> jsval props" where
  "setViewMode v = updateFilters [(js ''view'', unless (js ''card'') v)]"

definition setShowRechargePrice :: "bool \<Rightarrow> jsval props \<Rightarrow> jsval props" where
  "setShowRechargePrice v = updateFilters [(js ''rechargePrice'', if v then JBool True else JUndef)]"

definition clearFilters :: "jsval props \<Rightarrow> jsval props" where
  "clearFilters = updateFilters (map (\<lambda>k. (js k, JUndef)) [''vendor'', ''group'', ''quotaType'', ''endpointType'', ''tag''])"

definition clearSearch :: "jsval props \<Rightarrow> jsval props" where
  "clearSearch = updateFilters [(js ''search'', JUndef)]"

definition tokenUnit :: "jsval props \<Rightarrow> string" where
  "tokenUnit p = (if val_at p (js ''tokenUnit'') = JStr (js ''K'') then ''K'' else ''M'')"

definition viewMode :: "jsval props \<Rightarrow> string" where
  "viewMode p = (if val_at p (js ''view'') = JStr (js ''table'') then ''table'' else ''card'')"

definition showRechargePrice :: "jsval props \<Rightarrow> bool" where
  "showRechargePrice p \<longleftrightarrow> val_at p (js ''rechargePrice'') = JBool True"

definition filter_state_values :: "jsval props \<Rightarrow> filter_values" where
  "filter_state_values p =
     \<lparr>fv_search = choice p ''search'' [], fv_vendor = choice p ''vendor'' FILTER_ALL, fv_group = choice p ''group'' FILTER_ALL,
      fv_quotaType = choice p ''quotaType'' FILTER_ALL, fv_endpointType = choice p ''endpointType'' FILTER_ALL,
      fv_tag = choice p ''tag'' FILTER_ALL, fv_sortBy = choice p ''sort'' SORT_NAME\<rparr>"

definition filteredModels :: "conversion \<Rightarrow> collation \<Rightarrow> PricingModel list \<Rightarrow> jsval props \<Rightarrow> PricingModel list" where
  "filteredModels lower cmp models p =
     (if models = [] then [] else filterAndSortModels lower cmp models (filter_state_values p))"

definition availableTags :: "conversion \<Rightarrow> collation \<Rightarrow> PricingModel list \<Rightarrow> jsstring list" where
  "availableTags lower cmp models = (if models = [] then [] else extractAllTags lower cmp models)"

definition narrowing :: "filter_values \<Rightarrow> bool list" where
  "narrowing f = [fv_vendor f \<noteq> FILTER_ALL, fv_group f \<noteq> FILTER_ALL, fv_quotaType f \<noteq> FILTER_ALL,
     fv_endpointType f \<noteq> FILTER_ALL, fv_tag f \<noteq> FILTER_ALL]"

definition hasActiveFilters :: "jsval props \<Rightarrow> bool" where
  "hasActiveFilters p = list_ex id (narrowing (filter_state_values p))"

definition activeFilterCount :: "jsval props \<Rightarrow> nat" where
  "activeFilterCount p = sum_list (map (\<lambda>b. if b then 1 else 0) (narrowing (filter_state_values p)))"

subsection \<open>The list is exactly what was asked for\<close>

text \<open>One predicate for all filters.\<close>

definition selected :: "conversion \<Rightarrow> filter_values \<Rightarrow> PricingModel \<Rightarrow> bool" where
  "selected lower f m \<longleftrightarrow>
     (fv_search f = [] \<or> search_hit lower (fv_search f) m) \<and>
     (fv_vendor f = FILTER_ALL \<or> vendor_name m = Some (fv_vendor f)) \<and>
     (fv_group f = FILTER_ALL \<or> opt_member (fv_group f) (enable_groups m)) \<and>
     (fv_quotaType f = FILTER_ALL \<or> num_eq (quota_type m) (target_type (fv_quotaType f))) \<and>
     (fv_endpointType f = FILTER_ALL \<or> opt_member (fv_endpointType f) (supported_endpoint_types m)) \<and>
     (fv_tag f = FILTER_ALL \<or> has_tag lower (fv_tag f) m)"

definition shown_order :: "collation \<Rightarrow> jsstring \<Rightarrow> PricingModel \<Rightarrow> PricingModel \<Rightarrow> bool" where
  "shown_order cmp sortBy a b \<longleftrightarrow>
     (if sortBy = SORT_NAME then name_le cmp a b
      else if sortBy = SORT_PRICE_LOW then not_above (getModelPrice a) (getModelPrice b)
      else if sortBy = SORT_PRICE_HIGH then not_above (getModelPrice b) (getModelPrice a)
      else True)"

lemma tag_guard: "(case tags m of None \<Rightarrow> False | Some s \<Rightarrow> s \<noteq> [] \<and> has_tag lower tg m) = has_tag lower tg m"
  by (auto simp: has_tag_def parseTags_def split: option.splits if_splits)

lemma one_filter:
  "filterBySearch lower ms q = filter (\<lambda>m. q = [] \<or> search_hit lower q m) ms"
  "filterByVendor ms v = filter (\<lambda>m. v = FILTER_ALL \<or> vendor_name m = Some v) ms"
  "filterByGroup ms v = filter (\<lambda>m. v = FILTER_ALL \<or> opt_member v (enable_groups m)) ms"
  "filterByQuotaType ms v = filter (\<lambda>m. v = FILTER_ALL \<or> num_eq (quota_type m) (target_type v)) ms"
  "filterByEndpointType ms v = filter (\<lambda>m. v = FILTER_ALL \<or> opt_member v (supported_endpoint_types m)) ms"
  "filterByTag lower ms v = filter (\<lambda>m. v = FILTER_ALL \<or> has_tag lower v m) ms"
  unfolding filterBySearch_def filterByVendor_def filterByGroup_def filterByQuotaType_def filterByEndpointType_def
    filterByTag_def tag_guard FILTER_ALL_def by simp_all

lemma filters_compose:
  "filterAndSortModels lower cmp models f = sortModels cmp (filter (selected lower f) models) (fv_sortBy f)"
proof -
  have "filter (selected lower f) models =
    filterByTag lower (filterByEndpointType (filterByQuotaType (filterByGroup (filterByVendor
      (filterBySearch lower models (fv_search f)) (fv_vendor f)) (fv_group f)) (fv_quotaType f)) (fv_endpointType f)) (fv_tag f)"
    unfolding one_filter filter_filter by (rule filter_cong) (auto simp: selected_def)
  then show ?thesis by (simp add: filterAndSortModels_def)
qed

lemma not_above_total: "not_above x y \<or> not_above y x"
  by (cases x; cases y) (auto simp: not_above_def)

lemma not_above_trans: "y \<noteq> NaN \<Longrightarrow> not_above x y \<Longrightarrow> not_above y z \<Longrightarrow> not_above x z"
  by (cases x; cases y; cases z) (auto simp: not_above_def)

text \<open>The prices that the engine compares, without NaN, are totally ordered.\<close>

interpretation price: key_order "{x. x \<noteq> NaN}" not_above getModelPrice
  by unfold_locales (auto simp: not_above_total intro: not_above_trans)

text \<open>What is relied on of the browser's collation: it is consistent.\<close>

definition consistent_collation :: "collation \<Rightarrow> bool" where
  "consistent_collation cmp \<longleftrightarrow> stable_order UNIV (\<lambda>a b. cmp a b \<le> 0)"

lemma name_order: "consistent_collation cmp \<Longrightarrow> stable_order UNIV (name_le cmp)"
  unfolding consistent_collation_def name_le_def stable_order_def by blast

lemma order_ok:
  assumes "consistent_collation cmp"
  shows "stable_order {m. getModelPrice m \<noteq> NaN} (shown_order cmp sortBy)"
proof -
  have "stable_order {m. getModelPrice m \<noteq> NaN} (name_le cmp)"
    using name_order [OF assms] unfolding stable_order_def by blast
  moreover have "stable_order {m. getModelPrice m \<noteq> NaN} (\<lambda>a b. True)" by unfold_locales simp_all
  moreover have "shown_order cmp sortBy =
      (if sortBy = SORT_NAME then name_le cmp
       else if sortBy = SORT_PRICE_LOW then (\<lambda>a b. not_above (getModelPrice a) (getModelPrice b))
       else if sortBy = SORT_PRICE_HIGH then (\<lambda>a b. not_above (getModelPrice b) (getModelPrice a))
       else (\<lambda>a b. True))"
    by (auto simp: shown_order_def fun_eq_iff)
  ultimately show ?thesis using price.by_key price.by_key_down by simp
qed

lemma sorts_by_shown: "sortModels cmp models sortBy = sort_by (shown_order cmp sortBy) models"
proof -
  have "insert_by (\<lambda>a b. True) x xs = x # xs" for x and xs :: "PricingModel list" by (cases xs) auto
  then have "sort_by (\<lambda>a b. True) models = models" by (induction models) simp_all
  then show ?thesis by (simp add: sortModels_def shown_order_def [abs_def])
qed

text \<open>C31: the model square shows exactly the models that satisfy every filter, each as often as it
  occurs, in the order that was asked for; models of the same rank keep their order, and every stable
  sorting algorithm gives the same list.\<close>

theorem model_square_exact:
  assumes "consistent_collation cmp" "\<forall>m\<in>set models. getModelPrice m \<noteq> NaN"
  shows "mset (filterAndSortModels lower cmp models f) = filter_mset (selected lower f) (mset models) \<and>
    sorted_wrt (shown_order cmp (fv_sortBy f)) (filterAndSortModels lower cmp models f) \<and>
    (\<forall>ys. set ys \<subseteq> set models \<longrightarrow> sorted_wrt (shown_order cmp (fv_sortBy f)) ys \<longrightarrow>
       (\<forall>m. getModelPrice m \<noteq> NaN \<longrightarrow> filter (same_rank (shown_order cmp (fv_sortBy f)) m) ys =
              filter (same_rank (shown_order cmp (fv_sortBy f)) m) (filter (selected lower f) models)) \<longrightarrow>
       ys = filterAndSortModels lower cmp models f)"
proof -
  note ord = order_ok [OF assms(1), of "fv_sortBy f"]
  have in_ord: "set (filter (selected lower f) models) \<subseteq> {m. getModelPrice m \<noteq> NaN}" using assms(2) by auto
  show ?thesis
    unfolding filters_compose sorts_by_shown
    using stable_order.sort_sorted [OF ord in_ord] stable_order.sort_unique [OF ord in_ord] assms(2)
    by (auto intro!: stable_order.sort_unique [OF ord in_ord])
qed

subsection \<open>Tags\<close>

definition tag_map_ok :: "conversion \<Rightarrow> (jsstring \<times> jsstring) list \<Rightarrow> bool" where
  "tag_map_ok lower acc \<longleftrightarrow> distinct (map fst acc) \<and> (\<forall>(k, t)\<in>set acc. k = lower t)"

definition tags_added :: "conversion \<Rightarrow> (jsstring \<times> jsstring) list \<Rightarrow> jsstring set \<Rightarrow> (jsstring \<times> jsstring) list \<Rightarrow> bool" where
  "tags_added lower acc ts acc' \<longleftrightarrow>
     tag_map_ok lower acc' \<and> set (map fst acc') = set (map fst acc) \<union> lower ` ts \<and>
     set (map snd acc') \<subseteq> set (map snd acc) \<union> ts"

lemma tags_added_trans:
  "tags_added lower acc ts acc' \<Longrightarrow> tags_added lower acc' us acc'' \<Longrightarrow> tags_added lower acc (ts \<union> us) acc''"
  unfolding tags_added_def image_Un by blast

lemma tags_added_fold: "tag_map_ok lower acc \<Longrightarrow> tags_added lower acc (set ts) (foldl (add_tag lower) acc ts)"
proof (induction ts arbitrary: acc)
  case (Cons t ts)
  have one: "tags_added lower acc {t} (add_tag lower acc t)"
    using Cons.prems by (auto simp: tags_added_def tag_map_ok_def add_tag_def)
  then have "tag_map_ok lower (add_tag lower acc t)" by (simp add: tags_added_def)
  from tags_added_trans [OF one Cons.IH [OF this]] show ?case by simp
qed (auto simp: tags_added_def)

definition model_tags :: "PricingModel list \<Rightarrow> jsstring set" where
  "model_tags models = (\<Union>m\<in>set models. set (parseTags (tags m)))"

lemma collected_tags:
  "tag_map_ok lower acc \<Longrightarrow>
   tags_added lower acc (model_tags models) (foldl (\<lambda>acc m. foldl (add_tag lower) acc (parseTags (tags m))) acc models)"
proof (induction models arbitrary: acc)
  case (Cons m models)
  have one: "tags_added lower acc (set (parseTags (tags m))) (foldl (add_tag lower) acc (parseTags (tags m)))"
    using Cons.prems by (rule tags_added_fold)
  then have "tag_map_ok lower (foldl (add_tag lower) acc (parseTags (tags m)))" by (simp add: tags_added_def)
  from tags_added_trans [OF one Cons.IH [OF this]] show ?case by (simp add: model_tags_def)
qed (simp add: tags_added_def model_tags_def)

text \<open>the tags on offer are tags of the models, one for each tag up to the case of letters, and
  none of them leads to an empty list.\<close>

theorem offered_tags_exact:
  "set (extractAllTags lower cmp models) \<subseteq> model_tags models \<and>
   lower ` set (extractAllTags lower cmp models) = lower ` model_tags models \<and>
   distinct (map lower (extractAllTags lower cmp models)) \<and>
   (\<forall>tg \<in> set (extractAllTags lower cmp models). filterByTag lower models tg \<noteq> [])"
proof -
  define acc where "acc = foldl (\<lambda>acc m. foldl (add_tag lower) acc (parseTags (tags m))) [] models"
  have "tag_map_ok lower []" by (simp add: tag_map_ok_def)
  then have "tags_added lower [] (model_tags models) acc" unfolding acc_def by (rule collected_tags)
  then have facts: "tag_map_ok lower acc" "set (map fst acc) = lower ` model_tags models" "set (map snd acc) \<subseteq> model_tags models"
    by (simp_all add: tags_added_def)
  have keys: "map fst acc = map lower (map snd acc)"
    using facts(1) by (auto simp: tag_map_ok_def)
  have T: "set (extractAllTags lower cmp models) = set (map snd acc)"
    "mset (extractAllTags lower cmp models) = mset (map snd acc)"
    by (simp_all only: extractAllTags_def acc_def set_sort_by mset_sort_by)
  have sub: "set (extractAllTags lower cmp models) \<subseteq> model_tags models" using facts(3) T(1) by simp
  have img: "lower ` set (extractAllTags lower cmp models) = lower ` model_tags models"
    using facts(2) keys T(1) by (simp add: image_image)
  have "mset (map lower (extractAllTags lower cmp models)) = mset (map fst acc)"
    unfolding keys using T(2) by (metis mset_map)
  then have dist: "distinct (map lower (extractAllTags lower cmp models))"
    using facts(1) unfolding tag_map_ok_def by (metis mset_eq_imp_distinct_iff)
  have "filterByTag lower models tg \<noteq> []" if offered: "tg \<in> set (extractAllTags lower cmp models)" for tg
  proof -
    obtain m where m: "m \<in> set models" "tg \<in> set (parseTags (tags m))"
      using offered sub unfolding model_tags_def by blast
    then have "has_tag lower tg m" by (simp add: has_tag_def)
    then have "m \<in> set (filterByTag lower models tg)" using m(1) by (simp add: filterByTag_def tag_guard)
    then show ?thesis by auto
  qed
  then show ?thesis using sub img dist by blast
qed
subsection \<open>The counts of the options\<close>

definition no_filter :: filter_values where
  "no_filter = \<lparr>fv_search = [], fv_vendor = FILTER_ALL, fv_group = FILTER_ALL, fv_quotaType = FILTER_ALL,
     fv_endpointType = FILTER_ALL, fv_tag = FILTER_ALL, fv_sortBy = SORT_NAME\<rparr>"

definition shown_count :: "conversion \<Rightarrow> collation \<Rightarrow> PricingModel list \<Rightarrow> filter_values \<Rightarrow> nat" where
  "shown_count lower cmp models f = length (filterAndSortModels lower cmp models f)"

lemma countBy_filter: "countBy models p = length (filter p models)"
proof -
  have "foldl (\<lambda>count m. count + (if p m then 1 else 0)) n models = n + length (filter p models)" for n
    by (induction models arbitrary: n) auto
  then show ?thesis by (simp add: countBy_def)
qed

lemma shown_count_filter: "shown_count lower cmp models f = length (filter (selected lower f) models)"
  by (simp add: shown_count_def filters_compose sorts_by_shown)

lemmas one_selected = shown_count_filter selected_def [abs_def] no_filter_def countBy_filter

text \<open>the number beside an option of the sidebar is the number of models that choosing it alone
  shows, provided that no vendor and no tag is called like the option for all.\<close>

theorem sidebar_counts_exact:
  assumes "FILTER_ALL \<notin> set vendors" "FILTER_ALL \<notin> set tgs"
  shows "(\<forall>(v, n) \<in> set (vendorOptions models vendors). shown_count lower cmp models (no_filter\<lparr>fv_vendor := v\<rparr>) = n) \<and>
    (\<forall>(v, n) \<in> set (quotaOptions models). shown_count lower cmp models (no_filter\<lparr>fv_quotaType := v\<rparr>) = n) \<and>
    (\<forall>(v, n) \<in> set (tagOptions lower models tgs). shown_count lower cmp models (no_filter\<lparr>fv_tag := v\<rparr>) = n) \<and>
    (\<forall>(v, n) \<in> set (endpointOptions models). shown_count lower cmp models (no_filter\<lparr>fv_endpointType := v\<rparr>) = n)"
proof (intro conjI)
  show "\<forall>(v, n) \<in> set (vendorOptions models vendors). shown_count lower cmp models (no_filter\<lparr>fv_vendor := v\<rparr>) = n"
    using assms(1) by (auto simp: vendorOptions_def one_selected intro!: arg_cong [where f = length] filter_cong)
  show "\<forall>(v, n) \<in> set (quotaOptions models). shown_count lower cmp models (no_filter\<lparr>fv_quotaType := v\<rparr>) = n"
    by (auto simp: quotaOptions_def one_selected target_type_def FILTER_ALL_def)
  show "\<forall>(v, n) \<in> set (tagOptions lower models tgs). shown_count lower cmp models (no_filter\<lparr>fv_tag := v\<rparr>) = n"
    using assms(2) by (auto simp: tagOptions_def one_selected intro!: arg_cong [where f = length] filter_cong)
  show "\<forall>(v, n) \<in> set (endpointOptions models). shown_count lower cmp models (no_filter\<lparr>fv_endpointType := v\<rparr>) = n"
    by (auto simp: endpointOptions_def one_selected ENDPOINT_VALUES_def FILTER_ALL_def)
qed

subsection \<open>Setting and clearing filters\<close>

definition filters_ok :: "jsval props \<Rightarrow> bool" where
  "filters_ok p \<longleftrightarrow> props_ok p"

lemma update_at:
  assumes "filters_ok p" "props_ok q"
  shows "val_at (updateFilters q p) k =
    (case props_get q k of Some v \<Rightarrow> if v = JNull then JUndef else v
     | None \<Rightarrow> if val_at p k = JNull then JUndef else val_at p k)"
proof -
  let ?r = "props_assign (props_assign [] p) q"
  have ok: "props_ok ?r" by (simp add: props_assign_ok)
  have "props_get ?r = props_get p ++ props_get q"
    using assms by (simp add: props_get_assign props_assign_ok filters_ok_def) (simp add: props_get_def)
  then show ?thesis
    using ok map_of_filter_val [of ?r "\<lambda>v. v \<noteq> JUndef \<and> v \<noteq> JNull" k]
    by (auto simp: updateFilters_def val_at_def props_get_def props_ok_def props_keys_def map_add_def split: option.splits)
qed

lemma update_ok: "filters_ok (updateFilters q p)"
proof -
  have "distinct (map fst (props_assign (props_assign [] p) q))"
    using props_assign_ok [of "props_assign [] p" q] props_assign_ok [of "[]" p] by (simp add: props_ok_def props_keys_def)
  then show ?thesis
    by (simp add: filters_ok_def updateFilters_def props_ok_def props_keys_def distinct_map_filter)
qed

lemma update_choice:
  assumes "filters_ok p" "props_ok q"
  shows "choice (updateFilters q p) k d =
    (case props_get q (js k) of Some v \<Rightarrow> (case val_or v (JStr d) of JStr s \<Rightarrow> s | w \<Rightarrow> to_str w) | None \<Rightarrow> choice p k d)"
  by (auto simp: choice_def update_at [OF assms] val_or_def split: option.split)

definition filter_setters :: "((jsstring \<Rightarrow> jsval props \<Rightarrow> jsval props) \<times> string \<times> jsstring) list" where
  "filter_setters =
     [(setSearchInput, ''search'', []), (setSortBy, ''sort'', SORT_NAME), (setVendorFilter, ''vendor'', FILTER_ALL),
      (setGroupFilter, ''group'', FILTER_ALL), (setQuotaTypeFilter, ''quotaType'', FILTER_ALL),
      (setEndpointTypeFilter, ''endpointType'', FILTER_ALL), (setTagFilter, ''tag'', FILTER_ALL)]"

lemma setter_update: "(setter, k, d) \<in> set filter_setters \<Longrightarrow> setter v p = updateFilters [(js k, unless d v)] p"
  by (auto simp: filter_setters_def setSearchInput_def setSortBy_def setVendorFilter_def setGroupFilter_def
      setQuotaTypeFilter_def setEndpointTypeFilter_def setTagFilter_def)

text \<open>choosing a value for a filter makes exactly that filter have that value; the empty text counts
  as the default. Clearing the filters leaves none active and keeps search and order, and with the
  search cleared too every model is shown.\<close>

theorem filters_set_and_cleared:
  assumes ok: "filters_ok p" and setter: "(setter, k, d) \<in> set filter_setters"
  shows "choice (setter v p) k d = (if v = [] then d else v) \<and>
    (\<forall>k' d'. k' \<noteq> k \<longrightarrow> choice (setter v p) k' d' = choice p k' d') \<and>
    activeFilterCount (clearFilters p) = 0 \<and> choice (clearFilters p) ''search'' [] = choice p ''search'' [] \<and>
    choice (clearFilters p) ''sort'' SORT_NAME = choice p ''sort'' SORT_NAME \<and>
    mset (filteredModels lower cmp models (clearSearch (clearFilters p))) = mset models"
proof -
  have one: "props_ok [(js k, w)]" for w :: jsval by (simp add: props_ok_def props_keys_def)
  have set: "choice (setter v p) k d = (if v = [] then d else v)"
    using setter by (auto simp: setter_update [OF setter] update_choice [OF ok one] props_get_def unless_def val_or_def
        filter_setters_def FILTER_ALL_def SORT_NAME_def)
  have other: "choice (setter v p) k' d' = choice p k' d'" if "k' \<noteq> k" for k' d'
    using that by (simp add: setter_update [OF setter] update_choice [OF ok one] props_get_def)
  let ?c = "clearFilters p"
  have five: "props_ok (map (\<lambda>k. (js k, JUndef)) [''vendor'', ''group'', ''quotaType'', ''endpointType'', ''tag''])"
    by (simp add: props_ok_def props_keys_def)
  have cleared: "choice ?c k d = (if k \<in> {''vendor'', ''group'', ''quotaType'', ''endpointType'', ''tag''} then d else choice p k d)" for k d
    unfolding clearFilters_def update_choice [OF ok five] by (simp add: props_get_def val_or_def)
  have search: "choice (clearSearch ?c) k d = (if k = ''search'' then d else choice ?c k d)" for k d
    unfolding clearSearch_def clearFilters_def
    by (subst update_choice [OF update_ok]) (simp_all add: props_get_def val_or_def props_ok_def props_keys_def)
  have "selected lower (filter_state_values (clearSearch ?c)) = (\<lambda>m. True)"
    by (simp add: selected_def [abs_def] filter_state_values_def search cleared)
  then have "mset (filteredModels lower cmp models (clearSearch ?c)) = mset models"
    by (simp add: filteredModels_def filters_compose sorts_by_shown)
  then show ?thesis
    using set other by (simp add: activeFilterCount_def narrowing_def filter_state_values_def cleared)
qed

lemma active_filters_counted: "hasActiveFilters p \<longleftrightarrow> activeFilterCount p > 0"
  by (simp add: hasActiveFilters_def activeFilterCount_def narrowing_def)

subsection \<open>Examples\<close>

definition sample_model :: "string \<Rightarrow> string \<Rightarrow> rat \<Rightarrow> PricingModel" where
  "sample_model n tg r = \<lparr>model_name = Some (js n), description = None, vendor_name = Some (js ''v''), quota_type = Fin 0,
     model_ratio = Fin r, model_price = None, enable_groups = Some [js ''default''], tags = Some (js tg), supported_endpoint_types = None\<rparr>"

definition sample_square :: "PricingModel list" where
  "sample_square = [sample_model ''b'' ''Chat, fast'' 2, sample_model ''a'' ''chat'' 1, sample_model ''c'' ''all'' 3]"

definition length_order :: collation where
  "length_order a b = int (length a) - int (length b)"

lemma length_order_consistent: "consistent_collation length_order"
  unfolding consistent_collation_def by unfold_locales (auto simp: length_order_def)

lemma model_square_exact_witness:
  "map model_name (filterAndSortModels ascii_lower length_order sample_square
     (no_filter\<lparr>fv_tag := js ''CHAT'', fv_sortBy := SORT_PRICE_LOW\<rparr>)) = [Some (js ''a''), Some (js ''b'')] \<and>
   sorted_wrt (shown_order length_order SORT_PRICE_LOW) (filterAndSortModels ascii_lower length_order sample_square
     (no_filter\<lparr>fv_tag := js ''CHAT'', fv_sortBy := SORT_PRICE_LOW\<rparr>))"
proof -
  have "\<forall>m\<in>set sample_square. getModelPrice m \<noteq> NaN" by code_simp
  then have "sorted_wrt (shown_order length_order SORT_PRICE_LOW) (filterAndSortModels ascii_lower length_order sample_square
     (no_filter\<lparr>fv_tag := js ''CHAT'', fv_sortBy := SORT_PRICE_LOW\<rparr>))"
    using model_square_exact [OF length_order_consistent, of sample_square ascii_lower "no_filter\<lparr>fv_tag := js ''CHAT'', fv_sortBy := SORT_PRICE_LOW\<rparr>"]
    by simp
  moreover have "map model_name (filterAndSortModels ascii_lower length_order sample_square
     (no_filter\<lparr>fv_tag := js ''CHAT'', fv_sortBy := SORT_PRICE_LOW\<rparr>)) = [Some (js ''a''), Some (js ''b'')]" by code_simp
  ultimately show ?thesis by blast
qed

lemma offered_tags_exact_witness: "filterByTag ascii_lower sample_square (js ''fast'') \<noteq> []"
proof -
  have "js ''fast'' \<in> set (extractAllTags ascii_lower length_order sample_square)" by code_simp
  then show ?thesis using offered_tags_exact [of ascii_lower length_order sample_square] by blast
qed

lemma sidebar_counts_exact_witness:
  "shown_count ascii_lower length_order sample_square (no_filter\<lparr>fv_vendor := js ''v''\<rparr>) = 3"
proof -
  have "(js ''v'', 3) \<in> set (vendorOptions sample_square [js ''v'', js ''w''])" by code_simp
  moreover have "FILTER_ALL \<notin> set [js ''v'', js ''w'']" by (simp add: FILTER_ALL_def)
  ultimately show ?thesis
    using sidebar_counts_exact [of "[js ''v'', js ''w'']" "[]" sample_square ascii_lower length_order] by fastforce
qed

lemma filters_set_and_cleared_witness:
  "choice (setVendorFilter (js ''v'') (initial_filters (JObj []))) ''vendor'' FILTER_ALL = js ''v''"
proof -
  have "filters_ok (initial_filters (JObj []))" by code_simp
  moreover have "(setVendorFilter, ''vendor'', FILTER_ALL) \<in> set filter_setters" by (simp add: filter_setters_def)
  ultimately show ?thesis
    using filters_set_and_cleared [of "initial_filters (JObj [])" setVendorFilter "''vendor''" FILTER_ALL "js ''v''"] by simp
qed

text \<open>A tag that is called like the option for all is offered with its count, but choosing it shows
  every model.\<close>

lemma tag_named_all:
  "(js ''all'', 1) \<in> set (tagOptions ascii_lower sample_square (availableTags ascii_lower length_order sample_square))"
  "shown_count ascii_lower length_order sample_square (no_filter\<lparr>fv_tag := js ''all''\<rparr>) = 3"
  by code_simp+

end
