(* ===== verification/Notifications.thy ===== *)
theory Notifications
  imports JS_Json "HOL-Library.Word"
begin

text \<open>
  The notification centre: the notice and the announcements of the server and which of them the user
  has read, \<^verbatim>\<open>hooks/use-notifications.ts\<close>, and the store of the read marks, \<^verbatim>\<open>stores/notification-store.ts\<close>.

  An announcement without an identifier is recognised by a hash of its text. The hash is computed on
  doubles that \<^verbatim>\<open><<\<close> and \<^verbatim>\<open>|\<close> cut to 32 bits: between the two the code subtracts and adds exactly, since
  the numbers are far below \<open>2 ^ 53\<close>. The model keeps the 32 bits as a word and the sum as an integer.
  \<^verbatim>\<open>None\<close> stands for a thrown \<^verbatim>\<open>TypeError\<close>. The persistence of the store belongs to its library; today's
  date is a parameter.
\<close>

unbundle bit_operations_syntax

subsection \<open>The hash\<close>

definition hash_step :: "32 word \<Rightarrow> int \<Rightarrow> 32 word" where
  "hash_step hash chr = word_of_int (sint (push_bit 5 hash) - sint hash + chr)"

text \<open>\<^verbatim>\<open>n.toString(36)\<close> of an integer.\<close>

definition digit36 :: "int \<Rightarrow> int" where
  "digit36 d = (if d < 10 then 48 + d else 87 + d)"

function nat_str36 :: "int \<Rightarrow> jsstring" where
  "nat_str36 n = (if n < 36 then [digit36 n] else nat_str36 (n div 36) @ [digit36 (n mod 36)])"
  by pat_completeness auto
termination
  by (relation "measure nat") auto

declare nat_str36.simps [simp del]

definition int_str36 :: "int \<Rightarrow> jsstring" where
  "int_str36 n = (if n < 0 then 45 # nat_str36 (- n) else nat_str36 n)"

definition hashString :: "jsstring \<Rightarrow> jsstring" where
  "hashString input = (if input = [] then js ''0'' else int_str36 (sint (foldl hash_step 0 input)))"

subsection \<open>Keys of announcements\<close>

text \<open>\<^verbatim>\<open>((v as string) || '').trim()\<close>\<close>

definition trimmed_field :: "jsval \<Rightarrow> jsval option" where
  "trimmed_field v = (case val_or v (JStr []) of JStr s \<Rightarrow> Some (JStr (trim s)) | _ \<Rightarrow> None)"

definition fingerprint :: "jsval \<Rightarrow> jsstring option" where
  "fingerprint item =
     (case (trimmed_field (prop_of item (js ''content'')), trimmed_field (prop_of item (js ''extra'')),
            trimmed_field (prop_of item (js ''title'')), trimmed_field (prop_of item (js ''link''))) of
        (Some content, Some extra, Some title, Some link) \<Rightarrow>
          Some (json_stringify (JObj
            [(js ''publishDate'', val_or (prop_of item (js ''publishDate'')) (JStr [])),
             (js ''content'', content), (js ''extra'', extra),
             (js ''type'', val_or (prop_of item (js ''type'')) (JStr [])),
             (js ''title'', title), (js ''link'', link)]))
      | _ \<Rightarrow> None)"

definition getAnnouncementKey :: "jsval \<Rightarrow> jsstring option" where
  "getAnnouncementKey item =
     (let id = prop_of item (js ''id'')
      in if \<not> truthy item then Some []
         else if id \<noteq> JUndef \<and> id \<noteq> JNull then (if str_throws id then None else Some (js ''id:'' @ to_str id))
         else map_option (\<lambda>f. js ''hash:'' @ hashString f) (fingerprint item))"

subsection \<open>The store\<close>

record notification_store =
  lastReadNotice :: jsstring
  readAnnouncementKeys :: "jsstring list"
  closedUntilDate :: "jsstring option"

definition initial_store :: notification_store where
  "initial_store = \<lparr>lastReadNotice = [], readAnnouncementKeys = [], closedUntilDate = None\<rparr>"

definition markNoticeRead :: "jsstring \<Rightarrow> notification_store \<Rightarrow> notification_store" where
  "markNoticeRead noticeContent st = st\<lparr>lastReadNotice := trim noticeContent\<rparr>"

definition markAnnouncementsRead :: "jsstring list \<Rightarrow> notification_store \<Rightarrow> notification_store" where
  "markAnnouncementsRead keys st = st\<lparr>readAnnouncementKeys := uniq (readAnnouncementKeys st @ keys)\<rparr>"

definition setClosedUntilDate :: "jsstring option \<Rightarrow> notification_store \<Rightarrow> notification_store" where
  "setClosedUntilDate date st = st\<lparr>closedUntilDate := date\<rparr>"

definition isAnnouncementRead :: "notification_store \<Rightarrow> jsstring \<Rightarrow> bool" where
  "isAnnouncementRead st key \<longleftrightarrow> key \<in> set (readAnnouncementKeys st)"

definition isNoticeClosed :: "jsstring \<Rightarrow> notification_store \<Rightarrow> bool" where
  "isNoticeClosed today st = (case closedUntilDate st of None \<Rightarrow> False | Some d \<Rightarrow> d \<noteq> [] \<and> d = today)"

subsection \<open>The hook\<close>

text \<open>What the server sent: the reply to the notice request and the status object, undefined while
  they are loading.\<close>

record server_data =
  noticeResponse :: jsval
  status :: jsval

text \<open>\<^verbatim>\<open>slice\<close> is a method of arrays and texts only, and \<^verbatim>\<open>filter\<close> one of arrays only.\<close>

definition announcements :: "server_data \<Rightarrow> jsval list option" where
  "announcements d =
     (if truthy (prop_of (status d) (js ''announcements_enabled''))
      then (case val_or (prop_of (status d) (js ''announcements'')) (JArr []) of
              JArr xs \<Rightarrow> Some (take 20 xs) | _ \<Rightarrow> None)
      else Some [])"

definition noticeContent :: "server_data \<Rightarrow> jsstring option" where
  "noticeContent d =
     (if truthy (prop_of (noticeResponse d) (js ''success''))
      then (case val_or (prop_of (noticeResponse d) (js ''data'')) (JStr []) of JStr s \<Rightarrow> Some (trim s) | _ \<Rightarrow> None)
      else Some [])"

text \<open>What a rendering of the hook works on: the notice and the keys of the announcements. There is
  none when the data makes it throw.\<close>

record rendered =
  r_notice :: jsstring
  r_keys :: "jsstring list"

definition render :: "server_data \<Rightarrow> rendered option" where
  "render d =
     (case (noticeContent d, announcements d) of
        (Some notice, Some items) \<Rightarrow>
          if list_all (\<lambda>i. getAnnouncementKey i \<noteq> None) items
          then Some \<lparr>r_notice = notice, r_keys = map (\<lambda>i. the (getAnnouncementKey i)) items\<rparr> else None
      | _ \<Rightarrow> None)"

record unread_counts =
  u_notice :: nat
  u_announcements :: nat
  u_total :: nat

definition unreadCounts :: "rendered \<Rightarrow> notification_store \<Rightarrow> unread_counts" where
  "unreadCounts r st =
     (let noticeUnread = (if r_notice r \<noteq> [] \<and> r_notice r \<noteq> lastReadNotice st then 1 else 0);
          announcementsUnread = length (filter (\<lambda>key. \<not> isAnnouncementRead st key) (r_keys r))
      in \<lparr>u_notice = noticeUnread, u_announcements = announcementsUnread, u_total = noticeUnread + announcementsUnread\<rparr>)"

datatype center_tab = NoticeTab | AnnouncementsTab

record center =
  popoverOpen :: bool
  activeTab :: center_tab
  store :: notification_store

definition initial_center :: "notification_store \<Rightarrow> center" where
  "initial_center st = \<lparr>popoverOpen = False, activeTab = NoticeTab, store = st\<rparr>"

definition markAnnouncementsAsRead :: "rendered \<Rightarrow> center \<Rightarrow> center" where
  "markAnnouncementsAsRead r c = (if r_keys r \<noteq> [] then c\<lparr>store := markAnnouncementsRead (r_keys r) (store c)\<rparr> else c)"

definition handleOpenPopover :: "rendered \<Rightarrow> center_tab option \<Rightarrow> center \<Rightarrow> center" where
  "handleOpenPopover r tb c =
     (let nextTab = (case tb of Some t \<Rightarrow> t | None \<Rightarrow> activeTab c);
          c1 = (if r_notice r \<noteq> [] then c\<lparr>store := markNoticeRead (r_notice r) (store c)\<rparr> else c);
          c2 = (if nextTab = AnnouncementsTab then markAnnouncementsAsRead r c1 else c1)
      in c2\<lparr>activeTab := nextTab, popoverOpen := True\<rparr>)"

definition closePopover :: "center \<Rightarrow> center" where
  "closePopover c = c\<lparr>popoverOpen := False\<rparr>"

definition handlePopoverOpenChange :: "rendered \<Rightarrow> bool \<Rightarrow> center \<Rightarrow> center" where
  "handlePopoverOpenChange r opens c = (if opens then handleOpenPopover r (Some (activeTab c)) c else closePopover c)"

definition handleTabChange :: "rendered \<Rightarrow> center_tab \<Rightarrow> center \<Rightarrow> center" where
  "handleTabChange r t c =
     (let c1 = c\<lparr>activeTab := t\<rparr> in if t = AnnouncementsTab then markAnnouncementsAsRead r c1 else c1)"

text \<open>A step is an event under the data that is rendered at that moment.\<close>

inductive center_step :: "rendered \<Rightarrow> center \<Rightarrow> center \<Rightarrow> bool" where
  step_open: "center_step r c (handleOpenPopover r tb c)"
| step_change: "center_step r c (handlePopoverOpenChange r opens c)"
| step_tab: "center_step r c (handleTabChange r t c)"
| step_close: "center_step r c (closePopover c)"
| step_date: "center_step r c (c\<lparr>store := setClosedUntilDate date (store c)\<rparr>)"

inductive center_reach :: "center \<Rightarrow> center \<Rightarrow> bool" for c0 where
  center_start: "center_reach c0 c0"
| center_next: "center_reach c0 c \<Longrightarrow> center_step r c c' \<Longrightarrow> center_reach c0 c'"

inductive_cases center_stepE: "center_step r c c'"

subsection \<open>The hash is a polynomial modulo \<open>2 ^ 32\<close>\<close>

text \<open>The reference: the usual polynomial in 31, reduced once at the end.\<close>

fun poly31 :: "int list \<Rightarrow> int" where
  "poly31 [] = 0"
| "poly31 (c # cs) = c * 31 ^ length cs + poly31 cs"

lemma hash_step_word: "hash_step h c = 31 * h + word_of_int c"
proof -
  have "hash_step h c = word_of_int (sint (push_bit 5 h)) - word_of_int (sint h) + word_of_int c"
    by (simp add: hash_step_def)
  also have "\<dots> = 32 * h - h + word_of_int c"
    by (simp add: push_bit_eq_mult)
  finally show ?thesis by (simp add: algebra_simps)
qed

lemma hash_fold: "foldl hash_step h s = h * 31 ^ length s + word_of_int (poly31 s)"
proof (induction s arbitrary: h)
  case (Cons c s)
  show ?case unfolding foldl.simps Cons.IH by (simp add: hash_step_word algebra_simps)
qed simp

lemma word_eq_mod: "(word_of_int a :: 32 word) = word_of_int b \<longleftrightarrow> a mod 2 ^ 32 = b mod 2 ^ 32"
  by (simp add: word_of_int_eq_iff take_bit_eq_mod)

lemma sint_inj: "sint (v :: 32 word) = sint w \<Longrightarrow> v = w"
  by (drule arg_cong [where f = "word_of_int :: int \<Rightarrow> 32 word"]) simp

lemma digit36_inj: "0 \<le> a \<Longrightarrow> a < 36 \<Longrightarrow> 0 \<le> b \<Longrightarrow> b < 36 \<Longrightarrow> digit36 a = digit36 b \<Longrightarrow> a = b"
  by (simp add: digit36_def split: if_splits)

lemma nat_str36_nonempty [simp]: "nat_str36 n \<noteq> []" "[] \<noteq> nat_str36 n"
  by (simp_all add: nat_str36.simps [of n])

lemma nat_str36_inj: "0 \<le> m \<Longrightarrow> 0 \<le> n \<Longrightarrow> nat_str36 m = nat_str36 n \<Longrightarrow> m = n"
proof (induction m arbitrary: n rule: nat_str36.induct)
  case (1 m)
  show ?case
  proof (cases "m < 36 \<or> n < 36")
    case True
    then show ?thesis
      using "1.prems" digit36_inj [of m n] by (auto simp: nat_str36.simps [of m] nat_str36.simps [of n] split: if_splits)
  next
    case False
    then have "nat_str36 (m div 36) = nat_str36 (n div 36)" "digit36 (m mod 36) = digit36 (n mod 36)"
      using "1.prems"(3) by (simp_all add: nat_str36.simps [of m] nat_str36.simps [of n])
    then have "m div 36 = n div 36" "m mod 36 = n mod 36"
      using "1.IH" [of "n div 36"] False "1.prems" digit36_inj [of "m mod 36" "n mod 36"] by auto
    then show ?thesis by (metis div_mult_mod_eq)
  qed
qed

lemma nat_str36_hd: "0 \<le> n \<Longrightarrow> hd (nat_str36 n) \<noteq> 45"
proof (induction n rule: nat_str36.induct)
  case (1 n)
  then show ?case by (auto simp: nat_str36.simps [of n] digit36_def)
qed

lemma int_str36_inj: "int_str36 m = int_str36 n \<Longrightarrow> m = n"
  using nat_str36_hd [of m] nat_str36_hd [of n] nat_str36_inj [of m n] nat_str36_inj [of "- m" "- n"]
  by (cases "nat_str36 m"; cases "nat_str36 n") (auto simp: int_str36_def split: if_splits)

lemma hashString_fold: "hashString s = int_str36 (sint (foldl hash_step 0 s))"
  by (cases s) (simp_all add: hashString_def int_str36_def nat_str36.simps [of 0] digit36_def js_def)

text \<open>C32: the hash is the polynomial of the code units in 31, cut to 32 bits and read with its sign,
  and two texts have the same hash exactly when their
  polynomials agree modulo \<open>2 ^ 32\<close>.\<close>

theorem hash_is_polynomial:
  "hashString s = int_str36 (sint (word_of_int (poly31 s) :: 32 word)) \<and>
   (hashString s = hashString t \<longleftrightarrow> poly31 s mod 2 ^ 32 = poly31 t mod 2 ^ 32)"
proof -
  have h: "hashString u = int_str36 (sint (word_of_int (poly31 u) :: 32 word))" for u
    by (simp add: hashString_fold hash_fold)
  have "hashString s = hashString t \<longleftrightarrow> (word_of_int (poly31 s) :: 32 word) = word_of_int (poly31 t)"
    unfolding h using int_str36_inj sint_inj by metis
  then show ?thesis using h [of s] word_eq_mod by simp
qed

subsection \<open>Read marks\<close>

text \<open>What the centre relies on: marking keys makes exactly these read, besides what was read.\<close>

locale read_marks =
  fixes mark :: "'k list \<Rightarrow> 's \<Rightarrow> 's" and is_read :: "'s \<Rightarrow> 'k \<Rightarrow> bool"
  assumes is_read_mark: "is_read (mark ks s) k \<longleftrightarrow> k \<in> set ks \<or> is_read s k"
begin

definition unread :: "'k list \<Rightarrow> 's \<Rightarrow> nat" where
  "unread ks s = length (filter (\<lambda>k. \<not> is_read s k) ks)"

lemma unread_none: "unread ks s = 0 \<longleftrightarrow> (\<forall>k\<in>set ks. is_read s k)"
  by (simp add: unread_def filter_empty_conv)

lemma unread_marked: "unread ks (mark ks s) = 0"
  by (simp add: unread_none is_read_mark)

lemma unread_antimono: "(\<And>k. is_read s k \<Longrightarrow> is_read s' k) \<Longrightarrow> unread ks s' \<le> unread ks s"
  unfolding unread_def by (induction ks) auto

lemma unread_mark_le: "unread ks (mark ks' s) \<le> unread ks s"
  by (rule unread_antimono) (simp add: is_read_mark)

end

interpretation marks: read_marks markAnnouncementsRead isAnnouncementRead
  by unfold_locales (auto simp: isAnnouncementRead_def markAnnouncementsRead_def uq.dedup_set)

lemma unread_counts:
  "unreadCounts r st =
     (let n = (if r_notice r \<noteq> [] \<and> r_notice r \<noteq> lastReadNotice st then 1 else 0)
      in \<lparr>u_notice = n, u_announcements = marks.unread (r_keys r) st, u_total = n + marks.unread (r_keys r) st\<rparr>)"
  by (simp add: unreadCounts_def marks.unread_def Let_def)

lemma rendered_notice_trimmed: "render d = Some r \<Longrightarrow> trim (r_notice r) = r_notice r"
  by (auto simp: render_def noticeContent_def split: option.splits if_splits jsval.splits)

lemma opened_store:
  "store (handleOpenPopover r tb c) =
     (let st = (if r_notice r \<noteq> [] then markNoticeRead (r_notice r) (store c) else store c)
      in if (case tb of Some t \<Rightarrow> t | None \<Rightarrow> activeTab c) = AnnouncementsTab \<and> r_keys r \<noteq> []
         then markAnnouncementsRead (r_keys r) st else st)"
  by (simp add: handleOpenPopover_def markAnnouncementsAsRead_def Let_def)

lemma notice_mark [simp]:
  "marks.unread ks (markNoticeRead n st) = marks.unread ks st"
  "lastReadNotice (markAnnouncementsRead ks st) = lastReadNotice st"
  "lastReadNotice (markNoticeRead n st) = trim n"
  by (simp_all add: marks.unread_def isAnnouncementRead_def markNoticeRead_def markAnnouncementsRead_def)

lemma unread_Nil [simp]: "marks.unread [] st = 0"
  by (simp add: marks.unread_def)

text \<open>opening the notification centre marks what it shows: on the tab of the announcements nothing
  stays unread, on the tab of the notice only the announcements do, as many as before.\<close>

theorem opening_marks_shown:
  assumes "render d = Some r"
  shows "unreadCounts r (store (handleOpenPopover r (Some AnnouncementsTab) c)) = \<lparr>u_notice = 0, u_announcements = 0, u_total = 0\<rparr> \<and>
    unreadCounts r (store (handleOpenPopover r (Some NoticeTab) c)) =
      (let n = u_announcements (unreadCounts r (store c)) in \<lparr>u_notice = 0, u_announcements = n, u_total = n\<rparr>)"
  using rendered_notice_trimmed [OF assms]
  by (simp add: unread_counts opened_store Let_def marks.unread_marked)

definition still_read :: "center \<Rightarrow> center \<Rightarrow> bool" where
  "still_read c c' \<longleftrightarrow> (\<forall>k. isAnnouncementRead (store c) k \<longrightarrow> isAnnouncementRead (store c') k)"

lemma mark_keeps [simp]: "isAnnouncementRead (markNoticeRead n st) k = isAnnouncementRead st k"
  by (simp add: isAnnouncementRead_def markNoticeRead_def)

lemma tab_store:
  "store (handleTabChange r t c) =
     (if t = AnnouncementsTab \<and> r_keys r \<noteq> [] then markAnnouncementsRead (r_keys r) (store c) else store c)"
  by (simp add: handleTabChange_def markAnnouncementsAsRead_def Let_def)

lemma date_keeps [simp]: "isAnnouncementRead (setClosedUntilDate date st) k = isAnnouncementRead st k"
  by (simp add: isAnnouncementRead_def setClosedUntilDate_def)

lemma step_still_read: "center_step r c c' \<Longrightarrow> still_read c c'"
  by (erule center_stepE)
    (auto simp: still_read_def opened_store tab_store handlePopoverOpenChange_def closePopover_def marks.is_read_mark Let_def)

lemma step_distinct:
  "center_step r c c' \<Longrightarrow> distinct (readAnnouncementKeys (store c)) \<Longrightarrow> distinct (readAnnouncementKeys (store c'))"
  by (erule center_stepE)
    (auto simp: opened_store tab_store handlePopoverOpenChange_def closePopover_def setClosedUntilDate_def
      markNoticeRead_def markAnnouncementsRead_def uq.dedup_distinct Let_def)

text \<open>C33: whatever the user does and whatever the server sends meanwhile, an announcement that was read
  stays read, no number of unread announcements grows, and no key is kept twice.\<close>

theorem read_stays_read:
  assumes "center_reach c0 c" "distinct (readAnnouncementKeys (store c0))"
  shows "still_read c0 c \<and> distinct (readAnnouncementKeys (store c)) \<and>
    u_announcements (unreadCounts r (store c)) \<le> u_announcements (unreadCounts r (store c0))"
proof -
  have "still_read c0 c \<and> distinct (readAnnouncementKeys (store c))"
    using assms
  proof (induction rule: center_reach.induct)
    case (center_next c r c')
    then show ?case using step_still_read [of r c c'] step_distinct [of r c c'] by (auto simp: still_read_def)
  qed (simp add: still_read_def)
  then show ?thesis
    using marks.unread_antimono [of "store c0" "store c" "r_keys r"]
    by (simp add: still_read_def unread_counts Let_def)
qed

subsection \<open>Examples and a collision\<close>

definition sample_announcement :: "string \<Rightarrow> jsval" where
  "sample_announcement content = JObj [(js ''content'', JStr (js content)), (js ''type'', JStr (js ''default''))]"

definition sample_server :: server_data where
  "sample_server = \<lparr>noticeResponse = JObj [(js ''success'', JBool True), (js ''data'', JStr (js '' Hello ''))],
     status = JObj [(js ''announcements_enabled'', JBool True),
       (js ''announcements'', JArr [JObj [(js ''id'', JNum (Fin 7))], sample_announcement ''Aa''])]\<rparr>"

definition sample_rendered :: rendered where
  "sample_rendered = the (render sample_server)"

lemma opening_marks_shown_witness:
  "u_total (unreadCounts sample_rendered initial_store) = 3 \<and>
   u_total (unreadCounts sample_rendered
     (store (handleOpenPopover sample_rendered (Some AnnouncementsTab) (initial_center initial_store)))) = 0"
proof -
  have "render sample_server = Some sample_rendered" unfolding sample_rendered_def by code_simp
  moreover have "u_total (unreadCounts sample_rendered initial_store) = 3" by code_simp
  ultimately show ?thesis
    using opening_marks_shown [of sample_server sample_rendered "initial_center initial_store"] by simp
qed

lemma read_stays_read_witness:
  "u_announcements (unreadCounts sample_rendered (store (closePopover (handleTabChange sample_rendered AnnouncementsTab (initial_center initial_store))))) \<le> 2"
proof -
  have "center_reach (initial_center initial_store) (closePopover (handleTabChange sample_rendered AnnouncementsTab (initial_center initial_store)))"
    by (rule center_next [OF center_next [OF center_start step_tab] step_close])
  moreover have "distinct (readAnnouncementKeys (store (initial_center initial_store)))" by (simp add: initial_center_def initial_store_def)
  moreover have "u_announcements (unreadCounts sample_rendered (store (initial_center initial_store))) = 2" by code_simp
  ultimately show ?thesis using read_stays_read [of "initial_center initial_store" _ sample_rendered] by fastforce
qed

text \<open>Two announcements with different texts and the same hash: once the first is read the second
  never counts as unread.\<close>

lemma announcement_collision:
  "getAnnouncementKey (sample_announcement ''Aa'') = getAnnouncementKey (sample_announcement ''BB'')"
  by code_simp

end
