(* ===== verification/DashboardCharts.thy ===== *)
theory DashboardCharts
  imports JS_Json JS_Sort "HOL-Library.AList"
begin

text \<open>
  The charts of the dashboard: how usage records are added up per time and model,
  \<^verbatim>\<open>features/dashboard/lib/charts.ts\<close>, and the time labels, \<^verbatim>\<open>formatChartTime\<close> of \<^verbatim>\<open>lib/time.ts\<close>.

  Sums are sums of doubles in the order of the code. The date library is a parameter: a record of the
  moment at a time, its format and the moment some days later. \<^verbatim>\<open>localeCompare\<close> is the parameter \<open>cmp\<close>.
  A \<^verbatim>\<open>Map\<close> is an association list in the order of insertion. The model has the data of the charts; their
  styling, the tooltips and the formatting of quotas as currency are left out.
\<close>

subsection \<open>Records and time labels\<close>

record QuotaDataItem =
  created_at :: jsnum
  item_model :: "jsstring option"
  item_user :: "jsstring option"
  item_quota :: jsval
  item_count :: jsval
  item_tokens :: jsval

datatype granularity = Hour | Day | Week

record 'd dayjs =
  moment :: "jsnum \<Rightarrow> 'd"
  fmt :: "'d \<Rightarrow> string \<Rightarrow> jsstring"
  add_days :: "'d \<Rightarrow> nat \<Rightarrow> 'd"

definition formatChartTime :: "'d dayjs \<Rightarrow> jsnum \<Rightarrow> granularity \<Rightarrow> jsstring" where
  "formatChartTime D timestamp granularity =
     (let d = moment D (num_mul timestamp (Fin 1000)); result = fmt D d ''MM-DD''
      in case granularity of
           Hour \<Rightarrow> result @ js '' '' @ fmt D d ''HH'' @ js '':00''
         | Week \<Rightarrow> result @ js '' - '' @ fmt D (add_days D d 6) ''MM-DD''
         | Day \<Rightarrow> result)"

text \<open>\<^verbatim>\<open>Number(v) || 0\<close>\<close>

definition num_or_zero :: "jsnum \<Rightarrow> jsnum" where
  "num_or_zero n = (if num_truthy n then n else Fin 0)"

definition amount :: "jsval \<Rightarrow> jsnum" where
  "amount v = num_or_zero (to_number v)"

definition name_or :: "jsstring option \<Rightarrow> string \<Rightarrow> jsstring" where
  "name_or n d = (case n of Some s \<Rightarrow> if s \<noteq> [] then s else js d | None \<Rightarrow> js d)"

subsection \<open>Aggregation by time and model\<close>

record stats =
  quota :: jsnum
  count :: jsnum
  tokens :: jsnum

definition zero_stats :: stats where
  "zero_stats = \<lparr>quota = Fin 0, count = Fin 0, tokens = Fin 0\<rparr>"

definition add_stats :: "stats \<Rightarrow> QuotaDataItem \<Rightarrow> stats" where
  "add_stats s i =
     \<lparr>quota = num_add (quota s) (amount (item_quota i)), count = num_add (count s) (amount (item_count i)),
      tokens = num_add (tokens s) (amount (item_tokens i))\<rparr>"

definition stats_at :: "(jsstring \<times> stats) list \<Rightarrow> jsstring \<Rightarrow> stats" where
  "stats_at m k = (case map_of m k of Some s \<Rightarrow> s | None \<Rightarrow> zero_stats)"

record aggregates =
  timeModelMap :: "(jsstring \<times> (jsstring \<times> stats) list) list"
  modelTotalsMap :: "(jsstring \<times> stats) list"

definition rows_at :: "(jsstring \<times> (jsstring \<times> stats) list) list \<Rightarrow> jsstring \<Rightarrow> (jsstring \<times> stats) list" where
  "rows_at m t = (case map_of m t of Some r \<Rightarrow> r | None \<Rightarrow> [])"

definition model_key :: "QuotaDataItem \<Rightarrow> jsstring" where
  "model_key i = name_or (item_model i) ''Unknown''"

definition add_item :: "(jsnum \<Rightarrow> jsstring) \<Rightarrow> aggregates \<Rightarrow> QuotaDataItem \<Rightarrow> aggregates" where
  "add_item label a i =
     (let timeKey = label (created_at i); model = model_key i; tm = timeModelMap a;
          tm1 = (if timeKey \<in> fst ` set tm then tm else AList.update timeKey [] tm);
          modelMap = rows_at tm1 timeKey
      in \<lparr>timeModelMap = AList.update timeKey (AList.update model (add_stats (stats_at modelMap model) i) modelMap) tm1,
          modelTotalsMap = AList.update model (add_stats (stats_at (modelTotalsMap a) model) i) (modelTotalsMap a)\<rparr>)"

definition aggregate :: "(jsnum \<Rightarrow> jsstring) \<Rightarrow> QuotaDataItem list \<Rightarrow> aggregates" where
  "aggregate label items = foldl (add_item label) \<lparr>timeModelMap = [], modelTotalsMap = []\<rparr> items"

subsection \<open>The points of the time axis\<close>

text \<open>\<^verbatim>\<open>sort()\<close> without a comparison function orders texts by their code units.\<close>

fun units_le :: "jsstring \<Rightarrow> jsstring \<Rightarrow> bool" where
  "units_le [] b = True"
| "units_le (x # a) [] = False"
| "units_le (x # a) (y # b) = (x < y \<or> x = y \<and> units_le a b)"

definition sortedTimes :: "aggregates \<Rightarrow> jsstring list" where
  "sortedTimes a = sort_by units_le (map fst (timeModelMap a))"

definition sortedModels :: "aggregates \<Rightarrow> jsstring list" where
  "sortedModels a = sort_by units_le (map fst (modelTotalsMap a))"

definition MAX_TREND_POINTS :: nat where
  "MAX_TREND_POINTS = 7"

definition interval_sec :: "granularity \<Rightarrow> jsnum" where
  "interval_sec g = (case g of Week \<Rightarrow> Fin 604800 | Day \<Rightarrow> Fin 86400 | Hour \<Rightarrow> Fin 3600)"

definition last_time :: "QuotaDataItem list \<Rightarrow> jsnum" where
  "last_time items = foldl num_max NegInf (map (\<lambda>i. num_or_zero (created_at i)) items)"

definition fillTimePoints :: "(jsnum \<Rightarrow> jsstring) \<Rightarrow> granularity \<Rightarrow> QuotaDataItem list \<Rightarrow> jsstring list \<Rightarrow> jsstring list" where
  "fillTimePoints label g items points =
     (if MAX_TREND_POINTS \<le> length points then points
      else map (\<lambda>i. label (num_sub (last_time items) (num_mul (Fin (of_nat (MAX_TREND_POINTS - 1 - i))) (interval_sec g))))
             [0..<MAX_TREND_POINTS])"

subsection \<open>The charts of the models\<close>

definition totalTimes :: "aggregates \<Rightarrow> jsnum" where
  "totalTimes a = foldl (\<lambda>sum kv. num_add sum (num_or_zero (count (snd kv)))) (Fin 0) (modelTotalsMap a)"

definition totalQuotaRaw :: "aggregates \<Rightarrow> jsnum" where
  "totalQuotaRaw a = foldl (\<lambda>sum kv. num_add sum (num_or_zero (quota (snd kv)))) (Fin 0) (modelTotalsMap a)"

text \<open>\<^verbatim>\<open>(a, b) => b.value - a.value\<close>\<close>

definition by_value_down :: "('a \<Rightarrow> jsnum) \<Rightarrow> 'a list \<Rightarrow> 'a list" where
  "by_value_down f xs = sort_by (\<lambda>a b. \<not> num_lt (f a) (f b)) xs"

definition pieValues :: "aggregates \<Rightarrow> (jsstring \<times> jsnum) list" where
  "pieValues a = by_value_down snd (map (\<lambda>(m, s). (m, num_or_zero (count s))) (modelTotalsMap a))"

record bar =
  bar_time :: jsstring
  bar_model :: jsstring
  rawQuota :: jsnum
  usage :: jsnum
  timeSum :: jsnum

definition fixed4 :: "jsnum \<Rightarrow> jsnum" where
  "fixed4 x = str_to_num (num_to_fixed 4 x)"

definition usage_of :: "jsnum \<Rightarrow> jsnum \<Rightarrow> jsnum" where
  "usage_of quotaPerUnit raw =
     (let usd = (if num_truthy raw then num_div raw quotaPerUnit else Fin 0)
      in if num_truthy usd then fixed4 usd else Fin 0)"

definition raw_quota :: "aggregates \<Rightarrow> jsstring \<Rightarrow> jsstring \<Rightarrow> jsnum" where
  "raw_quota a t m = num_or_zero (quota (stats_at (rows_at (timeModelMap a) t) m))"

definition line_row :: "jsnum \<Rightarrow> aggregates \<Rightarrow> jsstring \<Rightarrow> bar list" where
  "line_row quotaPerUnit a t =
     (let timeData = map (\<lambda>m. let raw = raw_quota a t m in
              \<lparr>bar_time = t, bar_model = m, rawQuota = raw, usage = usage_of quotaPerUnit raw, timeSum = Fin 0\<rparr>) (sortedModels a);
          sum = foldl (\<lambda>s b. num_add s (rawQuota b)) (Fin 0) timeData
      in map (\<lambda>b. b\<lparr>timeSum := sum\<rparr>) (by_value_down rawQuota timeData))"

type_synonym collation = "jsstring \<Rightarrow> jsstring \<Rightarrow> int"

definition by_time :: "collation \<Rightarrow> ('a \<Rightarrow> jsstring) \<Rightarrow> 'a list \<Rightarrow> 'a list" where
  "by_time cmp f xs = sort_by (\<lambda>a b. cmp (f a) (f b) \<le> 0) xs"

definition lineValues :: "collation \<Rightarrow> jsnum \<Rightarrow> aggregates \<Rightarrow> jsstring list \<Rightarrow> bar list" where
  "lineValues cmp quotaPerUnit a chartTimes = by_time cmp bar_time (concat (map (line_row quotaPerUnit a) chartTimes))"

definition MAX_AREA_MODELS :: nat where
  "MAX_AREA_MODELS = 15"

definition topAreaModels :: "aggregates \<Rightarrow> jsstring list" where
  "topAreaModels a =
     map fst (take MAX_AREA_MODELS (by_value_down snd (map (\<lambda>(m, s). (m, num_or_zero (quota s))) (modelTotalsMap a))))"

definition bucket_at :: "(jsstring \<times> jsnum \<times> jsnum) list \<Rightarrow> jsstring \<Rightarrow> jsnum \<times> jsnum" where
  "bucket_at b k = (case map_of b k of Some v \<Rightarrow> v | None \<Rightarrow> (Fin 0, Fin 0))"

definition add_bucket ::
  "jsnum \<Rightarrow> jsstring \<Rightarrow> aggregates \<Rightarrow> jsstring \<Rightarrow> (jsstring \<times> jsnum \<times> jsnum) list \<times> jsnum \<Rightarrow> jsstring \<Rightarrow>
     (jsstring \<times> jsnum \<times> jsnum) list \<times> jsnum" where
  "add_bucket quotaPerUnit otherLabel a t acc m =
     (let (buckets, sum) = acc; raw = raw_quota a t m;
          key = (if m \<in> set (topAreaModels a) then m else otherLabel);
          (r, u) = bucket_at buckets key
      in (AList.update key (num_add r raw, fixed4 (num_add u (usage_of quotaPerUnit raw))) buckets, num_add sum raw))"

definition area_row :: "jsnum \<Rightarrow> jsstring \<Rightarrow> aggregates \<Rightarrow> jsstring \<Rightarrow> bar list" where
  "area_row quotaPerUnit otherLabel a t =
     (let (buckets, sum) = foldl (add_bucket quotaPerUnit otherLabel a t) ([], Fin 0) (sortedModels a)
      in map (\<lambda>(m, r, u). \<lparr>bar_time = t, bar_model = m, rawQuota = r, usage = u, timeSum = sum\<rparr>) buckets)"

definition areaValues :: "collation \<Rightarrow> jsnum \<Rightarrow> jsstring \<Rightarrow> aggregates \<Rightarrow> jsstring list \<Rightarrow> bar list" where
  "areaValues cmp quotaPerUnit otherLabel a chartTimes =
     by_time cmp bar_time (concat (map (area_row quotaPerUnit otherLabel a) chartTimes))"

definition MAX_TREND_MODELS :: nat where
  "MAX_TREND_MODELS = 20"

definition ranked_counts :: "aggregates \<Rightarrow> (jsstring \<times> jsnum) list" where
  "ranked_counts a = by_value_down snd (map (\<lambda>(m, s). (m, num_or_zero (count s))) (modelTotalsMap a))"

definition count_at :: "aggregates \<Rightarrow> jsstring \<Rightarrow> jsstring \<Rightarrow> jsnum" where
  "count_at a t m = num_or_zero (count (stats_at (rows_at (timeModelMap a) t) m))"

definition trend_row :: "jsstring \<Rightarrow> aggregates \<Rightarrow> jsstring \<Rightarrow> (jsstring \<times> jsstring \<times> jsnum) list" where
  "trend_row otherLabel a t =
     (let top = map fst (take MAX_TREND_MODELS (ranked_counts a)); other = map fst (drop MAX_TREND_MODELS (ranked_counts a))
      in map (\<lambda>m. (t, m, count_at a t m)) top @
         (if other \<noteq> [] then [(t, otherLabel, foldl (\<lambda>s m. num_add s (count_at a t m)) (Fin 0) other)] else []))"

definition modelLineValues :: "collation \<Rightarrow> jsstring \<Rightarrow> aggregates \<Rightarrow> jsstring list \<Rightarrow> (jsstring \<times> jsstring \<times> jsnum) list" where
  "modelLineValues cmp otherLabel a chartTimes = by_time cmp fst (concat (map (trend_row otherLabel a) chartTimes))"

definition MAX_RANK_MODELS :: nat where
  "MAX_RANK_MODELS = 20"

definition rankValues :: "jsstring \<Rightarrow> aggregates \<Rightarrow> (jsstring \<times> jsnum) list" where
  "rankValues otherLabel a =
     (let all = ranked_counts a
      in if MAX_RANK_MODELS < length all
         then take MAX_RANK_MODELS all @
              [(otherLabel, foldl (\<lambda>s kv. num_add s (snd kv)) (Fin 0) (drop MAX_RANK_MODELS all))]
         else all)"

record chart_data =
  cd_pie :: "(jsstring \<times> jsnum) list"
  cd_line :: "bar list"
  cd_area :: "bar list"
  cd_trend :: "(jsstring \<times> jsstring \<times> jsnum) list"
  cd_rank :: "(jsstring \<times> jsnum) list"
  cd_totalQuota :: jsnum
  cd_totalCount :: jsnum

definition processChartData ::
  "'d dayjs \<Rightarrow> collation \<Rightarrow> jsnum \<Rightarrow> jsstring \<Rightarrow> granularity \<Rightarrow> QuotaDataItem list \<Rightarrow> chart_data" where
  "processChartData D cmp quotaPerUnit otherLabel g items =
     (if items = []
      then \<lparr>cd_pie = [], cd_line = [], cd_area = [], cd_trend = [], cd_rank = [], cd_totalQuota = Fin 0, cd_totalCount = Fin 0\<rparr>
      else let label = (\<lambda>ts. formatChartTime D ts g); a = aggregate label items;
               chartTimes = fillTimePoints label g items (sortedTimes a)
           in \<lparr>cd_pie = pieValues a, cd_line = lineValues cmp quotaPerUnit a chartTimes,
               cd_area = areaValues cmp quotaPerUnit otherLabel a chartTimes,
               cd_trend = modelLineValues cmp otherLabel a chartTimes, cd_rank = rankValues otherLabel a,
               cd_totalQuota = totalQuotaRaw a, cd_totalCount = totalTimes a\<rparr>)"

subsection \<open>The charts of the users\<close>

definition user_key :: "QuotaDataItem \<Rightarrow> jsstring" where
  "user_key i = name_or (item_user i) ''unknown''"

definition num_at :: "(jsstring \<times> jsnum) list \<Rightarrow> jsstring \<Rightarrow> jsnum" where
  "num_at m k = (case map_of m k of Some n \<Rightarrow> num_or_zero n | None \<Rightarrow> Fin 0)"

definition add_quota :: "(jsstring \<times> jsnum) list \<Rightarrow> QuotaDataItem \<Rightarrow> (jsstring \<times> jsnum) list" where
  "add_quota m i = AList.update (user_key i) (num_add (num_at m (user_key i)) (amount (item_quota i))) m"

definition sorted_users :: "QuotaDataItem list \<Rightarrow> (jsstring \<times> jsnum) list" where
  "sorted_users items = by_value_down snd (foldl add_quota [] items)"

definition user_rank :: "jsnum \<Rightarrow> nat \<Rightarrow> QuotaDataItem list \<Rightarrow> (jsstring \<times> jsnum \<times> jsnum) list" where
  "user_rank quotaPerUnit limit items = map (\<lambda>(u, q). (u, q, fixed4 (num_div q quotaPerUnit))) (take limit (sorted_users items))"

definition user_total :: "nat \<Rightarrow> QuotaDataItem list \<Rightarrow> jsnum" where
  "user_total limit items = foldl (\<lambda>s uq. num_add s (snd uq)) (Fin 0) (take limit (sorted_users items))"

definition users_at :: "(jsstring \<times> (jsstring \<times> jsnum) list) list \<Rightarrow> jsstring \<Rightarrow> (jsstring \<times> jsnum) list" where
  "users_at m t = (case map_of m t of Some r \<Rightarrow> r | None \<Rightarrow> [])"

definition add_user_time ::
  "(jsnum \<Rightarrow> jsstring) \<Rightarrow> jsstring list \<Rightarrow> (jsstring \<times> (jsstring \<times> jsnum) list) list \<Rightarrow> QuotaDataItem \<Rightarrow>
     (jsstring \<times> (jsstring \<times> jsnum) list) list" where
  "add_user_time label topUsers m i =
     (let timeKey = label (created_at i)
      in if user_key i \<notin> set topUsers then m
         else let m1 = (if timeKey \<in> fst ` set m then m else AList.update timeKey [] m)
              in AList.update timeKey (add_quota (users_at m1 timeKey) i) m1)"

definition user_trend ::
  "(jsnum \<Rightarrow> jsstring) \<Rightarrow> jsnum \<Rightarrow> nat \<Rightarrow> QuotaDataItem list \<Rightarrow> (jsstring \<times> jsstring \<times> jsnum \<times> jsnum) list" where
  "user_trend label quotaPerUnit limit items =
     (let topUsers = map fst (take limit (sorted_users items));
          timeUserMap = foldl (add_user_time label topUsers) [] items;
          sortedTimePoints = sort_by units_le (uniq (map (\<lambda>i. label (created_at i)) items))
      in concat (map (\<lambda>t. map (\<lambda>u. let q = num_at (users_at timeUserMap t) u in (t, u, q, fixed4 (num_div q quotaPerUnit))) topUsers) sortedTimePoints))"

record user_chart_data =
  uc_rank :: "(jsstring \<times> jsnum \<times> jsnum) list"
  uc_trend :: "(jsstring \<times> jsstring \<times> jsnum \<times> jsnum) list"
  uc_total :: jsnum

definition processUserChartData ::
  "'d dayjs \<Rightarrow> jsnum \<Rightarrow> granularity \<Rightarrow> nat \<Rightarrow> QuotaDataItem list \<Rightarrow> user_chart_data" where
  "processUserChartData D quotaPerUnit g limit items =
     (if items = [] then \<lparr>uc_rank = [], uc_trend = [], uc_total = Fin 0\<rparr>
      else \<lparr>uc_rank = user_rank quotaPerUnit limit items,
            uc_trend = user_trend (\<lambda>ts. formatChartTime D ts g) quotaPerUnit limit items,
            uc_total = user_total limit items\<rparr>)"

subsection \<open>What the aggregation holds\<close>

lemma stats_at_update: "stats_at (AList.update k v m) k' = (if k' = k then v else stats_at m k')"
  by (simp add: stats_at_def update_conv')

lemma rows_at_update: "rows_at (AList.update k v m) k' = (if k' = k then v else rows_at m k')"
  by (simp add: rows_at_def update_conv')

lemma rows_at_new: "k \<notin> fst ` set m \<Longrightarrow> rows_at m k = []"
  by (simp add: rows_at_def map_of_eq_None_iff [THEN iffD2])

lemma add_item_totals:
  "modelTotalsMap (add_item label a i) = AList.update (model_key i) (add_stats (stats_at (modelTotalsMap a) (model_key i)) i) (modelTotalsMap a)"
  by (simp add: add_item_def Let_def)

lemma add_item_rows:
  "rows_at (timeModelMap (add_item label a i)) t =
     (let r = rows_at (timeModelMap a) t
      in if t = label (created_at i) then AList.update (model_key i) (add_stats (stats_at r (model_key i)) i) r else r)"
  by (auto simp: add_item_def Let_def rows_at_update rows_at_new)

lemma fst_update: "fst ` set (AList.update k v m) = insert k (fst ` set m)"
  using arg_cong [OF update_keys [of k v m], of set] by (auto simp: image_iff)

lemma add_item_times:
  "map fst (timeModelMap (add_item label a i)) =
     (let k = label (created_at i); ks = map fst (timeModelMap a) in if k \<in> set ks then ks else ks @ [k])"
  by (auto simp: add_item_def Let_def update_keys fst_update)

text \<open>A field of the statistics that \<open>add_stats\<close> adds up from a field of the records.\<close>

locale stat_field =
  fixes f :: "stats \<Rightarrow> jsnum" and src :: "QuotaDataItem \<Rightarrow> jsval"
  assumes f_zero: "f zero_stats = Fin 0"
    and f_add: "f (add_stats s i) = num_add (f s) (amount (src i))"
begin

lemma totals_fold:
  "f (stats_at (modelTotalsMap (foldl (add_item label) a items)) m) =
     foldl num_add (f (stats_at (modelTotalsMap a) m)) (map (\<lambda>i. amount (src i)) (filter (\<lambda>i. model_key i = m) items))"
  by (induction items arbitrary: a) (simp_all add: add_item_totals stats_at_update f_add)

lemma rows_fold:
  "f (stats_at (rows_at (timeModelMap (foldl (add_item label) a items)) t) m) =
     foldl num_add (f (stats_at (rows_at (timeModelMap a) t) m))
       (map (\<lambda>i. amount (src i)) (filter (\<lambda>i. label (created_at i) = t \<and> model_key i = m) items))"
  by (induction items arbitrary: a) (auto simp: add_item_rows stats_at_update f_add Let_def)

lemma totals_get:
  "f (stats_at (modelTotalsMap (aggregate label items)) m) = num_sum (map (\<lambda>i. amount (src i)) (filter (\<lambda>i. model_key i = m) items))"
  by (simp add: aggregate_def totals_fold num_sum_def f_zero stats_at_def [of "[]"])

lemma rows_get:
  "f (stats_at (rows_at (timeModelMap (aggregate label items)) t) m) =
     num_sum (map (\<lambda>i. amount (src i)) (filter (\<lambda>i. label (created_at i) = t \<and> model_key i = m) items))"
  by (simp add: aggregate_def rows_fold num_sum_def f_zero stats_at_def [of "[]"] rows_at_def [of "[]"])

text \<open>Whole amounts whose sum is below \<open>2 ^ 53\<close>, as the server counts them.\<close>

definition safe :: "QuotaDataItem list \<Rightarrow> bool" where
  "safe items \<longleftrightarrow> list_all (\<lambda>i. whole (amount (src i))) items \<and> sum_list (map (\<lambda>i. num_int (amount (src i))) items) < 2 ^ 53"

definition part :: "(QuotaDataItem \<Rightarrow> bool) \<Rightarrow> QuotaDataItem list \<Rightarrow> int" where
  "part P items = sum_list (map (\<lambda>i. num_int (amount (src i))) (filter P items))"

lemma part_bounds: "list_all (\<lambda>i. whole (amount (src i))) items \<Longrightarrow> 0 \<le> part P items \<and> part P items \<le> part (\<lambda>i. True) items"
proof (induction items)
  case (Cons i items)
  then show ?case using whole_eq [of "amount (src i)"] by (auto simp: part_def)
qed (simp add: part_def)

lemma part_exact: "safe items \<Longrightarrow> num_sum (map (\<lambda>i. amount (src i)) (filter P items)) = Fin (of_int (part P items)) \<and> 0 \<le> part P items"
  using part_bounds [of items P] num_sum_whole [of "map (\<lambda>i. amount (src i)) (filter P items)"]
  by (auto simp: safe_def part_def o_def list_all_iff)

lemma part_keys:
  assumes "distinct ks" "\<forall>i\<in>set items. P i \<longrightarrow> key i \<in> set ks"
  shows "sum_list (map (\<lambda>k. part (\<lambda>i. P i \<and> key i = k) items) ks) = part P items"
  using assms(2)
proof (induction items)
  case (Cons i items)
  have split: "part (\<lambda>j. P j \<and> key j = k) (i # items) =
      (if P i \<and> key i = k then num_int (amount (src i)) else 0) + part (\<lambda>j. P j \<and> key j = k) items" for k
    by (simp add: part_def)
  have one: "sum_list (map (\<lambda>k. if P i \<and> key i = k then v else 0) ks) = (if P i \<and> key i \<in> set ks then v else 0)" for v :: int
    using assms(1) by (induction ks) auto
  show ?case
    unfolding split sum_list_addf one using Cons by (auto simp: part_def)
qed (simp add: part_def)

end

interpretation quotas: stat_field quota item_quota
  by unfold_locales (simp_all add: zero_stats_def add_stats_def)

interpretation counts: stat_field count item_count
  by unfold_locales (simp_all add: zero_stats_def add_stats_def)

lemma or_zero_whole [simp]: "num_or_zero (Fin (of_int n)) = Fin (of_int n)"
  by (simp add: num_or_zero_def num_truthy_def)

lemma aggregate_models:
  "distinct (map fst (modelTotalsMap (aggregate label items))) \<and> set (map fst (modelTotalsMap (aggregate label items))) = model_key ` set items"
proof -
  have "distinct (map fst (modelTotalsMap a)) \<Longrightarrow>
      distinct (map fst (modelTotalsMap (foldl (add_item label) a items))) \<and>
      set (map fst (modelTotalsMap (foldl (add_item label) a items))) = set (map fst (modelTotalsMap a)) \<union> model_key ` set items" for a
  proof (induction items arbitrary: a)
    case (Cons i items)
    have "distinct (map fst (modelTotalsMap (add_item label a i)))"
      "set (map fst (modelTotalsMap (add_item label a i))) = insert (model_key i) (set (map fst (modelTotalsMap a)))"
      using Cons.prems by (auto simp: add_item_totals update_keys fst_update)
    then show ?case using Cons.IH [of "add_item label a i"] by (simp del: set_map)
  qed simp
  from this [of "\<lparr>timeModelMap = [], modelTotalsMap = []\<rparr>"] show ?thesis by (simp add: aggregate_def)
qed

lemma aggregate_times:
  "distinct (map fst (timeModelMap (aggregate label items))) \<and>
   set (map fst (timeModelMap (aggregate label items))) = (\<lambda>i. label (created_at i)) ` set items"
proof -
  have "distinct (map fst (timeModelMap a)) \<Longrightarrow>
      distinct (map fst (timeModelMap (foldl (add_item label) a items))) \<and>
      set (map fst (timeModelMap (foldl (add_item label) a items))) = set (map fst (timeModelMap a)) \<union> (\<lambda>i. label (created_at i)) ` set items" for a
  proof (induction items arbitrary: a)
    case (Cons i items)
    have "distinct (map fst (timeModelMap (add_item label a i)))"
      "set (map fst (timeModelMap (add_item label a i))) = insert (label (created_at i)) (set (map fst (timeModelMap a)))"
      using Cons.prems unfolding add_item_times by (auto simp: Let_def)
    then show ?case using Cons.IH [of "add_item label a i"] by (simp del: set_map)
  qed simp
  from this [of "\<lparr>timeModelMap = [], modelTotalsMap = []\<rparr>"] show ?thesis by (simp add: aggregate_def)
qed

lemma map_totals:
  "map (\<lambda>kv. h (fst kv) (snd kv)) (modelTotalsMap (aggregate label items)) =
   map (\<lambda>m. h m (stats_at (modelTotalsMap (aggregate label items)) m)) (map fst (modelTotalsMap (aggregate label items)))"
  using aggregate_models [of label items] by (auto simp: stats_at_def)

lemma counts_list:
  assumes "counts.safe items"
  shows "map (\<lambda>kv. (fst kv, num_or_zero (count (snd kv)))) (modelTotalsMap (aggregate label items)) =
    map (\<lambda>m. (m, Fin (of_int (counts.part (\<lambda>i. model_key i = m) items)))) (map fst (modelTotalsMap (aggregate label items)))"
  unfolding map_totals [of "\<lambda>m s. (m, num_or_zero (count s))"]
  by (simp add: counts.totals_get counts.part_exact [OF assms])

lemma quotas_list:
  assumes "quotas.safe items"
  shows "map (\<lambda>kv. (fst kv, num_or_zero (quota (snd kv)))) (modelTotalsMap (aggregate label items)) =
    map (\<lambda>m. (m, Fin (of_int (quotas.part (\<lambda>i. model_key i = m) items)))) (map fst (modelTotalsMap (aggregate label items)))"
  unfolding map_totals [of "\<lambda>m s. (m, num_or_zero (quota s))"]
  by (simp add: quotas.totals_get quotas.part_exact [OF assms])

lemma sum_by_value_down: "sum_list (map h (by_value_down f xs)) = (sum_list (map h xs) :: int)"
  unfolding sum_mset_sum_list [symmetric] mset_map by (simp add: by_value_down_def)

lemma counts_by_model:
  "sum_list (map (\<lambda>m. counts.part (\<lambda>i. model_key i = m) items) (map fst (modelTotalsMap (aggregate label items)))) = counts.part (\<lambda>i. True) items"
  using counts.part_keys [of "map fst (modelTotalsMap (aggregate label items))" items "\<lambda>i. True" model_key] aggregate_models [of label items]
  by simp

lemma quotas_by_model:
  "sum_list (map (\<lambda>m. quotas.part (\<lambda>i. model_key i = m) items) (map fst (modelTotalsMap (aggregate label items)))) = quotas.part (\<lambda>i. True) items"
  using quotas.part_keys [of "map fst (modelTotalsMap (aggregate label items))" items "\<lambda>i. True" model_key] aggregate_models [of label items]
  by simp

text \<open>A sum over a list of exact parts.\<close>

lemma num_sum_parts:
  assumes "\<And>x. x \<in> set xs \<Longrightarrow> 0 \<le> n x" "sum_list (map n xs) < 2 ^ 53"
  shows "foldl (\<lambda>s x. num_add s (Fin (of_int (n x)))) (Fin 0) xs = Fin (of_int (sum_list (map n xs)))"
proof -
  have "foldl (\<lambda>s x. num_add s (Fin (of_int (n x)))) (Fin 0) xs = num_sum (map (\<lambda>x. Fin (of_int (n x))) xs)"
    by (simp add: num_sum_def foldl_map)
  also have "\<dots> = Fin (of_int (sum_list (map n xs)))"
    using assms num_sum_whole [of "map (\<lambda>x. Fin (of_int (n x))) xs"] by (simp add: list_all_iff o_def)
  finally show ?thesis .
qed

lemma ranked_sum:
  fixes label
  assumes "counts.safe items"
  defines "R \<equiv> ranked_counts (aggregate label items)"
  shows "sum_list (map (\<lambda>kv. num_int (snd kv)) R) = counts.part (\<lambda>i. True) items" "list_all (\<lambda>kv. whole (snd kv)) R"
proof -
  let ?L = "map (\<lambda>m. (m, Fin (of_int (counts.part (\<lambda>i. model_key i = m) items)))) (map fst (modelTotalsMap (aggregate label items)))"
  have R: "R = by_value_down snd ?L"
    unfolding R_def ranked_counts_def counts_list [OF assms(1), symmetric] by (simp add: case_prod_unfold)
  show "sum_list (map (\<lambda>kv. num_int (snd kv)) R) = counts.part (\<lambda>i. True) items"
    unfolding R sum_by_value_down using counts_by_model [of items label] by (simp add: o_def)
  show "list_all (\<lambda>kv. whole (snd kv)) R"
    using counts.part_exact [OF assms(1)] by (auto simp: R by_value_down_def list_all_iff)
qed

lemma sum_take_drop: "sum_list (map h (take n xs)) + sum_list (map h (drop n xs)) = (sum_list (map h xs) :: int)"
  by (metis append_take_drop_id map_append sum_list_append)

lemma counts_total_safe: "counts.safe items \<Longrightarrow> counts.part (\<lambda>i. True) items < 2 ^ 53"
  by (simp add: counts.safe_def counts.part_def)

lemma quotas_total_safe: "quotas.safe items \<Longrightarrow> quotas.part (\<lambda>i. True) items < 2 ^ 53"
  by (simp add: quotas.safe_def quotas.part_def)

lemma rank_sum:
  assumes "counts.safe items"
  shows "sum_list (map (\<lambda>kv. num_int (snd kv)) (rankValues otherLabel (aggregate label items))) = counts.part (\<lambda>i. True) items"
proof -
  define R where "R = ranked_counts (aggregate label items)"
  note sum = ranked_sum [OF assms, of label, folded R_def]
  let ?D = "drop MAX_RANK_MODELS R"
  have whole: "\<And>kv. kv \<in> set R \<Longrightarrow> snd kv = Fin (of_int (num_int (snd kv))) \<and> 0 \<le> num_int (snd kv)"
    using sum(2) whole_eq by (auto simp: list_all_iff)
  have "0 \<le> sum_list (map (\<lambda>kv. num_int (snd kv)) (take MAX_RANK_MODELS R))"
    using whole by (intro sum_list_nonneg) (auto dest: in_set_takeD)
  then have less: "sum_list (map (\<lambda>kv. num_int (snd kv)) ?D) < 2 ^ 53"
    using sum(1) sum_take_drop [of "\<lambda>kv. num_int (snd kv)" MAX_RANK_MODELS R] counts_total_safe [OF assms] by linarith
  have "foldl (\<lambda>s kv. num_add s (snd kv)) (Fin 0) ?D = foldl (\<lambda>s kv. num_add s (Fin (of_int (num_int (snd kv))))) (Fin 0) ?D"
    using whole by (intro foldl_cong) (auto dest: in_set_dropD)
  also have "\<dots> = Fin (of_int (sum_list (map (\<lambda>kv. num_int (snd kv)) ?D)))"
    by (rule num_sum_parts) (use whole less in \<open>auto dest: in_set_dropD\<close>)
  finally show ?thesis
    using sum(1) sum_take_drop [of "\<lambda>kv. num_int (snd kv)" MAX_RANK_MODELS R]
    by (simp add: rankValues_def Let_def R_def [symmetric])
qed

text \<open>the totals are the sums of the records, and pie and ranking add up to the total, with the
  models beyond the twentieth in one bar.\<close>

theorem chart_totals_exact:
  assumes "items \<noteq> []" "counts.safe items" "quotas.safe items"
  shows "cd_totalCount (processChartData D cmp unit otherLabel g items) = Fin (of_int (counts.part (\<lambda>i. True) items)) \<and>
    cd_totalQuota (processChartData D cmp unit otherLabel g items) = Fin (of_int (quotas.part (\<lambda>i. True) items)) \<and>
    sum_list (map (\<lambda>kv. num_int (snd kv)) (cd_pie (processChartData D cmp unit otherLabel g items))) = counts.part (\<lambda>i. True) items \<and>
    sum_list (map (\<lambda>kv. num_int (snd kv)) (cd_rank (processChartData D cmp unit otherLabel g items))) = counts.part (\<lambda>i. True) items \<and>
    length (cd_rank (processChartData D cmp unit otherLabel g items)) \<le> 21"
proof -
  let ?a = "aggregate (\<lambda>ts. formatChartTime D ts g) items" and ?ks = "map fst (modelTotalsMap (aggregate (\<lambda>ts. formatChartTime D ts g) items))"
  have "totalTimes ?a = foldl (\<lambda>s m. num_add s (Fin (of_int (counts.part (\<lambda>i. model_key i = m) items)))) (Fin 0) ?ks"
    unfolding totalTimes_def
    using counts_list [OF assms(2), of "\<lambda>ts. formatChartTime D ts g", THEN arg_cong [where f = "\<lambda>l. foldl (\<lambda>s kv. num_add s (snd kv)) (Fin 0) l"]]
    by (simp add: foldl_map)
  also have "\<dots> = Fin (of_int (counts.part (\<lambda>i. True) items))"
    using num_sum_parts [of ?ks "\<lambda>m. counts.part (\<lambda>i. model_key i = m) items"] counts.part_exact [OF assms(2)]
      counts_total_safe [OF assms(2)] unfolding counts_by_model by blast
  finally have count: "totalTimes ?a = Fin (of_int (counts.part (\<lambda>i. True) items))" .
  have "totalQuotaRaw ?a = foldl (\<lambda>s m. num_add s (Fin (of_int (quotas.part (\<lambda>i. model_key i = m) items)))) (Fin 0) ?ks"
    unfolding totalQuotaRaw_def
    using quotas_list [OF assms(3), of "\<lambda>ts. formatChartTime D ts g", THEN arg_cong [where f = "\<lambda>l. foldl (\<lambda>s kv. num_add s (snd kv)) (Fin 0) l"]]
    by (simp add: foldl_map)
  also have "\<dots> = Fin (of_int (quotas.part (\<lambda>i. True) items))"
    using num_sum_parts [of ?ks "\<lambda>m. quotas.part (\<lambda>i. model_key i = m) items"] quotas.part_exact [OF assms(3)]
      quotas_total_safe [OF assms(3)] unfolding quotas_by_model by blast
  finally have quota: "totalQuotaRaw ?a = Fin (of_int (quotas.part (\<lambda>i. True) items))" .
  have pie: "pieValues ?a = ranked_counts ?a" by (simp add: pieValues_def ranked_counts_def)
  show ?thesis
    using assms(1) count quota ranked_sum(1) [OF assms(2)] rank_sum [OF assms(2)] pie
    by (simp add: processChartData_def Let_def rankValues_def MAX_RANK_MODELS_def)
qed

subsection \<open>The rows of the charts\<close>

definition at_time :: "(jsnum \<Rightarrow> jsstring) \<Rightarrow> jsstring \<Rightarrow> QuotaDataItem \<Rightarrow> bool" where
  "at_time label t i \<longleftrightarrow> label (created_at i) = t"

definition cell :: "(jsnum \<Rightarrow> jsstring) \<Rightarrow> jsstring \<Rightarrow> jsstring \<Rightarrow> QuotaDataItem \<Rightarrow> bool" where
  "cell label t m i \<longleftrightarrow> at_time label t i \<and> model_key i = m"

lemma count_at_exact:
  assumes "counts.safe items"
  shows "count_at (aggregate label items) t m = Fin (of_int (counts.part (cell label t m) items))"
  using counts.part_exact [OF assms, of "cell label t m"]
  by (simp add: count_at_def counts.rows_get cell_def [abs_def] at_time_def)

lemma raw_quota_exact:
  assumes "quotas.safe items"
  shows "raw_quota (aggregate label items) t m = Fin (of_int (quotas.part (cell label t m) items))"
  using quotas.part_exact [OF assms, of "cell label t m"]
  by (simp add: raw_quota_def quotas.rows_get cell_def [abs_def] at_time_def)

lemma count_cells:
  assumes "distinct ks" "model_key ` set items \<subseteq> set ks"
  shows "sum_list (map (\<lambda>m. counts.part (cell label t m) items) ks) = counts.part (at_time label t) items"
  using counts.part_keys [OF assms(1), of items "at_time label t" model_key] assms(2) by (auto simp: cell_def [abs_def])

lemma quota_cells:
  assumes "distinct ks" "model_key ` set items \<subseteq> set ks"
  shows "sum_list (map (\<lambda>m. quotas.part (cell label t m) items) ks) = quotas.part (at_time label t) items"
  using quotas.part_keys [OF assms(1), of items "at_time label t" model_key] assms(2) by (auto simp: cell_def [abs_def])

lemma ranked_keys:
  "distinct (map fst (ranked_counts (aggregate label items))) \<and> set (map fst (ranked_counts (aggregate label items))) = model_key ` set items"
proof -
  let ?R = "ranked_counts (aggregate label items)"
  have "mset (map fst ?R) = mset (map fst (modelTotalsMap (aggregate label items)))"
    unfolding mset_map by (simp add: ranked_counts_def by_value_down_def case_prod_unfold image_mset.compositionality o_def)
  then show ?thesis using aggregate_models [of label items] by (metis mset_eq_imp_distinct_iff mset_eq_setD)
qed

lemma sorted_models_keys:
  "distinct (sortedModels (aggregate label items)) \<and> set (sortedModels (aggregate label items)) = model_key ` set items"
  using aggregate_models [of label items] unfolding sortedModels_def by (metis mset_eq_imp_distinct_iff mset_sort_by set_sort_by)

lemma time_part_bounds:
  "counts.safe items \<Longrightarrow> counts.part P items < 2 ^ 53" "quotas.safe items \<Longrightarrow> quotas.part P items < 2 ^ 53"
  using counts.part_bounds [of items P] quotas.part_bounds [of items P] counts_total_safe [of items] quotas_total_safe [of items]
  by (auto simp: counts.safe_def quotas.safe_def)

lemma trend_row_sum:
  assumes "counts.safe items"
  shows "sum_list (map (\<lambda>x. num_int (snd (snd x))) (trend_row otherLabel (aggregate label items) t)) = counts.part (at_time label t) items"
proof -
  let ?p = "\<lambda>m. counts.part (cell label t m) items"
  define ks where "ks = map fst (ranked_counts (aggregate label items))"
  let ?top = "take MAX_TREND_MODELS ks" and ?other = "drop MAX_TREND_MODELS ks"
  have pos: "0 \<le> ?p m" for m using counts.part_exact [OF assms] by blast
  have all: "sum_list (map ?p ks) = counts.part (at_time label t) items"
    using count_cells [of ks items label t] ranked_keys [of label items] by (simp add: ks_def)
  have "0 \<le> sum_list (map ?p ?top)" using pos by (intro sum_list_nonneg) auto
  then have less: "sum_list (map ?p ?other) < 2 ^ 53"
    using all sum_take_drop [of ?p MAX_TREND_MODELS ks] time_part_bounds(1) [OF assms, of "at_time label t"] by linarith
  have rest: "foldl (\<lambda>s m. num_add s (Fin (of_int (?p m)))) (Fin 0) ?other = Fin (of_int (sum_list (map ?p ?other)))"
    by (rule num_sum_parts) (use pos less in auto)
  have row: "trend_row otherLabel (aggregate label items) t =
      map (\<lambda>m. (t, m, Fin (of_int (?p m)))) ?top @ (if ?other \<noteq> [] then [(t, otherLabel, Fin (of_int (sum_list (map ?p ?other))))] else [])"
    unfolding trend_row_def ks_def [symmetric] Let_def take_map [symmetric] drop_map [symmetric] count_at_exact [OF assms] rest by simp
  show ?thesis
    unfolding row using all sum_take_drop [of ?p MAX_TREND_MODELS ks] by (simp add: o_def split: if_splits)
qed

lemma line_row_sum:
  assumes "quotas.safe items"
  shows "sum_list (map (\<lambda>b. num_int (rawQuota b)) (line_row unit (aggregate label items) t)) = quotas.part (at_time label t) items"
    "b \<in> set (line_row unit (aggregate label items) t) \<Longrightarrow>
       bar_time b = t \<and> timeSum b = Fin (of_int (quotas.part (at_time label t) items))"
proof -
  let ?p = "\<lambda>m. quotas.part (cell label t m) items" and ?ks = "sortedModels (aggregate label items)"
  let ?bar = "\<lambda>m. \<lparr>bar_time = t, bar_model = m, rawQuota = Fin (of_int (?p m)), usage = usage_of unit (Fin (of_int (?p m))), timeSum = Fin 0\<rparr>"
  let ?T = "quotas.part (at_time label t) items"
  have all: "sum_list (map ?p ?ks) = ?T" using quota_cells sorted_models_keys [of label items] by simp
  have pos: "0 \<le> ?p m" for m using quotas.part_exact [OF assms] by blast
  have "foldl (\<lambda>s m. num_add s (Fin (of_int (?p m)))) (Fin 0) ?ks = Fin (of_int ?T)"
    using num_sum_parts [of ?ks ?p] pos time_part_bounds(2) [OF assms] unfolding all by blast
  then have row: "line_row unit (aggregate label items) t = map (\<lambda>b. b\<lparr>timeSum := Fin (of_int ?T)\<rparr>) (by_value_down rawQuota (map ?bar ?ks))"
    unfolding line_row_def raw_quota_exact [OF assms] Let_def by (simp add: foldl_map)
  show "sum_list (map (\<lambda>b. num_int (rawQuota b)) (line_row unit (aggregate label items) t)) = ?T"
    unfolding row map_map o_def using all by (simp add: sum_by_value_down o_def)
  show "bar_time b = t \<and> timeSum b = Fin (of_int ?T)" if "b \<in> set (line_row unit (aggregate label items) t)"
    using that unfolding row by (auto simp: by_value_down_def)
qed

text \<open>The buckets of the area chart: models beyond the fifteenth share one.\<close>

definition bucket_sum :: "(jsstring \<times> jsnum \<times> jsnum) list \<Rightarrow> int" where
  "bucket_sum b = sum_list (map (\<lambda>x. num_int (fst (snd x))) b)"

definition buckets_ok :: "int \<Rightarrow> (jsstring \<times> jsnum \<times> jsnum) list \<times> jsnum \<Rightarrow> bool" where
  "buckets_ok s acc \<longleftrightarrow> distinct (map fst (fst acc)) \<and> list_all (\<lambda>x. whole (fst (snd x))) (fst acc) \<and>
     bucket_sum (fst acc) = s \<and> snd acc = Fin (of_int s)"

lemma bucket_at_Cons: "bucket_at (p # b) k = (if fst p = k then snd p else bucket_at b k)"
  by (simp add: bucket_at_def)

lemma bucket_sum_update:
  "distinct (map fst b) \<Longrightarrow> bucket_sum (AList.update k v b) = bucket_sum b - num_int (fst (bucket_at b k)) + num_int (fst v)"
proof (induction b)
  case (Cons p b)
  then show ?case by (auto simp: bucket_sum_def bucket_at_Cons)
qed (simp add: bucket_sum_def bucket_at_def num_int_def)

lemma bucket_at_whole:
  assumes "list_all (\<lambda>x. whole (fst (snd x))) b"
  shows "whole (fst (bucket_at b k)) \<and> num_int (fst (bucket_at b k)) \<le> bucket_sum b \<and> 0 \<le> bucket_sum b"
  using assms
proof (induction b)
  case (Cons p b)
  then show ?case using whole_eq [of "fst (snd p)"] by (auto simp: bucket_at_Cons bucket_sum_def)
qed (simp add: bucket_at_def bucket_sum_def whole_def num_int_def)

lemma add_bucket_ok:
  assumes "buckets_ok s acc" "raw_quota a t m = Fin (of_int n)" "0 \<le> n" "s + n < 2 ^ 53"
  shows "buckets_ok (s + n) (add_bucket unit otherLabel a t acc m)"
proof -
  obtain b where acc: "acc = (b, Fin (of_int s))" using assms(1) by (cases acc) (simp add: buckets_ok_def)
  have b: "distinct (map fst b)" "list_all (\<lambda>x. whole (fst (snd x))) b" "bucket_sum b = s"
    using assms(1) by (simp_all add: acc buckets_ok_def)
  define key where "key = (if m \<in> set (topAreaModels a) then m else otherLabel)"
  obtain r u where ru: "bucket_at b key = (r, u)" by (cases "bucket_at b key")
  have r: "r = Fin (of_int (num_int r))" "0 \<le> num_int r" "num_int r \<le> s" "0 \<le> s"
    using bucket_at_whole [OF b(2), of key] whole_eq [of r] b(3) by (auto simp: ru)
  have "num_add (Fin (of_int (num_int r))) (Fin (of_int n)) = Fin (of_int (num_int r + n))"
    using r assms(3,4) by (intro num_add_safe) auto
  then have add: "num_add r (Fin (of_int n)) = Fin (of_int (num_int r + n))" using r(1) by simp
  have sum: "num_add (Fin (of_int s)) (Fin (of_int n)) = Fin (of_int (s + n))"
    using r(4) assms(3,4) by (intro num_add_safe) auto
  let ?v = "(Fin (of_int (num_int r + n)), fixed4 (num_add u (usage_of unit (Fin (of_int n)))))"
  have step: "add_bucket unit otherLabel a t acc m = (AList.update key ?v b, Fin (of_int (s + n)))"
    unfolding add_bucket_def acc assms(2) key_def [symmetric] Let_def prod.case ru add sum by simp
  have "list_all (\<lambda>x. whole (fst (snd x))) (AList.update key ?v b)"
    using b(2) r(2) assms(3) by (induction b) (auto simp: whole_def)
  moreover have "bucket_sum (AList.update key ?v b) = s + n"
    using bucket_sum_update [OF b(1), of key ?v] b(3) by (simp add: ru del: of_int_add)
  ultimately show ?thesis using b(1) by (simp add: buckets_ok_def step distinct_update)
qed

lemma area_row_sum:
  assumes "quotas.safe items"
  shows "sum_list (map (\<lambda>b. num_int (rawQuota b)) (area_row unit otherLabel (aggregate label items) t)) = quotas.part (at_time label t) items"
proof -
  let ?a = "aggregate label items" and ?p = "\<lambda>m. quotas.part (cell label t m) items"
  have pos: "0 \<le> ?p m" for m using quotas.part_exact [OF assms] by blast
  have fold: "buckets_ok (s + sum_list (map ?p ms)) (foldl (add_bucket unit otherLabel ?a t) acc ms)"
    if "buckets_ok s acc" "s + sum_list (map ?p ms) < 2 ^ 53" for s acc ms
    using that
  proof (induction ms arbitrary: s acc)
    case (Cons m ms)
    have "0 \<le> sum_list (map ?p ms)" using pos by (intro sum_list_nonneg) auto
    then have "buckets_ok (s + ?p m) (add_bucket unit otherLabel ?a t acc m)"
      using Cons.prems pos [of m] by (intro add_bucket_ok raw_quota_exact assms) auto
    then show ?case using Cons.IH [of "s + ?p m"] Cons.prems(2) by (simp add: add.assoc)
  qed simp
  have all: "sum_list (map ?p (sortedModels ?a)) = quotas.part (at_time label t) items"
    using quota_cells sorted_models_keys [of label items] by simp
  have "buckets_ok 0 ([], Fin 0)" by (simp add: buckets_ok_def bucket_sum_def)
  from fold [OF this, of "sortedModels ?a"] all time_part_bounds(2) [OF assms, of "at_time label t"]
  show ?thesis
    by (simp add: area_row_def buckets_ok_def bucket_sum_def case_prod_unfold o_def)
qed

lemma sum_by_time: "sum_list (map h (by_time cmp f (concat xss))) = (sum_list (map (\<lambda>xs. sum_list (map h xs)) xss) :: int)"
proof -
  have "sum_list (map h (by_time cmp f (concat xss))) = sum_list (map h (concat xss))"
    unfolding sum_mset_sum_list [symmetric] mset_map by (simp add: by_time_def)
  also have "\<dots> = sum_list (map (\<lambda>xs. sum_list (map h xs)) xss)" by (induction xss) auto
  finally show ?thesis .
qed

lemma sorted_times_keys:
  "distinct (sortedTimes (aggregate label items)) \<and> set (sortedTimes (aggregate label items)) = (\<lambda>i. label (created_at i)) ` set items"
  using aggregate_times [of label items] unfolding sortedTimes_def by (metis mset_eq_imp_distinct_iff mset_sort_by set_sort_by)

text \<open>C30: at every point of the time axis the trend adds up to the calls, the bars and the areas to the quota
  of that time, and every bar knows the sum of its time; when the records have at least seven points in
  time nothing is left out: the charts add up to the totals.\<close>

theorem chart_rows_exact:
  fixes D :: "'d dayjs"
  defines "label \<equiv> \<lambda>g ts. formatChartTime D ts g"
  assumes "items \<noteq> []" "counts.safe items" "quotas.safe items"
  shows "sum_list (map (\<lambda>x. num_int (snd (snd x))) (trend_row otherLabel (aggregate (label g) items) t)) =
      counts.part (at_time (label g) t) items \<and>
    sum_list (map (\<lambda>b. num_int (rawQuota b)) (line_row unit (aggregate (label g) items) t)) = quotas.part (at_time (label g) t) items \<and>
    sum_list (map (\<lambda>b. num_int (rawQuota b)) (area_row unit otherLabel (aggregate (label g) items) t)) = quotas.part (at_time (label g) t) items \<and>
    (\<forall>b\<in>set (line_row unit (aggregate (label g) items) t). timeSum b = Fin (of_int (quotas.part (at_time (label g) t) items))) \<and>
    (MAX_TREND_POINTS \<le> card ((\<lambda>i. label g (created_at i)) ` set items) \<longrightarrow>
       sum_list (map (\<lambda>x. num_int (snd (snd x))) (cd_trend (processChartData D cmp unit otherLabel g items))) = counts.part (\<lambda>i. True) items \<and>
       sum_list (map (\<lambda>b. num_int (rawQuota b)) (cd_line (processChartData D cmp unit otherLabel g items))) = quotas.part (\<lambda>i. True) items \<and>
       sum_list (map (\<lambda>b. num_int (rawQuota b)) (cd_area (processChartData D cmp unit otherLabel g items))) = quotas.part (\<lambda>i. True) items)"
proof -
  let ?a = "aggregate (label g) items" and ?ts = "sortedTimes (aggregate (label g) items)"
  have len: "length ?ts = card ((\<lambda>i. label g (created_at i)) ` set items)"
    using sorted_times_keys [of "label g" items] by (metis distinct_card)
  have data: "cd_trend (processChartData D cmp unit otherLabel g items) = modelLineValues cmp otherLabel ?a ?ts"
    "cd_line (processChartData D cmp unit otherLabel g items) = lineValues cmp unit ?a ?ts"
    "cd_area (processChartData D cmp unit otherLabel g items) = areaValues cmp unit otherLabel ?a ?ts"
    if "MAX_TREND_POINTS \<le> length ?ts"
    using that assms(2) by (simp_all add: processChartData_def Let_def label_def fillTimePoints_def)
  have "sum_list (map (\<lambda>t. counts.part (at_time (label g) t) items) ?ts) = counts.part (\<lambda>i. True) items"
    "sum_list (map (\<lambda>t. quotas.part (at_time (label g) t) items) ?ts) = quotas.part (\<lambda>i. True) items"
    using counts.part_keys [of ?ts items "\<lambda>i. True" "\<lambda>i. label g (created_at i)"] quotas.part_keys [of ?ts items "\<lambda>i. True" "\<lambda>i. label g (created_at i)"]
      sorted_times_keys [of "label g" items] by (simp_all add: at_time_def [abs_def])
  then show ?thesis
    using data len trend_row_sum [OF assms(3)] line_row_sum [OF assms(4)] area_row_sum [OF assms(4)]
    by (simp add: modelLineValues_def lineValues_def areaValues_def sum_by_time o_def)
qed

subsection \<open>The charts of the users are exact\<close>

definition user_part :: "jsstring \<Rightarrow> QuotaDataItem list \<Rightarrow> int" where
  "user_part u items = quotas.part (\<lambda>i. user_key i = u) items"

lemma safe_snoc: "quotas.safe (items @ [i]) \<Longrightarrow> quotas.safe items \<and> whole (amount (item_quota i))"
  using whole_eq [of "amount (item_quota i)"] by (auto simp: quotas.safe_def)

lemma part_snoc: "quotas.part P (items @ [i]) = quotas.part P items + (if P i then num_int (amount (item_quota i)) else 0)"
  by (simp add: quotas.part_def)

lemma add_part:
  assumes "quotas.safe (items @ [i])" "P i"
  shows "num_add (Fin (of_int (quotas.part P items))) (amount (item_quota i)) = Fin (of_int (quotas.part P (items @ [i])))"
proof -
  let ?n = "num_int (amount (item_quota i))"
  note safe = safe_snoc [OF assms(1)]
  have n: "amount (item_quota i) = Fin (of_int ?n)" "0 \<le> ?n" using safe whole_eq by auto
  have s: "quotas.part P (items @ [i]) = quotas.part P items + ?n" by (simp add: part_snoc assms(2))
  have "0 \<le> quotas.part P items" "quotas.part P (items @ [i]) < 2 ^ 53"
    using quotas.part_exact safe time_part_bounds(2) [OF assms(1)] by blast+
  then have "num_add (Fin (of_int (quotas.part P items))) (Fin (of_int ?n)) = Fin (of_int (quotas.part P items + ?n))"
    using n(2) s by (intro num_add_safe) auto
  then show ?thesis using n(1) s by simp
qed

lemma num_at_update: "num_at (AList.update k v m) k' = (if k' = k then num_or_zero v else num_at m k')"
  by (simp add: num_at_def update_conv')

lemma num_at_add_quota:
  "num_at (add_quota m i) u = (if u = user_key i then num_or_zero (num_add (num_at m u) (amount (item_quota i))) else num_at m u)"
  by (simp add: add_quota_def num_at_update)

lemma map_of_add_quota:
  "map_of (add_quota m i) u = (if u = user_key i then Some (num_add (num_at m u) (amount (item_quota i))) else map_of m u)"
  by (simp add: add_quota_def update_conv')

lemma user_totals: "quotas.safe items \<Longrightarrow> num_at (foldl add_quota [] items) u = Fin (of_int (user_part u items))"
proof (induction items arbitrary: u rule: rev_induct)
  case Nil
  then show ?case by (simp add: num_at_def user_part_def quotas.part_def)
next
  case (snoc i items)
  have "num_at (foldl add_quota [] items) v = Fin (of_int (user_part v items))" for v
    using snoc safe_snoc by blast
  note IH = this
  show ?case
  proof (cases "user_key i = u")
    case True
    then show ?thesis using add_part [OF snoc.prems, of "\<lambda>j. user_key j = u"] by (simp add: num_at_add_quota IH user_part_def)
  next
    case False
    then show ?thesis by (simp add: num_at_add_quota IH user_part_def part_snoc)
  qed
qed

lemma user_keys:
  "distinct (map fst (foldl add_quota [] items)) \<and> set (map fst (foldl add_quota [] items)) = user_key ` set items"
  by (induction items rule: rev_induct) (auto simp: add_quota_def fst_update distinct_update)

lemma user_values:
  assumes "quotas.safe items" "(u, q) \<in> set (foldl add_quota [] items)"
  shows "q = Fin (of_int (user_part u items))"
  using assms
proof (induction items arbitrary: q rule: rev_induct)
  case (snoc i items)
  let ?m = "foldl add_quota [] items"
  have safe: "quotas.safe items" using snoc.prems(1) safe_snoc by blast
  have "distinct (map fst (add_quota ?m i))" using user_keys [of "items @ [i]"] by simp
  then have m: "map_of (add_quota ?m i) u = Some q" using snoc.prems(2) by simp
  show ?case
  proof (cases "user_key i = u")
    case True
    then have "q = num_add (num_at ?m u) (amount (item_quota i))" using m by (simp add: map_of_add_quota)
    then show ?thesis
      using add_part [OF snoc.prems(1), of "\<lambda>j. user_key j = u"] True by (simp add: user_totals [OF safe] user_part_def)
  next
    case False
    then have "map_of ?m u = Some q" using m by (simp add: map_of_add_quota)
    then have "q = Fin (of_int (user_part u items))" using snoc.IH [OF safe] by (metis map_of_SomeD)
    then show ?thesis using False by (simp add: user_part_def part_snoc)
  qed
qed simp

lemma user_time_parts:
  assumes "quotas.safe items" "u \<in> set ranked"
  shows "num_at (users_at (foldl (add_user_time label ranked) [] items) t) u =
    Fin (of_int (quotas.part (\<lambda>i. at_time label t i \<and> user_key i = u) items))"
  using assms(1)
proof (induction items arbitrary: t rule: rev_induct)
  case Nil
  then show ?case by (simp add: users_at_def num_at_def quotas.part_def)
next
  case (snoc i items)
  have IH: "num_at (users_at (foldl (add_user_time label ranked) [] items) s) u =
      Fin (of_int (quotas.part (\<lambda>i. at_time label s i \<and> user_key i = u) items))" for s
    using snoc safe_snoc by blast
  have users_update: "users_at (AList.update k v m) s = (if s = k then v else users_at m s)" for k v m s
    by (simp add: users_at_def update_conv')
  have users_new: "k \<notin> fst ` set m \<Longrightarrow> users_at m k = []" for k m
    by (simp add: users_at_def map_of_eq_None_iff [THEN iffD2])
  let ?m = "foldl (add_user_time label ranked) [] items"
  have step: "users_at (add_user_time label ranked ?m i) t =
      (if user_key i \<in> set ranked \<and> t = label (created_at i) then add_quota (users_at ?m t) i else users_at ?m t)"
    by (auto simp: add_user_time_def Let_def users_update users_new)
  show ?case
  proof (cases "at_time label t i \<and> user_key i = u")
    case True
    then have "num_at (users_at (add_user_time label ranked ?m i) t) u =
        num_or_zero (num_add (num_at (users_at ?m t) u) (amount (item_quota i)))"
      using assms(2) unfolding step by (auto simp: at_time_def num_at_add_quota)
    then show ?thesis
      using add_part [OF snoc.prems, of "\<lambda>i. at_time label t i \<and> user_key i = u"] True by (simp add: IH)
  next
    case False
    then have "num_at (users_at (add_user_time label ranked ?m i) t) u = num_at (users_at ?m t) u"
      unfolding step by (auto simp: at_time_def num_at_add_quota)
    then show ?thesis using False part_snoc [of "\<lambda>i. at_time label t i \<and> user_key i = u" items i] by (auto simp: IH)
  qed
qed

lemma value_down_order: "stable_order {x. f x \<noteq> NaN} (\<lambda>a b. \<not> num_lt (f a) (f b))"
proof
  fix x y z assume "x \<in> {x. f x \<noteq> NaN}" "y \<in> {x. f x \<noteq> NaN}" "z \<in> {x. f x \<noteq> NaN}" "\<not> num_lt (f x) (f y)" "\<not> num_lt (f y) (f z)"
  then show "\<not> num_lt (f x) (f z)" by (cases "f x"; cases "f y"; cases "f z") auto
next
  fix x y assume "x \<in> {x. f x \<noteq> NaN}" "y \<in> {x. f x \<noteq> NaN}"
  then show "\<not> num_lt (f x) (f y) \<or> \<not> num_lt (f y) (f x)" by (cases "f x"; cases "f y") auto
qed

text \<open>the ranking shows the quota of each user, the largest first and nobody left out who used
  more than somebody shown; the trend of a user adds up to the quota in the ranking.\<close>

theorem user_charts_exact:
  assumes "quotas.safe items"
  shows "set (sorted_users items) = (\<lambda>u. (u, Fin (of_int (user_part u items)))) ` user_key ` set items \<and>
    (\<forall>u \<in> fst ` set (take limit (sorted_users items)). \<forall>v \<in> fst ` set (drop limit (sorted_users items)). user_part v items \<le> user_part u items) \<and>
    (\<forall>u \<in> fst ` set (take limit (sorted_users items)).
       sum_list (map (\<lambda>x. num_int (fst (snd (snd x)))) (filter (\<lambda>x. fst (snd x) = u) (user_trend label unit limit items))) = user_part u items)"
proof (intro conjI ballI)
  let ?m = "foldl add_quota [] items" and ?s = "sorted_users items"
  have vals: "q = Fin (of_int (user_part u items))" if "(u, q) \<in> set ?s" for u q
    using that user_values [OF assms] by (simp add: sorted_users_def by_value_down_def)
  have keys: "fst ` set ?s = user_key ` set items" "distinct (map fst ?s)"
    using user_keys [of items] unfolding sorted_users_def by_value_down_def
    by (auto simp: set_sort_by) (metis mset_eq_imp_distinct_iff mset_map mset_sort_by)
  show "set ?s = (\<lambda>u. (u, Fin (of_int (user_part u items)))) ` user_key ` set items"
    using vals unfolding keys(1) [symmetric] by force
  have sorted: "sorted_wrt (\<lambda>a b. \<not> num_lt (snd a) (snd b)) ?s"
    unfolding sorted_users_def by_value_down_def
    by (rule stable_order.sort_sorted [OF value_down_order]) (use user_values [OF assms] in fastforce)
  fix u assume u: "u \<in> fst ` set (take limit ?s)"
  then obtain q where q: "(u, q) \<in> set (take limit ?s)" by auto
  { fix v assume "v \<in> fst ` set (drop limit ?s)"
    then obtain r where r: "(v, r) \<in> set (drop limit ?s)" by auto
    have "\<not> num_lt q r" using sorted q r by (metis append_take_drop_id snd_conv sorted_wrt_append)
    moreover have "q = Fin (of_int (user_part u items))" "r = Fin (of_int (user_part v items))"
      using vals q r by (blast dest: in_set_takeD in_set_dropD)+
    ultimately show "user_part v items \<le> user_part u items" by simp }
  show "sum_list (map (\<lambda>x. num_int (fst (snd (snd x)))) (filter (\<lambda>x. fst (snd x) = u) (user_trend label unit limit items))) = user_part u items"
  proof -
    define ranked where "ranked = map fst (take limit ?s)"
    define ts where "ts = sort_by units_le (uniq (map (\<lambda>i. label (created_at i)) items))"
    let ?p = "\<lambda>t u. quotas.part (\<lambda>i. at_time label t i \<and> user_key i = u) items"
    let ?row = "\<lambda>t. map (\<lambda>u. (t, u, Fin (of_int (?p t u)), fixed4 (num_div (Fin (of_int (?p t u))) unit))) ranked"
    have "distinct ranked" unfolding ranked_def take_map [symmetric] using keys(2) by (rule distinct_take)
    moreover have "u \<in> set ranked" using u by (simp add: ranked_def)
    ultimately have in_top: "u \<in> set ranked" "distinct ranked" by simp_all
    have trend: "user_trend label unit limit items = concat (map ?row ts)"
      unfolding user_trend_def ranked_def [symmetric] ts_def [symmetric] Let_def
      by (intro arg_cong [where f = concat] map_cong refl) (simp add: user_time_parts [OF assms])
    have one: "filter (\<lambda>x. fst (snd x) = u) (?row t) = [(t, u, Fin (of_int (?p t u)), fixed4 (num_div (Fin (of_int (?p t u))) unit))]" for t
      using in_top by (induction ranked) (auto simp: filter_empty_conv)
    have "sum_list (map (\<lambda>x. num_int (fst (snd (snd x)))) (filter (\<lambda>x. fst (snd x) = u) (concat (map ?row ts)))) = sum_list (map (\<lambda>t. ?p t u) ts)"
      by (induction ts) (simp_all add: one)
    also have "\<dots> = user_part u items"
      using quotas.part_keys [of ts items "\<lambda>i. user_key i = u" "\<lambda>i. label (created_at i)"]
      by (simp add: user_part_def ts_def at_time_def conj_commute distinct_sort_by)
    finally show ?thesis unfolding trend .
  qed
qed

subsection \<open>Examples and what the charts leave out\<close>

text \<open>A calendar in which every day is its number, two digits of a month of a hundred days.\<close>

definition day_number :: "jsnum \<Rightarrow> int" where
  "day_number x = num_int x div 86400000"

definition sample_calendar :: "int dayjs" where
  "sample_calendar = \<lparr>moment = day_number,
     fmt = (\<lambda>d f. if f = ''HH'' then js ''00'' else dec_str (10 + d div 100) @ js ''-'' @ dec_str (10 + d mod 100)), add_days = (\<lambda>d n. d + int n)\<rparr>"

definition record_at :: "int \<Rightarrow> string \<Rightarrow> QuotaDataItem" where
  "record_at d m = \<lparr>created_at = Fin (of_int (86400 * d)), item_model = Some (js m), item_user = Some (js m),
     item_quota = JNum (Fin 5), item_count = JNum (Fin 1), item_tokens = JNum (Fin 0)\<rparr>"

definition sample_week :: "QuotaDataItem list" where
  "sample_week = map (\<lambda>d. record_at d ''a'') [1, 2, 3, 4, 5, 6, 7] @ [record_at 7 ''b'']"

lemma sample_week_safe: "sample_week \<noteq> []" "counts.safe sample_week" "quotas.safe sample_week"
  "counts.part (\<lambda>i. True) sample_week = 8" "quotas.part (\<lambda>i. True) sample_week = 40"
proof -
  have "amount (JNum (Fin 1)) = Fin (of_int 1)" "amount (JNum (Fin 5)) = Fin (of_int 5)" by code_simp+
  note a = this
  show "sample_week \<noteq> []" by (simp add: sample_week_def)
  show "counts.safe sample_week" "quotas.safe sample_week"
    unfolding counts.safe_def quotas.safe_def by (simp_all only: sample_week_def record_at_def list_all_append) (simp_all add: a del: of_int_1 of_int_numeral)
  show "counts.part (\<lambda>i. True) sample_week = 8" "quotas.part (\<lambda>i. True) sample_week = 40"
    unfolding counts.part_def quotas.part_def by (simp_all add: sample_week_def record_at_def a del: of_int_1 of_int_numeral)
qed

lemma chart_totals_exact_witness:
  "cd_totalCount (processChartData sample_calendar (\<lambda>a b. 0) (Fin 500000) (js ''Other'') Day sample_week) = Fin 8"
  using chart_totals_exact [OF sample_week_safe(1-3), of sample_calendar "\<lambda>a b. 0" "Fin 500000" "js ''Other''" Day]
  by (simp add: sample_week_safe)

lemma chart_rows_exact_witness:
  "sum_list (map (\<lambda>x. num_int (snd (snd x))) (cd_trend (processChartData sample_calendar (\<lambda>a b. 0) (Fin 500000) (js ''Other'') Day sample_week))) = 8"
proof -
  have "MAX_TREND_POINTS \<le> card ((\<lambda>i. formatChartTime sample_calendar (created_at i) Day) ` set sample_week)" by code_simp
  then show ?thesis
    using chart_rows_exact [OF sample_week_safe(1-3), of "js ''Other''" sample_calendar Day _ "Fin 500000" "\<lambda>a b. 0"]
    by (simp add: sample_week_safe)
qed

lemma user_charts_exact_witness:
  "sum_list (map (\<lambda>x. num_int (fst (snd (snd x)))) (filter (\<lambda>x. fst (snd x) = js ''a'')
     (user_trend (\<lambda>ts. formatChartTime sample_calendar ts Day) (Fin 500000) 10 sample_week))) = user_part (js ''a'') sample_week"
proof -
  have "js ''a'' \<in> fst ` set (take 10 (sorted_users sample_week))" by code_simp
  then show ?thesis using user_charts_exact [OF sample_week_safe(3)] by blast
qed

text \<open>With fewer than seven points in time the axis is the last seven intervals, whatever the range
  was: records before them are part of the totals, but of no bar and no line.\<close>

definition sparse_records :: "QuotaDataItem list" where
  "sparse_records = [record_at 1 ''a'', record_at 30 ''a'']"

lemma sparse_points_lost:
  fixes d defines "d \<equiv> processChartData sample_calendar (\<lambda>a b. 0) (Fin 500000) (js ''Other'') Day sparse_records"
  shows "cd_totalCount d = Fin 2" "sum_list (map (\<lambda>x. num_int (snd (snd x))) (cd_trend d)) = 1"
proof -
  let ?label = "\<lambda>ts. formatChartTime sample_calendar ts Day"
  let ?a = "aggregate ?label sparse_records"
  have "cd_totalCount d = totalTimes ?a"
    "cd_trend d = modelLineValues (\<lambda>a b. 0) (js ''Other'') ?a (fillTimePoints ?label Day sparse_records (sortedTimes ?a))"
    by (simp_all add: d_def processChartData_def sparse_records_def Let_def)
  moreover have "totalTimes ?a = Fin 2" by code_simp
  moreover have "sum_list (map (\<lambda>x. num_int (snd (snd x)))
      (modelLineValues (\<lambda>a b. 0) (js ''Other'') ?a (fillTimePoints ?label Day sparse_records (sortedTimes ?a)))) = 1" by code_simp
  ultimately show "cd_totalCount d = Fin 2" "sum_list (map (\<lambda>x. num_int (snd (snd x))) (cd_trend d)) = 1" by simp_all
qed

text \<open>The labels have no year and are sorted as texts: at the turn of the year the later days come
  first.\<close>

lemma year_end_disordered:
  "sort_by units_le [js ''12-31'', js ''01-01''] = [js ''01-01'', js ''12-31'']"
  by code_simp

end
