(* ===== verification/JS_Rounding.thy ===== *)
theory JS_Rounding
  imports JS_Number
begin

text \<open>
  How far a rounded operation is from the exact one: the leading exponent of a rational, the relative
  error of \<open>round_double\<close>, and what it means for \<^verbatim>\<open>Math.floor\<close> and \<^verbatim>\<open>Math.round\<close> of a computed value.
\<close>

definition num_floor :: "jsnum \<Rightarrow> jsnum" where
  "num_floor x = (case x of Fin q \<Rightarrow> Fin (of_int \<lfloor>q\<rfloor>) | _ \<Rightarrow> x)"

definition num_round :: "jsnum \<Rightarrow> jsnum" where
  "num_round x = (case x of Fin q \<Rightarrow> Fin (of_int \<lfloor>q + 1 / 2\<rfloor>) | _ \<Rightarrow> x)"

definition num_ceil :: "jsnum \<Rightarrow> jsnum" where
  "num_ceil x = (case x of Fin q \<Rightarrow> Fin (of_int \<lceil>q\<rceil>) | _ \<Rightarrow> x)"

subsection \<open>The leading exponent\<close>

lemma bit_count_bounds: "0 < n \<Longrightarrow> 0 < bit_count n \<and> 2 ^ nat (bit_count n - 1) \<le> n \<and> n < 2 ^ nat (bit_count n)"
proof (induction n rule: bit_count.induct)
  case (1 n)
  show ?case
  proof (cases "n = 1")
    case True
    then show ?thesis by (simp add: bit_count_1)
  next
    case False
    then have half: "0 < n div 2" using 1(2) by linarith
    note IH = 1(1) [OF _ half]
    have b: "0 < bit_count (n div 2)" "2 ^ nat (bit_count (n div 2) - 1) \<le> n div 2" "n div 2 < 2 ^ nat (bit_count (n div 2))"
      using IH 1(2) by auto
    have s: "bit_count n = 1 + bit_count (n div 2)" using 1(2) by (simp add: bit_count.simps [of n])
    have "nat (bit_count n - 1) = Suc (nat (bit_count (n div 2) - 1))" "nat (bit_count n) = Suc (nat (bit_count (n div 2)))"
      using s b(1) by auto
    then show ?thesis using b s by simp linarith
  qed
qed

lemma pow2_powi: "pow2 e = 2 powi e"
  by (simp add: pow2_def power_int_def divide_simps)

lemma pow2_mono: "a \<le> b \<Longrightarrow> pow2 a \<le> pow2 b"
  unfolding pow2_powi by (simp add: power_int_increasing)

lemma pow2_ilog2: "0 < q \<Longrightarrow> pow2 (ilog2 q) \<le> q"
proof -
  assume "0 < q"
  obtain a b where ab: "quotient_of q = (a, b)" by (cases "quotient_of q")
  then have q: "q = of_int a / of_int b" "0 < b" using quotient_of_div quotient_of_denom_pos by blast+
  then have "0 < a" using \<open>0 < q\<close> by (simp add: zero_less_divide_iff)
  note A = bit_count_bounds [OF \<open>0 < a\<close>] and B = bit_count_bounds [OF \<open>0 < b\<close>]
  have "pow2 (bit_count a - 1) = of_int (2 ^ nat (bit_count a - 1))" "pow2 (bit_count b) = of_int (2 ^ nat (bit_count b))"
    using A B by (simp_all add: pow2_def)
  then have low: "pow2 (bit_count a - 1) \<le> of_int a" and high: "of_int b \<le> pow2 (bit_count b)"
    using A B by (metis of_int_le_iff, metis of_int_le_iff order_less_imp_le)
  have "pow2 (bit_count a - bit_count b - 1) = pow2 (bit_count a - 1) / pow2 (bit_count b)"
    by (simp add: pow2_powi power_int_diff power_int_add field_simps)
  also have "\<dots> \<le> of_int a / of_int b"
    using low high \<open>0 < b\<close> by (intro frac_le) (simp_all add: \<open>0 < a\<close> less_imp_le)
  finally show ?thesis by (simp add: ilog2_def ab q(1) [symmetric] Let_def)
qed

lemma ilog2_less: "0 < q \<Longrightarrow> q < pow2 k \<Longrightarrow> ilog2 q < k"
  using pow2_ilog2 [of q] pow2_mono [of k "ilog2 q"] by (meson not_le order.strict_trans1 order_le_less_trans)

lemma half_even_bounds: "\<lfloor>x\<rfloor> \<le> half_even x" "of_int (half_even x) \<le> x + 1 / 2"
  unfolding half_even_def Let_def by (auto; linarith)+

subsection \<open>Whole seconds of a time in milliseconds\<close>

text \<open>Below \<open>2 ^ 43\<close> doubles are at most \<open>1 / 1024\<close> apart, so rounding does not reach the next
  whole number from a thousandth below it.\<close>

lemma round_double_near:
  assumes "0 < q" "q < 2 ^ 43"
  obtains v where "round_double q = Fin v" "of_int \<lfloor>q\<rfloor> \<le> v" "v \<le> q + 1 / 2048"
proof -
  define e where "e = max (ilog2 q - 52) (- 1074)"
  define h where "h = half_even (q / pow2 e)"
  have "q < pow2 43" using assms(2) by (simp add: pow2_def)
  then have "ilog2 q < 43" by (rule ilog2_less [OF assms(1)])
  then have e: "e \<le> - 10" by (simp add: e_def)
  then have "pow2 e \<le> pow2 (- 10)" by (rule pow2_mono)
  then have small: "pow2 e \<le> 1 / 1024" by (simp add: pow2_def)
  have unit: "pow2 e * 2 ^ nat (- e) = 1" using e by (simp add: pow2_def)
  have "of_int (\<lfloor>q\<rfloor> * 2 ^ nat (- e)) \<le> q * 2 ^ nat (- e)" by (simp add: mult_right_mono)
  also have "q * 2 ^ nat (- e) = q / pow2 e"
    using unit pow2_pos [of e] by (metis mult.assoc mult.commute mult.right_neutral nonzero_eq_divide_eq order_less_irrefl)
  finally have "\<lfloor>q\<rfloor> * 2 ^ nat (- e) \<le> h"
    using half_even_bounds(1) [of "q / pow2 e"] unfolding h_def by (meson le_floor_iff order_trans)
  then have "of_int (\<lfloor>q\<rfloor> * 2 ^ nat (- e)) * pow2 e \<le> of_int h * pow2 e"
    by (intro mult_right_mono) (simp_all only: of_int_le_iff less_imp_le pow2_pos)
  moreover have "of_int (\<lfloor>q\<rfloor> * 2 ^ nat (- e)) * pow2 e = of_int \<lfloor>q\<rfloor> * (pow2 e * 2 ^ nat (- e))" by simp
  ultimately have low: "of_int \<lfloor>q\<rfloor> \<le> of_int h * pow2 e" unfolding unit by (simp only: mult_1_right)
  have "of_int h * pow2 e \<le> (q / pow2 e + 1 / 2) * pow2 e"
    unfolding h_def by (intro mult_right_mono half_even_bounds) (simp add: less_imp_le)
  also have "\<dots> = q + pow2 e / 2" using pow2_pos [of e] by (auto simp: field_simps simp del: pow2_pos)
  also have "\<dots> \<le> q + 1 / 2048" using small by simp
  finally have high: "of_int h * pow2 e \<le> q + 1 / 2048" .
  have "ilog2 (of_int h * pow2 e) < 1024"
  proof (cases "0 < h")
    case True
    have "of_int h * pow2 e < pow2 44" using high assms(2) by (simp add: pow2_def)
    then show ?thesis using ilog2_less [of "of_int h * pow2 e" 44] True by simp
  next
    case False
    have "(0 :: rat) \<le> of_int \<lfloor>q\<rfloor>" using assms(1) by (simp add: less_imp_le)
    then have "0 \<le> of_int h * pow2 e" using low by (rule order_trans)
    then have "h = 0" using False pow2_pos [of e] by (simp add: zero_le_mult_iff)
    then show ?thesis by (simp add: ilog2_def Let_def bit_count.simps pow2_def)
  qed
  then have "round_double q = Fin (of_int h * pow2 e)"
    using assms(1) by (simp add: round_double_def Let_def e_def h_def)
  then show ?thesis using that low high by blast
qed

lemma num_floor_seconds:
  assumes "0 \<le> m" "m < 1000 * 2 ^ 43"
  shows "num_floor (num_div (Fin (of_int m)) (Fin 1000)) = Fin (of_int (m div 1000))"
proof (cases "m = 0")
  case True
  then show ?thesis by (simp add: round_double_def num_floor_def)
next
  case False
  let ?q = "of_int m / 1000 :: rat"
  have fl: "\<lfloor>?q\<rfloor> = m div 1000" by (metis floor_divide_of_int_eq of_int_numeral)
  have "0 < ?q" "?q < 2 ^ 43"
    using False assms by (simp_all add: divide_less_eq)
  then obtain v where v: "round_double ?q = Fin v" "of_int \<lfloor>?q\<rfloor> \<le> v" "v \<le> ?q + 1 / 2048"
    by (rule round_double_near)
  have "m \<le> 1000 * (m div 1000) + 999" by linarith
  then have "of_int m \<le> (1000 * of_int (m div 1000) + 999 :: rat)"
    by (metis of_int_add of_int_le_iff of_int_mult of_int_numeral)
  then have "v < of_int (m div 1000) + 1" using v(3) by simp
  then have "\<lfloor>v\<rfloor> = m div 1000" using v(2) unfolding fl by (simp add: floor_eq_iff)
  then show ?thesis using v(1) by (simp add: num_floor_def)
qed

subsection \<open>The relative error of an operation\<close>

lemma half_even_lower: "x - 1 / 2 \<le> of_int (half_even x)"
  unfolding half_even_def Let_def by (auto; linarith)

lemma pow2_times: "pow2 a * pow2 b = pow2 (a + b)"
  by (simp add: pow2_powi power_int_add)

lemma ilog2_ge: "0 < q \<Longrightarrow> pow2 k \<le> q \<Longrightarrow> k \<le> ilog2 q"
proof -
  assume q: "0 < q" "pow2 k \<le> q"
  obtain a b where ab: "quotient_of q = (a, b)" by (cases "quotient_of q")
  then have d: "q = of_int a / of_int b" "0 < b" using quotient_of_div quotient_of_denom_pos by blast+
  then have "0 < a" using q(1) by (simp add: zero_less_divide_iff)
  note A = bit_count_bounds [OF \<open>0 < a\<close>] and B = bit_count_bounds [OF \<open>0 < b\<close>]
  have "of_int a < pow2 (bit_count a)" "pow2 (bit_count b - 1) \<le> of_int b"
    using A B by (simp_all add: pow2_def)
  then have "q < pow2 (bit_count a) / pow2 (bit_count b - 1)"
    unfolding d(1) using \<open>0 < b\<close> \<open>0 < a\<close> by (intro frac_less) (simp_all add: less_imp_le)
  also have "\<dots> = pow2 (bit_count a - bit_count b + 1)"
    by (simp add: pow2_powi power_int_diff power_int_add field_simps)
  finally have high: "q < pow2 (bit_count a - bit_count b + 1)" .
  have "k < bit_count a - bit_count b + 1"
    using q(2) high pow2_mono [of "bit_count a - bit_count b + 1" k] by (meson leD le_less_linear order.strict_trans2)
  moreover have "k \<noteq> bit_count a - bit_count b" if "\<not> pow2 (bit_count a - bit_count b) \<le> q" using q(2) that by blast
  ultimately show ?thesis by (auto simp: ilog2_def ab Let_def)
qed

lemma round_double_error_pos:
  assumes "pow2 (- 1022) \<le> q" "q < pow2 1023"
  obtains v where "round_double q = Fin v" "\<bar>v - q\<bar> \<le> q * pow2 (- 53)"
proof -
  have pos: "0 < q" using assms(1) pow2_pos [of "- 1022"] by linarith
  define e where "e = ilog2 q - 52"
  define h where "h = half_even (q / pow2 e)"
  have "- 1022 \<le> ilog2 q" using ilog2_ge [OF pos assms(1)] .
  then have e: "max (ilog2 q - 52) (- 1074) = e" by (simp add: e_def)
  have "\<bar>of_int h - q / pow2 e\<bar> \<le> 1 / 2"
    unfolding h_def using half_even_bounds(2) [of "q / pow2 e"] half_even_lower [of "q / pow2 e"] by linarith
  then have "\<bar>of_int h - q / pow2 e\<bar> * pow2 e \<le> 1 / 2 * pow2 e"
    using pow2_pos [of e] by (intro mult_right_mono) (simp_all add: less_imp_le)
  also have "\<bar>of_int h - q / pow2 e\<bar> * pow2 e = \<bar>(of_int h - q / pow2 e) * pow2 e\<bar>"
    using abs_of_pos [OF pow2_pos [of e]] by (simp add: abs_mult)
  also have "(of_int h - q / pow2 e) * pow2 e = of_int h * pow2 e - q"
    using pow2_pos [of e] by (auto simp: field_simps simp del: pow2_pos)
  also have "1 / 2 * pow2 e = pow2 (ilog2 q) * pow2 (- 53)"
  proof -
    have "1 / 2 = pow2 (- 1)" by (simp add: pow2_def)
    then show ?thesis by (simp only: pow2_times e_def) simp
  qed
  also have "\<dots> \<le> q * pow2 (- 53)"
    using pow2_ilog2 [OF pos] by (intro mult_right_mono) (simp_all add: less_imp_le)
  finally have err: "\<bar>of_int h * pow2 e - q\<bar> \<le> q * pow2 (- 53)" .
  have half: "q * pow2 (- 53) < q" using pos by (simp add: pow2_def)
  then have v: "0 < of_int h * pow2 e" using err by linarith
  have "of_int h * pow2 e < 2 * q" using err half by linarith
  also have "\<dots> < pow2 1024" using assms(2) pow2_times [of 1 1023] by (simp add: pow2_def [of 1])
  finally have "ilog2 (of_int h * pow2 e) < 1024" by (rule ilog2_less [OF v])
  then have "round_double q = Fin (of_int h * pow2 e)"
    using pos by (simp add: round_double_def Let_def e h_def)
  then show ?thesis using err that by blast
qed

lemma round_double_error:
  assumes "pow2 (- 1022) \<le> \<bar>q\<bar>" "\<bar>q\<bar> < pow2 1023"
  obtains v where "round_double q = Fin v" "\<bar>v - q\<bar> \<le> \<bar>q\<bar> * pow2 (- 53)"
proof (cases "0 \<le> q")
  case True
  then show ?thesis using round_double_error_pos [of q] assms that by auto
next
  case False
  then obtain v where "round_double (- q) = Fin v" "\<bar>v - (- q)\<bar> \<le> - q * pow2 (- 53)"
    using round_double_error_pos [of "- q"] assms by auto
  then show ?thesis using that [of "- v"] round_double_neg [of "- q"] False by (simp add: abs_minus_commute)
qed

subsection \<open>Chains of operations\<close>

definition close :: "rat \<Rightarrow> rat \<Rightarrow> rat \<Rightarrow> bool" where
  "close c x y \<longleftrightarrow> \<bar>x - y\<bar> \<le> c * \<bar>y\<bar>"

text \<open>Multiplying by a factor of moderate size adds \<open>2 ^ - 52\<close> to the relative error.\<close>

lemma close_step:
  assumes "close c x y" "c \<le> 1 / 2" "pow2 (- 200) \<le> \<bar>y\<bar>" "\<bar>y\<bar> < pow2 200" "pow2 (- 40) \<le> s" "s \<le> pow2 40"
  obtains x' where "round_double (x * s) = Fin x'" "close (c + pow2 (- 52)) x' (y * s)"
proof -
  have d: "\<bar>x - y\<bar> \<le> c * \<bar>y\<bar>" using assms(1) by (simp add: close_def)
  also have "c * \<bar>y\<bar> \<le> 1 / 2 * \<bar>y\<bar>" using assms(2) by (intro mult_right_mono) simp_all
  finally have x: "\<bar>y\<bar> / 2 \<le> \<bar>x\<bar>" "\<bar>x\<bar> \<le> 2 * \<bar>y\<bar>" by linarith+
  have s: "0 < s" using assms(5) pow2_pos [of "- 40"] by linarith
  have "pow2 (- 1022) \<le> pow2 (- 201) * pow2 (- 40)" by (simp add: pow2_times pow2_mono)
  also have "\<dots> \<le> \<bar>x\<bar> * s"
  proof (intro mult_mono)
    have "pow2 (- 201) = pow2 (- 200) / 2" by (simp add: pow2_def)
    then show "pow2 (- 201) \<le> \<bar>x\<bar>" using x(1) assms(3) by linarith
  qed (use assms(5) in \<open>simp_all add: less_imp_le\<close>)
  finally have low: "pow2 (- 1022) \<le> \<bar>x * s\<bar>" using s by (simp add: abs_mult)
  have "\<bar>x\<bar> * s \<le> pow2 201 * pow2 40"
  proof (intro mult_mono)
    have "pow2 201 = 2 * pow2 200" by (simp add: pow2_def)
    then show "\<bar>x\<bar> \<le> pow2 201" using x(2) assms(4) by linarith
  qed (use assms(6) s in \<open>simp_all add: less_imp_le\<close>)
  also have "\<dots> \<le> pow2 1022" by (simp add: pow2_times pow2_mono)
  also have "\<dots> < pow2 1023" by (simp add: pow2_def)
  finally have high: "\<bar>x * s\<bar> < pow2 1023" using s by (simp add: abs_mult)
  obtain x' where x': "round_double (x * s) = Fin x'" "\<bar>x' - x * s\<bar> \<le> \<bar>x * s\<bar> * pow2 (- 53)"
    using low high by (rule round_double_error)
  have "\<bar>x * s\<bar> * pow2 (- 53) \<le> (2 * \<bar>y\<bar> * s) * pow2 (- 53)"
    using x(2) s by (intro mult_right_mono) (simp_all add: abs_mult less_imp_le)
  also have "\<dots> = pow2 (- 52) * \<bar>y * s\<bar>" using s by (simp add: pow2_def abs_mult)
  finally have e1: "\<bar>x' - x * s\<bar> \<le> pow2 (- 52) * \<bar>y * s\<bar>" using x'(2) by linarith
  have "\<bar>x * s - y * s\<bar> = \<bar>x - y\<bar> * s" using s by (simp add: abs_mult flip: left_diff_distrib)
  also have "\<dots> \<le> (c * \<bar>y\<bar>) * s" using d s by (intro mult_right_mono) (simp_all add: less_imp_le)
  also have "\<dots> = c * \<bar>y * s\<bar>" using s by (simp add: abs_mult)
  finally have "\<bar>x' - y * s\<bar> \<le> c * \<bar>y * s\<bar> + pow2 (- 52) * \<bar>y * s\<bar>" using e1 by linarith
  then have "close (c + pow2 (- 52)) x' (y * s)" by (simp add: close_def distrib_right)
  then show ?thesis using x'(1) that by blast
qed

text \<open>A whole number that is off by less than a half is found by rounding.\<close>

lemma round_close:
  assumes "close (pow2 (- 50)) x (of_int n)" "\<bar>n\<bar> < 2 ^ 49"
  shows "num_round (Fin x) = Fin (of_int n)"
proof -
  have "\<bar>x - of_int n\<bar> \<le> pow2 (- 50) * of_int \<bar>n\<bar>" using assms(1) by (simp add: close_def)
  also have "\<dots> < pow2 (- 50) * 2 ^ 49"
  proof (intro mult_strict_left_mono)
    show "of_int \<bar>n\<bar> < (2 ^ 49 :: rat)" using assms(2) by (metis of_int_less_iff of_int_numeral of_int_power)
  qed simp
  also have "\<dots> = 1 / 2" by (simp add: pow2_def)
  finally have "\<bar>x - of_int n\<bar> < 1 / 2" .
  then have "\<lfloor>x + 1 / 2\<rfloor> = n" unfolding floor_eq_iff by (intro conjI; linarith)
  then show ?thesis by (simp add: num_round_def)
qed

end
