(* ===== verification/UsageLogs.thy ===== *)
theory UsageLogs
  imports TierRoundTrip TableUrlState JS_Rounding
begin

text \<open>
  The usage logs: the filters an administrator or a user enters, the requests they become, and what a
  log entry says about its price. \<^verbatim>\<open>features/usage-logs/lib/filter.ts\<close>, \<^verbatim>\<open>lib/utils.ts\<close>, \<^verbatim>\<open>lib/format.ts\<close>,
  \<^verbatim>\<open>api.ts\<close>, the table and the filter bar.

  A request is its path and the entries of its query; the reply is the server's. The default time range
  depends on the clock and the time zone and is a parameter, as are the decoding of base64 and UTF-8 and
  the case conversion of the browser. The table reads its column filters from the URL by the hook of
  \<open>TableUrlState\<close>, and the tiers of a log entry are parsed by \<open>TierExpr\<close>.
\<close>

subsection \<open>Filters and search parameters\<close>

datatype log_category = Common | Drawing | Task

text \<open>A date is its time in milliseconds.\<close>

record log_filters =
  lf_startTime :: "jsnum option"
  lf_endTime :: "jsnum option"
  lf_channel :: "jsstring option"
  lf_model :: "jsstring option"
  lf_token :: "jsstring option"
  lf_group :: "jsstring option"
  lf_username :: "jsstring option"
  lf_requestId :: "jsstring option"
  lf_upstreamRequestId :: "jsstring option"
  lf_mjId :: "jsstring option"
  lf_taskId :: "jsstring option"

text \<open>\<^verbatim>\<open>...(v && { key: v })\<close> for a text, and the same for a date.\<close>

definition filled :: "jsstring option \<Rightarrow> jsstring option" where
  "filled v = (case v of Some s \<Rightarrow> if s \<noteq> [] then Some s else None | None \<Rightarrow> None)"

definition text_entry :: "string \<Rightarrow> jsstring option \<Rightarrow> jsval props" where
  "text_entry k v = (case filled v of Some s \<Rightarrow> [(js k, JStr s)] | None \<Rightarrow> [])"

definition date_entry :: "string \<Rightarrow> jsnum option \<Rightarrow> jsval props" where
  "date_entry k v = (case v of Some t \<Rightarrow> [(js k, JNum t)] | None \<Rightarrow> [])"

definition buildSearchParams :: "log_filters \<Rightarrow> log_category \<Rightarrow> jsval props" where
  "buildSearchParams f cat =
     (let baseParams = date_entry ''startTime'' (lf_startTime f) @ date_entry ''endTime'' (lf_endTime f) @
            text_entry ''channel'' (lf_channel f)
      in case cat of
           Common \<Rightarrow> baseParams @ text_entry ''model'' (lf_model f) @ text_entry ''token'' (lf_token f) @
             text_entry ''group'' (lf_group f) @ text_entry ''username'' (lf_username f) @
             text_entry ''requestId'' (lf_requestId f) @ text_entry ''upstreamRequestId'' (lf_upstreamRequestId f)
         | Drawing \<Rightarrow> baseParams @ text_entry ''filter'' (lf_mjId f)
         | Task \<Rightarrow> baseParams @ text_entry ''filter'' (lf_taskId f))"

text \<open>The search object that applying the filters of the common logs navigates to.\<close>

definition handleApply :: "log_filters \<Rightarrow> jsstring \<Rightarrow> jsval props" where
  "handleApply f logType = buildSearchParams f Common @ [(js ''type'', JArr [JStr logType]), (js ''page'', JNum (Fin 1))]"

subsection \<open>Request parameters\<close>

definition timestampToSeconds :: "jsnum \<Rightarrow> jsnum" where
  "timestampToSeconds ms = num_floor (num_div ms (Fin 1000))"

record time_range =
  range_start :: jsnum
  range_end :: jsnum

definition getTimestamp :: "bool \<Rightarrow> jsval \<Rightarrow> jsnum option \<Rightarrow> jsval" where
  "getTimestamp useMilliseconds paramTime defaultTime =
     (let time = val_or paramTime (case defaultTime of Some t \<Rightarrow> JNum t | None \<Rightarrow> JUndef)
      in if truthy time then (if useMilliseconds then time else JNum (timestampToSeconds (to_number time)))
         else JUndef)"

definition buildTimeRangeParams :: "time_range \<Rightarrow> jsval props \<Rightarrow> bool \<Rightarrow> jsval props" where
  "buildTimeRangeParams today searchParams useMilliseconds =
     (let s = val_at searchParams (js ''startTime''); e = val_at searchParams (js ''endTime'');
          hasTimeParams = (if s = JUndef \<or> s = JNull then e else s);
          dflt = (if truthy hasTimeParams then None else Some today)
      in [(js ''start_timestamp'', getTimestamp useMilliseconds s (map_option range_start dflt)),
          (js ''end_timestamp'', getTimestamp useMilliseconds e (map_option range_end dflt))])"

text \<open>\<^verbatim>\<open>...(v ? { key: String(v) } : {})\<close>\<close>

definition str_param :: "string \<Rightarrow> jsval \<Rightarrow> jsval props" where
  "str_param k v = (if truthy v then [(js k, JStr (to_str v))] else [])"

definition buildBaseParams :: "time_range \<Rightarrow> jsnum \<Rightarrow> jsnum \<Rightarrow> jsval props \<Rightarrow> bool \<Rightarrow> jsval props" where
  "buildBaseParams today page sz searchParams useMilliseconds =
     [(js ''p'', JNum page), (js ''page_size'', JNum sz)] @
     str_param ''channel_id'' (val_at searchParams (js ''channel'')) @
     buildTimeRangeParams today searchParams useMilliseconds"

definition parseType :: "jsval \<Rightarrow> jsval" where
  "parseType raw = (if num_is_finite (to_number raw) then JNum (to_number raw) else JUndef)"

definition processType :: "jsval \<Rightarrow> jsval" where
  "processType v =
     (case v of JArr [x] \<Rightarrow> parseType x
      | JStr s \<Rightarrow> if s \<noteq> [] then parseType (JStr s) else JUndef
      | _ \<Rightarrow> JUndef)"

text \<open>\<^verbatim>\<open>Number(v) || 0\<close>\<close>

definition channel_number :: "jsval \<Rightarrow> jsval" where
  "channel_number v = JNum (if num_truthy (to_number v) then to_number v else Fin 0)"

definition column_override :: "bool \<Rightarrow> jsval props \<Rightarrow> column_filter \<Rightarrow> jsval props" where
  "column_override isAdmin params f =
     (let v = filter_value f; id = filter_id f
      in if v = JUndef \<or> v = JNull \<or> v = JStr [] then params
         else if id = js ''type'' then props_set params (js ''type'') (processType v)
         else if id \<in> js ` {''model_name'', ''token_name'', ''group''} then props_set params id (JStr (to_str v))
         else if id = js ''channel'' then (if isAdmin then props_set params id (channel_number v) else params)
         else if id = js ''username'' then (if isAdmin then props_set params id (JStr (to_str v)) else params)
         else params)"

definition base_api_params :: "time_range \<Rightarrow> jsnum \<Rightarrow> jsnum \<Rightarrow> jsval props \<Rightarrow> bool \<Rightarrow> jsval props" where
  "base_api_params today page sz searchParams isAdmin =
     (let sp = (\<lambda>k. val_at searchParams (js k))
      in [(js ''p'', JNum page), (js ''page_size'', JNum sz)] @
         (if truthy (sp ''type'') then [(js ''type'', processType (sp ''type''))] else []) @
         str_param ''model_name'' (sp ''model'') @ str_param ''token_name'' (sp ''token'') @
         str_param ''group'' (sp ''group'') @
         (if isAdmin \<and> truthy (sp ''channel'') then [(js ''channel'', channel_number (sp ''channel''))] else []) @
         (if isAdmin then str_param ''username'' (sp ''username'') else []) @
         str_param ''request_id'' (sp ''requestId'') @ str_param ''upstream_request_id'' (sp ''upstreamRequestId'') @
         buildTimeRangeParams today searchParams False)"

definition buildApiParams ::
  "time_range \<Rightarrow> jsnum \<Rightarrow> jsnum \<Rightarrow> jsval props \<Rightarrow> column_filter list \<Rightarrow> bool \<Rightarrow> jsval props" where
  "buildApiParams today page sz searchParams filters isAdmin =
     foldl (column_override isAdmin) (base_api_params today page sz searchParams isAdmin) filters"

subsection \<open>Requests\<close>

record log_request =
  req_path :: jsstring
  req_query :: "(jsstring \<times> jsstring) list"

definition buildQueryParams :: "jsval props \<Rightarrow> (jsstring \<times> jsstring) list" where
  "buildQueryParams params =
     map (\<lambda>(k, v). (k, to_str v)) (filter (\<lambda>(k, v). v \<noteq> JUndef \<and> v \<noteq> JNull \<and> v \<noteq> JStr []) params)"

definition buildApiPath :: "string \<Rightarrow> bool \<Rightarrow> jsstring" where
  "buildApiPath endpoint isAdmin = (if isAdmin then js endpoint else js endpoint @ js ''/self'')"

definition fetchLogs :: "string \<Rightarrow> jsval props \<Rightarrow> bool \<Rightarrow> log_request" where
  "fetchLogs endpoint params isAdmin =
     \<lparr>req_path = buildApiPath endpoint isAdmin,
      req_query = buildQueryParams (props_assign
        [(js ''p'', val_or (val_at params (js ''p'')) (JNum (Fin 1))),
         (js ''page_size'', val_or (val_at params (js ''page_size'')) (JNum (Fin 20)))] params)\<rparr>"

definition fetchLogStats :: "string \<Rightarrow> jsval props \<Rightarrow> bool \<Rightarrow> log_request" where
  "fetchLogStats endpoint params isAdmin =
     \<lparr>req_path = buildApiPath endpoint isAdmin @ js ''/stat'', req_query = buildQueryParams params\<rparr>"

definition fetchLogsByCategory ::
  "time_range \<Rightarrow> log_category \<Rightarrow> bool \<Rightarrow> jsnum \<Rightarrow> jsnum \<Rightarrow> jsval props \<Rightarrow> column_filter list \<Rightarrow> log_request" where
  "fetchLogsByCategory today cat isAdmin page sz searchParams filters =
     (case cat of
        Common \<Rightarrow> fetchLogs ''/api/log'' (buildApiParams today page sz searchParams filters isAdmin) isAdmin
      | Drawing \<Rightarrow> fetchLogs ''/api/mj'' (props_assign (buildBaseParams today page sz searchParams True)
          [(js ''mj_id'', val_at searchParams (js ''filter''))]) isAdmin
      | Task \<Rightarrow> fetchLogs ''/api/task'' (props_assign (buildBaseParams today page sz searchParams False)
          [(js ''task_id'', val_at searchParams (js ''filter''))]) isAdmin)"

text \<open>The request of the statistics above the table.\<close>

definition stats_request :: "time_range \<Rightarrow> bool \<Rightarrow> jsval props \<Rightarrow> log_request" where
  "stats_request today isAdmin searchParams =
     fetchLogStats ''/api/log'' (buildApiParams today (Fin 1) (Fin 1) searchParams [] isAdmin) isAdmin"

subsection \<open>The table\<close>

definition LOG_TYPE_ALL_VALUE :: jsstring where
  "LOG_TYPE_ALL_VALUE = js ''0''"

definition deserializeLogTypeFilter :: "jsval \<Rightarrow> jsval" where
  "deserializeLogTypeFilter v =
     JArr (filter (\<lambda>x. to_str x \<noteq> LOG_TYPE_ALL_VALUE)
       (case v of JArr xs \<Rightarrow> xs | _ \<Rightarrow> if truthy v then [v] else []))"

definition text_column :: "string \<Rightarrow> string \<Rightarrow> filter_cfg" where
  "text_column c k =
     \<lparr>columnId = js c, searchKey = js k, filter_type = Some (js ''string''), serialize = None, deserialize = None\<rparr>"

definition logs_table :: "bool \<Rightarrow> bool \<Rightarrow> table_params" where
  "logs_table isMobile isAdmin =
     \<lparr>paginationCfg = Some \<lparr>cfg_pageKey = None, cfg_pageSizeKey = None, cfg_defaultPage = Some (Fin 1),
        cfg_defaultPageSize = Some (if isMobile then Fin 20 else Fin 100)\<rparr>,
      globalFilterCfg = Some \<lparr>cfg_enabled = Some False, cfg_key = None, cfg_trim = None\<rparr>,
      columnFiltersCfg =
        [\<lparr>columnId = js ''created_at'', searchKey = js ''type'', filter_type = Some (js ''array''), serialize = None,
          deserialize = Some deserializeLogTypeFilter\<rparr>,
         text_column ''model_name'' ''model'', text_column ''token_name'' ''token'', text_column ''group'' ''group''] @
        (if isAdmin then [text_column ''channel'' ''channel'', text_column ''username'' ''username''] else [])\<rparr>"

definition table_request :: "time_range \<Rightarrow> bool \<Rightarrow> bool \<Rightarrow> log_category \<Rightarrow> table_state \<Rightarrow> log_request" where
  "table_request today isMobile isAdmin cat s =
     (let pagination = table_pagination (logs_table isMobile isAdmin) (local s) (search s)
      in fetchLogsByCategory today cat isAdmin (num_add (pageIndex pagination) (Fin 1)) (pageSize pagination)
           (search s) (columnFilters s))"

subsection \<open>Keys of the parameters\<close>

definition API_KEYS :: "jsstring list" where
  "API_KEYS = map js [''p'', ''page_size'', ''type'', ''model_name'', ''token_name'', ''group'', ''channel'', ''username'',
     ''request_id'', ''upstream_request_id'', ''start_timestamp'', ''end_timestamp'']"

lemma api_keys_ok: "distinct API_KEYS" "list_all (\<lambda>k. \<not> is_index_key k) API_KEYS"
  by code_simp+

lemma str_param_keys: "subseq (map fst (str_param k v)) [js k]"
  by (simp add: str_param_def)

lemma time_range_keys: "map fst (buildTimeRangeParams today sp ms) = [js ''start_timestamp'', js ''end_timestamp'']"
  by (simp add: buildTimeRangeParams_def Let_def)

lemma base_keys: "subseq (map fst (base_api_params today page sz sp isAdmin)) API_KEYS"
proof -
  have K: "API_KEYS = [js ''p'', js ''page_size''] @ [js ''type''] @ [js ''model_name''] @ [js ''token_name''] @ [js ''group''] @ [js ''channel''] @
      [js ''username''] @ [js ''request_id''] @ [js ''upstream_request_id''] @ [js ''start_timestamp'', js ''end_timestamp'']"
    by (simp add: API_KEYS_def)
  show ?thesis
    unfolding K base_api_params_def Let_def map_append
    by (intro list_emb_append_mono) (auto simp: str_param_keys time_range_keys)
qed

lemma base_props_ok: "props_ok (base_api_params today page sz sp isAdmin)"
  using subseq_distinct [OF base_keys api_keys_ok(1)] by (simp add: props_ok_def props_keys_def)

lemma plain_keys_ordered: "list_all (\<lambda>k. \<not> is_index_key k) (map fst p) \<Longrightarrow> props_ordered p"
  by (induction p) (fastforce simp: list_all_iff)+

lemma base_ordered: "props_ordered (base_api_params today page sz sp isAdmin)"
  using subseq_set_subset [OF base_keys] api_keys_ok(2) by (intro plain_keys_ordered) (force simp: list_all_iff)

lemma base_starts:
  "\<exists>rest. base_api_params today page sz sp isAdmin = [(js ''p'', JNum page), (js ''page_size'', JNum sz)] @ rest"
  by (simp add: base_api_params_def Let_def)

text \<open>The defaults of page and page size are always overwritten.\<close>

lemma assign_base:
  "props_assign [(js ''p'', x), (js ''page_size'', y)] (base_api_params today page sz sp isAdmin) = base_api_params today page sz sp isAdmin"
proof -
  obtain rest where B: "base_api_params today page sz sp isAdmin = [(js ''p'', JNum page), (js ''page_size'', JNum sz)] @ rest"
    using base_starts by blast
  have "props_assign [(js ''p'', x), (js ''page_size'', y)] ([(js ''p'', JNum page), (js ''page_size'', JNum sz)] @ rest) =
      foldl (\<lambda>acc kv. props_set acc (fst kv) (snd kv)) [(js ''p'', JNum page), (js ''page_size'', JNum sz)] rest"
    by (simp add: props_assign_def props_set_def props_keys_def)
  also have "\<dots> = [(js ''p'', JNum page), (js ''page_size'', JNum sz)] @ rest"
    using base_props_ok [of today page sz sp isAdmin] base_ordered [of today page sz sp isAdmin] unfolding B
    by (rule props_rebuild_aux)
  finally show ?thesis by (simp only: B)
qed

lemma query_lookup:
  "props_ok p \<Longrightarrow> map_of (buildQueryParams p) k =
     (case props_get p k of Some v \<Rightarrow> if v \<noteq> JUndef \<and> v \<noteq> JNull \<and> v \<noteq> JStr [] then Some (to_str v) else None | None \<Rightarrow> None)"
proof -
  assume "props_ok p"
  then have "distinct (map fst p)" by (simp add: props_ok_def props_keys_def)
  then have "map_of (filter (\<lambda>(k, v). v \<noteq> JUndef \<and> v \<noteq> JNull \<and> v \<noteq> JStr []) p) k =
      (case map_of p k of Some v \<Rightarrow> if v \<noteq> JUndef \<and> v \<noteq> JNull \<and> v \<noteq> JStr [] then Some v else None | None \<Rightarrow> None)"
    by (rule map_of_filter_val)
  moreover have "map_of (map (\<lambda>(k, v). (k, to_str v)) q) k = map_option to_str (map_of q k)" for q :: "jsval props"
    by (induction q) auto
  ultimately show ?thesis by (simp add: buildQueryParams_def props_get_def split: option.splits)
qed

subsection \<open>Whose logs are asked for\<close>

definition COLUMN_KEYS :: "jsstring set" where
  "COLUMN_KEYS = {js ''type'', js ''model_name'', js ''token_name'', js ''group''}"

lemma override_keys: "fst ` set (column_override False p f) \<subseteq> fst ` set p \<union> COLUMN_KEYS"
proof -
  have set: "fst ` set (props_set p k v) \<subseteq> insert k (fst ` set p)" for k v
    using set_props_set [of p k v] by fastforce
  show ?thesis
    unfolding column_override_def Let_def COLUMN_KEYS_def using set by auto
qed

lemma overrides_keys: "fst ` set (foldl (column_override False) p fs) \<subseteq> fst ` set p \<union> COLUMN_KEYS"
proof (induction fs arbitrary: p)
  case (Cons f fs)
  show ?case using Cons.IH [of "column_override False p f"] override_keys [of p f] by (simp only: foldl_Cons) blast
qed simp

lemma user_params_keys:
  "fst ` set (buildApiParams today page sz sp fs False) \<subseteq> set API_KEYS - {js ''channel'', js ''username''}"
proof -
  have "fst ` set (base_api_params today page sz sp False) \<subseteq> set API_KEYS - {js ''channel'', js ''username''}"
    by (auto simp: base_api_params_def Let_def str_param_def buildTimeRangeParams_def API_KEYS_def split: if_splits)
  moreover have "COLUMN_KEYS \<subseteq> set API_KEYS - {js ''channel'', js ''username''}"
    by (simp add: COLUMN_KEYS_def API_KEYS_def)
  ultimately show ?thesis unfolding buildApiParams_def using overrides_keys by blast
qed

lemma query_keys: "fst ` set (buildQueryParams p) \<subseteq> fst ` set p"
  by (auto simp: buildQueryParams_def image_iff) force

lemma sub_disjoint: "A \<subseteq> P \<union> B \<Longrightarrow> B \<subseteq> K - X \<Longrightarrow> P \<inter> X = {} \<Longrightarrow> A \<inter> X = {}"
  by blast

lemma assign_keys: "fst ` set (props_assign p q) \<subseteq> fst ` set p \<union> fst ` set q"
  using set_props_assign [of p q] by fastforce

lemma base_params_keys:
  "fst ` set (buildBaseParams today page sz sp ms) \<subseteq>
     js ` {''p'', ''page_size'', ''channel_id'', ''start_timestamp'', ''end_timestamp''}"
  by (auto simp: buildBaseParams_def str_param_def buildTimeRangeParams_def Let_def split: if_splits)

lemma fetch_keys: "fst ` set (req_query (fetchLogs e params a)) \<subseteq> {js ''p'', js ''page_size''} \<union> fst ` set params"
  unfolding fetchLogs_def by (simp, intro order_trans [OF query_keys] order_trans [OF assign_keys]) auto

lemma other_logs_keys:
  assumes "cat \<noteq> Common"
  shows "fst ` set (req_query (fetchLogsByCategory today cat a page sz sp fs)) \<subseteq>
    js ` {''p'', ''page_size'', ''channel_id'', ''start_timestamp'', ''end_timestamp'', ''mj_id'', ''task_id''}"
proof -
  have "fst ` set (req_query (fetchLogs e (props_assign (buildBaseParams today page sz sp ms) [(js k, v)]) a)) \<subseteq>
      js ` {''p'', ''page_size'', ''channel_id'', ''start_timestamp'', ''end_timestamp'', ''mj_id'', ''task_id''}"
    if "k \<in> {''mj_id'', ''task_id''}" for e k v ms
    using that fetch_keys [of e "props_assign (buildBaseParams today page sz sp ms) [(js k, v)]" a]
      assign_keys [of "buildBaseParams today page sz sp ms" "[(js k, v)]"] base_params_keys [of today page sz sp ms] by auto
  then show ?thesis using assms by (cases cat) (simp_all add: fetchLogsByCategory_def)
qed

text \<open>C36: a user who is not an administrator only asks for the own logs: every request of the three kinds of
  logs and of the statistics goes to an endpoint of the user and carries neither the parameter \<^verbatim>\<open>channel\<close>
  nor \<^verbatim>\<open>username\<close>, whatever the URL and the column filters say; those of the common logs carry no
  \<^verbatim>\<open>channel_id\<close> either. (The requests of drawing and task logs do, see \<open>channel_id_for_everyone\<close>.)\<close>

theorem own_logs_only:
  "req_path (fetchLogsByCategory today cat False page sz sp fs) \<in> {js ''/api/log/self'', js ''/api/mj/self'', js ''/api/task/self''} \<and>
   req_path (stats_request today False sp) = js ''/api/log/self/stat'' \<and>
   fst ` set (req_query (fetchLogsByCategory today cat False page sz sp fs)) \<inter> {js ''channel'', js ''username''} = {} \<and>
   fst ` set (req_query (fetchLogsByCategory today Common False page sz sp fs)) \<inter> {js ''channel_id'', js ''channel'', js ''username''} = {} \<and>
   fst ` set (req_query (stats_request today False sp)) \<inter> {js ''channel_id'', js ''channel'', js ''username''} = {}"
proof -
  have keys: "set API_KEYS - {js ''channel'', js ''username''} = set API_KEYS - {js ''channel_id'', js ''channel'', js ''username''}"
    by (simp add: API_KEYS_def)
  have common: "fst ` set (req_query (fetchLogsByCategory today Common False page sz sp fs)) \<inter> {js ''channel_id'', js ''channel'', js ''username''} = {}"
    unfolding fetchLogsByCategory_def log_category.case
    by (rule sub_disjoint [OF fetch_keys user_params_keys [unfolded keys]]) simp
  have "fst ` set (req_query (stats_request today False sp)) \<subseteq> {} \<union> fst ` set (buildApiParams today (Fin 1) (Fin 1) sp [] False)"
    by (simp add: stats_request_def fetchLogStats_def query_keys)
  then have stats: "fst ` set (req_query (stats_request today False sp)) \<inter> {js ''channel_id'', js ''channel'', js ''username''} = {}"
    by (rule sub_disjoint [OF _ user_params_keys [unfolded keys]]) simp
  have "fst ` set (req_query (fetchLogsByCategory today cat False page sz sp fs)) \<inter> {js ''channel'', js ''username''} = {}"
    using common other_logs_keys [of cat today False page sz sp fs] by (cases "cat = Common") auto
  moreover have "req_path (fetchLogsByCategory today cat False page sz sp fs) \<in> {js ''/api/log/self'', js ''/api/mj/self'', js ''/api/task/self''}"
    by (cases cat) (simp_all add: fetchLogsByCategory_def fetchLogs_def buildApiPath_def flip: js_append)
  moreover have "req_path (stats_request today False sp) = js ''/api/log/self/stat''"
    by (simp add: stats_request_def fetchLogStats_def buildApiPath_def flip: js_append)
  ultimately show ?thesis using common stats by blast
qed

subsection \<open>Table and statistics\<close>

lemma base_lookup:
  "props_get (base_api_params today page sz sp a) (js ''model_name'') =
     (if truthy (val_at sp (js ''model'')) then Some (JStr (to_str (val_at sp (js ''model'')))) else None)"
  "props_get (base_api_params today page sz sp a) (js ''token_name'') =
     (if truthy (val_at sp (js ''token'')) then Some (JStr (to_str (val_at sp (js ''token'')))) else None)"
  "props_get (base_api_params today page sz sp a) (js ''group'') =
     (if truthy (val_at sp (js ''group'')) then Some (JStr (to_str (val_at sp (js ''group'')))) else None)"
  "props_get (base_api_params today page sz sp a) (js ''channel'') =
     (if a \<and> truthy (val_at sp (js ''channel'')) then Some (channel_number (val_at sp (js ''channel''))) else None)"
  "props_get (base_api_params today page sz sp a) (js ''username'') =
     (if a \<and> truthy (val_at sp (js ''username'')) then Some (JStr (to_str (val_at sp (js ''username'')))) else None)"
  "props_get (base_api_params today page sz sp a) (js ''request_id'') =
     (if truthy (val_at sp (js ''requestId'')) then Some (JStr (to_str (val_at sp (js ''requestId'')))) else None)"
  "props_get (base_api_params today page sz sp a) (js ''upstream_request_id'') =
     (if truthy (val_at sp (js ''upstreamRequestId'')) then Some (JStr (to_str (val_at sp (js ''upstreamRequestId'')))) else None)"
  "props_get (base_api_params today page sz sp a) (js ''type'') =
     (if truthy (val_at sp (js ''type'')) then Some (processType (val_at sp (js ''type''))) else None)"
  "props_get (base_api_params today page sz sp a) (js ''p'') = Some (JNum page)"
  "props_get (base_api_params today page sz sp a) (js ''page_size'') = Some (JNum sz)"
  by (simp_all add: base_api_params_def Let_def props_get_def str_param_def buildTimeRangeParams_def map_add_def)

text \<open>The search parameters that the schema of the route admits as texts.\<close>

definition text_params :: "jsval props \<Rightarrow> bool" where
  "text_params sp \<longleftrightarrow>
     list_all (\<lambda>k. case val_at sp (js k) of JUndef \<Rightarrow> True | JStr s \<Rightarrow> True | _ \<Rightarrow> False)
       [''model'', ''token'', ''group'', ''channel'', ''username'']"

lemma collected_text:
  assumes "case v of JUndef \<Rightarrow> True | JStr s \<Rightarrow> True | _ \<Rightarrow> False"
    "\<And>s. v = JStr s \<Longrightarrow> s \<noteq> [] \<Longrightarrow> column_override a B \<lparr>filter_id = js c, filter_value = JStr s\<rparr> = B"
  shows "foldl (column_override a) B (collected_filter (text_column c k) v) = B"
proof (cases v)
  case (JStr s)
  then show ?thesis
    using assms(2) [of s]
    by (cases "s = []")
      (simp_all add: collected_filter_def text_column_def transform_def is_string_filter_def or_empty_str_def Let_def)
qed (use assms(1) in \<open>simp_all add: collected_filter_def text_column_def transform_def is_string_filter_def or_empty_str_def\<close>)

lemma collected_type:
  "foldl (column_override a) B (collected_filter \<lparr>columnId = js ''created_at'', searchKey = k, filter_type = Some (js ''array''),
     serialize = None, deserialize = d\<rparr> v) = B"
  by (auto simp: collected_filter_def is_string_filter_def column_override_def Let_def split: jsval.splits)

text \<open>The column filters come from the same search parameters, so they override nothing.\<close>

lemma filters_agree:
  assumes "text_params sp"
  shows "buildApiParams today page sz sp (initialColumnFilters (logs_table m a) sp) a = base_api_params today page sz sp a"
proof -
  let ?B = "base_api_params today page sz sp a"
  have texts: "case val_at sp (js k) of JUndef \<Rightarrow> True | JStr s \<Rightarrow> True | _ \<Rightarrow> False"
    if "k \<in> {''model'', ''token'', ''group'', ''channel'', ''username''}" for k
    using assms that by (auto simp: text_params_def)
  have same:
    "foldl (column_override a) ?B (collected_filter (text_column ''model_name'' ''model'') (val_at sp (js ''model''))) = ?B"
    "foldl (column_override a) ?B (collected_filter (text_column ''token_name'' ''token'') (val_at sp (js ''token''))) = ?B"
    "foldl (column_override a) ?B (collected_filter (text_column ''group'' ''group'') (val_at sp (js ''group''))) = ?B"
    by (intro collected_text texts; simp add: column_override_def base_lookup props_set_same)+
  have admin:
    "foldl (column_override a) ?B (collected_filter (text_column ''channel'' ''channel'') (val_at sp (js ''channel''))) = ?B"
    "foldl (column_override a) ?B (collected_filter (text_column ''username'' ''username'') (val_at sp (js ''username''))) = ?B"
    by (intro collected_text texts; simp add: column_override_def base_lookup props_set_same)+
  have key: "searchKey (text_column c k) = js k" for c k by (simp add: text_column_def)
  show ?thesis
    unfolding buildApiParams_def initialColumnFilters_def logs_table_def
    using same admin by (cases a) (simp_all add: collected_type key)
qed

definition without :: "jsstring set \<Rightarrow> log_request \<Rightarrow> (jsstring \<times> jsstring) list" where
  "without ks r = filter (\<lambda>(k, v). k \<notin> ks) (req_query r)"

definition same_filters :: "jsstring set \<Rightarrow> log_request \<Rightarrow> log_request \<Rightarrow> bool" where
  "same_filters ks r1 r2 \<longleftrightarrow> without (ks \<union> {js ''p'', js ''page_size''}) r1 = without (ks \<union> {js ''p'', js ''page_size''}) r2"

text \<open>\<^verbatim>\<open>searchParams.startTime ?? searchParams.endTime\<close> is given: the default range, which depends on the
  clock, is not used.\<close>

definition has_time_params :: "jsval props \<Rightarrow> bool" where
  "has_time_params sp \<longleftrightarrow>
     truthy (if val_at sp (js ''startTime'') = JUndef \<or> val_at sp (js ''startTime'') = JNull
             then val_at sp (js ''endTime'') else val_at sp (js ''startTime''))"

lemma page_irrelevant:
  assumes "buildTimeRangeParams today sp False = buildTimeRangeParams today' sp False \<or>
    (range_start today = range_start today' \<and> js ''end_timestamp'' \<in> ks)"
  shows "filter (\<lambda>(k, v). k \<notin> ks \<union> {js ''p'', js ''page_size''}) (buildQueryParams (base_api_params today page sz sp a)) =
   filter (\<lambda>(k, v). k \<notin> ks \<union> {js ''p'', js ''page_size''}) (buildQueryParams (base_api_params today' page' sz' sp a))"
proof -
  have "filter (\<lambda>(k, v). k \<notin> ks \<union> {js ''p'', js ''page_size''}) (buildQueryParams (buildTimeRangeParams today sp False)) =
      filter (\<lambda>(k, v). k \<notin> ks \<union> {js ''p'', js ''page_size''}) (buildQueryParams (buildTimeRangeParams today' sp False))"
    using assms
  proof
    assume same: "range_start today = range_start today' \<and> js ''end_timestamp'' \<in> ks"
    define ranges where "ranges today = (if truthy (if val_at sp (js ''startTime'') = JUndef \<or> val_at sp (js ''startTime'') = JNull
        then val_at sp (js ''endTime'') else val_at sp (js ''startTime'')) then None else Some today)" for today :: time_range
    have "map_option range_start (ranges today) = map_option range_start (ranges today')" using same by (simp add: ranges_def)
    moreover have "buildTimeRangeParams t sp False =
        [(js ''start_timestamp'', getTimestamp False (val_at sp (js ''startTime'')) (map_option range_start (ranges t))),
         (js ''end_timestamp'', getTimestamp False (val_at sp (js ''endTime'')) (map_option range_end (ranges t)))]" for t
      unfolding buildTimeRangeParams_def Let_def ranges_def ..
    ultimately show ?thesis using same by (simp add: buildQueryParams_def)
  qed simp
  note times = this
  have parts: "buildQueryParams (p @ q) = buildQueryParams p @ buildQueryParams q" for p q
    by (simp add: buildQueryParams_def)
  obtain mid where mid: "\<And>today page sz. base_api_params today page sz sp a =
      [(js ''p'', JNum page), (js ''page_size'', JNum sz)] @ mid @ buildTimeRangeParams today sp False"
    unfolding base_api_params_def Let_def by (metis append.assoc)
  have "filter (\<lambda>(k, v). k \<notin> ks \<union> {js ''p'', js ''page_size''})
      (buildQueryParams [(js ''p'', JNum page), (js ''page_size'', JNum sz)]) = []" for page sz
    by (simp add: buildQueryParams_def)
  then show ?thesis unfolding mid parts filter_append times by (simp only:)
qed

lemma common_request:
  assumes "text_params (search s)" "columnFilters s = initialColumnFilters (logs_table m a) (search s)"
  shows "table_request today m a Common s =
    (let pagination = table_pagination (logs_table m a) (local s) (search s)
     in \<lparr>req_path = buildApiPath ''/api/log'' a,
         req_query = buildQueryParams (base_api_params today (num_add (pageIndex pagination) (Fin 1)) (pageSize pagination) (search s) a)\<rparr>)"
  by (simp add: table_request_def fetchLogsByCategory_def fetchLogs_def Let_def assms(2) filters_agree [OF assms(1)] assign_base)

text \<open>C35: the statistics above the table are about the records of the table: once the table has read its
  filters from the URL, both requests ask the same endpoint and carry the same filters, if the URL has a
  time range. Without one each request takes its default range from its own reading of the clock, \<open>today\<close>
  and \<open>today'\<close>; as long as both are on the same day, everything but the end of the range agrees.
  (Hypothesis: the filter parameters of the URL are texts, as the search schema of the route has them.)\<close>

theorem stats_match_table:
  assumes "text_params (search s)" "columnFilters s = initialColumnFilters (logs_table m a) (search s)"
  shows "req_path (stats_request today' a (search s)) = req_path (table_request today m a Common s) @ js ''/stat'' \<and>
    (has_time_params (search s) \<longrightarrow> same_filters {} (table_request today m a Common s) (stats_request today' a (search s))) \<and>
    (range_start today = range_start today' \<longrightarrow>
       same_filters {js ''end_timestamp''} (table_request today m a Common s) (stats_request today' a (search s)))"
proof -
  have "buildTimeRangeParams today (search s) False = buildTimeRangeParams today' (search s) False" if "has_time_params (search s)"
    using that by (auto simp: buildTimeRangeParams_def has_time_params_def Let_def)
  then show ?thesis
    using page_irrelevant [of today "search s" today' "{}"] page_irrelevant [of today "search s" today' "{js ''end_timestamp''}"]
    by (simp add: common_request [OF assms] same_filters_def without_def stats_request_def fetchLogStats_def buildApiParams_def Let_def)
qed

subsection \<open>From the filter bar to the request\<close>

lemma map_of_text_entry: "map_of (text_entry k v) k' = (if k' = js k then map_option JStr (filled v) else None)"
  by (auto simp: text_entry_def split: option.splits)

lemma map_of_date_entry: "map_of (date_entry k v) k' = (if k' = js k then map_option JNum v else None)"
  by (auto simp: date_entry_def split: option.splits)

definition opt_val :: "jsval option \<Rightarrow> jsval" where
  "opt_val v = (case v of Some w \<Rightarrow> w | None \<Rightarrow> JUndef)"

lemma applied_values:
  "val_at (handleApply f lt) (js ''startTime'') = opt_val (map_option JNum (lf_startTime f))"
  "val_at (handleApply f lt) (js ''endTime'') = opt_val (map_option JNum (lf_endTime f))"
  "val_at (handleApply f lt) (js ''channel'') = opt_val (map_option JStr (filled (lf_channel f)))"
  "val_at (handleApply f lt) (js ''model'') = opt_val (map_option JStr (filled (lf_model f)))"
  "val_at (handleApply f lt) (js ''token'') = opt_val (map_option JStr (filled (lf_token f)))"
  "val_at (handleApply f lt) (js ''group'') = opt_val (map_option JStr (filled (lf_group f)))"
  "val_at (handleApply f lt) (js ''username'') = opt_val (map_option JStr (filled (lf_username f)))"
  "val_at (handleApply f lt) (js ''requestId'') = opt_val (map_option JStr (filled (lf_requestId f)))"
  "val_at (handleApply f lt) (js ''upstreamRequestId'') = opt_val (map_option JStr (filled (lf_upstreamRequestId f)))"
  "val_at (handleApply f lt) (js ''type'') = JArr [JStr lt]"
  "val_at (handleApply f lt) (js ''page'') = JNum (Fin 1)"
  by (simp_all add: handleApply_def buildSearchParams_def val_at_def opt_val_def props_get_def Let_def map_add_def
      map_of_text_entry map_of_date_entry split: option.splits)

lemma filled_truthy: "truthy (opt_val (map_option JStr (filled v))) \<longleftrightarrow> filled v \<noteq> None"
  by (auto simp: opt_val_def filled_def split: option.splits)

lemma text_params_applied: "text_params (handleApply f lt)"
  by (simp add: text_params_def applied_values opt_val_def split: option.splits)

lemma query_text:
  "(case (if truthy v then Some (JStr (to_str v)) else None) of
      Some w \<Rightarrow> if w \<noteq> JUndef \<and> w \<noteq> JNull \<and> w \<noteq> JStr [] then Some (to_str w) else None | None \<Rightarrow> None) = filled x"
  if "v = opt_val (map_option JStr (filled x))"
  using that by (auto simp: opt_val_def filled_def split: option.splits)

definition LOG_TYPE_VALUES :: "jsstring list" where
  "LOG_TYPE_VALUES = map js [''0'', ''1'', ''2'', ''3'', ''4'', ''5'', ''6'', ''7'']"

lemma type_sent:
  "lt \<in> set LOG_TYPE_VALUES \<Longrightarrow> processType (JArr [JStr lt]) \<noteq> JUndef \<and> processType (JArr [JStr lt]) \<noteq> JNull \<and>
     processType (JArr [JStr lt]) \<noteq> JStr [] \<and> to_str (processType (JArr [JStr lt])) = lt"
proof -
  have "list_all (\<lambda>lt. processType (JArr [JStr lt]) \<noteq> JUndef \<and> processType (JArr [JStr lt]) \<noteq> JNull \<and>
      processType (JArr [JStr lt]) \<noteq> JStr [] \<and> to_str (processType (JArr [JStr lt])) = lt) LOG_TYPE_VALUES"
    by code_simp
  then show "lt \<in> set LOG_TYPE_VALUES \<Longrightarrow> ?thesis" by (simp add: list_all_iff)
qed

lemma time_lookup:
  "props_get (base_api_params today page sz sp a) (js ''start_timestamp'') = props_get (buildTimeRangeParams today sp False) (js ''start_timestamp'')"
  "props_get (base_api_params today page sz sp a) (js ''end_timestamp'') = props_get (buildTimeRangeParams today sp False) (js ''end_timestamp'')"
  by (simp_all add: base_api_params_def Let_def props_get_def str_param_def buildTimeRangeParams_def map_add_def)

lemma seconds_sent:
  assumes "0 < m" "m < 1000 * 2 ^ 43"
  shows "getTimestamp False (JNum (Fin (of_int m))) d = JNum (Fin (of_int (m div 1000)))"
    "num_to_str (Fin (of_int (m div 1000))) = int_str (m div 1000)"
proof -
  show "getTimestamp False (JNum (Fin (of_int m))) d = JNum (Fin (of_int (m div 1000)))"
    using assms num_floor_seconds [of m] by (simp add: getTimestamp_def val_or_def num_truthy_def timestampToSeconds_def)
  have "0 \<le> m div 1000" "m div 1000 < 2 ^ 43" using assms by (simp_all add: pos_imp_zdiv_nonneg_iff div_less_iff_less_mult)
  then show "num_to_str (Fin (of_int (m div 1000))) = int_str (m div 1000)" by (intro num_to_str_safe) simp
qed

lemma times_sent:
  assumes "val_at sp (js ''startTime'') = JNum (Fin (of_int t0))" "val_at sp (js ''endTime'') = JNum (Fin (of_int t1))"
    "0 < t0" "t0 < 1000 * 2 ^ 43" "0 < t1" "t1 < 1000 * 2 ^ 43"
  shows "props_get (buildTimeRangeParams today sp False) (js ''start_timestamp'') = Some (JNum (Fin (of_int (t0 div 1000))))"
    "props_get (buildTimeRangeParams today sp False) (js ''end_timestamp'') = Some (JNum (Fin (of_int (t1 div 1000))))"
  using assms by (simp_all add: buildTimeRangeParams_def props_get_def Let_def seconds_sent)

text \<open>C34: what is entered in the filter bar reaches the server: applying the filters leads to a request
  for the first page with the texts of model, token, group and request as entered, the type, and the time
  range in whole seconds, cut and never rounded up. The user name and the channel are sent for
  administrators only, the channel as a number, which is 0 when the text is none. (Hypotheses: the log
  type is one of the page's, and both times are chosen, after the epoch and within the safe numbers.)\<close>

theorem applied_filters_sent:
  assumes "lt \<in> set LOG_TYPE_VALUES" "lf_startTime f = Some (Fin (of_int t0))" "lf_endTime f = Some (Fin (of_int t1))"
    "0 < t0" "t0 < 1000 * 2 ^ 43" "0 < t1" "t1 < 1000 * 2 ^ 43"
    and q: "q = map_of (req_query (table_request today m a Common (mount_table (logs_table m a) st (handleApply f lt))))"
  shows "q (js ''model_name'') = filled (lf_model f) \<and> q (js ''token_name'') = filled (lf_token f) \<and>
    q (js ''group'') = filled (lf_group f) \<and> q (js ''request_id'') = filled (lf_requestId f) \<and>
    q (js ''upstream_request_id'') = filled (lf_upstreamRequestId f) \<and>
    q (js ''username'') = (if a then filled (lf_username f) else None) \<and>
    q (js ''channel'') = (if a then map_option (\<lambda>c. to_str (channel_number (JStr c))) (filled (lf_channel f)) else None) \<and>
    q (js ''type'') = Some lt \<and> q (js ''p'') = Some (js ''1'') \<and>
    q (js ''start_timestamp'') = Some (int_str (t0 div 1000)) \<and> q (js ''end_timestamp'') = Some (int_str (t1 div 1000))"
proof -
  let ?sp = "handleApply f lt" and ?s = "mount_table (logs_table m a) st (handleApply f lt)"
  define sz where "sz = pageSize (table_pagination (logs_table m a) st ?sp)"
  have page: "num_add (pageIndex (table_pagination (logs_table m a) st ?sp)) (Fin 1) = Fin 1"
    using round_double_safe [of 0] round_double_safe [of 1]
    by (simp add: table_pagination_def pageNum_def pageKey_def logs_table_def cfg_or_def applied_values num_max_def)
  have "req_query (table_request today m a Common ?s) = buildQueryParams (base_api_params today (Fin 1) sz ?sp a)"
    using common_request [of ?s m a today] text_params_applied [of f lt] page
    by (simp add: mount_table_def Let_def sz_def)
  then have look: "q k = (case props_get (base_api_params today (Fin 1) sz ?sp a) k of
      Some v \<Rightarrow> if v \<noteq> JUndef \<and> v \<noteq> JNull \<and> v \<noteq> JStr [] then Some (to_str v) else None | None \<Rightarrow> None)" for k
    by (simp only: q query_lookup [OF base_props_ok])
  show ?thesis
  proof (intro conjI)
    show "q (js ''model_name'') = filled (lf_model f)" "q (js ''token_name'') = filled (lf_token f)"
      "q (js ''group'') = filled (lf_group f)" "q (js ''request_id'') = filled (lf_requestId f)"
      "q (js ''upstream_request_id'') = filled (lf_upstreamRequestId f)"
      unfolding look base_lookup by (rule query_text, rule applied_values)+
    show "q (js ''username'') = (if a then filled (lf_username f) else None)"
      using query_text [OF applied_values(7), of f lt] unfolding look base_lookup by simp
    show "q (js ''channel'') = (if a then map_option (\<lambda>c. to_str (channel_number (JStr c))) (filled (lf_channel f)) else None)"
      unfolding look base_lookup by (auto simp: applied_values opt_val_def filled_def channel_number_def split: option.splits)
    show "q (js ''type'') = Some lt"
      using type_sent [OF assms(1)] unfolding look base_lookup applied_values by simp
    show "q (js ''p'') = Some (js ''1'')" unfolding look base_lookup using num_to_str_safe [of 1] by (simp add: int_str_def dec_str.simps js_def)
    show "q (js ''start_timestamp'') = Some (int_str (t0 div 1000))" "q (js ''end_timestamp'') = Some (int_str (t1 div 1000))"
      unfolding look time_lookup
      using times_sent [of ?sp t0 t1 today] seconds_sent(2) [of t0] seconds_sent(2) [of t1] assms(2-7)
      by (simp_all add: applied_values opt_val_def)
  qed
qed

subsection \<open>What a log entry says\<close>

definition isDisplayableLogType :: "jsnum \<Rightarrow> bool" where
  "isDisplayableLogType ty \<longleftrightarrow> ty \<in> set [Fin 0, Fin 2, Fin 5, Fin 6]"

definition isTimingLogType :: "jsnum \<Rightarrow> bool" where
  "isTimingLogType ty \<longleftrightarrow> ty \<in> set [Fin 2, Fin 5]"

definition isPerCallBilling :: "jsnum option \<Rightarrow> bool" where
  "isPerCallBilling modelPrice \<longleftrightarrow> num_lt (Fin 0) (case modelPrice of Some p \<Rightarrow> p | None \<Rightarrow> Fin 0)"

record audit_line =
  al_action :: jsstring
  al_content :: jsstring

text \<open>\<^verbatim>\<open>indexOf(' ')\<close> is negative exactly when \<open>takeWhile\<close> is the whole line.\<close>

definition parseAuditLine :: "jsval \<Rightarrow> audit_line option" where
  "parseAuditLine line =
     (case line of
        JStr s \<Rightarrow>
          let action = takeWhile (\<lambda>c. c \<noteq> 32) s
          in Some (if action = s \<or> action = [] then \<lparr>al_action = s, al_content = s\<rparr>
                   else \<lparr>al_action = action, al_content = drop (length action + 1) s\<rparr>)
      | _ \<Rightarrow> None)"

definition isViolationFeeLog :: "jsval \<Rightarrow> bool" where
  "isViolationFeeLog other \<longleftrightarrow> truthy other \<and>
     (prop_of other (js ''violation_fee'') = JBool True \<or> truthy (prop_of other (js ''violation_fee_code'')) \<or>
      truthy (prop_of other (js ''violation_fee_marker'')))"

definition parseLogOther :: "jsstring \<Rightarrow> jsval" where
  "parseLogOther other = (if other = [] then JNull else case json_parse other of Some v \<Rightarrow> v | None \<Rightarrow> JNull)"

datatype color = Success | Warning | Danger

definition getTimeColor :: "jsnum \<Rightarrow> color" where
  "getTimeColor seconds = (if num_lt seconds (Fin 10) then Success else if num_lt seconds (Fin 30) then Warning else Danger)"

definition getFirstResponseTimeColor :: "jsnum \<Rightarrow> color" where
  "getFirstResponseTimeColor seconds = (if num_lt seconds (Fin 5) then Success else if num_lt seconds (Fin 10) then Warning else Danger)"

definition getThroughputColor :: "jsnum \<Rightarrow> color" where
  "getThroughputColor n = (if num_le (Fin 30) n then Success else if num_le (Fin 15) n then Warning else Danger)"

definition getResponseTimeColor :: "jsnum \<Rightarrow> jsnum \<Rightarrow> color" where
  "getResponseTimeColor seconds completionTokens =
     (if num_lt completionTokens (Fin 100) \<or> num_le seconds (Fin 0) then getTimeColor seconds
      else getThroughputColor (num_div completionTokens seconds))"

record model_name_info =
  mi_name :: jsstring
  mi_isMapped :: bool
  mi_actualModel :: jsval

definition formatModelName :: "jsstring \<Rightarrow> jsstring \<Rightarrow> bool \<Rightarrow> model_name_info" where
  "formatModelName log_model log_other showActualModel =
     (let other = parseLogOther log_other; admin = prop_of other (js ''admin_info'');
          upstreamModel = val_or (prop_of admin (js ''upstream_model_name'')) (val_or (prop_of admin (js ''original_model_name''))
            (val_or (prop_of admin (js ''original_model'')) (val_or (prop_of admin (js ''upstream_model''))
              (prop_of other (js ''upstream_model_name'')))));
          isMapped = ((truthy (prop_of admin (js ''is_model_mapped'')) \<or> truthy (prop_of other (js ''is_model_mapped''))) \<and>
            truthy upstreamModel)
      in \<lparr>mi_name = log_model, mi_isMapped = isMapped,
          mi_actualModel = (if showActualModel \<and> isMapped then upstreamModel else JUndef)\<rparr>)"

definition formatDuration :: "jsnum option \<Rightarrow> jsnum option \<Rightarrow> bool \<Rightarrow> (jsnum \<times> bool) option" where
  "formatDuration submitTime finishTime milliseconds =
     (case (submitTime, finishTime) of
        (Some s, Some f) \<Rightarrow>
          if num_truthy s \<and> num_truthy f
          then let d = (if milliseconds then num_div (num_sub f s) (Fin 1000) else num_sub f s)
               in Some (d, num_lt (Fin 60) d)
          else None
      | _ \<Rightarrow> None)"

subsection \<open>The tier that a log entry was billed with\<close>

text \<open>\<open>atob\<close> throws on texts that are no base64; \<open>utf8\<close> decodes bytes and replaces what is no UTF-8.\<close>

record decoders =
  atob :: "jsstring \<Rightarrow> jsstring option"
  utf8 :: "int list \<Rightarrow> jsstring"

definition decodeBillingExprB64 :: "decoders \<Rightarrow> jsval \<Rightarrow> jsstring" where
  "decodeBillingExprB64 D exprB64 =
     (if \<not> truthy exprB64 then []
      else case atob D (to_str exprB64) of Some bin \<Rightarrow> utf8 D (map (\<lambda>c. c mod 256) bin) | None \<Rightarrow> [])"

definition label_matches :: "(jsstring \<Rightarrow> jsstring) \<Rightarrow> jsstring \<Rightarrow> parsed_tier \<Rightarrow> bool" where
  "label_matches lower l t \<longleftrightarrow>
     normalizeTierLabel lower (Some (pt_label t)) = normalizeTierLabel lower (Some l) \<and>
     normalizeTierLabel lower (Some (pt_label t)) \<noteq> []"

text \<open>A label that is neither missing nor a text throws: it has no method \<^verbatim>\<open>replace\<close>.\<close>

definition resolveMatchedTier :: "(jsstring \<Rightarrow> jsstring) \<Rightarrow> parsed_tier list \<Rightarrow> jsval \<Rightarrow> parsed_tier option option" where
  "resolveMatchedTier lower tiers matchedLabel =
     (if tiers = [] \<or> \<not> truthy matchedLabel then Some None
      else case matchedLabel of JStr l \<Rightarrow> Some (List.find (label_matches lower l) tiers) | _ \<Rightarrow> None)"

definition positive_number :: "jsval \<Rightarrow> bool" where
  "positive_number v \<longleftrightarrow> num_lt (Fin 0) (to_number (val_or v (JNum (Fin 0))))"

definition hasAnyCacheTokens :: "jsval \<Rightarrow> bool" where
  "hasAnyCacheTokens other \<longleftrightarrow> truthy other \<and>
     (positive_number (prop_of other (js ''cache_tokens'')) \<or> positive_number (prop_of other (js ''cache_creation_tokens'')) \<or>
      positive_number (prop_of other (js ''cache_creation_tokens_5m'')) \<or> positive_number (prop_of other (js ''cache_creation_tokens_1h'')))"

record price_entry =
  pe_field :: jsstring
  pe_shortLabel :: jsstring
  pe_price :: jsnum
  pe_isPerCall :: bool

definition shown_price :: "jsnum \<Rightarrow> bool" where
  "shown_price p \<longleftrightarrow> num_is_finite p \<and> num_lt (Fin 0) p"

definition price_of :: "parsed_tier \<Rightarrow> jsstring \<Rightarrow> jsnum" where
  "price_of tier field = (case map_of (pt_prices tier) field of Some p \<Rightarrow> p | None \<Rightarrow> NaN)"

definition price_entries :: "bool \<Rightarrow> parsed_tier \<Rightarrow> price_entry list" where
  "price_entries cacheTokensPresent tier =
     (if shown_price (pt_per_call_cost tier)
      then [\<lparr>pe_field = js ''per_call_cost'', pe_shortLabel = js ''Per-call'', pe_price = pt_per_call_cost tier, pe_isPerCall = True\<rparr>]
      else []) @
     concat (map (\<lambda>v. case bv_field v of
          None \<Rightarrow> []
        | Some field \<Rightarrow>
            if bv_group v = Some (js ''cache'') \<and> \<not> cacheTokensPresent \<or> \<not> shown_price (price_of tier field) then []
            else [\<lparr>pe_field = field, pe_shortLabel = shortLabel v, pe_price = price_of tier field, pe_isPerCall = False\<rparr>])
       BILLING_PRICING_VARS)"

record tiered_summary =
  ts_tiers :: "parsed_tier list"
  ts_tier :: parsed_tier
  ts_entries :: "price_entry list"

definition getTieredBillingSummary :: "decoders \<Rightarrow> (jsstring \<Rightarrow> jsstring) \<Rightarrow> jsval \<Rightarrow> tiered_summary option option" where
  "getTieredBillingSummary D lower other =
     (let exprStr = decodeBillingExprB64 D (prop_of other (js ''expr_b64''))
      in if \<not> truthy other \<or> prop_of other (js ''billing_mode'') \<noteq> JStr (js ''tiered_expr'') \<or> exprStr = [] then Some None
         else Option.bind (parseTiersFromExpr exprStr) (\<lambda>tiers.
           Option.bind (resolveMatchedTier lower tiers (prop_of other (js ''matched_tier''))) (\<lambda>found.
             Some (map_option (\<lambda>tier. \<lparr>ts_tiers = tiers, ts_tier = tier,
               ts_entries = price_entries (hasAnyCacheTokens other) tier\<rparr>) found))))"

text \<open>The prices that may be shown for a tier: those above zero, cache prices only for entries that used
  the cache.\<close>

definition billed_prices :: "bool \<Rightarrow> parsed_tier \<Rightarrow> (jsstring \<times> jsnum) set" where
  "billed_prices cache tier =
     {(f, p). shown_price p \<and>
        (f = js ''per_call_cost'' \<and> p = pt_per_call_cost tier \<or>
         (\<exists>v\<in>set BILLING_PRICING_VARS. bv_field v = Some f \<and> p = price_of tier f \<and> (bv_group v = Some (js ''cache'') \<longrightarrow> cache)))}"

lemma entries_exact: "(\<lambda>e. (pe_field e, pe_price e)) ` set (price_entries cache tier) = billed_prices cache tier"
proof (intro set_eqI iffI)
  fix x assume "x \<in> (\<lambda>e. (pe_field e, pe_price e)) ` set (price_entries cache tier)"
  then show "x \<in> billed_prices cache tier"
    by (auto simp: price_entries_def billed_prices_def split: if_splits option.splits)
next
  fix x assume "x \<in> billed_prices cache tier"
  then obtain f p where x: "x = (f, p)" "shown_price p" and
    src: "f = js ''per_call_cost'' \<and> p = pt_per_call_cost tier \<or>
      (\<exists>v\<in>set BILLING_PRICING_VARS. bv_field v = Some f \<and> p = price_of tier f \<and> (bv_group v = Some (js ''cache'') \<longrightarrow> cache))"
    by (auto simp: billed_prices_def)
  from src show "x \<in> (\<lambda>e. (pe_field e, pe_price e)) ` set (price_entries cache tier)"
  proof (elim disjE bexE conjE)
    assume "f = js ''per_call_cost''" "p = pt_per_call_cost tier"
    then show ?thesis using x by (auto simp: price_entries_def)
  next
    fix v assume v: "v \<in> set BILLING_PRICING_VARS" "bv_field v = Some f" "p = price_of tier f" "bv_group v = Some (js ''cache'') \<longrightarrow> cache"
    then have "\<lparr>pe_field = f, pe_shortLabel = shortLabel v, pe_price = p, pe_isPerCall = False\<rparr> \<in> set (price_entries cache tier)"
      using x(2) unfolding price_entries_def set_append set_concat set_map
      by (intro UnI2) (rule UN_I [OF imageI [OF v(1)]], auto)
    then show ?thesis using x(1) by force
  qed
qed

lemma find_first: "List.find P xs = Some x \<Longrightarrow> x \<in> set xs \<and> P x"
  by (auto simp: find_Some_iff)

definition text_or_missing :: "jsval \<Rightarrow> bool" where
  "text_or_missing v \<longleftrightarrow> \<not> truthy v \<or> (\<exists>l. v = JStr l)"

text \<open>C37: the price of a log entry that is billed by tiers: a summary comes about exactly when a tier of the
  entry's own expression has the label of the entry after both are normalised, and it shows exactly the
  prices of the first such tier. If normalisation keeps the label of the entry's tier apart from the other
  labels, that is the tier with exactly this label. Looking for it always ends. (Hypotheses: the entry is
  billed by tiers and has an expression that decodes, and its label is a text or missing.)\<close>

theorem shown_tier_exact:
  assumes "text_or_missing (prop_of other (js ''matched_tier''))"
    and "prop_of other (js ''billing_mode'') = JStr (js ''tiered_expr'')"
    and "decodeBillingExprB64 D (prop_of other (js ''expr_b64'')) \<noteq> []"
  shows "\<exists>tiers found. parseTiersFromExpr (decodeBillingExprB64 D (prop_of other (js ''expr_b64''))) = Some tiers \<and>
    getTieredBillingSummary D lower other = Some found \<and>
    (found = None \<longleftrightarrow> (\<forall>t\<in>set tiers. \<forall>l. prop_of other (js ''matched_tier'') = JStr l \<longrightarrow> \<not> label_matches lower l t)) \<and>
    (\<forall>s. found = Some s \<longrightarrow> ts_tiers s = tiers \<and> ts_tier s \<in> set tiers \<and>
       (\<exists>l. prop_of other (js ''matched_tier'') = JStr l \<and> label_matches lower l (ts_tier s) \<and>
            List.find (label_matches lower l) tiers = Some (ts_tier s)) \<and>
       (\<lambda>e. (pe_field e, pe_price e)) ` set (ts_entries s) = billed_prices (hasAnyCacheTokens other) (ts_tier s)) \<and>
    (\<forall>t\<in>set tiers. prop_of other (js ''matched_tier'') = JStr (pt_label t) \<and>
       (\<forall>t'\<in>set tiers. label_matches lower (pt_label t) t' \<longleftrightarrow> t' = t) \<longrightarrow> (\<exists>s. found = Some s \<and> ts_tier s = t))"
proof -
  let ?e = "decodeBillingExprB64 D (prop_of other (js ''expr_b64''))" and ?m = "prop_of other (js ''matched_tier'')"
  obtain tiers where tiers: "parseTiersFromExpr ?e = Some tiers" using parseTiersFromExpr_returns by blast
  have "truthy other" using assms(2) by (cases other) (auto simp: prop_of_def)
  then have sum: "getTieredBillingSummary D lower other =
      Option.bind (resolveMatchedTier lower tiers ?m) (\<lambda>found. Some (map_option (\<lambda>tier. \<lparr>ts_tiers = tiers, ts_tier = tier,
        ts_entries = price_entries (hasAnyCacheTokens other) tier\<rparr>) found))"
    using assms(2,3) tiers by (simp add: getTieredBillingSummary_def Let_def)
  consider (none) "tiers = [] \<or> \<not> truthy ?m" | (label) l where "tiers \<noteq> []" "?m = JStr l" "l \<noteq> []"
    using assms(1) unfolding text_or_missing_def by fastforce
  then show ?thesis
  proof cases
    case none
    have "\<not> label_matches lower l t" if "?m = JStr l" "t \<in> set tiers" for l t
      using none that by (auto simp: label_matches_def normalizeTierLabel_def)
    then show ?thesis using none tiers sum by (auto simp: resolveMatchedTier_def)
  next
    case (label l)
    then show ?thesis
    proof (cases "List.find (label_matches lower l) tiers")
      case None
      then have "\<forall>t\<in>set tiers. \<not> label_matches lower l t" by (simp add: find_None_iff)
      then show ?thesis using None label tiers sum by (auto simp: resolveMatchedTier_def)
    next
      case (Some tier)
      then have "tier \<in> set tiers" "label_matches lower l tier" using find_first [OF Some] by simp_all
      then show ?thesis using Some label tiers sum by (auto simp: resolveMatchedTier_def entries_exact)
    qed
  qed
qed

text \<open>A line of the audit is its action, a space and its content.\<close>

lemma audit_line_parts:
  assumes "parseAuditLine (JStr s) = Some r" "al_action r \<noteq> s"
  shows "s = al_action r @ 32 # al_content r"
proof -
  let ?a = "takeWhile (\<lambda>c. c \<noteq> 32) s"
  have r: "r = \<lparr>al_action = ?a, al_content = drop (length ?a + 1) s\<rparr>" "?a \<noteq> s"
    using assms by (auto simp: parseAuditLine_def Let_def split: if_splits)
  have d: "drop (length ?a) s = dropWhile (\<lambda>c. c \<noteq> 32) s" by (simp add: dropWhile_eq_drop)
  then obtain x xs where x: "dropWhile (\<lambda>c. c \<noteq> 32) s = x # xs"
    using r(2) by (cases "dropWhile (\<lambda>c. c \<noteq> 32) s") (auto simp: dropWhile_eq_Nil_conv takeWhile_eq_all_conv)
  then have "x = 32" using hd_dropWhile [of "\<lambda>c. c \<noteq> 32" s] by auto
  moreover have "drop (length ?a + 1) s = xs" using d x by (metis Suc_eq_plus1 drop_Suc list.sel(3) tl_drop)
  ultimately show ?thesis using takeWhile_dropWhile_id [of "\<lambda>c. c \<noteq> 32" s] x by (simp add: r(1))
qed

subsection \<open>Examples\<close>

definition sample_filters :: log_filters where
  "sample_filters =
     \<lparr>lf_startTime = Some (Fin (of_int 1700000000999)), lf_endTime = Some (Fin (of_int 1700003600000)),
      lf_channel = Some (js ''12''), lf_model = Some (js ''gpt-4o''), lf_token = Some [], lf_group = None,
      lf_username = Some (js ''root''), lf_requestId = None, lf_upstreamRequestId = None, lf_mjId = None, lf_taskId = None\<rparr>"

definition sample_range :: time_range where
  "sample_range = \<lparr>range_start = Fin 1000, range_end = Fin 2000\<rparr>"

definition sample_logs :: "bool \<Rightarrow> table_state" where
  "sample_logs a = mount_table (logs_table False a) (\<lambda>_. None) (handleApply sample_filters (js ''2''))"

theorem stats_match_table_witness:
  "same_filters {} (table_request sample_range False True Common (sample_logs True))
     (stats_request (sample_range\<lparr>range_end := Fin 2350\<rparr>) True (search (sample_logs True)))"
proof -
  have "has_time_params (search (sample_logs True))" by code_simp
  then show ?thesis
    using stats_match_table [of "sample_logs True" False True "sample_range\<lparr>range_end := Fin 2350\<rparr>" sample_range] text_params_applied
    by (simp add: sample_logs_def mount_table_def)
qed

text \<open>Drawing and task logs are asked for with the channel of the URL whatever the role of the user is.\<close>

lemma channel_id_for_everyone:
  "map_of (req_query (fetchLogsByCategory sample_range Task False (Fin 1) (Fin 20) [(js ''channel'', JStr (js ''7''))] [])) (js ''channel_id'') =
     Some (js ''7'')"
  by code_simp

theorem applied_filters_sent_witness:
  "let q = map_of (req_query (table_request sample_range False False Common (sample_logs False)))
   in q (js ''model_name'') = Some (js ''gpt-4o'') \<and> q (js ''username'') = None \<and>
      q (js ''start_timestamp'') = Some (int_str 1700000000)"
  using applied_filters_sent [of "js ''2''" sample_filters 1700000000999 1700003600000 _ sample_range False False "\<lambda>_. None", OF _ _ _ _ _ _ _ refl]
  by (simp add: sample_logs_def sample_filters_def LOG_TYPE_VALUES_def filled_def)

text \<open>A channel that is entered by name is sent as zero.\<close>

lemma channel_name_sent_as_zero: "to_str (channel_number (JStr (js ''openai''))) = js ''0''"
  by code_simp

text \<open>The default page is overwritten by the page that it replaces.\<close>

lemma default_page_overwritten: "req_query (fetchLogs ''/api/log'' [(js ''p'', JNum (Fin 0))] True) = [(js ''p'', js ''0''), (js ''page_size'', js ''20'')]"
  by code_simp

definition plain_decoders :: decoders where
  "plain_decoders = \<lparr>atob = Some, utf8 = (\<lambda>bytes. bytes)\<rparr>"

definition sample_entry :: jsval where
  "sample_entry = JObj [(js ''billing_mode'', JStr (js ''tiered_expr'')),
     (js ''expr_b64'', JStr (js ''tier(\"base\", p * 2 + c * 4)'')), (js ''matched_tier'', JStr (js ''Base''))]"

theorem shown_tier_exact_witness:
  "\<exists>tiers found. parseTiersFromExpr (js ''tier(\"base\", p * 2 + c * 4)'') = Some tiers \<and>
     getTieredBillingSummary plain_decoders ascii_lower sample_entry = Some found \<and>
     (\<forall>s. found = Some s \<longrightarrow> ts_tier s \<in> set tiers)"
proof -
  have "prop_of sample_entry (js ''matched_tier'') = JStr (js ''Base'')"
    "prop_of sample_entry (js ''billing_mode'') = JStr (js ''tiered_expr'')"
    "decodeBillingExprB64 plain_decoders (prop_of sample_entry (js ''expr_b64'')) = js ''tier(\"base\", p * 2 + c * 4)''"
    by code_simp+
  then show ?thesis
    using shown_tier_exact [of sample_entry plain_decoders ascii_lower] by (auto simp: text_or_missing_def js_def)
qed

text \<open>Two labels that differ in an equals sign only are the same for the search, so an entry billed by the
  second tier shows the prices of the first.\<close>

definition named_tier :: "string \<Rightarrow> rat \<Rightarrow> parsed_tier" where
  "named_tier l p = \<lparr>pt_label = js l, pt_conditions = [], pt_prices = [(js ''inputPrice'', Fin p)], pt_per_call_cost = Fin 0\<rparr>"

lemma similar_labels_confused:
  "resolveMatchedTier ascii_lower [named_tier ''<=200k'' 1, named_tier ''<200k'' 2] (JStr (js ''<200k'')) = Some (Some (named_tier ''<=200k'' 1))"
  by code_simp

end
