(* ===== verification/QuotaForms.thy ===== *)
theory QuotaForms
  imports JS_Value JS_Rounding "HOL-Library.Sublist"
begin

text \<open>
  Quota amounts in forms. The server counts quota in whole units, the forms show amounts in the currency
  that the administrator chose: \<^verbatim>\<open>getCurrencyDisplay\<close> of \<^verbatim>\<open>lib/currency.ts\<close>, the two conversions of
  \<^verbatim>\<open>lib/format.ts\<close>, the forms of API keys, redemption codes and subscription plans, and the dialogs that
  transfer rewards and adjust the quota of a user.

  The conversions are double precision; the main fact is that an amount that is shown and saved
  unchanged is saved as it was. The interface \<open>amount_codec\<close> states this law, and the forms rely on
  nothing else. A date is its time in milliseconds.
\<close>

subsection \<open>The display of amounts\<close>

record currency_config =
  quotaDisplayType :: jsstring
  quotaPerUnit :: jsnum
  usdExchangeRate :: jsnum
  customCurrencySymbol :: jsstring
  customCurrencyExchangeRate :: jsnum

definition DEFAULT_CURRENCY_CONFIG :: currency_config where
  "DEFAULT_CURRENCY_CONFIG =
     \<lparr>quotaDisplayType = js ''USD'', quotaPerUnit = Fin 500000, usdExchangeRate = Fin 1,
      customCurrencySymbol = [164], customCurrencyExchangeRate = Fin 1\<rparr>"

datatype display_meta =
    Currency (meta_symbol: jsstring) (currencyCode: jsstring) (exchangeRate: jsnum)
  | Custom (meta_symbol: jsstring) (exchangeRate: jsnum)
  | Tokens jsnum

definition positive_or :: "jsnum \<Rightarrow> jsnum \<Rightarrow> jsnum" where
  "positive_or x d = (if num_truthy x \<and> num_lt (Fin 0) x then x else d)"

definition getConfig :: "currency_config option \<Rightarrow> currency_config" where
  "getConfig stored =
     (let currency = (case stored of Some c \<Rightarrow> c | None \<Rightarrow> DEFAULT_CURRENCY_CONFIG)
      in currency\<lparr>quotaPerUnit := positive_or (quotaPerUnit currency) (quotaPerUnit DEFAULT_CURRENCY_CONFIG),
           usdExchangeRate := positive_or (usdExchangeRate currency) (usdExchangeRate DEFAULT_CURRENCY_CONFIG),
           customCurrencyExchangeRate :=
             positive_or (customCurrencyExchangeRate currency) (customCurrencyExchangeRate DEFAULT_CURRENCY_CONFIG),
           customCurrencySymbol :=
             (let s = trim (customCurrencySymbol currency)
              in if s \<noteq> [] then s else customCurrencySymbol DEFAULT_CURRENCY_CONFIG)\<rparr>)"

definition getDisplayMeta :: "currency_config \<Rightarrow> display_meta" where
  "getDisplayMeta c =
     (if quotaDisplayType c = js ''CNY'' then Currency [165] (js ''CNY'') (usdExchangeRate c)
      else if quotaDisplayType c = js ''CUSTOM'' then Custom (customCurrencySymbol c) (customCurrencyExchangeRate c)
      else if quotaDisplayType c = js ''TOKENS'' then Tokens (quotaPerUnit c)
      else Currency (js ''$'') (js ''USD'') (Fin 1))"

definition getCurrencyDisplay :: "currency_config option \<Rightarrow> currency_config \<times> display_meta" where
  "getCurrencyDisplay stored = (let config = getConfig stored in (config, getDisplayMeta config))"

definition rate_of :: "display_meta \<Rightarrow> jsnum" where
  "rate_of meta = (case meta of Currency s c r \<Rightarrow> r | Custom s r \<Rightarrow> r | Tokens u \<Rightarrow> Fin 1)"

definition parseQuotaFromDollars :: "currency_config option \<Rightarrow> jsnum \<Rightarrow> jsnum" where
  "parseQuotaFromDollars stored amount =
     (if \<not> num_is_finite amount then Fin 0
      else let (config, meta) = getCurrencyDisplay stored
           in case meta of
                Tokens u \<Rightarrow> num_round amount
              | _ \<Rightarrow> let exchangeRate = rate_of meta;
                        usdAmount = (if num_lt (Fin 0) exchangeRate then num_div amount exchangeRate else amount)
                    in num_round (num_mul usdAmount (quotaPerUnit config)))"

definition quotaUnitsToDollars :: "currency_config option \<Rightarrow> jsnum \<Rightarrow> jsnum" where
  "quotaUnitsToDollars stored units =
     (let (config, meta) = getCurrencyDisplay stored
      in case meta of
           Tokens u \<Rightarrow> units
         | _ \<Rightarrow> num_mul (num_div units (quotaPerUnit config)) (rate_of meta))"

subsection \<open>Dates\<close>

text \<open>\<^verbatim>\<open>new Date(ms).getTime()\<close>: whole milliseconds, not a number beyond the range of dates.\<close>

definition time_clip :: "jsnum \<Rightarrow> jsnum" where
  "time_clip x =
     (case x of Fin q \<Rightarrow> if \<bar>q\<bar> \<le> 8640000000000000 then Fin (of_int (if q < 0 then \<lceil>q\<rceil> else \<lfloor>q\<rfloor>)) else NaN
      | _ \<Rightarrow> NaN)"

definition date_of_seconds :: "jsnum \<Rightarrow> jsnum option" where
  "date_of_seconds t = (if num_lt (Fin 0) t then Some (time_clip (num_mul t (Fin 1000))) else None)"

definition seconds_or :: "rat \<Rightarrow> jsnum option \<Rightarrow> jsnum" where
  "seconds_or d t = (case t of Some ms \<Rightarrow> num_floor (num_div ms (Fin 1000)) | None \<Rightarrow> Fin d)"

subsection \<open>API keys\<close>

record api_key =
  ak_name :: jsstring
  ak_remain_quota :: jsnum
  ak_unlimited_quota :: bool
  ak_expired_time :: jsnum
  ak_group :: "jsstring option"
  ak_cross_group_retry :: bool
  ak_model_limits_enabled :: bool
  ak_model_limits :: "jsstring option"
  ak_allow_ips :: "jsstring option"

record key_form =
  kf_name :: jsstring
  kf_remain_quota_dollars :: "jsnum option"
  kf_expired_time :: "jsnum option"
  kf_unlimited_quota :: bool
  kf_model_limits :: "jsstring list"
  kf_allow_ips :: "jsstring option"
  kf_group :: "jsstring option"
  kf_cross_group_retry :: "bool option"
  kf_tokenCount :: "jsnum option"

record key_payload =
  kp_name :: jsstring
  kp_remain_quota :: jsnum
  kp_expired_time :: jsnum
  kp_unlimited_quota :: bool
  kp_model_limits_enabled :: bool
  kp_model_limits :: jsstring
  kp_allow_ips :: jsstring
  kp_group :: jsstring
  kp_cross_group_retry :: bool

definition text_or_empty :: "jsstring option \<Rightarrow> jsstring" where
  "text_or_empty s = (case s of Some t \<Rightarrow> t | None \<Rightarrow> [])"

definition opt_num :: "jsnum option \<Rightarrow> jsnum" where
  "opt_num x = (case x of Some n \<Rightarrow> if num_truthy n then n else Fin 0 | None \<Rightarrow> Fin 0)"

definition api_key_form_ok :: "key_form \<Rightarrow> bool" where
  "api_key_form_ok d \<longleftrightarrow>
     kf_name d \<noteq> [] \<and>
     (case kf_remain_quota_dollars d of Some n \<Rightarrow> num_is_finite n | None \<Rightarrow> True) \<and>
     (case kf_expired_time d of Some t \<Rightarrow> num_is_finite t | None \<Rightarrow> True) \<and>
     (case kf_tokenCount d of Some n \<Rightarrow> num_is_finite n \<and> num_le (Fin 1) n | None \<Rightarrow> True) \<and>
     (kf_unlimited_quota d \<or>
      (case kf_remain_quota_dollars d of Some n \<Rightarrow> \<not> num_lt n (Fin 0) | None \<Rightarrow> False))"

definition API_KEY_FORM_DEFAULT_VALUES :: key_form where
  "API_KEY_FORM_DEFAULT_VALUES =
     \<lparr>kf_name = [], kf_remain_quota_dollars = Some (Fin 10), kf_expired_time = None, kf_unlimited_quota = True,
      kf_model_limits = [], kf_allow_ips = Some [], kf_group = Some [], kf_cross_group_retry = Some True,
      kf_tokenCount = Some (Fin 1)\<rparr>"

definition getApiKeyFormDefaultValues :: "bool \<Rightarrow> key_form" where
  "getApiKeyFormDefaultValues defaultUseAutoGroup =
     API_KEY_FORM_DEFAULT_VALUES\<lparr>kf_group := Some (if defaultUseAutoGroup then js ''auto'' else []),
       kf_cross_group_retry := Some defaultUseAutoGroup\<rparr>"

definition key_payload_of :: "currency_config option \<Rightarrow> key_form \<Rightarrow> key_payload" where
  "key_payload_of stored d =
     \<lparr>kp_name = kf_name d,
      kp_remain_quota = (if kf_unlimited_quota d then Fin 0 else parseQuotaFromDollars stored (opt_num (kf_remain_quota_dollars d))),
      kp_expired_time = seconds_or (- 1) (kf_expired_time d),
      kp_unlimited_quota = kf_unlimited_quota d,
      kp_model_limits_enabled = (length (kf_model_limits d) > 0),
      kp_model_limits = join [44] (kf_model_limits d),
      kp_allow_ips = text_or_empty (kf_allow_ips d),
      kp_group = text_or_empty (kf_group d),
      kp_cross_group_retry = (if kf_group d = Some (js ''auto'') then kf_cross_group_retry d = Some True else False)\<rparr>"

definition transformApiKeyToFormDefaults :: "currency_config option \<Rightarrow> api_key \<Rightarrow> key_form" where
  "transformApiKeyToFormDefaults stored k =
     \<lparr>kf_name = ak_name k,
      kf_remain_quota_dollars = Some (if ak_unlimited_quota k then Fin 0 else quotaUnitsToDollars stored (ak_remain_quota k)),
      kf_expired_time = date_of_seconds (ak_expired_time k),
      kf_unlimited_quota = ak_unlimited_quota k,
      kf_model_limits =
        (if text_or_empty (ak_model_limits k) \<noteq> [] then filter (\<lambda>s. s \<noteq> []) (split_on 44 (text_or_empty (ak_model_limits k))) else []),
      kf_allow_ips = Some (text_or_empty (ak_allow_ips k)),
      kf_group = Some (text_or_empty (ak_group k)),
      kf_cross_group_retry = Some (ak_cross_group_retry k),
      kf_tokenCount = Some (Fin 1)\<rparr>"

text \<open>The drawer loads the key into the form, and an effect that runs on every render replaces a group that is
  not among the groups of the user, once these are loaded. \<open>groups\<close> are their names.\<close>

definition fallback_group :: "jsstring list \<Rightarrow> jsstring" where
  "fallback_group groups =
     (if js ''default'' \<in> set groups then js ''default'' else case groups of g # _ \<Rightarrow> g | [] \<Rightarrow> [])"

definition correct_group :: "jsstring list \<Rightarrow> key_form \<Rightarrow> key_form" where
  "correct_group groups f =
     (let currentGroup = text_or_empty (kf_group f)
      in if groups = [] \<or> currentGroup = [] \<or> currentGroup \<in> set groups then f
         else f\<lparr>kf_group := Some (fallback_group groups),
                kf_cross_group_retry := (if currentGroup = js ''auto'' then Some False else kf_cross_group_retry f)\<rparr>)"

definition opened_key :: "currency_config option \<Rightarrow> jsstring list \<Rightarrow> api_key \<Rightarrow> key_form" where
  "opened_key stored groups k = correct_group groups (transformApiKeyToFormDefaults stored k)"

subsection \<open>Redemption codes\<close>

record redemption =
  rd_name :: jsstring
  rd_quota :: jsnum
  rd_expired_time :: jsnum

record redemption_form =
  rf_name :: jsstring
  rf_quota_dollars :: jsnum
  rf_expired_time :: "jsnum option"
  rf_count :: "jsnum option"

record redemption_payload =
  rp_name :: jsstring
  rp_quota :: jsnum
  rp_expired_time :: jsnum
  rp_count :: jsnum

definition redemption_payload_of :: "currency_config option \<Rightarrow> redemption_form \<Rightarrow> redemption_payload" where
  "redemption_payload_of stored d =
     \<lparr>rp_name = rf_name d, rp_quota = parseQuotaFromDollars stored (rf_quota_dollars d),
      rp_expired_time = seconds_or 0 (rf_expired_time d),
      rp_count = (case rf_count d of Some n \<Rightarrow> if num_truthy n then n else Fin 1 | None \<Rightarrow> Fin 1)\<rparr>"

definition transformRedemptionToFormDefaults :: "currency_config option \<Rightarrow> redemption \<Rightarrow> redemption_form" where
  "transformRedemptionToFormDefaults stored r =
     \<lparr>rf_name = rd_name r, rf_quota_dollars = quotaUnitsToDollars stored (rd_quota r),
      rf_expired_time = date_of_seconds (rd_expired_time r), rf_count = Some (Fin 1)\<rparr>"

subsection \<open>Subscription plans\<close>

text \<open>A plan of the server, the values of the form and the payload have the same fields, except that the
  form has no currency.\<close>

record plan =
  pl_title :: "jsstring option"
  pl_subtitle :: "jsstring option"
  pl_price_amount :: "jsnum option"
  pl_currency :: "jsstring option"
  pl_duration_unit :: "jsstring option"
  pl_duration_value :: "jsnum option"
  pl_custom_seconds :: "jsnum option"
  pl_quota_reset_period :: "jsstring option"
  pl_quota_reset_custom_seconds :: "jsnum option"
  pl_enabled :: "bool option"
  pl_sort_order :: "jsnum option"
  pl_allow_balance_pay :: "bool option"
  pl_max_purchase_per_user :: "jsnum option"
  pl_total_amount :: "jsnum option"
  pl_upgrade_group :: "jsstring option"
  pl_stripe_price_id :: "jsstring option"
  pl_creem_product_id :: "jsstring option"
  pl_waffo_pancake_product_id :: "jsstring option"

definition text_or :: "string \<Rightarrow> jsstring option \<Rightarrow> jsstring" where
  "text_or d s = (case s of Some t \<Rightarrow> if t \<noteq> [] then t else js d | None \<Rightarrow> js d)"

definition planToFormValues :: "currency_config option \<Rightarrow> plan \<Rightarrow> plan" where
  "planToFormValues stored p =
     \<lparr>pl_title = Some (text_or [] (pl_title p)), pl_subtitle = Some (text_or [] (pl_subtitle p)),
      pl_price_amount = Some (opt_num (pl_price_amount p)), pl_currency = None,
      pl_duration_unit = Some (text_or ''month'' (pl_duration_unit p)),
      pl_duration_value = Some (if num_truthy (opt_num (pl_duration_value p)) then opt_num (pl_duration_value p) else Fin 1),
      pl_custom_seconds = Some (opt_num (pl_custom_seconds p)),
      pl_quota_reset_period = Some (text_or ''never'' (pl_quota_reset_period p)),
      pl_quota_reset_custom_seconds = Some (opt_num (pl_quota_reset_custom_seconds p)),
      pl_enabled = Some (pl_enabled p \<noteq> Some False),
      pl_sort_order = Some (opt_num (pl_sort_order p)),
      pl_allow_balance_pay = Some (pl_allow_balance_pay p \<noteq> Some False),
      pl_max_purchase_per_user = Some (opt_num (pl_max_purchase_per_user p)),
      pl_total_amount = Some (quotaUnitsToDollars stored (opt_num (pl_total_amount p))),
      pl_upgrade_group = Some (text_or [] (pl_upgrade_group p)),
      pl_stripe_price_id = Some (text_or [] (pl_stripe_price_id p)),
      pl_creem_product_id = Some (text_or [] (pl_creem_product_id p)),
      pl_waffo_pancake_product_id = Some (text_or [] (pl_waffo_pancake_product_id p))\<rparr>"

definition formValuesToPlanPayload :: "currency_config option \<Rightarrow> plan \<Rightarrow> plan" where
  "formValuesToPlanPayload stored v =
     v\<lparr>pl_price_amount := Some (opt_num (pl_price_amount v)), pl_currency := Some (js ''USD''),
       pl_duration_value := Some (opt_num (pl_duration_value v)),
       pl_custom_seconds := Some (opt_num (pl_custom_seconds v)),
       pl_quota_reset_period := Some (text_or ''never'' (pl_quota_reset_period v)),
       pl_quota_reset_custom_seconds :=
         Some (if pl_quota_reset_period v = Some (js ''custom'') then opt_num (pl_quota_reset_custom_seconds v) else Fin 0),
       pl_sort_order := Some (opt_num (pl_sort_order v)),
       pl_max_purchase_per_user := Some (opt_num (pl_max_purchase_per_user v)),
       pl_total_amount := Some (parseQuotaFromDollars stored (opt_num (pl_total_amount v))),
       pl_upgrade_group := Some (text_or [] (pl_upgrade_group v))\<rparr>"

subsection \<open>Transferring rewards\<close>

definition minimumQuota :: "currency_config \<Rightarrow> jsnum" where
  "minimumQuota c =
     num_ceil (if num_lt (Fin 0) (quotaPerUnit c) then quotaPerUnit c else quotaPerUnit DEFAULT_CURRENCY_CONFIG)"

definition canTransfer :: "currency_config \<Rightarrow> jsnum \<Rightarrow> jsnum \<Rightarrow> bool" where
  "canTransfer c availableQuota amount \<longleftrightarrow>
     num_is_finite amount \<and> num_le (minimumQuota c) (parseQuotaFromDollars (Some c) amount) \<and>
     num_le (parseQuotaFromDollars (Some c) amount) availableQuota"

text \<open>The quota that the dialog asks the server to transfer, if any.\<close>

definition transfer_confirm :: "currency_config \<Rightarrow> jsnum \<Rightarrow> jsnum \<Rightarrow> jsnum option" where
  "transfer_confirm c availableQuota amount =
     (if canTransfer c availableQuota amount then Some (parseQuotaFromDollars (Some c) amount) else None)"

subsection \<open>Adjusting the quota of a user\<close>

datatype adjust_mode = Add | Subtract | Override

text \<open>\<^verbatim>\<open>parseFloat\<close>: the longest prefix that is a decimal number.\<close>

definition float_unit :: "int \<Rightarrow> bool" where
  "float_unit c \<longleftrightarrow> is_digit c \<or> c \<in> {43, 45, 46, 69, 101}"

definition parse_float :: "jsstring \<Rightarrow> jsnum" where
  "parse_float s =
     (let t = trim_start s
      in case List.find (\<lambda>p. p \<noteq> [] \<and> list_all float_unit p \<and> str_to_num p \<noteq> NaN) (rev (prefixes t)) of
           Some p \<Rightarrow> str_to_num p
         | None \<Rightarrow> if prefix (js ''Infinity'') t \<or> prefix (js ''+Infinity'') t then PosInf
                   else if prefix (js ''-Infinity'') t then NegInf else NaN)"

definition num_abs :: "jsnum \<Rightarrow> jsnum" where
  "num_abs x = (if num_lt x (Fin 0) then num_neg x else x)"

record adjust_request =
  aq_mode :: adjust_mode
  aq_value :: jsnum

definition adjust_confirm :: "currency_config option \<Rightarrow> adjust_mode \<Rightarrow> jsstring \<Rightarrow> adjust_request option" where
  "adjust_confirm stored mode amount =
     (let amountValue = opt_num (Some (parse_float amount));
          quotaValue = parseQuotaFromDollars stored (num_abs amountValue)
      in if amount = [] \<and> mode \<noteq> Override then None
         else if num_le quotaValue (Fin 0) \<and> mode \<noteq> Override then None
         else Some \<lparr>aq_mode = mode,
                aq_value = (if mode = Override then parseQuotaFromDollars stored amountValue else num_abs quotaValue)\<rparr>)"

subsection \<open>Showing and saving an amount\<close>

text \<open>What a form relies on: an amount that is shown is a number, and saving it gives what was shown.\<close>

locale amount_codec =
  fixes to_amount :: "jsnum \<Rightarrow> jsnum" and from_amount :: "jsnum \<Rightarrow> jsnum" and valid :: "jsnum \<Rightarrow> bool"
  assumes shown: "valid q \<Longrightarrow> num_is_finite (to_amount q)"
    and saved: "valid q \<Longrightarrow> from_amount (to_amount q) = q"
begin

lemma resaved: "valid q \<Longrightarrow> from_amount (opt_num (Some (to_amount q))) = q"
  using shown [of q] saved [of q] by (auto simp: opt_num_def num_truthy_def num_is_finite_def split: jsnum.splits)

end

definition moderate :: "rat \<Rightarrow> bool" where
  "moderate s \<longleftrightarrow> pow2 (- 40) \<le> s \<and> s \<le> pow2 40"

lemma moderate_pos: "moderate s \<Longrightarrow> 0 < s"
  using pow2_pos [of "- 40"] unfolding moderate_def by linarith

lemma moderate_inverse: "moderate s \<Longrightarrow> moderate (1 / s)"
proof -
  assume s: "moderate s"
  have inv: "1 / pow2 k = pow2 (- k)" for k by (simp add: pow2_def)
  have "1 / pow2 40 \<le> 1 / s" "1 / s \<le> 1 / pow2 (- 40)"
    using s moderate_pos [OF s] unfolding moderate_def by (auto intro!: frac_le)
  then show ?thesis by (simp add: moderate_def inv)
qed

text \<open>Sizes of the exact values on the way.\<close>

definition sized :: "int \<Rightarrow> rat \<Rightarrow> bool" where
  "sized k y \<longleftrightarrow> pow2 (- k) \<le> \<bar>y\<bar> \<and> \<bar>y\<bar> < pow2 (k + 50)"

lemma sized_step: "sized k y \<Longrightarrow> moderate s \<Longrightarrow> sized (k + 40) (y * s)"
proof -
  assume y: "sized k y" and s: "moderate s"
  note pos = moderate_pos [OF s]
  have "pow2 (- (k + 40)) = pow2 (- k) * pow2 (- 40)" by (simp add: pow2_times)
  also have "\<dots> \<le> \<bar>y\<bar> * s" using y s by (intro mult_mono) (simp_all add: sized_def moderate_def less_imp_le)
  finally have low: "pow2 (- (k + 40)) \<le> \<bar>y * s\<bar>" using pos by (simp add: abs_mult)
  have "\<bar>y\<bar> * s \<le> \<bar>y\<bar> * pow2 40" using s by (intro mult_left_mono) (simp_all add: moderate_def)
  also have "\<dots> < pow2 (k + 50) * pow2 40" using y by (intro mult_strict_right_mono) (simp_all add: sized_def)
  also have "\<dots> = pow2 (k + 40 + 50)" by (simp add: pow2_times)
  finally show ?thesis using low pos by (simp add: sized_def abs_mult)
qed

lemma chain_step:
  assumes "close c x y" "c \<le> 1 / 2" "sized k y" "k \<le> 140" "0 \<le> k" "moderate s"
  obtains x' where "round_double (x * s) = Fin x'" "close (c + pow2 (- 52)) x' (y * s)"
proof -
  have "pow2 (- 200) \<le> \<bar>y\<bar>" "\<bar>y\<bar> < pow2 200"
    using assms(3-5) pow2_mono [of "- 200" "- k"] pow2_mono [of "k + 50" 200] unfolding sized_def by linarith+
  then show ?thesis using close_step [OF assms(1,2)] assms(6) that unfolding moderate_def by blast
qed

lemma sign_close: "\<bar>a - y\<bar> \<le> 1 / 2 * \<bar>y\<bar> \<Longrightarrow> 0 < \<bar>y\<bar> \<Longrightarrow> a < 0 \<longleftrightarrow> y < 0" for a y :: rat
  by linarith

lemma amount_exact:
  assumes n: "n \<noteq> 0" "\<bar>n\<bar> < 2 ^ 49" and ur: "moderate u" "moderate r"
  obtains a where "num_mul (num_div (Fin (of_int n)) (Fin u)) (Fin r) = Fin a" "a < 0 \<longleftrightarrow> n < 0"
    "num_round (num_mul (num_div (Fin a) (Fin r)) (Fin u)) = Fin (of_int n)"
proof -
  let ?e = "pow2 (- 52)" and ?n = "of_int n :: rat"
  note pos = moderate_pos [OF ur(1)] moderate_pos [OF ur(2)]
  have small: "?e \<le> 1 / 2" "0 + ?e \<le> 1 / 2" "0 + ?e + ?e \<le> 1 / 2" "0 + ?e + ?e + ?e \<le> 1 / 2" by (simp_all add: pow2_def)
  have big: "1 \<le> \<bar>?n\<bar>" using n(1) by (simp flip: of_int_abs)
  have "of_int \<bar>n\<bar> < (2 ^ 49 :: rat)" using n(2) by (metis of_int_less_iff of_int_numeral of_int_power)
  then have s0: "sized 0 ?n" using big by (simp add: sized_def pow2_def)
  have s1: "sized 40 (?n * (1 / u))" using sized_step [OF s0 moderate_inverse [OF ur(1)]] by simp
  have s2: "sized 80 (?n * (1 / u) * r)" using sized_step [OF s1 ur(2)] by simp
  have s3: "sized 120 (?n * (1 / u) * r * (1 / r))" using sized_step [OF s2 moderate_inverse [OF ur(2)]] by simp
  have "close 0 ?n ?n" by (simp add: close_def)
  then obtain x1 where x1: "round_double (?n * (1 / u)) = Fin x1" "close (0 + ?e) x1 (?n * (1 / u))"
    by (rule chain_step [OF _ _ s0 _ _ moderate_inverse [OF ur(1)]]) simp_all
  obtain a where a: "round_double (x1 * r) = Fin a" "close (0 + ?e + ?e) a (?n * (1 / u) * r)"
    by (rule chain_step [OF x1(2) small(2) s1 _ _ ur(2)]) simp_all
  obtain x3 where x3: "round_double (a * (1 / r)) = Fin x3" "close (0 + ?e + ?e + ?e) x3 (?n * (1 / u) * r * (1 / r))"
    by (rule chain_step [OF a(2) small(3) s2 _ _ moderate_inverse [OF ur(2)]]) simp_all
  obtain x4 where x4: "round_double (x3 * u) = Fin x4" "close (0 + ?e + ?e + ?e + ?e) x4 (?n * (1 / u) * r * (1 / r) * u)"
    by (rule chain_step [OF x3(2) small(4) s3 _ _ ur(1)]) simp_all
  have "?n * (1 / u) * r * (1 / r) * u = ?n" "0 + ?e + ?e + ?e + ?e = pow2 (- 50)" using pos by (simp_all add: pow2_def)
  then have "close (pow2 (- 50)) x4 ?n" using x4(2) by simp
  then have "num_round (Fin x4) = Fin ?n" using n(2) by (rule round_close)
  moreover have "num_mul (num_div (Fin ?n) (Fin u)) (Fin r) = Fin a" using x1(1) a(1) pos by simp
  moreover have "num_mul (num_div (Fin a) (Fin r)) (Fin u) = Fin x4" using x3(1) x4(1) pos by simp
  moreover have "a < 0 \<longleftrightarrow> n < 0"
  proof -
    let ?y = "?n * (1 / u) * r"
    have "\<bar>a - ?y\<bar> \<le> (?e + ?e) * \<bar>?y\<bar>" using a(2) by (simp add: close_def)
    also have "\<dots> \<le> 1 / 2 * \<bar>?y\<bar>" by (intro mult_right_mono) (simp_all add: pow2_def)
    finally have "\<bar>a - ?y\<bar> \<le> 1 / 2 * \<bar>?y\<bar>" .
    moreover have "0 < \<bar>?y\<bar>" using n(1) pos by simp
    ultimately have "a < 0 \<longleftrightarrow> ?y < 0" by (rule sign_close)
    also have "\<dots> \<longleftrightarrow> n < 0" using pos by (simp add: mult_less_0_iff divide_less_0_iff)
    finally show ?thesis .
  qed
  ultimately show ?thesis using that by simp
qed

text \<open>Displays whose rates are of moderate size, and whole quotas below \<open>2 ^ 49\<close>.\<close>

definition moderate_num :: "jsnum \<Rightarrow> bool" where
  "moderate_num x = (case x of Fin s \<Rightarrow> moderate s | _ \<Rightarrow> False)"

definition moderate_display :: "currency_config option \<Rightarrow> bool" where
  "moderate_display stored \<longleftrightarrow>
     moderate_num (quotaPerUnit (getConfig stored)) \<and> moderate_num (rate_of (getDisplayMeta (getConfig stored)))"

definition small_quota :: "jsnum \<Rightarrow> bool" where
  "small_quota q = (case q of Fin x \<Rightarrow> x = of_int \<lfloor>x\<rfloor> \<and> \<bar>x\<bar> < 2 ^ 49 | _ \<Rightarrow> False)"

lemma small_quotaE: "small_quota q \<Longrightarrow> \<exists>n. q = Fin (of_int n) \<and> \<bar>n\<bar> < 2 ^ 49"
proof -
  assume "small_quota q"
  then obtain x where q: "q = Fin x" "x = of_int \<lfloor>x\<rfloor>" "\<bar>x\<bar> < 2 ^ 49" by (auto simp: small_quota_def split: jsnum.splits)
  have "of_int \<bar>\<lfloor>x\<rfloor>\<bar> < (of_int (2 ^ 49) :: rat)" using q(2,3) by simp
  then show ?thesis using q(1,2) by (auto simp only: of_int_less_iff)
qed

lemma small_quota_whole [simp]: "small_quota (Fin (of_int n)) \<longleftrightarrow> \<bar>n\<bar> < 2 ^ 49"
proof -
  have "\<bar>of_int n\<bar> < (2 ^ 49 :: rat) \<longleftrightarrow> of_int \<bar>n\<bar> < (of_int (2 ^ 49) :: rat)" by simp
  then show ?thesis by (simp only: small_quota_def of_int_less_iff) simp
qed

lemma round_whole: "num_round (Fin (of_int n)) = Fin (of_int n)"
  by (simp add: num_round_def floor_eq_iff)

lemma units_shown:
  assumes "moderate_display stored" "\<bar>n\<bar> < 2 ^ 49"
  shows "\<exists>a. quotaUnitsToDollars stored (Fin (of_int n)) = Fin a \<and> parseQuotaFromDollars stored (Fin a) = Fin (of_int n) \<and>
    (a < 0 \<longleftrightarrow> n < 0)"
proof -
  define config where "config = getConfig stored"
  define meta where "meta = getDisplayMeta config"
  have disp: "getCurrencyDisplay stored = (config, meta)" by (simp add: getCurrencyDisplay_def config_def meta_def Let_def)
  obtain u r where ur: "quotaPerUnit config = Fin u" "rate_of meta = Fin r" "moderate u" "moderate r"
    using assms(1) by (auto simp: moderate_display_def moderate_num_def config_def meta_def split: jsnum.splits)
  have pos: "0 < u" "0 < r" using ur(3,4) by (simp_all add: moderate_pos)
  show ?thesis
  proof (cases "\<exists>t. meta = Tokens t")
    case True
    then show ?thesis
      using disp round_whole [of n] by (intro exI [of _ "of_int n"]) (auto simp: quotaUnitsToDollars_def parseQuotaFromDollars_def num_is_finite_def)
  next
    case False
    have show_it: "quotaUnitsToDollars stored q = num_mul (num_div q (Fin u)) (Fin r)" for q
      using False ur disp by (cases meta) (simp_all add: quotaUnitsToDollars_def)
    have parse_it: "parseQuotaFromDollars stored (Fin a) = num_round (num_mul (num_div (Fin a) (Fin r)) (Fin u))" for a
      using False ur disp pos by (cases meta) (simp_all add: parseQuotaFromDollars_def num_is_finite_def)
    show ?thesis
    proof (cases "n = 0")
      case True
      then show ?thesis
        using pos round_double_safe [of 0] round_whole [of 0] by (intro exI [of _ 0]) (simp add: show_it parse_it)
    next
      case False
      obtain a where a: "num_mul (num_div (Fin (of_int n)) (Fin u)) (Fin r) = Fin a" "a < 0 \<longleftrightarrow> n < 0"
        "num_round (num_mul (num_div (Fin a) (Fin r)) (Fin u)) = Fin (of_int n)"
        by (rule amount_exact [OF False assms(2) ur(3,4)])
      then show ?thesis unfolding show_it parse_it by blast
    qed
  qed
qed

interpretation quota_amounts: amount_codec "quotaUnitsToDollars stored" "parseQuotaFromDollars stored" "\<lambda>q. moderate_display stored \<and> small_quota q"
  for stored
proof
  fix q assume "moderate_display stored \<and> small_quota q"
  then obtain n where q: "q = Fin (of_int n)" "\<bar>n\<bar> < 2 ^ 49" "moderate_display stored" using small_quotaE by blast
  show "num_is_finite (quotaUnitsToDollars stored q)" "parseQuotaFromDollars stored (quotaUnitsToDollars stored q) = q"
    using units_shown [OF q(3,2)] by (auto simp: q(1) num_is_finite_def)
qed

text \<open>C38: showing a quota in the display currency and saving it gives the quota back, however the rates of
  the display round: double precision loses less than half a unit on the way there and back.\<close>

theorem quota_round_trip:
  assumes "moderate_display stored" "small_quota q"
  shows "parseQuotaFromDollars stored (quotaUnitsToDollars stored q) = q"
  using quota_amounts.saved assms by blast

subsection \<open>Saving a form without an edit\<close>

definition date_ok :: "jsnum \<Rightarrow> bool" where
  "date_ok t = (case t of Fin x \<Rightarrow> x = of_int \<lfloor>x\<rfloor> \<and> x \<le> 8640000000000 | _ \<Rightarrow> False)"

lemma date_shown:
  assumes "date_ok t" "num_lt (Fin 0) t"
  shows "\<exists>n. t = Fin (of_int n) \<and> 0 < n \<and> n < 2 ^ 43 \<and> date_of_seconds t = Some (Fin (of_int (n * 1000)))"
proof -
  from assms obtain x where x: "t = Fin x" "x = of_int \<lfloor>x\<rfloor>" "x \<le> 8640000000000" "0 < x"
    by (auto simp: date_ok_def split: jsnum.splits)
  define n where "n = \<lfloor>x\<rfloor>"
  have t: "t = Fin (of_int n)" using x by (simp add: n_def)
  have n: "0 < n" "n \<le> 8640000000000" using x unfolding n_def by (metis of_int_0_less_iff, simp add: floor_le_iff)
  have mul: "num_mul t (Fin 1000) = Fin (of_int (n * 1000))"
    using round_double_safe [of "n * 1000"] n by (simp add: t)
  have "\<bar>of_int (n * 1000)\<bar> \<le> (of_int 8640000000000000 :: rat)" using n by (simp only: of_int_le_iff flip: of_int_abs)
  then have "time_clip (num_mul t (Fin 1000)) = Fin (of_int (n * 1000))"
    unfolding mul time_clip_def using n by (simp del: of_int_mult)
  then show ?thesis using assms(2) t n by (auto simp: date_of_seconds_def)
qed

lemma reopened_date:
  assumes "date_ok t"
  shows "seconds_or d (date_of_seconds t) = (if num_lt (Fin 0) t then t else Fin d)"
proof (cases "num_lt (Fin 0) t")
  case True
  then obtain n where "t = Fin (of_int n)" "0 < n" "n < 2 ^ 43" "date_of_seconds t = Some (Fin (of_int (n * 1000)))"
    using date_shown [OF assms] by blast
  then show ?thesis using num_floor_seconds [of "n * 1000"] True by (simp add: seconds_or_def)
qed (simp add: date_of_seconds_def seconds_or_def)

lemma reopened_names:
  assumes "\<forall>s\<in>set names. s \<noteq> [] \<and> c \<notin> set s"
  shows "(if join [c] names \<noteq> [] then filter (\<lambda>s. s \<noteq> []) (split_on c (join [c] names)) else []) = names"
proof (cases names)
  case (Cons n ns)
  then have "join [c] names \<noteq> []" using assms by (cases ns) auto
  moreover have "split_on c (join [c] names) = names" using assms Cons by (intro split_on_join) auto
  moreover have "filter (\<lambda>s. s \<noteq> []) names = names" using assms by (simp add: filter_id_conv)
  ultimately show ?thesis by simp
qed simp

text \<open>The group that an opened key has in the form.\<close>

definition shown_group :: "jsstring list \<Rightarrow> api_key \<Rightarrow> jsstring" where
  "shown_group groups k =
     (if groups \<noteq> [] \<and> text_or_empty (ak_group k) \<notin> insert [] (set groups) then fallback_group groups
      else text_or_empty (ak_group k))"

lemma opened_fields:
  "kf_name (opened_key stored groups k) = ak_name k" "kf_unlimited_quota (opened_key stored groups k) = ak_unlimited_quota k"
  "kf_expired_time (opened_key stored groups k) = date_of_seconds (ak_expired_time k)"
  "kf_allow_ips (opened_key stored groups k) = Some (text_or_empty (ak_allow_ips k))"
  "kf_group (opened_key stored groups k) = Some (shown_group groups k)" "kf_tokenCount (opened_key stored groups k) = Some (Fin 1)"
  "kf_remain_quota_dollars (opened_key stored groups k) =
     Some (if ak_unlimited_quota k then Fin 0 else quotaUnitsToDollars stored (ak_remain_quota k))"
  "kf_model_limits (opened_key stored groups k) = kf_model_limits (transformApiKeyToFormDefaults stored k)"
  by (auto simp: opened_key_def correct_group_def transformApiKeyToFormDefaults_def shown_group_def text_or_empty_def Let_def)

lemma opened_retry:
  "shown_group groups k = js ''auto'' \<Longrightarrow>
    kf_cross_group_retry (opened_key stored groups k) = Some (ak_cross_group_retry k \<and> (groups = [] \<or> ak_group k \<noteq> Some (js ''auto'') \<or> js ''auto'' \<in> set groups))"
  by (cases "ak_group k")
    (auto simp: opened_key_def correct_group_def transformApiKeyToFormDefaults_def shown_group_def text_or_empty_def Let_def split: if_splits)

lemma opened_key_accepted:
  assumes "moderate_display stored" "\<not> ak_unlimited_quota k \<longrightarrow> small_quota (ak_remain_quota k)" "date_ok (ak_expired_time k)"
  shows "api_key_form_ok (opened_key stored groups k) \<longleftrightarrow>
    ak_name k \<noteq> [] \<and> (ak_unlimited_quota k \<or> \<not> num_lt (ak_remain_quota k) (Fin 0))"
proof -
  have "num_is_finite t" if "date_of_seconds (ak_expired_time k) = Some t" for t
    using date_shown [OF assms(3)] that by (auto simp: date_of_seconds_def num_is_finite_def split: if_splits)
  then have date: "case date_of_seconds (ak_expired_time k) of Some t \<Rightarrow> num_is_finite t | None \<Rightarrow> True"
    by (simp split: option.split)
  have "num_is_finite (quotaUnitsToDollars stored (ak_remain_quota k)) \<and>
      (num_lt (quotaUnitsToDollars stored (ak_remain_quota k)) (Fin 0) \<longleftrightarrow> num_lt (ak_remain_quota k) (Fin 0))"
    if limited: "\<not> ak_unlimited_quota k"
  proof -
    obtain n where n: "ak_remain_quota k = Fin (of_int n)" "\<bar>n\<bar> < 2 ^ 49" using assms(2) limited small_quotaE by blast
    then show ?thesis using units_shown [OF assms(1) n(2)] by (auto simp: num_is_finite_def)
  qed
  then show ?thesis
    unfolding api_key_form_ok_def opened_fields using date
    by (cases "ak_unlimited_quota k") (auto simp: num_is_finite_def num_le_def num_eq_def)
qed

text \<open>C39: opening an API key and saving it without an edit. Name, limits, addresses, the quota of a limited key
  and an expiry time after the epoch are sent as they are. What changes is this: an unlimited key sends the
  quota 0, an expiry that is zero or negative becomes \<open>- 1\<close> (never), the model limits are switched on when
  there are any, a group that the user has not is replaced by the default one or the first, and the retry across groups is kept
  for the automatic group only and lost when that was replaced. The form accepts the key exactly when
  its name is not empty and it is not overdrawn. (Hypotheses: the quota and the rates of the display are
  of moderate size, the expiry time is in whole seconds that a date can hold, and the model limits are a
  list of nonempty names.)\<close>

theorem api_key_saved_unchanged:
  assumes "moderate_display stored" "\<not> ak_unlimited_quota k \<longrightarrow> small_quota (ak_remain_quota k)" "date_ok (ak_expired_time k)"
    "text_or_empty (ak_model_limits k) = join [44] names" "\<forall>s\<in>set names. s \<noteq> [] \<and> 44 \<notin> set s"
  shows "key_payload_of stored (opened_key stored groups k) =
      \<lparr>kp_name = ak_name k, kp_remain_quota = (if ak_unlimited_quota k then Fin 0 else ak_remain_quota k),
       kp_expired_time = (if num_lt (Fin 0) (ak_expired_time k) then ak_expired_time k else Fin (- 1)),
       kp_unlimited_quota = ak_unlimited_quota k, kp_model_limits_enabled = (names \<noteq> []),
       kp_model_limits = text_or_empty (ak_model_limits k), kp_allow_ips = text_or_empty (ak_allow_ips k),
       kp_group = shown_group groups k,
       kp_cross_group_retry = (shown_group groups k = js ''auto'' \<and> ak_cross_group_retry k \<and>
         (groups = [] \<or> ak_group k \<noteq> Some (js ''auto'') \<or> js ''auto'' \<in> set groups))\<rparr> \<and>
    (api_key_form_ok (opened_key stored groups k) \<longleftrightarrow>
      ak_name k \<noteq> [] \<and> (ak_unlimited_quota k \<or> \<not> num_lt (ak_remain_quota k) (Fin 0)))"
proof -
  let ?f = "opened_key stored groups k"
  have names: "kf_model_limits ?f = names"
    using reopened_names [OF assms(5)] unfolding opened_fields transformApiKeyToFormDefaults_def assms(4) by simp
  have quota: "parseQuotaFromDollars stored (opt_num (kf_remain_quota_dollars ?f)) = ak_remain_quota k" if "\<not> ak_unlimited_quota k"
    using quota_amounts.resaved [of stored "ak_remain_quota k"] assms(1,2) that by (simp add: opened_fields)
  have given: "text_or_empty (Some s) = s" for s by (simp add: text_or_empty_def)
  show ?thesis
    unfolding key_payload_of_def names reopened_date [OF assms(3)] using quota opened_retry [of groups k stored]
    by (simp add: opened_fields reopened_date [OF assms(3)] assms(4) given opened_key_accepted [OF assms(1-3)])
qed

text \<open>opening a redemption code or a subscription plan and saving it without an edit sends quota and
  dates as they are; a plan keeps its custom reset time only with the custom period.\<close>

theorem codes_and_plans_saved_unchanged:
  assumes "moderate_display stored" "small_quota (rd_quota r)" "date_ok (rd_expired_time r)"
    and "small_quota (opt_num (pl_total_amount p))" "pl_duration_value p \<noteq> None" "num_truthy (the (pl_duration_value p))"
  shows "redemption_payload_of stored (transformRedemptionToFormDefaults stored r) =
      \<lparr>rp_name = rd_name r, rp_quota = rd_quota r,
       rp_expired_time = (if num_lt (Fin 0) (rd_expired_time r) then rd_expired_time r else Fin 0), rp_count = Fin 1\<rparr> \<and>
    (let s = formValuesToPlanPayload stored (planToFormValues stored p)
     in pl_total_amount s = Some (opt_num (pl_total_amount p)) \<and> pl_duration_value s = pl_duration_value p \<and>
        pl_price_amount s = Some (opt_num (pl_price_amount p)) \<and> pl_sort_order s = Some (opt_num (pl_sort_order p)) \<and>
        pl_quota_reset_period s = Some (text_or ''never'' (pl_quota_reset_period p)) \<and>
        pl_quota_reset_custom_seconds s =
          Some (if pl_quota_reset_period p = Some (js ''custom'') then opt_num (pl_quota_reset_custom_seconds p) else Fin 0) \<and>
        pl_enabled s = Some (pl_enabled p \<noteq> Some False))"
proof -
  have again: "opt_num (Some (opt_num x)) = opt_num x" for x by (simp add: opt_num_def split: option.splits)
  have texts: "text_or ''never'' (Some (text_or ''never'' x)) = text_or ''never'' x"
    "text_or ''never'' x = js ''custom'' \<longleftrightarrow> x = Some (js ''custom'')" for x
    by (auto simp: text_or_def js_def split: option.splits)
  have dur: "Some (opt_num (Some (if num_truthy (opt_num (pl_duration_value p)) then opt_num (pl_duration_value p) else Fin 1))) = pl_duration_value p"
    using assms(5,6) by (auto simp: opt_num_def)
  have "redemption_payload_of stored (transformRedemptionToFormDefaults stored r) =
      \<lparr>rp_name = rd_name r, rp_quota = rd_quota r,
       rp_expired_time = (if num_lt (Fin 0) (rd_expired_time r) then rd_expired_time r else Fin 0), rp_count = Fin 1\<rparr>"
    using quota_amounts.saved [of stored "rd_quota r"] assms(1,2) reopened_date [OF assms(3), of 0]
    by (simp add: redemption_payload_of_def transformRedemptionToFormDefaults_def num_truthy_def)
  then show ?thesis
    using quota_amounts.resaved [of stored "opt_num (pl_total_amount p)"] assms(1,4) dur
    by (simp add: formValuesToPlanPayload_def planToFormValues_def Let_def again texts)
qed

subsection \<open>The dialogs\<close>

text \<open>C40: a confirmed transfer is at least the minimum and at most what is available, and everything
  available can be transferred: the maximum that the dialog shows is accepted and sends exactly the
  available quota.\<close>

theorem transfer_within_bounds:
  assumes "moderate_display (Some c)" "small_quota available" "num_le (minimumQuota c) available"
  shows "transfer_confirm c available (quotaUnitsToDollars (Some c) available) = Some available \<and>
    (\<forall>amount q. transfer_confirm c available amount = Some q \<longrightarrow> num_le (minimumQuota c) q \<and> num_le q available)"
proof -
  obtain n where n: "available = Fin (of_int n)" using small_quotaE [OF assms(2)] by blast
  have "num_le available available" by (simp add: n num_le_def num_eq_def)
  moreover have "num_is_finite (quotaUnitsToDollars (Some c) available)"
    "parseQuotaFromDollars (Some c) (quotaUnitsToDollars (Some c) available) = available"
    using quota_amounts.shown [of "Some c" available] quota_amounts.saved [of "Some c" available] assms(1,2) by blast+
  ultimately show ?thesis using assms(3) by (auto simp: transfer_confirm_def canTransfer_def)
qed

text \<open>Confirming an empty amount in the override mode sets the quota of the user to zero.\<close>

lemma empty_override_clears: "adjust_confirm None Override [] = Some \<lparr>aq_mode = Override, aq_value = Fin 0\<rparr>"
  by code_simp

subsection \<open>Examples\<close>

definition yuan :: currency_config where
  "yuan = DEFAULT_CURRENCY_CONFIG\<lparr>quotaDisplayType := js ''CNY'', usdExchangeRate := Fin (73 / 10)\<rparr>"

lemma yuan_moderate: "moderate_display (Some yuan)" "minimumQuota yuan = Fin 500000"
  by code_simp+

lemma samples_small: "small_quota (Fin 1234567)" "small_quota (Fin 5000001)" "small_quota (Fin 1)"
  by code_simp+

theorem quota_round_trip_witness:
  "parseQuotaFromDollars (Some yuan) (quotaUnitsToDollars (Some yuan) (Fin 1234567)) = Fin 1234567"
  by (rule quota_round_trip [OF yuan_moderate(1) samples_small(1)])

definition sample_key :: api_key where
  "sample_key = \<lparr>ak_name = js ''ci'', ak_remain_quota = Fin 1234567, ak_unlimited_quota = False, ak_expired_time = Fin 1700000000,
     ak_group = Some (js ''auto''), ak_cross_group_retry = True, ak_model_limits_enabled = True,
     ak_model_limits = Some (join [44] [js ''gpt-4o'', js ''o3'']), ak_allow_ips = None\<rparr>"

theorem api_key_saved_unchanged_witness:
  "kp_remain_quota (key_payload_of (Some yuan) (opened_key (Some yuan) [js ''vip'', js ''default''] sample_key)) = Fin 1234567 \<and>
   kp_group (key_payload_of (Some yuan) (opened_key (Some yuan) [js ''vip'', js ''default''] sample_key)) = js ''default'' \<and>
   api_key_form_ok (opened_key (Some yuan) [js ''vip'', js ''default''] sample_key)"
  using api_key_saved_unchanged [OF yuan_moderate(1), of sample_key "[js ''gpt-4o'', js ''o3'']" "[js ''vip'', js ''default'']"]
  by (simp add: sample_key_def text_or_empty_def date_ok_def js_def samples_small shown_group_def fallback_group_def)

definition sample_plan :: plan where
  "sample_plan = \<lparr>pl_title = Some (js ''Pro''), pl_subtitle = None, pl_price_amount = Some (Fin 10), pl_currency = None,
     pl_duration_unit = None, pl_duration_value = Some (Fin 1), pl_custom_seconds = None, pl_quota_reset_period = None,
     pl_quota_reset_custom_seconds = None, pl_enabled = None, pl_sort_order = None, pl_allow_balance_pay = None,
     pl_max_purchase_per_user = None, pl_total_amount = Some (Fin 5000001), pl_upgrade_group = None,
     pl_stripe_price_id = None, pl_creem_product_id = None, pl_waffo_pancake_product_id = None\<rparr>"

theorem codes_and_plans_saved_unchanged_witness:
  "pl_total_amount (formValuesToPlanPayload (Some yuan) (planToFormValues (Some yuan) sample_plan)) = Some (Fin 5000001)"
  using codes_and_plans_saved_unchanged [OF yuan_moderate(1), of "\<lparr>rd_name = [], rd_quota = Fin 1, rd_expired_time = Fin 0\<rparr>" sample_plan]
  by (simp add: samples_small sample_plan_def date_ok_def opt_num_def num_truthy_def Let_def)

theorem transfer_within_bounds_witness:
  "transfer_confirm yuan (Fin 1234567) (quotaUnitsToDollars (Some yuan) (Fin 1234567)) = Some (Fin 1234567)"
  using transfer_within_bounds [OF yuan_moderate(1), of "Fin 1234567"] by (simp add: samples_small yuan_moderate(2) num_le_def)

text \<open>An overdrawn key cannot be saved, limits that are switched off are switched on by saving, and a key that
  expired at the epoch never expires after it.\<close>

lemma overdrawn_key_rejected:
  "\<not> api_key_form_ok (opened_key None [] (sample_key\<lparr>ak_remain_quota := Fin (- 500000)\<rparr>))"
  by code_simp

lemma limits_switched_on:
  "kp_model_limits_enabled (key_payload_of None (opened_key None [] (sample_key\<lparr>ak_model_limits_enabled := False\<rparr>)))"
  by code_simp

lemma zero_expiry_becomes_never:
  "kp_expired_time (key_payload_of None (opened_key None [] (sample_key\<lparr>ak_expired_time := Fin 0\<rparr>))) = Fin (- 1)"
  by code_simp

end
