(* ===== verification/Spec2Isabelle.thy ===== *)
theory Spec2Isabelle
  imports StatusCodes ModelMapping Sidebar PlaygroundStream AdvancedCustom RatioSync ChannelUtils BillingRoundTrip ParamOverrideDrafts ChannelFormSettings TierRoundTrip
    TableUrlState SettingsForm UpstreamUpdates Attachments ChannelMisc NavModules
    PricingFilters Notifications DashboardCharts UsageLogs QuotaForms
begin

text \<open>
  A verification library for the logic of the administration frontend, the TypeScript code under
  \<^verbatim>\<open>src/web/default/src\<close>.

  \<^bold>\<open>The program.\<close> The repository is an API gateway for language models: a Go server that relays
  requests to upstream providers and bills them, and web frontends that configure it. The frontend
  carries logic of its own: it parses and validates what administrators enter before it is saved,
  decides which routes a user sees, merges price tables from other servers, builds and reads the
  billing expressions that the server later evaluates, and runs the playground chat against the
  streaming endpoint. That logic is what this library models. The React components around it render
  its results and pass user input to it.

  \<^bold>\<open>The language.\<close> Every theory is written over a model of the parts of JavaScript that the source
  uses.
  \<^item> \<open>Prelude\<close>: collections of rewrite rules and shared facts about lists; the interface
    \<open>first_occurrences\<close> of \<^verbatim>\<open>Array.from(new Set(xs))\<close>.
  \<^item> \<open>JS_String\<close>: strings as lists of UTF-16 code units, with \<^verbatim>\<open>trim\<close>, \<^verbatim>\<open>split\<close>, \<^verbatim>\<open>join\<close>, \<^verbatim>\<open>indexOf\<close>,
    \<^verbatim>\<open>parseInt\<close>.
  \<^item> \<open>JS_Number\<close>: doubles as rationals with rounding, infinities and NaN; \<^verbatim>\<open>Number(s)\<close> and
    \<^verbatim>\<open>String(n)\<close>, arithmetic, and the sums of whole numbers that no rounding changes. Negative
    zero is not distinguished.
  \<^item> \<open>JS_Rounding\<close>: the relative error of an operation on doubles and of a chain of them, and what
    \<^verbatim>\<open>Math.floor\<close> and \<^verbatim>\<open>Math.round\<close> make of the result.
  \<^item> \<open>JS_Sort\<close>: \<^verbatim>\<open>Array.sort\<close> as a stable sort; the interface \<open>stable_order\<close> says what a total
    preorder makes of it, and \<open>key_order\<close> gives the orders by a key, up and down.
  \<^item> \<open>JS_Value\<close>: values, and objects as association lists in the order of \<^verbatim>\<open>Object.keys\<close>; the
    interface \<open>property_store\<close>; conversions to texts and numbers, and \<open>str_throws\<close>, the values on which
    they throw.
  \<^item> \<open>JS_Json\<close>, \<open>JS_Pretty\<close>: \<^verbatim>\<open>JSON.parse\<close> and both forms of \<^verbatim>\<open>JSON.stringify\<close>; the interface
    \<open>text_codec\<close>, interpreted on both printers. The readers take fuel; \<open>2 * length s + 2\<close> units are
    enough, by \<open>parse_val_fuel\<close>.
  \<^item> \<open>JS_Regex\<close>: regular expressions as a backtracking matcher; a star takes at most as many rounds
    as there are units left, which is enough by \<open>star_run_enough\<close>.

  \<^bold>\<open>The components.\<close>
  \<^item> \<open>StatusCodes\<close> (\<^verbatim>\<open>lib/http-status-code-rules.ts\<close>, \<^verbatim>\<open>features/channels/lib/status-code-risk-guard.ts\<close>):
    rules such as \<^verbatim>\<open>400,500-599\<close> and status code redirects. Accepted rules denote the union of
    what was entered, the normalised text reads back, invalid entries and newly introduced risky
    redirects are reported exactly.
  \<^item> \<open>ModelMapping\<close> (\<^verbatim>\<open>features/channels/lib/model-mapping-validation.ts\<close>): model lists and redirect
    mappings; missing and exposed models, validation.
  \<^item> \<open>Sidebar\<close> (\<^verbatim>\<open>hooks/use-sidebar-config.ts\<close>, \<^verbatim>\<open>lib/roles.ts\<close>): which routes a user sees, from the
    administrator's and the user's configuration and the role.
  \<^item> \<open>PlaygroundMessages\<close>, \<open>PlaygroundState\<close>, \<open>PlaygroundStream\<close> (\<^verbatim>\<open>features/playground\<close>): messages
    and thinking blocks; persistence in \<^verbatim>\<open>localStorage\<close>, whose quota is the parameter \<open>fits\<close>; the
    chat as a step relation whose steps are the handlers of the code and the events of the event
    source. The interface \<open>message_store\<close> states what the handlers rely on.
  \<^item> \<open>AdvancedCustom\<close> (\<^verbatim>\<open>features/channels/lib/advanced-custom.ts\<close>): routes of custom channels, their
    validation and text form. The URL parser of the browser is a parameter.
  \<^item> \<open>RatioSync\<close> (\<^verbatim>\<open>features/system-settings/models/upstream-ratio-sync-helpers.ts\<close>): selecting
    upstream prices; a batch equals its steps, and no model gets a price and a ratio at once.
  \<^item> \<open>ChannelUtils\<close> (\<^verbatim>\<open>features/channels/lib/channel-utils.ts\<close> and its tables): channel helpers,
    aggregation by tag, deduplication of keys. The collation of the browser is a parameter.
  \<^item> \<open>BillingExpr\<close>, \<open>BillingRules\<close>, \<open>BillingRoundTrip\<close> (\<^verbatim>\<open>features/pricing/lib/billing-expr.ts\<close>):
    request rules of billing expressions. The first has the definitions, the second characterises
    the expressions of the parser, the third has the round trips.
  \<^item> \<open>TierExpr\<close>, \<open>TierRoundTrip\<close> (the tiers of \<^verbatim>\<open>billing-expr.ts\<close>, \<^verbatim>\<open>features/pricing/lib/tier-expr.ts\<close>): price
    tiers. The loop over the matches of a global expression is a partial function and the parsers are
    shown to return on every text; what the visual editor shows prints back to the text, and a single
    tier reads back with its label and prices.
  \<^item> \<open>CodexCredential\<close> (\<^verbatim>\<open>features/channels/lib/codex-credential.ts\<close>): which JSON texts are accepted as
    credentials, against a relational description of the search. Base64 decoding is a parameter.
  \<^item> \<open>ChannelForm\<close>, \<open>ChannelFormSettings\<close> (\<^verbatim>\<open>features/channels/lib/channel-form.ts\<close>): the channel form. The
    first has the schema, the defaults from a channel and the payloads; the second states the saved
    settings as a table per channel type and shows that the code implements it, that a saved channel
    reopens with its settings, and what an update sends.
  \<^item> \<open>ParamOverride\<close>, \<open>ParamOverrideDialog\<close>
    (\<^verbatim>\<open>features/channels/components/dialogs/param-override-editor-dialog.tsx\<close>): parameter overrides of a
    channel. The first theory has the tables, templates, drafts, validation, loading and printing, the
    second the state of the dialog and its handlers. The clock, the translation and the moment at
    which React runs an updater are parameters. \<open>ParamOverrideInvariant\<close> has the step relation over all
    events and the invariant of the reachable states, \<open>ParamOverrideRoundTrip\<close> validation and the round
    trip of saving and reopening, \<open>ParamOverrideDrafts\<close> the structured editors of single rules.

  \<^item> \<open>TableUrlState\<close> (\<^verbatim>\<open>hooks/use-table-url-state.ts\<close>): filters, search text and page of a table, kept in the
    query string of the page, with the search schemas of five routes and the parameters of six tables. The
    router is a parameter that validates against the schema of its route. Filters that the schema accepts
    are shown as they were entered; one option of the redemption codes is not accepted and its filter is
    lost. The correction of a page out of range ends.
  \<^item> \<open>SettingsForm\<close> (\<^verbatim>\<open>features/system-settings/hooks/use-settings-form.ts\<close>): the form of a settings
    page; nested defaults and flat keys, the changed fields of a submission, one submission at a time.
  \<^item> \<open>UpstreamUpdates\<close> (\<^verbatim>\<open>features/channels/lib/upstream-update-utils.ts\<close>,
    \<^verbatim>\<open>features/channels/hooks/use-channel-upstream-updates.ts\<close>): models that an upstream added or removed.
    The hook is a step relation over clicks and replies; the interface \<open>guarded_operation\<close> states what
    a lock in front of a request gives, and every kind of request interprets it.
  \<^item> \<open>Attachments\<close> (\<^verbatim>\<open>features/playground/lib/attachments.ts\<close> and the handlers of
    \<^verbatim>\<open>features/playground/components/playground-input.tsx\<close>): images and text files of a prompt. The
    file reader and the case conversion of the browser are parameters.
  \<^item> \<open>ChannelMisc\<close> (\<^verbatim>\<open>channel-type-config.ts\<close>, \<^verbatim>\<open>channel-form-errors.ts\<close>, \<^verbatim>\<open>multi-key-utils.ts\<close>,
    \<^verbatim>\<open>ollama-utils.ts\<close>): the small libraries of the channel pages.
  \<^item> \<open>NavModules\<close> (\<^verbatim>\<open>lib/nav-modules.ts\<close>, \<^verbatim>\<open>hooks/use-top-nav-links.ts\<close>,
    \<^verbatim>\<open>features/system-settings/maintenance/config.ts\<close> and the guards of three routes): what the settings
    page saves about the header and the sidebar is what header, routes and sidebar enforce.
  \<^item> \<open>PricingFilters\<close> (\<^verbatim>\<open>features/pricing/lib/filters.ts\<close>, \<^verbatim>\<open>hooks/use-filters.ts\<close>,
    \<^verbatim>\<open>components/pricing-sidebar.tsx\<close>): filters, order and counts of the model square.
  \<^item> \<open>Notifications\<close> (\<^verbatim>\<open>hooks/use-notifications.ts\<close>, \<^verbatim>\<open>stores/notification-store.ts\<close>): the notice and
    the announcements and which of them were read. The hash is a \<open>32 word\<close>; the interface of the step
    relation states that read marks only grow.
  \<^item> \<open>DashboardCharts\<close> (\<^verbatim>\<open>features/dashboard/lib/charts.ts\<close>, \<^verbatim>\<open>lib/time.ts\<close>): the rows of the charts and
    that they add up to the records.
  \<^item> \<open>UsageLogs\<close> (\<^verbatim>\<open>features/usage-logs\<close>): from the entered filters over the URL to the requests of the
    table and of the statistics, which read the clock separately, and the tier and prices that a log
    entry shows.
  \<^item> \<open>QuotaForms\<close> (\<^verbatim>\<open>lib/currency.ts\<close>, \<^verbatim>\<open>lib/format.ts\<close>, the forms of keys, redemption codes and plans,
    the dialogs for transfers and adjustments): quotas shown as amounts and saved again; the interface
    \<open>amount_codec\<close> is the law on which the forms rely. The form of a key includes the correction of its
    group when the drawer opens.

  \<^bold>\<open>How they interact.\<close> The components share no mutable state but \<^verbatim>\<open>localStorage\<close>, which the
  playground and the status cache of \<open>NavModules\<close> write under keys of their own; they call each other only where a theory imports another. The chat handler
  calls the message functions and the persistence, the stream request calls the chat handler back.
  The dialog of the parameter overrides calls the functions of its file and shares the counter of
  identifiers with them. The channel form calls the credential check, the validation of custom routes
  and the helpers for groups; the tier parser shares the version prefix and the price variables with
  the request rules. The settings that the channel form saves are the text from which the channel list
  reads the offered models: the theorem of this theory composes the two. The configuration that the
  settings page saves is read by the guards of the routes and, merged with the user's own, by the
  sidebar: \<open>NavModules\<close> composes its parsers with those of \<open>Sidebar\<close>.

  \<^bold>\<open>Not modelled.\<close> The Go server; the older frontend under \<^verbatim>\<open>src/web/classic\<close>; rendering in the
  \<^verbatim>\<open>tsx\<close> files, whose behaviour is that of React and the component libraries; the modules that only
  send requests (\<^verbatim>\<open>api.ts\<close>); translations; formatting of dates and currencies, which goes through
  the date library and the browser's number formats. Of the modelled files: the colours, styling and
  tooltips of \<^verbatim>\<open>charts.ts\<close>; the balance and time
  formats of \<^verbatim>\<open>channel-utils.ts\<close>; \<^verbatim>\<open>evalExprLocally\<close> of \<^verbatim>\<open>tier-expr.ts\<close>, which compiles the expression as
  JavaScript; the order in which the schema library runs its checks; the search schema of the usage
  logs, which leaves what the filter bar writes unchanged. A parsed object with an own property
  \<^verbatim>\<open>toString\<close>, on which conversions throw, is followed in \<open>ParamOverride\<close>, \<open>BillingExpr\<close>, \<open>Notifications\<close>
  and \<open>UpstreamUpdates\<close>; in the other theories conversions are total.
\<close>

section \<open>The channel form and the offered models\<close>

text \<open>C28: for a channel of a type whose models can be fetched, the update check that a form saves is the
  one that the channel list shows: it is enabled exactly when the form says so, and switching it off
  withdraws the models offered for addition. The models offered for removal stay as they were, also
  when it is switched off. (Hypotheses: the stored settings are an object, the texts and numbers of the
  form are ones that JSON carries, and the stored lists of models are ones that the list can read.)\<close>

theorem saved_form_shows_updates:
  assumes ok: "form_json_ok fd" and fetchable: "f_type fd \<in> set MODEL_FETCHABLE_TYPES"
    and saved: "buildSettingsJSON fd = Some t" and old: "existing_settings fd = JObj p"
    and removed: "normalizeModelList (val_at p (js ''upstream_model_update_last_removed_models'')) = Some rem"
    and readable: "\<And>xs. val_at p (js ''upstream_model_update_last_detected_models'') = JArr xs \<Longrightarrow> \<not> list_ex str_throws xs"
  shows "parseUpstreamUpdateMeta (JStr t) =
    Some \<lparr>meta_enabled = (f_check_enabled fd = Some True),
          pendingAddModels =
            (case val_at p (js ''upstream_model_update_last_detected_models'') of
               JArr xs \<Rightarrow> if f_check_enabled fd = Some True then the (normalizeModelList (JArr xs)) else []
             | _ \<Rightarrow> []),
          pendingRemoveModels = rem\<rparr>"
proof -
  have t: "t = json_stringify (JObj (settings_props fd p))" using saved old by (simp add: buildSettingsJSON_def)
  have "json_parse t = Some (JObj (settings_props fd p))"
    unfolding t by (intro json_round_trip settings_props_ok ok old)
  then have parsed: "parse_or_null t = JObj (settings_props fd p)" by (simp add: parse_or_null_def)
  have val: "val_at (settings_props fd p) k = (case settings_table fd p k of Some v \<Rightarrow> v | None \<Rightarrow> JUndef)" for k
    by (simp add: val_at_def settings_props_table)
  have enabled: "val_at (settings_props fd p) (js ''upstream_model_update_check_enabled'') = JBool (f_check_enabled fd = Some True)"
    using fetchable by (simp add: val settings_table_def type_settings_def upstream_table_def Let_def)
  have detected: "val_at (settings_props fd p) (js ''upstream_model_update_last_detected_models'') =
      (case val_at p (js ''upstream_model_update_last_detected_models'') of
         JArr xs \<Rightarrow> if f_check_enabled fd = Some True then JArr xs else JArr [] | _ \<Rightarrow> JArr [])"
    using fetchable by (simp add: val settings_table_def type_settings_def upstream_table_def Let_def split: jsval.split)
  have kept: "val_at (settings_props fd p) (js ''upstream_model_update_last_removed_models'') =
      val_at p (js ''upstream_model_update_last_removed_models'')"
    using fetchable unfolding val
    by (simp add: settings_table_def type_settings_def upstream_table_def Let_def val_at_def)
  have list: "normalizeModelList (val_or v (JArr [])) = normalizeModelList v" for v
    by (simp add: val_or_def normalizeModelList_def uniq_def)
  have add: "normalizeModelList (val_at (settings_props fd p) (js ''upstream_model_update_last_detected_models'')) =
      Some (case val_at p (js ''upstream_model_update_last_detected_models'') of
         JArr xs \<Rightarrow> if f_check_enabled fd = Some True then the (normalizeModelList (JArr xs)) else [] | _ \<Rightarrow> [])"
    unfolding detected using readable by (simp add: normalizeModelList_def uniq_def split: jsval.split)
  show ?thesis
    unfolding parseUpstreamUpdateMeta_def jsval.case parsed Let_def prop_of_JObj list kept add enabled removed
    by simp
qed

definition checked_form :: ChannelFormValues where
  "checked_form = CHANNEL_FORM_DEFAULT_VALUES
     \<lparr>f_name := js ''a'', f_models := js ''m'', f_check_enabled := Some True,
      f_settings := Some (js ''{\"upstream_model_update_last_detected_models\":[\"x\",\" y \",\"x\"]}'')\<rparr>"

theorem saved_form_shows_updates_witness:
  "\<exists>t. buildSettingsJSON checked_form = Some t \<and>
     parseUpstreamUpdateMeta (JStr t) =
       Some \<lparr>meta_enabled = True, pendingAddModels = [js ''x'', js ''y''], pendingRemoveModels = []\<rparr>"
proof -
  define p where "p = [(js ''upstream_model_update_last_detected_models'', JArr [JStr (js ''x''), JStr (js '' y ''), JStr (js ''x'')])]"
  have ok: "form_json_ok checked_form" "f_type checked_form \<in> set MODEL_FETCHABLE_TYPES" by code_simp+
  have old: "existing_settings checked_form = JObj p" unfolding p_def by code_simp
  have removed: "normalizeModelList (val_at p (js ''upstream_model_update_last_removed_models'')) = Some []"
    unfolding p_def by code_simp
  obtain t where t: "buildSettingsJSON checked_form = Some t" using old by (simp add: buildSettingsJSON_def)
  have "f_check_enabled checked_form = Some True" by (simp add: checked_form_def)
  moreover have "val_at p (js ''upstream_model_update_last_detected_models'') = JArr [JStr (js ''x''), JStr (js '' y ''), JStr (js ''x'')]"
    by (simp add: p_def val_at_def props_get_def)
  moreover have "normalizeModelList (JArr [JStr (js ''x''), JStr (js '' y ''), JStr (js ''x'')]) = Some [js ''x'', js ''y'']" by code_simp
  ultimately show ?thesis using t saved_form_shows_updates [OF ok t old removed] by (simp add: p_def)
qed

end
